(* ===== verification/Kya_Prelude.thy ===== *)
theory Kya_Prelude
  imports Main "HOL-Library.Sublist" "HOL-Library.AList"
begin

text \<open>
  What every component of the development shares: the model of JavaScript strings,
  \<open>Map\<close> and \<open>Set\<close> objects, the state-and-exception type of the asynchronous
  operations, and the collections of rules the component theories fill.

  A JavaScript string is a \<^typ>\<open>string\<close>, one \<^typ>\<open>char\<close> per code unit (code units
  above U+00FF are outside the model unless a theory says otherwise). A \<open>Map\<close> is an
  association list in insertion order (\<open>AList.update\<close> replaces a value in place or
  appends, \<open>AList.delete\<close> removes), a \<open>Set\<close> a list without repetitions in insertion
  order.
\<close>

named_theorems kya_inv "preservation of the component invariants"
named_theorems kya_defs "definitions of thin wrappers, to be unfolded together"

subsection \<open>Strings\<close>

abbreviation startsWith :: "string \<Rightarrow> string \<Rightarrow> bool" where
  "startsWith s p \<equiv> prefix p s"

definition endsWithChar :: "string \<Rightarrow> char \<Rightarrow> bool" where
  "endsWithChar s c \<longleftrightarrow> s \<noteq> [] \<and> last s = c"

text \<open>\<open>split\<close> with a one-character separator class: never the empty list.\<close>

fun splitOn :: "(char \<Rightarrow> bool) \<Rightarrow> string \<Rightarrow> string list" where
  "splitOn P [] = [[]]"
| "splitOn P (c # cs) =
     (if P c then [] # splitOn P cs
      else (case splitOn P cs of [] \<Rightarrow> [[c]] | s # ss \<Rightarrow> (c # s) # ss))"

lemma splitOn_not_Nil [simp]: "splitOn P s \<noteq> []"
  by (cases s) (auto split: list.splits)

lemma splitOn_clean: "\<forall>c \<in> set xs. \<not> P c \<Longrightarrow> splitOn P xs = [xs]"
  by (induction xs) auto

lemma splitOn_append: "\<forall>c \<in> set xs. \<not> P c \<Longrightarrow> P z \<Longrightarrow> splitOn P (xs @ z # ys) = xs # splitOn P ys"
  by (induction xs) auto

text \<open>White space to \<open>trim\<close> and the white space class of a regular expression, among the characters of a HOL string (code units below 256).\<close>

definition isTrimSpace :: "char \<Rightarrow> bool" where
  "isTrimSpace c \<longleftrightarrow> (of_char c :: nat) \<in> {9, 10, 11, 12, 13, 32, 160}"

text \<open>JavaScript truthiness of an optional string: \<open>undefined\<close>, \<open>null\<close> and \<open>''\<close> are falsy.\<close>

fun truthy :: "string option \<Rightarrow> bool" where
  "truthy None = False"
| "truthy (Some s) = (s \<noteq> [])"

lemma truthy_iff: "truthy x \<longleftrightarrow> (\<exists>s. x = Some s \<and> s \<noteq> [])"
  by (cases x) auto

text \<open>A separator that does not occur on its left splits a string in one way only.\<close>

lemma append_sep_inject:
  assumes "xs @ z # ys = xs' @ z # ys'" and "z \<notin> set xs" and "z \<notin> set xs'"
  shows "xs = xs' \<and> ys = ys'"
  using assms
proof (induction xs arbitrary: xs')
  case Nil
  then show ?case by (cases xs') auto
next
  case (Cons x xs)
  then show ?case by (cases xs') auto
qed

subsection \<open>Numbers\<close>

text \<open>A JavaScript number as an integer check sees it: an integer, or a fraction, infinity or NaN.\<close>

datatype js_number = JsInteger int | JsNonInteger

definition MAX_SAFE_INTEGER :: nat where
  "MAX_SAFE_INTEGER = 9007199254740991"

subsection \<open>Sets in insertion order\<close>

definition js_add :: "'a \<Rightarrow> 'a list \<Rightarrow> 'a list" where
  "js_add x s = (if x \<in> set s then s else s @ [x])"

definition js_set :: "'a list \<Rightarrow> 'a list" where
  "js_set xs = fold js_add xs []"

lemma set_js_add [simp]: "set (js_add x s) = insert x (set s)"
  by (auto simp: js_add_def)

lemma distinct_js_add [simp]: "distinct s \<Longrightarrow> distinct (js_add x s)"
  by (auto simp: js_add_def)

lemma set_fold_js_add [simp]: "set (fold js_add xs s) = set s \<union> set xs"
  by (induction xs arbitrary: s) auto

lemma distinct_fold_js_add: "distinct s \<Longrightarrow> distinct (fold js_add xs s)"
  by (induction xs arbitrary: s) auto

lemma set_js_set [simp]: "set (js_set xs) = set xs"
  by (simp add: js_set_def)

lemma distinct_js_set [simp]: "distinct (js_set xs)"
  by (simp add: js_set_def distinct_fold_js_add)

lemma length_js_set: "length (js_set xs) = card (set xs)"
  using distinct_card [OF distinct_js_set [of xs]] by simp

subsection \<open>Maps in insertion order\<close>

type_synonym ('k, 'v) jsmap = "('k \<times> 'v) list"

abbreviation jm_get :: "('k, 'v) jsmap \<Rightarrow> 'k \<Rightarrow> 'v option" where
  "jm_get m k \<equiv> map_of m k"

abbreviation jm_set :: "'k \<Rightarrow> 'v \<Rightarrow> ('k, 'v) jsmap \<Rightarrow> ('k, 'v) jsmap" where
  "jm_set k v m \<equiv> AList.update k v m"

abbreviation jm_delete :: "'k \<Rightarrow> ('k, 'v) jsmap \<Rightarrow> ('k, 'v) jsmap" where
  "jm_delete k m \<equiv> AList.delete k m"

abbreviation jm_has :: "('k, 'v) jsmap \<Rightarrow> 'k \<Rightarrow> bool" where
  "jm_has m k \<equiv> map_of m k \<noteq> None"

abbreviation jm_keys :: "('k, 'v) jsmap \<Rightarrow> 'k list" where
  "jm_keys m \<equiv> map fst m"

lemma jm_get_set [simp]: "jm_get (jm_set k v m) k' = (if k' = k then Some v else jm_get m k')"
  by (simp add: update_conv')

lemma jm_get_delete [simp]: "jm_get (jm_delete k m) k' = (if k' = k then None else jm_get m k')"
  by (simp add: delete_conv')

lemma jm_set_keys: "set (jm_keys (jm_set k v m)) = insert k (set (jm_keys m))"
  using dom_update [of k v m] by (auto simp: dom_map_of_conv_image_fst)

lemma jm_distinct_set [simp]: "distinct (jm_keys m) \<Longrightarrow> distinct (jm_keys (jm_set k v m))"
  by (rule distinct_update)

lemma jm_distinct_delete [simp]: "distinct (jm_keys m) \<Longrightarrow> distinct (jm_keys (jm_delete k m))"
  by (rule distinct_delete)

subsection \<open>State and exceptions\<close>

text \<open>
  An operation that may throw and that changes state: it returns the error or the value,
  and the state as it stands when the operation ends. A throw does not undo the writes
  made before it.
\<close>

type_synonym ('e, 's, 'a) act = "'s \<Rightarrow> ('e + 'a) \<times> 's"

definition act_return :: "'a \<Rightarrow> ('e, 's, 'a) act" where
  "act_return a = (\<lambda>s. (Inr a, s))"

definition act_throw :: "'e \<Rightarrow> ('e, 's, 'a) act" where
  "act_throw e = (\<lambda>s. (Inl e, s))"

definition act_bind :: "('e, 's, 'a) act \<Rightarrow> ('a \<Rightarrow> ('e, 's, 'b) act) \<Rightarrow> ('e, 's, 'b) act" where
  "act_bind m f = (\<lambda>s. case m s of (Inl e, s') \<Rightarrow> (Inl e, s') | (Inr a, s') \<Rightarrow> f a s')"

text \<open>A pure computation that may fail, run in a state it leaves alone.\<close>

definition act_lift :: "'e + 'a \<Rightarrow> ('e, 's, 'a) act" where
  "act_lift r = (\<lambda>s. (r, s))"

lemma act_lift_simp [simp]: "act_lift r s = (r, s)"
  by (simp add: act_lift_def)

lemma act_return_simp [simp]: "act_return a s = (Inr a, s)"
  by (simp add: act_return_def)

lemma act_throw_simp [simp]: "act_throw e s = (Inl e, s)"
  by (simp add: act_throw_def)

lemma act_bind_Inl [simp]: "m s = (Inl e, s') \<Longrightarrow> act_bind m f s = (Inl e, s')"
  by (simp add: act_bind_def)

lemma act_bind_Inr [simp]: "m s = (Inr a, s') \<Longrightarrow> act_bind m f s = f a s'"
  by (simp add: act_bind_def)

lemma act_bind_InrE:
  assumes "act_bind m f s = (Inr b, t)"
  obtains a s' where "m s = (Inr a, s')" and "f a s' = (Inr b, t)"
  using assms by (auto simp: act_bind_def split: prod.splits sum.splits)

lemma act_bind_lift: "act_bind (act_lift r) f s = (case r of Inl e \<Rightarrow> (Inl e, s) | Inr a \<Rightarrow> f a s)"
  by (auto simp: act_bind_def split: sum.splits)

end
