(* ===== verification/Base64.thy ===== *)
theory Base64
  imports Kya_Prelude "HOL-Library.Word"
begin

text \<open>
  \<open>src/utils/base64.ts\<close> on a runtime that has \<open>btoa\<close> and \<open>atob\<close> (Node 18 and later,
  browsers, Workers): the base64url and base64 coding of byte arrays, with the two
  built-ins written out over 6-bit values. A byte is an \<^typ>\<open>8 word\<close>.
\<close>

type_synonym bytes = "8 word list"

subsection \<open>The alphabet\<close>

definition base64Alphabet :: string where
  "base64Alphabet = ''ABCDEFGHIJKLMNOPQRSTUVWXYZabcdefghijklmnopqrstuvwxyz0123456789+/''"

fun indexOf :: "'a \<Rightarrow> 'a list \<Rightarrow> nat option" where
  "indexOf x [] = None"
| "indexOf x (y # ys) = (if x = y then Some 0 else map_option Suc (indexOf x ys))"

definition b64char :: "nat \<Rightarrow> char" where
  "b64char i = base64Alphabet ! i"

definition b64index :: "char \<Rightarrow> nat option" where
  "b64index c = indexOf c base64Alphabet"

lemma indexOf_nth: "distinct xs \<Longrightarrow> i < length xs \<Longrightarrow> indexOf (xs ! i) xs = Some i"
  by (induction xs arbitrary: i) (auto simp: nth_Cons split: nat.splits)

lemma indexOf_Some: "indexOf x xs = Some i \<Longrightarrow> i < length xs \<and> xs ! i = x"
  by (induction xs arbitrary: i) (auto split: if_splits)

lemma indexOf_None_iff: "indexOf x xs = None \<longleftrightarrow> x \<notin> set xs"
  by (induction xs) auto

lemma base64Alphabet_distinct: "distinct base64Alphabet"
  by (simp add: base64Alphabet_def)

lemma base64Alphabet_length: "length base64Alphabet = 64"
  by (simp add: base64Alphabet_def)

lemma b64index_b64char [simp]: "i < 64 \<Longrightarrow> b64index (b64char i) = Some i"
  by (simp add: b64index_def b64char_def indexOf_nth base64Alphabet_distinct base64Alphabet_length)

lemma b64char_in: "i < 64 \<Longrightarrow> b64char i \<in> set base64Alphabet"
  by (simp add: b64char_def base64Alphabet_length)

subsection \<open>Bytes and 6-bit values\<close>

fun sextets :: "nat list \<Rightarrow> nat list" where
  "sextets [] = []"
| "sextets [a] = [a div 4, (a mod 4) * 16]"
| "sextets [a, b] = [a div 4, (a mod 4) * 16 + b div 16, (b mod 16) * 4]"
| "sextets (a # b # c # rest) =
     [a div 4, (a mod 4) * 16 + b div 16, (b mod 16) * 4 + c div 64, c mod 64] @ sextets rest"

fun octets :: "nat list \<Rightarrow> nat list" where
  "octets (p # q # r # s # rest) =
     [p * 4 + q div 16, (q mod 16) * 16 + r div 4, (r mod 4) * 64 + s] @ octets rest"
| "octets [p, q, r] = [p * 4 + q div 16, (q mod 16) * 16 + r div 4]"
| "octets [p, q] = [p * 4 + q div 16]"
| "octets _ = []"

lemma sextets_small: "\<forall>b \<in> set bs. b < 256 \<Longrightarrow> \<forall>d \<in> set (sextets bs). d < 64"
  by (induction bs rule: sextets.induct) auto

lemma octets_sextets: "\<forall>b \<in> set bs. b < 256 \<Longrightarrow> octets (sextets bs) = bs"
  by (induction bs rule: sextets.induct) auto

lemma sextets_length: "length (sextets bs) mod 4 = (if length bs mod 3 = 0 then 0 else Suc (length bs mod 3))"
  by (induction bs rule: sextets.induct) (auto simp: mod_Suc split: if_splits)

subsection \<open>\<open>btoa\<close> and \<open>atob\<close>\<close>

definition padding :: "nat \<Rightarrow> string" where
  "padding n = replicate ((4 - n mod 4) mod 4) (CHR ''='')"

definition btoa :: "bytes \<Rightarrow> string" where
  "btoa bs = (let s = map b64char (sextets (map unat bs)) in s @ padding (length s))"

definition stripPadding :: "string \<Rightarrow> string" where
  "stripPadding s =
     (if length s mod 4 = 0 then
        (if endsWithChar s (CHR ''='') then
           (let t = butlast s in if endsWithChar t (CHR ''='') then butlast t else t)
         else s)
      else s)"

definition isAsciiWhitespace :: "char \<Rightarrow> bool" where
  "isAsciiWhitespace c \<longleftrightarrow> c \<in> set [CHR 0x09, CHR 0x0A, CHR 0x0C, CHR 0x0D, CHR '' '']"

text \<open>\<open>atob\<close> drops white space and at most two trailing \<open>=\<close>, and throws on any other character
  outside the alphabet or on a length of one modulo four.\<close>

definition atob :: "string \<Rightarrow> bytes option" where
  "atob s =
     (let t = stripPadding (filter (\<lambda>c. \<not> isAsciiWhitespace c) s)
      in if length t mod 4 = 1 \<or> (\<exists>c \<in> set t. b64index c = None) then None
         else Some (map of_nat (octets (map (\<lambda>c. the (b64index c)) t))))"

subsection \<open>The utilities\<close>

definition toUrlChar :: "char \<Rightarrow> char" where
  "toUrlChar c = (if c = CHR ''+'' then CHR ''-'' else if c = CHR ''/'' then CHR ''_'' else c)"

definition fromUrlChar :: "char \<Rightarrow> char" where
  "fromUrlChar c = (if c = CHR ''-'' then CHR ''+'' else if c = CHR ''_'' then CHR ''/'' else c)"

definition addPadding :: "string \<Rightarrow> string" where
  "addPadding s = (if length s mod 4 = 0 then s else s @ padding (length s))"

definition base64urlEncodeFromBytes :: "bytes \<Rightarrow> string" where
  "base64urlEncodeFromBytes bs = filter (\<lambda>c. c \<noteq> CHR ''='') (map toUrlChar (btoa bs))"

definition base64urlDecodeToBytes :: "string \<Rightarrow> bytes option" where
  "base64urlDecodeToBytes s = atob (map fromUrlChar (addPadding s))"

definition bytesToBase64 :: "bytes \<Rightarrow> string" where
  "bytesToBase64 bs = btoa bs"

definition base64ToBytes :: "string \<Rightarrow> bytes option" where
  "base64ToBytes s =
     (let standard = map fromUrlChar s in atob (standard @ padding (length standard)))"

subsection \<open>Round trips\<close>

lemma alphabet_plain:
  "\<forall>c \<in> set base64Alphabet. c \<noteq> CHR ''='' \<and> \<not> isAsciiWhitespace c \<and> fromUrlChar c = c \<and>
     fromUrlChar (toUrlChar c) = c \<and> toUrlChar c \<noteq> CHR ''=''"
  by code_simp

lemma byte_bound: "\<forall>b \<in> set (map unat bs). b < 256" for bs :: bytes
proof
  fix b assume "b \<in> set (map unat bs)"
  then obtain w :: "8 word" where "b = unat w" by auto
  then show "b < 256" using unsigned_less [of w] by simp
qed

lemma padding_stripped:
  assumes "\<forall>c \<in> set t. c \<noteq> CHR ''=''" and "length t mod 4 \<noteq> 1"
  shows "stripPadding (t @ padding (length t)) = t"
proof -
  have "length t mod 4 = 0 \<or> length t mod 4 = 2 \<or> length t mod 4 = 3"
    using assms(2) mod_less_divisor [of 4 "length t"] by linarith
  then show ?thesis
  proof (elim disjE)
    assume 0: "length t mod 4 = 0"
    with assms(1) show ?thesis
      by (cases t rule: rev_cases) (simp_all add: padding_def stripPadding_def endsWithChar_def)
  next
    assume 2: "length t mod 4 = 2"
    then have "(length t + 2) mod 4 = 0" by presburger
    with 2 show ?thesis
      by (simp add: padding_def stripPadding_def endsWithChar_def butlast_append numeral_2_eq_2)
  next
    assume 3: "length t mod 4 = 3"
    then have "Suc (length t) mod 4 = 0" by presburger
    with 3 assms(1) show ?thesis
      by (cases t rule: rev_cases)
        (simp_all add: padding_def stripPadding_def endsWithChar_def Let_def butlast_append)
  qed
qed

lemma padding_full: "padding (length (t @ padding (length t))) = []"
proof -
  have round: "(r + (4 - r) mod 4) mod 4 = 0" if "r < 4" for r :: nat
    using that by (cases "r = 0") auto
  have "(length t + (4 - length t mod 4) mod 4) mod 4 = 0"
    using round [of "length t mod 4"] by (simp add: mod_add_left_eq)
  then show ?thesis
    unfolding padding_def length_append length_replicate by (simp only: diff_zero mod_self replicate_0)
qed

lemma padding_set: "\<forall>c \<in> set (padding n). c = CHR ''=''"
  by (simp add: padding_def)

lemma padding_url [simp]: "map fromUrlChar (padding n) = padding n"
  by (simp add: padding_def fromUrlChar_def)

text \<open>Every byte array is decoded from its own 6-bit text, whatever the padding step.\<close>

lemma atob_sextets:
  assumes "t = map b64char (sextets (map unat bs))"
  shows "atob (t @ padding (length t)) = Some bs"
proof -
  have small: "\<forall>d \<in> set (sextets (map unat bs)). d < 64"
    by (rule sextets_small) (rule byte_bound)
  then have t: "\<forall>c \<in> set t. c \<in> set base64Alphabet"
    using assms by (auto intro: b64char_in)
  have len: "length t mod 4 \<noteq> 1"
    using assms sextets_length [of "map unat bs"] by (auto split: if_splits)
  have ws: "filter (\<lambda>c. \<not> isAsciiWhitespace c) (t @ padding (length t)) = t @ padding (length t)"
  proof (rule filter_True, rule ballI)
    have "\<not> isAsciiWhitespace (CHR ''='')" by (simp add: isAsciiWhitespace_def)
    then show "\<not> isAsciiWhitespace c" if "c \<in> set (t @ padding (length t))" for c
      using that t alphabet_plain padding_set [of "length t"] by (metis Un_iff set_append)
  qed
  have strip: "stripPadding (t @ padding (length t)) = t"
    using t alphabet_plain len by (intro padding_stripped) auto
  have idx: "\<forall>c \<in> set t. b64index c \<noteq> None"
    unfolding assms using small by (simp add: ball_simps)
  have inv: "map (\<lambda>c. the (b64index c)) t = sextets (map unat bs)"
    unfolding assms map_map by (rule map_idI) (simp add: small [rule_format])
  have "map of_nat (octets (sextets (map unat bs))) = bs"
    using octets_sextets [OF byte_bound] by (simp add: map_idI)
  with ws strip idx inv len show ?thesis
    by (auto simp: atob_def Let_def)
qed

lemma atob_btoa: "atob (btoa bs) = Some bs"
  unfolding btoa_def Let_def by (rule atob_sextets) (rule refl)

lemma url_text:
  assumes "t = map b64char (sextets (map unat bs))"
  shows "base64urlEncodeFromBytes bs = map toUrlChar t" and "map fromUrlChar (map toUrlChar t) = t"
    and "map fromUrlChar t = t"
proof -
  have "\<forall>c \<in> set t. c \<in> set base64Alphabet"
    using assms sextets_small [OF byte_bound] by (auto intro: b64char_in)
  then have t: "\<forall>c \<in> set t. toUrlChar c \<noteq> CHR ''='' \<and> fromUrlChar (toUrlChar c) = c \<and> fromUrlChar c = c"
    using alphabet_plain by blast
  have pad: "filter (\<lambda>c. c \<noteq> CHR ''='') (map toUrlChar (padding (length t))) = []"
    using padding_set [of "length t"] by (auto simp: filter_empty_conv toUrlChar_def)
  have keep: "filter (\<lambda>c. c \<noteq> CHR ''='') (map toUrlChar t) = map toUrlChar t"
    using t by (auto simp: filter_id_conv)
  show "base64urlEncodeFromBytes bs = map toUrlChar t"
    unfolding base64urlEncodeFromBytes_def btoa_def Let_def assms [symmetric] map_append filter_append
    by (simp only: pad keep append_Nil2)
  show "map fromUrlChar (map toUrlChar t) = t" "map fromUrlChar t = t"
    using t by (simp_all add: map_idI)
qed

lemma base64url_inverse: "base64urlDecodeToBytes (base64urlEncodeFromBytes bs) = Some bs"
proof -
  define t where "t = map b64char (sextets (map unat bs))"
  have "map fromUrlChar (addPadding (map toUrlChar t)) = t @ padding (length t)"
    using url_text(2) [OF t_def] by (simp add: addPadding_def) (simp add: padding_def)
  then show ?thesis
    using url_text(1) [OF t_def] atob_sextets [OF t_def] by (simp add: base64urlDecodeToBytes_def)
qed

text \<open>the byte codecs round-trip. Decoding the base64url text of any byte array gives the array
  back, and so does decoding its base64 text, padded or not.\<close>

theorem base64_round_trips:
  "base64urlDecodeToBytes (base64urlEncodeFromBytes bs) = Some bs \<and>
   base64ToBytes (bytesToBase64 bs) = Some bs \<and>
   base64ToBytes (base64urlEncodeFromBytes bs) = Some bs"
proof (intro conjI)
  define t where "t = map b64char (sextets (map unat bs))"
  show "base64urlDecodeToBytes (base64urlEncodeFromBytes bs) = Some bs" by (rule base64url_inverse)
  show "base64ToBytes (base64urlEncodeFromBytes bs) = Some bs"
    using url_text [OF t_def] atob_sextets [OF t_def] by (simp add: base64ToBytes_def Let_def)
  show "base64ToBytes (bytesToBase64 bs) = Some bs"
    unfolding base64ToBytes_def bytesToBase64_def btoa_def Let_def t_def [symmetric] map_append
      url_text(3) [OF t_def] padding_url padding_full append_Nil2
    by (rule atob_sextets [OF t_def])
qed

end
