(* ===== verification/Status_Bits.thy ===== *)
theory Status_Bits
  imports Base64 "HOL-Library.More_List"
begin

unbundle bit_operations_syntax

text \<open>
  \<open>src/utils/statuslist-bits.ts\<close> and \<open>src/delegation/bitstring.ts\<close>: the status-list
  mechanics every reader and publisher shares. A status bitstring is a byte list, index 0
  the most significant bit of the first byte. The GZIP compressor and decompressor are
  parameters; a call that throws returns \<open>Inl\<close>.
\<close>

datatype statusError =
    InvalidIndexText string
  | UnsafeIndex string
  | CompressorNotGzip
  | PayloadNotBase64
  | PayloadNotGzip
  | DecompressorPassThrough
  | StatusListTooLarge nat
  | BitIndexOutOfRange js_number
  | CodecFailure string
  | StatusListNotFound string
  | StatusPurposeMissing string
  | StatusPurposeMismatch string string
  | StatusListFull string nat nat
  | SigningFailure string

definition MAX_STATUS_LIST_BYTES :: nat where
  "MAX_STATUS_LIST_BYTES = 16 * 1024 * 1024"

type_synonym codec = "bytes \<Rightarrow> string + bytes"

subsection \<open>Index parsing\<close>

definition isDigit :: "char \<Rightarrow> bool" where
  "isDigit c \<longleftrightarrow> c \<in> set ''0123456789''"

definition digitValue :: "char \<Rightarrow> nat" where
  "digitValue c = of_char c - 48"

definition decimalValue :: "string \<Rightarrow> nat" where
  "decimalValue s = foldl (\<lambda>n c. 10 * n + digitValue c) 0 s"

definition parseStatusListIndex :: "string \<Rightarrow> statusError + nat" where
  "parseStatusListIndex raw =
     (if \<not> (raw \<noteq> [] \<and> (\<forall>c \<in> set raw. isDigit c)) then Inl (InvalidIndexText raw)
      else (let index = decimalValue raw
            in if MAX_SAFE_INTEGER < index then Inl (UnsafeIndex raw) else Inr index))"

subsection \<open>Payload coding\<close>

fun isGzip :: "bytes \<Rightarrow> bool" where
  "isGzip (a # b # _) = (a = 0x1f \<and> b = 0x8b)"
| "isGzip _ = False"

definition encodeStatusListPayload :: "bytes \<Rightarrow> codec \<Rightarrow> statusError + string" where
  "encodeStatusListPayload bits compress = (case compress bits of
       Inl e \<Rightarrow> Inl (CodecFailure e)
     | Inr compressed \<Rightarrow>
         (if \<not> isGzip compressed then Inl CompressorNotGzip
          else Inr (CHR ''u'' # base64urlEncodeFromBytes compressed)))"

definition decodeStatusListPayload :: "string \<Rightarrow> codec \<Rightarrow> statusError + bytes" where
  "decodeStatusListPayload encodedList decompress =
     (let payload = (case encodedList of [] \<Rightarrow> [] | c # cs \<Rightarrow> if c = CHR ''u'' then cs else encodedList)
      in (case base64urlDecodeToBytes payload of
            None \<Rightarrow> Inl PayloadNotBase64
          | Some compressed \<Rightarrow>
              (if \<not> isGzip compressed then Inl PayloadNotGzip
               else (case decompress compressed of
                   Inl e \<Rightarrow> Inl (CodecFailure e)
                 | Inr inflated \<Rightarrow>
                     (if inflated = compressed then Inl DecompressorPassThrough
                      else if MAX_STATUS_LIST_BYTES < length inflated
                        then Inl (StatusListTooLarge (length inflated))
                      else Inr inflated)))))"

subsection \<open>Reading one bit\<close>

definition bitMask :: "nat \<Rightarrow> 8 word" where
  "bitMask k = drop_bit k 0x80"

fun readStatusBit :: "bytes \<Rightarrow> js_number \<Rightarrow> statusError + bool" where
  "readStatusBit bits JsNonInteger = Inl (BitIndexOutOfRange JsNonInteger)"
| "readStatusBit bits (JsInteger i) =
     (if 0 \<le> i \<and> nat i div 8 < length bits
      then Inr ((bits ! (nat i div 8)) AND bitMask (nat i mod 8) \<noteq> 0)
      else Inl (BitIndexOutOfRange (JsInteger i)))"

subsection \<open>\<open>BitstringManager\<close>\<close>

record bitstringManager =
  bm_bits :: bytes
  bm_size :: nat

definition newBitstring :: "nat \<Rightarrow> bitstringManager" where
  "newBitstring n = \<lparr>bm_bits = replicate ((n + 7) div 8) 0, bm_size = n\<rparr>"

definition indexInRange :: "bitstringManager \<Rightarrow> js_number \<Rightarrow> nat option" where
  "indexInRange m index = (case index of JsNonInteger \<Rightarrow> None
     | JsInteger i \<Rightarrow> if i < 0 \<or> int (bm_size m) \<le> i then None else Some (nat i))"

definition setBit :: "bitstringManager \<Rightarrow> js_number \<Rightarrow> bool \<Rightarrow> statusError + bitstringManager" where
  "setBit m index value = (case indexInRange m index of
       None \<Rightarrow> Inl (BitIndexOutOfRange index)
     | Some i \<Rightarrow>
         (let byteIndex = i div 8; bitIndex = i mod 8; byte = nth_default 0 (bm_bits m) byteIndex
          in Inr (m\<lparr>bm_bits := (bm_bits m)[byteIndex :=
               (if value then byte OR bitMask bitIndex
                else byte AND (0xff XOR bitMask bitIndex))]\<rparr>)))"

definition getBit :: "bitstringManager \<Rightarrow> js_number \<Rightarrow> statusError + bool" where
  "getBit m index = (case indexInRange m index of
       None \<Rightarrow> Inl (BitIndexOutOfRange index)
     | Some i \<Rightarrow> Inr (nth_default 0 (bm_bits m) (i div 8) AND bitMask (i mod 8) \<noteq> 0))"

definition getSetBits :: "bitstringManager \<Rightarrow> nat list" where
  "getSetBits m = filter (\<lambda>i. getBit m (JsInteger (int i)) = Inr True) [0..<bm_size m]"

definition encodeBitstring :: "codec \<Rightarrow> bitstringManager \<Rightarrow> statusError + string" where
  "encodeBitstring compress m = encodeStatusListPayload (bm_bits m) compress"

definition decodeBitstring :: "codec \<Rightarrow> string \<Rightarrow> statusError + bitstringManager" where
  "decodeBitstring decompress encodedList = (case decodeStatusListPayload encodedList decompress of
       Inl e \<Rightarrow> Inl e
     | Inr decompressed \<Rightarrow> Inr \<lparr>bm_bits = decompressed, bm_size = length decompressed * 8\<rparr>)"

fun setBits :: "bitstringManager \<Rightarrow> js_number list \<Rightarrow> statusError + bitstringManager" where
  "setBits m [] = Inr m"
| "setBits m (i # is) = (case setBit m i True of Inl e \<Rightarrow> Inl e | Inr m' \<Rightarrow> setBits m' is)"

definition fromSetBits :: "nat \<Rightarrow> js_number list \<Rightarrow> statusError + bitstringManager" where
  "fromSetBits n is = setBits (newBitstring n) is"

definition isIndexSet :: "codec \<Rightarrow> string \<Rightarrow> js_number \<Rightarrow> statusError + bool" where
  "isIndexSet decompress encodedList index = (case decodeStatusListPayload encodedList decompress of
       Inl e \<Rightarrow> Inl e | Inr bits \<Rightarrow> readStatusBit bits index)"

subsection \<open>Bits of a byte\<close>

lemma bitMask_push: "k < 8 \<Longrightarrow> bitMask k = push_bit (7 - k) 1"
proof -
  assume "k < 8"
  then have "k \<in> {0, 1, 2, 3, 4, 5, 6, 7}" by auto
  then show ?thesis by (auto simp: bitMask_def)
qed

lemma test_bit: "k < 8 \<Longrightarrow> b AND bitMask k \<noteq> 0 \<longleftrightarrow> bit b (7 - k)"
  by (simp add: bitMask_push bit_iff_and_push_bit_not_eq_0)

lemma byte_all_ones: "(0xff :: 8 word) = -1"
  by simp

lemma bit_byte_set: "k < 8 \<Longrightarrow> j < 8 \<Longrightarrow> bit (b OR bitMask k) (7 - j) \<longleftrightarrow> bit b (7 - j) \<or> j = k"
  by (auto simp: bitMask_push bit_or_iff bit_exp_iff)

lemma bit_byte_clear:
  "k < 8 \<Longrightarrow> j < 8 \<Longrightarrow> bit (b AND (0xff XOR bitMask k)) (7 - j) \<longleftrightarrow> bit b (7 - j) \<and> j \<noteq> k"
  unfolding byte_all_ones
  by (auto simp: bitMask_push bit_and_iff bit_xor_iff bit_not_iff bit_exp_iff)

subsection \<open>The bit store\<close>

definition bitstringWf :: "bitstringManager \<Rightarrow> bool" where
  "bitstringWf m \<longleftrightarrow> bm_size m \<le> length (bm_bits m) * 8"

text \<open>The abstract content: whether each index is set.\<close>

definition bitAt :: "bitstringManager \<Rightarrow> nat \<Rightarrow> bool" where
  "bitAt m i \<longleftrightarrow> bit (nth_default 0 (bm_bits m) (i div 8)) (7 - i mod 8)"

lemma newBitstring_wf: "bitstringWf (newBitstring n)"
  by (simp add: bitstringWf_def newBitstring_def)

lemma newBitstring_clear [simp]: "\<not> bitAt (newBitstring n) i"
  by (simp add: bitAt_def newBitstring_def nth_default_def)

lemma getBit_eq:
  "getBit m (JsInteger i) =
     (if 0 \<le> i \<and> i < int (bm_size m) then Inr (bitAt m (nat i)) else Inl (BitIndexOutOfRange (JsInteger i)))"
  by (auto simp: getBit_def indexInRange_def bitAt_def test_bit)

lemma bitAt_setBit:
  assumes "bitstringWf m" and "setBit m (JsInteger i) v = Inr m'"
  shows "bitAt m' j \<longleftrightarrow> (if j = nat i then v else bitAt m j)"
proof -
  from assms(2) have range: "0 \<le> i" "nat i < bm_size m"
    and m': "m' = m\<lparr>bm_bits := (bm_bits m)[nat i div 8 :=
      (if v then nth_default 0 (bm_bits m) (nat i div 8) OR bitMask (nat i mod 8)
       else nth_default 0 (bm_bits m) (nat i div 8) AND (0xff XOR bitMask (nat i mod 8)))]\<rparr>"
    by (auto simp: setBit_def indexInRange_def Let_def split: if_splits)
  from range assms(1) have len: "nat i div 8 < length (bm_bits m)"
    by (simp add: bitstringWf_def less_mult_imp_div_less)
  show ?thesis
  proof (cases "j div 8 = nat i div 8")
    case True
    then have "j mod 8 = nat i mod 8 \<longleftrightarrow> j = nat i" by (metis div_mult_mod_eq)
    with True len m' show ?thesis
      by (auto simp: bitAt_def nth_default_def bit_byte_set bit_byte_clear)
  next
    case False
    with len m' show ?thesis by (auto simp: bitAt_def nth_default_def)
  qed
qed

lemma setBit_size: "setBit m i v = Inr m' \<Longrightarrow> bm_size m' = bm_size m"
  by (auto simp: setBit_def Let_def split: option.splits)

lemma setBit_length: "setBit m i v = Inr m' \<Longrightarrow> length (bm_bits m') = length (bm_bits m)"
  by (auto simp: setBit_def Let_def split: option.splits)

lemma setBit_wf [kya_inv]: "bitstringWf m \<Longrightarrow> setBit m i v = Inr m' \<Longrightarrow> bitstringWf m'"
  by (simp add: bitstringWf_def setBit_size setBit_length)

lemma setBit_total:
  "(\<exists>m'. setBit m (JsInteger i) v = Inr m') \<longleftrightarrow> 0 \<le> i \<and> i < int (bm_size m)"
  by (auto simp: setBit_def indexInRange_def Let_def)

subsection \<open>The interface of a bit store\<close>

text \<open>
  What the status-list manager needs of a bitstring: bounded writes that succeed, and reads
  that return the last write and nothing else.
\<close>

fun writeAll :: "('b \<Rightarrow> nat \<Rightarrow> bool \<Rightarrow> 'b option) \<Rightarrow> 'b \<Rightarrow> (nat \<times> bool) list \<Rightarrow> 'b option" where
  "writeAll wr b [] = Some b"
| "writeAll wr b ((i, v) # ws) = (case wr b i v of None \<Rightarrow> None | Some b' \<Rightarrow> writeAll wr b' ws)"

locale bit_store =
  fixes rd :: "'b \<Rightarrow> nat \<Rightarrow> bool" and wr :: "'b \<Rightarrow> nat \<Rightarrow> bool \<Rightarrow> 'b option"
    and capacity :: "'b \<Rightarrow> nat" and wf :: "'b \<Rightarrow> bool"
  assumes wr_total: "i < capacity b \<Longrightarrow> wr b i v \<noteq> None"
    and wr_wf: "wf b \<Longrightarrow> wr b i v = Some b' \<Longrightarrow> wf b'"
    and wr_capacity: "wr b i v = Some b' \<Longrightarrow> capacity b' = capacity b"
    and rd_write: "wf b \<Longrightarrow> wr b i v = Some b' \<Longrightarrow> rd b' j = (if j = i then v else rd b j)"
begin

lemma writes_total: "(\<And>i v. (i, v) \<in> set ws \<Longrightarrow> i < capacity b) \<Longrightarrow> writeAll wr b ws \<noteq> None"
proof (induction ws arbitrary: b)
  case (Cons w ws)
  obtain i v where w: "w = (i, v)" by (cases w)
  with Cons.prems wr_total [of i b v] obtain b' where b': "wr b i v = Some b'" by auto
  have "writeAll wr b' ws \<noteq> None"
    by (rule Cons.IH) (use Cons.prems wr_capacity [OF b'] in auto)
  with w b' show ?case by simp
qed simp

lemma writes_wf: "wf b \<Longrightarrow> writeAll wr b ws = Some b' \<Longrightarrow> wf b'"
proof (induction ws arbitrary: b)
  case (Cons w ws)
  then show ?case by (cases w) (auto split: option.splits intro: wr_wf Cons.IH)
qed simp

text \<open>After any sequence of writes an index holds its last written value.\<close>

lemma rd_writes:
  "wf b \<Longrightarrow> writeAll wr b ws = Some b' \<Longrightarrow>
     rd b' j = (case map_of (rev ws) j of None \<Rightarrow> rd b j | Some v \<Rightarrow> v)"
proof (induction ws arbitrary: b)
  case (Cons w ws)
  obtain i v where w: "w = (i, v)" by (cases w)
  with Cons.prems obtain b1 where b1: "wr b i v = Some b1" "writeAll wr b1 ws = Some b'"
    by (auto split: option.splits)
  with Cons have "rd b' j = (case map_of (rev ws) j of None \<Rightarrow> rd b1 j | Some v \<Rightarrow> v)"
    using wr_wf by blast
  with Cons.prems b1 w show ?case by (auto simp: rd_write map_add_def split: option.splits)
qed simp

end

definition writeBit :: "bitstringManager \<Rightarrow> nat \<Rightarrow> bool \<Rightarrow> bitstringManager option" where
  "writeBit m i v = (case setBit m (JsInteger (int i)) v of Inl _ \<Rightarrow> None | Inr m' \<Rightarrow> Some m')"

interpretation bits: bit_store bitAt writeBit bm_size bitstringWf
proof
  fix m m' :: bitstringManager and i j :: nat and v :: bool
  show "i < bm_size m \<Longrightarrow> writeBit m i v \<noteq> None"
    using setBit_total [of m "int i" v] by (auto simp: writeBit_def)
  show "bitstringWf m \<Longrightarrow> writeBit m i v = Some m' \<Longrightarrow> bitstringWf m'"
    by (auto simp: writeBit_def split: sum.splits intro: setBit_wf)
  show "writeBit m i v = Some m' \<Longrightarrow> bm_size m' = bm_size m"
    by (auto simp: writeBit_def setBit_size split: sum.splits)
  show "bitstringWf m \<Longrightarrow> writeBit m i v = Some m' \<Longrightarrow> bitAt m' j = (if j = i then v else bitAt m j)"
    by (auto simp: writeBit_def bitAt_setBit split: sum.splits)
qed

lemma setBits_writes:
  "setBits m (map (\<lambda>i. JsInteger (int i)) is) = Inr m' \<Longrightarrow>
     writeAll writeBit m (map (\<lambda>i. (i, True)) is) = Some m'"
  by (induction "is" arbitrary: m) (auto simp: writeBit_def split: sum.splits)

lemma map_of_True: "map_of (map (\<lambda>i. (i, True)) is) j = (if j \<in> set is then Some True else None)"
  by (induction "is") auto

lemma fromSetBits_bitAt:
  assumes "fromSetBits n (map (\<lambda>i. JsInteger (int i)) is) = Inr m"
  shows "bitAt m j \<longleftrightarrow> j \<in> set is"
  using bits.rd_writes [OF newBitstring_wf setBits_writes [OF assms [unfolded fromSetBits_def]], of j]
  by (simp add: rev_map map_of_True)

text \<open>a status bitstring is an array of independent bits. Setting an index inside the list
  succeeds, changes that index to the written value and leaves every other index and the size
  as they were; an index outside the list, a fraction or NaN is refused.\<close>

theorem setBit_updates_exactly_one_bit:
  assumes "bitstringWf m"
  shows "(setBit m (JsInteger i) v = Inl (BitIndexOutOfRange (JsInteger i)) \<and>
            (i < 0 \<or> int (bm_size m) \<le> i)) \<or>
         (\<exists>m'. setBit m (JsInteger i) v = Inr m' \<and> 0 \<le> i \<and> i < int (bm_size m) \<and>
            bitstringWf m' \<and> bm_size m' = bm_size m \<and>
            (\<forall>j. getBit m' (JsInteger j) = (if j = i then Inr v else getBit m (JsInteger j))))"
proof (cases "0 \<le> i \<and> i < int (bm_size m)")
  case True
  then obtain m' where m': "setBit m (JsInteger i) v = Inr m'" using setBit_total by blast
  have "getBit m' (JsInteger j) = (if j = i then Inr v else getBit m (JsInteger j))" for j
    using True bitAt_setBit [OF assms m', of "nat j"] by (auto simp: getBit_eq setBit_size [OF m'])
  with True m' show ?thesis
    using setBit_wf [OF assms m'] setBit_size [OF m'] by blast
next
  case False
  then show ?thesis by (auto simp: setBit_def indexInRange_def)
qed

theorem setBit_updates_exactly_one_bit_witness:
  "\<exists>m'. setBit (newBitstring 16) (JsInteger 9) True = Inr m' \<and>
     getBit m' (JsInteger 9) = Inr True \<and> getBit m' (JsInteger 8) = Inr False"
proof -
  have clear: "getBit (newBitstring 16) (JsInteger 8) = Inr False"
    by (simp add: getBit_eq newBitstring_def bitAt_def nth_default_def)
  have size: "bm_size (newBitstring 16) = 16" by (simp add: newBitstring_def)
  from setBit_updates_exactly_one_bit [OF newBitstring_wf, of 16 9 True] size
  obtain m' where "setBit (newBitstring 16) (JsInteger 9) True = Inr m'"
    and "\<forall>j. getBit m' (JsInteger j) = (if j = 9 then Inr True else getBit (newBitstring 16) (JsInteger j))"
    by auto
  with clear show ?thesis by auto
qed

subsection \<open>Readers agree\<close>

text \<open>What a GZIP codec does with one bitstring: its output is GZIP, is not the input, and inflates
  back to it.\<close>

definition gzipRoundTrip :: "codec \<Rightarrow> codec \<Rightarrow> bytes \<Rightarrow> bool" where
  "gzipRoundTrip compress decompress b \<longleftrightarrow>
     (\<exists>c. compress b = Inr c \<and> isGzip c \<and> c \<noteq> b \<and> decompress c = Inr b)"

lemma decode_encode_payload:
  assumes "gzipRoundTrip compress decompress b" and "length b \<le> MAX_STATUS_LIST_BYTES"
    and "encodeStatusListPayload b compress = Inr text"
  shows "decodeStatusListPayload text decompress = Inr b"
  using assms
  by (auto simp: gzipRoundTrip_def encodeStatusListPayload_def decodeStatusListPayload_def
      base64url_inverse Let_def split: if_splits sum.splits)

lemma readStatusBit_eq:
  "readStatusBit b (JsInteger i) = (if 0 \<le> i \<and> i < int (length b) * 8
     then Inr (bit (b ! (nat i div 8)) (7 - nat i mod 8)) else Inl (BitIndexOutOfRange (JsInteger i)))"
proof -
  have "nat i div 8 < length b \<longleftrightarrow> i < int (length b) * 8" if "0 \<le> i"
    using that by (simp add: div_less_iff_less_mult nat_less_iff)
  then show ?thesis by (auto simp: test_bit)
qed

lemma isIndexSet_encode:
  assumes "gzipRoundTrip compress decompress (bm_bits m)" and "length (bm_bits m) \<le> MAX_STATUS_LIST_BYTES"
    and "encodeBitstring compress m = Inr text"
  shows "isIndexSet decompress text i = readStatusBit (bm_bits m) i"
    and "decodeBitstring decompress text = Inr \<lparr>bm_bits = bm_bits m, bm_size = length (bm_bits m) * 8\<rparr>"
  using decode_encode_payload [OF assms(1,2)] assms(3)
  by (auto simp: isIndexSet_def decodeBitstring_def encodeBitstring_def)

text \<open>C15: every reader gives the publisher's verdict. For a list published with a working GZIP
  codec and within the size cap, reading one index straight off the encoded list, and decoding
  it into a manager and asking the manager, both return the bit the publisher set.\<close>

theorem published_bit_read_back:
  assumes "gzipRoundTrip compress decompress (bm_bits m)" and "length (bm_bits m) \<le> MAX_STATUS_LIST_BYTES"
    and "encodeBitstring compress m = Inr text" and "bitstringWf m" and "i < bm_size m"
  shows "isIndexSet decompress text (JsInteger (int i)) = getBit m (JsInteger (int i)) \<and>
    (\<exists>m'. decodeBitstring decompress text = Inr m' \<and>
       getBit m' (JsInteger (int i)) = getBit m (JsInteger (int i)))"
proof -
  have len: "i < length (bm_bits m) * 8" using assms(4,5) by (simp add: bitstringWf_def)
  then have "i div 8 < length (bm_bits m)" by (simp add: less_mult_imp_div_less)
  with len assms(5) isIndexSet_encode [OF assms(1-3)] show ?thesis
    by (simp add: getBit_eq readStatusBit_eq bitAt_def nth_default_def del: readStatusBit.simps)
qed

definition storedGzip :: codec where
  "storedGzip b = Inr (0x1f # 0x8b # b)"

definition storedGunzip :: codec where
  "storedGunzip b = (case b of _ # _ # r \<Rightarrow> Inr r | _ \<Rightarrow> Inl ''truncated'')"

lemma storedGzip_roundTrip: "gzipRoundTrip storedGzip storedGunzip b"
proof -
  have "0x1f # 0x8b # b \<noteq> b" by (metis length_Cons n_not_Suc_n Suc_n_not_le_n le_SucI order_refl)
  then show ?thesis by (simp add: gzipRoundTrip_def storedGzip_def storedGunzip_def)
qed

theorem published_bit_read_back_witness:
  "isIndexSet storedGunzip (CHR ''u'' # base64urlEncodeFromBytes [0x1f, 0x8b, 0x00, 0x40]) (JsInteger 9) = Inr True"
proof -
  let ?m = "\<lparr>bm_bits = [0x00, 0x40], bm_size = 16\<rparr>"
  have "isIndexSet storedGunzip (CHR ''u'' # base64urlEncodeFromBytes [0x1f, 0x8b, 0x00, 0x40])
      (JsInteger (int 9)) = getBit ?m (JsInteger (int 9))"
    by (rule published_bit_read_back [where m = ?m and compress = storedGzip and i = 9, THEN conjunct1])
      (simp_all add: storedGzip_roundTrip encodeBitstring_def encodeStatusListPayload_def storedGzip_def
        bitstringWf_def MAX_STATUS_LIST_BYTES_def)
  then show ?thesis by (simp add: getBit_def indexInRange_def nth_default_def bitMask_def)
qed

text \<open>an index is read fail-closed. A bit is only ever returned for an integer index inside
  the bitstring, and only for the list's own bit at that index, however large the index is.\<close>

theorem readStatusBit_fail_closed:
  "readStatusBit b n = Inr v \<longleftrightarrow>
     (\<exists>i. n = JsInteger (int i) \<and> i < length b * 8 \<and> v = bit (b ! (i div 8)) (7 - i mod 8))"
proof (cases n)
  case (JsInteger i)
  then show ?thesis
    by (cases "0 \<le> i") (auto simp: readStatusBit_eq nat_less_iff simp del: readStatusBit.simps split: if_splits intro!: exI [of _ "nat i"])
qed simp

text \<open>the strict index parse. It accepts exactly the non-empty digit strings whose value is a
  safe integer, and returns that value, so no white space, sign, hexadecimal or exponent form
  is read as some other index.\<close>

theorem parseStatusListIndex_accepts_digits_only:
  "parseStatusListIndex raw = Inr n \<longleftrightarrow>
     raw \<noteq> [] \<and> list_all isDigit raw \<and> n = decimalValue raw \<and> n \<le> MAX_SAFE_INTEGER"
  by (auto simp: parseStatusListIndex_def Let_def list_all_iff split: if_splits)

text \<open>the parse is not canonical: leading zeros are accepted, so two different index texts
  name the same status bit.\<close>

theorem parseStatusListIndex_leading_zeros:
  "parseStatusListIndex ''007'' = Inr 7 \<and> parseStatusListIndex ''7'' = Inr 7"
  by (simp add: parseStatusListIndex_def isDigit_def decimalValue_def digitValue_def MAX_SAFE_INTEGER_def)

end
