(* ===== verification/Credential.thy ===== *)
theory Credential
  imports Kya_Prelude
begin

text \<open>
  The data of a delegation credential as the verifier reads it (\<open>src/types/protocol.ts\<close>):
  the members chain enforcement, scope matching and status checking use. Credentials are
  untrusted input, so a member that may be absent or of the wrong JavaScript type is
  modelled with its absence.
\<close>

subsection \<open>Values of unchecked type\<close>

text \<open>
  A member declared \<open>string\<close> but read from untrusted JSON: a string, \<open>undefined\<close> or
  \<open>null\<close>, or another value (number, boolean, object) with its \<open>ToString\<close> form.
\<close>

datatype js_value = Str string | Nullish | NonStr string

text \<open>One entry of \<open>constraints.crisp.scopes\<close>: \<open>null\<close>, or an object with its two members.\<close>

datatype crispScope = NullScope | CrispScope (resource: js_value) (matcher: js_value)

subsection \<open>Records\<close>

datatype audience = AudienceOne string | AudienceMany "string list"

record delegationConstraints =
  k_notBefore :: "int option"
  k_notAfter :: "int option"
  k_scopes :: "string list option"
  k_audience :: "audience option"
  k_crispScopes :: "crispScope list option"

text \<open>\<open>credentialSubject.delegation\<close>.\<close>

record delegationSubject =
  d_id :: string
  d_issuerDid :: string
  d_subjectDid :: string
  d_parentId :: "string option"
  d_scopes :: "string list option"
  d_constraints :: "delegationConstraints option"

record credentialStatus =
  cs_id :: "string option"
  cs_type :: string
  cs_statusPurpose :: string
  cs_statusListIndex :: string
  cs_statusListCredential :: string

text \<open>The \<open>issuer\<close> member: a string, an object with its \<open>id\<close> when that is a string, or neither.\<close>

datatype issuerRef = IssuerString string | IssuerObject "string option" | IssuerOther

record delegationCredential =
  vc_id :: "string option"
  vc_issuer :: issuerRef
  vc_expirationDate :: "string option"
  vc_delegation :: "delegationSubject option"
  vc_credentialStatus :: "credentialStatus option"

subsection \<open>Reading a credential\<close>

definition vc_constraints :: "delegationCredential \<Rightarrow> delegationConstraints option" where
  "vc_constraints vc = Option.bind (vc_delegation vc) d_constraints"

text \<open>\<open>credentialIssuerDid\<close>: the DID whose key signed the credential.\<close>

definition credentialIssuerDid :: "delegationCredential \<Rightarrow> string option" where
  "credentialIssuerDid vc = (case vc_issuer vc of
       IssuerString s \<Rightarrow> Some s
     | IssuerObject i \<Rightarrow> i
     | IssuerOther \<Rightarrow> None)"

text \<open>\<open>audience\<close> counts as present unless it is absent or the empty string.\<close>

fun audienceTruthy :: "audience option \<Rightarrow> bool" where
  "audienceTruthy None = False"
| "audienceTruthy (Some (AudienceOne s)) = (s \<noteq> [])"
| "audienceTruthy (Some (AudienceMany _)) = True"

definition verifyDelegationAudience :: "delegationConstraints \<Rightarrow> string \<Rightarrow> bool" where
  "verifyDelegationAudience k serverDid =
     (if \<not> audienceTruthy (k_audience k) then True
      else (case k_audience k of
          None \<Rightarrow> True
        | Some (AudienceOne s) \<Rightarrow> s = serverDid
        | Some (AudienceMany xs) \<Rightarrow> serverDid \<in> set xs))"

text \<open>\<open>audienceIncludes\<close> is what a bound credential promises: the server is named.\<close>

fun audienceIncludes :: "audience option \<Rightarrow> string \<Rightarrow> bool" where
  "audienceIncludes None _ = False"
| "audienceIncludes (Some (AudienceOne s)) d = (s = d)"
| "audienceIncludes (Some (AudienceMany xs)) d = (d \<in> set xs)"

lemma verifyDelegationAudience_bound:
  "verifyDelegationAudience k d \<Longrightarrow> audienceTruthy (k_audience k) \<Longrightarrow> audienceIncludes (k_audience k) d"
  by (auto simp: verifyDelegationAudience_def split: option.splits audience.splits)

lemma verifyDelegationAudience_iff:
  "verifyDelegationAudience k d \<longleftrightarrow>
     (audienceTruthy (k_audience k) \<longrightarrow> audienceIncludes (k_audience k) d)"
  by (auto simp: verifyDelegationAudience_def split: option.splits audience.splits)

end
