(* ===== verification/Delegation_Graph.thy ===== *)
theory Delegation_Graph
  imports Credential Status_Bits
begin

text \<open>
  \<open>src/delegation/delegation-graph.ts\<close>, \<open>src/delegation/delegation-registration.ts\<close> and
  \<open>src/delegation/storage/memory-graph-storage.ts\<close>: the graph manager over a storage provider
  (a record of operations on a store), and the memory provider. A graph is a map from ids to
  nodes. An operation returns its value or the error it throws, with the store it leaves.
\<close>

datatype graphError =
    OwnParent string
  | ParentNotFound string
  | AlreadyRegistered string string
  | DelegationNotFound string
  | ParentCycle string
  | RollbackFailed graphError graphError
  | DepthExceeded nat nat
  | RevocationNotRecorded string
  | StatusError statusError
  | GraphStoreFailure string

record delegationNode =
  n_id :: string
  n_parentId :: "string option"
  n_children :: "string list"
  n_issuerDid :: string
  n_subjectDid :: string
  n_credentialStatusId :: "string option"
  n_credentialStatus :: "credentialStatus option"
  n_revoked :: bool

record registration =
  p_id :: string
  p_parentId :: "string option"
  p_issuerDid :: string
  p_subjectDid :: string
  p_credentialStatusId :: "string option"
  p_credentialStatus :: "credentialStatus option"

subsection \<open>Registration conflicts\<close>

definition sameStatusEntry :: "credentialStatus option \<Rightarrow> credentialStatus option \<Rightarrow> bool" where
  "sameStatusEntry a b = (case a of
       None \<Rightarrow> b = None
     | Some x \<Rightarrow> (case b of
         None \<Rightarrow> False
       | Some y \<Rightarrow> cs_id x = cs_id y \<and> cs_type x = cs_type y \<and> cs_statusPurpose x = cs_statusPurpose y \<and>
           cs_statusListIndex x = cs_statusListIndex y \<and> cs_statusListCredential x = cs_statusListCredential y))"

definition registrationConflict :: "delegationNode \<Rightarrow> delegationNode \<Rightarrow> string option" where
  "registrationConflict stored incoming =
     (if n_parentId stored \<noteq> n_parentId incoming then Some ''parentId''
      else if n_issuerDid stored \<noteq> n_issuerDid incoming then Some ''issuerDid''
      else if n_subjectDid stored \<noteq> n_subjectDid incoming then Some ''subjectDid''
      else if n_credentialStatusId stored \<noteq> n_credentialStatusId incoming then Some ''credentialStatusId''
      else if \<not> sameStatusEntry (n_credentialStatus stored) (n_credentialStatus incoming)
        then Some ''credentialStatus''
      else None)"

subsection \<open>The storage interface\<close>

record 's graphStorage =
  getNode :: "string \<Rightarrow> (graphError, 's, delegationNode option) act"
  setNode :: "delegationNode \<Rightarrow> (graphError, 's, unit) act"
  getChildren :: "string \<Rightarrow> (graphError, 's, delegationNode list) act"
  getChain :: "string \<Rightarrow> (graphError, 's, delegationNode list) act"
  getDescendants :: "string \<Rightarrow> (graphError, 's, delegationNode list) act"
  deleteNode :: "string \<Rightarrow> (graphError, 's, unit) act"
  registerNodeAtomic :: "(delegationNode \<Rightarrow> (graphError, 's, unit) act) option"

subsection \<open>The memory provider\<close>

type_synonym memoryGraph = "(string, delegationNode) jsmap"

definition memGetNode :: "string \<Rightarrow> (graphError, memoryGraph, delegationNode option) act" where
  "memGetNode i = (\<lambda>g. (Inr (jm_get g i), g))"

definition memSetNode :: "delegationNode \<Rightarrow> (graphError, memoryGraph, unit) act" where
  "memSetNode n = (\<lambda>g. (Inr (), jm_set (n_id n) n g))"

definition linkChild :: "delegationNode \<Rightarrow> string \<Rightarrow> delegationNode" where
  "linkChild parent child = parent\<lparr>n_children := js_add child (n_children parent)\<rparr>"

definition memRegisterNodeAtomic :: "delegationNode \<Rightarrow> (graphError, memoryGraph, unit) act" where
  "memRegisterNodeAtomic n = (\<lambda>g.
     if n_parentId n = Some (n_id n) then (Inl (OwnParent (n_id n)), g)
     else (case jm_get g (n_id n) of
         Some existing \<Rightarrow> (case registrationConflict existing n of
             None \<Rightarrow> (Inr (), g)
           | Some conflict \<Rightarrow> (Inl (AlreadyRegistered (n_id n) conflict), g))
       | None \<Rightarrow> (case n_parentId n of
             None \<Rightarrow> (Inr (), jm_set (n_id n) n g)
           | Some p \<Rightarrow> (case jm_get g p of
               None \<Rightarrow> (Inl (ParentNotFound p), g)
             | Some parent \<Rightarrow>
                 (Inr (), jm_set (n_id n) n (jm_set (n_id parent) (linkChild parent (n_id n)) g))))))"

definition memGetChildren :: "string \<Rightarrow> (graphError, memoryGraph, delegationNode list) act" where
  "memGetChildren i = (\<lambda>g. (Inr (case jm_get g i of
       None \<Rightarrow> [] | Some parent \<Rightarrow> List.map_filter (jm_get g) (n_children parent)), g))"

lemma keys_minus_visited:
  assumes "jm_get g i = Some n" and "i \<notin> set visited"
  shows "card (fst ` set g - insert i (set visited)) < card (fst ` set g - set visited)"
proof -
  have "i \<in> fst ` set g" using map_of_SomeD [OF assms(1)] by force
  with assms(2) have "fst ` set g - insert i (set visited) \<subset> fst ` set g - set visited" by blast
  then show ?thesis by (rule psubset_card_mono [rotated]) simp
qed

lemma keys_minus_unknown: "jm_get g i = None \<Longrightarrow> fst ` set g - insert i A = fst ` set g - A"
  by (auto simp: map_of_eq_None_iff)

text \<open>The parent walk, root first; a parent cycle throws.\<close>

function chainFrom ::
  "memoryGraph \<Rightarrow> string option \<Rightarrow> string list \<Rightarrow> delegationNode list \<Rightarrow> graphError + delegationNode list" where
  "chainFrom g current visited chain =
     (if \<not> truthy current then Inr chain
      else
        (let i = the current
         in if i \<in> set visited then Inl (ParentCycle i)
            else (case jm_get g i of
                None \<Rightarrow> Inr chain
              | Some n \<Rightarrow> chainFrom g (n_parentId n) (i # visited) (n # chain))))"
  by pat_completeness auto

termination
  by (relation "measure (\<lambda>(g, _, visited, _). card (set (jm_keys g) - set visited))")
    (auto simp: keys_minus_visited)

declare chainFrom.simps [simp del]

definition getChainSync :: "memoryGraph \<Rightarrow> string \<Rightarrow> graphError + delegationNode list" where
  "getChainSync g i = chainFrom g (Some i) [] []"

definition memGetChain :: "string \<Rightarrow> (graphError, memoryGraph, delegationNode list) act" where
  "memGetChain i = (\<lambda>g. (getChainSync g i, g))"

text \<open>Breadth-first search over the child links.\<close>

function descendantsFrom ::
  "memoryGraph \<Rightarrow> string list \<Rightarrow> string list \<Rightarrow> delegationNode list \<Rightarrow> delegationNode list" where
  "descendantsFrom g [] visited found = found"
| "descendantsFrom g (i # queue) visited found =
     (if i \<in> set visited then descendantsFrom g queue visited found
      else (case jm_get g i of
          None \<Rightarrow> descendantsFrom g queue (i # visited) found
        | Some n \<Rightarrow>
            (let fresh = filter (\<lambda>c. c \<notin> set (i # visited)) (n_children n)
             in descendantsFrom g (queue @ fresh) (i # visited) (found @ List.map_filter (jm_get g) fresh))))"
  by pat_completeness auto

termination
  by (relation "measures [\<lambda>(g, _, visited, _). card (set (jm_keys g) - set visited), \<lambda>(_, queue, _, _). length queue]")
    (auto simp: keys_minus_visited keys_minus_unknown)

definition memGetDescendants :: "string \<Rightarrow> (graphError, memoryGraph, delegationNode list) act" where
  "memGetDescendants i = (\<lambda>g. (Inr (descendantsFrom g [i] [] []), g))"

definition memDeleteNode :: "string \<Rightarrow> (graphError, memoryGraph, unit) act" where
  "memDeleteNode i = (\<lambda>g. (Inr (), jm_delete i g))"

definition getAllNodeIds :: "memoryGraph \<Rightarrow> string list" where
  "getAllNodeIds g = jm_keys g"

definition memoryGraphStorage :: "memoryGraph graphStorage" where
  "memoryGraphStorage = \<lparr>getNode = memGetNode, setNode = memSetNode, getChildren = memGetChildren,
     getChain = memGetChain, getDescendants = memGetDescendants, deleteNode = memDeleteNode,
     registerNodeAtomic = Some memRegisterNodeAtomic\<rparr>"

subsection \<open>The graph manager\<close>

definition newNode :: "registration \<Rightarrow> delegationNode" where
  "newNode p = \<lparr>n_id = p_id p, n_parentId = p_parentId p, n_children = [], n_issuerDid = p_issuerDid p,
     n_subjectDid = p_subjectDid p, n_credentialStatusId = p_credentialStatusId p,
     n_credentialStatus = p_credentialStatus p, n_revoked = False\<rparr>"

definition addChildToParent :: "'s graphStorage \<Rightarrow> string \<Rightarrow> string \<Rightarrow> (graphError, 's, unit) act" where
  "addChildToParent st p c = act_bind (getNode st p) (\<lambda>found. case found of
       None \<Rightarrow> act_throw (ParentNotFound p)
     | Some parent \<Rightarrow> if c \<in> set (n_children parent) then act_return ()
         else setNode st (parent\<lparr>n_children := n_children parent @ [c]\<rparr>))"

text \<open>The non-atomic path: insert, link, and delete the node again when linking throws.\<close>

definition registerWithRollback :: "'s graphStorage \<Rightarrow> delegationNode \<Rightarrow> (graphError, 's, unit) act" where
  "registerWithRollback st n = act_bind (setNode st n) (\<lambda>_.
     if \<not> truthy (n_parentId n) then act_return ()
     else (\<lambda>s. case addChildToParent st (the (n_parentId n)) (n_id n) s of
         (Inr _, s') \<Rightarrow> (Inr (), s')
       | (Inl e, s') \<Rightarrow> (case deleteNode st (n_id n) s' of
             (Inr _, s'') \<Rightarrow> (Inl e, s'')
           | (Inl e', s'') \<Rightarrow> (Inl (RollbackFailed e e'), s''))))"

definition checkParentExists :: "'s graphStorage \<Rightarrow> string option \<Rightarrow> (graphError, 's, unit) act" where
  "checkParentExists st parent =
     (if \<not> truthy parent then act_return ()
      else act_bind (getNode st (the parent)) (\<lambda>found. case found of
          None \<Rightarrow> act_throw (ParentNotFound (the parent))
        | Some _ \<Rightarrow> act_return ()))"

definition registerDelegation :: "'s graphStorage \<Rightarrow> registration \<Rightarrow> (graphError, 's, delegationNode) act" where
  "registerDelegation st p =
     (if p_parentId p = Some (p_id p) then act_throw (OwnParent (p_id p))
      else act_bind (checkParentExists st (p_parentId p)) (\<lambda>_.
        act_bind (getNode st (p_id p)) (\<lambda>existing. case existing of
            Some e \<Rightarrow> (case registrationConflict e (newNode p) of
                None \<Rightarrow> act_return e
              | Some conflict \<Rightarrow> act_throw (AlreadyRegistered (p_id p) conflict))
          | None \<Rightarrow> act_bind
              (case registerNodeAtomic st of
                 Some atomic \<Rightarrow> atomic (newNode p)
               | None \<Rightarrow> registerWithRollback st (newNode p))
              (\<lambda>_. act_return (newNode p)))))"

definition setRevoked :: "'s graphStorage \<Rightarrow> string \<Rightarrow> bool \<Rightarrow> (graphError, 's, bool) act" where
  "setRevoked st i revoked = act_bind (getNode st i) (\<lambda>found. case found of
       None \<Rightarrow> act_throw (DelegationNotFound i)
     | Some n \<Rightarrow> act_bind (setNode st (n\<lparr>n_revoked := revoked\<rparr>)) (\<lambda>_.
         act_bind (getNode st i) (\<lambda>stored.
           act_return ((case stored of None \<Rightarrow> False | Some n' \<Rightarrow> n_revoked n') = revoked))))"

definition isAncestor :: "'s graphStorage \<Rightarrow> string \<Rightarrow> string \<Rightarrow> (graphError, 's, bool) act" where
  "isAncestor st ancestor descendant = act_bind (getChain st descendant)
     (\<lambda>chain. act_return (list_ex (\<lambda>n. n_id n = ancestor) chain))"

definition getDepth :: "'s graphStorage \<Rightarrow> string \<Rightarrow> (graphError, 's, int) act" where
  "getDepth st i = act_bind (getChain st i) (\<lambda>chain. act_return (int (length chain) - 1))"

datatype chainVerdict =
    ChainOk
  | ChainNotFound
  | BadIssuer string
  | BadParent string

fun checkLinks :: "delegationNode \<Rightarrow> delegationNode list \<Rightarrow> chainVerdict" where
  "checkLinks parent [] = ChainOk"
| "checkLinks parent (child # rest) =
     (if n_issuerDid child \<noteq> n_subjectDid parent then BadIssuer (n_id child)
      else if n_parentId child \<noteq> Some (n_id parent) then BadParent (n_id child)
      else checkLinks child rest)"

definition validateChain :: "'s graphStorage \<Rightarrow> string \<Rightarrow> (graphError, 's, chainVerdict) act" where
  "validateChain st i = act_bind (getChain st i) (\<lambda>chain. case chain of
       [] \<Rightarrow> act_return ChainNotFound
     | root # rest \<Rightarrow> act_return (checkLinks root rest))"

definition removeDelegation :: "'s graphStorage \<Rightarrow> string \<Rightarrow> (graphError, 's, unit) act" where
  "removeDelegation st i = act_bind (getNode st i) (\<lambda>found. case found of
       None \<Rightarrow> act_return ()
     | Some n \<Rightarrow> act_bind
         (if \<not> truthy (n_parentId n) then act_return ()
          else act_bind (getNode st (the (n_parentId n))) (\<lambda>p. case p of
              None \<Rightarrow> act_return ()
            | Some parent \<Rightarrow> setNode st (parent\<lparr>n_children := filter (\<lambda>c. c \<noteq> i) (n_children parent)\<rparr>)))
         (\<lambda>_. deleteNode st i))"

end
