(* ===== verification/Graph_Safety.thy ===== *)
theory Graph_Safety
  imports Delegation_Graph
begin

text \<open>
  What the delegation graph keeps true: a graph reached by registrations and revocation marks
  is a forest whose parent and child links agree, so every chain is a finite root-first path
  and the breadth-first search finds exactly the subtree.
\<close>

subsection \<open>Paths from a root\<close>

inductive rootPath :: "memoryGraph \<Rightarrow> string \<Rightarrow> string list \<Rightarrow> bool" for g where
  root: "jm_get g i = Some n \<Longrightarrow> n_parentId n = None \<Longrightarrow> rootPath g i [i]"
| child: "jm_get g i = Some n \<Longrightarrow> n_parentId n = Some p \<Longrightarrow> rootPath g p is \<Longrightarrow> rootPath g i (is @ [i])"

inductive_cases rootPathE: "rootPath g i is"

lemma rootPath_last: "rootPath g i is \<Longrightarrow> is \<noteq> [] \<and> last is = i"
  by (induction rule: rootPath.induct) auto

lemma rootPath_known: "rootPath g i is \<Longrightarrow> j \<in> set is \<Longrightarrow> jm_get g j \<noteq> None"
  by (induction rule: rootPath.induct) auto

lemma rootPath_unique: "rootPath g i is \<Longrightarrow> rootPath g i js \<Longrightarrow> js = is"
proof (induction arbitrary: js rule: rootPath.induct)
  case (root i n)
  from root.prems show ?case by (cases rule: rootPath.cases) (use root.hyps in auto)
next
  case (child i n p "is")
  from child.prems show ?case
  proof (cases rule: rootPath.cases)
    case (child m q qs)
    with \<open>jm_get g i = Some n\<close> \<open>n_parentId n = Some p\<close> show ?thesis using child.IH by auto
  qed (use child.hyps in auto)
qed

lemma rootPath_prefix: "rootPath g i is \<Longrightarrow> j \<in> set is \<Longrightarrow> \<exists>js. rootPath g j js \<and> prefix js is"
proof (induction rule: rootPath.induct)
  case (root i n)
  then show ?case by (auto intro: rootPath.root)
next
  case (child i n p "is")
  show ?case
  proof (cases "j = i")
    case True
    then show ?thesis using rootPath.child [OF child.hyps] by auto
  next
    case False
    with child show ?thesis by (auto intro: prefix_prefix)
  qed
qed

lemma rootPath_fresh:
  assumes "jm_get g i = Some n" and "n_parentId n = Some p" and "rootPath g p is"
  shows "i \<notin> set is"
proof
  assume "i \<in> set is"
  then obtain js where "rootPath g i js" "prefix js is" using rootPath_prefix [OF assms(3)] by blast
  with rootPath_unique [OF rootPath.child [OF assms] this(1)] show False
    by (auto simp: prefix_def)
qed

lemma rootPath_distinct: "rootPath g i is \<Longrightarrow> distinct is"
  by (induction rule: rootPath.induct) (auto dest: rootPath_fresh)

text \<open>\<open>below g i d\<close>: \<open>i\<close> is \<open>d\<close> or one of its ancestors.\<close>

definition below :: "memoryGraph \<Rightarrow> string \<Rightarrow> string \<Rightarrow> bool" where
  "below g i d \<longleftrightarrow> (\<exists>is. rootPath g d is \<and> i \<in> set is)"

lemma below_known: "below g i d \<Longrightarrow> jm_get g i \<noteq> None \<and> jm_get g d \<noteq> None"
  by (auto simp: below_def dest: rootPath_known elim: rootPathE)

lemma below_child:
  assumes "below g i p" and "jm_get g d = Some n" and "n_parentId n = Some p"
  shows "below g i d"
proof -
  from assms(1) obtain "is" where "rootPath g p is" "i \<in> set is" by (auto simp: below_def)
  then have "rootPath g d (is @ [d])" "i \<in> set (is @ [d])" by (auto intro: rootPath.child [OF assms(2,3)])
  then show ?thesis unfolding below_def by blast
qed

lemma below_trans:
  assumes "below g i j" and "below g j d"
  shows "below g i d"
proof -
  from assms obtain js ds where js: "rootPath g j js" "i \<in> set js" and ds: "rootPath g d ds" "j \<in> set ds"
    by (auto simp: below_def)
  obtain js' where "rootPath g j js'" "prefix js' ds" using rootPath_prefix [OF ds] by blast
  with js ds show ?thesis using rootPath_unique [OF js(1)] by (auto simp: below_def prefix_def)
qed

lemma below_antisym:
  assumes "below g i j" and "below g j i"
  shows "i = j"
proof -
  from assms obtain xs ys where xs: "rootPath g j xs" "i \<in> set xs" and ys: "rootPath g i ys" "j \<in> set ys"
    by (auto simp: below_def)
  obtain ys' where "rootPath g i ys'" "prefix ys' xs" using rootPath_prefix [OF xs] by blast
  then have 1: "prefix ys xs" using rootPath_unique [OF ys(1)] by simp
  obtain xs' where "rootPath g j xs'" "prefix xs' ys" using rootPath_prefix [OF ys] by blast
  then have "prefix xs ys" using rootPath_unique [OF xs(1)] by simp
  with 1 have "xs = ys" by (rule prefix_order.antisym [rotated])
  then show ?thesis using rootPath_last [OF xs(1)] rootPath_last [OF ys(1)] by simp
qed

subsection \<open>The forest invariant\<close>

definition graphWf :: "memoryGraph \<Rightarrow> bool" where
  "graphWf g \<longleftrightarrow> jm_get g [] = None \<and>
     (\<forall>i n. jm_get g i = Some n \<longrightarrow> n_id n = i \<and> (\<exists>is. rootPath g i is) \<and> distinct (n_children n)) \<and>
     (\<forall>i n p. jm_get g i = Some n \<longrightarrow> n_parentId n = Some p \<longrightarrow>
        (\<exists>pn. jm_get g p = Some pn \<and> i \<in> set (n_children pn))) \<and>
     (\<forall>p pn c. jm_get g p = Some pn \<longrightarrow> c \<in> set (n_children pn) \<longrightarrow>
        (\<exists>cn. jm_get g c = Some cn \<and> n_parentId cn = Some p))"

lemma graphWf_id: "graphWf g \<Longrightarrow> jm_get g i = Some n \<Longrightarrow> n_id n = i"
  by (simp add: graphWf_def)

lemma graphWf_path: "graphWf g \<Longrightarrow> jm_get g i = Some n \<Longrightarrow> \<exists>is. rootPath g i is"
  by (simp add: graphWf_def)

lemma graphWf_nonempty: "graphWf g \<Longrightarrow> jm_get g i \<noteq> None \<Longrightarrow> i \<noteq> []"
  by (auto simp: graphWf_def)

lemma graphWf_children: "graphWf g \<Longrightarrow> jm_get g p = Some pn \<Longrightarrow> distinct (n_children pn)"
  by (simp add: graphWf_def)

lemma graphWf_child: "graphWf g \<Longrightarrow> jm_get g p = Some pn \<Longrightarrow> c \<in> set (n_children pn) \<Longrightarrow>
    \<exists>cn. jm_get g c = Some cn \<and> n_parentId cn = Some p"
  by (simp add: graphWf_def)

lemma graphWf_parent: "graphWf g \<Longrightarrow> jm_get g i = Some n \<Longrightarrow> n_parentId n = Some p \<Longrightarrow>
    \<exists>pn. jm_get g p = Some pn \<and> i \<in> set (n_children pn)"
  by (simp add: graphWf_def)

text \<open>A later graph keeps every node, its parent link and a set revocation mark.\<close>

definition extends :: "memoryGraph \<Rightarrow> memoryGraph \<Rightarrow> bool" where
  "extends g g' \<longleftrightarrow> (\<forall>i n. jm_get g i = Some n \<longrightarrow>
     (\<exists>n'. jm_get g' i = Some n' \<and> n_parentId n' = n_parentId n))"

lemma extends_get:
  "extends g g' \<Longrightarrow> jm_get g i = Some n \<Longrightarrow> \<exists>n'. jm_get g' i = Some n' \<and> n_parentId n' = n_parentId n"
  unfolding extends_def by blast

lemma extends_path: "rootPath g i is \<Longrightarrow> extends g g' \<Longrightarrow> rootPath g' i is"
proof (induction rule: rootPath.induct)
  case (root i n)
  then obtain n' where "jm_get g' i = Some n'" "n_parentId n' = None" using extends_get by metis
  then show ?case by (rule rootPath.root)
next
  case (child i n p "is")
  from child.prems child.hyps(1,2) obtain n' where "jm_get g' i = Some n'" "n_parentId n' = Some p"
    using extends_get by metis
  then show ?case using child by (blast intro: rootPath.child)
qed

lemma extends_below: "below g i d \<Longrightarrow> extends g g' \<Longrightarrow> below g' i d"
  by (auto simp: below_def dest: extends_path)

lemma extends_refl [simp]: "extends g g"
  by (simp add: extends_def)

lemma extends_trans: "extends g g' \<Longrightarrow> extends g' g'' \<Longrightarrow> extends g g''"
  unfolding extends_def by (metis (no_types))

lemma graphWf_empty [simp]: "graphWf []"
  by (simp add: graphWf_def)

lemma graphWf_update:
  assumes wf: "graphWf g" and n: "jm_get g i = Some n"
    and g': "jm_get g' = (jm_get g)(i \<mapsto> n\<lparr>n_revoked := b\<rparr>)"
  shows "graphWf g'" and "extends g g'"
proof -
  show ext: "extends g g'" using n by (auto simp: extends_def g')
  have same: "\<exists>m. jm_get g j = Some m \<and> n_id m = n_id m' \<and> n_children m = n_children m' \<and> n_parentId m = n_parentId m'"
    if "jm_get g' j = Some m'" for j m'
    using that n by (cases "j = i") (auto simp: g')
  have same': "\<exists>m'. jm_get g' j = Some m' \<and> n_children m = n_children m' \<and> n_parentId m = n_parentId m'"
    if "jm_get g j = Some m" for j m
    using that n by (cases "j = i") (auto simp: g')
  have "jm_get g' [] = None" using wf n by (auto simp: g' graphWf_def)
  moreover have "n_id m' = j \<and> (\<exists>is. rootPath g' j is) \<and> distinct (n_children m')" if j: "jm_get g' j = Some m'" for j m'
    using same [OF j] graphWf_id [OF wf] graphWf_path [OF wf] graphWf_children [OF wf] extends_path [OF _ ext] by metis
  moreover have "\<exists>pn. jm_get g' p = Some pn \<and> j \<in> set (n_children pn)"
    if j: "jm_get g' j = Some m'" "n_parentId m' = Some p" for j m' p
    using same [OF j(1)] graphWf_parent [OF wf] same' j(2) by metis
  moreover have "\<exists>cn. jm_get g' c = Some cn \<and> n_parentId cn = Some p"
    if j: "jm_get g' p = Some pn" "c \<in> set (n_children pn)" for p pn c
    using same [OF j(1)] graphWf_child [OF wf] same' j(2) by metis
  ultimately show "graphWf g'" unfolding graphWf_def by blast
qed

lemma graphWf_register:
  assumes wf: "graphWf g" and i: "n_id n \<noteq> []" and new: "n_children n = []"
    and reg: "memRegisterNodeAtomic n g = (r, g')"
  shows "graphWf g'" and "extends g g'"
proof -
  consider (same) "g' = g"
    | (root) "jm_get g (n_id n) = None" "n_parentId n = None" "jm_get g' = (jm_get g)(n_id n \<mapsto> n)"
    | (child) p parent where "jm_get g (n_id n) = None" "n_parentId n = Some p" "jm_get g p = Some parent"
        "p \<noteq> n_id n" "jm_get g' = (jm_get g)(p \<mapsto> linkChild parent (n_id n), n_id n \<mapsto> n)"
  proof (cases "n_parentId n = Some (n_id n) \<or> jm_get g (n_id n) \<noteq> None")
    case True
    with reg have "g' = g" by (auto simp: memRegisterNodeAtomic_def split: if_splits option.splits)
    then show thesis by (rule that(1))
  next
    case False
    show thesis
    proof (cases "n_parentId n")
      case None
      with False reg have "g' = jm_set (n_id n) n g" by (auto simp: memRegisterNodeAtomic_def)
      with None False show thesis by (intro that(2)) (auto simp: update_conv')
    next
      case (Some p)
      show thesis
      proof (cases "jm_get g p")
        case None
        with Some False reg have "g' = g" by (auto simp: memRegisterNodeAtomic_def)
        then show thesis by (rule that(1))
      next
        case parent: (Some parent)
        then have "g' = jm_set (n_id n) n (jm_set p (linkChild parent (n_id n)) g)"
          using Some False reg graphWf_id [OF wf parent] by (auto simp: memRegisterNodeAtomic_def)
        with Some False parent show thesis by (intro that(3)) (auto simp: update_conv')
      qed
    qed
  qed
  then have "graphWf g' \<and> extends g g'"
  proof cases
    case same
    with wf show ?thesis by simp
  next
    case root
    then have ext: "extends g g'" by (auto simp: extends_def)
    have "rootPath g' (n_id n) [n_id n]" by (rule rootPath.root [where n = n]) (use root in simp_all)
    have notchild: "n_id n \<notin> set (n_children m)" if "jm_get g j = Some m" for j m
      using graphWf_child [OF wf that] root(1) by (metis option.distinct(1))
    have "jm_get g' [] = None" using wf i root by (auto simp: graphWf_def)
    moreover have "n_id m' = j \<and> (\<exists>is. rootPath g' j is) \<and> distinct (n_children m')" if j: "jm_get g' j = Some m'" for j m'
    proof (cases "j = n_id n")
      case True
      with j root \<open>rootPath g' (n_id n) [n_id n]\<close> new show ?thesis by auto
    next
      case False
      with j root have m: "jm_get g j = Some m'" by simp
      show ?thesis
        using graphWf_id [OF wf m] graphWf_path [OF wf m] graphWf_children [OF wf m] extends_path [OF _ ext] by auto
    qed
    moreover have "\<exists>pn. jm_get g' q = Some pn \<and> j \<in> set (n_children pn)"
      if j: "jm_get g' j = Some m'" "n_parentId m' = Some q" for j m' q
      using j root graphWf_parent [OF wf, of j m' q] by (auto split: if_splits)
    moreover have "\<exists>cn. jm_get g' c = Some cn \<and> n_parentId cn = Some q"
      if j: "jm_get g' q = Some pn" "c \<in> set (n_children pn)" for q pn c
      using j root new notchild graphWf_child [OF wf, of q pn c] by (auto split: if_splits)
    ultimately show ?thesis using ext unfolding graphWf_def by blast
  next
    case child
    have ext: "extends g g'" using child by (auto simp: extends_def linkChild_def)
    have notchild: "n_id n \<notin> set (n_children m)" if "jm_get g j = Some m" for j m
      using graphWf_child [OF wf that] child(1) by (metis option.distinct(1))
    have notparent: "n_parentId m \<noteq> Some (n_id n)" if "jm_get g j = Some m" for j m
      using graphWf_parent [OF wf that] child(1) by (metis option.distinct(1))
    obtain "is" where "rootPath g p is" using graphWf_path [OF wf child(3)] by blast
    then have path: "rootPath g' (n_id n) (is @ [n_id n])"
      using child extends_path [OF _ ext] by (auto intro: rootPath.child)
    have "jm_get g' [] = None" using wf i child by (auto simp: graphWf_def)
    moreover have "n_id m' = j \<and> (\<exists>is. rootPath g' j is) \<and> distinct (n_children m')" if j: "jm_get g' j = Some m'" for j m'
    proof (cases "j = n_id n")
      case True
      with j child path new show ?thesis by auto
    next
      case False
      with j child obtain m where m: "jm_get g j = Some m" "n_id m' = n_id m"
          "n_children m' = (if j = p then js_add (n_id n) (n_children m) else n_children m)"
        by (auto simp: linkChild_def split: if_splits)
      then show ?thesis
        using graphWf_id [OF wf m(1)] graphWf_path [OF wf m(1)] graphWf_children [OF wf m(1)] extends_path [OF _ ext]
        by auto
    qed
    moreover have "\<exists>pn. jm_get g' q = Some pn \<and> j \<in> set (n_children pn)"
      if j: "jm_get g' j = Some m'" "n_parentId m' = Some q" for j m' q
    proof (cases "j = n_id n")
      case True
      with j child show ?thesis by (auto simp: linkChild_def)
    next
      case False
      with j child obtain m where m: "jm_get g j = Some m" "n_parentId m = Some q"
        by (auto simp: linkChild_def split: if_splits)
      then obtain pn where "jm_get g q = Some pn" "j \<in> set (n_children pn)" using graphWf_parent [OF wf] by blast
      then show ?thesis using child by (auto simp: linkChild_def)
    qed
    moreover have "\<exists>cn. jm_get g' c = Some cn \<and> n_parentId cn = Some q"
      if j: "jm_get g' q = Some pn" "c \<in> set (n_children pn)" for q pn c
    proof (cases "c = n_id n")
      case True
      with j child new notchild show ?thesis by (auto simp: linkChild_def split: if_splits)
    next
      case False
      with j child new obtain m where "jm_get g q = Some m" "c \<in> set (n_children m)"
        by (auto simp: linkChild_def split: if_splits)
      then obtain cn where "jm_get g c = Some cn" "n_parentId cn = Some q" using graphWf_child [OF wf] by blast
      then show ?thesis using child False by (auto simp: linkChild_def)
    qed
    ultimately show ?thesis using ext unfolding graphWf_def by blast
  qed
  then show "graphWf g'" and "extends g g'" by auto
qed

subsection \<open>Reachable graphs\<close>

inductive graphStep :: "memoryGraph \<Rightarrow> memoryGraph \<Rightarrow> bool" where
  register: "p_id p \<noteq> [] \<Longrightarrow> registerDelegation memoryGraphStorage p g = (r, g') \<Longrightarrow> graphStep g g'"
| mark: "setRevoked memoryGraphStorage i b g = (r', g') \<Longrightarrow> graphStep g g'"

inductive reachableGraph :: "memoryGraph \<Rightarrow> bool" where
  init: "reachableGraph []"
| step: "reachableGraph g \<Longrightarrow> graphStep g g' \<Longrightarrow> reachableGraph g'"

lemmas memory_ops = memoryGraphStorage_def memGetNode_def memSetNode_def memGetChain_def
  memGetDescendants_def memDeleteNode_def

lemma registerDelegation_memory:
  assumes "registerDelegation memoryGraphStorage p g = (r, g')"
  obtains "g' = g" | r' where "memRegisterNodeAtomic (newNode p) g = (r', g')"
  using assms
  by (auto simp: registerDelegation_def checkParentExists_def act_bind_def memory_ops
      split: if_splits option.splits sum.splits prod.splits)

lemma setRevoked_memory:
  assumes wf: "graphWf g" and "setRevoked memoryGraphStorage i b g = (r, g')"
  shows "(jm_get g i = None \<and> g' = g \<and> r = Inl (DelegationNotFound i)) \<or>
    (\<exists>n. jm_get g i = Some n \<and> jm_get g' = (jm_get g)(i \<mapsto> n\<lparr>n_revoked := b\<rparr>) \<and> r = Inr True)"
  using assms(2) graphWf_id [OF wf, of i]
  by (cases "jm_get g i") (auto simp: setRevoked_def act_bind_def memory_ops update_conv')

lemma graphStep_wf [kya_inv]: "graphStep g g' \<Longrightarrow> graphWf g \<Longrightarrow> graphWf g' \<and> extends g g'"
proof (induction rule: graphStep.induct)
  case (register p g r g')
  from register.hyps(2) show ?case
  proof (rule registerDelegation_memory)
    fix r' assume r': "memRegisterNodeAtomic (newNode p) g = (r', g')"
    show ?thesis using graphWf_register [OF register.prems _ _ r'] register.hyps(1) by (simp add: newNode_def)
  qed (use register.prems in simp)
next
  case (mark i b g r' g')
  then show ?case using setRevoked_memory [OF mark.prems mark.hyps] graphWf_update [OF mark.prems] by auto
qed

lemma reachable_wf: "reachableGraph g \<Longrightarrow> graphWf g"
  by (induction rule: reachableGraph.induct) (auto dest: graphStep_wf)

subsection \<open>Chains\<close>

lemma chainFrom_path:
  "rootPath g i is \<Longrightarrow> graphWf g \<Longrightarrow> set is \<inter> set visited = {} \<Longrightarrow>
     chainFrom g (Some i) visited chain = Inr (map (\<lambda>j. the (jm_get g j)) is @ chain)"
proof (induction arbitrary: visited chain rule: rootPath.induct)
  case (root i n)
  then have "i \<noteq> []" using graphWf_nonempty by force
  with root show ?case by (simp add: chainFrom.simps [of g "Some i"] chainFrom.simps [of g None])
next
  case (child i n p "is")
  then have "i \<noteq> []" using graphWf_nonempty by force
  moreover have "i \<notin> set is" using rootPath_fresh [OF child.hyps] .
  ultimately show ?case
    using child.hyps child.prems child.IH [of "i # visited" "n # chain"]
    by (simp add: chainFrom.simps [of g "Some i"])
qed

lemma getChainSync_path:
  "rootPath g i is \<Longrightarrow> graphWf g \<Longrightarrow> getChainSync g i = Inr (map (\<lambda>j. the (jm_get g j)) is)"
  by (simp add: getChainSync_def chainFrom_path)

lemma getChainSync_unknown: "jm_get g i = None \<Longrightarrow> getChainSync g i = Inr []"
  by (simp add: getChainSync_def chainFrom.simps [of g "Some i"])

lemma path_ids:
  assumes "graphWf g" and "rootPath g i is"
  shows "map n_id (map (\<lambda>j. the (jm_get g j)) is) = is"
proof -
  have "n_id (the (jm_get g j)) = j" if "j \<in> set is" for j
    using rootPath_known [OF assms(2) that] graphWf_id [OF assms(1)] by fastforce
  then show ?thesis by (simp add: map_idI)
qed

text \<open>Consecutive nodes of a root-first chain are parent and child.\<close>

fun parentLinked :: "string option \<Rightarrow> delegationNode list \<Rightarrow> bool" where
  "parentLinked p [] = True"
| "parentLinked p (n # ns) = (n_parentId n = p \<and> parentLinked (Some (n_id n)) ns)"

lemma parentLinked_append:
  "parentLinked p (ns @ [n]) \<longleftrightarrow> parentLinked p ns \<and>
     n_parentId n = (if ns = [] then p else Some (n_id (last ns)))"
  by (induction ns arbitrary: p) auto

lemma path_linked:
  "rootPath g i is \<Longrightarrow> graphWf g \<Longrightarrow> parentLinked None (map (\<lambda>j. the (jm_get g j)) is)"
proof (induction rule: rootPath.induct)
  case (child i n p "is")
  have "is \<noteq> []" "last is = p" using rootPath_last [OF child.hyps(3)] by auto
  moreover obtain pn where "jm_get g p = Some pn" using graphWf_parent [OF child.prems child.hyps(1,2)] by blast
  ultimately show ?case using child graphWf_id by (auto simp: parentLinked_append last_map)
qed simp

subsection \<open>Descendants\<close>

text \<open>What the search has done: \<open>seen\<close> is the queue and the visited ids.\<close>

definition bfsInv :: "memoryGraph \<Rightarrow> string \<Rightarrow> string list \<Rightarrow> string list \<Rightarrow> delegationNode list \<Rightarrow> bool" where
  "bfsInv g i queue visited found \<longleftrightarrow>
     distinct queue \<and> set queue \<inter> set visited = {} \<and> i \<in> set queue \<union> set visited \<and>
     (\<forall>d \<in> set queue \<union> set visited. below g i d) \<and>
     distinct (map n_id found) \<and> (\<forall>n \<in> set found. jm_get g (n_id n) = Some n) \<and>
     n_id ` set found = (set queue \<union> set visited) - {i} \<and>
     (\<forall>v \<in> set visited. set (n_children (the (jm_get g v))) \<subseteq> set queue \<union> set visited) \<and>
     (\<forall>d \<in> set queue \<union> set visited. d \<noteq> i \<longrightarrow> (\<exists>p \<in> set visited. n_parentId (the (jm_get g d)) = Some p))"

lemma below_in_closed:
  assumes wf: "graphWf g" and closed: "\<forall>v \<in> V. set (n_children (the (jm_get g v))) \<subseteq> V" and "i \<in> V"
  shows "rootPath g d is \<Longrightarrow> i \<in> set is \<Longrightarrow> d \<in> V"
proof (induction rule: rootPath.induct)
  case (root d n)
  then show ?case using assms(3) by simp
next
  case (child d n p "is")
  show ?case
  proof (cases "i \<in> set is")
    case True
    then have "p \<in> V" by (rule child.IH)
    moreover obtain pn where "jm_get g p = Some pn" "d \<in> set (n_children pn)"
      using graphWf_parent [OF wf child.hyps(1,2)] by blast
    ultimately show ?thesis using closed by force
  next
    case False
    then show ?thesis using child.prems assms(3) by auto
  qed
qed

lemma no_self_parent: "graphWf g \<Longrightarrow> jm_get g j = Some n \<Longrightarrow> n_parentId n \<noteq> Some j"
  using graphWf_path rootPath_fresh rootPath_last by (metis last_in_set)

lemma below_refl: "graphWf g \<Longrightarrow> jm_get g j = Some n \<Longrightarrow> below g j j"
  unfolding below_def using graphWf_path rootPath_last by (metis last_in_set)

lemma map_filter_known:
  "(\<And>c. c \<in> set cs \<Longrightarrow> jm_get g c \<noteq> None) \<Longrightarrow> List.map_filter (jm_get g) cs = map (\<lambda>c. the (jm_get g c)) cs"
  by (induction cs) (force simp: map_filter_simps split: option.splits)+

lemma children_unseen:
  assumes wf: "graphWf g" and inv: "bfsInv g i (j # queue) visited found" and n: "jm_get g j = Some n"
    and c: "c \<in> set (n_children n)"
  shows "c \<notin> set (j # queue) \<union> set visited"
proof
  assume seen: "c \<in> set (j # queue) \<union> set visited"
  obtain cn where cn: "jm_get g c = Some cn" "n_parentId cn = Some j" using graphWf_child [OF wf n c] by blast
  have j: "j \<notin> set visited" "below g i j" using inv by (auto simp: bfsInv_def)
  show False
  proof (cases "c = i")
    case True
    have "below g j i" using below_child [OF below_refl [OF wf n] cn] True by simp
    with j(2) have "i = j" by (rule below_antisym)
    with True cn no_self_parent [OF wf cn(1)] show False by simp
  next
    case False
    with seen inv have "\<exists>p \<in> set visited. n_parentId (the (jm_get g c)) = Some p"
      unfolding bfsInv_def by blast
    with cn j(1) show False by simp
  qed
qed

lemma bfs_step:
  assumes wf: "graphWf g" and inv: "bfsInv g i (j # queue) visited found" and n: "jm_get g j = Some n"
  shows "bfsInv g i (queue @ n_children n) (j # visited) (found @ map (\<lambda>c. the (jm_get g c)) (n_children n))"
proof -
  let ?cs = "n_children n"
  note unseen = children_unseen [OF wf inv n]
  have node: "jm_get g c = Some (the (jm_get g c))" "n_parentId (the (jm_get g c)) = Some j" "n_id (the (jm_get g c)) = c"
    if "c \<in> set ?cs" for c
    using graphWf_child [OF wf n that] graphWf_id [OF wf] by auto
  have ids: "map n_id (map (\<lambda>c. the (jm_get g c)) ?cs) = ?cs"
    by (simp add: map_idI node(3))
  have seen: "set (queue @ ?cs) \<union> set (j # visited) = (set (j # queue) \<union> set visited) \<union> set ?cs" by auto
  have j: "below g i j" using inv by (simp add: bfsInv_def)
  have fids: "n_id ` set found = (set (j # queue) \<union> set visited) - {i}" and df: "distinct (map n_id found)"
    using inv by (simp_all add: bfsInv_def)
  have cids: "n_id ` set (map (\<lambda>c. the (jm_get g c)) ?cs) = set ?cs" using ids by (metis set_map)
  have "distinct (queue @ ?cs)" "set (queue @ ?cs) \<inter> set (j # visited) = {}"
    using inv unseen graphWf_children [OF wf n] by (auto simp: bfsInv_def)
  moreover have "i \<in> set (queue @ ?cs) \<union> set (j # visited)" using inv by (auto simp: bfsInv_def)
  moreover have "below g i d" if "d \<in> set (queue @ ?cs) \<union> set (j # visited)" for d
    using that inv below_child [OF j node(1,2)] unfolding seen by (auto simp: bfsInv_def)
  moreover have "distinct (map n_id (found @ map (\<lambda>c. the (jm_get g c)) ?cs))"
  proof -
    have "set (map n_id found) \<inter> set ?cs = {}" using fids unseen by auto
    then show ?thesis using df graphWf_children [OF wf n] ids by simp
  qed
  moreover have "jm_get g (n_id m) = Some m" if "m \<in> set (found @ map (\<lambda>c. the (jm_get g c)) ?cs)" for m
    using that inv node by (auto simp: bfsInv_def)
  moreover have "n_id ` set (found @ map (\<lambda>c. the (jm_get g c)) ?cs) = (set (queue @ ?cs) \<union> set (j # visited)) - {i}"
  proof -
    have "i \<notin> set ?cs" using unseen inv by (auto simp: bfsInv_def)
    then show ?thesis unfolding set_append image_Un fids cids by auto
  qed
  moreover have "set (n_children (the (jm_get g v))) \<subseteq> set (queue @ ?cs) \<union> set (j # visited)"
    if "v \<in> set (j # visited)" for v
    using that inv n unfolding seen by (auto simp: bfsInv_def)
  moreover have "\<exists>p \<in> set (j # visited). n_parentId (the (jm_get g d)) = Some p"
    if "d \<in> set (queue @ ?cs) \<union> set (j # visited)" "d \<noteq> i" for d
    using that inv node(2) unfolding seen by (auto simp: bfsInv_def)
  ultimately show ?thesis unfolding bfsInv_def by blast
qed

lemma descendantsFrom_correct:
  assumes wf: "graphWf g"
  shows "bfsInv g i queue visited found \<Longrightarrow>
    distinct (map n_id (descendantsFrom g queue visited found)) \<and>
    (\<forall>n \<in> set (descendantsFrom g queue visited found). jm_get g (n_id n) = Some n) \<and>
    n_id ` set (descendantsFrom g queue visited found) = {d. below g i d} - {i}"
  using wf
proof (induction g queue visited found rule: descendantsFrom.induct)
  case (1 g visited found)
  then have "n_id ` set found = set visited - {i}" "\<forall>d \<in> set visited. below g i d" "i \<in> set visited"
      "\<forall>v \<in> set visited. set (n_children (the (jm_get g v))) \<subseteq> set visited"
    by (simp_all add: bfsInv_def)
  moreover from this(3,4) have "d \<in> set visited" if "below g i d" for d
    using that below_in_closed [OF 1(2)] unfolding below_def by blast
  ultimately show ?case using 1(1) by (auto simp: bfsInv_def)
next
  case (2 g j queue visited found)
  have j: "j \<notin> set visited" "below g i j" using 2(4) by (auto simp: bfsInv_def)
  obtain n where n: "jm_get g j = Some n" using below_known [OF j(2)] by auto
  have fresh: "filter (\<lambda>c. c \<notin> set (j # visited)) (n_children n) = n_children n"
    using children_unseen [OF 2(5) 2(4) n] by (auto simp: filter_id_conv)
  have mf: "List.map_filter (jm_get g) (n_children n) = map (\<lambda>c. the (jm_get g c)) (n_children n)"
    using graphWf_child [OF 2(5) n] by (intro map_filter_known) auto
  have "descendantsFrom g (j # queue) visited found =
      descendantsFrom g (queue @ n_children n) (j # visited) (found @ map (\<lambda>c. the (jm_get g c)) (n_children n))"
    using j(1) n fresh mf by (simp add: Let_def)
  moreover have "bfsInv g i (queue @ n_children n) (j # visited) (found @ map (\<lambda>c. the (jm_get g c)) (n_children n))"
    by (rule bfs_step [OF 2(5) 2(4) n])
  ultimately show ?case using 2(3) [OF j(1) n refl] 2(5) fresh mf by simp
qed

lemma descendants_correct:
  assumes wf: "graphWf g"
  shows "distinct (map n_id (descendantsFrom g [i] [] []))"
    and "m \<in> set (descendantsFrom g [i] [] []) \<longleftrightarrow> jm_get g (n_id m) = Some m \<and> below g i (n_id m) \<and> n_id m \<noteq> i"
proof -
  let ?r = "descendantsFrom g [i] [] []"
  have all: "distinct (map n_id ?r) \<and> (\<forall>n \<in> set ?r. jm_get g (n_id n) = Some n) \<and>
    n_id ` set ?r = {d. below g i d} - {i}"
  proof (cases "jm_get g i")
    case None
    then show ?thesis using below_known by fastforce
  next
    case (Some n)
    then show ?thesis by (intro descendantsFrom_correct [OF wf]) (simp add: bfsInv_def below_refl [OF wf])
  qed
  then show "distinct (map n_id ?r)" by simp
  show "m \<in> set ?r \<longleftrightarrow> jm_get g (n_id m) = Some m \<and> below g i (n_id m) \<and> n_id m \<noteq> i"
  proof
    assume "jm_get g (n_id m) = Some m \<and> below g i (n_id m) \<and> n_id m \<noteq> i"
    moreover from this all have "n_id m \<in> n_id ` set ?r" by auto
    ultimately show "m \<in> set ?r" using all by (metis imageE option.inject)
  qed (use all in auto)
qed

lemma isAncestor_below:
  assumes wf: "graphWf g"
  shows "isAncestor memoryGraphStorage i d g = (Inr (below g i d), g)"
proof (cases "jm_get g d")
  case None
  then have "\<not> below g i d" using below_known by fastforce
  with None show ?thesis by (simp add: isAncestor_def act_bind_def memory_ops getChainSync_unknown)
next
  case (Some n)
  then obtain "is" where path: "rootPath g d is" using graphWf_path [OF wf] by blast
  have "list_ex (\<lambda>m. n_id m = i) (map (\<lambda>j. the (jm_get g j)) is) \<longleftrightarrow> i \<in> set is"
  proof -
    have "list_ex (\<lambda>m. n_id m = i) (map (\<lambda>j. the (jm_get g j)) is) \<longleftrightarrow>
        i \<in> set (map n_id (map (\<lambda>j. the (jm_get g j)) is))"
      by (auto simp: list_ex_iff)
    then show ?thesis by (simp only: path_ids [OF wf path])
  qed
  moreover have "below g i d \<longleftrightarrow> i \<in> set is"
    unfolding below_def using path rootPath_unique [OF path] by blast
  ultimately show ?thesis
    using getChainSync_path [OF path wf] by (simp add: isAncestor_def act_bind_def memory_ops)
qed

text \<open>in every reachable graph \<open>getDescendants\<close> and \<open>isAncestor\<close> agree: the search returns
  each stored node strictly below the given one exactly once, and nothing else.\<close>

theorem reachable_descendants_exact:
  assumes "reachableGraph g"
  shows "\<exists>ds. memGetDescendants i g = (Inr ds, g) \<and> distinct (map n_id ds) \<and>
    (\<forall>m. m \<in> set ds \<longleftrightarrow> jm_get g (n_id m) = Some m \<and> n_id m \<noteq> i \<and>
       isAncestor memoryGraphStorage i (n_id m) g = (Inr True, g))"
proof -
  note wf = reachable_wf [OF assms]
  have "m \<in> set (descendantsFrom g [i] [] []) \<longleftrightarrow> jm_get g (n_id m) = Some m \<and> n_id m \<noteq> i \<and>
       isAncestor memoryGraphStorage i (n_id m) g = (Inr True, g)" for m
    unfolding isAncestor_below [OF wf] descendants_correct(2) [OF wf] by auto
  with descendants_correct(1) [OF wf] show ?thesis unfolding memGetDescendants_def by blast
qed

subsection \<open>Re-registration\<close>

text \<open>registering an id that is already stored changes nothing, whatever the arguments: the
  store keeps its revocation marks and links, a repeat returns the stored node and a
  conflicting registration throws.\<close>

theorem reregistration_is_inert:
  assumes "jm_get g (p_id p) = Some stored"
  shows "\<exists>r. registerDelegation memoryGraphStorage p g = (r, g) \<and>
    (\<forall>n. r = Inr n \<longleftrightarrow> n = stored \<and> p_parentId p \<noteq> Some (p_id p) \<and>
       registrationConflict stored (newNode p) = None \<and>
       (truthy (p_parentId p) \<longrightarrow> jm_get g (the (p_parentId p)) \<noteq> None))"
  using assms
  by (auto simp: registerDelegation_def checkParentExists_def act_bind_def memory_ops split: option.splits)

subsection \<open>The two registration paths\<close>

text \<open>a provider without the atomic operation loses nothing when no storage call fails: the
  insert-then-link path returns the same answer and leaves the same graph as the atomic one.\<close>

theorem registration_paths_agree:
  assumes "graphWf g" and "p_parentId p \<noteq> Some []"
  shows "fst (registerDelegation (memoryGraphStorage\<lparr>registerNodeAtomic := None\<rparr>) p g) =
      fst (registerDelegation memoryGraphStorage p g) \<and>
    jm_get (snd (registerDelegation (memoryGraphStorage\<lparr>registerNodeAtomic := None\<rparr>) p g)) =
      jm_get (snd (registerDelegation memoryGraphStorage p g))"
proof (cases "p_parentId p = Some (p_id p) \<or> jm_get g (p_id p) \<noteq> None")
  case True
  then show ?thesis
    by (auto simp: registerDelegation_def checkParentExists_def act_bind_def memory_ops split: option.splits)
next
  case False
  show ?thesis
  proof (cases "p_parentId p")
    case None
    with False show ?thesis
      by (simp add: registerDelegation_def checkParentExists_def act_bind_def memory_ops
          registerWithRollback_def memRegisterNodeAtomic_def newNode_def)
  next
    case (Some q)
    with False assms graphWf_id [OF assms(1), of q] show ?thesis
      by (cases "jm_get g q")
        (auto simp: registerDelegation_def checkParentExists_def act_bind_def memory_ops registerWithRollback_def
          memRegisterNodeAtomic_def newNode_def addChildToParent_def linkChild_def js_add_def update_conv' fun_eq_iff)
  qed
qed

subsection \<open>An example graph\<close>

text \<open>A root \<open>a\<close>, its child \<open>b\<close> and a grandchild \<open>c\<close>.\<close>

definition exampleRegistration :: "string \<Rightarrow> string option \<Rightarrow> registration" where
  "exampleRegistration i parent = \<lparr>p_id = i, p_parentId = parent, p_issuerDid = ''did:rp'', p_subjectDid = ''did:agent'',
     p_credentialStatusId = None, p_credentialStatus = None\<rparr>"

definition registered :: "registration \<Rightarrow> memoryGraph \<Rightarrow> memoryGraph" where
  "registered p g = snd (registerDelegation memoryGraphStorage p g)"

definition exampleGraph :: memoryGraph where
  "exampleGraph = registered (exampleRegistration ''c'' (Some ''b''))
     (registered (exampleRegistration ''b'' (Some ''a'')) (registered (exampleRegistration ''a'' None) []))"

lemma registered_reachable: "p_id p \<noteq> [] \<Longrightarrow> reachableGraph g \<Longrightarrow> reachableGraph (registered p g)"
  unfolding registered_def by (metis graphStep.register prod.collapse reachableGraph.step)

lemma exampleGraph_reachable: "reachableGraph exampleGraph"
  unfolding exampleGraph_def
  by (intro registered_reachable reachableGraph.init) (simp_all add: exampleRegistration_def)

lemma exampleGraph_ids: "jm_get exampleGraph ''b'' \<noteq> None" "jm_get exampleGraph ''c'' \<noteq> None"
  by code_simp+

theorem reachable_descendants_exact_witness:
  "\<exists>ds. memGetDescendants ''a'' exampleGraph = (Inr ds, exampleGraph) \<and> distinct (map n_id ds) \<and> ds \<noteq> []"
proof -
  have "descendantsFrom exampleGraph [''a''] [] [] \<noteq> []" by code_simp
  with reachable_descendants_exact [OF exampleGraph_reachable, of "''a''"] show ?thesis
    by (auto simp: memGetDescendants_def)
qed

theorem reregistration_is_inert_witness:
  "snd (registerDelegation memoryGraphStorage (exampleRegistration ''b'' None) exampleGraph) = exampleGraph"
proof -
  obtain n where "jm_get exampleGraph (p_id (exampleRegistration ''b'' None)) = Some n"
    using exampleGraph_ids(1) by (auto simp: exampleRegistration_def)
  from reregistration_is_inert [OF this] show ?thesis by auto
qed

theorem registration_paths_agree_witness:
  "fst (registerDelegation (memoryGraphStorage\<lparr>registerNodeAtomic := None\<rparr>) (exampleRegistration ''d'' (Some ''c'')) exampleGraph) =
     fst (registerDelegation memoryGraphStorage (exampleRegistration ''d'' (Some ''c'')) exampleGraph)"
  using registration_paths_agree [OF reachable_wf [OF exampleGraph_reachable], of "exampleRegistration ''d'' (Some ''c'')"]
  by (simp add: exampleRegistration_def)

subsection \<open>Removal\<close>

definition removed :: "string \<Rightarrow> memoryGraph \<Rightarrow> memoryGraph" where
  "removed i g = snd (removeDelegation memoryGraphStorage i g)"

text \<open>removal orphans the subtree. Removing \<open>b\<close> and registering it again leaves its child \<open>c\<close>
  below \<open>a\<close> for the parent walk, but outside the descendants of \<open>a\<close>, so a cascading revocation of
  \<open>a\<close> no longer reaches \<open>c\<close>.\<close>

theorem removal_orphans_subtree:
  "let g = registered (exampleRegistration ''b'' (Some ''a'')) (removed ''b'' exampleGraph)
   in fst (isAncestor memoryGraphStorage ''a'' ''c'' g) = Inr True \<and>
      map n_id (descendantsFrom g [''a''] [] []) = [''b'']"
  by code_simp

end
