(* ===== verification/Graph_Removal.thy ===== *)
theory Graph_Removal
  imports Graph_Safety
begin

text \<open>
  The delegation graph under every operation of \<open>src/delegation/delegation-graph.ts\<close> that changes
  it, \<open>removeDelegation\<close> included. A removal leaves the children of the removed node behind: their
  parent link dangles, and comes back to life, without a child link, when the id is registered
  again. So parent links may even close a cycle. What stays true is that the child links are a
  forest, and that a parent link and a child link disagree only where the parent was removed.
\<close>

subsection \<open>Links\<close>

definition parentStep :: "memoryGraph \<Rightarrow> string \<Rightarrow> string \<Rightarrow> bool" where
  "parentStep g c p \<longleftrightarrow> (\<exists>n. jm_get g c = Some n \<and> n_parentId n = Some p)"

definition childLink :: "memoryGraph \<Rightarrow> string \<Rightarrow> string \<Rightarrow> bool" where
  "childLink g p c \<longleftrightarrow> (\<exists>n. jm_get g p = Some n \<and> c \<in> set (n_children n))"

text \<open>The graph with only the parent links that satisfy \<open>P\<close>; the nodes are otherwise the same.\<close>

definition keepLink :: "(string \<Rightarrow> string \<Rightarrow> bool) \<Rightarrow> string \<Rightarrow> delegationNode \<Rightarrow> delegationNode" where
  "keepLink P i n = (case n_parentId n of
       None \<Rightarrow> n | Some p \<Rightarrow> if P p i then n else n\<lparr>n_parentId := None\<rparr>)"

definition keepLinks :: "(string \<Rightarrow> string \<Rightarrow> bool) \<Rightarrow> memoryGraph \<Rightarrow> memoryGraph" where
  "keepLinks P g = map (\<lambda>(i, n). (i, keepLink P i n)) g"

lemma keepLinks_get: "jm_get (keepLinks P g) i = map_option (keepLink P i) (jm_get g i)"
  by (induction g) (auto simp: keepLinks_def)

lemma keepLink_fields [simp]:
  "n_id (keepLink P i n) = n_id n" "n_children (keepLink P i n) = n_children n"
  "n_revoked (keepLink P i n) = n_revoked n"
  "n_parentId (keepLink P i n) = Some p \<longleftrightarrow> n_parentId n = Some p \<and> P p i"
  by (auto simp: keepLink_def split: option.splits)

lemma keepLink_idem: "n_parentId (keepLink P i n) = Some p \<Longrightarrow> keepLink P i n = n"
  by (auto simp: keepLink_def split: option.splits if_splits)

text \<open>The parent links the child links agree with, and those that do not dangle.\<close>

definition cutLinks :: "memoryGraph \<Rightarrow> memoryGraph" where
  "cutLinks g = keepLinks (childLink g) g"

definition trimLinks :: "memoryGraph \<Rightarrow> memoryGraph" where
  "trimLinks g = keepLinks (\<lambda>p _. jm_get g p \<noteq> None) g"

lemma cut_get: "jm_get (cutLinks g) i = map_option (keepLink (childLink g) i) (jm_get g i)"
  by (simp add: cutLinks_def keepLinks_get)

lemma trim_get: "jm_get (trimLinks g) i = map_option (keepLink (\<lambda>p _. jm_get g p \<noteq> None) i) (jm_get g i)"
  by (simp add: trimLinks_def keepLinks_get)

lemma childLink_keepLinks [simp]: "childLink (keepLinks P g) p c = childLink g p c"
  by (auto simp: childLink_def keepLinks_get)

lemma childLink_cut [simp]: "childLink (cutLinks g) p c = childLink g p c"
  by (simp add: cutLinks_def)

lemma rootPath_cong:
  assumes "jm_get g = jm_get h"
  shows "rootPath g i is = rootPath h i is"
proof
  show "rootPath g i is \<Longrightarrow> rootPath h i is"
    by (induction rule: rootPath.induct) (simp_all add: assms rootPath.intros)
  show "rootPath h i is \<Longrightarrow> rootPath g i is"
    by (induction rule: rootPath.induct) (simp_all add: assms [symmetric] rootPath.intros)
qed

lemma graphWf_cong:
  assumes "jm_get g = jm_get h"
  shows "graphWf g = graphWf h"
  unfolding graphWf_def assms rootPath_cong [OF assms] ..

subsection \<open>The child links stay a forest\<close>

definition forestWf :: "memoryGraph \<Rightarrow> bool" where
  "forestWf g \<longleftrightarrow> graphWf (cutLinks g)"

lemma forestWf_id: "forestWf g \<Longrightarrow> jm_get g i = Some n \<Longrightarrow> n_id n = i"
  unfolding forestWf_def using graphWf_id [of "cutLinks g" i "keepLink (childLink g) i n"] by (simp add: cut_get)

lemma forestWf_nonempty: "forestWf g \<Longrightarrow> jm_get g [] = None"
  unfolding forestWf_def graphWf_def by (simp add: cut_get)

lemma forestWf_distinct: "forestWf g \<Longrightarrow> jm_get g i = Some n \<Longrightarrow> distinct (n_children n)"
  unfolding forestWf_def using graphWf_children [of "cutLinks g" i "keepLink (childLink g) i n"] by (simp add: cut_get)

lemma forestWf_child:
  assumes "forestWf g" and "childLink g p c"
  shows "parentStep g c p"
proof -
  from assms(2) obtain n where "jm_get (cutLinks g) p = Some n" "c \<in> set (n_children n)"
    by (auto simp: childLink_def cut_get)
  from graphWf_child [OF assms(1) [unfolded forestWf_def] this] show ?thesis
    by (auto simp: cut_get parentStep_def)
qed

text \<open>How the cut graph follows an operation.\<close>

lemma cut_register:
  assumes wf: "forestWf g" and new: "n_children n = []" and reg: "memRegisterNodeAtomic n g = (r, g')"
  shows "\<exists>r' h'. memRegisterNodeAtomic n (cutLinks g) = (r', h') \<and> (h' = cutLinks g \<and> g' = g \<or> jm_get h' = jm_get (cutLinks g'))"
proof -
  consider (own) "n_parentId n = Some (n_id n)" | (known) "n_parentId n \<noteq> Some (n_id n)" "jm_get g (n_id n) \<noteq> None"
    | (root) "jm_get g (n_id n) = None" "n_parentId n = None"
    | (dangling) p where "jm_get g (n_id n) = None" "n_parentId n = Some p" "p \<noteq> n_id n" "jm_get g p = None"
    | (child) p parent where "jm_get g (n_id n) = None" "n_parentId n = Some p" "p \<noteq> n_id n" "jm_get g p = Some parent"
    by (cases "n_parentId n"; cases "jm_get g (n_id n)") auto
  then show ?thesis
  proof cases
    case own
    then show ?thesis using reg by (auto simp: memRegisterNodeAtomic_def)
  next
    case known
    then show ?thesis using reg
      by (auto simp: memRegisterNodeAtomic_def cut_get split: option.splits)
  next
    case root
    have "g' = jm_set (n_id n) n g" using root reg by (auto simp: memRegisterNodeAtomic_def)
    moreover have "memRegisterNodeAtomic n (cutLinks g) = (Inr (), jm_set (n_id n) n (cutLinks g))"
      using root by (simp add: memRegisterNodeAtomic_def cut_get)
    moreover have "childLink (jm_set (n_id n) n g) = childLink g"
      using root new by (auto simp: fun_eq_iff childLink_def)
    then have "jm_get (jm_set (n_id n) n (cutLinks g)) = jm_get (cutLinks (jm_set (n_id n) n g))"
      using root by (intro ext) (simp add: cut_get keepLink_def)
    ultimately show ?thesis by blast
  next
    case dangling
    then show ?thesis using reg by (auto simp: memRegisterNodeAtomic_def cut_get)
  next
    case child
    have id: "n_id parent = p" using forestWf_id [OF wf child(4)] .
    have notchild: "\<not> childLink g q (n_id n)" for q
      using forestWf_child [OF wf, of q "n_id n"] child by (auto simp: parentStep_def)
    let ?g = "jm_set (n_id n) n (jm_set p (linkChild parent (n_id n)) g)"
    let ?h = "jm_set (n_id n) n (jm_set p (linkChild (keepLink (childLink g) p parent) (n_id n)) (cutLinks g))"
    have "g' = ?g" using child reg id by (auto simp: memRegisterNodeAtomic_def)
    moreover have "memRegisterNodeAtomic n (cutLinks g) = (Inr (), ?h)"
      using child id by (simp add: memRegisterNodeAtomic_def cut_get)
    have link: "childLink ?g q c \<longleftrightarrow> childLink g q c \<or> q = p \<and> c = n_id n" for q c
      using child new by (auto simp: childLink_def linkChild_def)
    have "keepLink (childLink g) p (linkChild parent (n_id n)) = linkChild (keepLink (childLink g) p parent) (n_id n)"
      by (auto simp: keepLink_def linkChild_def split: option.splits)
    moreover have "keepLink (childLink ?g) (n_id n) n = n" using child link by (simp add: keepLink_def)
    moreover have "keepLink (childLink ?g) j = keepLink (childLink g) j" if "j \<noteq> n_id n" for j
      using that link by (auto simp: fun_eq_iff keepLink_def split: option.splits)
    ultimately have "jm_get ?h = jm_get (cutLinks ?g)"
      using child(1,3,4) by (intro ext) (auto simp: cut_get)
    with \<open>g' = ?g\<close> \<open>memRegisterNodeAtomic n (cutLinks g) = (Inr (), ?h)\<close> show ?thesis by blast
  qed
qed

lemma forestWf_register:
  assumes wf: "forestWf g" and i: "n_id n \<noteq> []" and new: "n_children n = []"
    and reg: "memRegisterNodeAtomic n g = (r, g')"
  shows "forestWf g'"
proof -
  obtain r' h' where h': "memRegisterNodeAtomic n (cutLinks g) = (r', h')"
      "h' = cutLinks g \<and> g' = g \<or> jm_get h' = jm_get (cutLinks g')"
    using cut_register [OF wf new reg] by blast
  have "graphWf h'" using graphWf_register(1) [OF wf [unfolded forestWf_def] i new h'(1)] .
  then show ?thesis using h'(2) wf graphWf_cong unfolding forestWf_def by blast
qed

lemma forestWf_update:
  assumes wf: "forestWf g" and n: "jm_get g i = Some n" and g': "jm_get g' = (jm_get g)(i \<mapsto> n\<lparr>n_revoked := b\<rparr>)"
  shows "forestWf g'"
proof -
  have link: "childLink g' = childLink g" using n by (auto simp: fun_eq_iff childLink_def g')
  let ?k = "keepLink (childLink g) i n"
  have "jm_get (cutLinks g') = (jm_get (cutLinks g))(i \<mapsto> ?k\<lparr>n_revoked := b\<rparr>)"
    using n by (auto simp: fun_eq_iff cut_get link g' keepLink_def split: option.splits)
  moreover have "jm_get (cutLinks g) i = Some ?k" using n by (simp add: cut_get)
  ultimately show ?thesis using graphWf_update(1) wf unfolding forestWf_def by blast
qed

text \<open>A removal: the node is gone, its parent no longer lists it, and all other nodes keep their
  parent link, alive or not.\<close>

lemma removeDelegation_memory:
  assumes wf: "forestWf g" and run: "removeDelegation memoryGraphStorage i g = (r, g')"
  shows "jm_get g' j = (if j = i then None
      else map_option (\<lambda>n. if parentStep g i j then n\<lparr>n_children := filter (\<lambda>c. c \<noteq> i) (n_children n)\<rparr> else n) (jm_get g j))"
proof (cases "jm_get g i")
  case None
  then show ?thesis using run
    by (auto simp: removeDelegation_def act_bind_def memory_ops parentStep_def option.map_ident)
next
  case (Some n)
  show ?thesis
  proof (cases "n_parentId n")
    case None
    with Some run show ?thesis
      by (auto simp: removeDelegation_def act_bind_def memory_ops parentStep_def option.map_ident)
  next
    case parent: (Some p)
    show ?thesis
    proof (cases "jm_get g p")
      case None
      have "g' = jm_delete i g"
        using Some parent None run by (auto simp: removeDelegation_def act_bind_def memory_ops split: if_splits)
      moreover have "\<not> (parentStep g i j \<and> jm_get g j \<noteq> None)" using Some parent None by (auto simp: parentStep_def)
      ultimately show ?thesis by (auto simp: option.map_ident split: option.splits)
    next
      case known: (Some m)
      then have "p \<noteq> []" "n_id m = p" using forestWf_nonempty [OF wf] forestWf_id [OF wf] by auto
      with Some parent known run show ?thesis
        by (auto simp: removeDelegation_def act_bind_def memory_ops parentStep_def option.map_ident)
    qed
  qed
qed

lemma childLink_removed:
  assumes wf: "forestWf g" and run: "removeDelegation memoryGraphStorage i g = (r, g')"
  shows "childLink g' p c \<longleftrightarrow> childLink g p c \<and> p \<noteq> i \<and> c \<noteq> i"
  using removeDelegation_memory [OF wf run, of p] forestWf_child [OF wf, of p c]
  by (cases "jm_get g p") (auto simp: childLink_def)

lemma parentStep_removed:
  assumes wf: "forestWf g" and run: "removeDelegation memoryGraphStorage i g = (r, g')"
  shows "parentStep g' c p \<longleftrightarrow> parentStep g c p \<and> c \<noteq> i"
proof (cases "jm_get g c")
  case (Some n)
  then show ?thesis using removeDelegation_memory [OF wf run, of c]
    by (cases "parentStep g i c") (simp_all add: parentStep_def [of _ c])
qed (use removeDelegation_memory [OF wf run, of c] in \<open>simp add: parentStep_def [of _ c]\<close>)

lemma parentStep_cut: "parentStep (cutLinks g) c p \<longleftrightarrow> parentStep g c p \<and> childLink g p c"
  by (auto simp: parentStep_def cut_get)

lemma cut_removed_path:
  assumes wf: "forestWf g" and run: "removeDelegation memoryGraphStorage i g = (r, g')"
  shows "rootPath (cutLinks g) j is \<Longrightarrow> j \<noteq> i \<Longrightarrow> \<exists>js. rootPath (cutLinks g') j js"
proof (induction rule: rootPath.induct)
  case (root j n)
  then obtain m where m: "jm_get g j = Some m" by (auto simp: cut_get)
  have "\<not> parentStep (cutLinks g) j p" for p using root.hyps by (simp add: parentStep_def)
  then have "\<not> parentStep (cutLinks g') j p" for p
    using parentStep_removed [OF wf run, of j p] childLink_removed [OF wf run, of p j]
    by (auto simp: parentStep_cut)
  moreover obtain m' where "jm_get (cutLinks g') j = Some m'"
    using removeDelegation_memory [OF wf run, of j] root.prems m by (auto simp: cut_get)
  ultimately have "n_parentId m' = None" by (auto simp: parentStep_def)
  with \<open>jm_get (cutLinks g') j = Some m'\<close> show ?case by (blast intro: rootPath.root)
next
  case (child j n p "is")
  then obtain m where m: "jm_get g j = Some m" by (auto simp: cut_get)
  obtain m' where m': "jm_get (cutLinks g') j = Some m'"
    using removeDelegation_memory [OF wf run, of j] child.prems m by (auto simp: cut_get)
  have only: "q = p \<and> p \<noteq> i" if "n_parentId m' = Some q" for q
  proof -
    have "parentStep (cutLinks g') j q" using m' that by (simp add: parentStep_def)
    then have "parentStep (cutLinks g) j q" "p = q \<Longrightarrow> p \<noteq> i"
      using parentStep_removed [OF wf run, of j q] childLink_removed [OF wf run, of q j] by (simp_all add: parentStep_cut)
    then show ?thesis using child.hyps(1,2) by (simp add: parentStep_def)
  qed
  show ?case
  proof (cases "n_parentId m'")
    case None
    with m' show ?thesis by (blast intro: rootPath.root)
  next
    case (Some q)
    with only [OF Some] m' child.IH show ?thesis by (blast intro: rootPath.child)
  qed
qed

lemma forestWf_remove:
  assumes wf: "forestWf g" and run: "removeDelegation memoryGraphStorage i g = (r, g')"
  shows "forestWf g'"
proof -
  note get = removeDelegation_memory [OF wf run]
  have "jm_get (cutLinks g') [] = None" using get [of "[]"] forestWf_nonempty [OF wf] by (auto simp: cut_get)
  moreover have "n_id n = j \<and> (\<exists>is. rootPath (cutLinks g') j is) \<and> distinct (n_children n)"
    if "jm_get (cutLinks g') j = Some n" for j n
  proof -
    from that get [of j] obtain m where m: "jm_get g j = Some m" "j \<noteq> i" and nm: "n_id n = n_id m"
        "n_children n = n_children m \<or> n_children n = filter (\<lambda>c. c \<noteq> i) (n_children m)"
      by (auto simp: cut_get split: if_splits)
    obtain "is" where "rootPath (cutLinks g) j is"
      using graphWf_path [OF wf [unfolded forestWf_def]] m(1) by (force simp: cut_get)
    with m nm show ?thesis
      using cut_removed_path [OF wf run] forestWf_id [OF wf] forestWf_distinct [OF wf m(1)] by auto
  qed
  moreover have "\<exists>pn. jm_get (cutLinks g') p = Some pn \<and> j \<in> set (n_children pn)"
    if "jm_get (cutLinks g') j = Some n" "n_parentId n = Some p" for j n p
  proof -
    have "childLink (cutLinks g') p j" using that parentStep_cut [of g' j p] by (auto simp: parentStep_def)
    then show ?thesis unfolding childLink_def .
  qed
  moreover have "\<exists>cn. jm_get (cutLinks g') c = Some cn \<and> n_parentId cn = Some p"
    if "jm_get (cutLinks g') p = Some pn" "c \<in> set (n_children pn)" for p pn c
  proof -
    have "childLink (cutLinks g') p c" using that by (auto simp: childLink_def)
    then have "childLink g' p c" by simp
    then have "parentStep g' c p" "childLink g' p c"
      using childLink_removed [OF wf run] forestWf_child [OF wf] parentStep_removed [OF wf run] by blast+
    then show ?thesis using parentStep_cut by (simp add: parentStep_def)
  qed
  ultimately show ?thesis unfolding forestWf_def graphWf_def by blast
qed

subsection \<open>Runs with removals\<close>

text \<open>\<open>graphRun R g\<close>: \<open>g\<close> is reached from the empty graph by any sequence of registrations,
  revocation marks and removals, and \<open>R\<close> holds the ids of the delegations that were removed on
  the way, registered again or not.\<close>

inductive graphRun :: "string set \<Rightarrow> memoryGraph \<Rightarrow> bool" where
  start: "graphRun {} []"
| registered: "graphRun R g \<Longrightarrow> p_id p \<noteq> [] \<Longrightarrow> registerDelegation memoryGraphStorage p g = (r, g') \<Longrightarrow> graphRun R g'"
| marked: "graphRun R g \<Longrightarrow> setRevoked memoryGraphStorage i b g = (r', g') \<Longrightarrow> graphRun R g'"
| removed: "graphRun R g \<Longrightarrow> removeDelegation memoryGraphStorage i g = (r'', g') \<Longrightarrow>
    graphRun (if jm_get g i = None then R else insert i R) g'"

definition orphansOnly :: "string set \<Rightarrow> memoryGraph \<Rightarrow> bool" where
  "orphansOnly R g \<longleftrightarrow> (\<forall>c p. parentStep g c p \<longrightarrow> p \<in> R \<or> childLink g p c)"

lemma setRevoked_forest:
  assumes wf: "forestWf g" and "setRevoked memoryGraphStorage i b g = (r, g')"
  shows "(jm_get g i = None \<and> g' = g \<and> r = Inl (DelegationNotFound i)) \<or>
    (\<exists>n. jm_get g i = Some n \<and> jm_get g' = (jm_get g)(i \<mapsto> n\<lparr>n_revoked := b\<rparr>) \<and> r = Inr True)"
  using assms(2) forestWf_id [OF wf, of i]
  by (cases "jm_get g i") (auto simp: setRevoked_def act_bind_def memory_ops update_conv')

lemma memRegister_cases:
  assumes reg: "memRegisterNodeAtomic n g = (r, g')" and wf: "forestWf g"
  obtains (same) "g' = g" | (root) "jm_get g (n_id n) = None" "n_parentId n = None" "g' = jm_set (n_id n) n g"
  | (child) p parent where "jm_get g (n_id n) = None" "n_parentId n = Some p" "p \<noteq> n_id n" "jm_get g p = Some parent"
      "g' = jm_set (n_id n) n (jm_set p (linkChild parent (n_id n)) g)"
proof (cases "n_parentId n = Some (n_id n) \<or> jm_get g (n_id n) \<noteq> None")
  case True
  with reg have "g' = g" by (auto simp: memRegisterNodeAtomic_def split: if_splits option.splits)
  then show thesis by (rule same)
next
  case False
  show thesis
  proof (cases "n_parentId n")
    case None
    with False reg show thesis by (intro root) (auto simp: memRegisterNodeAtomic_def)
  next
    case (Some p)
    show thesis
    proof (cases "jm_get g p")
      case None
      with Some False reg have "g' = g" by (auto simp: memRegisterNodeAtomic_def)
      then show thesis by (rule same)
    next
      case parent: (Some parent)
      with Some False reg forestWf_id [OF wf parent] show thesis
        by (intro child) (auto simp: memRegisterNodeAtomic_def)
    qed
  qed
qed

lemma orphansOnly_register:
  assumes wf: "forestWf g" and orphans: "orphansOnly R g" and new: "n_children n = []"
    and reg: "memRegisterNodeAtomic n g = (r, g')"
  shows "orphansOnly R g'"
proof -
  consider (same) "g' = g" | (root) "jm_get g (n_id n) = None" "n_parentId n = None" "g' = jm_set (n_id n) n g"
    | (child) p parent where "jm_get g (n_id n) = None" "n_parentId n = Some p" "p \<noteq> n_id n" "jm_get g p = Some parent"
        "g' = jm_set (n_id n) n (jm_set p (linkChild parent (n_id n)) g)"
    using reg wf by (rule memRegister_cases)
  then show ?thesis
  proof cases
    case same
    with orphans show ?thesis by simp
  next
    case root
    then have "parentStep g' c p \<Longrightarrow> parentStep g c p" "childLink g p c \<Longrightarrow> childLink g' p c" for c p
      by (auto simp: parentStep_def childLink_def split: if_splits)
    with orphans show ?thesis unfolding orphansOnly_def by blast
  next
    case child
    then have "parentStep g' c q \<Longrightarrow> parentStep g c q \<or> c = n_id n \<and> q = p" "childLink g q c \<Longrightarrow> childLink g' q c"
        "childLink g' p (n_id n)" for c q
      by (auto simp: parentStep_def childLink_def linkChild_def split: if_splits)
    with orphans show ?thesis unfolding orphansOnly_def by blast
  qed
qed

lemma orphansOnly_removed:
  assumes wf: "forestWf g" and orphans: "orphansOnly R g" and run: "removeDelegation memoryGraphStorage i g = (r, g')"
  shows "orphansOnly (if jm_get g i = None then R else insert i R) g'"
  unfolding orphansOnly_def
proof (intro allI impI)
  fix c p assume "parentStep g' c p"
  then have "parentStep g c p" "c \<noteq> i" using parentStep_removed [OF wf run] by blast+
  then have "p \<in> R \<or> childLink g p c" using orphans by (simp add: orphansOnly_def)
  moreover have "childLink g i c \<Longrightarrow> jm_get g i \<noteq> None" by (auto simp: childLink_def)
  ultimately show "p \<in> (if jm_get g i = None then R else insert i R) \<or> childLink g' p c"
    using childLink_removed [OF wf run, of p c] \<open>c \<noteq> i\<close> by auto
qed

lemma graphRun_sound [kya_inv]: "graphRun R g \<Longrightarrow> forestWf g \<and> orphansOnly R g"
proof (induction rule: graphRun.induct)
  case start
  show ?case by (simp add: forestWf_def cutLinks_def keepLinks_def orphansOnly_def parentStep_def)
next
  case (registered R g p r g')
  from registered.hyps(3) show ?case
  proof (rule registerDelegation_memory)
    fix r' assume r': "memRegisterNodeAtomic (newNode p) g = (r', g')"
    show ?thesis
      using registered forestWf_register [OF _ _ _ r'] orphansOnly_register [OF _ _ _ r'] by (simp add: newNode_def)
  qed (use registered.IH in simp)
next
  case (marked R g i b r' g')
  then have wf: "forestWf g" by simp
  from setRevoked_forest [OF wf marked.hyps(2)] show ?case
  proof (elim disjE conjE exE)
    fix n assume n: "jm_get g i = Some n" "jm_get g' = (jm_get g)(i \<mapsto> n\<lparr>n_revoked := b\<rparr>)"
    then have "parentStep g' = parentStep g" "childLink g' = childLink g"
      by (auto simp: fun_eq_iff parentStep_def childLink_def)
    then show ?thesis using forestWf_update [OF wf n] marked.IH by (simp add: orphansOnly_def)
  qed (use marked.IH in simp)
next
  case (removed R g i r'' g')
  then show ?case using forestWf_remove [OF _ removed.hyps(2)] orphansOnly_removed [OF _ _ removed.hyps(2)] by blast
qed

lemma reachableGraph_run: "reachableGraph g \<Longrightarrow> graphRun {} g"
proof (induction rule: reachableGraph.induct)
  case (step g g')
  from step.hyps(2) step.IH show ?case
    by (cases rule: graphStep.cases) (auto intro: graphRun.registered graphRun.marked)
qed (rule graphRun.start)

subsection \<open>Chains after removals\<close>

lemma parentStep_trim: "parentStep (trimLinks g) c p \<longleftrightarrow> parentStep g c p \<and> jm_get g p \<noteq> None"
  by (auto simp: parentStep_def trim_get)

lemma rootPath_step: "rootPath h c is \<Longrightarrow> parentStep h c p \<Longrightarrow> \<exists>js. rootPath h p js \<and> is = js @ [c]"
  by (erule rootPathE) (auto simp: parentStep_def)

text \<open>Where the links lead to a top, the walk returns the path to it.\<close>

lemma chainFrom_trim:
  "rootPath (trimLinks g) i is \<Longrightarrow> jm_get g [] = None \<Longrightarrow> set is \<inter> set visited = {} \<Longrightarrow>
     \<forall>v \<in> set visited. jm_get g v \<noteq> None \<Longrightarrow>
     chainFrom g (Some i) visited chain = Inr (map (\<lambda>j. the (jm_get g j)) is @ chain)"
proof (induction arbitrary: visited chain rule: rootPath.induct)
  case (root i n)
  then obtain m where m: "jm_get g i = Some m" "n = keepLink (\<lambda>p _. jm_get g p \<noteq> None) i m"
    by (auto simp: trim_get)
  have "chainFrom g (n_parentId m) (i # visited) (m # chain) = Inr (m # chain)"
  proof (cases "n_parentId m")
    case (Some p)
    then have "jm_get g p = None" using root.hyps(2) m(2) by (auto simp: keepLink_def split: if_splits)
    then show ?thesis using Some root.prems m by (auto simp: chainFrom.simps [of g "Some p"])
  qed (simp add: chainFrom.simps [of g None])
  moreover have "i \<noteq> []" "i \<notin> set visited" using m(1) root.prems by auto
  ultimately show ?case using m(1) by (simp add: chainFrom.simps [of g "Some i"])
next
  case (child i n p "is")
  then obtain m where m: "jm_get g i = Some m" "n_parentId m = Some p" by (auto simp: trim_get)
  have "i \<noteq> []" "i \<notin> set visited" "i \<notin> set is" using m(1) child.prems rootPath_fresh [OF child.hyps] by auto
  then show ?case
    using m child.prems child.IH [of "i # visited" "m # chain"]
    by (simp add: chainFrom.simps [of g "Some i"])
qed

lemma chainFrom_top:
  "chainFrom g cur visited chain = Inr r \<Longrightarrow> jm_get g [] = None \<Longrightarrow> cur = Some i \<Longrightarrow> jm_get g i \<noteq> None \<Longrightarrow>
     \<exists>is. rootPath (trimLinks g) i is"
proof (induction g cur visited chain arbitrary: i rule: chainFrom.induct)
  case (1 g cur visited chain)
  then obtain n where n: "jm_get g i = Some n" by auto
  have live: "truthy cur" "the cur = i" "i \<notin> set visited" "i \<noteq> []"
    using "1.prems" n by (auto simp: chainFrom.simps [of g "Some i"] split: if_splits)
  then have rest: "chainFrom g (n_parentId n) (i # visited) (n # chain) = Inr r"
    using "1.prems"(1,3) n by (simp add: chainFrom.simps [of g "Some i"])
  let ?n = "keepLink (\<lambda>p _. jm_get g p \<noteq> None) i n"
  have get: "jm_get (trimLinks g) i = Some ?n" using n by (simp add: trim_get)
  show ?case
  proof (cases "n_parentId ?n")
    case None
    with get show ?thesis by (blast intro: rootPath.root)
  next
    case (Some p)
    then have p: "n_parentId n = Some p" "jm_get g p \<noteq> None" by simp_all
    have "\<exists>is. rootPath (trimLinks g) p is"
      using "1.IH" [OF _ _ _ _ _ "1.prems"(2) p, of i] rest n live by simp
    with get Some show ?thesis by (blast intro: rootPath.child)
  qed
qed

text \<open>Where they do not, the walk reports a parent cycle above its start.\<close>

lemma chainFrom_cycle:
  "chainFrom g cur visited chain = Inl e \<Longrightarrow> \<forall>v \<in> set visited. \<forall>q. cur = Some q \<longrightarrow> (parentStep g)\<^sup>+\<^sup>+ v q \<Longrightarrow>
     \<forall>q. cur = Some q \<longrightarrow> (parentStep g)\<^sup>*\<^sup>* i q \<Longrightarrow>
     \<exists>c. e = ParentCycle c \<and> (parentStep g)\<^sup>*\<^sup>* i c \<and> (parentStep g)\<^sup>+\<^sup>+ c c"
proof (induction g cur visited chain rule: chainFrom.induct)
  case (1 g cur visited chain)
  have "truthy cur" using "1.prems"(1) unfolding chainFrom.simps [of g cur] by (simp split: if_splits)
  then obtain q where q: "cur = Some q" "q \<noteq> []" by (cases cur) auto
  show ?case
  proof (cases "q \<in> set visited")
    case True
    then have "e = ParentCycle q" using "1.prems"(1) q by (simp add: chainFrom.simps [of g "Some q"])
    with True "1.prems"(2,3) q show ?thesis by blast
  next
    case False
    then obtain n where n: "jm_get g q = Some n" and rest: "chainFrom g (n_parentId n) (q # visited) (n # chain) = Inl e"
      using "1.prems"(1) q False by (auto simp: chainFrom.simps [of g "Some q"] split: option.splits)
    have step: "parentStep g q p" if "n_parentId n = Some p" for p
      using n that by (auto simp: parentStep_def)
    have "\<forall>v \<in> set (q # visited). \<forall>p. n_parentId n = Some p \<longrightarrow> (parentStep g)\<^sup>+\<^sup>+ v p"
      using "1.prems"(2) q step by (auto intro: tranclp.trancl_into_trancl)
    moreover have "\<forall>p. n_parentId n = Some p \<longrightarrow> (parentStep g)\<^sup>*\<^sup>* i p"
      using "1.prems"(3) q step by (auto intro: rtranclp.rtrancl_into_rtrancl)
    ultimately show ?thesis using "1.IH" rest q False n by simp
  qed
qed

text \<open>A cycle of parent links runs through a removed delegation.\<close>

lemma cycle_in_cut:
  assumes orphans: "orphansOnly R g" and live: "\<And>r. (parentStep g)\<^sup>*\<^sup>* c r \<Longrightarrow> (parentStep g)\<^sup>*\<^sup>* r c \<Longrightarrow> r \<notin> R"
  shows "(parentStep g)\<^sup>+\<^sup>+ c d \<Longrightarrow> (parentStep g)\<^sup>*\<^sup>* d c \<Longrightarrow> (parentStep (cutLinks g))\<^sup>+\<^sup>+ c d"
proof (induction rule: tranclp_induct)
  case (base y)
  then have "y \<notin> R" using live [of y] by blast
  then show ?case using base.hyps orphans by (auto simp: parentStep_cut orphansOnly_def)
next
  case (step y z)
  then have "z \<notin> R" using live [of z] by (meson rtranclp.rtrancl_into_rtrancl tranclp_into_rtranclp)
  then have "parentStep (cutLinks g) y z" using step.hyps(2) orphans by (auto simp: parentStep_cut orphansOnly_def)
  moreover have "(parentStep g)\<^sup>*\<^sup>* y c" using step.hyps(2) step.prems by (rule converse_rtranclp_into_rtranclp)
  ultimately show ?case using step.IH by (blast intro: tranclp.trancl_into_trancl)
qed

lemma path_climb: "(parentStep h)\<^sup>+\<^sup>+ c d \<Longrightarrow> rootPath h c is \<Longrightarrow> d \<in> set (butlast is)"
proof (induction arbitrary: "is" rule: converse_tranclp_induct)
  case (base y)
  then show ?case using rootPath_step [of h y "is" d] rootPath_last by fastforce
next
  case (step y z)
  then obtain js where "rootPath h z js" "is = js @ [y]" using rootPath_step by blast
  with step.IH show ?case by (auto dest: in_set_butlastD)
qed

lemma cycle_removed:
  assumes wf: "forestWf g" and orphans: "orphansOnly R g" and cycle: "(parentStep g)\<^sup>+\<^sup>+ c c"
  shows "\<exists>r \<in> R. (parentStep g)\<^sup>*\<^sup>* c r \<and> (parentStep g)\<^sup>*\<^sup>* r c"
proof (rule ccontr)
  assume "\<not> ?thesis"
  then have "(parentStep (cutLinks g))\<^sup>+\<^sup>+ c c" using cycle_in_cut [OF orphans _ cycle] by blast
  moreover from this have "\<exists>n. jm_get (cutLinks g) c = Some n" by (metis tranclpD parentStep_def)
  then obtain "is" where path: "rootPath (cutLinks g) c is" using graphWf_path [OF wf [unfolded forestWf_def]] by blast
  ultimately have "c \<in> set (butlast is)" by (blast intro: path_climb)
  moreover have "is = butlast is @ [c]" using rootPath_last [OF path] by (metis append_butlast_last_id)
  ultimately show False using rootPath_distinct [OF path] by (metis distinct_append disjoint_iff list.set_intros(1))
qed

lemma trim_path_linked:
  assumes wf: "forestWf g"
  shows "rootPath (trimLinks g) i is \<Longrightarrow> \<exists>top. parentLinked top (map (\<lambda>j. the (jm_get g j)) is) \<and>
    (\<forall>p. top = Some p \<longrightarrow> jm_get g p = None \<and> parentStep g (hd is) p)"
proof (induction rule: rootPath.induct)
  case (root i n)
  then obtain m where m: "jm_get g i = Some m" "n = keepLink (\<lambda>p _. jm_get g p \<noteq> None) i m"
    by (auto simp: trim_get)
  have "jm_get g p = None" if "n_parentId m = Some p" for p
    using that root.hyps(2) m(2) by (auto simp: keepLink_def split: if_splits)
  with m(1) show ?case by (auto simp: parentStep_def intro!: exI [where x = "n_parentId m"])
next
  case (child i n p "is")
  then obtain m where m: "jm_get g i = Some m" "n_parentId m = Some p" "jm_get g p \<noteq> None" by (auto simp: trim_get)
  have "is \<noteq> []" "last is = p" using rootPath_last [OF child.hyps(3)] by auto
  moreover from this m(3) have "n_id (the (jm_get g (last is))) = p" using forestWf_id [OF wf] by auto
  ultimately show ?case using m(1,2) child.IH by (auto simp: parentLinked_append last_map)
qed

lemma trim_path_nodes:
  assumes wf: "forestWf g" and path: "rootPath (trimLinks g) i is"
  shows "map n_id (map (\<lambda>j. the (jm_get g j)) is) = is"
    and "list_all (\<lambda>m. jm_get g (n_id m) = Some m) (map (\<lambda>j. the (jm_get g j)) is)"
proof -
  have "jm_get g j = Some (the (jm_get g j)) \<and> n_id (the (jm_get g j)) = j" if "j \<in> set is" for j
    using rootPath_known [OF path that] forestWf_id [OF wf] by (force simp: trim_get)
  then show "map n_id (map (\<lambda>j. the (jm_get g j)) is) = is"
    "list_all (\<lambda>m. jm_get g (n_id m) = Some m) (map (\<lambda>j. the (jm_get g j)) is)"
    by (auto simp: map_idI list_all_iff)
qed

lemma getChainSync_trim:
  "forestWf g \<Longrightarrow> rootPath (trimLinks g) i is \<Longrightarrow> getChainSync g i = Inr (map (\<lambda>j. the (jm_get g j)) is)"
  by (simp add: getChainSync_def chainFrom_trim forestWf_nonempty)

text \<open>C34: the chain of a stored delegation is its ancestry, in every graph that registrations,
  revocation marks and removals lead to. The walk either returns a chain: it ends at the
  delegation, links each node to its parent, repeats no id, holds stored nodes only, and starts at
  a root, or at a node whose parent was removed and is no longer stored. Or it reports a parent
  cycle: then the parent links above the delegation do close a cycle, and the cycle runs through a
  delegation that was removed and registered again. Where nothing was removed (\<open>R = {}\<close>) the walk
  always returns the whole ancestry up to a root.\<close>

theorem chain_is_ancestry:
  assumes "graphRun R g" and "jm_get g i = Some n"
  shows "(\<exists>top chain. getChainSync g i = Inr chain \<and> chain \<noteq> [] \<and> last chain = n \<and> parentLinked top chain \<and>
      distinct (map n_id chain) \<and> list_all (\<lambda>m. jm_get g (n_id m) = Some m) chain \<and>
      (case top of None \<Rightarrow> True | Some p \<Rightarrow> p \<in> R \<and> jm_get g p = None)) \<or>
    (\<exists>c r. getChainSync g i = Inl (ParentCycle c) \<and> (parentStep g)\<^sup>*\<^sup>* i c \<and> (parentStep g)\<^sup>+\<^sup>+ c c \<and>
      r \<in> R \<and> (parentStep g)\<^sup>*\<^sup>* c r \<and> (parentStep g)\<^sup>*\<^sup>* r c)"
proof -
  from graphRun_sound [OF assms(1)] have wf: "forestWf g" and orphans: "orphansOnly R g" by auto
  show ?thesis
  proof (cases "getChainSync g i")
    case (Inl e)
    then have "\<exists>c. e = ParentCycle c \<and> (parentStep g)\<^sup>*\<^sup>* i c \<and> (parentStep g)\<^sup>+\<^sup>+ c c"
      unfolding getChainSync_def by (rule chainFrom_cycle) simp_all
    with Inl cycle_removed [OF wf orphans] show ?thesis by blast
  next
    case (Inr chain)
    then obtain "is" where path: "rootPath (trimLinks g) i is"
      using chainFrom_top [OF Inr [unfolded getChainSync_def] forestWf_nonempty [OF wf] refl] assms(2) by auto
    then have chain: "chain = map (\<lambda>j. the (jm_get g j)) is" using getChainSync_trim [OF wf path] Inr by simp
    obtain top where top: "parentLinked top chain" "\<And>p. top = Some p \<Longrightarrow> jm_get g p = None \<and> parentStep g (hd is) p"
      using trim_path_linked [OF wf path] chain by blast
    have "p \<in> R" if "top = Some p" for p
    proof -
      from top(2) [OF that] orphans have "p \<in> R \<or> childLink g p (hd is)" unfolding orphansOnly_def by blast
      with top(2) [OF that] show ?thesis by (auto simp: childLink_def)
    qed
    then have "case top of None \<Rightarrow> True | Some p \<Rightarrow> p \<in> R \<and> jm_get g p = None" using top(2) by (simp split: option.splits)
    then show ?thesis
      using Inr top(1) rootPath_last [OF path] rootPath_distinct [OF path] assms(2)
        trim_path_nodes [OF wf path, folded chain] chain
      by (auto simp: last_map)
  qed
qed

subsection \<open>Descendants after removals\<close>

lemma map_filter_keepLinks:
  "map n_id (List.map_filter (jm_get (keepLinks P g)) cs) = map n_id (List.map_filter (jm_get g) cs)"
  by (induction cs) (auto simp: map_filter_simps keepLinks_get split: option.splits)

lemma descendantsFrom_keepLinks:
  "map n_id found' = map n_id found \<Longrightarrow>
    map n_id (descendantsFrom (keepLinks P g) queue visited found') = map n_id (descendantsFrom g queue visited found)"
proof (induction g queue visited found arbitrary: found' rule: descendantsFrom.induct)
  case (2 g i queue visited found)
  show ?case
  proof (cases "i \<in> set visited")
    case False
    show ?thesis
    proof (cases "jm_get g i")
      case None
      then show ?thesis using "2.IH"(2) [OF False None "2.prems"] False by (simp add: keepLinks_get)
    next
      case (Some n)
      let ?fresh = "filter (\<lambda>c. c \<notin> set (i # visited)) (n_children n)"
      have "map n_id (found' @ List.map_filter (jm_get (keepLinks P g)) ?fresh) = map n_id (found @ List.map_filter (jm_get g) ?fresh)"
        using "2.prems" by (simp only: map_append map_filter_keepLinks)
      from "2.IH"(3) [OF False Some refl this] show ?thesis
        using False Some keepLinks_get [of P g i] by (simp only: descendantsFrom.simps if_False option.map option.case Let_def keepLink_fields)
    qed
  qed (use "2.IH"(1) "2.prems" in simp)
qed simp

lemma below_cut:
  assumes wf: "forestWf g"
  shows "below (cutLinks g) i d \<longleftrightarrow> jm_get g i \<noteq> None \<and> (childLink g)\<^sup>*\<^sup>* i d"
proof
  note wf' = wf [unfolded forestWf_def]
  have "(childLink g)\<^sup>*\<^sup>* i d" if "rootPath (cutLinks g) d is" "i \<in> set is" for "is"
    using that
  proof (induction rule: rootPath.induct)
    case (child d n p "is")
    then have "childLink g p d" using parentStep_cut [of g d p] by (auto simp: parentStep_def)
    with child show ?case by (auto intro: rtranclp.rtrancl_into_rtrancl)
  qed simp
  then show "below (cutLinks g) i d \<Longrightarrow> jm_get g i \<noteq> None \<and> (childLink g)\<^sup>*\<^sup>* i d"
    using below_known [of "cutLinks g" i d] by (auto simp: below_def cut_get)
  assume "jm_get g i \<noteq> None \<and> (childLink g)\<^sup>*\<^sup>* i d"
  then obtain n where "jm_get (cutLinks g) i = Some n" "(childLink g)\<^sup>*\<^sup>* i d" by (auto simp: cut_get)
  from this(2) show "below (cutLinks g) i d"
  proof (induction rule: rtranclp_induct)
    case base
    then show ?case using below_refl [OF wf'] \<open>jm_get (cutLinks g) i = Some n\<close> by blast
  next
    case (step p d)
    then have "parentStep (cutLinks g) d p" using forestWf_child [OF wf] by (simp add: parentStep_cut)
    then show ?case using below_child [OF step.IH] by (auto simp: parentStep_def)
  qed
qed

lemma descendants_forest:
  assumes wf: "forestWf g" and known: "jm_get g i \<noteq> None"
  shows "distinct (map n_id (descendantsFrom g [i] [] []))"
    and "n_id ` set (descendantsFrom g [i] [] []) = {d. (childLink g)\<^sup>*\<^sup>* i d} - {i}"
proof -
  note wf' = wf [unfolded forestWf_def]
  have eq: "map n_id (descendantsFrom (cutLinks g) [i] [] []) = map n_id (descendantsFrom g [i] [] [])"
    unfolding cutLinks_def by (rule descendantsFrom_keepLinks) (rule refl)
  show "distinct (map n_id (descendantsFrom g [i] [] []))"
    using descendants_correct(1) [OF wf', of i] eq by simp
  obtain n where "jm_get (cutLinks g) i = Some n" using known by (auto simp: cut_get)
  then have "n_id ` set (descendantsFrom (cutLinks g) [i] [] []) = {d. below (cutLinks g) i d} - {i}"
    using descendantsFrom_correct [OF wf', of i "[i]" "[]" "[]"] by (simp add: bfsInv_def below_refl [OF wf'])
  then show "n_id ` set (descendantsFrom g [i] [] []) = {d. (childLink g)\<^sup>*\<^sup>* i d} - {i}"
    using eq below_cut [OF wf] known by (metis (no_types, lifting) Collect_cong list.set_map)
qed

lemma graphWf_cut: "graphWf g \<Longrightarrow> jm_get (cutLinks g) = jm_get g"
proof
  fix i assume wf: "graphWf g"
  show "jm_get (cutLinks g) i = jm_get g i"
  proof (cases "jm_get g i")
    case (Some n)
    then show ?thesis using graphWf_parent [OF wf Some]
      by (auto simp: cut_get keepLink_def childLink_def split: option.splits)
  qed (simp add: cut_get)
qed

lemma graphWf_forest: "graphWf g \<Longrightarrow> forestWf g"
  unfolding forestWf_def using graphWf_cong [OF graphWf_cut] by blast

lemma below_childLink: "graphWf g \<Longrightarrow> below g i d \<longleftrightarrow> jm_get g i \<noteq> None \<and> (childLink g)\<^sup>*\<^sup>* i d"
  using below_cut [OF graphWf_forest] rootPath_cong [OF graphWf_cut] by (simp add: below_def)

text \<open>A delegation linked below another has it in its chain; one that has it in its chain is linked
  below it unless a delegation between the two was removed.\<close>

lemma linked_path:
  assumes wf: "forestWf g" and path: "rootPath (trimLinks g) i is"
  shows "(childLink g)\<^sup>*\<^sup>* i d \<Longrightarrow> \<exists>js. rootPath (trimLinks g) d js \<and> i \<in> set js"
proof (induction rule: rtranclp_induct)
  case base
  then show ?case using path rootPath_last by fastforce
next
  case (step p d)
  then obtain js where js: "rootPath (trimLinks g) p js" "i \<in> set js" by blast
  have "parentStep (trimLinks g) d p"
    using forestWf_child [OF wf step.hyps(2)] step.hyps(2) by (auto simp: parentStep_trim childLink_def)
  then obtain n where "jm_get (trimLinks g) d = Some n" "n_parentId n = Some p" by (auto simp: parentStep_def)
  from rootPath.child [OF this js(1)] js(2) show ?case by (metis Un_iff set_append)
qed

lemma path_linked_below:
  assumes orphans: "orphansOnly R g"
  shows "rootPath (trimLinks g) d is \<Longrightarrow> i \<in> set is \<Longrightarrow> set (butlast (dropWhile (\<lambda>j. j \<noteq> i) is)) \<inter> R = {} \<Longrightarrow>
     (childLink g)\<^sup>*\<^sup>* i d"
proof (induction rule: rootPath.induct)
  case (root d n)
  then show ?case by simp
next
  case (child d n p "is")
  show ?case
  proof (cases "i \<in> set is")
    case True
    then have drop: "dropWhile (\<lambda>j. j \<noteq> i) (is @ [d]) = dropWhile (\<lambda>j. j \<noteq> i) is @ [d]" by (simp add: dropWhile_append1)
    have ne: "dropWhile (\<lambda>j. j \<noteq> i) is \<noteq> []" using True by (auto simp: dropWhile_eq_Nil_conv)
    have "last (dropWhile (\<lambda>j. j \<noteq> i) is) = last is"
      using ne by (metis last_appendR takeWhile_dropWhile_id)
    then have "p \<in> set (dropWhile (\<lambda>j. j \<noteq> i) is)"
      using rootPath_last [OF child.hyps(3)] last_in_set [OF ne] by simp
    then have "p \<notin> R" using child.prems(2) drop by auto
    moreover have "parentStep g d p" using child.hyps(1,2) by (auto simp: parentStep_def trim_get)
    ultimately have "childLink g p d" using orphans by (auto simp: orphansOnly_def)
    moreover have "(childLink g)\<^sup>*\<^sup>* i p"
      using child.IH [OF True] child.prems(2) drop by (auto dest: in_set_butlastD)
    ultimately show ?thesis by (rule rtranclp.rtrancl_into_rtrancl [rotated])
  next
    case False
    then show ?thesis using child.prems(1) by simp
  qed
qed

subsection \<open>Examples\<close>

text \<open>The example graph without \<open>b\<close>, and with \<open>b\<close> registered again below its own child \<open>c\<close>.\<close>

definition orphanedGraph :: memoryGraph where
  "orphanedGraph = removed ''b'' exampleGraph"

definition cyclicGraph :: memoryGraph where
  "cyclicGraph = registered (exampleRegistration ''b'' (Some ''c'')) orphanedGraph"

lemma orphanedGraph_run: "graphRun {''b''} orphanedGraph"
proof -
  obtain r g where run: "removeDelegation memoryGraphStorage ''b'' exampleGraph = (r, g)" by force
  have "graphRun (if jm_get exampleGraph ''b'' = None then {} else {''b''}) g"
    by (rule graphRun.removed [OF reachableGraph_run [OF exampleGraph_reachable] run])
  then show ?thesis using exampleGraph_ids(1) run by (simp add: orphanedGraph_def removed_def)
qed

lemma cyclicGraph_run: "graphRun {''b''} cyclicGraph"
  using graphRun.registered [OF orphanedGraph_run, of "exampleRegistration ''b'' (Some ''c'')"]
  by (simp add: cyclicGraph_def registered_def exampleRegistration_def prod_eq_iff)

theorem chain_is_ancestry_witness:
  "(\<exists>top chain. getChainSync orphanedGraph ''c'' = Inr chain \<and> parentLinked top chain \<and> length chain = 1) \<and>
   (parentStep cyclicGraph)\<^sup>+\<^sup>+ ''c'' ''c''"
proof
  have "jm_get orphanedGraph ''c'' \<noteq> None" "jm_get cyclicGraph ''c'' \<noteq> None" by code_simp+
  then obtain n n' where n: "jm_get orphanedGraph ''c'' = Some n" "jm_get cyclicGraph ''c'' = Some n'" by auto
  have eval: "map_option length (case getChainSync orphanedGraph ''c'' of Inl _ \<Rightarrow> None | Inr c \<Rightarrow> Some c) = Some 1"
    "(case getChainSync cyclicGraph ''c'' of Inl (ParentCycle c) \<Rightarrow> c | _ \<Rightarrow> []) = ''c''" by code_simp+
  show "\<exists>top chain. getChainSync orphanedGraph ''c'' = Inr chain \<and> parentLinked top chain \<and> length chain = 1"
    using chain_is_ancestry [OF orphanedGraph_run n(1)] eval(1) by auto
  show "(parentStep cyclicGraph)\<^sup>+\<^sup>+ ''c'' ''c''"
    using chain_is_ancestry [OF cyclicGraph_run n(2)] eval(2) by auto
qed

text \<open>Removing a delegation and registering it again below its own child closes a cycle of parent
  links, which the registration does not see: from then on no chain through it can be read.\<close>

theorem removal_lets_a_cycle_close:
  "fst (registerDelegation memoryGraphStorage (exampleRegistration ''b'' (Some ''c'')) orphanedGraph) =
     Inr (newNode (exampleRegistration ''b'' (Some ''c''))) \<and>
   getChainSync cyclicGraph ''c'' = Inl (ParentCycle ''c'')"
proof
  show "getChainSync cyclicGraph ''c'' = Inl (ParentCycle ''c'')" by code_simp
qed code_simp

end
