(* ===== verification/Status_List.thy ===== *)
theory Status_List
  imports Status_Bits Credential
begin

text \<open>
  \<open>src/delegation/statuslist-manager.ts\<close>, \<open>src/delegation/storage/memory-statuslist-storage.ts\<close>
  and \<open>src/utils/statuslist-purpose.ts\<close>. The manager runs over a storage provider, a record of
  operations on a store; the memory provider is the model's own. Canonical JSON, the signing
  function, the GZIP codec and the clock are parameters. The per-list mutex makes each
  operation on a list one step, so an operation here is a function of the store.
\<close>

subsection \<open>Decimal texts\<close>

definition digitChar :: "nat \<Rightarrow> char" where
  "digitChar k = char_of (48 + k)"

fun decimalText :: "nat \<Rightarrow> string" where
  "decimalText n = (if n < 10 then [digitChar n] else decimalText (n div 10) @ [digitChar (n mod 10)])"

declare decimalText.simps [simp del]

lemma digitChar_cases: "k < 10 \<Longrightarrow> isDigit (digitChar k) \<and> digitValue (digitChar k) = k"
proof -
  assume "k < 10"
  then have "k \<in> {0, 1, 2, 3, 4, 5, 6, 7, 8, 9}" by auto
  then show ?thesis by (auto simp: isDigit_def digitValue_def digitChar_def char_of_def of_char_def bit_0)
qed

lemma decimalText_digits: "decimalText n \<noteq> [] \<and> list_all isDigit (decimalText n)"
proof (induction n rule: decimalText.induct)
  case (1 n)
  then show ?case
    by (cases "n < 10") (auto simp: decimalText.simps [of n] digitChar_cases)
qed

lemma decimalValue_text: "decimalValue (decimalText n) = n"
proof (induction n rule: decimalText.induct)
  case (1 n)
  then show ?case
    by (cases "n < 10") (auto simp: decimalText.simps [of n] decimalValue_def digitChar_cases)
qed

lemma parse_decimalText: "n \<le> MAX_SAFE_INTEGER \<Longrightarrow> parseStatusListIndex (decimalText n) = Inr n"
  using decimalText_digits [of n]
  by (auto simp: parseStatusListIndex_def Let_def decimalValue_text list_all_iff)

lemma decimalText_inject [simp]: "decimalText m = decimalText n \<longleftrightarrow> m = n"
  by (metis decimalValue_text)

subsection \<open>Status list credentials and their storage\<close>

record statusListVC =
  sl_id :: string
  sl_issuer :: string
  sl_issuanceDate :: string
  sl_subjectId :: string
  sl_statusPurpose :: "string option"
  sl_encodedList :: string
  sl_proof :: "string option"

text \<open>\<open>StatusListStorageProvider\<close>: the calls a manager makes of its store.\<close>

record 's statusListStorage =
  getStatusList :: "string \<Rightarrow> (statusError, 's, statusListVC option) act"
  setStatusList :: "string \<Rightarrow> statusListVC \<Rightarrow> (statusError, 's, unit) act"
  allocateIndex :: "string \<Rightarrow> (statusError, 's, nat) act"

record memoryStatusLists =
  ms_statusLists :: "(string, statusListVC) jsmap"
  ms_versions :: "(string, statusListVC list) jsmap"
  ms_indexCounters :: "(string, nat) jsmap"

definition newMemoryStatusLists :: memoryStatusLists where
  "newMemoryStatusLists = \<lparr>ms_statusLists = [], ms_versions = [], ms_indexCounters = []\<rparr>"

definition memGetStatusList :: "string \<Rightarrow> (statusError, memoryStatusLists, statusListVC option) act" where
  "memGetStatusList i = (\<lambda>s. (Inr (jm_get (ms_statusLists s) i), s))"

definition memSetStatusList :: "string \<Rightarrow> statusListVC \<Rightarrow> (statusError, memoryStatusLists, unit) act" where
  "memSetStatusList i vc = (\<lambda>s.
     (let history = (case jm_get (ms_versions s) i of None \<Rightarrow> [] | Some h \<Rightarrow> h)
      in (Inr (), s\<lparr>ms_statusLists := jm_set i vc (ms_statusLists s),
           ms_versions := jm_set i (history @ [vc]) (ms_versions s)\<rparr>)))"

definition getIndexCount :: "memoryStatusLists \<Rightarrow> string \<Rightarrow> nat" where
  "getIndexCount s i = (case jm_get (ms_indexCounters s) i of None \<Rightarrow> 0 | Some n \<Rightarrow> n)"

definition memAllocateIndex :: "string \<Rightarrow> (statusError, memoryStatusLists, nat) act" where
  "memAllocateIndex i = (\<lambda>s.
     (let current = getIndexCount s i
      in (Inr current, s\<lparr>ms_indexCounters := jm_set i (current + 1) (ms_indexCounters s)\<rparr>)))"

definition getStatusListVersionCount :: "memoryStatusLists \<Rightarrow> string \<Rightarrow> nat" where
  "getStatusListVersionCount s i = (case jm_get (ms_versions s) i of None \<Rightarrow> 0 | Some h \<Rightarrow> length h)"

definition getStatusListVersion :: "memoryStatusLists \<Rightarrow> string \<Rightarrow> js_number \<Rightarrow> statusListVC option" where
  "getStatusListVersion s i version = (case version of
       JsNonInteger \<Rightarrow> None
     | JsInteger v \<Rightarrow>
         (if v < 1 \<or> int MAX_SAFE_INTEGER < v then None
          else (case jm_get (ms_versions s) i of
              None \<Rightarrow> None
            | Some h \<Rightarrow> if nat v - 1 < length h then Some (h ! (nat v - 1)) else None)))"

definition getAllStatusListIds :: "memoryStatusLists \<Rightarrow> string list" where
  "getAllStatusListIds s = jm_keys (ms_statusLists s)"

definition memoryStorage :: "memoryStatusLists statusListStorage" where
  "memoryStorage = \<lparr>getStatusList = memGetStatusList, setStatusList = memSetStatusList,
     allocateIndex = memAllocateIndex\<rparr>"

subsection \<open>Purpose parity\<close>

definition assertStatusPurpose :: "string option \<Rightarrow> string \<Rightarrow> statusError + unit" where
  "assertStatusPurpose listPurpose wanted = (case listPurpose of
       None \<Rightarrow> Inl (StatusPurposeMissing wanted)
     | Some p \<Rightarrow> if p \<noteq> wanted then Inl (StatusPurposeMismatch p wanted) else Inr ())"

subsection \<open>The manager\<close>

record 's statusListManager =
  sm_storage :: "'s statusListStorage"
  sm_did :: string
  sm_keyId :: string
  sm_canonicalize :: "statusListVC \<Rightarrow> string"
  sm_sign :: "string \<Rightarrow> string \<Rightarrow> string \<Rightarrow> string + string"
  sm_compress :: codec
  sm_decompress :: codec
  sm_now :: string
  sm_baseUrl :: string
  sm_defaultListSize :: nat

definition newStatusListManager ::
  "'s statusListStorage \<Rightarrow> string \<Rightarrow> string \<Rightarrow> (statusListVC \<Rightarrow> string)
    \<Rightarrow> (string \<Rightarrow> string \<Rightarrow> string \<Rightarrow> string + string) \<Rightarrow> codec \<Rightarrow> codec \<Rightarrow> string
    \<Rightarrow> string option \<Rightarrow> nat option \<Rightarrow> 's statusListManager" where
  "newStatusListManager st did kid canon sign compress decompress now url n =
     \<lparr>sm_storage = st, sm_did = did, sm_keyId = kid, sm_canonicalize = canon, sm_sign = sign,
      sm_compress = compress, sm_decompress = decompress, sm_now = now,
      sm_baseUrl = (if truthy url then the url else ''https://status.example.com''),
      sm_defaultListSize = (case n of None \<Rightarrow> 131072 | Some k \<Rightarrow> if k = 0 then 131072 else k)\<rparr>"

definition signList :: "'s statusListManager \<Rightarrow> statusListVC \<Rightarrow> statusError + statusListVC" where
  "signList m vc =
     (case sm_sign m (sm_canonicalize m (vc\<lparr>sl_proof := None\<rparr>)) (sm_did m) (sm_keyId m) of
        Inl e \<Rightarrow> Inl (SigningFailure e)
      | Inr proof \<Rightarrow> Inr (vc\<lparr>sl_proof := Some proof\<rparr>))"

text \<open>The decoded list with one bit set, or the error of the first step that throws.\<close>

definition withBit :: "'s statusListManager \<Rightarrow> statusListVC \<Rightarrow> string \<Rightarrow> bool \<Rightarrow> statusError + statusListVC" where
  "withBit m vc rawIndex revoked = (case decodeBitstring (sm_decompress m) (sl_encodedList vc) of
       Inl e \<Rightarrow> Inl e
     | Inr bm \<Rightarrow> (case parseStatusListIndex rawIndex of
         Inl e \<Rightarrow> Inl e
       | Inr index \<Rightarrow> (case setBit bm (JsInteger (int index)) revoked of
           Inl e \<Rightarrow> Inl e
         | Inr bm' \<Rightarrow> (case encodeBitstring (sm_compress m) bm' of
             Inl e \<Rightarrow> Inl e
           | Inr encoded \<Rightarrow> signList m (vc\<lparr>sl_encodedList := encoded\<rparr>)))))"

definition updateStatus :: "'s statusListManager \<Rightarrow> credentialStatus \<Rightarrow> bool \<Rightarrow> (statusError, 's, unit) act" where
  "updateStatus m cs revoked =
     act_bind (getStatusList (sm_storage m) (cs_statusListCredential cs)) (\<lambda>found. case found of
         None \<Rightarrow> act_throw (StatusListNotFound (cs_statusListCredential cs))
       | Some vc \<Rightarrow> act_bind (act_lift (withBit m vc (cs_statusListIndex cs) revoked))
           (\<lambda>signed. setStatusList (sm_storage m) (cs_statusListCredential cs) signed))"

definition readBit :: "'s statusListManager \<Rightarrow> statusListVC \<Rightarrow> string \<Rightarrow> statusError + bool" where
  "readBit m vc rawIndex = (case decodeBitstring (sm_decompress m) (sl_encodedList vc) of
       Inl e \<Rightarrow> Inl e
     | Inr bm \<Rightarrow> (case parseStatusListIndex rawIndex of
         Inl e \<Rightarrow> Inl e
       | Inr index \<Rightarrow> getBit bm (JsInteger (int index))))"

definition checkStatus :: "'s statusListManager \<Rightarrow> credentialStatus \<Rightarrow> (statusError, 's, bool) act" where
  "checkStatus m cs =
     act_bind (getStatusList (sm_storage m) (cs_statusListCredential cs)) (\<lambda>found. case found of
         None \<Rightarrow> act_throw (StatusListNotFound (cs_statusListCredential cs))
       | Some vc \<Rightarrow> act_bind (act_lift (assertStatusPurpose (sl_statusPurpose vc) (cs_statusPurpose cs)))
           (\<lambda>_. act_lift (readBit m vc (cs_statusListIndex cs))))"

definition getRevokedIndices :: "'s statusListManager \<Rightarrow> string \<Rightarrow> (statusError, 's, nat list) act" where
  "getRevokedIndices m i =
     act_bind (getStatusList (sm_storage m) i) (\<lambda>found. case found of
         None \<Rightarrow> act_return []
       | Some vc \<Rightarrow> act_lift (case decodeBitstring (sm_decompress m) (sl_encodedList vc) of
             Inl e \<Rightarrow> Inl e | Inr bm \<Rightarrow> Inr (getSetBits bm)))"

definition freshList :: "'s statusListManager \<Rightarrow> string \<Rightarrow> string \<Rightarrow> statusError + statusListVC" where
  "freshList m i purpose = (case encodeBitstring (sm_compress m) (newBitstring (sm_defaultListSize m)) of
       Inl e \<Rightarrow> Inl e
     | Inr encoded \<Rightarrow> signList m \<lparr>sl_id = i, sl_issuer = sm_did m, sl_issuanceDate = sm_now m,
         sl_subjectId = i @ ''#list'', sl_statusPurpose = Some purpose, sl_encodedList = encoded,
         sl_proof = None\<rparr>)"

definition createStatusListIfMissing ::
  "'s statusListManager \<Rightarrow> string \<Rightarrow> string \<Rightarrow> (statusError, 's, nat) act" where
  "createStatusListIfMissing m i purpose =
     act_bind (getStatusList (sm_storage m) i) (\<lambda>found. case found of
         Some vc \<Rightarrow> act_lift (case decodeBitstring (sm_decompress m) (sl_encodedList vc) of
             Inl e \<Rightarrow> Inl e | Inr bm \<Rightarrow> Inr (bm_size bm))
       | None \<Rightarrow> act_bind (act_lift (freshList m i purpose)) (\<lambda>signed.
           act_bind (setStatusList (sm_storage m) i signed) (\<lambda>_.
             act_return (length (bm_bits (newBitstring (sm_defaultListSize m))) * 8))))"

definition statusListIdOf :: "'s statusListManager \<Rightarrow> string \<Rightarrow> string" where
  "statusListIdOf m purpose = sm_baseUrl m @ ''/'' @ purpose @ ''/v1''"

definition statusEntry :: "string \<Rightarrow> string \<Rightarrow> nat \<Rightarrow> credentialStatus" where
  "statusEntry i purpose index = \<lparr>cs_id = Some (i @ ''#'' @ decimalText index), cs_type = ''StatusList2021Entry'',
     cs_statusPurpose = purpose, cs_statusListIndex = decimalText index, cs_statusListCredential = i\<rparr>"

definition allocateStatusEntry :: "'s statusListManager \<Rightarrow> string \<Rightarrow> (statusError, 's, credentialStatus) act" where
  "allocateStatusEntry m purpose = (let i = statusListIdOf m purpose in
     act_bind (allocateIndex (sm_storage m) i) (\<lambda>index.
       act_bind (createStatusListIfMissing m i purpose) (\<lambda>capacity.
         if capacity \<le> index then act_throw (StatusListFull i index capacity)
         else act_return (statusEntry i purpose index))))"

subsection \<open>The interface of a status list store\<close>

text \<open>
  What the manager relies on: a lookup returns the list last stored under the id, an
  allocation returns the id's counter and advances it, and neither disturbs other lists.
\<close>

locale status_list_storage =
  fixes P :: "'s statusListStorage"
    and lists :: "'s \<Rightarrow> string \<Rightarrow> statusListVC option"
    and count :: "'s \<Rightarrow> string \<Rightarrow> nat"
  assumes get_law: "getStatusList P i s = (Inr (lists s i), s)"
    and set_law: "\<exists>s'. setStatusList P i vc s = (Inr (), s') \<and> lists s' = (lists s)(i \<mapsto> vc) \<and> count s' = count s"
    and alloc_law: "\<exists>s'. allocateIndex P i s = (Inr (count s i), s') \<and> lists s' = lists s \<and>
          count s' = (count s)(i := Suc (count s i))"
begin

lemma update_ok:
  assumes "sm_storage m = P" and "updateStatus m cs v s = (Inr (), s')"
  obtains vc vc' where "lists s (cs_statusListCredential cs) = Some vc"
    and "withBit m vc (cs_statusListIndex cs) v = Inr vc'"
    and "lists s' = (lists s)(cs_statusListCredential cs \<mapsto> vc')" and "count s' = count s"
proof -
  obtain vc where vc: "lists s (cs_statusListCredential cs) = Some vc"
    using assms by (cases "lists s (cs_statusListCredential cs)")
      (auto simp: updateStatus_def act_bind_def get_law)
  moreover obtain vc' where vc': "withBit m vc (cs_statusListIndex cs) v = Inr vc'"
    using assms vc by (cases "withBit m vc (cs_statusListIndex cs) v")
      (auto simp: updateStatus_def act_bind_def get_law)
  moreover from assms vc vc' have "setStatusList P (cs_statusListCredential cs) vc' s = (Inr (), s')"
    by (auto simp: updateStatus_def act_bind_def get_law)
  ultimately show thesis
    using set_law [of "cs_statusListCredential cs" vc' s] that by auto
qed

lemma update_failed:
  assumes "sm_storage m = P" and "updateStatus m cs v s = (Inl e, s')"
  shows "s' = s"
  using assms set_law
  by (auto simp: updateStatus_def act_bind_def get_law split: option.splits sum.splits prod.splits)
    (metis Inl_Inr_False prod.inject)+

lemma check_eq:
  assumes "sm_storage m = P"
  shows "checkStatus m cs s =
    ((case lists s (cs_statusListCredential cs) of
        None \<Rightarrow> Inl (StatusListNotFound (cs_statusListCredential cs))
      | Some vc \<Rightarrow> (case assertStatusPurpose (sl_statusPurpose vc) (cs_statusPurpose cs) of
            Inl e \<Rightarrow> Inl e
          | Inr _ \<Rightarrow> readBit m vc (cs_statusListIndex cs))), s)"
  using assms by (auto simp: checkStatus_def act_bind_def get_law split: option.splits sum.splits)

lemma create_ok:
  assumes "sm_storage m = P" and "createStatusListIfMissing m i purpose s = (r, s')"
  shows "count s' = count s" and "lists s i \<noteq> None \<Longrightarrow> lists s' = lists s"
    and "j \<noteq> i \<Longrightarrow> lists s' j = lists s j"
proof -
  have "count s' = count s \<and> (lists s i \<noteq> None \<longrightarrow> lists s' = lists s) \<and> (j \<noteq> i \<longrightarrow> lists s' j = lists s j)"
  proof (cases "lists s i = None \<and> (\<exists>vc. freshList m i purpose = Inr vc)")
    case False
    with assms have "s' = s"
      by (auto simp: createStatusListIfMissing_def act_bind_def get_law split: option.splits sum.splits)
    then show ?thesis by simp
  next
    case True
    then obtain vc where vc: "freshList m i purpose = Inr vc" by blast
    obtain t where "setStatusList P i vc s = (Inr (), t)" "lists t = (lists s)(i \<mapsto> vc)" "count t = count s"
      using set_law by blast
    with assms vc True show ?thesis
      by (auto simp: createStatusListIfMissing_def act_bind_def get_law)
  qed
  then show "count s' = count s" "lists s i \<noteq> None \<Longrightarrow> lists s' = lists s" "j \<noteq> i \<Longrightarrow> lists s' j = lists s j"
    by auto
qed

lemma allocate_ok:
  assumes "sm_storage m = P" and "allocateStatusEntry m purpose s = (r, s')"
  shows "count s' = (count s)(statusListIdOf m purpose := Suc (count s (statusListIdOf m purpose)))"
    and "r = Inr cs \<Longrightarrow> cs = statusEntry (statusListIdOf m purpose) purpose (count s (statusListIdOf m purpose))"
    and "lists s i \<noteq> None \<Longrightarrow> lists s' i = lists s i"
proof -
  let ?i = "statusListIdOf m purpose"
  obtain s1 where s1: "allocateIndex P ?i s = (Inr (count s ?i), s1)" "lists s1 = lists s"
      "count s1 = (count s)(?i := Suc (count s ?i))"
    using alloc_law by blast
  obtain r2 s2 where s2: "createStatusListIfMissing m ?i purpose s1 = (r2, s2)" by force
  from assms s1 s2 have s': "s' = s2"
    by (auto simp: allocateStatusEntry_def Let_def act_bind_def split: sum.splits if_splits)
  note c = create_ok [OF assms(1) s2]
  show "count s' = (count s)(?i := Suc (count s ?i))" using c(1) s1(3) s' by simp
  show "r = Inr cs \<Longrightarrow> cs = statusEntry ?i purpose (count s ?i)"
    using assms s1 s2 by (auto simp: allocateStatusEntry_def Let_def act_bind_def split: sum.splits if_splits)
  show "lists s i \<noteq> None \<Longrightarrow> lists s' i = lists s i"
    using c(2,3) s1(2) s' by (cases "i = ?i") auto
qed

end

interpretation memlist: status_list_storage memoryStorage "\<lambda>s i. jm_get (ms_statusLists s) i" getIndexCount
  by unfold_locales
    (auto simp: memoryStorage_def memGetStatusList_def memSetStatusList_def memAllocateIndex_def
      getIndexCount_def Let_def update_conv' fun_eq_iff)

subsection \<open>One entry at a time\<close>

definition gzipCodec :: "codec \<Rightarrow> codec \<Rightarrow> bool" where
  "gzipCodec compress decompress \<longleftrightarrow> (\<forall>b. gzipRoundTrip compress decompress b)"

lemma decodeBitstring_ok:
  "decodeBitstring decompress text = Inr bm \<Longrightarrow>
     bitstringWf bm \<and> bm_size bm = length (bm_bits bm) * 8 \<and> length (bm_bits bm) \<le> MAX_STATUS_LIST_BYTES"
  by (auto simp: decodeBitstring_def decodeStatusListPayload_def Let_def bitstringWf_def
      split: sum.splits option.splits if_splits)

lemma signList_fields:
  "signList m vc = Inr vc' \<Longrightarrow> sl_statusPurpose vc' = sl_statusPurpose vc \<and> sl_encodedList vc' = sl_encodedList vc"
  by (auto simp: signList_def split: sum.splits)

lemma withBit_ok:
  assumes "withBit m vc raw v = Inr vc'"
  obtains bm index bm' where "decodeBitstring (sm_decompress m) (sl_encodedList vc) = Inr bm"
    and "parseStatusListIndex raw = Inr index" and "setBit bm (JsInteger (int index)) v = Inr bm'"
    and "encodeBitstring (sm_compress m) bm' = Inr (sl_encodedList vc')"
    and "sl_statusPurpose vc' = sl_statusPurpose vc"
  using assms signList_fields
  by (fastforce simp: withBit_def split: sum.splits)

lemma decode_withBit:
  assumes "withBit m vc raw v = Inr vc'" and "gzipCodec (sm_compress m) (sm_decompress m)"
  obtains bm index bm' where "decodeBitstring (sm_decompress m) (sl_encodedList vc) = Inr bm"
    and "parseStatusListIndex raw = Inr index" and "setBit bm (JsInteger (int index)) v = Inr bm'"
    and "decodeBitstring (sm_decompress m) (sl_encodedList vc') = Inr bm'"
    and "bitstringWf bm" and "bm_size bm' = bm_size bm"
proof -
  from assms(1) obtain bm index bm' where w:
      "decodeBitstring (sm_decompress m) (sl_encodedList vc) = Inr bm"
      "parseStatusListIndex raw = Inr index" "setBit bm (JsInteger (int index)) v = Inr bm'"
      "encodeBitstring (sm_compress m) bm' = Inr (sl_encodedList vc')"
    by (rule withBit_ok)
  note ok = decodeBitstring_ok [OF w(1)]
  have rt: "gzipRoundTrip (sm_compress m) (sm_decompress m) (bm_bits bm')"
    using assms(2) by (simp add: gzipCodec_def)
  have "length (bm_bits bm') \<le> MAX_STATUS_LIST_BYTES" using ok setBit_length [OF w(3)] by simp
  from isIndexSet_encode(2) [OF rt this w(4)]
  have "decodeBitstring (sm_decompress m) (sl_encodedList vc') = Inr bm'"
    using ok setBit_length [OF w(3)] setBit_size [OF w(3)] by simp
  with w ok setBit_size [OF w(3)] show thesis using that by blast
qed

lemma getBit_setBit:
  assumes "bitstringWf bm" and "setBit bm (JsInteger (int k)) v = Inr bm'"
  shows "getBit bm' (JsInteger (int j)) = (if j = k then Inr v else getBit bm (JsInteger (int j)))"
  using setBit_total [of bm "int k" v] assms
  by (auto simp: getBit_eq bitAt_setBit [OF assms] setBit_size [OF assms(2)])

lemma readBit_withBit:
  assumes "withBit m vc raw v = Inr vc'" and "gzipCodec (sm_compress m) (sm_decompress m)"
  shows "readBit m vc' raw' =
    (if parseStatusListIndex raw' = parseStatusListIndex raw then Inr v else readBit m vc raw')"
  using assms
  by (rule decode_withBit) (auto simp: readBit_def getBit_setBit split: sum.splits)

lemma readable_withBit:
  assumes "withBit m vc raw v = Inr vc'" and "parseStatusListIndex raw' = parseStatusListIndex raw"
  shows "\<exists>b. readBit m vc raw' = Inr b"
  using assms(1)
proof (rule withBit_ok)
  fix bm k bm'
  assume "decodeBitstring (sm_decompress m) (sl_encodedList vc) = Inr bm"
    and "parseStatusListIndex raw = Inr k" and "setBit bm (JsInteger (int k)) v = Inr bm'"
  then show ?thesis using assms(2) setBit_total [of bm "int k" v] by (auto simp: readBit_def getBit_eq)
qed

text \<open>Two entries name the same bit: the same list and the same parsed index.\<close>

definition sameEntry :: "credentialStatus \<Rightarrow> credentialStatus \<Rightarrow> bool" where
  "sameEntry a b \<longleftrightarrow> cs_statusListCredential a = cs_statusListCredential b \<and>
     parseStatusListIndex (cs_statusListIndex a) = parseStatusListIndex (cs_statusListIndex b)"

text \<open>updating a status flips exactly the named entry. After a successful \<open>updateStatus\<close>
  every entry that could be read before is read as before, except those naming the updated
  bit, which read the new value; every entry whose check failed still fails with its error.\<close>

theorem updateStatus_flips_exactly_its_entry:
  assumes "sm_storage m = memoryStorage" and "gzipCodec (sm_compress m) (sm_decompress m)"
    and "updateStatus m entry v s = (Inr (), s')"
  shows "checkStatus m other s' =
    ((if sameEntry other entry \<and> (\<exists>b. fst (checkStatus m other s) = Inr b) then Inr v
      else fst (checkStatus m other s)), s')"
proof -
  from assms(1,3) obtain vc vc' where vc: "jm_get (ms_statusLists s) (cs_statusListCredential entry) = Some vc"
      "withBit m vc (cs_statusListIndex entry) v = Inr vc'"
    and s': "jm_get (ms_statusLists s') = (jm_get (ms_statusLists s))(cs_statusListCredential entry \<mapsto> vc')"
    by (rule memlist.update_ok)
  from vc(2) have purpose: "sl_statusPurpose vc' = sl_statusPurpose vc"
    by (rule withBit_ok)
  show ?thesis
    using readBit_withBit [OF vc(2) assms(2), of "cs_statusListIndex other"] purpose vc(1)
      readable_withBit [OF vc(2), of "cs_statusListIndex other"]
    by (auto simp: memlist.check_eq [OF assms(1)] s' sameEntry_def split: sum.splits option.splits)
qed

definition exampleManager :: "memoryStatusLists statusListManager" where
  "exampleManager = newStatusListManager memoryStorage ''did:key:zIssuer'' ''did:key:zIssuer#1'' sl_encodedList
     (\<lambda>doc did kid. Inr (kid @ ''/'' @ doc)) storedGzip storedGunzip ''2025-01-01'' (Some ''https://s'') (Some 16)"

definition exampleStore :: memoryStatusLists where
  "exampleStore = snd (allocateStatusEntry exampleManager ''revocation'' newMemoryStatusLists)"

lemma storedGzip_codec: "gzipCodec storedGzip storedGunzip"
  by (simp add: gzipCodec_def storedGzip_roundTrip)

lemma exampleManager_simps [simp]:
  "sm_storage exampleManager = memoryStorage" "sm_compress exampleManager = storedGzip"
  "sm_decompress exampleManager = storedGunzip" "sm_defaultListSize exampleManager = 16"
  "sm_did exampleManager = ''did:key:zIssuer''" "sm_keyId exampleManager = ''did:key:zIssuer#1''"
  by (simp_all add: exampleManager_def newStatusListManager_def)

subsection \<open>Allocated entries are readable\<close>

lemma freshList_decode:
  assumes "freshList m i p = Inr vc" and "gzipCodec (sm_compress m) (sm_decompress m)"
    and "(sm_defaultListSize m + 7) div 8 \<le> MAX_STATUS_LIST_BYTES"
  shows "sl_statusPurpose vc = Some p"
    and "decodeBitstring (sm_decompress m) (sl_encodedList vc) =
      Inr \<lparr>bm_bits = bm_bits (newBitstring (sm_defaultListSize m)),
           bm_size = length (bm_bits (newBitstring (sm_defaultListSize m))) * 8\<rparr>"
proof -
  from assms(1) obtain enc where e: "encodeBitstring (sm_compress m) (newBitstring (sm_defaultListSize m)) = Inr enc"
    and vc: "sl_encodedList vc = enc" "sl_statusPurpose vc = Some p"
    using signList_fields by (fastforce simp: freshList_def split: sum.splits)
  show "sl_statusPurpose vc = Some p" by (rule vc)
  show "decodeBitstring (sm_decompress m) (sl_encodedList vc) =
      Inr \<lparr>bm_bits = bm_bits (newBitstring (sm_defaultListSize m)),
           bm_size = length (bm_bits (newBitstring (sm_defaultListSize m))) * 8\<rparr>"
    unfolding vc(1) by (rule isIndexSet_encode(2) [OF _ _ e]) (use assms in \<open>simp_all add: gzipCodec_def newBitstring_def\<close>)
qed

context status_list_storage
begin

text \<open>A successful creation reports the size a reader of the stored list decodes.\<close>

lemma create_capacity:
  assumes "sm_storage m = P" and "createStatusListIfMissing m i p s = (Inr capacity, s')"
    and "gzipCodec (sm_compress m) (sm_decompress m)"
    and "(sm_defaultListSize m + 7) div 8 \<le> MAX_STATUS_LIST_BYTES"
  obtains vc bm where "lists s' i = Some vc" and "decodeBitstring (sm_decompress m) (sl_encodedList vc) = Inr bm"
    and "bm_size bm = capacity"
    and "lists s i = None \<longrightarrow> sl_statusPurpose vc = Some p \<and> bm_bits bm = bm_bits (newBitstring (sm_defaultListSize m))"
    and "lists s i \<noteq> None \<longrightarrow> lists s i = Some vc"
proof (cases "lists s i")
  case (Some vc)
  with assms(1,2) have "s' = s" and "\<exists>bm. decodeBitstring (sm_decompress m) (sl_encodedList vc) = Inr bm \<and> bm_size bm = capacity"
    by (auto simp: createStatusListIfMissing_def act_bind_def get_law split: sum.splits)
  with Some that show ?thesis by auto
next
  case None
  from assms(1,2) None obtain vc where vc: "freshList m i p = Inr vc"
    by (auto simp: createStatusListIfMissing_def act_bind_def get_law split: sum.splits)
  obtain t where t: "setStatusList P i vc s = (Inr (), t)" "lists t = (lists s)(i \<mapsto> vc)"
    using set_law by blast
  with assms(1,2) None vc have "s' = t" "capacity = length (bm_bits (newBitstring (sm_defaultListSize m))) * 8"
    by (auto simp: createStatusListIfMissing_def act_bind_def get_law)
  with t freshList_decode [OF vc assms(3,4)] None that show ?thesis by auto
qed

lemma allocate_readable:
  assumes "sm_storage m = P" and "allocateStatusEntry m purpose s = (Inr cs, s')"
    and "gzipCodec (sm_compress m) (sm_decompress m)"
    and "(sm_defaultListSize m + 7) div 8 \<le> MAX_STATUS_LIST_BYTES"
    and "count s (statusListIdOf m purpose) \<le> MAX_SAFE_INTEGER"
    and "pred_option (\<lambda>vc. sl_statusPurpose vc = Some purpose) (lists s (statusListIdOf m purpose))"
  shows "\<exists>b. checkStatus m cs s' = (Inr b, s') \<and> (lists s (statusListIdOf m purpose) = None \<longrightarrow> \<not> b)"
proof -
  let ?i = "statusListIdOf m purpose"
  let ?k = "count s ?i"
  obtain s1 where s1: "allocateIndex P ?i s = (Inr ?k, s1)" "lists s1 = lists s"
    using alloc_law by blast
  obtain capacity where cap: "createStatusListIfMissing m ?i purpose s1 = (Inr capacity, s')" "?k < capacity"
    and cs: "cs = statusEntry ?i purpose ?k"
    using assms(1,2) s1
    by (auto simp: allocateStatusEntry_def Let_def act_bind_def split: sum.splits prod.splits if_splits)
  from assms(1) cap(1) assms(3,4) obtain vc bm where vc: "lists s' ?i = Some vc"
      "decodeBitstring (sm_decompress m) (sl_encodedList vc) = Inr bm" "bm_size bm = capacity"
      "lists s1 ?i = None \<longrightarrow> sl_statusPurpose vc = Some purpose \<and> bm_bits bm = bm_bits (newBitstring (sm_defaultListSize m))"
      "lists s1 ?i \<noteq> None \<longrightarrow> lists s1 ?i = Some vc"
    by (rule create_capacity)
  have purpose: "sl_statusPurpose vc = Some purpose"
    using vc(4,5) assms(6) s1(2) by (cases "lists s ?i") auto
  have "bitAt bm ?k = bitAt (newBitstring (sm_defaultListSize m)) ?k" if "lists s ?i = None"
    using that vc(4) s1(2) by (simp add: bitAt_def)
  then show ?thesis
    using vc(1,2,3) cap(2) purpose
    by (auto simp: check_eq [OF assms(1)] cs statusEntry_def assertStatusPurpose_def readBit_def
        parse_decimalText [OF assms(5)] getBit_eq)
qed

end

text \<open>a minted status entry works. When \<open>allocateStatusEntry\<close> succeeds, the entry it returns
  is inside its list and can be checked, and the first entry of a new list reads as not set.\<close>

theorem allocated_entry_is_readable:
  assumes "sm_storage m = memoryStorage" and "allocateStatusEntry m purpose s = (Inr cs, s')"
    and "gzipCodec (sm_compress m) (sm_decompress m)"
    and "(sm_defaultListSize m + 7) div 8 \<le> MAX_STATUS_LIST_BYTES"
    and "getIndexCount s (statusListIdOf m purpose) \<le> MAX_SAFE_INTEGER"
    and "pred_option (\<lambda>vc. sl_statusPurpose vc = Some purpose) (jm_get (ms_statusLists s) (statusListIdOf m purpose))"
  shows "\<exists>b. checkStatus m cs s' = (Inr b, s') \<and>
    (jm_get (ms_statusLists s) (statusListIdOf m purpose) = None \<longrightarrow> \<not> b)"
  by (rule memlist.allocate_readable [OF assms])

definition exampleEntry :: credentialStatus where
  "exampleEntry = statusEntry (statusListIdOf exampleManager ''revocation'') ''revocation'' 0"

lemma exampleSign: "\<exists>vc'. signList exampleManager vc = Inr vc'"
  by (simp add: signList_def exampleManager_def newStatusListManager_def)

lemma storedGzip_encode: "\<exists>text. encodeBitstring storedGzip bm = Inr text"
  by (simp add: encodeBitstring_def encodeStatusListPayload_def storedGzip_def)

lemma exampleStore_allocated:
  "allocateStatusEntry exampleManager ''revocation'' newMemoryStatusLists = (Inr exampleEntry, exampleStore)"
proof -
  let ?i = "statusListIdOf exampleManager ''revocation''"
  obtain vc where vc: "freshList exampleManager ?i ''revocation'' = Inr vc"
    using storedGzip_encode [of "newBitstring 16"] exampleSign by (fastforce simp: freshList_def)
  have "fst (allocateStatusEntry exampleManager ''revocation'' newMemoryStatusLists) = Inr exampleEntry"
    by (simp add: allocateStatusEntry_def Let_def act_bind_def memoryStorage_def memAllocateIndex_def
        createStatusListIfMissing_def memGetStatusList_def memSetStatusList_def newMemoryStatusLists_def
        getIndexCount_def newBitstring_def vc exampleEntry_def)
  then show ?thesis by (simp add: exampleStore_def prod_eq_iff)
qed

theorem allocated_entry_is_readable_witness:
  "checkStatus exampleManager exampleEntry exampleStore = (Inr False, exampleStore)"
  using allocated_entry_is_readable [OF _ exampleStore_allocated]
  by (auto simp: storedGzip_codec getIndexCount_def newMemoryStatusLists_def MAX_STATUS_LIST_BYTES_def)

lemma exampleStore_entry: "fst (checkStatus exampleManager exampleEntry exampleStore) = Inr False"
  using memlist.allocate_readable [OF _ exampleStore_allocated]
  by (auto simp: storedGzip_codec getIndexCount_def newMemoryStatusLists_def MAX_STATUS_LIST_BYTES_def)

lemma exampleStore_update: "\<exists>s'. updateStatus exampleManager exampleEntry True exampleStore = (Inr (), s')"
proof -
  let ?i = "cs_statusListCredential exampleEntry"
  from exampleStore_entry obtain vc bm k where vc: "jm_get (ms_statusLists exampleStore) ?i = Some vc"
      "decodeBitstring storedGunzip (sl_encodedList vc) = Inr bm"
      "parseStatusListIndex (cs_statusListIndex exampleEntry) = Inr k" "getBit bm (JsInteger (int k)) = Inr False"
    by (auto simp: memlist.check_eq readBit_def split: option.splits sum.splits)
  then obtain bm' where "setBit bm (JsInteger (int k)) True = Inr bm'"
    using setBit_total [of bm "int k" True] by (auto simp: getBit_eq split: if_splits)
  with vc obtain vc' where "withBit exampleManager vc (cs_statusListIndex exampleEntry) True = Inr vc'"
    using storedGzip_encode [of bm'] exampleSign by (fastforce simp: withBit_def)
  with vc(1) show ?thesis
    by (simp add: updateStatus_def act_bind_def memoryStorage_def memGetStatusList_def memSetStatusList_def Let_def)
qed

theorem updateStatus_flips_exactly_its_entry_witness:
  "\<exists>s'. updateStatus exampleManager exampleEntry True exampleStore = (Inr (), s') \<and>
     checkStatus exampleManager exampleEntry s' = (Inr True, s')"
proof -
  obtain s' where s': "updateStatus exampleManager exampleEntry True exampleStore = (Inr (), s')"
    using exampleStore_update by blast
  have "checkStatus exampleManager exampleEntry s' =
      ((if sameEntry exampleEntry exampleEntry \<and> (\<exists>b. fst (checkStatus exampleManager exampleEntry exampleStore) = Inr b)
        then Inr True else fst (checkStatus exampleManager exampleEntry exampleStore)), s')"
    by (rule updateStatus_flips_exactly_its_entry [OF _ _ s']) (simp_all add: storedGzip_codec)
  with s' show ?thesis by (auto simp: exampleStore_entry sameEntry_def)
qed

subsection \<open>Allocation\<close>

datatype listOp = AllocateEntry string | UpdateEntry credentialStatus bool

text \<open>The entries a sequence of operations allocates, in order.\<close>

fun runLists :: "'s statusListManager \<Rightarrow> listOp list \<Rightarrow> 's \<Rightarrow> credentialStatus list \<times> 's" where
  "runLists m [] s = ([], s)"
| "runLists m (AllocateEntry purpose # ops) s = (case allocateStatusEntry m purpose s of
       (Inl _, s') \<Rightarrow> runLists m ops s'
     | (Inr cs, s') \<Rightarrow> (case runLists m ops s' of (css, t) \<Rightarrow> (cs # css, t)))"
| "runLists m (UpdateEntry cs v # ops) s = (case updateStatus m cs v s of (_, s') \<Rightarrow> runLists m ops s')"

context status_list_storage
begin

lemma update_count: "sm_storage m = P \<Longrightarrow> updateStatus m cs v s = (r, s') \<Longrightarrow> count s' = count s"
  using update_failed [of m cs v s _ s'] by (cases r) (auto, metis update_ok)

text \<open>Every entry a run allocates has an index at or past the counter the run starts from.\<close>

lemma run_entries:
  assumes "sm_storage m = P"
  shows "runLists m ops s = (css, t) \<Longrightarrow>
     (\<forall>cs\<in>set css. \<exists>p k. cs = statusEntry (statusListIdOf m p) p k \<and> count s (statusListIdOf m p) \<le> k) \<and>
     distinct (map (\<lambda>cs. (cs_statusListCredential cs, cs_statusListIndex cs)) css)"
proof (induction ops arbitrary: s css)
  case (Cons op ops)
  show ?case
  proof (cases op)
    case (UpdateEntry cs v)
    then show ?thesis using Cons update_count [OF assms] by (force split: prod.splits)
  next
    case (AllocateEntry p)
    obtain r s1 where r: "allocateStatusEntry m p s = (r, s1)" by force
    obtain css1 where css1: "runLists m ops s1 = (css1, t)"
      using Cons.prems AllocateEntry r by (auto split: sum.splits prod.splits)
    note count = allocate_ok(1) [OF assms r]
    note IH = Cons.IH [OF css1]
    let ?i = "statusListIdOf m p"
    have ge: "\<forall>cs\<in>set css1. \<exists>q k. cs = statusEntry (statusListIdOf m q) q k \<and> count s (statusListIdOf m q) \<le> k \<and>
        (statusListIdOf m q = ?i \<longrightarrow> count s ?i < k)"
      using IH by (fastforce simp: count split: if_splits)
    show ?thesis
    proof (cases r)
      case (Inl e)
      with Cons.prems AllocateEntry r css1 ge IH show ?thesis by fastforce
    next
      case (Inr c)
      with Cons.prems AllocateEntry r css1 have css: "css = c # css1" by simp
      have c: "c = statusEntry ?i p (count s ?i)" using allocate_ok(2) [OF assms r Inr] .
      then have "(cs_statusListCredential c, cs_statusListIndex c) \<notin>
          set (map (\<lambda>cs. (cs_statusListCredential cs, cs_statusListIndex cs)) css1)"
        using ge by (fastforce simp: statusEntry_def)
      with css c ge IH show ?thesis by (auto, blast)
    qed
  qed
qed simp

end

text \<open>C35: no two credentials share a status bit. In any run of allocations, status updates and
  failures on one store, the allocated entries have pairwise distinct list and index.\<close>

theorem allocated_entries_distinct:
  assumes "sm_storage m = memoryStorage"
  shows "distinct (map (\<lambda>cs. (cs_statusListCredential cs, cs_statusListIndex cs)) (fst (runLists m ops s)))"
  using memlist.run_entries [OF assms] by (metis prod.collapse)

theorem allocated_entries_distinct_witness:
  "distinct (map (\<lambda>cs. (cs_statusListCredential cs, cs_statusListIndex cs))
     (fst (runLists exampleManager [AllocateEntry ''revocation'', AllocateEntry ''suspension'', AllocateEntry ''revocation'']
       newMemoryStatusLists)))"
  by (rule allocated_entries_distinct) simp

end
