(* ===== verification/Revocation.thy ===== *)
theory Revocation
  imports Graph_Removal Status_List
begin

text \<open>
  \<open>src/delegation/cascading-revocation.ts\<close> and \<open>src/delegation/delegation-status-entry.ts\<close>: the
  revocation manager over a delegation graph and a status list manager. Its state is the pair
  of their stores. The clock is a parameter; the \<open>onRevoke\<close> hook is a parameter that may throw.
\<close>

subsection \<open>The status entry of a node\<close>

text \<open>\<open>^(.+)#(\d+)$\<close>: the split is at the last \<open>#\<close>, because no digit is one.\<close>

definition parseCredentialStatusId :: "string \<Rightarrow> statusError + credentialStatus option" where
  "parseCredentialStatusId raw =
     (let digits = rev (takeWhile isDigit (rev raw)); rest = rev (dropWhile isDigit (rev raw))
      in if digits = [] \<or> length rest < 2 \<or> last rest \<noteq> CHR ''#'' \<or> \<not> list_all (\<lambda>c. c \<notin> {CHR 0x0A, CHR 0x0D}) rest
         then Inr None
         else (case parseStatusListIndex digits of
             Inl e \<Rightarrow> Inl e
           | Inr index \<Rightarrow> Inr (Some \<lparr>cs_id = Some raw, cs_type = ''StatusList2021Entry'',
               cs_statusPurpose = ''revocation'', cs_statusListIndex = decimalText index,
               cs_statusListCredential = butlast rest\<rparr>)))"

definition nodeStatusEntry :: "delegationNode \<Rightarrow> statusError + credentialStatus option" where
  "nodeStatusEntry n = (case n_credentialStatus n of
       Some cs \<Rightarrow> Inr (Some cs)
     | None \<Rightarrow> if truthy (n_credentialStatusId n) then parseCredentialStatusId (the (n_credentialStatusId n))
         else Inr None)"

subsection \<open>The manager\<close>

record revocationEvent =
  e_delegationId :: string
  e_isRoot :: bool
  e_parentId :: "string option"
  e_timestamp :: int
  e_reason :: "string option"

record revocationOptions =
  o_reason :: "string option"
  o_onRevoke :: "(revocationEvent \<Rightarrow> graphError option) option"
  o_maxDepth :: "nat option"
  o_dryRun :: bool

record ('g, 'l) revocationManager =
  rm_graph :: "'g graphStorage"
  rm_statusList :: "'l statusListManager"
  rm_now :: int

text \<open>An operation of one of the two stores, run on the pair.\<close>

definition onGraph :: "(graphError, 'g, 'a) act \<Rightarrow> (graphError, 'g \<times> 'l, 'a) act" where
  "onGraph f = (\<lambda>(g, l). case f g of (r, g') \<Rightarrow> (r, (g', l)))"

definition onLists :: "(statusError, 'l, 'a) act \<Rightarrow> (graphError, 'g \<times> 'l, 'a) act" where
  "onLists f = (\<lambda>(g, l). case f l of
       (Inl e, l') \<Rightarrow> (Inl (StatusError e), (g, l')) | (Inr a, l') \<Rightarrow> (Inr a, (g, l')))"

definition statusEntryOf :: "delegationNode \<Rightarrow> (graphError, 's, credentialStatus option) act" where
  "statusEntryOf n = act_lift (case nodeStatusEntry n of Inl e \<Rightarrow> Inl (StatusError e) | Inr c \<Rightarrow> Inr c)"

definition revokeNode ::
  "('g, 'l) revocationManager \<Rightarrow> delegationNode \<Rightarrow> bool \<Rightarrow> string option \<Rightarrow> bool \<Rightarrow> string option
    \<Rightarrow> (graphError, 'g \<times> 'l, revocationEvent) act" where
  "revokeNode m n isRoot reason dryRun parent =
     (let event = \<lparr>e_delegationId = n_id n, e_isRoot = isRoot, e_parentId = parent, e_timestamp = rm_now m,
          e_reason = reason\<rparr>
      in if dryRun then act_return event
         else act_bind (onGraph (setRevoked (rm_graph m) (n_id n) True)) (\<lambda>marked.
           act_bind (statusEntryOf n) (\<lambda>entry. case entry of
               None \<Rightarrow> if \<not> marked then act_throw (RevocationNotRecorded (n_id n)) else act_return event
             | Some cs \<Rightarrow> act_bind (onLists (updateStatus (rm_statusList m) cs True)) (\<lambda>_. act_return event))))"

definition notify :: "revocationOptions \<Rightarrow> revocationEvent \<Rightarrow> (graphError, 's, unit) act" where
  "notify opts event = (case o_onRevoke opts of
       None \<Rightarrow> act_return ()
     | Some hook \<Rightarrow> (case hook event of None \<Rightarrow> act_return () | Some e \<Rightarrow> act_throw e))"

fun revokeAll ::
  "('g, 'l) revocationManager \<Rightarrow> revocationOptions \<Rightarrow> string \<Rightarrow> delegationNode list
    \<Rightarrow> (graphError, 'g \<times> 'l, revocationEvent list) act" where
  "revokeAll m opts i [] = act_return []"
| "revokeAll m opts i (d # ds) =
     act_bind (revokeNode m d False (Some (''Cascaded from '' @ i)) (o_dryRun opts) (Some i)) (\<lambda>event.
       act_bind (notify opts event) (\<lambda>_.
         act_bind (revokeAll m opts i ds) (\<lambda>events. act_return (event # events))))"

definition maxDepthOf :: "revocationOptions \<Rightarrow> nat" where
  "maxDepthOf opts = (case o_maxDepth opts of None \<Rightarrow> 100 | Some k \<Rightarrow> if k = 0 then 100 else k)"

definition revokeDelegation ::
  "('g, 'l) revocationManager \<Rightarrow> string \<Rightarrow> revocationOptions \<Rightarrow> (graphError, 'g \<times> 'l, revocationEvent list) act" where
  "revokeDelegation m i opts =
     act_bind (onGraph (getNode (rm_graph m) i)) (\<lambda>target. case target of
         None \<Rightarrow> act_throw (DelegationNotFound i)
       | Some n \<Rightarrow> act_bind (onGraph (getDepth (rm_graph m) i)) (\<lambda>depth.
           if int (maxDepthOf opts) < depth then act_throw (DepthExceeded (nat depth) (maxDepthOf opts))
           else act_bind (revokeNode m n True (o_reason opts) (o_dryRun opts) None) (\<lambda>rootEvent.
             act_bind (notify opts rootEvent) (\<lambda>_.
               act_bind (onGraph (getDescendants (rm_graph m) i)) (\<lambda>ds.
                 act_bind (revokeAll m opts i ds) (\<lambda>events. act_return (rootEvent # events)))))))"

definition restoreDelegation ::
  "('g, 'l) revocationManager \<Rightarrow> string \<Rightarrow> (graphError, 'g \<times> 'l, revocationEvent) act" where
  "restoreDelegation m i =
     act_bind (onGraph (getNode (rm_graph m) i)) (\<lambda>found. case found of
         None \<Rightarrow> act_throw (DelegationNotFound i)
       | Some n \<Rightarrow> act_bind (statusEntryOf n) (\<lambda>entry.
           act_bind (case entry of
               None \<Rightarrow> act_return ()
             | Some cs \<Rightarrow> onLists (updateStatus (rm_statusList m) cs False)) (\<lambda>_.
             act_bind (onGraph (setRevoked (rm_graph m) (n_id n) False)) (\<lambda>_.
               act_return \<lparr>e_delegationId = n_id n, e_isRoot = True, e_parentId = None,
                 e_timestamp = rm_now m, e_reason = Some ''Restored''\<rparr>))))"

definition isStatusBitSet :: "('g, 'l) revocationManager \<Rightarrow> delegationNode \<Rightarrow> (graphError, 'g \<times> 'l, bool) act" where
  "isStatusBitSet m n = act_bind (statusEntryOf n) (\<lambda>entry. case entry of
       None \<Rightarrow> act_return False
     | Some cs \<Rightarrow> onLists (checkStatus (rm_statusList m) cs))"

datatype revocationState =
    NotRevoked
  | DirectlyRevoked
  | AncestorRevoked string

fun findRevoked :: "('g, 'l) revocationManager \<Rightarrow> string \<Rightarrow> delegationNode list \<Rightarrow> (graphError, 'g \<times> 'l, revocationState) act" where
  "findRevoked m i [] = act_return NotRevoked"
| "findRevoked m i (n # ns) =
     (let answer = (if n_id n = i then DirectlyRevoked else AncestorRevoked (n_id n))
      in if n_revoked n then act_return answer
         else act_bind (isStatusBitSet m n) (\<lambda>isSet. if isSet then act_return answer else findRevoked m i ns))"

definition isRevoked :: "('g, 'l) revocationManager \<Rightarrow> string \<Rightarrow> (graphError, 'g \<times> 'l, revocationState) act" where
  "isRevoked m i = act_bind (onGraph (getChain (rm_graph m) i)) (findRevoked m i)"

fun filterRevoked :: "('g, 'l) revocationManager \<Rightarrow> string list \<Rightarrow> (graphError, 'g \<times> 'l, string list) act" where
  "filterRevoked m [] = act_return []"
| "filterRevoked m (i # is) = act_bind (isRevoked m i) (\<lambda>r.
     act_bind (filterRevoked m is) (\<lambda>rest. act_return (if r = NotRevoked then rest else i # rest)))"

definition getRevokedInSubtree :: "('g, 'l) revocationManager \<Rightarrow> string \<Rightarrow> (graphError, 'g \<times> 'l, string list) act" where
  "getRevokedInSubtree m i = act_bind (onGraph (getDescendants (rm_graph m) i))
     (\<lambda>ds. filterRevoked m (i # map n_id ds))"

datatype delegationVerdict =
    DelegationOk
  | RevokedDelegation "string option"
  | InvalidChain chainVerdict

definition validateDelegation :: "('g, 'l) revocationManager \<Rightarrow> string \<Rightarrow> (graphError, 'g \<times> 'l, delegationVerdict) act" where
  "validateDelegation m i = act_bind (isRevoked m i) (\<lambda>r. case r of
       DirectlyRevoked \<Rightarrow> act_return (RevokedDelegation None)
     | AncestorRevoked a \<Rightarrow> act_return (RevokedDelegation (if a = [] then None else Some a))
     | NotRevoked \<Rightarrow> act_bind (onGraph (validateChain (rm_graph m) i)) (\<lambda>v.
         act_return (if v = ChainOk then DelegationOk else InvalidChain v)))"

subsection \<open>Marks are kept\<close>

definition marked :: "memoryGraph \<Rightarrow> string \<Rightarrow> bool" where
  "marked g i \<longleftrightarrow> (case jm_get g i of None \<Rightarrow> False | Some n \<Rightarrow> n_revoked n)"

text \<open>What every operation but a restore keeps of the graph.\<close>

definition keeps :: "memoryGraph \<Rightarrow> memoryGraph \<Rightarrow> bool" where
  "keeps g g' \<longleftrightarrow> graphWf g' \<and> extends g g' \<and> (\<forall>i. marked g i \<longrightarrow> marked g' i)"

lemma keeps_refl: "graphWf g \<Longrightarrow> keeps g g"
  by (simp add: keeps_def)

lemma keeps_trans: "keeps g g' \<Longrightarrow> keeps g' g'' \<Longrightarrow> keeps g g''"
  unfolding keeps_def using extends_trans by blast

lemma keeps_wf: "keeps g g' \<Longrightarrow> graphWf g'"
  by (simp add: keeps_def)

lemma keeps_marked: "keeps g g' \<Longrightarrow> marked g i \<Longrightarrow> marked g' i"
  by (simp add: keeps_def)

lemma keeps_below: "keeps g g' \<Longrightarrow> below g i d \<Longrightarrow> below g' i d"
  by (auto simp: keeps_def dest: extends_below)

text \<open>A revocation changes marks only: the parent links are the same before and after.\<close>

definition marksMore :: "memoryGraph \<Rightarrow> memoryGraph \<Rightarrow> bool" where
  "marksMore g g' \<longleftrightarrow> keeps g g' \<and> extends g' g"

lemma marksMore_refl: "graphWf g \<Longrightarrow> marksMore g g"
  by (simp add: marksMore_def keeps_refl)

lemma marksMore_trans: "marksMore g g' \<Longrightarrow> marksMore g' g'' \<Longrightarrow> marksMore g g''"
  unfolding marksMore_def using keeps_trans extends_trans by blast

lemma marksMore_below: "marksMore g g' \<Longrightarrow> below g' i d \<longleftrightarrow> below g i d"
  by (auto simp: marksMore_def dest: keeps_below extends_below)

lemma marksMore_wf: "marksMore g g' \<Longrightarrow> graphWf g'"
  by (simp add: marksMore_def keeps_def)

lemma marksMore_marked: "marksMore g g' \<Longrightarrow> marked g i \<Longrightarrow> marked g' i"
  by (simp add: marksMore_def keeps_def)

text \<open>The same in any graph, removals included: the child links and the forest they form stay.\<close>

definition marksOnly :: "memoryGraph \<Rightarrow> memoryGraph \<Rightarrow> bool" where
  "marksOnly g g' \<longleftrightarrow> forestWf g' \<and> childLink g' = childLink g \<and> (graphWf g \<longrightarrow> marksMore g g') \<and>
     (\<forall>i. marked g i \<longrightarrow> marked g' i) \<and> (\<forall>i. jm_get g i \<noteq> None \<longrightarrow> jm_get g' i \<noteq> None)"

lemma marksOnly_refl: "forestWf g \<Longrightarrow> marksOnly g g"
  by (simp add: marksOnly_def marksMore_refl)

lemma marksOnly_trans: "marksOnly g g' \<Longrightarrow> marksOnly g' g'' \<Longrightarrow> marksOnly g g''"
  unfolding marksOnly_def using marksMore_trans marksMore_wf by (simp, blast)

lemma marksOnly_wf: "marksOnly g g' \<Longrightarrow> forestWf g'"
  by (simp add: marksOnly_def)

lemma marksOnly_marked: "marksOnly g g' \<Longrightarrow> marked g i \<Longrightarrow> marked g' i"
  by (simp add: marksOnly_def)

lemma setRevoked_keeps:
  assumes wf: "forestWf g" and run: "setRevoked memoryGraphStorage i True g = (r, g')"
  shows "marksOnly g g'" and "r = Inr b \<Longrightarrow> marked g' i"
proof -
  consider (none) "g' = g" "r = Inl (DelegationNotFound i)"
    | (some) n where "jm_get g i = Some n" "jm_get g' = (jm_get g)(i \<mapsto> n\<lparr>n_revoked := True\<rparr>)" "r = Inr True"
    using setRevoked_forest [OF wf run] by blast
  then have "marksOnly g g' \<and> (r = Inr b \<longrightarrow> marked g' i)"
  proof cases
    case none
    then show ?thesis using marksOnly_refl [OF wf] by simp
  next
    case some
    have "\<forall>j. marked g j \<longrightarrow> marked g' j" "marked g' i" using some(2) by (simp_all add: marked_def)
    moreover have "extends g' g" using some(1,2) by (auto simp: extends_def)
    moreover have "childLink g' = childLink g" using some(1,2) by (auto simp: fun_eq_iff childLink_def)
    ultimately show ?thesis
      using forestWf_update [OF wf some(1,2)] graphWf_update [OF _ some(1,2)] some(2)
      by (simp add: marksOnly_def marksMore_def keeps_def)
  qed
  then show "marksOnly g g'" "r = Inr b \<Longrightarrow> marked g' i" by auto
qed

lemma onGraph_eq: "onGraph f (g, l) = (fst (f g), (snd (f g), l))"
  by (simp add: onGraph_def split: prod.splits)

lemma onLists_graph: "onLists f (g, l) = (r, (g', l')) \<Longrightarrow> g' = g"
  by (auto simp: onLists_def split: prod.splits sum.splits)

lemma statusEntryOf_state: "statusEntryOf n s = (r, s') \<Longrightarrow> s' = s"
  by (simp add: statusEntryOf_def)

lemma notify_state: "notify opts e s = (r, s') \<Longrightarrow> s' = s"
  by (auto simp: notify_def split: option.splits)

lemma revokeNode_keeps:
  assumes wf: "forestWf g" and m: "rm_graph m = memoryGraphStorage"
    and run: "revokeNode m n root reason dry parent (g, l) = (r, (g', l'))"
  shows "marksOnly g g'" and "r = Inr e \<Longrightarrow> \<not> dry \<Longrightarrow> marked g' (n_id n)"
    and "r = Inr e \<Longrightarrow> e_delegationId e = n_id n"
proof -
  obtain rs g1 where rs: "setRevoked memoryGraphStorage (n_id n) True g = (rs, g1)" by force
  note keep = setRevoked_keeps [OF wf rs]
  have "g' = (if dry then g else g1) \<and> (r = Inr e \<longrightarrow> (dry \<or> (\<exists>b. rs = Inr b)) \<and> e_delegationId e = n_id n)"
    using run rs m
    by (auto simp: revokeNode_def Let_def act_bind_def onGraph_eq split: if_splits sum.splits prod.splits option.splits
        dest: statusEntryOf_state onLists_graph)
  then show "marksOnly g g'" "r = Inr e \<Longrightarrow> \<not> dry \<Longrightarrow> marked g' (n_id n)" "r = Inr e \<Longrightarrow> e_delegationId e = n_id n"
    using keep marksOnly_refl [OF wf] by auto
qed

lemma revokeAll_keeps:
  assumes m: "rm_graph m = memoryGraphStorage"
  shows "forestWf g \<Longrightarrow> revokeAll m opts i ds (g, l) = (r, (g', l')) \<Longrightarrow>
    marksOnly g g' \<and> (\<forall>es. r = Inr es \<longrightarrow> map e_delegationId es = map n_id ds \<and>
      (\<not> o_dryRun opts \<longrightarrow> (\<forall>d \<in> set ds. marked g' (n_id d))))"
proof (induction ds arbitrary: g l r g' l')
  case Nil
  then show ?case by (auto intro: marksOnly_refl)
next
  case (Cons d ds)
  obtain r1 g1 l1 where r1: "revokeNode m d False (Some (''Cascaded from '' @ i)) (o_dryRun opts) (Some i) (g, l) = (r1, (g1, l1))"
    by (metis prod.exhaust)
  note one = revokeNode_keeps [OF Cons.prems(1) m r1]
  obtain r3 g3 l3 where r3: "revokeAll m opts i ds (g1, l1) = (r3, (g3, l3))" by (metis prod.exhaust)
  note IH = Cons.IH [OF marksOnly_wf [OF one(1)] r3]
  show ?case
  proof (cases "(\<exists>e. r1 = Inr e \<and> fst (notify opts e (g1, l1)) = Inr ())")
    case False
    then have "g' = g1 \<and> (\<exists>e. r = Inl e)"
      using Cons.prems(2) r1 by (auto simp: act_bind_def split: sum.splits prod.splits dest: notify_state)
    with one show ?thesis by auto
  next
    case True
    then obtain e where e: "r1 = Inr e" "notify opts e (g1, l1) = (Inr (), (g1, l1))"
      using notify_state by (metis prod.collapse)
    then have "g' = g3 \<and> (\<forall>es. r = Inr es \<longrightarrow> (\<exists>es'. r3 = Inr es' \<and> es = e # es'))"
      using Cons.prems(2) r1 r3 by (auto simp: act_bind_def split: sum.splits prod.splits)
    then have g': "g' = g3" and es: "\<And>es. r = Inr es \<Longrightarrow> \<exists>es'. r3 = Inr es' \<and> es = e # es'" by blast+
    have "marksOnly g g'" using one(1) IH g' by (blast intro: marksOnly_trans)
    moreover have "map e_delegationId es = map n_id (d # ds) \<and> (\<not> o_dryRun opts \<longrightarrow> (\<forall>x \<in> set (d # ds). marked g' (n_id x)))"
      if "r = Inr es" for es
    proof -
      obtain es' where es': "r3 = Inr es'" "es = e # es'" using es [OF \<open>r = Inr es\<close>] by blast
      have "marked g' (n_id d)" if "\<not> o_dryRun opts"
        using one(2) [OF e(1) that] IH g' marksOnly_marked by blast
      then show ?thesis using es' IH one(3) [OF e(1)] g' by simp
    qed
    ultimately show ?thesis by blast
  qed
qed

lemma getDescendants_memory: "getDescendants memoryGraphStorage i g = (Inr (descendantsFrom g [i] [] []), g)"
  by (simp add: memory_ops)

lemma getDepth_state: "snd (getDepth memoryGraphStorage i g) = g"
  by (simp add: getDepth_def act_bind_def memory_ops split: sum.splits)

lemma revokeDelegation_marks:
  assumes m: "rm_graph m = memoryGraphStorage" and wf: "forestWf g"
    and run: "revokeDelegation m i opts (g, l) = (r, (g', l'))"
  shows "marksOnly g g'"
    and "r = Inr events \<Longrightarrow> (\<exists>n chain. jm_get g i = Some n \<and> getChainSync g i = Inr chain) \<and>
      distinct (map e_delegationId events) \<and> (\<forall>d. d \<in> set (map e_delegationId events) \<longleftrightarrow> (childLink g)\<^sup>*\<^sup>* i d) \<and>
      (o_dryRun opts \<or> list_all (\<lambda>e. marked g' (e_delegationId e)) events)"
proof -
  have "marksOnly g g' \<and> (\<forall>events. r = Inr events \<longrightarrow>
      (\<exists>n chain. jm_get g i = Some n \<and> getChainSync g i = Inr chain) \<and>
      distinct (map e_delegationId events) \<and> (\<forall>d. d \<in> set (map e_delegationId events) \<longleftrightarrow> (childLink g)\<^sup>*\<^sup>* i d) \<and>
      (o_dryRun opts \<or> list_all (\<lambda>e. marked g' (e_delegationId e)) events))"
  proof (cases "\<exists>n k. jm_get g i = Some n \<and> fst (getDepth memoryGraphStorage i g) = Inr k \<and> k \<le> int (maxDepthOf opts)")
    case False
    then have "g' = g \<and> (\<exists>e. r = Inl e)"
      using run m getDepth_state [of i g]
      by (auto simp: revokeDelegation_def act_bind_def onGraph_eq memGetNode_def memoryGraphStorage_def split: option.splits sum.splits if_splits)
    then show ?thesis using marksOnly_refl [OF wf] by auto
  next
    case True
    then obtain n k where n: "jm_get g i = Some n" "getDepth memoryGraphStorage i g = (Inr k, g)" "k \<le> int (maxDepthOf opts)"
      using getDepth_state by (metis prod.collapse)
    note nid = forestWf_id [OF wf n(1)]
    have chain: "\<exists>chain. getChainSync g i = Inr chain"
      using n(2) by (auto simp: getDepth_def act_bind_def memory_ops split: sum.splits)
    obtain r1 g1 l1 where r1: "revokeNode m n True (o_reason opts) (o_dryRun opts) None (g, l) = (r1, (g1, l1))"
      by (metis prod.exhaust)
    note one = revokeNode_keeps [OF wf m r1]
    note wf1 = marksOnly_wf [OF one(1)]
    let ?ds = "descendantsFrom g1 [i] [] []"
    obtain r3 g3 l3 where r3: "revokeAll m opts i ?ds (g1, l1) = (r3, (g3, l3))" by (metis prod.exhaust)
    note all = revokeAll_keeps [OF m wf1 r3]
    show ?thesis
    proof (cases "\<exists>e. r1 = Inr e \<and> fst (notify opts e (g1, l1)) = Inr ()")
      case False
      then have "g' = g1 \<and> (\<exists>e. r = Inl e)"
        using run m n r1 by (auto simp: revokeDelegation_def act_bind_def onGraph_eq memGetNode_def memoryGraphStorage_def
            split: sum.splits prod.splits dest: notify_state)
      then show ?thesis using one by auto
    next
      case True
      then obtain e where e: "r1 = Inr e" "notify opts e (g1, l1) = (Inr (), (g1, l1))"
        using notify_state by (metis prod.collapse)
      then have res: "g' = g3 \<and> (\<forall>es. r = Inr es \<longrightarrow> (\<exists>es'. r3 = Inr es' \<and> es = e # es'))"
        using run m n r1 r3 getDescendants_memory [of i g1]
        by (auto simp: revokeDelegation_def act_bind_def onGraph_eq memGetNode_def memoryGraphStorage_def
            split: sum.splits prod.splits)
      have "jm_get g1 i \<noteq> None" "childLink g1 = childLink g" using one(1) n(1) by (auto simp: marksOnly_def)
      then have ids: "distinct (map n_id ?ds)" "n_id ` set ?ds = {d. (childLink g)\<^sup>*\<^sup>* i d} - {i}"
        using descendants_forest [OF wf1, of i] by simp_all
      have "distinct (map e_delegationId es) \<and> (\<forall>d. d \<in> set (map e_delegationId es) \<longleftrightarrow> (childLink g)\<^sup>*\<^sup>* i d) \<and>
          (o_dryRun opts \<or> list_all (\<lambda>e. marked g' (e_delegationId e)) es)" if r: "r = Inr es" for es
      proof -
        obtain es' where es': "r3 = Inr es'" "es = e # es'" using res r by blast
        have ev: "map e_delegationId es = i # map n_id ?ds" using es' all one(3) [OF e(1)] nid by simp
        have "marked g' d" if "\<not> o_dryRun opts" "d \<in> set (map e_delegationId es)" for d
          using that ev one(2) [OF e(1) that(1)] nid all es'(1) res marksOnly_marked by auto
        then have "o_dryRun opts \<or> list_all (\<lambda>e. marked g' (e_delegationId e)) es" by (auto simp: list_all_iff)
        moreover have "distinct (i # map n_id ?ds)" using ids by auto
        moreover have "d \<in> set (i # map n_id ?ds) \<longleftrightarrow> (childLink g)\<^sup>*\<^sup>* i d" for d using ids(2) by auto
        ultimately show ?thesis unfolding ev by blast
      qed
      then show ?thesis using one(1) all res marksOnly_trans n(1) chain by blast
    qed
  qed
  then show "marksOnly g g'"
    "r = Inr events \<Longrightarrow> (\<exists>n chain. jm_get g i = Some n \<and> getChainSync g i = Inr chain) \<and>
      distinct (map e_delegationId events) \<and> (\<forall>d. d \<in> set (map e_delegationId events) \<longleftrightarrow> (childLink g)\<^sup>*\<^sup>* i d) \<and>
      (o_dryRun opts \<or> list_all (\<lambda>e. marked g' (e_delegationId e)) events)"
    by blast+
qed

lemma revokeDelegation_keeps:
  assumes m: "rm_graph m = memoryGraphStorage" and wf: "graphWf g"
    and run: "revokeDelegation m i opts (g, l) = (r, (g', l'))"
  shows "marksMore g g'"
    and "r = Inr events \<Longrightarrow> \<not> o_dryRun opts \<Longrightarrow> below g i d \<Longrightarrow> marked g' d"
proof -
  note kept = revokeDelegation_marks [OF m graphWf_forest [OF wf] run]
  show "marksMore g g'" using kept(1) wf by (simp add: marksOnly_def)
  assume r: "r = Inr events" and dry: "\<not> o_dryRun opts" and d: "below g i d"
  have "d \<in> set (map e_delegationId events)" using kept(2) [OF r] d below_childLink [OF wf] by blast
  then show "marked g' d" using kept(2) [OF r] dry by (metis image_iff list.set_map list_all_iff)
qed

subsection \<open>A marked node is never reported live\<close>

lemma findRevoked_marked:
  "n \<in> set ns \<Longrightarrow> n_revoked n \<Longrightarrow> fst (findRevoked m i ns s) \<noteq> Inr NotRevoked"
proof (induction ns arbitrary: s)
  case (Cons a ns)
  show ?case
  proof (cases "n_revoked a")
    case True
    then show ?thesis by (simp add: Let_def)
  next
    case False
    with Cons.prems have "n \<in> set ns" by auto
    then show ?thesis using Cons.IH [OF _ Cons.prems(2)] False
      by (auto simp: Let_def act_bind_def split: sum.splits prod.splits)
  qed
qed simp

lemma marked_not_live:
  assumes m: "rm_graph m = memoryGraphStorage" and wf: "graphWf g" and "marked g a" and "below g a d"
  shows "fst (isRevoked m d (g, l)) \<noteq> Inr NotRevoked"
proof -
  from assms(4) obtain "is" where path: "rootPath g d is" "a \<in> set is" by (auto simp: below_def)
  have "the (jm_get g a) \<in> set (map (\<lambda>j. the (jm_get g j)) is)" using path(2) by auto
  moreover have "n_revoked (the (jm_get g a))" using assms(3) by (auto simp: marked_def split: option.splits)
  ultimately have "fst (findRevoked m d (map (\<lambda>j. the (jm_get g j)) is) (g, l)) \<noteq> Inr NotRevoked"
    by (rule findRevoked_marked)
  then show ?thesis
    using getChainSync_path [OF path(1) wf]
    by (simp add: isRevoked_def act_bind_def onGraph_eq m memory_ops)
qed

lemma not_live_not_valid:
  "fst (isRevoked m d s) \<noteq> Inr NotRevoked \<Longrightarrow> fst (validateDelegation m d s) \<noteq> Inr DelegationOk"
  by (auto simp: validateDelegation_def act_bind_def split: sum.splits prod.splits revocationState.splits)

text \<open>Everything that can happen to the two stores short of a restore: registrations, revocations
  that succeed or fail at any point, and any change at all of the status lists.\<close>

inductive revocationStep ::
  "(memoryGraph, 'l) revocationManager \<Rightarrow> memoryGraph \<times> 'l \<Rightarrow> memoryGraph \<times> 'l \<Rightarrow> bool" for m where
  registers: "p_id p \<noteq> [] \<Longrightarrow> registerDelegation memoryGraphStorage p g = (r, g') \<Longrightarrow> revocationStep m (g, l) (g', l)"
| revokes: "revokeDelegation m i opts (g, l) = (r', (g', l')) \<Longrightarrow> revocationStep m (g, l) (g', l')"
| updatesLists: "revocationStep m (g, l) (g, l')"

lemma registerDelegation_keeps:
  assumes wf: "graphWf g" and p: "p_id p \<noteq> []" and run: "registerDelegation memoryGraphStorage p g = (r, g')"
  shows "keeps g g'"
proof -
  have "graphWf g' \<and> extends g g'" using graphStep_wf [OF graphStep.register [OF p run]] wf by blast
  moreover have "marked g i \<Longrightarrow> marked g' i" for i
    using run
  proof (rule registerDelegation_memory)
    fix r' assume "memRegisterNodeAtomic (newNode p) g = (r', g')"
    moreover assume "marked g i"
    ultimately show "marked g' i"
      using graphWf_id [OF wf]
      by (auto simp: memRegisterNodeAtomic_def marked_def linkChild_def split: if_splits option.splits)
  qed simp
  ultimately show ?thesis by (simp add: keeps_def)
qed

lemma revocationStep_keeps:
  assumes m: "rm_graph m = memoryGraphStorage"
  shows "revocationStep m s t \<Longrightarrow> graphWf (fst s) \<Longrightarrow> keeps (fst s) (fst t)"
proof (induction rule: revocationStep.induct)
  case (registers p g r g' l)
  then show ?case by (simp add: registerDelegation_keeps)
next
  case (revokes i opts g l r' g' l')
  then show ?case using revokeDelegation_keeps(1) [OF m _ revokes.hyps] by (simp add: marksMore_def)
qed (simp add: keeps_refl)

lemma revocationSteps_keep:
  assumes m: "rm_graph m = memoryGraphStorage"
  shows "(revocationStep m)\<^sup>*\<^sup>* s t \<Longrightarrow> graphWf (fst s) \<Longrightarrow> keeps (fst s) (fst t)"
proof (induction rule: rtranclp_induct)
  case (step t u)
  then have "keeps (fst s) (fst t)" by simp
  then show ?case using revocationStep_keeps [OF m step.hyps(2)] keeps_wf keeps_trans by blast
qed (simp add: keeps_refl)

text \<open>C16: a cascading revocation is final. Once \<open>revokeDelegation\<close> has succeeded for a delegation,
  then after any further registrations, revocations and status list changes, every delegation
  that has it in its chain, those registered later included, is never reported live and never
  validated, even when every status bit is cleared.\<close>

theorem revocation_is_final:
  assumes "rm_graph m = memoryGraphStorage" and "reachableGraph g"
    and "revokeDelegation m i opts (g, l) = (Inr events, (g', l'))" and "\<not> o_dryRun opts"
    and "(revocationStep m)\<^sup>*\<^sup>* (g', l') (g2, l2)"
    and "isAncestor memoryGraphStorage i d g2 = (Inr True, g2)"
  shows "fst (isRevoked m d (g2, l2)) \<noteq> Inr NotRevoked \<and> fst (validateDelegation m d (g2, l2)) \<noteq> Inr DelegationOk"
proof -
  note wf = reachable_wf [OF assms(2)]
  note kept = revokeDelegation_keeps [OF assms(1) wf assms(3)]
  have wf': "graphWf g'" by (rule marksMore_wf [OF kept(1)])
  have keeps: "keeps g' g2" using revocationSteps_keep [OF assms(1,5)] wf' by simp
  have wf2: "graphWf g2" by (rule keeps_wf [OF keeps])
  obtain n where "jm_get g i = Some n"
    using assms(3) by (auto simp: revokeDelegation_def act_bind_def onGraph_eq assms(1) memory_ops split: option.splits)
  then have "marked g' i" using kept(2) [OF refl assms(4)] below_refl [OF wf] by blast
  then have "marked g2 i" by (rule keeps_marked [OF keeps])
  moreover have "below g2 i d" using assms(6) isAncestor_below [OF wf2] by simp
  ultimately have "fst (isRevoked m d (g2, l2)) \<noteq> Inr NotRevoked"
    by (rule marked_not_live [OF assms(1) wf2])
  then show ?thesis using not_live_not_valid by blast
qed

text \<open>C17: what a revocation reaches, in every graph that registrations, revocation marks and
  removals lead to. The events of a successful \<open>revokeDelegation\<close>, dry run or not, name exactly
  the target and the delegations linked below it, each once, and without a dry run every one of
  them carries the graph's revocation mark afterwards. Each named delegation has the target in its
  chain. Conversely a delegation that has the target in its chain is named, unless some delegation
  from the target down to its own parent was once removed (\<open>R\<close>): where nothing was removed, the
  events are exactly the target's subtree.\<close>

theorem revocation_reaches_subtree:
  assumes "rm_graph m = memoryGraphStorage" and "graphRun R g"
    and "revokeDelegation m i opts (g, l) = (Inr events, (g', l'))"
  shows "distinct (map e_delegationId events) \<and>
    (\<forall>d. (d \<in> set (map e_delegationId events)) = (childLink g)\<^sup>*\<^sup>* i d) \<and>
    (\<forall>d \<in> set (map e_delegationId events). isAncestor memoryGraphStorage i d g = (Inr True, g)) \<and>
    (\<forall>d chain. getChainSync g d = Inr chain \<and> i \<in> set (map n_id chain) \<and>
       set (butlast (dropWhile (\<lambda>j. j \<noteq> i) (map n_id chain))) \<inter> R = {} \<longrightarrow> d \<in> set (map e_delegationId events)) \<and>
    (o_dryRun opts \<or> list_all (\<lambda>e. marked g' (e_delegationId e)) events)"
proof -
  from graphRun_sound [OF assms(2)] have wf: "forestWf g" and orphans: "orphansOnly R g" by auto
  note out = revokeDelegation_marks(2) [OF assms(1) wf assms(3) refl]
  then obtain n chain where "jm_get g i = Some n" "getChainSync g i = Inr chain" by blast
  then obtain top where top: "rootPath (trimLinks g) i top"
    using chainFrom_top [OF _ forestWf_nonempty [OF wf] refl] unfolding getChainSync_def by blast
  have "isAncestor memoryGraphStorage i d g = (Inr True, g)" if linked: "(childLink g)\<^sup>*\<^sup>* i d" for d
  proof -
    obtain js where js: "rootPath (trimLinks g) d js" "i \<in> set js" using linked_path [OF wf top linked] by auto
    have "i \<in> n_id ` set (map (\<lambda>j. the (jm_get g j)) js)"
      using js(2) trim_path_nodes(1) [OF wf js(1)] by (metis list.set_map)
    then show ?thesis
      using getChainSync_trim [OF wf js(1)] by (auto simp: isAncestor_def act_bind_def memory_ops list_ex_iff)
  qed
  moreover have "(childLink g)\<^sup>*\<^sup>* i d" if up: "getChainSync g d = Inr chain" "i \<in> set (map n_id chain)"
      "set (butlast (dropWhile (\<lambda>j. j \<noteq> i) (map n_id chain))) \<inter> R = {}" for d chain
  proof -
    have "jm_get g d \<noteq> None" using up(1,2) getChainSync_unknown [of g d] by (cases "jm_get g d = None") simp_all
    then obtain js where js: "rootPath (trimLinks g) d js"
      using chainFrom_top [OF up(1) [unfolded getChainSync_def] forestWf_nonempty [OF wf] refl] by auto
    have "chain = map (\<lambda>j. the (jm_get g j)) js" using getChainSync_trim [OF wf js] up(1) by simp
    then have "map n_id chain = js" using trim_path_nodes(1) [OF wf js] by (simp only:)
    then show ?thesis using path_linked_below [OF orphans js] up(2,3) by (simp only:)
  qed
  ultimately show ?thesis using out by blast
qed

subsection \<open>What a revocation check answers\<close>

text \<open>Whether one node is revoked: its mark, or the status bit its entry names.\<close>

definition nodeRevoked ::
  "(memoryGraph, memoryStatusLists) revocationManager \<Rightarrow> memoryStatusLists \<Rightarrow> delegationNode \<Rightarrow> graphError + bool" where
  "nodeRevoked m l n =
     (if n_revoked n then Inr True
      else (case nodeStatusEntry n of
          Inl e \<Rightarrow> Inl (StatusError e)
        | Inr None \<Rightarrow> Inr False
        | Inr (Some cs) \<Rightarrow> (case fst (checkStatus (rm_statusList m) cs l) of Inl e \<Rightarrow> Inl (StatusError e) | Inr b \<Rightarrow> Inr b)))"

fun firstRevoked :: "(delegationNode \<Rightarrow> graphError + bool) \<Rightarrow> string \<Rightarrow> delegationNode list \<Rightarrow> graphError + revocationState" where
  "firstRevoked rv i [] = Inr NotRevoked"
| "firstRevoked rv i (n # ns) = (case rv n of
       Inl e \<Rightarrow> Inl e
     | Inr True \<Rightarrow> Inr (if n_id n = i then DirectlyRevoked else AncestorRevoked (n_id n))
     | Inr False \<Rightarrow> firstRevoked rv i ns)"

lemma isStatusBitSet_eq:
  assumes "sm_storage (rm_statusList m) = memoryStorage" and "\<not> n_revoked n"
  shows "isStatusBitSet m n (g, l) = (nodeRevoked m l n, (g, l))"
  using assms memlist.check_eq [OF assms(1)]
  by (auto simp: isStatusBitSet_def nodeRevoked_def statusEntryOf_def act_bind_lift onLists_def split: sum.splits option.splits prod.splits)

lemma findRevoked_eq:
  assumes "sm_storage (rm_statusList m) = memoryStorage"
  shows "findRevoked m i ns (g, l) = (firstRevoked (nodeRevoked m l) i ns, (g, l))"
proof (induction ns)
  case (Cons n ns)
  show ?case
  proof (cases "n_revoked n")
    case True
    then show ?thesis by (simp add: nodeRevoked_def)
  next
    case False
    then show ?thesis using Cons.IH isStatusBitSet_eq [OF assms False, of g l]
      by (simp add: Let_def act_bind_def split: sum.splits bool.splits)
  qed
qed simp

text \<open>a revocation check reads the chain root first and stops at the first revoked or
  unreadable credential. It changes neither store. A credential counts as revoked by its mark
  or its status bit; an entry that cannot be read is an error and never counts as live.\<close>

theorem isRevoked_reports_first_revoked:
  assumes "rm_graph m = memoryGraphStorage" and "sm_storage (rm_statusList m) = memoryStorage"
  shows "isRevoked m i (g, l) =
    ((case getChainSync g i of Inl e \<Rightarrow> Inl e | Inr chain \<Rightarrow> firstRevoked (nodeRevoked m l) i chain), (g, l))"
  using findRevoked_eq [OF assms(2)]
  by (simp add: isRevoked_def act_bind_def onGraph_eq assms(1) memory_ops split: sum.splits)

subsection \<open>An example\<close>

definition exampleRevocation :: "(memoryGraph, memoryStatusLists) revocationManager" where
  "exampleRevocation = \<lparr>rm_graph = memoryGraphStorage, rm_statusList = exampleManager, rm_now = 0\<rparr>"

definition plainOptions :: revocationOptions where
  "plainOptions = \<lparr>o_reason = None, o_onRevoke = None, o_maxDepth = None, o_dryRun = False\<rparr>"

definition exampleRevoked :: "(graphError + revocationEvent list) \<times> memoryGraph \<times> memoryStatusLists" where
  "exampleRevoked = revokeDelegation exampleRevocation ''b'' plainOptions (exampleGraph, newMemoryStatusLists)"

lemma exampleRevocation_simps [simp]:
  "rm_graph exampleRevocation = memoryGraphStorage" "sm_storage (rm_statusList exampleRevocation) = memoryStorage"
  by (simp_all add: exampleRevocation_def)

lemma exampleRevoked_events:
  "map_option (map e_delegationId) (case fst exampleRevoked of Inl _ \<Rightarrow> None | Inr es \<Rightarrow> Some es) = Some [''b'', ''c'']"
  by code_simp

lemma exampleRevoked_run:
  obtains es g l where "revokeDelegation exampleRevocation ''b'' plainOptions (exampleGraph, newMemoryStatusLists) = (Inr es, (g, l))"
    and "exampleRevoked = (Inr es, (g, l))" and "map e_delegationId es = [''b'', ''c'']"
  using exampleRevoked_events unfolding exampleRevoked_def
  by (cases "revokeDelegation exampleRevocation ''b'' plainOptions (exampleGraph, newMemoryStatusLists)")
    (auto split: sum.splits)

theorem revocation_is_final_witness:
  "fst (isRevoked exampleRevocation ''c'' (snd exampleRevoked)) \<noteq> Inr NotRevoked"
proof -
  obtain es g l where run: "revokeDelegation exampleRevocation ''b'' plainOptions (exampleGraph, newMemoryStatusLists) = (Inr es, (g, l))"
    and ex: "exampleRevoked = (Inr es, (g, l))" by (rule exampleRevoked_run)
  have "fst (isAncestor memoryGraphStorage ''b'' ''c'' (fst (snd exampleRevoked))) = Inr True" by code_simp
  then have anc: "isAncestor memoryGraphStorage ''b'' ''c'' g = (Inr True, g)"
    by (simp add: ex isAncestor_def act_bind_def memory_ops split: sum.splits)
  have "fst (isRevoked exampleRevocation ''c'' (g, l)) \<noteq> Inr NotRevoked \<and>
      fst (validateDelegation exampleRevocation ''c'' (g, l)) \<noteq> Inr DelegationOk"
    by (rule revocation_is_final [OF _ exampleGraph_reachable run _ rtranclp.rtrancl_refl anc]) (simp_all add: plainOptions_def)
  then show ?thesis by (simp add: ex)
qed

theorem revocation_reaches_subtree_witness:
  "list_all (\<lambda>i. marked (fst (snd exampleRevoked)) i) [''b'', ''c'']"
proof -
  obtain es g l where run: "revokeDelegation exampleRevocation ''b'' plainOptions (exampleGraph, newMemoryStatusLists) = (Inr es, (g, l))"
    and ex: "exampleRevoked = (Inr es, (g, l))" and ids: "map e_delegationId es = [''b'', ''c'']" by (rule exampleRevoked_run)
  from revocation_reaches_subtree [OF _ reachableGraph_run [OF exampleGraph_reachable] run]
  have "list_all (\<lambda>e. marked g (e_delegationId e)) es" by (simp add: plainOptions_def)
  then have "list_all (marked g) (map e_delegationId es)" by (simp add: list_all_iff)
  then show ?thesis by (simp add: ids ex)
qed

theorem isRevoked_reports_first_revoked_witness:
  "fst (isRevoked exampleRevocation ''c'' (snd exampleRevoked)) = Inr (AncestorRevoked ''b'')"
proof -
  obtain g l where s: "snd exampleRevoked = (g, l)" by (metis prod.exhaust)
  have "(case getChainSync (fst (snd exampleRevoked)) ''c'' of Inl e \<Rightarrow> Inl e
      | Inr chain \<Rightarrow> firstRevoked (nodeRevoked exampleRevocation newMemoryStatusLists) ''c'' chain) = Inr (AncestorRevoked ''b'')"
    by code_simp
  moreover have "snd (snd exampleRevoked) = newMemoryStatusLists" by code_simp
  then have "l = newMemoryStatusLists" by (simp add: s)
  ultimately show ?thesis
    using isRevoked_reports_first_revoked [of exampleRevocation "''c''" g newMemoryStatusLists] by (simp add: s)
qed

end
