(* ===== verification/Nonce_Cache.thy ===== *)
theory Nonce_Cache
  imports Kya_Prelude
begin

text \<open>
  \<open>src/providers/memory.ts\<close> (\<open>MemoryNonceCacheProvider\<close>), \<open>src/providers/nonce-admission.ts\<close> and
  \<open>src/providers/nonce-retention.ts\<close>: replay admission. A replay store is a record of operations
  that take the clock in milliseconds; the memory cache maps a key, the pair that
  \<open>JSON.stringify([agentDid ?? null, nonce])\<close> writes, to its expiry.
\<close>

datatype nonceError =
    TtlNotPositive
  | AtomicNonceRequired
  | RetentionUnbounded
  | StoreFailure string

type_synonym nonceKey = "string option \<times> string"

subsection \<open>The memory cache\<close>

record memoryNonceCache =
  nc_nonces :: "(nonceKey, int) jsmap"
  nc_writesSinceSweep :: nat
  nc_lastSweepAt :: int

definition SWEEP_EVERY :: nat where
  "SWEEP_EVERY = 1000"

definition SWEEP_INTERVAL_MS :: int where
  "SWEEP_INTERVAL_MS = 60000"

definition newNonceCache :: "int \<Rightarrow> memoryNonceCache" where
  "newNonceCache now = \<lparr>nc_nonces = [], nc_writesSinceSweep = 0, nc_lastSweepAt = now\<rparr>"

definition nonceKeyOf :: "string \<Rightarrow> string option \<Rightarrow> nonceKey" where
  "nonceKeyOf nonce agentDid = (agentDid, nonce)"

definition evictExpired :: "int \<Rightarrow> memoryNonceCache \<Rightarrow> memoryNonceCache" where
  "evictExpired now c = c\<lparr>nc_nonces := filter (\<lambda>(_, expiry). \<not> expiry \<le> now) (nc_nonces c)\<rparr>"

definition sweepIfDue :: "int \<Rightarrow> memoryNonceCache \<Rightarrow> memoryNonceCache" where
  "sweepIfDue now c =
     (let writes = nc_writesSinceSweep c + 1
      in if writes < SWEEP_EVERY \<and> now - nc_lastSweepAt c < SWEEP_INTERVAL_MS
         then c\<lparr>nc_writesSinceSweep := writes\<rparr>
         else evictExpired now (c\<lparr>nc_writesSinceSweep := 0, nc_lastSweepAt := now\<rparr>))"

definition writeNonce :: "int \<Rightarrow> nonceKey \<Rightarrow> int \<Rightarrow> memoryNonceCache \<Rightarrow> memoryNonceCache" where
  "writeNonce now key ttlSeconds c =
     sweepIfDue now (c\<lparr>nc_nonces := jm_set key (now + ttlSeconds * 1000) (nc_nonces c)\<rparr>)"

definition memConsume ::
  "int \<Rightarrow> string \<Rightarrow> int \<Rightarrow> string option \<Rightarrow> (nonceError, memoryNonceCache, bool) act" where
  "memConsume now nonce ttlSeconds agentDid = (\<lambda>c.
     if ttlSeconds \<le> 0 then (Inl TtlNotPositive, c)
     else
       (let key = nonceKeyOf nonce agentDid
        in (case jm_get (nc_nonces c) key of
              Some expiry \<Rightarrow> if now < expiry then (Inr False, c) else (Inr True, writeNonce now key ttlSeconds c)
            | None \<Rightarrow> (Inr True, writeNonce now key ttlSeconds c))))"

definition memHas :: "int \<Rightarrow> string \<Rightarrow> string option \<Rightarrow> (nonceError, memoryNonceCache, bool) act" where
  "memHas now nonce agentDid = (\<lambda>c.
     (let key = nonceKeyOf nonce agentDid
      in (case jm_get (nc_nonces c) key of
            None \<Rightarrow> (Inr False, c)
          | Some expiry \<Rightarrow>
              (if expiry = 0 then (Inr False, c)
               else if expiry \<le> now then (Inr False, c\<lparr>nc_nonces := jm_delete key (nc_nonces c)\<rparr>)
               else (Inr True, c)))))"

definition memAdd :: "int \<Rightarrow> string \<Rightarrow> int \<Rightarrow> string option \<Rightarrow> (nonceError, memoryNonceCache, unit) act" where
  "memAdd now nonce ttlSeconds agentDid = (\<lambda>c. (Inr (), writeNonce now (nonceKeyOf nonce agentDid) ttlSeconds c))"

definition memCleanup :: "int \<Rightarrow> (nonceError, memoryNonceCache, unit) act" where
  "memCleanup now = (\<lambda>c. (Inr (), evictExpired now c))"

subsection \<open>Admission\<close>

record 'n nonceStore =
  ns_consume :: "(int \<Rightarrow> string \<Rightarrow> int \<Rightarrow> string option \<Rightarrow> (nonceError, 'n, bool) act) option"
  ns_has :: "int \<Rightarrow> string \<Rightarrow> string option \<Rightarrow> (nonceError, 'n, bool) act"
  ns_add :: "int \<Rightarrow> string \<Rightarrow> int \<Rightarrow> string option \<Rightarrow> (nonceError, 'n, unit) act"
  ns_cleanup :: "int \<Rightarrow> (nonceError, 'n, unit) act"

definition memoryNonceStore :: "memoryNonceCache nonceStore" where
  "memoryNonceStore = \<lparr>ns_consume = Some memConsume, ns_has = memHas, ns_add = memAdd, ns_cleanup = memCleanup\<rparr>"

definition checkNonceStore :: "'n nonceStore \<Rightarrow> bool \<Rightarrow> nonceError + unit" where
  "checkNonceStore store requireAtomicNonce =
     (if ns_consume store \<noteq> None then Inr ()
      else if requireAtomicNonce then Inl AtomicNonceRequired else Inr ())"

definition admitNonce ::
  "'n nonceStore \<Rightarrow> bool \<Rightarrow> int \<Rightarrow> string \<Rightarrow> int \<Rightarrow> string option \<Rightarrow> (nonceError, 'n, bool) act" where
  "admitNonce store requireAtomicNonce now nonce ttlSeconds agentDid = (case ns_consume store of
       Some consume \<Rightarrow> consume now nonce ttlSeconds agentDid
     | None \<Rightarrow> act_bind (act_lift (checkNonceStore store requireAtomicNonce)) (\<lambda>_.
         act_bind (ns_has store now nonce agentDid) (\<lambda>seen.
           if seen then act_return False
           else act_bind (ns_add store now nonce ttlSeconds agentDid) (\<lambda>_. act_return True))))"

text \<open>
  Retention in whole seconds: \<open>Math.ceil(validUntil + 1 - nowMs / 1000)\<close> on an integer bound is
  \<open>validUntil + 1\<close> minus the floor of \<open>nowMs / 1000\<close>.
\<close>

definition nonceRetentionSeconds :: "int \<Rightarrow> int \<Rightarrow> int \<Rightarrow> nonceError + int" where
  "nonceRetentionSeconds configuredTtlSeconds validUntilSeconds nowMs =
     (if configuredTtlSeconds < 0 then Inl RetentionUnbounded
      else Inr (max 1 (max configuredTtlSeconds (validUntilSeconds + 1 - nowMs div 1000))))"

lemma nonceRetention_covers:
  assumes "nonceRetentionSeconds configured validUntil nowMs = Inr ttl"
  shows "0 < ttl" and "(validUntil + 1) * 1000 \<le> nowMs + ttl * 1000"
proof -
  from assms have ttl: "ttl = max 1 (max configured (validUntil + 1 - nowMs div 1000))"
    by (auto simp: nonceRetentionSeconds_def split: if_splits)
  then show "0 < ttl" by simp
  have "validUntil + 1 - nowMs div 1000 \<le> ttl" using ttl by simp
  then have "(validUntil + 1 - nowMs div 1000) * 1000 \<le> ttl * 1000" by (rule mult_right_mono) simp
  moreover have "(nowMs div 1000) * 1000 \<le> nowMs" by simp
  ultimately show "(validUntil + 1) * 1000 \<le> nowMs + ttl * 1000" unfolding left_diff_distrib by linarith
qed

text \<open>The requests of a run and what the store answered, oldest first.\<close>

fun answersOf :: "(int \<Rightarrow> 'k \<Rightarrow> int \<Rightarrow> 's \<Rightarrow> bool \<times> 's) \<Rightarrow> 's \<Rightarrow> (int \<times> 'k \<times> int) list \<Rightarrow> bool list" where
  "answersOf step s [] = []"
| "answersOf step s ((now, k, ttl) # rs) = (case step now k ttl s of (b, s') \<Rightarrow> b # answersOf step s' rs)"

subsection \<open>The interface of a replay store\<close>

text \<open>
  What admission relies on. \<open>expiry s k\<close> is the time until which the store still refuses \<open>k\<close>; an
  admitted nonce is refused for its whole retention, and no operation at time \<open>now\<close> forgets an
  entry that is still live then.
\<close>

locale replay_store =
  fixes step :: "int \<Rightarrow> 'k \<Rightarrow> int \<Rightarrow> 's \<Rightarrow> bool \<times> 's"
    and refuses :: "'s \<Rightarrow> 'k \<Rightarrow> int \<Rightarrow> bool"
  assumes admitted_once: "step now k ttl s = (True, s') \<Longrightarrow> \<not> refuses s k now"
    and admitted_retained: "step now k ttl s = (True, s') \<Longrightarrow> t < now + ttl * 1000 \<Longrightarrow> refuses s' k t"
    and kept: "step now k ttl s = (b, s') \<Longrightarrow> refuses s k' t \<Longrightarrow> now \<le> t \<Longrightarrow> refuses s' k' t"
begin

lemma refused_later:
  "refuses s k t \<Longrightarrow> sorted (map fst rs) \<Longrightarrow> (\<And>r. r \<in> set rs \<Longrightarrow> fst r \<le> t) \<Longrightarrow>
     i < length rs \<Longrightarrow> rs ! i = (t, k, ttl) \<Longrightarrow> \<not> answersOf step s rs ! i"
proof (induction rs arbitrary: s i)
  case (Cons r rs)
  obtain now k' ttl' where r: "r = (now, k', ttl')" by (metis prod.exhaust)
  obtain b s' where s': "step now k' ttl' s = (b, s')" by force
  show ?case
  proof (cases i)
    case 0
    with Cons.prems(5) r have same: "now = t" "k' = k" "ttl' = ttl" by simp_all
    have "\<not> b" using admitted_once [of t k ttl s s'] s' Cons.prems(1) same by auto
    with 0 r s' show ?thesis by simp
  next
    case (Suc j)
    have "now \<le> t" using Cons.prems(3) [of r] r by simp
    then have "refuses s' k t" using kept [OF s' Cons.prems(1)] by blast
    then have "\<not> answersOf step s' rs ! j" by (rule Cons.IH) (use Cons.prems Suc in auto)
    then show ?thesis using Suc r s' by simp
  qed
qed simp

text \<open>In a run with a clock that never goes backwards, two requests for one key are both admitted
  only when the second comes after the retention of the first.\<close>

lemma no_replay_within_retention:
  assumes "sorted (map fst rs)" and "i < j" and "j < length rs"
    and "rs ! i = (t, k, ttl)" and "rs ! j = (t', k, ttl')"
    and "answersOf step s rs ! i" and "answersOf step s rs ! j"
  shows "t + ttl * 1000 \<le> t'"
  using assms
proof (induction rs arbitrary: s i j)
  case (Cons r rs)
  obtain now k' ttl0 where r: "r = (now, k', ttl0)" by (metis prod.exhaust)
  obtain b s' where s': "step now k' ttl0 s = (b, s')" by force
  show ?case
  proof (cases i)
    case 0
    with Cons.prems r s' have b: "b" "now = t" "k' = k" "ttl0 = ttl" by auto
    obtain j' where j': "j = Suc j'" using Cons.prems(2) by (cases j) auto
    show ?thesis
    proof (rule ccontr)
      assume "\<not> t + ttl * 1000 \<le> t'"
      then have refused: "refuses s' k t'" using admitted_retained [of now k ttl0 s s' t'] s' b by simp
      let ?rs = "take (Suc j') rs"
      have "\<not> answersOf step s' rs ! j'"
      proof -
        have ans: "answersOf step s' rs ! j' = answersOf step s' ?rs ! j'" if "j' < length rs" for s'
          using that
        proof (induction rs arbitrary: j' s')
          case (Cons q qs)
          then show ?case by (cases j'; cases q) (auto split: prod.splits)
        qed simp
        have len: "j' < length rs" using Cons.prems(3) j' by simp
        have "\<not> answersOf step s' ?rs ! j'"
        proof (rule refused_later [OF refused])
          show "sorted (map fst ?rs)" using Cons.prems(1) by (simp add: take_map [symmetric] sorted_wrt_take)
          show "?rs ! j' = (t', k, ttl')" "j' < length ?rs" using Cons.prems(5) j' len by simp_all
          fix q assume "q \<in> set ?rs"
          then obtain n where n: "n < Suc j'" "n < length rs" "q = rs ! n" by (auto simp: in_set_conv_nth)
          have "map fst rs ! n \<le> map fst rs ! j'"
            using Cons.prems(1) n len by (intro sorted_nth_mono) auto
          then show "fst q \<le> t'" using n len Cons.prems(5) j' by simp
        qed
        then show ?thesis using ans [OF len] by simp
      qed
      then show False using Cons.prems(7) j' r s' by simp
    qed
  next
    case (Suc i')
    obtain j' where j': "j = Suc j'" using Cons.prems(2) by (cases j) auto
    show ?thesis by (rule Cons.IH [of i' j' s']) (use Cons.prems Suc j' r s' in auto)
  qed
qed simp

end

definition cacheStep :: "int \<Rightarrow> nonceKey option \<Rightarrow> int \<Rightarrow> memoryNonceCache \<Rightarrow> bool \<times> memoryNonceCache" where
  "cacheStep now k ttlSeconds c = (case k of
       None \<Rightarrow> (False, snd (memCleanup now c))
     | Some (agentDid, nonce) \<Rightarrow> (case memConsume now nonce ttlSeconds agentDid c of
           (Inl _, c') \<Rightarrow> (False, c') | (Inr b, c') \<Rightarrow> (b, c')))"

definition cacheRefuses :: "memoryNonceCache \<Rightarrow> nonceKey option \<Rightarrow> int \<Rightarrow> bool" where
  "cacheRefuses c k t = (case k of
       None \<Rightarrow> False
     | Some key \<Rightarrow> (case jm_get (nc_nonces c) key of None \<Rightarrow> False | Some expiry \<Rightarrow> t < expiry))"

lemma map_of_filter_kept: "map_of xs k = Some v \<Longrightarrow> P (k, v) \<Longrightarrow> map_of (filter P xs) k = Some v"
  by (induction xs) (auto split: if_splits)

lemma evictExpired_kept:
  "jm_get (nc_nonces c) key = Some expiry \<Longrightarrow> now < expiry \<Longrightarrow> jm_get (nc_nonces (evictExpired now c)) key = Some expiry"
  by (simp add: evictExpired_def map_of_filter_kept)

lemma writeNonce_kept:
  "jm_get (jm_set key (now + ttl * 1000) (nc_nonces c)) k = Some expiry \<Longrightarrow> now < expiry \<Longrightarrow>
     jm_get (nc_nonces (writeNonce now key ttl c)) k = Some expiry"
  by (simp add: writeNonce_def sweepIfDue_def Let_def evictExpired_def map_of_filter_kept)

lemma cache_admitted:
  assumes "cacheStep now k ttl c = (True, c')"
  obtains key where "k = Some key" and "0 < ttl" and "c' = writeNonce now key ttl c" and "\<not> cacheRefuses c k now"
  using assms
  by (auto simp: cacheStep_def memConsume_def nonceKeyOf_def cacheRefuses_def Let_def
      split: option.splits prod.splits if_splits)

lemma cache_kept:
  assumes "cacheStep now k ttl c = (b, c')" and "cacheRefuses c k' t" and "now \<le> t"
  shows "cacheRefuses c' k' t"
proof -
  from assms(2) obtain key' expiry where k': "k' = Some key'" "jm_get (nc_nonces c) key' = Some expiry" "t < expiry"
    by (auto simp: cacheRefuses_def split: option.splits)
  with assms(3) have now: "now < expiry" by simp
  have evict: "jm_get (nc_nonces (evictExpired now c)) key' = Some expiry"
    by (rule evictExpired_kept [OF k'(2) now])
  have "c' = c \<or> c' = evictExpired now c \<or>
      (\<exists>key. k = Some key \<and> c' = writeNonce now key ttl c \<and> \<not> cacheRefuses c k now)"
    using assms(1)
    by (auto simp: cacheStep_def memConsume_def memCleanup_def nonceKeyOf_def cacheRefuses_def Let_def
        split: option.splits prod.splits if_splits)
  then have "jm_get (nc_nonces c') key' = Some expiry"
  proof (elim disjE exE conjE)
    fix key assume w: "k = Some key" "c' = writeNonce now key ttl c" "\<not> cacheRefuses c k now"
    have "key \<noteq> key'" using w(1,3) k'(2) now by (auto simp: cacheRefuses_def)
    then show ?thesis unfolding w(2) using k'(2) now by (intro writeNonce_kept) simp_all
  qed (use k'(2) evict in simp_all)
  then show ?thesis using k' by (simp add: cacheRefuses_def)
qed

interpretation cache: replay_store cacheStep cacheRefuses
proof
  fix now k ttl s s' t
  assume run: "cacheStep now k ttl s = (True, s')"
  then show "\<not> cacheRefuses s k now" by (rule cache_admitted)
  assume t: "t < now + ttl * 1000"
  from run show "cacheRefuses s' k t"
    by (rule cache_admitted) (use t in \<open>simp add: cacheRefuses_def writeNonce_kept\<close>)
qed (rule cache_kept)

text \<open>the memory cache admits a nonce once per retention. In any run of \<open>consume\<close> and
  \<open>cleanup\<close> calls whose clock never goes backwards, two calls that admit the same nonce for the
  same agent are at least the first one's retention apart, whatever was swept in between.\<close>

theorem nonce_admitted_once_per_retention:
  assumes "sorted (map fst calls)" and "i < j" and "j < length calls"
    and "calls ! i = (t, Some key, ttl)" and "calls ! j = (t', Some key, ttl')"
    and "answersOf cacheStep s calls ! i" and "answersOf cacheStep s calls ! j"
  shows "t + ttl * 1000 \<le> t'"
  by (rule cache.no_replay_within_retention [OF assms])

theorem nonce_admitted_once_per_retention_witness:
  "answersOf cacheStep (newNonceCache 0) [(0, Some (None, ''n''), 60), (30000, Some (None, ''n''), 60),
      (45000, None, 1), (60000, Some (None, ''n''), 60)] = [True, False, False, True] \<and> (0::int) + 60 * 1000 \<le> 60000"
proof
  show "answersOf cacheStep (newNonceCache 0) [(0, Some (None, ''n''), 60), (30000, Some (None, ''n''), 60),
      (45000, None, 1), (60000, Some (None, ''n''), 60)] = [True, False, False, True]" by code_simp
  show "(0::int) + 60 * 1000 \<le> 60000"
  proof (rule nonce_admitted_once_per_retention)
  let ?calls = "[(0::int, Some (None, ''n''), 60), (30000, Some (None, ''n''), 60), (45000, None, 1),
    (60000, Some (None, ''n''), 60)]"
  show "sorted (map fst ?calls)" by simp
  show "answersOf cacheStep (newNonceCache 0) ?calls ! 0" "answersOf cacheStep (newNonceCache 0) ?calls ! 3"
    by code_simp+
  qed simp_all
qed

end
