(* ===== verification/Session.thy ===== *)
theory Session
  imports Nonce_Cache Base64 Credential "HOL-Library.More_List"
begin

unbundle bit_operations_syntax

text \<open>
  \<open>src/session/manager.ts\<close> and \<open>src/session/session-store.ts\<close>: handshakes, sliding session expiry
  and the bounded memory store. Clock reads (milliseconds) and random bytes are arguments of
  the call that makes them; the replay store is a parameter record, with the memory cache as
  the model's own. Timestamps are integers, as \<open>validateHandshakeFormat\<close> requires.
\<close>

subsection \<open>Client information\<close>

record clientInfo =
  ci_name :: string
  ci_title :: "string option"
  ci_version :: "string option"
  ci_platform :: "string option"
  ci_vendor :: "string option"
  ci_persistentId :: "string option"
  ci_clientId :: string
  ci_protocolVersion :: "string option"
  ci_capabilities :: "string option"

record clientSource =
  src_name :: js_value
  src_title :: js_value
  src_version :: js_value
  src_platform :: js_value
  src_vendor :: js_value
  src_persistentId :: js_value
  src_clientId :: js_value

definition js_trim :: "string \<Rightarrow> string" where
  "js_trim s = rev (dropWhile isTrimSpace (rev (dropWhile isTrimSpace s)))"

definition normalizeClientInfoString :: "js_value \<Rightarrow> string option" where
  "normalizeClientInfoString v = (case v of
       Str s \<Rightarrow> (let trimmed = js_trim s in if trimmed \<noteq> [] then Some trimmed else None)
     | _ \<Rightarrow> None)"

definition hexDigit :: "8 word \<Rightarrow> char" where
  "hexDigit w = nth_default CHR ''0'' ''0123456789abcdef'' (unat w)"

text \<open>\<open>b.toString(16).padStart(2, '0')\<close>\<close>

definition hexByte :: "8 word \<Rightarrow> string" where
  "hexByte b = [hexDigit (drop_bit 4 b), hexDigit (b AND 0x0f)]"

definition hexText :: "bytes \<Rightarrow> string" where
  "hexText bs = concat (map hexByte bs)"

definition generateSessionId :: "bytes \<Rightarrow> string" where
  "generateSessionId random =
     (let bytes = (random[6 := nth_default 0 random 6 AND 0x0f OR 0x40]);
          bytes = (bytes[8 := nth_default 0 bytes 8 AND 0x3f OR 0x80]);
          hex = hexText bytes
      in ''kyaos_'' @ take 8 hex @ ''-'' @ take 4 (drop 8 hex) @ ''-'' @ take 4 (drop 12 hex) @ ''-'' @
         take 4 (drop 16 hex) @ ''-'' @ take 12 (drop 20 hex))"

definition generateClientId :: "bytes \<Rightarrow> string" where
  "generateClientId random = ''client_'' @ hexText random"

subsection \<open>Requests, sessions, configuration\<close>

record handshakeRequest =
  hr_nonce :: string
  hr_audience :: string
  hr_timestamp :: int
  hr_agentDid :: "string option"
  hr_clientInfo :: "clientSource option"
  hr_clientProtocolVersion :: js_value
  hr_clientCapabilities :: "string option"

record sessionContext =
  sc_sessionId :: string
  sc_audience :: string
  sc_nonce :: string
  sc_timestamp :: int
  sc_createdAt :: int
  sc_lastActivity :: int
  sc_ttlMinutes :: int
  sc_metaPolicy :: string
  sc_agentDid :: "string option"
  sc_serverDid :: "string option"
  sc_clientInfo :: "clientInfo option"

record sessionConfig =
  cf_timestampSkewSeconds :: int
  cf_sessionTtlMinutes :: int
  cf_absoluteSessionLifetime :: "int option"
  cf_requireAtomicNonce :: bool
  cf_serverDid :: "string option"
  cf_metaPolicy :: string

definition defaultSessionConfig :: sessionConfig where
  "defaultSessionConfig = \<lparr>cf_timestampSkewSeconds = 120, cf_sessionTtlMinutes = 30,
     cf_absoluteSessionLifetime = None, cf_requireAtomicNonce = False, cf_serverDid = None,
     cf_metaPolicy = ''strict''\<rparr>"

definition buildClientInfo :: "handshakeRequest \<Rightarrow> bytes \<Rightarrow> clientInfo option" where
  "buildClientInfo r random =
     (let hasMetadata = (hr_clientInfo r \<noteq> None \<or> (case hr_clientProtocolVersion r of Str _ \<Rightarrow> True | _ \<Rightarrow> False)
            \<or> hr_clientCapabilities r \<noteq> None);
          field = (\<lambda>f. Option.bind (hr_clientInfo r) (\<lambda>src. normalizeClientInfoString (f src)))
      in if \<not> hasMetadata then None
         else Some \<lparr>ci_name = (case field src_name of None \<Rightarrow> ''unknown'' | Some s \<Rightarrow> s),
           ci_title = field src_title, ci_version = field src_version, ci_platform = field src_platform,
           ci_vendor = field src_vendor, ci_persistentId = field src_persistentId,
           ci_clientId = (case field src_clientId of None \<Rightarrow> generateClientId random | Some s \<Rightarrow> s),
           ci_protocolVersion = normalizeClientInfoString (hr_clientProtocolVersion r),
           ci_capabilities = hr_clientCapabilities r\<rparr>)"

definition validateHandshakeFormat :: "js_value \<Rightarrow> js_value \<Rightarrow> js_number option \<Rightarrow> bool" where
  "validateHandshakeFormat nonce aud timestamp =
     ((case nonce of Str s \<Rightarrow> s \<noteq> [] | _ \<Rightarrow> False) \<and> (case aud of Str s \<Rightarrow> s \<noteq> [] | _ \<Rightarrow> False) \<and>
      (case timestamp of Some (JsInteger t) \<Rightarrow> 0 < t | _ \<Rightarrow> False))"

subsection \<open>The memory session store\<close>

record memorySessionStore =
  st_sessions :: "(string, sessionContext) jsmap"
  st_insertionOrder :: "string list"
  st_maxSessions :: nat

definition newSessionStore :: "nat option \<Rightarrow> memorySessionStore" where
  "newSessionStore n = \<lparr>st_sessions = [], st_insertionOrder = [],
     st_maxSessions = (case n of None \<Rightarrow> 10000 | Some k \<Rightarrow> k)\<rparr>"

fun evictOldest :: "nat \<Rightarrow> string list \<Rightarrow> (string, sessionContext) jsmap \<Rightarrow> string list \<times> (string, sessionContext) jsmap" where
  "evictOldest cap [] sessions = ([], sessions)"
| "evictOldest cap (oldest # order) sessions =
     (if cap \<le> length sessions then evictOldest cap order (jm_delete oldest sessions)
      else (oldest # order, sessions))"

definition evictIfNeeded :: "memorySessionStore \<Rightarrow> memorySessionStore" where
  "evictIfNeeded st = (case evictOldest (st_maxSessions st) (st_insertionOrder st) (st_sessions st) of
     (order, sessions) \<Rightarrow> st\<lparr>st_insertionOrder := order, st_sessions := sessions\<rparr>)"

definition storeSet :: "string \<Rightarrow> sessionContext \<Rightarrow> memorySessionStore \<Rightarrow> memorySessionStore" where
  "storeSet i s st =
     (let st1 = (if jm_has (st_sessions st) i then st
                 else (let e = evictIfNeeded st in e\<lparr>st_insertionOrder := st_insertionOrder e @ [i]\<rparr>))
      in st1\<lparr>st_sessions := jm_set i s (st_sessions st1)\<rparr>)"

definition storeGet :: "string \<Rightarrow> memorySessionStore \<Rightarrow> sessionContext option" where
  "storeGet i st = jm_get (st_sessions st) i"

definition storeDelete :: "string \<Rightarrow> memorySessionStore \<Rightarrow> memorySessionStore" where
  "storeDelete i st = st\<lparr>st_sessions := jm_delete i (st_sessions st)\<rparr>"

definition storeCleanup :: "memorySessionStore \<Rightarrow> memorySessionStore" where
  "storeCleanup st = st\<lparr>st_insertionOrder := filter (jm_has (st_sessions st)) (st_insertionOrder st)\<rparr>"

definition storeClear :: "memorySessionStore \<Rightarrow> memorySessionStore" where
  "storeClear st = st\<lparr>st_sessions := [], st_insertionOrder := []\<rparr>"

subsection \<open>The session manager\<close>

datatype handshakeResult =
    HandshakeOk sessionContext
  | TimestampOutsideSkew
  | AudienceMismatchError
  | NonceReplay
  | HandshakeFailed nonceError

text \<open>The three clock reads of one handshake, in milliseconds, and its random bytes.\<close>

record handshakeEnv =
  he_checkedAt :: int
  he_retainedAt :: int
  he_consumedAt :: int
  he_sessionBytes :: bytes
  he_clientBytes :: bytes

record 'n sessionState =
  ss_nonces :: 'n
  ss_store :: memorySessionStore

definition ANON_NONCE_TTL_SECONDS :: int where
  "ANON_NONCE_TTL_SECONDS = 60"

definition AUTH_NONCE_TTL_SECONDS :: int where
  "AUTH_NONCE_TTL_SECONDS = 120"

definition newSession :: "sessionConfig \<Rightarrow> handshakeRequest \<Rightarrow> handshakeEnv \<Rightarrow> sessionContext" where
  "newSession cfg r env = (let now = he_checkedAt env div 1000 in
     \<lparr>sc_sessionId = generateSessionId (he_sessionBytes env), sc_audience = hr_audience r, sc_nonce = hr_nonce r,
      sc_timestamp = hr_timestamp r, sc_createdAt = now, sc_lastActivity = now,
      sc_ttlMinutes = cf_sessionTtlMinutes cfg, sc_metaPolicy = cf_metaPolicy cfg, sc_agentDid = hr_agentDid r,
      sc_serverDid = (if truthy (cf_serverDid cfg) then cf_serverDid cfg else None),
      sc_clientInfo = buildClientInfo r (he_clientBytes env)\<rparr>)"

definition validateHandshake ::
  "'n nonceStore \<Rightarrow> sessionConfig \<Rightarrow> handshakeEnv \<Rightarrow> handshakeRequest \<Rightarrow> 'n sessionState \<Rightarrow> handshakeResult \<times> 'n sessionState" where
  "validateHandshake store cfg env r s =
     (if cf_timestampSkewSeconds cfg < \<bar>he_checkedAt env div 1000 - hr_timestamp r\<bar> then (TimestampOutsideSkew, s)
      else if truthy (cf_serverDid cfg) \<and> cf_serverDid cfg \<noteq> Some (hr_audience r) then (AudienceMismatchError, s)
      else
        (let configured = (if truthy (hr_agentDid r) then AUTH_NONCE_TTL_SECONDS else ANON_NONCE_TTL_SECONDS)
         in (case nonceRetentionSeconds configured (hr_timestamp r + cf_timestampSkewSeconds cfg) (he_retainedAt env) of
               Inl e \<Rightarrow> (HandshakeFailed e, s)
             | Inr ttl \<Rightarrow>
                 (case admitNonce store (cf_requireAtomicNonce cfg) (he_consumedAt env) (hr_nonce r) ttl (hr_agentDid r) (ss_nonces s) of
                    (Inl e, n) \<Rightarrow> (HandshakeFailed e, s\<lparr>ss_nonces := n\<rparr>)
                  | (Inr False, n) \<Rightarrow> (NonceReplay, s\<lparr>ss_nonces := n\<rparr>)
                  | (Inr True, n) \<Rightarrow>
                      (let session = newSession cfg r env
                       in (HandshakeOk session,
                           s\<lparr>ss_nonces := n, ss_store := storeSet (sc_sessionId session) session (ss_store s)\<rparr>))))))"

definition sessionExpired :: "sessionConfig \<Rightarrow> int \<Rightarrow> sessionContext \<Rightarrow> bool" where
  "sessionExpired cfg now s =
     (sc_ttlMinutes s * 60 < now - sc_lastActivity s \<or>
      (case cf_absoluteSessionLifetime cfg of
         None \<Rightarrow> False | Some minutes \<Rightarrow> minutes * 60 < now - sc_createdAt s))"

definition getSession :: "sessionConfig \<Rightarrow> int \<Rightarrow> string \<Rightarrow> memorySessionStore \<Rightarrow> sessionContext option \<times> memorySessionStore" where
  "getSession cfg nowMs i st = (case storeGet i st of
       None \<Rightarrow> (None, st)
     | Some s \<Rightarrow>
         (let now = nowMs div 1000
          in if sessionExpired cfg now s then (None, storeDelete i st)
             else (let s' = s\<lparr>sc_lastActivity := now\<rparr> in (Some s', storeSet i s' st))))"

definition cleanupSessions :: "'n nonceStore \<Rightarrow> sessionConfig \<Rightarrow> int \<Rightarrow> (nonceError, 'n sessionState, unit) act" where
  "cleanupSessions store cfg nowMs = (\<lambda>s.
     (let expired = filter (\<lambda>(i, c). sessionExpired cfg (nowMs div 1000) c) (st_sessions (ss_store s));
          st = storeCleanup (fold (\<lambda>(i, c). storeDelete i) expired (ss_store s))
      in (case ns_cleanup store nowMs (ss_nonces s) of (r, n) \<Rightarrow> (r, s\<lparr>ss_nonces := n, ss_store := st\<rparr>))))"

subsection \<open>Handshakes over the memory cache\<close>

lemma second_bound:
  assumes "(t :: int) div 1000 \<le> n"
  shows "t < (n + 1) * 1000"
proof -
  have "t div 1000 * 1000 \<le> n * 1000" using assms by (rule mult_right_mono) simp
  moreover have "t < t div 1000 * 1000 + 1000"
    using div_mult_mod_eq [of t 1000] pos_mod_bound [of 1000 t] by linarith
  ultimately show ?thesis by (simp add: distrib_right)
qed

fun runHandshakes ::
  "sessionConfig \<Rightarrow> (handshakeEnv \<times> handshakeRequest) list \<Rightarrow> memoryNonceCache sessionState \<Rightarrow> handshakeResult list" where
  "runHandshakes cfg [] s = []"
| "runHandshakes cfg ((env, r) # rs) s = (case validateHandshake memoryNonceStore cfg env r s of
     (res, s') \<Rightarrow> res # runHandshakes cfg rs s')"

fun isHandshakeOk :: "handshakeResult \<Rightarrow> bool" where
  "isHandshakeOk (HandshakeOk _) = True"
| "isHandshakeOk _ = False"

text \<open>The end of the acceptance window of a request, in milliseconds: the first instant whose second is past the skew.\<close>

definition windowEnd :: "sessionConfig \<Rightarrow> handshakeRequest \<Rightarrow> int" where
  "windowEnd cfg r = (hr_timestamp r + cf_timestampSkewSeconds cfg + 1) * 1000"

abbreviation requestKey :: "handshakeRequest \<Rightarrow> nonceKey option" where
  "requestKey r \<equiv> Some (hr_agentDid r, hr_nonce r)"

lemma handshake_cache_step:
  "ss_nonces (snd (validateHandshake memoryNonceStore cfg env r s)) = ss_nonces s \<and>
     \<not> isHandshakeOk (fst (validateHandshake memoryNonceStore cfg env r s)) \<and>
     (cf_timestampSkewSeconds cfg < \<bar>he_checkedAt env div 1000 - hr_timestamp r\<bar> \<or>
      truthy (cf_serverDid cfg) \<and> cf_serverDid cfg \<noteq> Some (hr_audience r)) \<or>
   (\<exists>ttl b c. 0 < ttl \<and> (hr_timestamp r + cf_timestampSkewSeconds cfg + 1) * 1000 \<le> he_retainedAt env + ttl * 1000 \<and>
     cacheStep (he_consumedAt env) (requestKey r) ttl (ss_nonces s) = (b, c) \<and>
     ss_nonces (snd (validateHandshake memoryNonceStore cfg env r s)) = c \<and>
     isHandshakeOk (fst (validateHandshake memoryNonceStore cfg env r s)) = b \<and>
     \<bar>he_checkedAt env div 1000 - hr_timestamp r\<bar> \<le> cf_timestampSkewSeconds cfg)"
proof -
  let ?configured = "if truthy (hr_agentDid r) then AUTH_NONCE_TTL_SECONDS else ANON_NONCE_TTL_SECONDS"
  let ?until = "hr_timestamp r + cf_timestampSkewSeconds cfg"
  have "\<not> ?configured < 0" by (simp add: AUTH_NONCE_TTL_SECONDS_def ANON_NONCE_TTL_SECONDS_def)
  then obtain ttl where ttl: "nonceRetentionSeconds ?configured ?until (he_retainedAt env) = Inr ttl"
    unfolding nonceRetentionSeconds_def by simp
  note cover = nonceRetention_covers [OF ttl]
  show ?thesis
  proof (cases "cf_timestampSkewSeconds cfg < \<bar>he_checkedAt env div 1000 - hr_timestamp r\<bar> \<or>
      truthy (cf_serverDid cfg) \<and> cf_serverDid cfg \<noteq> Some (hr_audience r)")
    case True
    then show ?thesis by (auto simp: validateHandshake_def)
  next
    case False
    obtain res c where res: "memConsume (he_consumedAt env) (hr_nonce r) ttl (hr_agentDid r) (ss_nonces s) = (res, c)"
      by force
    obtain b where b: "res = Inr b" using res cover(1)
      by (auto simp: memConsume_def Let_def split: if_splits option.splits)
    have "cacheStep (he_consumedAt env) (requestKey r) ttl (ss_nonces s) = (b, c)"
      using res b by (simp add: cacheStep_def)
    moreover have "ss_nonces (snd (validateHandshake memoryNonceStore cfg env r s)) = c"
      "isHandshakeOk (fst (validateHandshake memoryNonceStore cfg env r s)) = b"
    proof -
      have skew: "\<not> cf_timestampSkewSeconds cfg < \<bar>he_checkedAt env div 1000 - hr_timestamp r\<bar>"
        and aud: "\<not> (truthy (cf_serverDid cfg) \<and> cf_serverDid cfg \<noteq> Some (hr_audience r))"
        using False by blast+
      have admit: "admitNonce memoryNonceStore (cf_requireAtomicNonce cfg) (he_consumedAt env) (hr_nonce r) ttl
          (hr_agentDid r) (ss_nonces s) = (Inr b, c)"
        by (simp add: admitNonce_def memoryNonceStore_def res b)
      show "ss_nonces (snd (validateHandshake memoryNonceStore cfg env r s)) = c"
        "isHandshakeOk (fst (validateHandshake memoryNonceStore cfg env r s)) = b"
        unfolding validateHandshake_def Let_def if_not_P [OF skew] if_not_P [OF aud] ttl sum.case admit prod.case
        by (cases b; simp)+
    qed
    ultimately show ?thesis using cover False
      by (intro disjI2 exI [of _ ttl] exI [of _ b] exI [of _ c] conjI) (simp_all only: not_less de_Morgan_disj)
  qed
qed

text \<open>While the store refuses a request's nonce up to the end of its acceptance window, the request is accepted only if it was
  checked inside the window and consumed after it.\<close>

lemma refused_request:
  assumes ok: "isHandshakeOk (fst (validateHandshake memoryNonceStore cfg env r s))"
    and refused: "\<And>t. he_consumedAt env \<le> t \<Longrightarrow> t < windowEnd cfg r \<Longrightarrow> cacheRefuses (ss_nonces s) (requestKey r) t"
  shows "he_checkedAt env < windowEnd cfg r \<and> windowEnd cfg r \<le> he_consumedAt env"
  using handshake_cache_step [of cfg env r s]
proof (elim disjE exE conjE)
  fix ttl b c
  assume step: "cacheStep (he_consumedAt env) (requestKey r) ttl (ss_nonces s) = (b, c)"
    and b: "isHandshakeOk (fst (validateHandshake memoryNonceStore cfg env r s)) = b"
    and skew: "\<bar>he_checkedAt env div 1000 - hr_timestamp r\<bar> \<le> cf_timestampSkewSeconds cfg"
  have "he_checkedAt env div 1000 \<le> hr_timestamp r + cf_timestampSkewSeconds cfg" using skew by simp
  then have "he_checkedAt env < windowEnd cfg r" unfolding windowEnd_def by (rule second_bound)
  moreover have "\<not> cacheRefuses (ss_nonces s) (requestKey r) (he_consumedAt env)"
    using step b ok by (auto elim: cache_admitted)
  ultimately show ?thesis using refused by force
qed (use ok in simp_all)

lemma refused_rest:
  assumes "sorted (map (\<lambda>(env, _). he_consumedAt env) rs)" and "j < length rs" and "rs ! j = (env, r)"
    and "\<And>t. he_consumedAt env \<le> t \<Longrightarrow> t < windowEnd cfg r \<Longrightarrow> cacheRefuses (ss_nonces s) (requestKey r) t"
    and "isHandshakeOk (runHandshakes cfg rs s ! j)"
  shows "he_checkedAt env < windowEnd cfg r \<and> windowEnd cfg r \<le> he_consumedAt env"
  using assms
proof (induction rs arbitrary: s j)
  case (Cons q rs)
  obtain env0 r0 where q: "q = (env0, r0)" by force
  obtain res s' where s': "validateHandshake memoryNonceStore cfg env0 r0 s = (res, s')" by force
  show ?case
  proof (cases j)
    case 0
    then show ?thesis using refused_request [of cfg env r s] Cons.prems q s' by auto
  next
    case (Suc j')
    have before: "he_consumedAt env0 \<le> he_consumedAt env"
      using Cons.prems(1-3) q Suc nth_mem [of j' rs] by force
    have "cacheRefuses (ss_nonces s') (requestKey r) t" if t: "he_consumedAt env \<le> t" "t < windowEnd cfg r" for t
      using handshake_cache_step [of cfg env0 r0 s] cache_kept [OF _ Cons.prems(4) [OF t]] before t(1)
        Cons.prems(4) [OF t] s' by fastforce
    then show ?thesis
      by (intro Cons.IH [of j' s']) (use Cons.prems q Suc s' in auto)
  qed
qed simp

text \<open>An accepted request is refused for the rest of its acceptance window.\<close>

lemma accepted_refused:
  assumes "isHandshakeOk (fst (validateHandshake memoryNonceStore cfg env r s))" and "he_retainedAt env \<le> he_consumedAt env"
    and "t < windowEnd cfg r"
  shows "cacheRefuses (ss_nonces (snd (validateHandshake memoryNonceStore cfg env r s))) (requestKey r) t"
  using handshake_cache_step [of cfg env r s]
proof (elim disjE exE conjE)
  fix ttl b c
  assume step: "cacheStep (he_consumedAt env) (requestKey r) ttl (ss_nonces s) = (b, c)"
    and ok: "isHandshakeOk (fst (validateHandshake memoryNonceStore cfg env r s)) = b"
    and c: "ss_nonces (snd (validateHandshake memoryNonceStore cfg env r s)) = c"
    and cover: "(hr_timestamp r + cf_timestampSkewSeconds cfg + 1) * 1000 \<le> he_retainedAt env + ttl * 1000"
  have "t < he_consumedAt env + ttl * 1000" using cover assms(2,3) by (simp add: windowEnd_def)
  then show ?thesis using cache.admitted_retained [of _ _ ttl] step ok assms(1) c by auto
qed (use assms(1) in simp_all)

text \<open>C36: when a handshake is accepted twice. In any run of handshakes on one server over the memory nonce cache, in which the
  clock the cache reads does not go backwards, let a request be accepted, and later one with its nonce, agent and timestamp. Then
  the clock passed the end of the acceptance window within the later call, between its skew check and its look at the cache.
  In every other case, such as when both reads fall in one second, the later request is refused, however many sweeps, other
  requests or expiries lie in between.\<close>

theorem handshake_accepted_once:
  assumes "sorted (map (\<lambda>(env, _). he_consumedAt env) rs)" and "he_retainedAt (fst (rs ! i)) \<le> he_consumedAt (fst (rs ! i))"
    and "i < j" and "j < length rs"
    and "hr_nonce (snd (rs ! i)) = hr_nonce (snd (rs ! j))" and "hr_agentDid (snd (rs ! i)) = hr_agentDid (snd (rs ! j))"
    and "hr_timestamp (snd (rs ! i)) = hr_timestamp (snd (rs ! j))"
    and "isHandshakeOk (runHandshakes cfg rs s ! i)" and "isHandshakeOk (runHandshakes cfg rs s ! j)"
  shows "he_checkedAt (fst (rs ! j)) < windowEnd cfg (snd (rs ! j)) \<and> windowEnd cfg (snd (rs ! j)) \<le> he_consumedAt (fst (rs ! j))"
  using assms
proof (induction rs arbitrary: s i j)
  case (Cons q rs)
  obtain env0 r0 where q: "q = (env0, r0)" by force
  obtain res s' where s': "validateHandshake memoryNonceStore cfg env0 r0 s = (res, s')" by force
  obtain j' where j': "j = Suc j'" using Cons.prems(3) by (cases j) auto
  show ?case
  proof (cases i)
    case 0
    obtain env r where r: "rs ! j' = (env, r)" by force
    have same: "requestKey r0 = requestKey r" "windowEnd cfg r0 = windowEnd cfg r"
      using Cons.prems(5-7) 0 j' q r by (simp_all add: windowEnd_def)
    have "cacheRefuses (ss_nonces s') (requestKey r) t" if "t < windowEnd cfg r" for t
      using accepted_refused [of cfg env0 r0 s t] Cons.prems(2,8) 0 q s' same that by simp
    then have "he_checkedAt env < windowEnd cfg r \<and> windowEnd cfg r \<le> he_consumedAt env"
      by (intro refused_rest [where rs = rs and s = s' and j = j']) (use Cons.prems j' r q s' in auto)
    then show ?thesis using j' r by simp
  next
    case (Suc i')
    have "he_checkedAt (fst (rs ! j')) < windowEnd cfg (snd (rs ! j')) \<and> windowEnd cfg (snd (rs ! j')) \<le> he_consumedAt (fst (rs ! j'))"
      by (rule Cons.IH [of i' j' s']) (use Cons.prems Suc j' q s' in auto)
    then show ?thesis using j' by simp
  qed
qed simp

definition exampleRequest :: handshakeRequest where
  "exampleRequest = \<lparr>hr_nonce = ''n'', hr_audience = ''did:web:s'', hr_timestamp = 1000, hr_agentDid = Some ''did:key:a'',
     hr_clientInfo = None, hr_clientProtocolVersion = Nullish, hr_clientCapabilities = None\<rparr>"

definition envAt :: "int \<Rightarrow> int \<Rightarrow> handshakeEnv" where
  "envAt checked consumed = \<lparr>he_checkedAt = checked, he_retainedAt = checked, he_consumedAt = consumed,
     he_sessionBytes = replicate 16 7, he_clientBytes = replicate 6 7\<rparr>"

definition newServer :: "nat option \<Rightarrow> memoryNonceCache sessionState" where
  "newServer n = \<lparr>ss_nonces = newNonceCache 0, ss_store = newSessionStore n\<rparr>"

lemma exampleHandshakes:
  "isHandshakeOk (runHandshakes defaultSessionConfig
     [(envAt 1000000 1000000, exampleRequest), (envAt 1120999 1120999, exampleRequest)] (newServer None) ! 0)"
  by code_simp

theorem handshake_accepted_once_witness:
  "\<not> isHandshakeOk (runHandshakes defaultSessionConfig
     [(envAt 1000000 1000000, exampleRequest), (envAt 1120999 1120999, exampleRequest)] (newServer None) ! 1)"
proof
  assume again: "isHandshakeOk (runHandshakes defaultSessionConfig
     [(envAt 1000000 1000000, exampleRequest), (envAt 1120999 1120999, exampleRequest)] (newServer None) ! 1)"
  show False
    using handshake_accepted_once [where i = 0, OF _ _ _ _ _ _ _ exampleHandshakes again] by (auto simp: envAt_def)
qed

text \<open>the retention leaves no margin for the delay between the skew check and the store's own
  clock read. A replay checked in the last millisecond of its acceptance window and consumed in
  the next one is accepted a second time.\<close>

theorem boundary_replay_accepted:
  "map isHandshakeOk (runHandshakes defaultSessionConfig
     [(envAt 1000000 1000000, exampleRequest), (envAt 1120999 1121000, exampleRequest)] (newServer None)) = [True, True]"
  by code_simp

text \<open>what a handshake accepts, over the memory cache: exactly the requests inside the skew
  window whose audience is the server, when one is configured, and whose nonce the cache does
  not still hold for that agent.\<close>

theorem handshake_accepts_iff:
  "isHandshakeOk (fst (validateHandshake memoryNonceStore cfg env r s)) \<longleftrightarrow>
     \<bar>he_checkedAt env div 1000 - hr_timestamp r\<bar> \<le> cf_timestampSkewSeconds cfg \<and>
     cf_serverDid cfg \<in> {None, Some [], Some (hr_audience r)} \<and>
     cacheRefuses (ss_nonces s) (requestKey r) (he_consumedAt env) = False"
proof -
  have aud: "\<not> (truthy (cf_serverDid cfg) \<and> cf_serverDid cfg \<noteq> Some (hr_audience r)) \<longleftrightarrow>
      cf_serverDid cfg \<in> {None, Some [], Some (hr_audience r)}"
    by (cases "cf_serverDid cfg") auto
  have early: "\<not> isHandshakeOk (fst (validateHandshake memoryNonceStore cfg env r s))"
    if "truthy (cf_serverDid cfg) \<and> cf_serverDid cfg \<noteq> Some (hr_audience r)"
    using that by (simp add: validateHandshake_def)
  have step: "b = (cacheRefuses (ss_nonces s) (requestKey r) (he_consumedAt env) = False)"
    if "cacheStep (he_consumedAt env) (requestKey r) ttl (ss_nonces s) = (b, c)" "0 < ttl" for ttl b c
    using that by (auto simp: cacheStep_def memConsume_def nonceKeyOf_def cacheRefuses_def Let_def
        split: option.splits if_splits)
  show ?thesis
    using handshake_cache_step [of cfg env r s]
  proof (elim disjE [of "_ \<and> _"] exE conjE)
    assume "\<not> isHandshakeOk (fst (validateHandshake memoryNonceStore cfg env r s))"
      "cf_timestampSkewSeconds cfg < \<bar>he_checkedAt env div 1000 - hr_timestamp r\<bar> \<or>
        truthy (cf_serverDid cfg) \<and> cf_serverDid cfg \<noteq> Some (hr_audience r)"
    with aud show ?thesis by (meson not_less)
  next
    fix ttl b c
    assume "cacheStep (he_consumedAt env) (requestKey r) ttl (ss_nonces s) = (b, c)" "0 < ttl"
      "isHandshakeOk (fst (validateHandshake memoryNonceStore cfg env r s)) = b"
      "\<bar>he_checkedAt env div 1000 - hr_timestamp r\<bar> \<le> cf_timestampSkewSeconds cfg"
    with step [OF this(1,2)] early aud show ?thesis by blast
  qed
qed

subsection \<open>The bounded session store\<close>

definition storeWf :: "memorySessionStore \<Rightarrow> bool" where
  "storeWf st \<longleftrightarrow> distinct (jm_keys (st_sessions st)) \<and> set (jm_keys (st_sessions st)) \<subseteq> set (st_insertionOrder st) \<and>
     length (st_sessions st) \<le> max 1 (st_maxSessions st)"

lemma evictOldest_bound:
  "distinct (jm_keys m) \<Longrightarrow> set (jm_keys m) \<subseteq> set order \<Longrightarrow> evictOldest cap order m = (order', m') \<Longrightarrow>
     distinct (jm_keys m') \<and> set (jm_keys m') \<subseteq> set order' \<and> (length m' < cap \<or> m' = [])"
proof (induction cap order m rule: evictOldest.induct)
  case (2 cap oldest order m)
  show ?case
  proof (cases "cap \<le> length m")
    case True
    have "set (jm_keys (jm_delete oldest m)) \<subseteq> set order"
      using 2(3) by (auto simp: delete_keys)
    then show ?thesis using 2 True by simp
  next
    case False
    then show ?thesis using 2 by auto
  qed
qed simp

lemma storeSet_length: "length (jm_set k v m) \<le> Suc (length m)"
  by (induction m) auto

lemma storeSet_same: "jm_has m k \<Longrightarrow> length (jm_set k v m) = length m"
  by (induction m) auto

lemma storeSet_wf [kya_inv]: "storeWf st \<Longrightarrow> storeWf (storeSet i s st)"
proof (cases "jm_has (st_sessions st) i")
  case True
  assume wf: "storeWf st"
  then have "i \<in> set (jm_keys (st_sessions st))" using True by (auto simp: map_of_eq_None_iff)
  then show ?thesis using wf True
    unfolding storeWf_def storeSet_def by (auto simp: jm_set_keys storeSet_same Let_def simp del: set_map)
next
  case False
  assume wf: "storeWf st"
  obtain order m where e: "evictOldest (st_maxSessions st) (st_insertionOrder st) (st_sessions st) = (order, m)" by force
  with wf have m: "distinct (jm_keys m)" "set (jm_keys m) \<subseteq> set order" "length m < st_maxSessions st \<or> m = []"
    using evictOldest_bound unfolding storeWf_def by blast+
  then have "length (jm_set i s m) \<le> max 1 (st_maxSessions st)"
    using storeSet_length [of i s m] by auto
  then show ?thesis using m False e
    unfolding storeWf_def storeSet_def by (auto simp: evictIfNeeded_def jm_set_keys Let_def simp del: set_map)
qed

lemma storeDelete_wf [kya_inv]: "storeWf st \<Longrightarrow> storeWf (storeDelete i st)"
proof -
  assume wf: "storeWf st"
  have "length (jm_delete i (st_sessions st)) \<le> length (st_sessions st)" by (rule length_delete_le)
  then show ?thesis using wf by (auto simp: storeWf_def storeDelete_def delete_keys distinct_removeAll)
qed

lemma storeCleanup_wf [kya_inv]: "storeWf st \<Longrightarrow> storeWf (storeCleanup st)"
  by (auto simp: storeWf_def storeCleanup_def)

lemma storeClear_wf [kya_inv]: "storeWf (storeClear st)"
  by (simp add: storeWf_def storeClear_def)

lemma newSessionStore_wf [kya_inv]: "storeWf (newSessionStore n)"
  by (simp add: storeWf_def newSessionStore_def)

datatype storeOp = SetSession string sessionContext | DeleteSession string | CleanupStore | ClearStore

fun runStoreOp :: "storeOp \<Rightarrow> memorySessionStore \<Rightarrow> memorySessionStore" where
  "runStoreOp (SetSession i s) = storeSet i s"
| "runStoreOp (DeleteSession i) = storeDelete i"
| "runStoreOp CleanupStore = storeCleanup"
| "runStoreOp ClearStore = storeClear"

lemma runStore_wf: "storeWf st \<Longrightarrow> storeWf (fold runStoreOp ops st)"
proof (induction ops arbitrary: st)
  case (Cons op ops)
  then show ?case by (cases op) (simp_all add: kya_inv)
qed simp

lemma storeOp_max: "st_maxSessions (runStoreOp op st) = st_maxSessions st"
  by (cases op) (auto simp: storeSet_def storeDelete_def storeCleanup_def storeClear_def evictIfNeeded_def Let_def split: prod.splits)

lemma runStore_max: "st_maxSessions (fold runStoreOp ops st) = st_maxSessions st"
  by (induction ops arbitrary: st) (simp_all add: storeOp_max)

text \<open>the memory session store never holds more sessions than its limit, whatever is stored,
  deleted, cleaned up and cleared, and a limit of 0 still holds one.\<close>

theorem session_store_bounded:
  "length (st_sessions (fold runStoreOp ops (newSessionStore (Some n)))) \<le> max 1 n"
  using runStore_wf [OF newSessionStore_wf, of ops "Some n"] runStore_max [of ops "newSessionStore (Some n)"]
  by (simp add: storeWf_def newSessionStore_def)

definition plainSession :: "string \<Rightarrow> sessionContext" where
  "plainSession i = newSession defaultSessionConfig exampleRequest (envAt 0 0)\<lparr>sc_sessionId := i\<rparr>"

text \<open>eviction is not in order of age. A deleted id stays in the insertion order, so when it is
  stored again and the limit is reached, the newer session is evicted and the older one kept.\<close>

theorem recreated_session_evicted_first:
  "let store = (\<lambda>i. SetSession i (plainSession i))
   in jm_keys (st_sessions (fold runStoreOp [store ''a'', DeleteSession ''a'', store ''b'', store ''a'', store ''c'']
        (newSessionStore (Some 2)))) = [''b'', ''c'']"
  by code_simp

text \<open>reading a session. A session is returned exactly when it is stored, its idle time is
  within its own time to live and its age within the absolute lifetime; the read restarts the
  idle time. An expired session is deleted by the read, and no other session is touched.\<close>

theorem getSession_returns_live_sessions:
  "(fst (getSession cfg nowMs i st) =
     (case storeGet i st of
        None \<Rightarrow> None
      | Some s \<Rightarrow> if sessionExpired cfg (nowMs div 1000) s then None else Some (s\<lparr>sc_lastActivity := nowMs div 1000\<rparr>))) \<and>
   storeGet i (snd (getSession cfg nowMs i st)) = fst (getSession cfg nowMs i st) \<and>
   (j = i \<or> storeGet j (snd (getSession cfg nowMs i st)) = storeGet j st)"
  by (cases "storeGet i st") (auto simp: getSession_def storeGet_def storeSet_def storeDelete_def Let_def)

end
