(* ===== verification/Ttl_Cache.thy ===== *)
theory Ttl_Cache
  imports Kya_Prelude
begin

text \<open>
  \<open>src/utils/ttl-cache.ts\<close>: the bounded map behind the signature-result cache and the status
  list cache, first in first out, with expiry on read. A key is a list of units: the characters of a
  \<open>string\<close>, or code units where a key holds any JavaScript string. The clock is an argument.
\<close>

record ('c, 'v) ttlCache =
  tc_entries :: "('c list, 'v \<times> int) jsmap"
  tc_insertionOrder :: "'c list list"
  tc_ttlMs :: int
  tc_maxEntries :: int

definition newTtlCache :: "int \<Rightarrow> int \<Rightarrow> ('c, 'v) ttlCache" where
  "newTtlCache ttl n = \<lparr>tc_entries = [], tc_insertionOrder = [], tc_ttlMs = ttl, tc_maxEntries = n\<rparr>"

definition cacheDelete :: "'c list \<Rightarrow> ('c, 'v) ttlCache \<Rightarrow> ('c, 'v) ttlCache" where
  "cacheDelete k c = c\<lparr>tc_entries := jm_delete k (tc_entries c), tc_insertionOrder := remove1 k (tc_insertionOrder c)\<rparr>"

definition cacheGet :: "int \<Rightarrow> 'c list \<Rightarrow> ('c, 'v) ttlCache \<Rightarrow> 'v option \<times> ('c, 'v) ttlCache" where
  "cacheGet now k c = (case jm_get (tc_entries c) k of
       None \<Rightarrow> (None, c)
     | Some (v, expiresAt) \<Rightarrow> if expiresAt < now then (None, cacheDelete k c) else (Some v, c))"

fun evictFull :: "int \<Rightarrow> 'c list list \<Rightarrow> ('c list, 'v \<times> int) jsmap \<Rightarrow> 'c list list \<times> ('c list, 'v \<times> int) jsmap" where
  "evictFull cap [] m = ([], m)"
| "evictFull cap (oldest # order) m =
     (if cap \<le> int (length m) then evictFull cap order (if oldest \<noteq> [] then jm_delete oldest m else m)
      else (oldest # order, m))"

definition cacheSet :: "int \<Rightarrow> 'c list \<Rightarrow> 'v \<Rightarrow> ('c, 'v) ttlCache \<Rightarrow> ('c, 'v) ttlCache" where
  "cacheSet now k v c =
     (if tc_ttlMs c \<le> 0 \<or> tc_maxEntries c \<le> 0 then c
      else
        (let c1 = (if jm_has (tc_entries c) k then cacheDelete k c else c)
         in (case evictFull (tc_maxEntries c) (tc_insertionOrder c1) (tc_entries c1) of
               (order, m) \<Rightarrow> c1\<lparr>tc_entries := jm_set k (v, now + tc_ttlMs c) m, tc_insertionOrder := order @ [k]\<rparr>)))"

definition cacheDeleteWhere :: "('c list \<Rightarrow> bool) \<Rightarrow> ('c, 'v) ttlCache \<Rightarrow> ('c, 'v) ttlCache" where
  "cacheDeleteWhere p c = fold (\<lambda>k c. if p k then cacheDelete k c else c) (jm_keys (tc_entries c)) c"

definition cacheClear :: "('c, 'v) ttlCache \<Rightarrow> ('c, 'v) ttlCache" where
  "cacheClear c = c\<lparr>tc_entries := [], tc_insertionOrder := []\<rparr>"

subsection \<open>Order, bound and freshness\<close>

text \<open>The insertion order lists exactly the stored keys, once each, and the bound holds.\<close>

definition cacheWf :: "('c, 'v) ttlCache \<Rightarrow> bool" where
  "cacheWf c \<longleftrightarrow> distinct (jm_keys (tc_entries c)) \<and> distinct (tc_insertionOrder c) \<and>
     set (tc_insertionOrder c) = set (jm_keys (tc_entries c)) \<and> [] \<notin> set (tc_insertionOrder c) \<and>
     int (length (tc_entries c)) \<le> max 0 (tc_maxEntries c)"

lemma jm_delete_keys: "set (jm_keys (jm_delete k m)) = set (jm_keys m) - {k}"
  by (auto simp: delete_keys)

lemma jm_delete_length: "length (jm_delete k m) \<le> length m"
  by (rule length_delete_le)

lemma cacheDelete_wf [kya_inv]: "cacheWf c \<Longrightarrow> cacheWf (cacheDelete k c)"
  using jm_delete_length [of k "tc_entries c"]
  unfolding cacheWf_def cacheDelete_def by (auto simp: jm_delete_keys simp del: set_map)

lemma evictFull_wf:
  "distinct (jm_keys m) \<Longrightarrow> distinct order \<Longrightarrow> set order = set (jm_keys m) \<Longrightarrow> [] \<notin> set order \<Longrightarrow> 0 < cap \<Longrightarrow>
   evictFull cap order m = (order', m') \<Longrightarrow>
     distinct (jm_keys m') \<and> distinct order' \<and> set order' = set (jm_keys m') \<and> [] \<notin> set order' \<and>
     int (length m') < cap \<and> (\<exists>n. order' = drop n order)"
proof (induction cap order m rule: evictFull.induct)
  case (2 cap oldest order m)
  show ?case
  proof (cases "cap \<le> int (length m)")
    case True
    have ne: "oldest \<noteq> []" using 2(5) by auto
    have "set order = set (jm_keys (jm_delete oldest m))"
      using 2(3,4) unfolding jm_delete_keys by auto
    moreover have "evictFull cap order (jm_delete oldest m) = (order', m')" using 2(7) True ne by simp
    ultimately have "distinct (jm_keys m') \<and> distinct order' \<and> set order' = set (jm_keys m') \<and> [] \<notin> set order' \<and>
        int (length m') < cap \<and> (\<exists>n. order' = drop n order)"
      using 2(1) [OF True] 2(2-6) ne by auto
    then show ?thesis by (metis drop_Suc_Cons)
  next
    case False
    then have "m' = m" "order' = oldest # order" using 2(7) by simp_all
    moreover have "\<exists>n. oldest # order = drop n (oldest # order)" by (rule exI [of _ 0]) simp
    moreover have "int (length m) < cap" using False by simp
    ultimately show ?thesis using 2(2-5) by blast
  qed
qed (auto intro!: exI [of _ 0])

lemma jm_set_new_length: "k \<notin> set (jm_keys m) \<Longrightarrow> length (jm_set k v m) = Suc (length m)"
  by (induction m) auto

lemma cacheSet_wf [kya_inv]:
  assumes wf: "cacheWf c" and k: "k \<noteq> []"
  shows "cacheWf (cacheSet now k v c)"
proof (cases "tc_ttlMs c \<le> 0 \<or> tc_maxEntries c \<le> 0")
  case True
  with wf show ?thesis by (simp add: cacheSet_def)
next
  case False
  let ?c1 = "if jm_has (tc_entries c) k then cacheDelete k c else c"
  have wf1: "cacheWf ?c1" using wf cacheDelete_wf by auto
  have k1: "k \<notin> set (jm_keys (tc_entries ?c1))"
    by (auto simp: cacheDelete_def jm_delete_keys map_of_eq_None_iff simp del: set_map) (auto)
  have max1: "tc_maxEntries ?c1 = tc_maxEntries c" by (simp add: cacheDelete_def)
  obtain order m where e: "evictFull (tc_maxEntries c) (tc_insertionOrder ?c1) (tc_entries ?c1) = (order, m)" by force
  then have w: "distinct (jm_keys m)" "distinct order" "set order = set (jm_keys m)" "[] \<notin> set order"
      "int (length m) < tc_maxEntries c" and n: "\<exists>n. order = drop n (tc_insertionOrder ?c1)"
    using evictFull_wf [OF _ _ _ _ _ e] wf1 False unfolding cacheWf_def by auto
  from n obtain j where "order = drop j (tc_insertionOrder ?c1)" by blast
  then have "set order \<subseteq> set (tc_insertionOrder ?c1)" by (simp only: set_drop_subset)
  moreover have "set (tc_insertionOrder ?c1) = set (jm_keys (tc_entries ?c1))" using wf1 unfolding cacheWf_def by blast
  ultimately have "k \<notin> set order" using k1 by blast
  then have "k \<notin> set (jm_keys m)" using w(3) by simp
  then have "int (length (jm_set k (v, now + tc_ttlMs c) m)) \<le> tc_maxEntries c"
    using w(5) jm_set_new_length [of k m] by simp
  moreover have "cacheSet now k v c =
      ?c1\<lparr>tc_entries := jm_set k (v, now + tc_ttlMs c) m, tc_insertionOrder := order @ [k]\<rparr>"
    unfolding cacheSet_def Let_def using False e by simp
  moreover have "set (order @ [k]) = set (jm_keys (jm_set k (v, now + tc_ttlMs c) m))"
    unfolding jm_set_keys using w(3) by simp
  moreover have "distinct (order @ [k])" "[] \<notin> set (order @ [k])" using w(2,4) k \<open>k \<notin> set order\<close> by auto
  moreover have "distinct (jm_keys (jm_set k (v, now + tc_ttlMs c) m))" using w(1) by (rule jm_distinct_set)
  ultimately show ?thesis using max1 unfolding cacheWf_def by simp
qed

datatype ('c, 'v) cacheOp = CacheSet int "'c list" 'v | CacheGet int "'c list" | CacheDelete "'c list"
  | CacheDeleteWhere "'c list \<Rightarrow> bool" | CacheClear

fun runCacheOp :: "('c, 'v) cacheOp \<Rightarrow> ('c, 'v) ttlCache \<Rightarrow> ('c, 'v) ttlCache" where
  "runCacheOp (CacheSet now k v) c = cacheSet now k v c"
| "runCacheOp (CacheGet now k) c = snd (cacheGet now k c)"
| "runCacheOp (CacheDelete k) c = cacheDelete k c"
| "runCacheOp (CacheDeleteWhere p) c = cacheDeleteWhere p c"
| "runCacheOp CacheClear c = cacheClear c"

fun setsNonEmptyKey :: "('c, 'v) cacheOp \<Rightarrow> bool" where
  "setsNonEmptyKey (CacheSet _ k _) = (k \<noteq> [])"
| "setsNonEmptyKey _ = True"

lemma fold_delete_wf: "cacheWf c \<Longrightarrow> cacheWf (fold (\<lambda>k c. if p k then cacheDelete k c else c) ks c)"
  by (induction ks arbitrary: c) (simp_all add: cacheDelete_wf)

lemma runCacheOp_wf: "cacheWf c \<Longrightarrow> setsNonEmptyKey op \<Longrightarrow> cacheWf (runCacheOp op c)"
proof (cases op)
  case (CacheGet now k)
  assume "cacheWf c"
  then show ?thesis using CacheGet by (auto simp: cacheGet_def cacheDelete_wf split: option.splits)
next
  case CacheClear
  then show ?thesis by (simp add: cacheWf_def cacheClear_def)
qed (simp_all add: cacheSet_wf cacheDelete_wf cacheDeleteWhere_def fold_delete_wf)

lemma fold_delete_config:
  "tc_maxEntries (fold (\<lambda>k c. if p k then cacheDelete k c else c) ks c) = tc_maxEntries c \<and>
   tc_ttlMs (fold (\<lambda>k c. if p k then cacheDelete k c else c) ks c) = tc_ttlMs c"
  by (induction ks arbitrary: c) (simp_all add: cacheDelete_def)

lemma runCacheOp_config: "tc_maxEntries (runCacheOp op c) = tc_maxEntries c \<and> tc_ttlMs (runCacheOp op c) = tc_ttlMs c"
proof (cases op)
  case (CacheSet now k v)
  then show ?thesis by (simp add: cacheSet_def cacheDelete_def Let_def split: prod.split)
next
  case (CacheGet now k)
  then show ?thesis by (simp add: cacheGet_def cacheDelete_def split: option.split prod.split)
qed (simp_all add: cacheDelete_def cacheDeleteWhere_def fold_delete_config cacheClear_def)

lemma runCache_config: "tc_maxEntries (fold runCacheOp ops c) = tc_maxEntries c \<and> tc_ttlMs (fold runCacheOp ops c) = tc_ttlMs c"
  by (induction ops arbitrary: c) (simp_all add: runCacheOp_config)

lemma runCache_wf: "cacheWf c \<Longrightarrow> list_all setsNonEmptyKey ops \<Longrightarrow> cacheWf (fold runCacheOp ops c)"
  by (induction ops arbitrary: c) (simp_all add: runCacheOp_wf)

lemma newTtlCache_wf: "cacheWf (newTtlCache ttl n)"
  by (simp add: cacheWf_def newTtlCache_def)

text \<open>the cache keeps its bound and its order in step. After any operations that store under
  non-empty keys it holds at most \<open>maxEntries\<close> entries, and the insertion order lists exactly
  the stored keys, once each.\<close>

theorem ttl_cache_bounded:
  assumes "list_all setsNonEmptyKey ops"
  shows "int (length (tc_entries (fold runCacheOp ops (newTtlCache ttl n)))) \<le> max 0 n \<and>
    distinct (tc_insertionOrder (fold runCacheOp ops (newTtlCache ttl n))) \<and>
    set (tc_insertionOrder (fold runCacheOp ops (newTtlCache ttl n))) =
      set (jm_keys (tc_entries (fold runCacheOp ops (newTtlCache ttl n))))"
  using runCache_wf [OF newTtlCache_wf assms, of ttl n] runCache_config [of ops "newTtlCache ttl n"]
  unfolding cacheWf_def by (simp add: newTtlCache_def)

theorem ttl_cache_bounded_witness:
  "int (length (tc_entries (fold runCacheOp [CacheSet 0 ''a'' True, CacheSet 1 ''b'' False] (newTtlCache 10 1)))) \<le> 1"
  using ttl_cache_bounded [of "[CacheSet 0 ''a'' True, CacheSet 1 ''b'' False]" 10 1] by simp

text \<open>the empty key escapes eviction. The eviction loop skips an empty oldest key without
  deleting its entry, so a cache of one entry comes to hold two.\<close>

theorem empty_key_not_evicted:
  "jm_keys (tc_entries (fold runCacheOp [CacheSet 0 [] True, CacheSet 1 ''b'' False] (newTtlCache 10 1))) = [[], ''b'']"
  by code_simp

subsection \<open>What a read serves\<close>

text \<open>The value and time last stored for a key, by the operations alone.\<close>

fun lastStored :: "'c list \<Rightarrow> ('c, 'v) cacheOp \<Rightarrow> ('v \<times> int) option \<Rightarrow> ('v \<times> int) option" where
  "lastStored k (CacheSet now k' v) old = (if k' = k then Some (v, now) else old)"
| "lastStored k (CacheGet _ _) old = old"
| "lastStored k (CacheDelete k') old = (if k' = k then None else old)"
| "lastStored k (CacheDeleteWhere p) old = (if p k then None else old)"
| "lastStored k CacheClear old = None"

lemma evictFull_get: "evictFull cap order m = (order', m') \<Longrightarrow> jm_get m' k = Some x \<Longrightarrow> jm_get m k = Some x"
  by (induction cap order m rule: evictFull.induct) (auto split: if_splits)

lemma fold_delete_get:
  "jm_get (tc_entries (fold (\<lambda>k c. if p k then cacheDelete k c else c) ks c)) k =
     (if p k \<and> k \<in> set ks then None else jm_get (tc_entries c) k)"
  by (induction ks arbitrary: c) (auto simp: cacheDelete_def)

lemma runCacheOp_stored:
  assumes "0 < tc_ttlMs c" and "0 < tc_maxEntries c"
    and "\<And>v e. jm_get (tc_entries c) k = Some (v, e) \<Longrightarrow> old = Some (v, e - tc_ttlMs c)"
    and "jm_get (tc_entries (runCacheOp op c)) k = Some (v, e)"
  shows "lastStored k op old = Some (v, e - tc_ttlMs c)"
proof (cases op)
  case (CacheSet now k' v')
  with assms show ?thesis
    by (auto simp: cacheSet_def cacheDelete_def Let_def split: if_splits prod.splits dest!: evictFull_get)
next
  case (CacheGet now k')
  with assms show ?thesis by (auto simp: cacheGet_def cacheDelete_def split: option.splits if_splits)
next
  case (CacheDelete k')
  with assms show ?thesis by (auto simp: cacheDelete_def split: if_splits)
next
  case (CacheDeleteWhere p)
  have "k \<in> set (jm_keys (tc_entries c))" if "jm_get (tc_entries c) k = Some (v, e)"
    using that by (force dest: map_of_SomeD)
  with CacheDeleteWhere assms show ?thesis
    by (auto simp: cacheDeleteWhere_def fold_delete_get split: if_splits)
next
  case CacheClear
  with assms show ?thesis by (simp add: cacheClear_def)
qed

lemma runCache_stored:
  assumes "0 < tc_ttlMs c" and "0 < tc_maxEntries c"
  shows "(\<And>v e. jm_get (tc_entries c) k = Some (v, e) \<Longrightarrow> old = Some (v, e - tc_ttlMs c)) \<Longrightarrow>
    jm_get (tc_entries (fold runCacheOp ops c)) k = Some (v, e) \<Longrightarrow>
    fold (lastStored k) ops old = Some (v, e - tc_ttlMs c)"
  using assms
proof (induction ops arbitrary: c old)
  case (Cons op ops)
  have "jm_get (tc_entries (runCacheOp op c)) k = Some (v, e) \<Longrightarrow>
      lastStored k op old = Some (v, e - tc_ttlMs (runCacheOp op c))" for v e
    using runCacheOp_stored [OF Cons.prems(3,4,1)] by (simp add: runCacheOp_config)
  from Cons.IH [OF this] Cons.prems(2-4) show ?case by (simp add: runCacheOp_config)
qed simp

lemma runCache_serves_fresh:
  fixes k :: "'c list" and v :: 'v
  assumes "0 < ttl" and "0 < n"
    and "fst (cacheGet now k (fold runCacheOp ops (newTtlCache ttl n))) = Some v"
  shows "\<exists>t. fold (lastStored k) ops None = Some (v, t) \<and> now \<le> t + ttl"
proof -
  let ?c = "newTtlCache ttl n :: ('c, 'v) ttlCache"
  from assms(3) obtain e where e: "jm_get (tc_entries (fold runCacheOp ops ?c)) k = Some (v, e)" "now \<le> e"
    by (auto simp: cacheGet_def split: option.splits if_splits)
  have "fold (lastStored k) ops None = Some (v, e - tc_ttlMs ?c)"
    by (rule runCache_stored [OF _ _ _ e(1)]) (use assms in \<open>simp_all add: newTtlCache_def\<close>)
  with e(2) show ?thesis by (simp add: newTtlCache_def)
qed

text \<open>a read never serves a stale value. Whatever was stored, read, deleted and evicted before,
  a value read under a key is the one last stored under it, and at most \<open>ttlMs\<close> old.\<close>

theorem ttl_cache_serves_fresh_values:
  fixes k :: "'c list" and v :: 'v
  assumes "0 < ttl" and "0 < n"
    and "fst (cacheGet now k (fold runCacheOp ops (newTtlCache ttl n))) = Some v"
  shows "\<exists>t. fold (lastStored k) ops None = Some (v, t) \<and> now \<le> t + ttl"
  by (rule runCache_serves_fresh [OF assms])

theorem ttl_cache_serves_fresh_values_witness:
  "\<exists>t. fold (lastStored ''a'') [CacheSet 0 ''a'' True, CacheSet 5 ''a'' False] None = Some (False, t) \<and> 15 \<le> t + 10"
  by (rule ttl_cache_serves_fresh_values [where n = 1]) (simp, simp, code_simp)

end
