(* ===== verification/Radix.thy ===== *)
theory Radix
  imports Base64
begin

text \<open>
  Positional notation: the digits of a number in a base, as \<open>toString(radix)\<close> and the
  repeated division of \<open>src/utils/base58.ts\<close> write them, the value of a digit sequence, and
  the hexadecimal byte strings of \<open>base58.ts\<close> and \<open>src/audit/merkle.ts\<close>.
\<close>

subsection \<open>Digits and values\<close>

function digitsOf :: "nat \<Rightarrow> nat \<Rightarrow> nat list" where
  "digitsOf B n = (if B < 2 \<or> n = 0 then [] else digitsOf B (n div B) @ [n mod B])"
  by pat_completeness auto

termination
  by (relation "measure snd") auto

declare digitsOf.simps [simp del]

definition valueOf :: "nat \<Rightarrow> nat list \<Rightarrow> nat" where
  "valueOf B ds = foldl (\<lambda>v d. v * B + d) 0 ds"

lemma valueOf_Nil [simp]: "valueOf B [] = 0"
  by (simp add: valueOf_def)

lemma valueOf_snoc [simp]: "valueOf B (ds @ [d]) = valueOf B ds * B + d"
  by (simp add: valueOf_def)

lemma digitsOf_0 [simp]: "digitsOf B 0 = []"
  by (simp add: digitsOf.simps)

lemma digitsOf_pos: "2 \<le> B \<Longrightarrow> 0 < n \<Longrightarrow> digitsOf B n = digitsOf B (n div B) @ [n mod B]"
  by (subst digitsOf.simps) simp

lemma valueOf_digitsOf: "2 \<le> B \<Longrightarrow> valueOf B (digitsOf B n) = n"
proof (induction n rule: less_induct)
  case (less n)
  then show ?case by (cases "n = 0") (simp_all add: digitsOf_pos)
qed

lemma digitsOf_less: "2 \<le> B \<Longrightarrow> d \<in> set (digitsOf B n) \<Longrightarrow> d < B"
proof (induction n rule: less_induct)
  case (less n)
  show ?case
  proof (cases "n = 0")
    case False
    then have "n div B < n" using less.prems(1) by simp
    from less.IH [OF this less.prems(1)] show ?thesis using less.prems False by (auto simp: digitsOf_pos)
  qed (use less.prems in simp)
qed

lemma valueOf_leading_zeros: "valueOf B (replicate k 0 @ ds) = valueOf B ds"
  by (induction k) (simp_all add: valueOf_def)

lemma valueOf_eq_0: "2 \<le> B \<Longrightarrow> valueOf B ds = 0 \<longleftrightarrow> (\<forall>d\<in>set ds. d = 0)"
  by (induction ds rule: rev_induct) auto

text \<open>The digits of the value of a sequence are the sequence without its leading zeros.\<close>

lemma digitsOf_valueOf:
  assumes "2 \<le> B" and "\<forall>d\<in>set ds. d < B"
  shows "digitsOf B (valueOf B ds) = dropWhile (\<lambda>d. d = 0) ds"
  using assms(2)
proof (induction ds rule: rev_induct)
  case (snoc d ds)
  then have d: "d < B" and IH: "digitsOf B (valueOf B ds) = dropWhile (\<lambda>d. d = 0) ds" by auto
  show ?case
  proof (cases "valueOf B ds = 0")
    case True
    then have z: "\<forall>d\<in>set ds. d = 0" using valueOf_eq_0 [OF assms(1)] by simp
    then have "dropWhile (\<lambda>d. d = 0) (ds @ [d]) = (if d = 0 then [] else [d])" by (simp add: dropWhile_append2)
    then show ?thesis using True d assms(1) by (simp add: digitsOf_pos)
  next
    case False
    then obtain e where "e \<in> set ds" "e \<noteq> 0" using valueOf_eq_0 [OF assms(1)] by auto
    then have "dropWhile (\<lambda>d. d = 0) (ds @ [d]) = dropWhile (\<lambda>d. d = 0) ds @ [d]" by (rule dropWhile_append1)
    moreover have "(valueOf B ds * B + d) div B = valueOf B ds" "(valueOf B ds * B + d) mod B = d"
      using d assms(1) by simp_all
    moreover have "0 < valueOf B ds * B + d" using False assms(1) by simp
    ultimately show ?thesis using IH assms(1) by (simp add: digitsOf_pos)
  qed
qed simp

definition leadingZeros :: "nat list \<Rightarrow> nat" where
  "leadingZeros ds = length (takeWhile (\<lambda>d. d = 0) ds)"

lemma split_leading_zeros:
  assumes "2 \<le> B" and "\<forall>d\<in>set ds. d < B"
  shows "replicate (leadingZeros ds) 0 @ digitsOf B (valueOf B ds) = ds"
proof -
  have "takeWhile (\<lambda>d. d = 0) ds = replicate (leadingZeros ds) 0"
    by (rule replicate_eqI) (auto simp: leadingZeros_def dest: set_takeWhileD)
  then show ?thesis
    using takeWhile_dropWhile_id [of "\<lambda>d. d = 0" ds] by (simp add: digitsOf_valueOf [OF assms])
qed

lemma digitsOf_no_leading_zero:
  assumes "2 \<le> B"
  shows "leadingZeros (digitsOf B n) = 0"
proof (cases "digitsOf B n")
  case (Cons a ds)
  have "digitsOf B n = dropWhile (\<lambda>d. d = 0) (digitsOf B n)"
    using digitsOf_valueOf [OF assms, of "digitsOf B n"] digitsOf_less [OF assms] valueOf_digitsOf [OF assms] by metis
  then have "hd (digitsOf B n) \<noteq> 0" using hd_dropWhile [of "\<lambda>d. d = 0" "digitsOf B n"] Cons by simp
  then show ?thesis using Cons by (simp add: leadingZeros_def)
qed (simp add: leadingZeros_def)

lemma leadingZeros_prefix: "2 \<le> B \<Longrightarrow> leadingZeros (replicate k 0 @ digitsOf B n) = k"
  using digitsOf_no_leading_zero [of B n] by (induction k) (simp_all add: leadingZeros_def)

subsection \<open>Hexadecimal strings\<close>

definition hexAlphabet :: string where
  "hexAlphabet = ''0123456789abcdef''"

definition hexValue :: "char \<Rightarrow> nat option" where
  "hexValue c = indexOf c hexAlphabet"

fun hexBytes :: "string \<Rightarrow> bytes option" where
  "hexBytes [] = Some []"
| "hexBytes [_] = None"
| "hexBytes (a # b # s) = (case (hexValue a, hexValue b, hexBytes s) of
     (Some x, Some y, Some bs) \<Rightarrow> Some (word_of_nat (16 * x + y) # bs) | _ \<Rightarrow> None)"

lemma hex_digits: "x < 16 \<Longrightarrow> hexValue (hexAlphabet ! x) = Some x"
proof -
  have "list_all (\<lambda>x. hexValue (hexAlphabet ! x) = Some x) [0..<16]" by code_simp
  then show "x < 16 \<Longrightarrow> hexValue (hexAlphabet ! x) = Some x" by (simp add: list_all_iff)
qed

lemma hexValue_inj: "hexValue a = Some x \<Longrightarrow> hexValue b = Some x \<Longrightarrow> a = b"
  unfolding hexValue_def by (metis indexOf_Some)

lemma hexValue_less: "hexValue a = Some x \<Longrightarrow> x < 16"
  unfolding hexValue_def by (drule indexOf_Some) (simp add: hexAlphabet_def)

lemma hex_pair_inj:
  assumes "word_of_nat (16 * x + y) = (word_of_nat (16 * x' + y') :: 8 word)"
    and "x < 16" "y < 16" "x' < 16" "y' < (16 :: nat)"
  shows "x = x' \<and> y = y'"
proof -
  have u: "unat (word_of_nat n :: 8 word) = n" if "n < 256" for n using that by (simp add: unat_of_nat)
  have "16 * x + y < 256" "16 * x' + y' < 256" using assms(2-) by simp_all
  from u [OF this(1)] u [OF this(2)] assms(1) have e: "16 * x + y = 16 * x' + y'" by metis
  show ?thesis using arg_cong [OF e, of "\<lambda>z. z div 16"] arg_cong [OF e, of "\<lambda>z. z mod 16"] assms(2-) by simp
qed

lemma hexBytes_inj: "hexBytes s = Some bs \<Longrightarrow> hexBytes t = Some bs \<Longrightarrow> s = t"
proof (induction s arbitrary: t bs rule: hexBytes.induct)
  case 1
  then show ?case by (cases t rule: hexBytes.cases) (auto split: option.splits)
next
  case (3 a b s)
  from "3.prems"(1) obtain x y cs where s: "hexValue a = Some x" "hexValue b = Some y" "hexBytes s = Some cs"
    "bs = word_of_nat (16 * x + y) # cs" by (auto split: option.splits)
  from "3.prems"(2) s(4) obtain c d t' x' y' where t: "t = c # d # t'" "hexValue c = Some x'" "hexValue d = Some y'"
    "hexBytes t' = Some cs" "word_of_nat (16 * x + y) = (word_of_nat (16 * x' + y') :: 8 word)"
    by (cases t rule: hexBytes.cases) (auto split: option.splits)
  have "x = x' \<and> y = y'" by (rule hex_pair_inj [OF t(5)]) (use s t hexValue_less in blast)+
  then have "a = c" "b = d" using s t hexValue_inj by blast+
  moreover have "s = t'" by (rule "3.IH" [OF s(3) t(4)])
  ultimately show ?case using t(1) by simp
qed simp

lemma hexBytes_length: "hexBytes s = Some bs \<Longrightarrow> length s = 2 * length bs"
  by (induction s arbitrary: bs rule: hexBytes.induct) (auto split: option.splits)


end
