(* ===== verification/Base58.thy ===== *)
theory Base58
  imports Radix
begin

text \<open>
  \<open>src/utils/base58.ts\<close>: base58 with the Bitcoin alphabet. A big integer is a \<^typ>\<open>nat\<close>; the
  hexadecimal text that \<open>base58Decode\<close> goes through is its list of digit values; an exception is a
  constructor of \<open>base58Error\<close>.
\<close>

definition base58Alphabet :: string where
  "base58Alphabet = ''123456789ABCDEFGHJKLMNPQRSTUVWXYZabcdefghijkmnopqrstuvwxyz''"

text \<open>The reverse lookup map.\<close>

definition b58index :: "char \<Rightarrow> nat option" where
  "b58index c = indexOf c base58Alphabet"

subsection \<open>Encoding\<close>

definition bytesToNum :: "bytes \<Rightarrow> nat" where
  "bytesToNum bs = foldl (\<lambda>num b. num * 256 + unat b) 0 bs"

function toBase58 :: "nat \<Rightarrow> string \<Rightarrow> string" where
  "toBase58 num result =
     (if 0 < num then toBase58 (num div 58) (base58Alphabet ! (num mod 58) # result) else result)"
  by pat_completeness auto

termination
  by (relation "measure fst") auto

declare toBase58.simps [simp del]

definition base58Encode :: "bytes \<Rightarrow> string" where
  "base58Encode bs =
     (if bs = [] then ''''
      else replicate (length (takeWhile (\<lambda>b. b = 0) bs)) CHR ''1'' @ toBase58 (bytesToNum bs) '''')"

subsection \<open>Decoding\<close>

definition MAX_BASE58_DECODE_LENGTH :: nat where
  "MAX_BASE58_DECODE_LENGTH = 1024"

datatype base58Error =
    MaxLengthRangeError
  | InputTooLong
  | InvalidCharacter char

fun parseBase58 :: "nat \<Rightarrow> string \<Rightarrow> base58Error + nat" where
  "parseBase58 num [] = Inr num"
| "parseBase58 num (c # s) = (case b58index c of
     None \<Rightarrow> Inl (InvalidCharacter c) | Some v \<Rightarrow> parseBase58 (num * 58 + v) s)"

definition evenHex :: "nat \<Rightarrow> nat list" where
  "evenHex num = (let hex = digitsOf 16 num in if odd (length hex) then 0 # hex else hex)"

fun pairBytes :: "nat list \<Rightarrow> bytes" where
  "pairBytes (a # b # hex) = word_of_nat (16 * a + b) # pairBytes hex"
| "pairBytes _ = []"

definition checkMaxLength :: "string \<Rightarrow> js_number option \<Rightarrow> base58Error option" where
  "checkMaxLength encoded maxLength = (case maxLength of
       None \<Rightarrow> None
     | Some JsNonInteger \<Rightarrow> Some MaxLengthRangeError
     | Some (JsInteger m) \<Rightarrow> if m < 0 then Some MaxLengthRangeError
         else if m < int (length encoded) then Some InputTooLong else None)"

definition base58Decode :: "string \<Rightarrow> js_number option \<Rightarrow> base58Error + bytes" where
  "base58Decode encoded maxLength = (case checkMaxLength encoded maxLength of
       Some e \<Rightarrow> Inl e
     | None \<Rightarrow> if encoded = [] then Inr []
         else (case parseBase58 0 encoded of
             Inl e \<Rightarrow> Inl e
           | Inr num \<Rightarrow> Inr (replicate (length (takeWhile (\<lambda>c. c = CHR ''1'') encoded)) 0 @ pairBytes (evenHex num))))"

definition isValidBase58 :: "string \<Rightarrow> bool" where
  "isValidBase58 encoded \<longleftrightarrow> list_all (\<lambda>c. b58index c \<noteq> None) encoded"

subsection \<open>Digits\<close>

lemma base58Alphabet_distinct: "distinct base58Alphabet"
  by (simp add: base58Alphabet_def)

lemma base58Alphabet_length: "length base58Alphabet = 58"
  by (simp add: base58Alphabet_def)

lemma b58index_char [simp]: "d < 58 \<Longrightarrow> b58index (base58Alphabet ! d) = Some d"
  by (simp add: b58index_def indexOf_nth base58Alphabet_distinct base58Alphabet_length)

lemma b58index_Some: "b58index c = Some d \<Longrightarrow> d < 58 \<and> base58Alphabet ! d = c"
  unfolding b58index_def using indexOf_Some base58Alphabet_length by metis

lemma base58_zero: "base58Alphabet ! 0 = CHR ''1''"
  by (simp add: base58Alphabet_def)

lemma base58_is_zero: "d < 58 \<Longrightarrow> base58Alphabet ! d = CHR ''1'' \<longleftrightarrow> d = 0"
  using base58Alphabet_distinct base58_zero by (metis base58Alphabet_length nth_eq_iff_index_eq zero_less_numeral)

lemma toBase58_digits: "toBase58 num acc = map ((!) base58Alphabet) (digitsOf 58 num) @ acc"
proof (induction num arbitrary: acc rule: less_induct)
  case (less num)
  then show ?case by (subst toBase58.simps) (cases "num = 0", simp_all add: digitsOf_pos)
qed

lemma bytesToNum_value: "bytesToNum bs = valueOf 256 (map unat bs)"
  by (simp add: bytesToNum_def valueOf_def foldl_map)

lemma leadingZeros_bytes: "leadingZeros (map unat bs) = length (takeWhile (\<lambda>b. b = 0) bs)"
  for bs :: bytes
  by (simp add: leadingZeros_def takeWhile_map o_def unsigned_eq_0_iff)

lemma base58Encode_digits:
  "base58Encode bs = map ((!) base58Alphabet)
     (replicate (leadingZeros (map unat bs)) 0 @ digitsOf 58 (valueOf 256 (map unat bs)))"
  by (simp add: base58Encode_def toBase58_digits bytesToNum_value leadingZeros_bytes base58_zero)

lemma parseBase58_digits:
  "\<forall>d\<in>set ds. d < 58 \<Longrightarrow>
    parseBase58 num (map ((!) base58Alphabet) ds) = Inr (foldl (\<lambda>v d. v * 58 + d) num ds)"
  by (induction ds arbitrary: num) auto

lemma parseBase58_Inr:
  "parseBase58 num s = Inr n \<Longrightarrow> \<exists>ds. s = map ((!) base58Alphabet) ds \<and> (\<forall>d\<in>set ds. d < 58)"
proof (induction s arbitrary: num)
  case (Cons c s)
  then obtain d where d: "b58index c = Some d" "parseBase58 (num * 58 + d) s = Inr n" by (auto split: option.splits)
  from Cons.IH [OF d(2)] obtain ds where "s = map ((!) base58Alphabet) ds" "\<forall>e\<in>set ds. e < 58" by blast
  then show ?case using b58index_Some [OF d(1)] by (intro exI [of _ "d # ds"]) auto
qed simp

lemma leading_ones:
  "\<forall>d\<in>set ds. d < 58 \<Longrightarrow> length (takeWhile (\<lambda>c. c = CHR ''1'') (map ((!) base58Alphabet) ds)) = leadingZeros ds"
  by (induction ds) (simp_all add: leadingZeros_def base58_is_zero)

text \<open>The bytes read from the padded hexadecimal digits are the digits in base 256.\<close>

lemma pairBytes_snoc: "even (length hex) \<Longrightarrow> pairBytes (hex @ [a, b]) = pairBytes hex @ [word_of_nat (16 * a + b)]"
  by (induction hex rule: pairBytes.induct) auto

lemma pairBytes_evenHex: "pairBytes (evenHex n) = map word_of_nat (digitsOf 256 n)"
proof (induction n rule: less_induct)
  case (less n)
  consider "n = 0" | "0 < n" "n < 16" | "16 \<le> n" by linarith
  then show ?case
  proof cases
    case 1
    then show ?thesis by (simp add: evenHex_def)
  next
    case 2
    then show ?thesis by (simp add: evenHex_def digitsOf_pos)
  next
    case 3
    have "digitsOf 16 n = digitsOf 16 (n div 256) @ [n div 16 mod 16, n mod 16]"
      using 3 digitsOf_pos [of 16 n] digitsOf_pos [of 16 "n div 16"] by (simp add: div_mult2_eq [symmetric])
    then have "pairBytes (evenHex n) = pairBytes (evenHex (n div 256)) @ [word_of_nat (16 * (n div 16 mod 16) + n mod 16)]"
      using pairBytes_snoc [of "0 # digitsOf 16 (n div 256)"] pairBytes_snoc [of "digitsOf 16 (n div 256)"]
      by (simp add: evenHex_def Let_def)
    moreover have "16 * (n div 16 mod 16) + n mod 16 = n mod 256"
      using mod_mult2_eq [of n 16 16] by simp
    ultimately show ?thesis using 3 less.IH [of "n div 256"] by (simp add: digitsOf_pos)
  qed
qed

lemma decode_digits:
  assumes "\<forall>d\<in>set ds. d < 58"
  shows "base58Decode (map ((!) base58Alphabet) ds) None =
    Inr (map word_of_nat (replicate (leadingZeros ds) 0 @ digitsOf 256 (valueOf 58 ds)))"
  using parseBase58_digits [OF assms, of 0] leading_ones [OF assms]
  by (cases "ds = []") (simp_all add: base58Decode_def checkMaxLength_def pairBytes_evenHex valueOf_def leadingZeros_def)

lemma map_unat_word: "\<forall>d\<in>set ds. d < 256 \<Longrightarrow> map unat (map word_of_nat ds :: bytes) = ds"
  by (induction ds) (simp_all add: unat_of_nat)

lemma unat_byte: "unat (b :: 8 word) < 256"
  using unsigned_less [of b, where ?'a = nat] by simp

lemma base58_inverse: "base58Decode s None = Inr bs \<longleftrightarrow> base58Encode bs = s"
proof
  assume dec: "base58Decode s None = Inr bs"
  then have "\<exists>ds. s = map ((!) base58Alphabet) ds \<and> (\<forall>d\<in>set ds. d < 58)"
    using parseBase58_Inr by (auto simp: base58Decode_def checkMaxLength_def split: if_splits sum.splits)
  then obtain ds where s: "s = map ((!) base58Alphabet) ds" and ds: "\<forall>d\<in>set ds. d < 58" by blast
  let ?bytes = "replicate (leadingZeros ds) 0 @ digitsOf 256 (valueOf 58 ds)"
  have "\<forall>d\<in>set ?bytes. d < 256" using digitsOf_less [of 256] by auto
  moreover have "bs = map word_of_nat ?bytes" using dec decode_digits [OF ds] s by simp
  ultimately have "map unat bs = ?bytes" using map_unat_word by simp
  then have "leadingZeros (map unat bs) = leadingZeros ds" "valueOf 256 (map unat bs) = valueOf 58 ds"
    by (simp_all add: leadingZeros_prefix valueOf_leading_zeros valueOf_digitsOf)
  then show "base58Encode bs = s"
    using split_leading_zeros [of 58 ds] ds s by (simp add: base58Encode_digits del: map_append)
next
  assume enc: "base58Encode bs = s"
  let ?ds = "replicate (leadingZeros (map unat bs)) 0 @ digitsOf 58 (valueOf 256 (map unat bs))"
  have ds: "\<forall>d\<in>set ?ds. d < 58" using digitsOf_less [of 58] by auto
  have "map word_of_nat (map unat bs) = bs" by (simp add: map_idI)
  moreover have "replicate (leadingZeros (map unat bs)) 0 @ digitsOf 256 (valueOf 256 (map unat bs)) = map unat bs"
    by (rule split_leading_zeros) (auto simp: unat_byte)
  moreover have "leadingZeros ?ds = leadingZeros (map unat bs)" "valueOf 58 ?ds = valueOf 256 (map unat bs)"
    by (simp_all add: leadingZeros_prefix valueOf_leading_zeros valueOf_digitsOf)
  ultimately show "base58Decode s None = Inr bs"
    using decode_digits [OF ds] enc by (simp only: base58Encode_digits)
qed

text \<open>Base58 is a bijection between byte arrays and the strings over its alphabet: decoding
  (without a length bound) a string gives a byte array exactly when encoding that array gives the
  string. So every array decodes from its encoding, leading zero bytes included, and no two strings
  decode to the same array.\<close>

theorem base58_decode_iff_encode: "base58Decode s None = Inr bs \<longleftrightarrow> base58Encode bs = s"
  by (rule base58_inverse)

text \<open>A bound refuses longer inputs before any decoding, and changes no other answer.\<close>

lemma base58Decode_bounded:
  "base58Decode s (Some (JsInteger (int m))) = (if m < length s then Inl InputTooLong else base58Decode s None)"
  by (simp add: base58Decode_def checkMaxLength_def)

lemma parseBase58_invalid: "\<not> isValidBase58 s \<Longrightarrow> \<exists>c. c \<in> set s \<and> parseBase58 num s = Inl (InvalidCharacter c)"
  by (induction s arbitrary: num) (auto simp: isValidBase58_def split: option.splits)

lemma decode_rejects_invalid:
  assumes "\<not> isValidBase58 s"
  shows "\<exists>c. c \<in> set s \<and> base58Decode s None = Inl (InvalidCharacter c)"
proof -
  have "s \<noteq> []" using assms by (auto simp: isValidBase58_def)
  then show ?thesis using parseBase58_invalid [OF assms, of 0] by (auto simp: base58Decode_def checkMaxLength_def)
qed

end
