(* ===== verification/Source_State.thy ===== *)
theory Source_State
  imports Kya_Prelude
begin

text \<open>
  \<open>src/audit/providers/source-state.ts\<close>: the in-memory watermark state of the audit event
  sources, \<open>MemoryAuditSourceState\<close>. A \<open>bigint\<close> is an \<^typ>\<open>int\<close>, a digest a \<^typ>\<open>string\<close>; the
  decimal texts of the interface are the numbers they denote. The second half states the
  invariant of a source against the log of what its operations returned.
\<close>

subsection \<open>State\<close>

record sourceClaim =
  sc_sequence :: int
  sc_previous :: "string option"
  sc_digest :: "string option"

record sourceState =
  ss_next :: int
  ss_pending :: "(int, string) jsmap"
  ss_claims :: "(string, sourceClaim) jsmap"
  ss_retained :: "string list"
  ss_latest :: "string option"

type_synonym sourceStates = "string \<Rightarrow> sourceState option"

datatype sourceError = UnknownClaim | SourceEventConflict string | UnknownSequence

definition DEFAULT_REDELIVERY_WINDOW :: nat where
  "DEFAULT_REDELIVERY_WINDOW = 1024"

text \<open>The constructor's check of the redelivery window.\<close>

definition checkWindow :: "js_number option \<Rightarrow> nat option" where
  "checkWindow redeliveryWindow = (case redeliveryWindow of
       None \<Rightarrow> Some DEFAULT_REDELIVERY_WINDOW
     | Some JsNonInteger \<Rightarrow> None
     | Some (JsInteger w) \<Rightarrow> if w < 0 \<or> int MAX_SAFE_INTEGER < w then None else Some (nat w))"

definition emptySource :: sourceState where
  "emptySource = \<lparr>ss_next = 0, ss_pending = [], ss_claims = [], ss_retained = [], ss_latest = None\<rparr>"

text \<open>\<open>state\<close>: the state of a source, created on first use.\<close>

definition sourceOf :: "sourceStates \<Rightarrow> string \<Rightarrow> sourceState" where
  "sourceOf p src = (case p src of Some s \<Rightarrow> s | None \<Rightarrow> emptySource)"

definition publicClaim :: "sourceClaim \<Rightarrow> int \<times> string option" where
  "publicClaim c = (sc_sequence c, sc_previous c)"

subsection \<open>Operations of one source\<close>

definition claimInSource :: "string \<Rightarrow> sourceState \<Rightarrow> (int \<times> string option) \<times> sourceState" where
  "claimInSource ev s = (case jm_get (ss_claims s) ev of
       Some existing \<Rightarrow>
         (publicClaim existing,
          if ev \<in> set (ss_retained s) then s\<lparr>ss_retained := removeAll ev (ss_retained s) @ [ev]\<rparr> else s)
     | None \<Rightarrow>
         (let n = ss_next s + 1;
              c = \<lparr>sc_sequence = n, sc_previous = ss_latest s, sc_digest = None\<rparr>
          in (publicClaim c,
              s\<lparr>ss_next := n, ss_latest := None, ss_claims := jm_set ev c (ss_claims s),
                ss_pending := jm_set n ev (ss_pending s)\<rparr>)))"

definition abandonInSource :: "string \<Rightarrow> int \<Rightarrow> sourceState \<Rightarrow> sourceState" where
  "abandonInSource ev q s = (case jm_get (ss_claims s) ev of
       None \<Rightarrow> s
     | Some c \<Rightarrow>
         if sc_sequence c \<noteq> q \<or> sc_digest c \<noteq> None \<or> sc_sequence c \<noteq> ss_next s then s
         else s\<lparr>ss_claims := jm_delete ev (ss_claims s), ss_pending := jm_delete (sc_sequence c) (ss_pending s),
                ss_next := ss_next s - 1, ss_latest := sc_previous c\<rparr>)"

definition emitInSource :: "string \<Rightarrow> int \<Rightarrow> string \<Rightarrow> sourceState \<Rightarrow> (sourceError + unit) \<times> sourceState" where
  "emitInSource ev q d s = (case jm_get (ss_claims s) ev of
       None \<Rightarrow> (Inl UnknownClaim, s)
     | Some c \<Rightarrow>
         if sc_sequence c \<noteq> q then (Inl UnknownClaim, s)
         else if sc_digest c \<noteq> None \<and> sc_digest c \<noteq> Some d then (Inl (SourceEventConflict ev), s)
         else (Inr (), s\<lparr>ss_claims := jm_set ev (c\<lparr>sc_digest := Some d\<rparr>) (ss_claims s),
                ss_latest := (if q = ss_next s then Some d else ss_latest s)\<rparr>))"

fun trimRetained :: "nat \<Rightarrow> string list \<Rightarrow> (string, sourceClaim) jsmap \<Rightarrow> string list \<times> (string, sourceClaim) jsmap" where
  "trimRetained w [] claims = ([], claims)"
| "trimRetained w (oldest # retained) claims =
     (if length (oldest # retained) \<le> w then (oldest # retained, claims)
      else trimRetained w retained (jm_delete oldest claims))"

definition receiptInSource :: "nat \<Rightarrow> int \<Rightarrow> sourceState \<Rightarrow> (sourceError + unit) \<times> sourceState" where
  "receiptInSource w q s =
     (if q < 1 \<or> ss_next s < q then (Inl UnknownSequence, s)
      else (case jm_get (ss_pending s) q of
          None \<Rightarrow> (Inr (), s)
        | Some ev \<Rightarrow>
            (case trimRetained w (js_add ev (ss_retained s)) (ss_claims s) of (retained, claims) \<Rightarrow>
              (Inr (), s\<lparr>ss_pending := jm_delete q (ss_pending s), ss_retained := retained, ss_claims := claims\<rparr>))))"

subsection \<open>Operations of the provider\<close>

definition claimEvent :: "string \<Rightarrow> string \<Rightarrow> sourceStates \<Rightarrow> (int \<times> string option) \<times> sourceStates" where
  "claimEvent src ev p = (case claimInSource ev (sourceOf p src) of (r, s) \<Rightarrow> (r, p(src \<mapsto> s)))"

definition abandonClaim :: "string \<Rightarrow> string \<Rightarrow> int \<Rightarrow> sourceStates \<Rightarrow> sourceStates" where
  "abandonClaim src ev q p = p(src \<mapsto> abandonInSource ev q (sourceOf p src))"

definition markEmitted ::
  "string \<Rightarrow> string \<Rightarrow> int \<Rightarrow> string \<Rightarrow> sourceStates \<Rightarrow> (sourceError + unit) \<times> sourceStates" where
  "markEmitted src ev q d p = (case emitInSource ev q d (sourceOf p src) of (r, s) \<Rightarrow> (r, p(src \<mapsto> s)))"

definition markReceipted :: "nat \<Rightarrow> string \<Rightarrow> int \<Rightarrow> sourceStates \<Rightarrow> (sourceError + unit) \<times> sourceStates" where
  "markReceipted w src q p = (case receiptInSource w q (sourceOf p src) of (r, s) \<Rightarrow> (r, p(src \<mapsto> s)))"

record auditSourceState =
  as_highestEmitted :: int
  as_highestReceipted :: int
  as_pendingSequences :: "int list"

definition getState :: "string \<Rightarrow> sourceStates \<Rightarrow> auditSourceState \<times> sourceStates" where
  "getState src p = (let s = sourceOf p src; pending = jm_keys (ss_pending s)
     in (\<lparr>as_highestEmitted = ss_next s,
          as_highestReceipted = (case pending of [] \<Rightarrow> ss_next s | q # _ \<Rightarrow> q - 1),
          as_pendingSequences = pending\<rparr>, p(src \<mapsto> s)))"

subsection \<open>Runs and their log\<close>

text \<open>The calls made on a provider and what they report: a successful call adds an entry, a call
  that throws adds none.\<close>

datatype sourceCall =
    CallClaim string
  | CallAbandon string int
  | CallEmit string int string
  | CallReceipt int

datatype sourceEvent =
    Claimed string int "string option"
  | Emitted string int string
  | Receipted int

fun callSource :: "nat \<Rightarrow> string \<times> sourceCall \<Rightarrow> sourceStates \<Rightarrow> (string \<times> sourceEvent) list \<times> sourceStates" where
  "callSource w (src, CallClaim ev) p =
     (case claimEvent src ev p of ((q, prev), p') \<Rightarrow> ([(src, Claimed ev q prev)], p'))"
| "callSource w (src, CallAbandon ev q) p = ([], abandonClaim src ev q p)"
| "callSource w (src, CallEmit ev q d) p =
     (case markEmitted src ev q d p of (Inr _, p') \<Rightarrow> ([(src, Emitted ev q d)], p') | (Inl _, p') \<Rightarrow> ([], p'))"
| "callSource w (src, CallReceipt q) p =
     (case markReceipted w src q p of (Inr _, p') \<Rightarrow> ([(src, Receipted q)], p') | (Inl _, p') \<Rightarrow> ([], p'))"

fun runSources ::
  "nat \<Rightarrow> (string \<times> sourceCall) list \<Rightarrow> (string \<times> sourceEvent) list \<times> sourceStates \<Rightarrow> (string \<times> sourceEvent) list \<times> sourceStates" where
  "runSources w [] (L, p) = (L, p)"
| "runSources w (c # cs) (L, p) = (case callSource w c p of (es, p') \<Rightarrow> runSources w cs (L @ es, p'))"

subsection \<open>The invariant of a source\<close>

text \<open>Sequences: the pending ones ascend, claims and pending sequences lie between 1 and \<open>next\<close>,
  no two claims share one, and a claimed event is pending or retained.\<close>

definition pendingAscends :: "sourceState \<Rightarrow> bool" where
  "pendingAscends s \<longleftrightarrow> 0 \<le> ss_next s \<and> sorted_wrt (<) (jm_keys (ss_pending s)) \<and>
     (\<forall>q\<in>set (jm_keys (ss_pending s)). 1 \<le> q \<and> q \<le> ss_next s)"

definition claimsNumbered :: "sourceState \<Rightarrow> bool" where
  "claimsNumbered s \<longleftrightarrow>
     (\<forall>ev c. jm_get (ss_claims s) ev = Some c \<longrightarrow> 1 \<le> sc_sequence c \<and> sc_sequence c \<le> ss_next s) \<and>
     (\<forall>ev c ev' c'. jm_get (ss_claims s) ev = Some c \<and> jm_get (ss_claims s) ev' = Some c' \<and>
        sc_sequence c = sc_sequence c' \<longrightarrow> ev = ev')"

definition claimsCovered :: "nat \<Rightarrow> sourceState \<Rightarrow> bool" where
  "claimsCovered w s \<longleftrightarrow>
     (\<forall>q ev' ev c. jm_get (ss_pending s) q = Some ev' \<and> jm_get (ss_claims s) ev = Some c \<and> sc_sequence c = q \<longrightarrow> ev = ev') \<and>
     (\<forall>ev c. jm_get (ss_claims s) ev = Some c \<longrightarrow>
        (\<exists>q. jm_get (ss_pending s) q = Some ev) \<or> ev \<in> set (ss_retained s)) \<and>
     distinct (ss_retained s) \<and> length (ss_retained s) \<le> w"

definition sourceNumbers :: "nat \<Rightarrow> sourceState \<Rightarrow> bool" where
  "sourceNumbers w s \<longleftrightarrow> pendingAscends s \<and> claimsNumbered s \<and> claimsCovered w s"

text \<open>Against the log: what was emitted, linked and receipted.\<close>

definition emissionsKept :: "sourceState \<Rightarrow> sourceEvent set \<Rightarrow> bool" where
  "emissionsKept s E \<longleftrightarrow>
     (\<forall>ev q d. Emitted ev q d \<in> E \<longrightarrow> 1 \<le> q \<and> q \<le> ss_next s) \<and>
     (\<forall>ev q d ev' c. Emitted ev q d \<in> E \<and> jm_get (ss_claims s) ev' = Some c \<and> sc_sequence c = q \<longrightarrow>
        ev' = ev \<and> sc_digest c = Some d) \<and>
     (\<forall>ev c d. jm_get (ss_claims s) ev = Some c \<and> sc_digest c = Some d \<longrightarrow> Emitted ev (sc_sequence c) d \<in> E)"

definition emissionsUnique :: "sourceEvent set \<Rightarrow> bool" where
  "emissionsUnique E \<longleftrightarrow> (\<forall>ev q d ev' d'. Emitted ev q d \<in> E \<and> Emitted ev' q d' \<in> E \<longrightarrow> ev = ev' \<and> d = d')"

definition linksEmitted :: "sourceState \<Rightarrow> sourceEvent set \<Rightarrow> bool" where
  "linksEmitted s E \<longleftrightarrow>
     (\<forall>d. ss_latest s = Some d \<longrightarrow> (\<exists>ev. Emitted ev (ss_next s) d \<in> E)) \<and>
     (\<forall>ev c d. jm_get (ss_claims s) ev = Some c \<and> sc_previous c = Some d \<longrightarrow>
        (\<exists>ev'. Emitted ev' (sc_sequence c - 1) d \<in> E)) \<and>
     (\<forall>ev q d. Claimed ev q (Some d) \<in> E \<longrightarrow> (\<exists>ev'. Emitted ev' (q - 1) d \<in> E))"

definition gapsPending :: "sourceState \<Rightarrow> sourceEvent set \<Rightarrow> bool" where
  "gapsPending s E \<longleftrightarrow>
     (\<forall>q. 1 \<le> q \<and> q \<le> ss_next s \<longrightarrow> q \<in> set (jm_keys (ss_pending s)) \<or> Receipted q \<in> E)"

definition sourceLogged :: "sourceState \<Rightarrow> sourceEvent set \<Rightarrow> bool" where
  "sourceLogged s E \<longleftrightarrow> emissionsKept s E \<and> emissionsUnique E \<and> linksEmitted s E \<and> gapsPending s E"

lemmas source_inv_defs = sourceNumbers_def pendingAscends_def claimsNumbered_def claimsCovered_def
  sourceLogged_def emissionsKept_def emissionsUnique_def linksEmitted_def gapsPending_def

lemma numbers_empty: "sourceNumbers w emptySource"
  by (simp add: source_inv_defs emptySource_def)

lemma logged_empty: "sourceLogged emptySource {}"
  by (simp add: source_inv_defs emptySource_def)

lemma update_new_key: "k \<notin> set (jm_keys m) \<Longrightarrow> jm_set k v m = m @ [(k, v)]"
  by (induction m) auto

lemma fresh_key: "pendingAscends s \<Longrightarrow> ss_next s < q \<Longrightarrow> q \<notin> set (jm_keys (ss_pending s))"
  unfolding pendingAscends_def by (metis leD)

lemma pending_get_fresh: "pendingAscends s \<Longrightarrow> ss_next s < q \<Longrightarrow> jm_get (ss_pending s) q = None"
  using fresh_key [of s q] by (simp add: map_of_eq_None_iff)

lemma claim_le: "claimsNumbered s \<Longrightarrow> jm_get (ss_claims s) ev = Some c \<Longrightarrow> sc_sequence c \<le> ss_next s"
  unfolding claimsNumbered_def by blast

lemma emitted_le: "emissionsKept s E \<Longrightarrow> Emitted ev q d \<in> E \<Longrightarrow> q \<le> ss_next s"
  unfolding emissionsKept_def by blast

subsubsection \<open>Claiming\<close>

lemma claim_fresh:
  assumes "jm_get (ss_claims s) ev = None"
  shows "claimInSource ev s = ((ss_next s + 1, ss_latest s),
    s\<lparr>ss_next := ss_next s + 1, ss_latest := None,
      ss_claims := jm_set ev \<lparr>sc_sequence = ss_next s + 1, sc_previous = ss_latest s, sc_digest = None\<rparr> (ss_claims s),
      ss_pending := jm_set (ss_next s + 1) ev (ss_pending s)\<rparr>)"
  using assms by (simp add: claimInSource_def publicClaim_def Let_def)

lemma claim_again:
  assumes "jm_get (ss_claims s) ev = Some c"
  shows "claimInSource ev s = (publicClaim c,
    if ev \<in> set (ss_retained s) then s\<lparr>ss_retained := removeAll ev (ss_retained s) @ [ev]\<rparr> else s)"
  using assms by (simp add: claimInSource_def)

lemma claim_numbers:
  assumes "sourceNumbers w s"
  shows "sourceNumbers w (snd (claimInSource ev s))"
proof -
  have asc: "pendingAscends s" and num: "claimsNumbered s" and cov: "claimsCovered w s"
    using assms by (auto simp: sourceNumbers_def)
  show ?thesis
  proof (cases "jm_get (ss_claims s) ev")
    case (Some c)
    have "ev \<in> set (ss_retained s) \<Longrightarrow> length (removeAll ev (ss_retained s) @ [ev]) \<le> w"
      using cov length_pos_if_in_set [of ev "ss_retained s"]
      by (simp add: claimsCovered_def distinct_remove1_removeAll [symmetric] length_remove1)
    then show ?thesis using asc num cov
      by (auto simp: claim_again [OF Some] sourceNumbers_def pendingAscends_def claimsNumbered_def claimsCovered_def
          distinct_removeAll)
  next
    case None
    let ?s = "snd (claimInSource ev s)"
    note new = fresh_key [OF asc, of "ss_next s + 1"] and none = pending_get_fresh [OF asc, of "ss_next s + 1"]
    note le = claim_le [OF num]
    have keys: "jm_keys (ss_pending ?s) = jm_keys (ss_pending s) @ [ss_next s + 1]"
      using new by (simp add: claim_fresh [OF None] update_new_key del: set_map)
    have "pendingAscends ?s"
      using asc unfolding pendingAscends_def keys by (auto simp: claim_fresh [OF None] sorted_wrt_append simp del: set_map)
    moreover have "claimsNumbered ?s"
      unfolding claimsNumbered_def
    proof (intro conjI allI impI; (elim conjE)?)
      fix e c e' c'
      assume "jm_get (ss_claims ?s) e = Some c" "jm_get (ss_claims ?s) e' = Some c'" "sc_sequence c = sc_sequence c'"
      moreover have "sc_sequence c \<noteq> ss_next s + 1" if "jm_get (ss_claims s) e = Some c" for e c using le [OF that] by simp
      ultimately show "e = e'" using num unfolding claimsNumbered_def
        by (fastforce simp: claim_fresh [OF None] split: if_splits)
    next
      fix e c
      assume a: "jm_get (ss_claims ?s) e = Some c"
      have "0 \<le> ss_next s" using asc by (simp add: pendingAscends_def)
      moreover have "1 \<le> sc_sequence c \<and> sc_sequence c \<le> ss_next s" if "jm_get (ss_claims s) e = Some c"
        using num that unfolding claimsNumbered_def by blast
      ultimately show "1 \<le> sc_sequence c" "sc_sequence c \<le> ss_next ?s"
        using a by (force simp: claim_fresh [OF None] split: if_splits)+
    qed
    moreover have "claimsCovered w ?s"
      unfolding claimsCovered_def
    proof (intro conjI allI impI; (elim conjE)?)
      fix q e' e c
      assume "jm_get (ss_pending ?s) q = Some e'" "jm_get (ss_claims ?s) e = Some c" "sc_sequence c = q"
      then show "e = e'" using cov le [of e c] unfolding claimsCovered_def
        by (auto simp: claim_fresh [OF None] split: if_splits)
    next
      fix e c
      assume "jm_get (ss_claims ?s) e = Some c"
      then have "e = ev \<or> jm_get (ss_claims s) e = Some c" by (auto simp: claim_fresh [OF None] split: if_splits)
      then consider "e = ev" | r where "jm_get (ss_pending s) r = Some e" | "e \<in> set (ss_retained s)"
        using cov unfolding claimsCovered_def by blast
      then show "(\<exists>q. jm_get (ss_pending ?s) q = Some e) \<or> e \<in> set (ss_retained ?s)"
      proof cases
        case (2 r)
        then have "r \<noteq> ss_next s + 1" using none by auto
        then show ?thesis using 2 by (auto simp: claim_fresh [OF None] intro!: exI [of _ r])
      qed (auto simp: claim_fresh [OF None] intro: exI [of _ "ss_next s + 1"])
    qed (use cov in \<open>auto simp: claimsCovered_def claim_fresh [OF None]\<close>)
    ultimately show ?thesis by (simp add: sourceNumbers_def)
  qed
qed

lemma claim_logged:
  assumes "sourceNumbers w s" and "sourceLogged s E" and "claimInSource ev s = ((q, prev), s')"
  shows "sourceLogged s' (insert (Claimed ev q prev) E)"
proof -
  have kept: "emissionsKept s E" and uniq: "emissionsUnique E" and link: "linksEmitted s E" and gap: "gapsPending s E"
    using assms(2) by (auto simp: sourceLogged_def)
  have asc: "pendingAscends s" using assms(1) by (simp add: sourceNumbers_def)
  show ?thesis
  proof (cases "jm_get (ss_claims s) ev")
    case (Some c)
    then have "q = sc_sequence c" "prev = sc_previous c" "ss_next s' = ss_next s" "ss_claims s' = ss_claims s"
      "ss_pending s' = ss_pending s" "ss_latest s' = ss_latest s"
      using assms(3) by (auto simp: claim_again publicClaim_def)
    note eqs = this
    have "emissionsKept s' (insert (Claimed ev q prev) E)" 
      using kept unfolding emissionsKept_def eqs by (simp only: insert_iff sourceEvent.distinct simp_thms)
    moreover have "emissionsUnique (insert (Claimed ev q prev) E)" 
      using uniq unfolding emissionsUnique_def by (simp only: insert_iff sourceEvent.distinct simp_thms)
    moreover have "linksEmitted s' (insert (Claimed ev q prev) E)"
      using link Some unfolding linksEmitted_def eqs by (simp only: insert_iff sourceEvent.distinct sourceEvent.inject simp_thms)
        (elim conjE, intro conjI; metis)
    moreover have "gapsPending s' (insert (Claimed ev q prev) E)" 
      using gap unfolding gapsPending_def eqs by (simp only: insert_iff sourceEvent.distinct simp_thms)
    ultimately show ?thesis by (simp add: sourceLogged_def)
  next
    case None
    note fresh = claim_fresh [OF None]
    have s': "q = ss_next s + 1" "prev = ss_latest s" "ss_next s' = ss_next s + 1" "ss_latest s' = None"
      "ss_claims s' = jm_set ev \<lparr>sc_sequence = ss_next s + 1, sc_previous = ss_latest s, sc_digest = None\<rparr> (ss_claims s)"
      "ss_pending s' = jm_set (ss_next s + 1) ev (ss_pending s)"
      using assms(3) by (auto simp: fresh)
    have keys: "jm_keys (ss_pending s') = jm_keys (ss_pending s) @ [ss_next s + 1]"
      using s' fresh_key [OF asc, of "ss_next s + 1"] by (simp add: update_new_key del: set_map)
    have claims: "jm_get (ss_claims s') e = Some c \<Longrightarrow>
        e = ev \<and> c = \<lparr>sc_sequence = ss_next s + 1, sc_previous = ss_latest s, sc_digest = None\<rparr> \<or>
        e \<noteq> ev \<and> jm_get (ss_claims s) e = Some c" for e c
      using s'(5) by (auto split: if_splits)
    have "emissionsKept s' (insert (Claimed ev q prev) E)"
      unfolding emissionsKept_def
    proof (intro conjI allI impI; (elim conjE)?)
      fix e r d e' c
      assume a: "Emitted e r d \<in> insert (Claimed ev q prev) E" "jm_get (ss_claims s') e' = Some c" "sc_sequence c = r"
      have em: "Emitted e r d \<in> E" using a(1) by simp
      have "jm_get (ss_claims s) e' = Some c" using claims [OF a(2)] emitted_le [OF kept em] a(3) by auto
      then show "e' = e" "sc_digest c = Some d" using kept em a(3) unfolding emissionsKept_def by blast+
    next
      fix e c d
      assume a: "jm_get (ss_claims s') e = Some c" "sc_digest c = Some d"
      then have "jm_get (ss_claims s) e = Some c" using claims [OF a(1)] by auto
      then show "Emitted e (sc_sequence c) d \<in> insert (Claimed ev q prev) E"
        using kept a(2) unfolding emissionsKept_def by blast
    qed (use kept s'(3) in \<open>fastforce simp: emissionsKept_def\<close>)+
    moreover have "emissionsUnique (insert (Claimed ev q prev) E)" using uniq by (auto simp: emissionsUnique_def)
    moreover have "linksEmitted s' (insert (Claimed ev q prev) E)"
      unfolding linksEmitted_def
    proof (intro conjI allI impI; (elim conjE)?)
      fix e c d
      assume a: "jm_get (ss_claims s') e = Some c" "sc_previous c = Some d"
      then show "\<exists>e'. Emitted e' (sc_sequence c - 1) d \<in> insert (Claimed ev q prev) E"
        using claims [OF a(1)] link unfolding linksEmitted_def by auto
    qed (use link s' in \<open>auto simp: linksEmitted_def\<close>)
    moreover have "gapsPending s' (insert (Claimed ev q prev) E)"
      using gap s'(3) unfolding gapsPending_def keys by (auto simp del: set_map)
    ultimately show ?thesis by (simp add: sourceLogged_def)
  qed
qed

subsubsection \<open>Abandoning\<close>

lemma abandon_cases:
  obtains (kept) "abandonInSource ev q s = s"
  | (dropped) c where "jm_get (ss_claims s) ev = Some c" "sc_digest c = None" "sc_sequence c = ss_next s"
    "abandonInSource ev q s = s\<lparr>ss_claims := jm_delete ev (ss_claims s), ss_pending := jm_delete (ss_next s) (ss_pending s),
       ss_next := ss_next s - 1, ss_latest := sc_previous c\<rparr>"
proof (cases "jm_get (ss_claims s) ev")
  case None
  then show thesis using kept by (simp add: abandonInSource_def)
next
  case (Some c)
  show thesis
  proof (cases "sc_sequence c \<noteq> q \<or> sc_digest c \<noteq> None \<or> sc_sequence c \<noteq> ss_next s")
    case True
    then show thesis using kept Some by (auto simp: abandonInSource_def)
  next
    case False
    then show thesis using dropped [OF Some] Some by (simp add: abandonInSource_def)
  qed
qed

lemma keys_delete: "jm_keys (jm_delete k m) = removeAll k (jm_keys m)"
  by (induction m) auto

lemma sorted_removeAll: "sorted_wrt R xs \<Longrightarrow> sorted_wrt R (removeAll x xs)"
  by (induction xs) auto

lemma abandon_inv:
  assumes "sourceNumbers w s" and "sourceLogged s E"
  shows "sourceNumbers w (abandonInSource ev q s) \<and> sourceLogged (abandonInSource ev q s) E"
proof (cases rule: abandon_cases [of ev q s])
  case kept
  then show ?thesis using assms by simp
next
  case (dropped c)
  let ?s = "abandonInSource ev q s"
  have asc: "pendingAscends s" and num: "claimsNumbered s" and cov: "claimsCovered w s"
    and kept: "emissionsKept s E" and link: "linksEmitted s E" and gap: "gapsPending s E"
    using assms by (auto simp: sourceNumbers_def sourceLogged_def)
  have claims: "jm_get (ss_claims ?s) e = Some c' \<longleftrightarrow> e \<noteq> ev \<and> jm_get (ss_claims s) e = Some c'" for e c'
    by (simp add: dropped(4))
  have pending: "jm_get (ss_pending ?s) r = Some e \<longleftrightarrow> r \<noteq> ss_next s \<and> jm_get (ss_pending s) r = Some e" for r e
    by (simp add: dropped(4))
  have other: "sc_sequence c' \<le> ss_next s - 1" if "e \<noteq> ev" "jm_get (ss_claims s) e = Some c'" for e c'
  proof -
    have "sc_sequence c' \<noteq> ss_next s" using num that dropped(1,3) unfolding claimsNumbered_def by metis
    then show ?thesis using claim_le [OF num that(2)] by simp
  qed
  have emitted: "r \<le> ss_next s - 1" if "Emitted e r d \<in> E" for e r d
  proof -
    have "r \<noteq> ss_next s" using kept that dropped(1-3) unfolding emissionsKept_def by (metis option.distinct(1))
    then show ?thesis using emitted_le [OF kept that] by simp
  qed
  have next_pos: "1 \<le> ss_next s" using num dropped(1,3) unfolding claimsNumbered_def by metis
  have nxt: "ss_next ?s = ss_next s - 1" by (simp add: dropped(4))
  have keys: "jm_keys (ss_pending ?s) = removeAll (ss_next s) (jm_keys (ss_pending s))"
    by (simp add: dropped(4) keys_delete)
  have "pendingAscends ?s" unfolding pendingAscends_def keys nxt
    using asc next_pos sorted_removeAll by (fastforce simp: pendingAscends_def simp del: set_map)
  moreover have "claimsNumbered ?s" unfolding claimsNumbered_def claims nxt
    using num other unfolding claimsNumbered_def by blast
  moreover have "claimsCovered w ?s"
    unfolding claimsCovered_def claims pending
  proof (intro conjI allI impI; (elim conjE)?)
    fix e c'
    assume a: "e \<noteq> ev" "jm_get (ss_claims s) e = Some c'"
    then consider r where "jm_get (ss_pending s) r = Some e" | "e \<in> set (ss_retained s)"
      using cov unfolding claimsCovered_def by blast
    then show "(\<exists>r. r \<noteq> ss_next s \<and> jm_get (ss_pending s) r = Some e) \<or> e \<in> set (ss_retained ?s)"
    proof cases
      case (1 r)
      then have "r \<noteq> ss_next s" using cov a(1) dropped(1,3) unfolding claimsCovered_def by metis
      then show ?thesis using 1 by blast
    qed (simp add: dropped(4))
  qed (use cov in \<open>auto simp: claimsCovered_def dropped(4)\<close>)
  moreover have "emissionsKept ?s E" unfolding emissionsKept_def claims nxt
    using kept emitted unfolding emissionsKept_def by blast
  moreover have "linksEmitted ?s E"
  proof -
    have "\<exists>e. Emitted e (ss_next s - 1) d \<in> E" if "sc_previous c = Some d" for d
      using link that dropped(1,3) unfolding linksEmitted_def by metis
    moreover have "ss_latest ?s = sc_previous c" by (simp add: dropped(4))
    ultimately show ?thesis unfolding linksEmitted_def claims nxt using link unfolding linksEmitted_def by metis
  qed
  moreover have "gapsPending ?s E" unfolding gapsPending_def keys nxt
    using gap by (auto simp: gapsPending_def simp del: set_map)
  ultimately show ?thesis using assms(2) by (simp add: sourceNumbers_def sourceLogged_def)
qed

subsubsection \<open>Emitting and receipting\<close>

lemma emit_inv:
  assumes "sourceNumbers w s" and "sourceLogged s E" and "emitInSource ev q d s = (r, s')"
  shows "sourceNumbers w s' \<and> sourceLogged s' (case r of Inl _ \<Rightarrow> E | Inr _ \<Rightarrow> insert (Emitted ev q d) E)"
proof (cases r)
  case (Inl e)
  then have "s' = s" using assms(3) by (auto simp: emitInSource_def split: option.splits if_splits)
  then show ?thesis using assms Inl by simp
next
  case (Inr u)
  then obtain c where c: "jm_get (ss_claims s) ev = Some c" "sc_sequence c = q" "sc_digest c = None \<or> sc_digest c = Some d"
    and s': "s' = s\<lparr>ss_claims := jm_set ev (c\<lparr>sc_digest := Some d\<rparr>) (ss_claims s),
      ss_latest := (if q = ss_next s then Some d else ss_latest s)\<rparr>"
    using assms(3) by (auto simp: emitInSource_def split: option.splits if_splits)
  have asc: "pendingAscends s" and num: "claimsNumbered s" and cov: "claimsCovered w s"
    and kept: "emissionsKept s E" and uniq: "emissionsUnique E" and link: "linksEmitted s E" and gap: "gapsPending s E"
    using assms by (auto simp: sourceNumbers_def sourceLogged_def)
  have claims: "\<exists>c0. jm_get (ss_claims s) e = Some c0 \<and> sc_sequence c0 = sc_sequence c' \<and> sc_previous c0 = sc_previous c' \<and>
      (e \<noteq> ev \<and> c' = c0 \<or> e = ev \<and> c0 = c \<and> sc_digest c' = Some d)" if "jm_get (ss_claims s') e = Some c'" for e c'
    using that c(1) by (cases "e = ev") (auto simp: s')
  have others: "jm_get (ss_claims s) e = Some c' \<Longrightarrow> sc_sequence c' = q \<Longrightarrow> e = ev" for e c'
    using num c(1,2) unfolding claimsNumbered_def by blast
  have q: "1 \<le> q" "q \<le> ss_next s" using num c(1,2) unfolding claimsNumbered_def by blast+
  have same: "ss_pending s' = ss_pending s" "ss_next s' = ss_next s" "ss_retained s' = ss_retained s" by (simp_all add: s')
  have old: "e = ev \<and> d' = d" if "Emitted e q d' \<in> E" for e d'
    using kept that c unfolding emissionsKept_def by (metis option.distinct(1) option.inject)
  have "claimsNumbered s'" using num claims same unfolding claimsNumbered_def by metis
  moreover have "claimsCovered w s'" using cov claims same unfolding claimsCovered_def by metis
  moreover have "emissionsKept s' (insert (Emitted ev q d) E)"
    unfolding emissionsKept_def same
  proof (intro conjI allI impI; (elim conjE)?)
    fix e r d' e' c'
    assume a: "Emitted e r d' \<in> insert (Emitted ev q d) E" "jm_get (ss_claims s') e' = Some c'" "sc_sequence c' = r"
    from claims [OF a(2)] obtain c0 where c0: "jm_get (ss_claims s) e' = Some c0" "sc_sequence c0 = r"
      "e' \<noteq> ev \<and> c' = c0 \<or> e' = ev \<and> c0 = c \<and> sc_digest c' = Some d" using a(3) by metis
    have "e' = e \<and> sc_digest c' = Some d'"
    proof (cases "r = q")
      case True
      then have "e' = ev" "e = ev \<and> d' = d" using others [OF c0(1)] c0(2) old [of e d'] a(1) by auto
      then show ?thesis using c0(3) by auto
    next
      case False
      then have "Emitted e r d' \<in> E" "e' \<noteq> ev" using a(1) c0 c(2) by auto
      then show ?thesis using kept c0 unfolding emissionsKept_def by metis
    qed
    then show "e' = e" "sc_digest c' = Some d'" by simp_all
  next
    fix e c' d'
    assume a: "jm_get (ss_claims s') e = Some c'" "sc_digest c' = Some d'"
    show "Emitted e (sc_sequence c') d' \<in> insert (Emitted ev q d) E"
    proof (cases "e = ev")
      case True
      then show ?thesis using claims [OF a(1)] a(2) c(2) by auto
    next
      case False
      then have "jm_get (ss_claims s) e = Some c'" using claims [OF a(1)] by auto
      then show ?thesis using kept a(2) unfolding emissionsKept_def by blast
    qed
  next
    fix e r d'
    assume "Emitted e r d' \<in> insert (Emitted ev q d) E"
    then show "1 \<le> r" "r \<le> ss_next s" using kept q unfolding emissionsKept_def by blast+
  qed
  moreover have "emissionsUnique (insert (Emitted ev q d) E)"
    using uniq old unfolding emissionsUnique_def by (metis insert_iff sourceEvent.inject(2))
  moreover have "linksEmitted s' (insert (Emitted ev q d) E)"
  proof -
    have "\<exists>e. Emitted e (ss_next s) d' \<in> insert (Emitted ev q d) E" if "ss_latest s' = Some d'" for d'
      using link that unfolding linksEmitted_def by (cases "q = ss_next s") (auto simp: s')
    moreover have "\<exists>e'. Emitted e' (sc_sequence c' - 1) d' \<in> insert (Emitted ev q d) E"
      if a: "jm_get (ss_claims s') e = Some c'" "sc_previous c' = Some d'" for e c' d'
    proof -
      from claims [OF a(1)] obtain c0 where "jm_get (ss_claims s) e = Some c0" "sc_sequence c0 = sc_sequence c'"
        "sc_previous c0 = Some d'" using a(2) by metis
      then have "\<exists>e'. Emitted e' (sc_sequence c' - 1) d' \<in> E" using link unfolding linksEmitted_def by metis
      then show ?thesis by blast
    qed
    moreover have "\<exists>e'. Emitted e' (r - 1) d' \<in> insert (Emitted ev q d) E"
      if "Claimed e r (Some d') \<in> insert (Emitted ev q d) E" for e r d'
      using link that unfolding linksEmitted_def by blast
    ultimately show ?thesis unfolding linksEmitted_def same by blast
  qed
  moreover have "gapsPending s' (insert (Emitted ev q d) E)" using gap unfolding gapsPending_def same by blast
  moreover have "pendingAscends s'" using asc unfolding pendingAscends_def same .
  ultimately show ?thesis using Inr by (simp add: sourceNumbers_def sourceLogged_def)
qed

lemma trimRetained_spec:
  "distinct retained \<Longrightarrow> \<exists>gone. retained = gone @ fst (trimRetained w retained claims) \<and>
     length (fst (trimRetained w retained claims)) \<le> w \<and>
     (\<forall>e. jm_get (snd (trimRetained w retained claims)) e = (if e \<in> set gone then None else jm_get claims e))"
proof (induction w retained claims rule: trimRetained.induct)
  case (2 w x xs claims)
  show ?case
  proof (cases "length (x # xs) \<le> w")
    case False
    from "2.IH" [OF False] "2.prems" obtain gone where
      "xs = gone @ fst (trimRetained w xs (jm_delete x claims))" "length (fst (trimRetained w xs (jm_delete x claims))) \<le> w"
      "\<forall>e. jm_get (snd (trimRetained w xs (jm_delete x claims))) e = (if e \<in> set gone then None else jm_get (jm_delete x claims) e)"
      by auto
    then show ?thesis using False by (intro exI [of _ "x # gone"]) auto
  qed auto
qed simp

lemma kept_receipted: "emissionsKept s (insert (Receipted q) E) = emissionsKept s E"
  by (simp only: emissionsKept_def insert_iff sourceEvent.distinct simp_thms)

lemma unique_receipted: "emissionsUnique (insert (Receipted q) E) = emissionsUnique E"
  by (simp only: emissionsUnique_def insert_iff sourceEvent.distinct simp_thms)

lemma links_receipted: "linksEmitted s (insert (Receipted q) E) = linksEmitted s E"
  by (simp only: linksEmitted_def insert_iff sourceEvent.distinct simp_thms)

lemma receipt_cases:
  assumes "receiptInSource w q s = (r, s')"
  obtains (unknown) "r = Inl UnknownSequence" "s' = s"
  | (again) "r = Inr ()" "s' = s"
  | (first) ev where "r = Inr ()" "jm_get (ss_pending s) q = Some ev"
      "s' = s\<lparr>ss_pending := jm_delete q (ss_pending s),
        ss_retained := fst (trimRetained w (js_add ev (ss_retained s)) (ss_claims s)),
        ss_claims := snd (trimRetained w (js_add ev (ss_retained s)) (ss_claims s))\<rparr>"
proof (cases "q < 1 \<or> ss_next s < q")
  case True
  then have "receiptInSource w q s = (Inl UnknownSequence, s)" by (simp add: receiptInSource_def)
  then show thesis using unknown assms by simp
next
  case False
  show thesis
  proof (cases "jm_get (ss_pending s) q")
    case None
    then have "receiptInSource w q s = (Inr (), s)" using False by (simp add: receiptInSource_def)
    then show thesis using again assms by simp
  next
    case (Some ev)
    show thesis
      by (rule first [OF _ Some]) (use assms False Some in \<open>simp_all add: receiptInSource_def case_prod_beta\<close>)
  qed
qed

lemma receipt_inv:
  assumes "sourceNumbers w s" and "sourceLogged s E" and "receiptInSource w q s = (r, s')"
  shows "sourceNumbers w s' \<and> sourceLogged s' (case r of Inl _ \<Rightarrow> E | Inr _ \<Rightarrow> insert (Receipted q) E)"
proof -
  have asc: "pendingAscends s" and num: "claimsNumbered s" and cov: "claimsCovered w s"
    and kept: "emissionsKept s E" and uniq: "emissionsUnique E" and link: "linksEmitted s E" and gap: "gapsPending s E"
    using assms by (auto simp: sourceNumbers_def sourceLogged_def)
  have more: "emissionsKept s (insert (Receipted q) E)" "emissionsUnique (insert (Receipted q) E)"
    "linksEmitted s (insert (Receipted q) E)"
    using kept uniq link by (simp_all only: kept_receipted unique_receipted links_receipted)
  have more_gap: "gapsPending s (insert (Receipted q) E)" using gap unfolding gapsPending_def by blast
  from assms(3) show ?thesis
  proof (cases rule: receipt_cases)
    case unknown
    then show ?thesis using assms by simp
  next
    case again
    then show ?thesis using assms more more_gap by (simp add: sourceLogged_def)
  next
    case (first ev)
    let ?old = "js_add ev (ss_retained s)"
    have "distinct ?old" using cov by (simp add: claimsCovered_def)
    from trimRetained_spec [OF this, of w "ss_claims s"] obtain gone where g: "?old = gone @ ss_retained s'" "length (ss_retained s') \<le> w"
      "\<forall>e. jm_get (ss_claims s') e = (if e \<in> set gone then None else jm_get (ss_claims s) e)"
      by (auto simp: first(3))
    have claims: "jm_get (ss_claims s') e = Some c \<Longrightarrow> e \<notin> set gone \<and> jm_get (ss_claims s) e = Some c" for e c
      using g(3) by (auto split: if_splits)
    have same: "ss_next s' = ss_next s" "ss_latest s' = ss_latest s" by (simp_all add: first(3))
    have keys: "jm_keys (ss_pending s') = removeAll q (jm_keys (ss_pending s))" by (simp add: first(3) keys_delete)
    have "pendingAscends s'" unfolding pendingAscends_def keys same
      using asc sorted_removeAll by (fastforce simp: pendingAscends_def simp del: set_map)
    moreover have "claimsNumbered s'" using num claims unfolding claimsNumbered_def same by metis
    moreover have "claimsCovered w s'"
      unfolding claimsCovered_def
    proof (intro conjI allI impI; (elim conjE)?)
      fix e c
      assume a: "jm_get (ss_claims s') e = Some c"
      note c = claims [OF a]
      then consider r where "jm_get (ss_pending s) r = Some e" | "e \<in> set (ss_retained s)"
        using cov unfolding claimsCovered_def by blast
      then show "(\<exists>r. jm_get (ss_pending s') r = Some e) \<or> e \<in> set (ss_retained s')"
      proof cases
        case (1 r)
        then have "r = q \<and> e = ev \<or> jm_get (ss_pending s') r = Some e" using first(2) by (auto simp: first(3))
        moreover have "ev \<in> set gone \<union> set (ss_retained s')" using arg_cong [OF g(1), of set] by auto
        ultimately show ?thesis using c by auto
      next
        case 2
        then have "e \<in> set gone \<union> set (ss_retained s')" using arg_cong [OF g(1), of set] by auto
        then show ?thesis using c by auto
      qed
    next
      fix r e' e c
      assume "jm_get (ss_pending s') r = Some e'" "jm_get (ss_claims s') e = Some c" "sc_sequence c = r"
      moreover from this have "jm_get (ss_pending s) r = Some e'" by (auto simp: first(3) split: if_splits)
      ultimately show "e = e'" using cov claims unfolding claimsCovered_def by blast
    next
      show "distinct (ss_retained s')" using \<open>distinct ?old\<close> unfolding g(1) by simp
      show "length (ss_retained s') \<le> w" by (rule g(2))
    qed
    moreover have "emissionsKept s' (insert (Receipted q) E)"
      using more(1) claims unfolding emissionsKept_def same by blast
    moreover have "linksEmitted s' (insert (Receipted q) E)"
      using more(3) claims unfolding linksEmitted_def same by metis
    moreover have "gapsPending s' (insert (Receipted q) E)"
      using more_gap unfolding gapsPending_def keys same by auto
    ultimately show ?thesis using more(2) first(1) by (simp add: sourceNumbers_def sourceLogged_def)
  qed
qed

subsection \<open>Runs\<close>

definition logOf :: "string \<Rightarrow> (string \<times> sourceEvent) list \<Rightarrow> sourceEvent set" where
  "logOf src L = {e. (src, e) \<in> set L}"

definition sourceInv :: "nat \<Rightarrow> (string \<times> sourceEvent) list \<Rightarrow> sourceStates \<Rightarrow> bool" where
  "sourceInv w L p \<longleftrightarrow> (\<forall>src. sourceNumbers w (sourceOf p src) \<and> sourceLogged (sourceOf p src) (logOf src L))"

lemma sourceOf_update [simp]: "sourceOf (p(src \<mapsto> s)) src' = (if src' = src then s else sourceOf p src')"
  by (simp add: sourceOf_def)

lemma logOf_append [simp]: "logOf src (L @ es) = logOf src L \<union> logOf src es"
  by (auto simp: logOf_def)

lemma logOf_simps [simp]: "logOf src [] = {}" "logOf src [(src', e)] = (if src' = src then {e} else {})"
  by (auto simp: logOf_def)

lemma sourceInvI:
  assumes "sourceInv w L p" and "sourceNumbers w s" and "sourceLogged s (logOf src (L @ es))"
    and "\<And>src'. src' \<noteq> src \<Longrightarrow> logOf src' es = {}"
  shows "sourceInv w (L @ es) (p(src \<mapsto> s))"
  using assms by (simp add: sourceInv_def)

lemma callSource_inv:
  assumes inv: "sourceInv w L p" and call: "callSource w c p = (es, p')"
  shows "sourceInv w (L @ es) p'"
proof -
  obtain src k where c: "c = (src, k)" by (cases c)
  have num: "sourceNumbers w (sourceOf p src)" and log: "sourceLogged (sourceOf p src) (logOf src L)"
    using inv by (auto simp: sourceInv_def)
  show ?thesis
  proof (cases k)
    case (CallClaim ev)
    obtain q prev s where r: "claimInSource ev (sourceOf p src) = ((q, prev), s)" by (metis surj_pair)
    then have e: "es = [(src, Claimed ev q prev)]" "p' = p(src \<mapsto> s)" using call c CallClaim by (auto simp: claimEvent_def)
    show ?thesis unfolding e
      by (rule sourceInvI [OF inv]) (use claim_numbers [OF num, of ev] claim_logged [OF num log r] r in simp_all)
  next
    case (CallAbandon ev q)
    then have e: "es = []" "p' = p(src \<mapsto> abandonInSource ev q (sourceOf p src))" using call c by (auto simp: abandonClaim_def)
    show ?thesis unfolding e by (rule sourceInvI [OF inv]) (use abandon_inv [OF num log] in simp_all)
  next
    case (CallEmit ev q d)
    obtain r s where r: "emitInSource ev q d (sourceOf p src) = (r, s)" by (metis surj_pair)
    then have e: "es = (case r of Inl _ \<Rightarrow> [] | Inr _ \<Rightarrow> [(src, Emitted ev q d)])" "p' = p(src \<mapsto> s)"
      using call c CallEmit by (auto simp: markEmitted_def split: sum.splits)
    show ?thesis unfolding e
      by (rule sourceInvI [OF inv]) (use emit_inv [OF num log r] in \<open>auto split: sum.splits\<close>)
  next
    case (CallReceipt q)
    obtain r s where r: "receiptInSource w q (sourceOf p src) = (r, s)" by (metis surj_pair)
    then have e: "es = (case r of Inl _ \<Rightarrow> [] | Inr _ \<Rightarrow> [(src, Receipted q)])" "p' = p(src \<mapsto> s)"
      using call c CallReceipt by (auto simp: markReceipted_def split: sum.splits)
    show ?thesis unfolding e
      by (rule sourceInvI [OF inv]) (use receipt_inv [OF num log r] in \<open>auto split: sum.splits\<close>)
  qed
qed

lemma runSources_inv: "sourceInv w L p \<Longrightarrow> runSources w cs (L, p) = (L', p') \<Longrightarrow> sourceInv w L' p'"
proof (induction cs arbitrary: L p)
  case (Cons c cs)
  obtain es q where "callSource w c p = (es, q)" by (metis surj_pair)
  then show ?case using Cons.IH [OF callSource_inv [OF Cons.prems(1)]] Cons.prems(2) by simp
qed simp

lemma initial_inv: "sourceInv w [] (\<lambda>_. None)"
  by (simp add: sourceInv_def sourceOf_def numbers_empty logged_empty)

lemmas run_inv = runSources_inv [OF initial_inv]

text \<open>A source never equivocates: over any run of claims, abandons, emissions and receipts, by any
  mix of sources, two successful emissions of one sequence of one source are of the same event with
  the same digest, however claims are abandoned, renumbered or evicted in between.\<close>

theorem emitted_sequence_unique:
  assumes "runSources w cs ([], \<lambda>_. None) = (L, p)"
    and "(src, Emitted ev q d) \<in> set L" and "(src, Emitted ev' q d') \<in> set L"
  shows "ev = ev' \<and> d = d'"
proof -
  have "emissionsUnique (logOf src L)" using run_inv [OF assms(1)] by (simp add: sourceInv_def sourceLogged_def)
  then show ?thesis using assms(2,3) unfolding emissionsUnique_def logOf_def by blast
qed

definition sourceDemo :: "(string \<times> sourceCall) list" where
  "sourceDemo = [(''s'', CallClaim ''a''), (''s'', CallEmit ''a'' 1 ''da''), (''s'', CallClaim ''b''),
     (''s'', CallAbandon ''b'' 2), (''s'', CallClaim ''c''), (''s'', CallEmit ''c'' 2 ''dc''),
     (''s'', CallReceipt 1), (''s'', CallEmit ''a'' 1 ''da'')]"

lemma emitted_sequence_unique_witness: "''a'' = ''a'' \<and> ''da'' = ''da''"
proof -
  obtain L p where r: "runSources 2 sourceDemo ([], \<lambda>_. None) = (L, p)" by (metis surj_pair)
  have "(''s'', Emitted ''a'' 1 ''da'') \<in> set (fst (runSources 2 sourceDemo ([], \<lambda>_. None)))"
    by code_simp
  then have "(''s'', Emitted ''a'' 1 ''da'') \<in> set L" by (simp add: r)
  from emitted_sequence_unique [OF r this this] show ?thesis .
qed

text \<open>The chain links are true: when a claim is handed out with a previous digest, the source has
  emitted that digest at the sequence before it.\<close>

theorem claimed_link_was_emitted:
  assumes "runSources w cs ([], \<lambda>_. None) = (L, p)" and "(src, Claimed ev q (Some d)) \<in> set L"
  shows "\<exists>ev'. (src, Emitted ev' (q - 1) d) \<in> set L"
proof -
  have "linksEmitted (sourceOf p src) (logOf src L)" using run_inv [OF assms(1)] by (simp add: sourceInv_def sourceLogged_def)
  then show ?thesis using assms(2) unfolding linksEmitted_def logOf_def by blast
qed

lemma claimed_link_was_emitted_witness:
  "\<exists>ev'. (''s'', Emitted ev' (2 - 1) ''da'') \<in> set (fst (runSources 2 sourceDemo ([], \<lambda>_. None)))"
proof -
  obtain L p where r: "runSources 2 sourceDemo ([], \<lambda>_. None) = (L, p)" by (metis surj_pair)
  have "(''s'', Claimed ''c'' 2 (Some ''da'')) \<in> set (fst (runSources 2 sourceDemo ([], \<lambda>_. None)))"
    by code_simp
  then have "(''s'', Claimed ''c'' 2 (Some ''da'')) \<in> set L" by (simp add: r)
  from claimed_link_was_emitted [OF r this] show ?thesis by (simp add: r)
qed

text \<open>C33: The watermark is sound: every sequence up to the reported \<open>highestReceipted\<close> has been
  receipted, the pending sequences are reported in ascending order and lie above it, and nothing
  above \<open>highestEmitted\<close> is pending.\<close>

theorem watermark_sound:
  assumes "runSources w cs ([], \<lambda>_. None) = (L, p)" and "getState src p = (st, p')"
  shows "(1 \<le> q \<and> q \<le> as_highestReceipted st \<longrightarrow> (src, Receipted q) \<in> set L) \<and>
    sorted_wrt (<) (as_pendingSequences st) \<and>
    (\<forall>q\<in>set (as_pendingSequences st). as_highestReceipted st < q \<and> q \<le> as_highestEmitted st)"
proof -
  let ?s = "sourceOf p src"
  have inv: "pendingAscends ?s" "gapsPending ?s (logOf src L)"
    using run_inv [OF assms(1)] by (simp_all add: sourceInv_def sourceLogged_def sourceNumbers_def)
  have st: "as_highestEmitted st = ss_next ?s" "as_pendingSequences st = jm_keys (ss_pending ?s)"
    "as_highestReceipted st = (case jm_keys (ss_pending ?s) of [] \<Rightarrow> ss_next ?s | q # _ \<Rightarrow> q - 1)"
    using assms(2) by (auto simp: getState_def Let_def)
  have above: "\<forall>q\<in>set (jm_keys (ss_pending ?s)). as_highestReceipted st < q \<and> q \<le> ss_next ?s"
    using inv(1) unfolding st(3) pendingAscends_def by (cases "jm_keys (ss_pending ?s)") auto
  have "as_highestReceipted st \<le> ss_next ?s"
    using inv(1) unfolding st(3) pendingAscends_def by (cases "jm_keys (ss_pending ?s)") auto
  then have "1 \<le> q \<Longrightarrow> q \<le> as_highestReceipted st \<Longrightarrow> Receipted q \<in> logOf src L"
    using inv(2) above unfolding gapsPending_def by (metis leD order_trans)
  then show ?thesis using inv(1) above unfolding st(1,2) pendingAscends_def logOf_def by blast
qed

lemma watermark_sound_witness:
  "(''s'', Receipted 1) \<in> set (fst (runSources 2 sourceDemo ([], \<lambda>_. None))) \<and>
    as_highestReceipted (fst (getState ''s'' (snd (runSources 2 sourceDemo ([], \<lambda>_. None))))) = 1"
proof -
  obtain L p where r: "runSources 2 sourceDemo ([], \<lambda>_. None) = (L, p)" by (metis surj_pair)
  obtain st p' where g: "getState ''s'' p = (st, p')" by (metis surj_pair)
  have "as_highestReceipted (fst (getState ''s'' (snd (runSources 2 sourceDemo ([], \<lambda>_. None))))) = 1"
    by code_simp
  then show ?thesis using watermark_sound [OF r g, of 1] by (simp add: r g)
qed

text \<open>Memory is bounded: every claim still held is of a pending event or of one of the last \<open>w\<close>
  receipted ones, and claiming an event that is still held gives the claim it had.\<close>

lemma claims_bounded:
  assumes "runSources w cs ([], \<lambda>_. None) = (L, p)"
  shows "dom (jm_get (ss_claims (sourceOf p src))) \<subseteq> ran (jm_get (ss_pending (sourceOf p src))) \<union> set (ss_retained (sourceOf p src))
    \<and> length (ss_retained (sourceOf p src)) \<le> w"
proof -
  have "claimsCovered w (sourceOf p src)" using run_inv [OF assms] by (simp add: sourceInv_def sourceNumbers_def)
  then show ?thesis unfolding claimsCovered_def dom_def ran_def by auto
qed

lemma reclaim_is_idempotent:
  assumes "jm_get (ss_claims (sourceOf p src)) ev = Some c"
  shows "fst (claimEvent src ev p) = publicClaim c \<and>
    ss_claims (sourceOf (snd (claimEvent src ev p)) src') = ss_claims (sourceOf p src') \<and>
    ss_next (sourceOf (snd (claimEvent src ev p)) src') = ss_next (sourceOf p src')"
  using assms by (auto simp: claimEvent_def claim_again case_prod_beta)

text \<open>The link is not always there: when a later claim was handed out before an event is emitted and
  is then abandoned, the digest of the emitted event is forgotten, and the next claim carries no
  link although its predecessor was emitted.\<close>

lemma abandoned_claim_loses_link:
  "fst (runSources 1024 [(''s'', CallClaim ''a''), (''s'', CallClaim ''b''), (''s'', CallEmit ''a'' 1 ''da''),
      (''s'', CallAbandon ''b'' 2), (''s'', CallClaim ''c'')] ([], \<lambda>_. None)) =
    [(''s'', Claimed ''a'' 1 None), (''s'', Claimed ''b'' 2 None), (''s'', Emitted ''a'' 1 ''da''), (''s'', Claimed ''c'' 2 None)]"
  by code_simp

end
