(* ===== verification/Scope_Matcher.thy ===== *)
theory Scope_Matcher
  imports Credential
begin

text \<open>
  \<open>src/delegation/scope-matcher.ts\<close>: matching a requested scope or resource against a
  credential's scope authority, and proving that one authority lies inside another.
  The engine behind \<open>new RegExp(src).test(value)\<close> is a parameter \<open>rx\<close>: \<open>rx src v\<close> is
  \<open>None\<close> when \<open>src\<close> is not a valid pattern.
\<close>

type_synonym regexp = "string \<Rightarrow> string \<Rightarrow> bool option"

datatype type_error = TypeError

definition MAX_REGEX_LEN :: nat where "MAX_REGEX_LEN = 256"
definition MAX_VALUE_LEN :: nat where "MAX_VALUE_LEN = 256"

subsection \<open>Pattern bases\<close>

definition prefixBase :: "string \<Rightarrow> string" where
  "prefixBase pattern =
     (if endsWithChar pattern (CHR ''*'') then butlast pattern else pattern)"

function dropTrailingSlashes :: "string \<Rightarrow> string" where
  "dropTrailingSlashes b =
     (if endsWithChar b (CHR ''/'') then dropTrailingSlashes (butlast b) else b)"
  by pat_completeness auto
termination
  by (relation "measure length") (auto simp: endsWithChar_def)

declare dropTrailingSlashes.simps [simp del]

definition pathBase :: "string \<Rightarrow> string" where
  "pathBase pattern = dropTrailingSlashes (prefixBase pattern)"

definition hasDotSegment :: "string \<Rightarrow> bool" where
  "hasDotSegment path =
     (\<exists>segment \<in> set (splitOn (\<lambda>c. c = CHR ''/'' \<or> c = CHR 0x5C) path).
        segment = ''.'' \<or> segment = ''..'')"

subsection \<open>The nested-quantifier guard\<close>

text \<open>
  \<open>NESTED_QUANTIFIER = /\([^()]*[+*?{][^()]*\)\s*[+*{]/\<close> as a scan: after an opening
  parenthesis, a body without parentheses that holds a quantifier, the closing
  parenthesis, white space, and a quantifier.
\<close>

definition isParen :: "char \<Rightarrow> bool" where
  "isParen c \<longleftrightarrow> c = CHR ''('' \<or> c = CHR '')''"

definition isSpace :: "char \<Rightarrow> bool" where
  "isSpace c \<longleftrightarrow> c \<in> set [CHR '' '', CHR 0x09, CHR 0x0A, CHR 0x0B, CHR 0x0C, CHR 0x0D, CHR 0xA0]"

definition nestedQuantifierAt :: "string \<Rightarrow> bool" where
  "nestedQuantifierAt s =
     (let body = takeWhile (\<lambda>c. \<not> isParen c) s; rest = dropWhile (\<lambda>c. \<not> isParen c) s
      in (\<exists>c \<in> set body. c \<in> set ''+*?{'') \<and>
         (case rest of
            [] \<Rightarrow> False
          | p # rest' \<Rightarrow> p = CHR '')'' \<and>
              (case dropWhile isSpace rest' of [] \<Rightarrow> False | q # _ \<Rightarrow> q \<in> set ''+*{'')))"

fun nestedQuantifier :: "string \<Rightarrow> bool" where
  "nestedQuantifier [] = False"
| "nestedQuantifier (c # cs) = ((c = CHR ''('' \<and> nestedQuantifierAt cs) \<or> nestedQuantifier cs)"

subsection \<open>Matching one value\<close>

definition regexMatches :: "regexp \<Rightarrow> string \<Rightarrow> string \<Rightarrow> bool" where
  "regexMatches rx pattern value =
     (if nestedQuantifier pattern then False
      else (case rx (''^(?:'' @ pattern @ '')$'') value of None \<Rightarrow> False | Some b \<Rightarrow> b))"

definition matchScope :: "regexp \<Rightarrow> string \<Rightarrow> string \<Rightarrow> string \<Rightarrow> bool" where
  "matchScope rx pattern m value =
     (if m = ''exact'' then pattern = value
      else if m = ''prefix'' then
        (let base = prefixBase pattern in if base = [] then False else startsWith value base)
      else if m = ''path-prefix'' then
        (let base = pathBase pattern
         in if base = [] then False
            else if hasDotSegment base \<or> hasDotSegment value then False
            else value = base \<or> startsWith value (base @ ''/''))
      else if m = ''regex'' then
        (if MAX_REGEX_LEN < length pattern \<or> MAX_VALUE_LEN < length value then False
         else regexMatches rx pattern value)
      else False)"

text \<open>
  The same call on an entry of an untrusted credential, whose members need not be
  strings: string methods on another value throw a \<open>TypeError\<close>, \<open>===\<close> is false, and the
  pattern of a \<open>RegExp\<close> is coerced.
\<close>

fun matchEntry :: "regexp \<Rightarrow> crispScope \<Rightarrow> string \<Rightarrow> type_error + bool" where
  "matchEntry rx NullScope value = Inl TypeError"
| "matchEntry rx (CrispScope r (Str m)) value = (case r of
       Str pattern \<Rightarrow> Inr (matchScope rx pattern m value)
     | Nullish \<Rightarrow> (if m \<in> {''prefix'', ''path-prefix'', ''regex''} then Inl TypeError else Inr False)
     | NonStr pattern \<Rightarrow>
         (if m \<in> {''prefix'', ''path-prefix''} then Inl TypeError
          else if m = ''regex'' then
            Inr (if MAX_VALUE_LEN < length value then False else regexMatches rx pattern value)
          else Inr False))"
| "matchEntry rx (CrispScope r _) value = Inr False"

subsection \<open>The authority of a credential\<close>

definition flatScopes :: "delegationCredential \<Rightarrow> string list" where
  "flatScopes vc = (case vc_delegation vc of None \<Rightarrow> []
     | Some d \<Rightarrow> (case d_scopes d of None \<Rightarrow> [] | Some xs \<Rightarrow> xs) @
         (case Option.bind (d_constraints d) k_scopes of None \<Rightarrow> [] | Some xs \<Rightarrow> xs))"

definition crispScopes :: "delegationCredential \<Rightarrow> crispScope list" where
  "crispScopes vc = (case Option.bind (vc_constraints vc) k_crispScopes of
       None \<Rightarrow> [] | Some xs \<Rightarrow> xs)"

abbreviation exactScope :: "string \<Rightarrow> crispScope" where
  "exactScope s \<equiv> CrispScope (Str s) (Str ''exact'')"

definition scopeAuthority :: "delegationCredential \<Rightarrow> crispScope list" where
  "scopeAuthority vc = map exactScope (flatScopes vc) @ crispScopes vc"

subsection \<open>Containment\<close>

fun isCrispScope :: "crispScope \<Rightarrow> bool" where
  "isCrispScope (CrispScope (Str _) (Str _)) = True"
| "isCrispScope _ = False"

definition baseOf :: "string \<Rightarrow> string \<Rightarrow> string" where
  "baseOf r m = (if m = ''path-prefix'' then pathBase r else prefixBase r)"

text \<open>\<open>CONTAINMENT\<close>, keyed by the inner and the outer matcher.\<close>

definition containmentRule :: "string \<Rightarrow> string \<Rightarrow> (string \<Rightarrow> string \<Rightarrow> bool) option" where
  "containmentRule im om =
     (if im = ''prefix'' \<and> om = ''prefix'' then Some (\<lambda>i b. startsWith i b)
      else if im = ''path-prefix'' \<and> om = ''path-prefix'' then
        Some (\<lambda>i b. i = b \<or> startsWith i (b @ ''/''))
      else if im = ''path-prefix'' \<and> om = ''prefix'' then Some (\<lambda>i b. startsWith i b)
      else if im = ''prefix'' \<and> om = ''path-prefix'' then Some (\<lambda>i b. startsWith i (b @ ''/''))
      else None)"

fun matcherContains :: "regexp \<Rightarrow> crispScope \<Rightarrow> crispScope \<Rightarrow> bool" where
  "matcherContains rx (CrispScope (Str outR) (Str outM)) (CrispScope (Str inR) (Str inM)) =
     (if outM = inM \<and> outR = inR then True
      else if inM = ''exact'' then matchScope rx outR outM inR
      else
        (let innerBase = baseOf inR inM; outerBase = baseOf outR outM
         in if (inM = ''path-prefix'' \<and> hasDotSegment innerBase) \<or>
               (outM = ''path-prefix'' \<and> hasDotSegment outerBase) then False
            else (case containmentRule inM outM of
                None \<Rightarrow> False
              | Some rule \<Rightarrow> innerBase \<noteq> [] \<and> outerBase \<noteq> [] \<and> rule innerBase outerBase)))"
| "matcherContains rx _ _ = False"

text \<open>\<open>scopeKey\<close>: the matcher, a NUL and the resource. Only applied to well-typed entries.\<close>

fun scopeKey :: "crispScope \<Rightarrow> string" where
  "scopeKey (CrispScope (Str r) (Str m)) = m @ [CHR 0x00] @ r"
| "scopeKey _ = []"

definition authorityContains :: "regexp \<Rightarrow> crispScope list \<Rightarrow> crispScope \<Rightarrow> bool" where
  "authorityContains rx authority scope =
     (let granted = filter isCrispScope authority;
          identical = js_set (map scopeKey granted);
          patterns = filter (\<lambda>e. matcher e \<noteq> Str ''exact'') granted
      in isCrispScope scope \<and>
         (scopeKey scope \<in> set identical \<or> (\<exists>e \<in> set patterns. matcherContains rx e scope)))"

subsection \<open>Is a required scope satisfied\<close>

record scopeSatisfaction =
  satisfied :: bool
  usedNonExactMatcher :: bool

fun satisfyCrisp :: "regexp \<Rightarrow> string \<Rightarrow> crispScope list \<Rightarrow> type_error + scopeSatisfaction" where
  "satisfyCrisp rx required [] = Inr \<lparr>satisfied = False, usedNonExactMatcher = False\<rparr>"
| "satisfyCrisp rx required (cs # rest) = (case matchEntry rx cs required of
       Inl e \<Rightarrow> Inl e
     | Inr True \<Rightarrow> Inr \<lparr>satisfied = True, usedNonExactMatcher = (matcher cs \<noteq> Str ''exact'')\<rparr>
     | Inr False \<Rightarrow> satisfyCrisp rx required rest)"

definition scopeSatisfies ::
  "regexp \<Rightarrow> string \<Rightarrow> delegationCredential \<Rightarrow> type_error + scopeSatisfaction" where
  "scopeSatisfies rx required vc =
     (if required \<in> set (flatScopes vc) then Inr \<lparr>satisfied = True, usedNonExactMatcher = False\<rparr>
      else satisfyCrisp rx required (crispScopes vc))"

subsection \<open>Laws of matching\<close>

lemma matchScope_exact [simp]: "matchScope rx p ''exact'' v \<longleftrightarrow> p = v"
  by (simp add: matchScope_def)

lemma matchScope_prefix:
  "matchScope rx p ''prefix'' v \<longleftrightarrow> prefixBase p \<noteq> [] \<and> startsWith v (prefixBase p)"
  by (simp add: matchScope_def Let_def)

lemma matchScope_path_prefix:
  "matchScope rx p ''path-prefix'' v \<longleftrightarrow>
     pathBase p \<noteq> [] \<and> \<not> hasDotSegment (pathBase p) \<and> \<not> hasDotSegment v \<and>
     (v = pathBase p \<or> startsWith v (pathBase p @ ''/''))"
  by (auto simp: matchScope_def Let_def)

lemma matchScope_known:
  "matchScope rx p m v \<Longrightarrow> m \<in> {''exact'', ''prefix'', ''path-prefix'', ''regex''}"
  by (auto simp: matchScope_def split: if_splits)

lemma prefix_append_trans: "prefix (b @ s) i \<Longrightarrow> prefix i v \<Longrightarrow> prefix (b @ s) v"
  by (rule prefix_order.trans)

lemma prefix_append_left: "prefix (b @ s) v \<Longrightarrow> prefix b v"
  by (meson append_prefixD)

lemmas matchScope_simps = matchScope_prefix matchScope_path_prefix

text \<open>One containment rule at a time, for the two pattern matchers it relates.\<close>

lemma contains_prefix_prefix:
  "matchScope rx i ''prefix'' v \<Longrightarrow> prefixBase b \<noteq> [] \<Longrightarrow> startsWith (prefixBase i) (prefixBase b) \<Longrightarrow>
     matchScope rx b ''prefix'' v"
  by (auto simp: matchScope_simps intro: prefix_order.trans)

lemma contains_path_path:
  "matchScope rx i ''path-prefix'' v \<Longrightarrow> pathBase b \<noteq> [] \<Longrightarrow> \<not> hasDotSegment (pathBase b) \<Longrightarrow>
     pathBase i = pathBase b \<or> startsWith (pathBase i) (pathBase b @ ''/'') \<Longrightarrow>
     matchScope rx b ''path-prefix'' v"
  by (auto simp: matchScope_simps intro: prefix_order.trans dest: prefix_append_left)

lemma contains_path_prefix:
  "matchScope rx i ''path-prefix'' v \<Longrightarrow> prefixBase b \<noteq> [] \<Longrightarrow> startsWith (pathBase i) (prefixBase b) \<Longrightarrow>
     matchScope rx b ''prefix'' v"
  by (auto simp: matchScope_simps intro: prefix_order.trans dest: prefix_append_left)

lemma contains_prefix_path:
  "matchScope rx i ''prefix'' v \<Longrightarrow> pathBase b \<noteq> [] \<Longrightarrow> \<not> hasDotSegment (pathBase b) \<Longrightarrow>
     startsWith (prefixBase i) (pathBase b @ ''/'') \<Longrightarrow> \<not> hasDotSegment v \<Longrightarrow>
     matchScope rx b ''path-prefix'' v"
  by (auto simp: matchScope_simps intro: prefix_order.trans)

text \<open>
  The pair the containment table gets wrong: an inner \<open>prefix\<close> under an outer \<open>path-prefix\<close>
  is sound only for values without dot segments (\<open>contains_prefix_path\<close>).
\<close>

definition dotSensitive :: "crispScope \<Rightarrow> crispScope \<Rightarrow> bool" where
  "dotSensitive outer inner \<longleftrightarrow> matcher outer = Str ''path-prefix'' \<and> matcher inner = Str ''prefix''"

lemma matcherContains_matchScope:
  assumes "matcherContains rx (CrispScope (Str b) (Str bm)) (CrispScope (Str i) (Str im))"
    and "matchScope rx i im v"
    and "\<not> (bm = ''path-prefix'' \<and> im = ''prefix'') \<or> \<not> hasDotSegment v"
  shows "matchScope rx b bm v"
  using assms
  by (auto simp: containmentRule_def Let_def baseOf_def split: if_splits
      intro: contains_prefix_prefix contains_path_path contains_path_prefix contains_prefix_path)

lemma matchEntry_typed:
  "isCrispScope e \<Longrightarrow> \<exists>p m. e = CrispScope (Str p) (Str m) \<and> matchEntry rx e v = Inr (matchScope rx p m v)"
  by (cases e rule: isCrispScope.cases) auto

lemma matcherContains_typed:
  "matcherContains rx outer inner \<Longrightarrow> isCrispScope outer \<and> isCrispScope inner"
  by (cases "(rx, outer, inner)" rule: matcherContains.cases) auto

lemma matcherContains_matchEntry:
  assumes "matcherContains rx outer inner" and "matchEntry rx inner v = Inr True"
    and "\<not> dotSensitive outer inner \<or> \<not> hasDotSegment v"
  shows "matchEntry rx outer v = Inr True"
proof -
  from matcherContains_typed [OF assms(1)] obtain b bm i im where
    o: "outer = CrispScope (Str b) (Str bm)" and i: "inner = CrispScope (Str i) (Str im)"
    by (meson matchEntry_typed)
  then show ?thesis
    using assms matcherContains_matchScope [of rx b bm i im v] by (auto simp: dotSensitive_def)
qed

text \<open>Lying under a \<open>path-prefix\<close> pattern as a text, dot segments or not, and matching up to dot segments.\<close>

definition underPattern :: "string \<Rightarrow> string \<Rightarrow> bool" where
  "underPattern pattern v \<longleftrightarrow> pathBase pattern \<noteq> [] \<and> (v = pathBase pattern \<or> startsWith v (pathBase pattern @ ''/''))"

definition matchText :: "regexp \<Rightarrow> string \<Rightarrow> string \<Rightarrow> string \<Rightarrow> bool" where
  "matchText rx pattern m v = (if m = ''path-prefix'' then underPattern pattern v else matchScope rx pattern m v)"

fun textEntry :: "regexp \<Rightarrow> crispScope \<Rightarrow> string \<Rightarrow> bool" where
  "textEntry rx (CrispScope (Str pattern) (Str m)) v = matchText rx pattern m v"
| "textEntry rx e v = (matchEntry rx e v = Inr True)"

lemma splitOn_sep: "P z \<Longrightarrow> splitOn P (xs @ z # ys) = splitOn P xs @ splitOn P ys"
proof (induction xs)
  case (Cons x xs)
  show ?case
  proof (cases "P x")
    case False
    obtain s ss where "splitOn P xs = s # ss" by (cases "splitOn P xs") simp_all
    then show ?thesis using Cons False by simp
  qed (use Cons in simp)
qed simp

lemma hasDotSegment_under:
  assumes "hasDotSegment b" and "startsWith v (b @ ''/'')"
  shows "hasDotSegment v"
proof -
  from assms(2) obtain r where "v = b @ CHR ''/'' # r" by (auto simp: prefix_def)
  then show ?thesis using assms(1) splitOn_sep [of "\<lambda>c. c = CHR ''/'' \<or> c = CHR 0x5C" "CHR ''/''" b r]
    by (auto simp: hasDotSegment_def)
qed

lemma matchScope_text: "matchScope rx pattern m v \<longleftrightarrow> matchText rx pattern m v \<and> (m = ''path-prefix'' \<longrightarrow> \<not> hasDotSegment v)"
  using hasDotSegment_under by (auto simp: matchText_def matchScope_path_prefix underPattern_def)

lemma matchText_known: "matchText rx p m v \<Longrightarrow> m \<in> {''exact'', ''prefix'', ''path-prefix'', ''regex''}"
  using matchScope_known by (auto simp: matchText_def split: if_splits)

lemma matchEntry_text: "matchEntry rx e v = Inr True \<Longrightarrow> textEntry rx e v"
  by (cases "(rx, e, v)" rule: textEntry.cases) (auto simp: matchScope_text)

lemma textEntry_match: "textEntry rx e v \<Longrightarrow> \<not> (matcher e = Str ''path-prefix'' \<and> hasDotSegment v) \<Longrightarrow> matchEntry rx e v = Inr True"
  by (cases "(rx, e, v)" rule: textEntry.cases) (auto simp: matchScope_text)

lemma contains_matchText:
  assumes "matcherContains rx (CrispScope (Str b) (Str bm)) (CrispScope (Str i) (Str im))" and "matchText rx i im v"
  shows "matchText rx b bm v"
  using assms
  by (auto simp: containmentRule_def Let_def baseOf_def matchText_def underPattern_def matchScope_prefix matchScope_path_prefix
      split: if_splits intro: prefix_order.trans dest: prefix_append_left)

lemma matcherContains_text:
  assumes "matcherContains rx outer inner" and "textEntry rx inner v"
  shows "textEntry rx outer v"
proof -
  from matcherContains_typed [OF assms(1)] obtain b bm i im where
    "outer = CrispScope (Str b) (Str bm)" "inner = CrispScope (Str i) (Str im)" by (meson matchEntry_typed)
  then show ?thesis using assms contains_matchText by simp
qed

text \<open>C6: what a proven containment is worth, for every value. Whatever the inner entry grants, the outer entry grants too,
  with one exact exception the code leaves: an inner \<open>prefix\<close> under an outer \<open>path-prefix\<close> grants values with a dot
  segment, which the outer entry refuses. Even those lie under the outer pattern as texts, so a consumer that does not
  normalise paths stays within it.\<close>

theorem matcherContains_sound:
  assumes "matcherContains rx outer inner" and "matchEntry rx inner v = Inr True"
  shows "matchEntry rx outer v = Inr (\<not> (dotSensitive outer inner \<and> hasDotSegment v)) \<and> textEntry rx outer v"
proof
  show under: "textEntry rx outer v" using matcherContains_text [OF assms(1) matchEntry_text [OF assms(2)]] .
  show "matchEntry rx outer v = Inr (\<not> (dotSensitive outer inner \<and> hasDotSegment v))"
  proof (cases "dotSensitive outer inner \<and> hasDotSegment v")
    case True
    then obtain b where "outer = CrispScope (Str b) (Str ''path-prefix'')"
      using matcherContains_typed [OF assms(1)] matchEntry_typed [of outer] by (force simp: dotSensitive_def)
    then show ?thesis using True by (simp add: matchScope_text)
  next
    case False
    then show ?thesis using matcherContains_matchEntry [OF assms] by simp
  qed
qed

theorem matcherContains_sound_witness:
  "matchEntry (\<lambda>_ _. None) (CrispScope (Str ''notes'') (Str ''path-prefix'')) ''notes/2026/plan.md'' = Inr True"
proof -
  let ?outer = "CrispScope (Str ''notes'') (Str ''path-prefix'')" and ?inner = "CrispScope (Str ''notes/2026/*'') (Str ''path-prefix'')"
  have "matcherContains (\<lambda>_ _. None) ?outer ?inner" "matchEntry (\<lambda>_ _. None) ?inner ''notes/2026/plan.md'' = Inr True"
    by (simp_all add: matchScope_def containmentRule_def Let_def baseOf_def pathBase_def prefixBase_def
      dropTrailingSlashes.simps endsWithChar_def hasDotSegment_def)
  from matcherContains_sound [OF this] show ?thesis by (simp add: dotSensitive_def)
qed

text \<open>the dot-segment exception is real. The code accepts a child \<open>prefix\<close> scope
  \<open>notes/\<close> under a parent \<open>path-prefix\<close> scope \<open>notes\<close>, and the child then grants
  \<open>notes/../secrets\<close>, which the parent refuses.\<close>

theorem matcherContains_prefix_under_path_prefix_widens:
  "matcherContains rx (CrispScope (Str ''notes'') (Str ''path-prefix''))
     (CrispScope (Str ''notes/'') (Str ''prefix'')) \<and>
   matchEntry rx (CrispScope (Str ''notes/'') (Str ''prefix'')) ''notes/../secrets'' = Inr True \<and>
   matchEntry rx (CrispScope (Str ''notes'') (Str ''path-prefix'')) ''notes/../secrets'' = Inr False"
  by (simp add: matchScope_def containmentRule_def Let_def baseOf_def pathBase_def prefixBase_def
      dropTrailingSlashes.simps endsWithChar_def hasDotSegment_def)

subsection \<open>The indexed authority check is the plain search\<close>

definition nulFree :: "crispScope \<Rightarrow> bool" where
  "nulFree e \<longleftrightarrow> (\<forall>m. isCrispScope e \<and> matcher e = Str m \<longrightarrow> CHR 0x00 \<notin> set m)"

lemma scopeKey_inject:
  assumes "isCrispScope a" "isCrispScope b" "nulFree a" "nulFree b" "scopeKey a = scopeKey b"
  shows "a = b"
  using assms
  by (cases a rule: isCrispScope.cases; cases b rule: isCrispScope.cases)
    (auto simp: nulFree_def dest: append_sep_inject)

lemma matcherContains_refl: "isCrispScope e \<Longrightarrow> matcherContains rx e e"
  by (cases e rule: isCrispScope.cases) auto

lemma exact_contains_itself_only:
  "matcherContains rx e s \<Longrightarrow> matcher e = Str ''exact'' \<Longrightarrow> e = s"
  by (cases "(rx, e, s)" rule: matcherContains.cases)
    (auto simp: containmentRule_def Let_def split: if_splits)

lemma authorityContains_iff:
  assumes "nulFree s" and "\<And>e. e \<in> set authority \<Longrightarrow> nulFree e"
  shows "authorityContains rx authority s \<longleftrightarrow> (\<exists>e \<in> set authority. matcherContains rx e s)"
proof
  assume a: "authorityContains rx authority s"
  then have s: "isCrispScope s" by (simp add: authorityContains_def Let_def)
  from a consider e where "e \<in> set authority" "isCrispScope e" "scopeKey s = scopeKey e"
    | e where "e \<in> set authority" "matcherContains rx e s"
    by (auto simp: authorityContains_def Let_def)
  then show "\<exists>e \<in> set authority. matcherContains rx e s"
  proof cases
    case (1 e)
    with s assms have "s = e" by (blast intro: scopeKey_inject)
    with 1 s show ?thesis by (blast intro: matcherContains_refl)
  qed blast
next
  assume "\<exists>e \<in> set authority. matcherContains rx e s"
  then obtain e where "e \<in> set authority" "matcherContains rx e s" by blast
  then show "authorityContains rx authority s"
    using matcherContains_typed [of rx e s] exact_contains_itself_only [of rx e s]
    by (auto simp: authorityContains_def Let_def)
qed

lemma granting_entry_nulFree: "matchEntry rx e v = Inr True \<Longrightarrow> isCrispScope e \<Longrightarrow> nulFree e"
  by (cases e rule: isCrispScope.cases) (auto simp: nulFree_def dest!: matchScope_known)

lemma exactScope_nulFree [simp]: "nulFree (exactScope s)"
  by (simp add: nulFree_def)

text \<open>The exact entries of a parent are looked up by a key in which the matcher is not quoted: an entry whose matcher
  holds a NUL, which grants nothing, has the key of another entry, which a child is then allowed to hold.\<close>

lemma nul_matcher_widens:
  "let outer = CrispScope (Str ''b'') (Str (''exact'' @ [CHR 0x00] @ ''a'')); inner = CrispScope (Str (''a'' @ [CHR 0x00] @ ''b'')) (Str ''exact'')
   in authorityContains rx [outer] inner \<and> \<not> matcherContains rx outer inner \<and>
      matchEntry rx inner (''a'' @ [CHR 0x00] @ ''b'') = Inr True \<and> matchEntry rx outer (''a'' @ [CHR 0x00] @ ''b'') = Inr False"
  by (simp add: authorityContains_def Let_def js_set_def js_add_def matchScope_def)

subsection \<open>What a credential grants\<close>

definition grants :: "regexp \<Rightarrow> delegationCredential \<Rightarrow> string \<Rightarrow> bool" where
  "grants rx vc v \<longleftrightarrow> (\<exists>e \<in> set (scopeAuthority vc). matchEntry rx e v = Inr True)"

lemma satisfyCrisp_sound:
  "satisfyCrisp rx v es = Inr r \<Longrightarrow> satisfied r \<longleftrightarrow> (\<exists>e \<in> set es. matchEntry rx e v = Inr True)"
  by (induction es) (auto split: sum.splits bool.splits)

lemma satisfyCrisp_total:
  "(\<And>e. e \<in> set es \<Longrightarrow> isCrispScope e) \<Longrightarrow> \<exists>r. satisfyCrisp rx v es = Inr r"
  by (induction es) (use matchEntry_typed in \<open>fastforce split: bool.splits\<close>)+

lemma grants_iff:
  "grants rx vc v \<longleftrightarrow> v \<in> set (flatScopes vc) \<or> (\<exists>e \<in> set (crispScopes vc). matchEntry rx e v = Inr True)"
  by (auto simp: grants_def scopeAuthority_def image_Un bex_Un)

lemma grants_flat: "v \<in> set (flatScopes vc) \<Longrightarrow> grants rx vc v"
  by (simp add: grants_iff)

text \<open>\<open>scopeSatisfies\<close> decides exactly the credential's scope authority: when it answers,
  the required scope is satisfied if and only if some entry of the authority matches it.\<close>

theorem scopeSatisfies_decides_authority:
  assumes "scopeSatisfies rx v vc = Inr r"
  shows "satisfied r \<longleftrightarrow> (\<exists>e \<in> set (scopeAuthority vc). matchEntry rx e v = Inr True)"
  using assms satisfyCrisp_sound [of rx v "crispScopes vc" r]
  by (auto simp: scopeSatisfies_def grants_iff [unfolded grants_def] split: if_splits)

theorem scopeSatisfies_decides_authority_witness:
  "\<exists>e \<in> set (scopeAuthority \<lparr>vc_id = None, vc_issuer = IssuerOther, vc_expirationDate = None,
      vc_delegation = Some \<lparr>d_id = ''d'', d_issuerDid = ''i'', d_subjectDid = ''s'', d_parentId = None,
        d_scopes = Some [''read''], d_constraints = None\<rparr>, vc_credentialStatus = None\<rparr>).
     matchEntry (\<lambda>_ _. None) e ''read'' = Inr True"
  by (rule scopeSatisfies_decides_authority
      [where r = "\<lparr>satisfied = True, usedNonExactMatcher = False\<rparr>", THEN iffD1])
    (simp_all add: scopeSatisfies_def flatScopes_def)

lemma scopeSatisfies_total:
  "(\<And>e. e \<in> set (crispScopes vc) \<Longrightarrow> isCrispScope e) \<Longrightarrow> \<exists>r. scopeSatisfies rx v vc = Inr r"
  using satisfyCrisp_total [of "crispScopes vc" rx v] by (auto simp: scopeSatisfies_def)

text \<open>A non-exact match is reported as such: an exact answer came from an exactly equal scope.\<close>

lemma satisfyCrisp_exact:
  "satisfyCrisp rx v es = Inr r \<Longrightarrow> satisfied r \<Longrightarrow> \<not> usedNonExactMatcher r \<Longrightarrow> exactScope v \<in> set es"
proof (induction es)
  case Nil
  then show ?case by auto
next
  case (Cons e es)
  show ?case
  proof (cases "matchEntry rx e v")
    case (Inr b)
    with Cons show ?thesis
      by (cases b; cases "(rx, e, v)" rule: matchEntry.cases) (auto split: js_value.splits)
  qed (use Cons.prems in simp)
qed

end
