(* ===== verification/Chain_Enforcement.thy ===== *)
theory Chain_Enforcement
  imports Scope_Matcher
begin

text \<open>
  \<open>src/delegation/chain-enforcement.ts\<close>: the leaf-to-root walk over a delegation chain.
  The ports the host injects (per-credential verifier, ancestor resolver, revocation
  checker) and \<open>Date.parse\<close> are fields of \<open>chainDeps\<close>; a port that throws returns \<open>Inl\<close>.
\<close>

subsection \<open>Scopes and attenuation\<close>

definition getDelegationScopes :: "delegationCredential \<Rightarrow> string list" where
  "getDelegationScopes vc = js_set (flatScopes vc)"

datatype attenuation =
    Attenuated
  | OmitsScopes
  | WidensMatchers "crispScope list"
  | WidensScopes "string list"

definition validateScopeAttenuation ::
  "regexp \<Rightarrow> delegationCredential \<Rightarrow> delegationCredential \<Rightarrow> attenuation" where
  "validateScopeAttenuation rx parent child =
     (let parentAuthority = scopeAuthority parent
      in if parentAuthority = [] then Attenuated
         else
           (let childScopes = getDelegationScopes child; childMatchers = crispScopes child
            in if childScopes = [] \<and> childMatchers = [] then OmitsScopes
               else
                 (let withinParent = authorityContains rx parentAuthority;
                      widenedMatchers = filter (\<lambda>s. \<not> withinParent s) childMatchers;
                      widenedScopes = filter (\<lambda>s. \<not> withinParent (exactScope s)) childScopes
                  in if widenedMatchers \<noteq> [] then WidensMatchers widenedMatchers
                     else if widenedScopes \<noteq> [] then WidensScopes widenedScopes
                     else Attenuated)))"

subsection \<open>Ports and results\<close>

record verification =
  v_valid :: bool
  v_reason :: "string option"

record revocationAnswer =
  r_revoked :: bool
  r_reason :: "string option"
  r_revokedAncestor :: "string option"

record chainDeps =
  serverDid :: string
  verifyDelegationCredential :: "delegationCredential \<Rightarrow> bool \<Rightarrow> verification"
  resolveDelegationChain :: "(delegationCredential \<Rightarrow> string + delegationCredential list) option"
  statusListConfigured :: bool
  revocationChecker :: "(string \<Rightarrow> string + revocationAnswer) option"
  trustedRootIssuers :: "string list option"
  maxChainLength :: "js_number option"
  dateParse :: "string \<Rightarrow> int option"
  regexpEngine :: regexp

text \<open>One constructor per rejection of the source, in its order.\<close>

datatype chainReason =
    MalformedLeaf
  | NoResolver
  | ResolveFailed string
  | EmptyChain
  | MustEndWithLeaf
  | BadMaxChainLength
  | ChainTooLong nat
  | CircularReference string
  | NoStatusListResolver string
  | CredentialInvalid string "string option"
  | AudienceMismatch string
  | MissingAudience string
  | IncompleteChain string
  | UntrustedRoot string
  | ParentMismatch string
  | IssuerMismatch string
  | SignerMismatch string
  | NotAttenuated attenuation
  | EndedElsewhere
  | RevocationCheckFailed string string
  | RevokedViaAncestor string
  | RevokedLeaf "string option"

datatype chainOutcome =
    ChainValid (expiresAt: "int option") (warnings: "string list")
  | ChainInvalid chainReason
  | ChainThrew

subsection \<open>Assembling the chain\<close>

text \<open>\<open>findIndex\<close> over the resolved chain; reading a credential without a delegation throws.\<close>

fun findDelegation :: "string \<Rightarrow> delegationCredential list \<Rightarrow> type_error + nat option" where
  "findDelegation i [] = Inr None"
| "findDelegation i (c # cs) = (case vc_delegation c of
       None \<Rightarrow> Inl TypeError
     | Some d \<Rightarrow>
         (if d_id d = i then Inr (Some 0)
          else (case findDelegation i cs of Inl e \<Rightarrow> Inl e | Inr r \<Rightarrow> Inr (map_option Suc r))))"

definition assembleChain ::
  "chainDeps \<Rightarrow> delegationCredential \<Rightarrow> delegationSubject \<Rightarrow> chainOutcome + delegationCredential list" where
  "assembleChain deps leaf leafDelegation =
     (if truthy (d_parentId leafDelegation) then
        (case resolveDelegationChain deps of
           None \<Rightarrow> Inl (ChainInvalid NoResolver)
         | Some resolve \<Rightarrow> (case resolve leaf of
             Inl e \<Rightarrow> Inl (ChainInvalid (ResolveFailed e))
           | Inr resolved \<Rightarrow>
               (if resolved = [] then Inl (ChainInvalid EmptyChain)
                else (case findDelegation (d_id leafDelegation) resolved of
                    Inl e \<Rightarrow> Inl ChainThrew
                  | Inr None \<Rightarrow> Inr (resolved @ [leaf])
                  | Inr (Some i) \<Rightarrow>
                      (if i \<noteq> length resolved - 1 then Inl (ChainInvalid MustEndWithLeaf)
                       else Inr (butlast resolved @ [leaf]))))))
      else Inr [leaf])"

definition checkLength :: "chainDeps \<Rightarrow> nat \<Rightarrow> chainReason option" where
  "checkLength deps n = (case maxChainLength deps of
       None \<Rightarrow> None
     | Some JsNonInteger \<Rightarrow> Some BadMaxChainLength
     | Some (JsInteger k) \<Rightarrow>
         (if k < 1 then Some BadMaxChainLength
          else if k < int n then Some (ChainTooLong n) else None))"

subsection \<open>The walk\<close>

record walkState =
  ws_expiresAt :: "int option"
  ws_warnings :: "string list"
  ws_seenIds :: "string list"
  ws_previous :: "(delegationSubject \<times> delegationCredential) option"

definition initialWalk :: walkState where
  "initialWalk = \<lparr>ws_expiresAt = None, ws_warnings = [], ws_seenIds = [], ws_previous = None\<rparr>"

fun earlier :: "int option \<Rightarrow> int option \<Rightarrow> int option" where
  "earlier e None = e"
| "earlier None (Some d) = Some d"
| "earlier (Some e) (Some d) = Some (min e d)"

definition expiryDeadline :: "chainDeps \<Rightarrow> delegationCredential \<Rightarrow> int option" where
  "expiryDeadline deps c =
     (case vc_expirationDate c of None \<Rightarrow> None
      | Some s \<Rightarrow> if s = [] then None else dateParse deps s)"

definition constraintDeadline :: "delegationConstraints \<Rightarrow> int option" where
  "constraintDeadline k = map_option (\<lambda>t. t * 1000) (k_notAfter k)"

definition checkRoot :: "chainDeps \<Rightarrow> delegationSubject \<Rightarrow> string option \<Rightarrow> chainReason option" where
  "checkRoot deps d signer =
     (if truthy (d_parentId d) then Some (IncompleteChain (d_id d))
      else (case trustedRootIssuers deps of
          None \<Rightarrow> None
        | Some trusted \<Rightarrow>
            (case signer of
               None \<Rightarrow> Some (UntrustedRoot (d_id d))
             | Some s \<Rightarrow> if s \<in> set trusted then None else Some (UntrustedRoot (d_id d)))))"

definition checkLink ::
  "chainDeps \<Rightarrow> delegationSubject \<Rightarrow> delegationCredential \<Rightarrow> delegationSubject \<Rightarrow> delegationCredential
    \<Rightarrow> string option \<Rightarrow> chainReason option" where
  "checkLink deps pd pc d c signer =
     (if d_parentId d \<noteq> Some (d_id pd) then Some (ParentMismatch (d_id d))
      else if d_issuerDid d \<noteq> d_subjectDid pd then Some (IssuerMismatch (d_id d))
      else if signer \<noteq> Some (d_subjectDid pd) then Some (SignerMismatch (d_id d))
      else (case validateScopeAttenuation (regexpEngine deps) pc c of
          Attenuated \<Rightarrow> None
        | a \<Rightarrow> Some (NotAttenuated a)))"

definition checkCredential ::
  "chainDeps \<Rightarrow> bool \<Rightarrow> walkState \<Rightarrow> delegationCredential \<Rightarrow> chainOutcome + walkState" where
  "checkCredential deps skipSignature st c = (case vc_delegation c of
     None \<Rightarrow> Inl ChainThrew
   | Some d \<Rightarrow>
     (if d_id d \<in> set (ws_seenIds st) then Inl (ChainInvalid (CircularReference (d_id d)))
      else if vc_credentialStatus c \<noteq> None \<and> \<not> statusListConfigured deps
        then Inl (ChainInvalid (NoStatusListResolver (d_id d)))
      else
        (let verdict = verifyDelegationCredential deps c skipSignature
         in if \<not> v_valid verdict then Inl (ChainInvalid (CredentialInvalid (d_id d) (v_reason verdict)))
            else (case d_constraints d of
                None \<Rightarrow> Inl ChainThrew
              | Some k \<Rightarrow>
                  (let expires = earlier (earlier (ws_expiresAt st) (expiryDeadline deps c)) (constraintDeadline k);
                       seen = js_add (d_id d) (ws_seenIds st);
                       signer = credentialIssuerDid c
                   in if \<not> verifyDelegationAudience k (serverDid deps)
                        then Inl (ChainInvalid (AudienceMismatch (d_id d)))
                      else if truthy (d_parentId d) \<and> \<not> audienceTruthy (k_audience k)
                        then Inl (ChainInvalid (MissingAudience (d_id d)))
                      else (case ws_previous st of
                          None \<Rightarrow> (case checkRoot deps d signer of
                              Some r \<Rightarrow> Inl (ChainInvalid r)
                            | None \<Rightarrow> Inr \<lparr>ws_expiresAt = expires,
                                ws_warnings = (if signer \<noteq> Some (d_issuerDid d)
                                   then ws_warnings st @ [d_id d] else ws_warnings st),
                                ws_seenIds = seen, ws_previous = Some (d, c)\<rparr>)
                        | Some (pd, pc) \<Rightarrow> (case checkLink deps pd pc d c signer of
                              Some r \<Rightarrow> Inl (ChainInvalid r)
                            | None \<Rightarrow> Inr \<lparr>ws_expiresAt = expires, ws_warnings = ws_warnings st,
                                ws_seenIds = seen, ws_previous = Some (d, c)\<rparr>)))))))"

text \<open>
  The leaf is the last credential of the assembled chain, and the only one whose signature
  the caller may have checked already (\<open>credential === leafCredential\<close>).
\<close>

fun walkChain ::
  "chainDeps \<Rightarrow> bool \<Rightarrow> delegationCredential list \<Rightarrow> walkState \<Rightarrow> chainOutcome + walkState" where
  "walkChain deps skipSignature [] st = Inr st"
| "walkChain deps skipSignature (c # cs) st =
     (case checkCredential deps (skipSignature \<and> cs = []) st c of
        Inl out \<Rightarrow> Inl out
      | Inr st' \<Rightarrow> walkChain deps skipSignature cs st')"

subsection \<open>Graph-backed revocation of the verified chain\<close>

fun checkRevocations ::
  "(string \<Rightarrow> string + revocationAnswer) \<Rightarrow> string \<Rightarrow> delegationCredential list \<Rightarrow> chainOutcome option" where
  "checkRevocations isRevoked leafId [] = None"
| "checkRevocations isRevoked leafId (c # cs) = (case vc_delegation c of
       None \<Rightarrow> Some ChainThrew
     | Some d \<Rightarrow> (case isRevoked (d_id d) of
         Inl e \<Rightarrow> Some (ChainInvalid (RevocationCheckFailed (d_id d) e))
       | Inr answer \<Rightarrow>
           (if \<not> r_revoked answer then checkRevocations isRevoked leafId cs
            else
              (let ancestor = (case r_revokedAncestor answer of
                     Some a \<Rightarrow> Some a
                   | None \<Rightarrow> if d_id d = leafId then None else Some (d_id d))
               in Some (ChainInvalid
                    (if truthy ancestor then RevokedViaAncestor (the ancestor)
                     else RevokedLeaf (r_reason answer)))))))"

definition validateDelegationChain ::
  "chainDeps \<Rightarrow> delegationCredential \<Rightarrow> bool \<Rightarrow> chainOutcome" where
  "validateDelegationChain deps leaf skipSignature = (case vc_delegation leaf of
     None \<Rightarrow> ChainInvalid MalformedLeaf
   | Some leafDelegation \<Rightarrow>
     (if d_constraints leafDelegation = None then ChainInvalid MalformedLeaf
      else (case assembleChain deps leaf leafDelegation of
          Inl out \<Rightarrow> out
        | Inr chain \<Rightarrow> (case checkLength deps (length chain) of
            Some r \<Rightarrow> ChainInvalid r
          | None \<Rightarrow> (case walkChain deps skipSignature chain initialWalk of
              Inl out \<Rightarrow> out
            | Inr st \<Rightarrow>
                (if map_option d_id (vc_delegation (last chain)) \<noteq> Some (d_id leafDelegation)
                 then ChainInvalid EndedElsewhere
                 else (case revocationChecker deps of
                     None \<Rightarrow> ChainValid (ws_expiresAt st) (ws_warnings st)
                   | Some isRevoked \<Rightarrow> (case checkRevocations isRevoked (d_id leafDelegation) chain of
                       Some out \<Rightarrow> out
                     | None \<Rightarrow> ChainValid (ws_expiresAt st) (ws_warnings st)))))))))"

end
