(* ===== verification/Chain_Safety.thy ===== *)
theory Chain_Safety
  imports Chain_Enforcement
begin

text \<open>
  What an accepted chain guarantees: a declarative specification of the chain walk, its
  equivalence with \<open>validateDelegationChain\<close>, and the authority, expiry and revocation
  consequences.
\<close>

subsection \<open>Specification of one credential and of one link\<close>

definition credentialOk :: "chainDeps \<Rightarrow> bool \<Rightarrow> delegationCredential \<Rightarrow> bool" where
  "credentialOk deps skip c \<longleftrightarrow> (\<exists>d k. vc_delegation c = Some d \<and> d_constraints d = Some k \<and>
     (vc_credentialStatus c \<noteq> None \<longrightarrow> statusListConfigured deps) \<and>
     v_valid (verifyDelegationCredential deps c skip) \<and>
     verifyDelegationAudience k (serverDid deps) \<and>
     (truthy (d_parentId d) \<longrightarrow> audienceTruthy (k_audience k)))"

definition idOf :: "delegationCredential \<Rightarrow> string" where
  "idOf c = d_id (the (vc_delegation c))"

definition subjectOf :: "delegationCredential \<Rightarrow> string" where
  "subjectOf c = d_subjectDid (the (vc_delegation c))"

definition rootOk :: "chainDeps \<Rightarrow> delegationCredential \<Rightarrow> bool" where
  "rootOk deps c \<longleftrightarrow> \<not> truthy (d_parentId (the (vc_delegation c))) \<and>
     (\<forall>trusted. trustedRootIssuers deps = Some trusted \<longrightarrow>
        (\<exists>s \<in> set trusted. credentialIssuerDid c = Some s))"

definition linkOk :: "chainDeps \<Rightarrow> delegationCredential \<Rightarrow> delegationCredential \<Rightarrow> bool" where
  "linkOk deps p c \<longleftrightarrow>
     d_parentId (the (vc_delegation c)) = Some (idOf p) \<and>
     d_issuerDid (the (vc_delegation c)) = subjectOf p \<and>
     credentialIssuerDid c = Some (subjectOf p) \<and>
     validateScopeAttenuation (regexpEngine deps) p c = Attenuated"

lemma checkRoot_None_iff:
  "vc_delegation c = Some d \<Longrightarrow> checkRoot deps d (credentialIssuerDid c) = None \<longleftrightarrow> rootOk deps c"
  by (auto simp: checkRoot_def rootOk_def split: option.splits)

lemma checkLink_None_iff:
  "vc_delegation c = Some d \<Longrightarrow> vc_delegation p = Some pd \<Longrightarrow>
     checkLink deps pd p d c (credentialIssuerDid c) = None \<longleftrightarrow> linkOk deps p c"
  by (auto simp: checkLink_def linkOk_def idOf_def subjectOf_def split: attenuation.splits)

definition nextExpiry :: "chainDeps \<Rightarrow> delegationCredential \<Rightarrow> int option \<Rightarrow> int option" where
  "nextExpiry deps c e = earlier (earlier e (expiryDeadline deps c))
     (constraintDeadline (the (vc_constraints c)))"

definition rootWarnings :: "delegationCredential \<Rightarrow> string list" where
  "rootWarnings c =
     (if credentialIssuerDid c \<noteq> Some (d_issuerDid (the (vc_delegation c))) then [idOf c] else [])"

definition nextWalk :: "chainDeps \<Rightarrow> walkState \<Rightarrow> delegationCredential \<Rightarrow> walkState" where
  "nextWalk deps st c = \<lparr>
     ws_expiresAt = nextExpiry deps c (ws_expiresAt st),
     ws_warnings = (if ws_previous st = None then ws_warnings st @ rootWarnings c else ws_warnings st),
     ws_seenIds = js_add (idOf c) (ws_seenIds st),
     ws_previous = Some (the (vc_delegation c), c)\<rparr>"

text \<open>The previous credential of a walk state is stored with its own delegation.\<close>

definition walkWf :: "walkState \<Rightarrow> bool" where
  "walkWf st \<longleftrightarrow> (\<forall>pd p. ws_previous st = Some (pd, p) \<longrightarrow> vc_delegation p = Some pd)"

definition stepOk :: "chainDeps \<Rightarrow> bool \<Rightarrow> walkState \<Rightarrow> delegationCredential \<Rightarrow> bool" where
  "stepOk deps skip st c \<longleftrightarrow> credentialOk deps skip c \<and> idOf c \<notin> set (ws_seenIds st) \<and>
     (case ws_previous st of None \<Rightarrow> rootOk deps c | Some (_, p) \<Rightarrow> linkOk deps p c)"

lemma checkCredential_Inr_iff:
  assumes "walkWf st"
  shows "checkCredential deps skip st c = Inr st' \<longleftrightarrow> stepOk deps skip st c \<and> st' = nextWalk deps st c"
proof (cases "vc_delegation c")
  case None
  then show ?thesis by (simp add: checkCredential_def stepOk_def credentialOk_def)
next
  case (Some d)
  show ?thesis
  proof (cases "d_constraints d")
    case None
    with Some show ?thesis
      by (auto simp: checkCredential_def stepOk_def credentialOk_def Let_def)
  next
    case (Some k)
    note dk = \<open>vc_delegation c = Some d\<close> Some
    show ?thesis
    proof (cases "ws_previous st")
      case None
      with dk show ?thesis
        by (auto simp: checkCredential_def stepOk_def credentialOk_def Let_def nextWalk_def
            nextExpiry_def rootWarnings_def idOf_def vc_constraints_def
            checkRoot_None_iff [symmetric] split: option.splits)
    next
      case (Some q)
      obtain pd p where q: "q = (pd, p)" by (cases q)
      with Some assms have "vc_delegation p = Some pd" by (simp add: walkWf_def)
      with dk Some q show ?thesis
        by (auto simp: checkCredential_def stepOk_def credentialOk_def Let_def nextWalk_def
            nextExpiry_def idOf_def vc_constraints_def checkLink_None_iff [symmetric]
            split: option.splits)
    qed
  qed
qed

lemma walkWf_next: "credentialOk deps skip c \<Longrightarrow> walkWf (nextWalk deps st c)"
  by (auto simp: walkWf_def nextWalk_def credentialOk_def)

subsection \<open>Specification of the walk\<close>

fun linkedFrom :: "chainDeps \<Rightarrow> delegationCredential option \<Rightarrow> delegationCredential list \<Rightarrow> bool" where
  "linkedFrom deps prev [] = True"
| "linkedFrom deps None (c # cs) = (rootOk deps c \<and> linkedFrom deps (Some c) cs)"
| "linkedFrom deps (Some p) (c # cs) = (linkOk deps p c \<and> linkedFrom deps (Some c) cs)"

fun credentialsOk :: "chainDeps \<Rightarrow> bool \<Rightarrow> delegationCredential list \<Rightarrow> bool" where
  "credentialsOk deps skip [] = True"
| "credentialsOk deps skip (c # cs) =
     (credentialOk deps (skip \<and> cs = []) c \<and> credentialsOk deps skip cs)"

lemma walkChain_Inr_iff:
  assumes "walkWf st"
  shows "walkChain deps skip cs st = Inr st' \<longleftrightarrow>
     credentialsOk deps skip cs \<and> linkedFrom deps (map_option snd (ws_previous st)) cs \<and>
     distinct (map idOf cs) \<and> set (map idOf cs) \<inter> set (ws_seenIds st) = {} \<and>
     st' = foldl (nextWalk deps) st cs"
  using assms
proof (induction cs arbitrary: st)
  case Nil
  then show ?case by auto
next
  case (Cons c cs)
  show ?case
  proof (cases "stepOk deps (skip \<and> cs = []) st c")
    case True
    then have ok: "checkCredential deps (skip \<and> cs = []) st c = Inr (nextWalk deps st c)"
      using checkCredential_Inr_iff [OF Cons.prems] by blast
    from True have "walkWf (nextWalk deps st c)"
      by (auto simp: stepOk_def intro: walkWf_next)
    from Cons.IH [OF this] True ok show ?thesis
      by (cases "ws_previous st") (auto simp: stepOk_def nextWalk_def)
  next
    case False
    then have "\<forall>x. checkCredential deps (skip \<and> cs = []) st c \<noteq> Inr x"
      using checkCredential_Inr_iff [OF Cons.prems] by blast
    then obtain out where "checkCredential deps (skip \<and> cs = []) st c = Inl out"
      by (cases "checkCredential deps (skip \<and> cs = []) st c") auto
    with False show ?thesis
      by (cases "ws_previous st") (auto simp: stepOk_def)
  qed
qed

lemma walk_expiresAt:
  "ws_expiresAt (foldl (nextWalk deps) st cs) = fold (nextExpiry deps) cs (ws_expiresAt st)"
  by (induction cs arbitrary: st) (auto simp: nextWalk_def)

lemma walk_warnings:
  "ws_previous st \<noteq> None \<Longrightarrow> ws_warnings (foldl (nextWalk deps) st cs) = ws_warnings st"
  by (induction cs arbitrary: st) (auto simp: nextWalk_def)

text \<open>The specification of an acceptable chain, root first.\<close>

definition chainOk :: "chainDeps \<Rightarrow> bool \<Rightarrow> delegationCredential list \<Rightarrow> bool" where
  "chainOk deps skip chain \<longleftrightarrow> chain \<noteq> [] \<and> checkLength deps (length chain) = None \<and>
     credentialsOk deps skip chain \<and> linkedFrom deps None chain \<and> distinct (map idOf chain)"

definition notRevoked :: "chainDeps \<Rightarrow> delegationCredential list \<Rightarrow> bool" where
  "notRevoked deps chain \<longleftrightarrow> (\<forall>isRevoked. revocationChecker deps = Some isRevoked \<longrightarrow>
     (\<forall>c \<in> set chain. \<exists>a. isRevoked (idOf c) = Inr a \<and> \<not> r_revoked a))"

definition earliestExpiry :: "chainDeps \<Rightarrow> delegationCredential list \<Rightarrow> int option" where
  "earliestExpiry deps chain = fold (nextExpiry deps) chain None"

lemma credentialsOk_delegation:
  "credentialsOk deps skip cs \<Longrightarrow> c \<in> set cs \<Longrightarrow> \<exists>d k. vc_delegation c = Some d \<and> d_constraints d = Some k"
  by (induction cs) (auto simp: credentialOk_def)

lemma checkRevocations_None_iff:
  "(\<And>c. c \<in> set cs \<Longrightarrow> vc_delegation c \<noteq> None) \<Longrightarrow>
     checkRevocations isRevoked leafId cs = None \<longleftrightarrow>
     (\<forall>c \<in> set cs. \<exists>a. isRevoked (idOf c) = Inr a \<and> \<not> r_revoked a)"
proof (induction cs)
  case (Cons c cs)
  from Cons.prems [of c] obtain d where "vc_delegation c = Some d" by auto
  with Cons show ?case by (auto simp: idOf_def Let_def split: sum.splits)
qed simp

lemma checkRevocations_never_valid: "checkRevocations isRevoked leafId cs \<noteq> Some (ChainValid e w)"
  by (induction cs) (auto simp: Let_def split: option.splits sum.splits)

lemma checkCredential_Inl: "checkCredential deps skip st c = Inl out \<Longrightarrow> out \<noteq> ChainValid e w"
  by (auto simp: checkCredential_def Let_def split: option.splits if_splits)

lemma walkChain_Inl: "walkChain deps skip cs st = Inl out \<Longrightarrow> out \<noteq> ChainValid e w"
  by (induction cs arbitrary: st) (auto dest: checkCredential_Inl split: sum.splits)

lemma assembleChain_Inl: "assembleChain deps leaf d = Inl out \<Longrightarrow> out \<noteq> ChainValid e w"
  by (auto simp: assembleChain_def split: if_splits option.splits sum.splits)

lemma assembleChain_Inr:
  "assembleChain deps leaf d = Inr chain \<Longrightarrow> chain \<noteq> [] \<and> last chain = leaf"
  by (auto simp: assembleChain_def split: if_splits option.splits sum.splits)

lemma initial_walkWf [simp]: "walkWf initialWalk"
  by (simp add: walkWf_def initialWalk_def)

lemma walk_initial:
  "walkChain deps skip chain initialWalk = Inr st \<longleftrightarrow>
     credentialsOk deps skip chain \<and> linkedFrom deps None chain \<and> distinct (map idOf chain) \<and>
     st = foldl (nextWalk deps) initialWalk chain"
  by (simp add: walkChain_Inr_iff) (simp add: initialWalk_def)

lemma validateDelegationChain_char:
  "validateDelegationChain deps leaf skip = ChainValid e w \<longleftrightarrow>
     (\<exists>d chain. vc_delegation leaf = Some d \<and> d_constraints d \<noteq> None \<and>
        assembleChain deps leaf d = Inr chain \<and> chainOk deps skip chain \<and> notRevoked deps chain \<and>
        e = earliestExpiry deps chain \<and> w = rootWarnings (hd chain))"
  (is "?lhs \<longleftrightarrow> ?rhs")
proof (cases "vc_delegation leaf")
  case None
  then show ?thesis by (simp add: validateDelegationChain_def)
next
  case (Some d)
  note d = this
  show ?thesis
  proof (cases "d_constraints d \<noteq> None \<and> (\<exists>chain. assembleChain deps leaf d = Inr chain)")
    case False
    with d show ?thesis
      by (auto simp: validateDelegationChain_def dest: assembleChain_Inl split: sum.splits)
  next
    case True
    then obtain chain where chain: "assembleChain deps leaf d = Inr chain" and k: "d_constraints d \<noteq> None"
      by blast
    note shape = assembleChain_Inr [OF chain]
    have w: "ws_warnings (foldl (nextWalk deps) initialWalk chain) = rootWarnings (hd chain)"
      using shape by (cases chain) (auto simp: walk_warnings, simp_all add: nextWalk_def initialWalk_def walk_warnings)
    have e: "ws_expiresAt (foldl (nextWalk deps) initialWalk chain) = earliestExpiry deps chain"
      by (simp add: walk_expiresAt earliestExpiry_def initialWalk_def)
    show ?thesis
    proof (cases "walkChain deps skip chain initialWalk")
      case (Inl out)
      then have "\<not> chainOk deps skip chain"
        using walk_initial [of deps skip chain] by (auto simp: chainOk_def)
      with Inl d k chain show ?thesis
        by (auto simp: validateDelegationChain_def dest: walkChain_Inl split: option.splits)
    next
      case (Inr st)
      then have ok: "credentialsOk deps skip chain" "linkedFrom deps None chain" "distinct (map idOf chain)"
        and st: "st = foldl (nextWalk deps) initialWalk chain"
        using walk_initial [of deps skip chain st] by auto
      have "\<And>c. c \<in> set chain \<Longrightarrow> vc_delegation c \<noteq> None"
        using credentialsOk_delegation [OF ok(1)] by fastforce
      from checkRevocations_None_iff [OF this]
      have rev: "(\<forall>f. revocationChecker deps = Some f \<longrightarrow> checkRevocations f (d_id d) chain = None)
          \<longleftrightarrow> notRevoked deps chain"
        by (auto simp: notRevoked_def)
      show ?thesis
        using Inr d k chain shape ok st w e rev checkRevocations_never_valid
        by (auto simp: validateDelegationChain_def chainOk_def split: option.splits)
    qed
  qed
qed

text \<open>C5: the walk accepts exactly the chains the specification describes. \<open>validateDelegationChain\<close>
  answers valid if and only if the leaf is well formed, its chain can be assembled, every
  credential passes its own checks, the chain is linked from an acceptable root, its ids are
  distinct, its length is allowed and no credential of it is revoked; the expiry it reports is
  the earliest one.\<close>

theorem validateDelegationChain_valid_iff:
  "validateDelegationChain deps leaf skip = ChainValid e w \<longleftrightarrow>
     (\<exists>d chain. vc_delegation leaf = Some d \<and> d_constraints d \<noteq> None \<and>
        assembleChain deps leaf d = Inr chain \<and> chainOk deps skip chain \<and> notRevoked deps chain \<and>
        e = earliestExpiry deps chain \<and> w = rootWarnings (hd chain))"
  by (rule validateDelegationChain_char)

subsection \<open>Authority\<close>

text \<open>What a credential grants up to dot segments.\<close>

definition grantsText :: "regexp \<Rightarrow> delegationCredential \<Rightarrow> string \<Rightarrow> bool" where
  "grantsText rx vc v \<longleftrightarrow> (\<exists>e \<in> set (scopeAuthority vc). textEntry rx e v)"

lemma grants_text: "grants rx vc v \<Longrightarrow> grantsText rx vc v"
  by (auto simp: grants_def grantsText_def dest: matchEntry_text)

lemma text_grants:
  assumes "grantsText rx vc v"
  shows "grants rx vc v \<or> hasDotSegment v \<and>
    (\<exists>pattern. CrispScope (Str pattern) (Str ''path-prefix'') \<in> set (scopeAuthority vc) \<and> underPattern pattern v)"
proof -
  from assms obtain e where e: "e \<in> set (scopeAuthority vc)" "textEntry rx e v" by (auto simp: grantsText_def)
  show ?thesis
  proof (cases "matcher e = Str ''path-prefix'' \<and> hasDotSegment v")
    case True
    then have "\<exists>pattern. e = CrispScope (Str pattern) (Str ''path-prefix'') \<and> underPattern pattern v"
      using e(2) by (cases "(rx, e, v)" rule: textEntry.cases) (auto simp: matchText_def)
    with True e(1) show ?thesis by blast
  next
    case False
    then show ?thesis using textEntry_match [OF e(2)] e(1) by (auto simp: grants_def)
  qed
qed

definition nulFreeScopes :: "delegationCredential \<Rightarrow> bool" where
  "nulFreeScopes vc \<longleftrightarrow> (\<forall>e \<in> set (scopeAuthority vc). nulFree e)"

lemma attenuated_entries:
  assumes "validateScopeAttenuation rx p c = Attenuated" and "scopeAuthority p \<noteq> []"
  shows "scopeAuthority c \<noteq> []"
    and "e \<in> set (scopeAuthority c) \<Longrightarrow> authorityContains rx (scopeAuthority p) e"
proof -
  have eq: "set (getDelegationScopes c) = set (flatScopes c)" by (simp add: getDelegationScopes_def)
  from assms have "\<not> (getDelegationScopes c = [] \<and> crispScopes c = [])"
    by (auto simp: validateScopeAttenuation_def Let_def split: if_splits)
  then show "scopeAuthority c \<noteq> []"
    using eq by (cases "flatScopes c") (auto simp: scopeAuthority_def getDelegationScopes_def js_set_def)
  from assms have "\<forall>s \<in> set (crispScopes c). authorityContains rx (scopeAuthority p) s"
    "\<forall>s \<in> set (flatScopes c). authorityContains rx (scopeAuthority p) (exactScope s)"
    by (auto simp: validateScopeAttenuation_def Let_def filter_empty_conv eq split: if_splits)
  then show "authorityContains rx (scopeAuthority p) e" if "e \<in> set (scopeAuthority c)"
    using that by (auto simp: scopeAuthority_def)
qed

text \<open>One hop: an attenuated child grants, up to dot segments, nothing its scope-restricted parent does not grant.\<close>

lemma attenuation_sound:
  assumes att: "validateScopeAttenuation rx p c = Attenuated" and restricted: "scopeAuthority p \<noteq> []"
    and nul: "nulFreeScopes p" and grant: "grantsText rx c v"
  shows "grantsText rx p v"
proof -
  from grant obtain e where e: "e \<in> set (scopeAuthority c)" "textEntry rx e v"
    by (auto simp: grantsText_def)
  from attenuated_entries(2) [OF att restricted e(1)] have within: "authorityContains rx (scopeAuthority p) e" .
  then have "isCrispScope e" by (simp add: authorityContains_def Let_def)
  with e(2) have "nulFree e" by (cases e rule: isCrispScope.cases) (auto simp: nulFree_def dest!: matchText_known)
  with within nul obtain b where "b \<in> set (scopeAuthority p)" "matcherContains rx b e"
    using authorityContains_iff [of e "scopeAuthority p" rx] by (auto simp: nulFreeScopes_def)
  with e(2) show ?thesis by (auto simp: grantsText_def dest: matcherContains_text)
qed

lemma linked_authority:
  assumes "linkedFrom deps (Some p) cs" and "scopeAuthority p \<noteq> []"
    and "\<And>c. c \<in> set (p # cs) \<Longrightarrow> nulFreeScopes c"
    and "grantsText (regexpEngine deps) (last (p # cs)) v"
  shows "grantsText (regexpEngine deps) p v"
  using assms
proof (induction cs arbitrary: p)
  case Nil
  then show ?case by simp
next
  case (Cons c cs)
  then have att: "validateScopeAttenuation (regexpEngine deps) p c = Attenuated"
    by (simp add: linkOk_def)
  have "grantsText (regexpEngine deps) c v"
    by (rule Cons.IH) (use Cons.prems attenuated_entries(1) [OF att] in \<open>auto split: if_splits\<close>)
  with att Cons.prems show ?case by (auto intro: attenuation_sound [OF att])
qed

lemma linkedFrom_suffix: "linkedFrom deps prev (xs @ p # ys) \<Longrightarrow> linkedFrom deps (Some p) ys"
proof (induction xs arbitrary: prev)
  case Nil
  then show ?case by (cases prev) auto
next
  case (Cons x xs)
  then show ?case by (cases prev) auto
qed

lemma valid_chain:
  assumes "validateDelegationChain deps leaf skip = ChainValid e w"
    and "vc_delegation leaf = Some d" and "assembleChain deps leaf d = Inr chain"
  shows "chainOk deps skip chain" and "notRevoked deps chain" and "e = earliestExpiry deps chain"
    and "last chain = leaf"
  using assms iffD1 [OF validateDelegationChain_char assms(1)] assembleChain_Inr [OF assms(3)]
  by auto

text \<open>C4: no escalation along a chain. In an accepted chain, whatever the leaf grants is granted by every credential of the
  chain that restricts scopes, at any distance above it, with one exception the code leaves: a value with a dot segment
  that lies, as a text, under a \<open>path-prefix\<close> entry of that credential. The entries' matcher names must be free of NUL
  (see \<open>nul_matcher_widens\<close>).\<close>

theorem accepted_chain_never_widens_authority:
  assumes "validateDelegationChain deps leaf skip = ChainValid e w"
    and "vc_delegation leaf = Some d" and "assembleChain deps leaf d = Inr chain"
    and "p \<in> set chain" and "scopeAuthority p \<noteq> []"
    and "\<forall>c \<in> set chain. nulFreeScopes c"
    and "grants (regexpEngine deps) leaf v"
  shows "grants (regexpEngine deps) p v \<or> hasDotSegment v \<and>
    (\<exists>pattern. CrispScope (Str pattern) (Str ''path-prefix'') \<in> set (scopeAuthority p) \<and> underPattern pattern v)"
proof -
  note valid = valid_chain [OF assms(1-3)]
  from assms(4) obtain xs ys where chain: "chain = xs @ p # ys" by (meson split_list)
  with valid(1) have "linkedFrom deps (Some p) ys"
    by (auto simp: chainOk_def intro: linkedFrom_suffix)
  then have "grantsText (regexpEngine deps) p v"
    by (rule linked_authority) (use assms(5,6) grants_text [OF assms(7)] valid(4) chain in \<open>auto split: if_splits\<close>)
  then show ?thesis by (rule text_grants)
qed

subsection \<open>Expiry\<close>

lemma earlier_le:
  "earlier a b = Some x \<Longrightarrow> (\<forall>y. a = Some y \<longrightarrow> x \<le> y) \<and> (\<forall>y. b = Some y \<longrightarrow> x \<le> y)"
  by (cases "(a, b)" rule: earlier.cases) auto

lemma earlier_Some: "a = Some x \<or> b = Some x \<Longrightarrow> \<exists>y. earlier a b = Some y \<and> y \<le> x"
  by (cases "(a, b)" rule: earlier.cases) auto

lemma nextExpiry_le:
  "t = expiryDeadline deps c \<or> t = constraintDeadline (the (vc_constraints c)) \<or> t = a \<Longrightarrow> t = Some x \<Longrightarrow>
     \<exists>y. nextExpiry deps c a = Some y \<and> y \<le> x"
  unfolding nextExpiry_def
  using earlier_Some [of a x "expiryDeadline deps c"]
    earlier_Some [of "earlier a (expiryDeadline deps c)" _ "constraintDeadline (the (vc_constraints c))"]
  by (metis order_trans)

lemma fold_nextExpiry_le: "a = Some x \<Longrightarrow> \<exists>y. fold (nextExpiry deps) cs a = Some y \<and> y \<le> x"
proof (induction cs arbitrary: a x)
  case (Cons c cs)
  from Cons.prems obtain y where "nextExpiry deps c a = Some y" "y \<le> x"
    using nextExpiry_le by blast
  with Cons.IH show ?case by fastforce
qed simp

text \<open>the reported expiry bounds the whole chain. If any credential of an accepted chain has a
  readable expiration date or a \<open>notAfter\<close> constraint, an expiry is reported and it is no later.\<close>

theorem accepted_chain_expiry_bound:
  assumes "validateDelegationChain deps leaf skip = ChainValid e w"
    and "vc_delegation leaf = Some d" and "assembleChain deps leaf d = Inr chain"
    and "c \<in> set chain"
    and "expiryDeadline deps c = Some t \<or> constraintDeadline (the (vc_constraints c)) = Some t"
  shows "\<exists>t'. e = Some t' \<and> t' \<le> t"
proof -
  from assms(4) obtain xs ys where chain: "chain = xs @ c # ys" by (meson split_list)
  obtain y where "nextExpiry deps c (fold (nextExpiry deps) xs None) = Some y" "y \<le> t"
    using nextExpiry_le assms(5) by metis
  then show ?thesis
    using fold_nextExpiry_le [of _ y deps ys] valid_chain(3) [OF assms(1-3)] chain
    by (fastforce simp: earliestExpiry_def)
qed

subsection \<open>A concrete chain\<close>

text \<open>A Responsible Party delegates two scopes to an agent, which re-delegates one of them.\<close>

definition exampleRoot :: delegationCredential where
  "exampleRoot = \<lparr>vc_id = Some ''urn:root'', vc_issuer = IssuerString ''did:key:rp'',
     vc_expirationDate = Some ''2030-01-01'',
     vc_delegation = Some \<lparr>d_id = ''root'', d_issuerDid = ''did:key:rp'', d_subjectDid = ''did:key:a'',
       d_parentId = None, d_scopes = Some [''read'', ''write''],
       d_constraints = Some \<lparr>k_notBefore = None, k_notAfter = None, k_scopes = None,
         k_audience = None, k_crispScopes = None\<rparr>\<rparr>,
     vc_credentialStatus = None\<rparr>"

definition exampleLeaf :: delegationCredential where
  "exampleLeaf = \<lparr>vc_id = Some ''urn:leaf'', vc_issuer = IssuerObject (Some ''did:key:a''),
     vc_expirationDate = None,
     vc_delegation = Some \<lparr>d_id = ''leaf'', d_issuerDid = ''did:key:a'', d_subjectDid = ''did:key:b'',
       d_parentId = Some ''root'', d_scopes = Some [''read''],
       d_constraints = Some \<lparr>k_notBefore = None, k_notAfter = Some 1800000000, k_scopes = None,
         k_audience = Some (AudienceOne ''did:web:srv''), k_crispScopes = None\<rparr>\<rparr>,
     vc_credentialStatus = None\<rparr>"

definition exampleDeps :: chainDeps where
  "exampleDeps = \<lparr>serverDid = ''did:web:srv'',
     verifyDelegationCredential = (\<lambda>_ _. \<lparr>v_valid = True, v_reason = None\<rparr>),
     resolveDelegationChain = Some (\<lambda>_. Inr [exampleRoot]),
     statusListConfigured = False,
     revocationChecker = Some (\<lambda>_. Inr \<lparr>r_revoked = False, r_reason = None, r_revokedAncestor = None\<rparr>),
     trustedRootIssuers = Some [''did:key:rp''],
     maxChainLength = Some (JsInteger 3),
     dateParse = (\<lambda>_. Some 1893456000000),
     regexpEngine = (\<lambda>_ _. None)\<rparr>"

lemmas example_defs = exampleRoot_def exampleLeaf_def exampleDeps_def

lemma example_assembled:
  "assembleChain exampleDeps exampleLeaf (the (vc_delegation exampleLeaf)) = Inr [exampleRoot, exampleLeaf]"
  by (simp add: assembleChain_def example_defs)

lemma example_valid:
  "validateDelegationChain exampleDeps exampleLeaf True = ChainValid (Some 1800000000000) []"
  by (simp add: validateDelegationChain_def assembleChain_def checkLength_def checkCredential_def
      initialWalk_def example_defs Let_def verifyDelegationAudience_def credentialIssuerDid_def
      checkRoot_def checkLink_def expiryDeadline_def constraintDeadline_def js_add_def
      validateScopeAttenuation_def scopeAuthority_def flatScopes_def crispScopes_def vc_constraints_def
      getDelegationScopes_def js_set_def authorityContains_def)

lemma example_nulFree: "\<forall>c \<in> set [exampleRoot, exampleLeaf]. nulFreeScopes c"
  by (simp add: nulFreeScopes_def scopeAuthority_def flatScopes_def crispScopes_def vc_constraints_def
      example_defs)

theorem accepted_chain_never_widens_authority_witness:
  "grants (regexpEngine exampleDeps) exampleRoot ''read''"
proof -
  have "vc_delegation exampleLeaf = Some (the (vc_delegation exampleLeaf))" "exampleRoot \<in> set [exampleRoot, exampleLeaf]"
    "scopeAuthority exampleRoot \<noteq> []" "grants (regexpEngine exampleDeps) exampleLeaf ''read''"
    by (simp_all add: exampleLeaf_def grants_iff flatScopes_def scopeAuthority_def exampleRoot_def)
  from accepted_chain_never_widens_authority [OF example_valid this(1) example_assembled this(2,3) example_nulFree this(4)]
  show ?thesis by (auto simp: hasDotSegment_def)
qed

theorem accepted_chain_expiry_bound_witness: "\<exists>t'. Some 1800000000000 = Some t' \<and> t' \<le> (1893456000000 :: int)"
proof (rule accepted_chain_expiry_bound [OF example_valid _ example_assembled])
  show "vc_delegation exampleLeaf = Some (the (vc_delegation exampleLeaf))"
    by (simp add: exampleLeaf_def)
  show "exampleRoot \<in> set [exampleRoot, exampleLeaf]" by simp
  show "expiryDeadline exampleDeps exampleRoot = Some 1893456000000 \<or>
      constraintDeadline (the (vc_constraints exampleRoot)) = Some 1893456000000"
    by (simp add: expiryDeadline_def example_defs)
qed

end
