(* ===== verification/Canonical_Json.thy ===== *)
theory Canonical_Json
  imports Status_List Radix "HOL-Library.List_Lexorder" "HOL-Library.Multiset"
begin

text \<open>
  \<open>src/utils/canonical-json.ts\<close>: strict RFC 8785 canonicalisation. Strings are lists of UTF-16 code
  units here. A JavaScript value is a tree: a reference back to an enclosing object is the leaf
  \<open>VCycle\<close>, an own property is a data property, an accessor (with the value its getter would give) or,
  in an array, absent. A finite number is an integer, or a fraction represented by the text
  \<open>JSON.stringify\<close> writes for it, its shortest round-trip form. An error is its problem; the path in its
  message is not modelled.
\<close>

subsection \<open>Values\<close>

type_synonym jsstring = "nat list"

definition units :: "string \<Rightarrow> jsstring" where
  "units s = map of_char s"

datatype jsonNumber = NumInt int | NumFraction jsstring | NumInfinite | NumNaN

datatype jskey = StringKey jsstring | SymbolKey

datatype jsvalue =
    VNull
  | VBool bool
  | VNumber jsonNumber
  | VString jsstring
  | VUndefined
  | VFunction
  | VSymbol
  | VBigint int
  | VCycle
  | VArray "jsslot list"
  | VObject bool "jsmember list"
and jsslot = Absent | Accessor jsvalue | Data jsvalue
and jsmember = Member jskey bool jsslot

datatype jsonError =
    LoneSurrogate
  | NonFiniteNumber
  | UnsafeInteger
  | UnsupportedValue string
  | CyclicReference
  | SparseElement
  | NonPlainObject
  | SymbolProperty
  | KeyLoneSurrogate
  | AccessorProperty

subsection \<open>Strings and numbers\<close>

fun hasLoneSurrogate :: "jsstring \<Rightarrow> bool" where
  "hasLoneSurrogate [] = False"
| "hasLoneSurrogate (u # us) =
     (if 0xd800 \<le> u \<and> u \<le> 0xdbff
      then (case us of [] \<Rightarrow> True | n # rest \<Rightarrow> if n < 0xdc00 \<or> 0xdfff < n then True else hasLoneSurrogate rest)
      else if 0xdc00 \<le> u \<and> u \<le> 0xdfff then True
      else hasLoneSurrogate us)"

text \<open>\<open>JSON.stringify\<close> on a string without lone surrogates, and on a safe integer.\<close>

definition hexUnit :: "nat \<Rightarrow> nat" where
  "hexUnit d = of_char (hexAlphabet ! d)"

definition quoteUnit :: "nat \<Rightarrow> jsstring" where
  "quoteUnit u =
     (if u = 8 then [92, 98] else if u = 9 then [92, 116] else if u = 10 then [92, 110]
      else if u = 12 then [92, 102] else if u = 13 then [92, 114]
      else if u = 34 then [92, 34] else if u = 92 then [92, 92]
      else if u < 32 then [92, 117, 48, 48, hexUnit (u div 16), hexUnit (u mod 16)]
      else [u])"

definition quoteJson :: "jsstring \<Rightarrow> jsstring" where
  "quoteJson s = 34 # concat (map quoteUnit s) @ [34]"

definition intText :: "int \<Rightarrow> jsstring" where
  "intText i = (if i < 0 then 45 # units (decimalText (nat (- i))) else units (decimalText (nat i)))"

definition numberText :: "jsonNumber \<Rightarrow> jsonError + jsstring" where
  "numberText n = (case n of
       NumInfinite \<Rightarrow> Inl NonFiniteNumber
     | NumNaN \<Rightarrow> Inl NonFiniteNumber
     | NumInt i \<Rightarrow> if int MAX_SAFE_INTEGER < \<bar>i\<bar> then Inl UnsafeInteger else Inr (intText i)
     | NumFraction t \<Rightarrow> Inr t)"

subsection \<open>Serialisation\<close>

text \<open>\<open>arrayElements\<close> and \<open>objectMembers\<close>: all the elements or members, before any is written.\<close>

definition arrayElements :: "jsslot list \<Rightarrow> jsonError + jsslot list" where
  "arrayElements slots = (if Absent \<in> set slots then Inl SparseElement else Inr slots)"

fun collectMembers :: "jsmember list \<Rightarrow> jsonError + (jsstring \<times> jsslot) list" where
  "collectMembers [] = Inr []"
| "collectMembers (Member SymbolKey en slot # ms) = Inl SymbolProperty"
| "collectMembers (Member (StringKey k) en slot # ms) =
     (if hasLoneSurrogate k then Inl KeyLoneSurrogate
      else (case collectMembers ms of
          Inl e \<Rightarrow> Inl e
        | Inr rest \<Rightarrow> Inr (if en then (k, slot) # rest else rest)))"

definition objectMembers :: "bool \<Rightarrow> jsmember list \<Rightarrow> jsonError + (jsstring \<times> jsslot) list" where
  "objectMembers plain ms = (if \<not> plain then Inl NonPlainObject else map_sum id (sort_key fst) (collectMembers ms))"

definition comma :: "bool \<Rightarrow> jsstring" where
  "comma first = (if first then [] else [44])"

abbreviation slotsSize :: "(jsstring \<times> jsslot) list \<Rightarrow> nat" where
  "slotsSize ms \<equiv> size_list (\<lambda>m. size (snd m)) ms"

lemma collectMembers_size: "collectMembers ms = Inr out \<Longrightarrow> slotsSize out \<le> size_list size ms"
  by (induction ms arbitrary: out rule: collectMembers.induct) (auto split: if_splits sum.splits)

lemma size_list_mset: "mset xs = mset ys \<Longrightarrow> size_list f xs = size_list f ys"
proof -
  have "size_list f zs = sum_mset (image_mset f (mset zs)) + size (mset zs)" for zs by (induction zs) simp_all
  then show "mset xs = mset ys \<Longrightarrow> ?thesis" by (simp only:)
qed

lemma objectMembers_size: "objectMembers plain ms = Inr out \<Longrightarrow> slotsSize out \<le> size_list size ms"
  using collectMembers_size [of ms]
  by (cases "collectMembers ms") (auto simp: objectMembers_def size_list_mset [OF mset_sort] split: if_splits)

text \<open>\<open>serialize\<close>: one pass that validates and writes.\<close>

function (sequential) serialize :: "jsvalue \<Rightarrow> jsonError + jsstring"
  and serializeSlot :: "jsslot \<Rightarrow> jsonError + jsstring"
  and serializeElements :: "bool \<Rightarrow> jsslot list \<Rightarrow> jsonError + jsstring"
  and serializeMembers :: "bool \<Rightarrow> (jsstring \<times> jsslot) list \<Rightarrow> jsonError + jsstring" where
  "serialize VNull = Inr (units ''null'')"
| "serialize (VBool b) = Inr (if b then units ''true'' else units ''false'')"
| "serialize (VString str) = (if hasLoneSurrogate str then Inl LoneSurrogate else Inr (quoteJson str))"
| "serialize (VNumber n) = numberText n"
| "serialize VUndefined = Inl (UnsupportedValue ''undefined'')"
| "serialize VFunction = Inl (UnsupportedValue ''function'')"
| "serialize VSymbol = Inl (UnsupportedValue ''symbol'')"
| "serialize (VBigint i) = Inl (UnsupportedValue ''bigint'')"
| "serialize VCycle = Inl CyclicReference"
| "serialize (VArray slots) = (case arrayElements slots of
       Inl e \<Rightarrow> Inl e
     | Inr elements \<Rightarrow> (case serializeElements True elements of Inl e \<Rightarrow> Inl e | Inr t \<Rightarrow> Inr (91 # t @ [93])))"
| "serialize (VObject plain members) = (case objectMembers plain members of
       Inl e \<Rightarrow> Inl e
     | Inr ms \<Rightarrow> (case serializeMembers True ms of Inl e \<Rightarrow> Inl e | Inr t \<Rightarrow> Inr (123 # t @ [125])))"
| "serializeSlot (Data v) = serialize v"
| "serializeSlot (Accessor v) = Inl AccessorProperty"
| "serializeSlot Absent = Inl SparseElement"
| "serializeElements first [] = Inr []"
| "serializeElements first (slot # slots) = (case serializeSlot slot of
       Inl e \<Rightarrow> Inl e
     | Inr t \<Rightarrow> (case serializeElements False slots of Inl e \<Rightarrow> Inl e | Inr u \<Rightarrow> Inr (comma first @ t @ u)))"
| "serializeMembers first [] = Inr []"
| "serializeMembers first ((k, slot) # ms) = (case serializeSlot slot of
       Inl e \<Rightarrow> Inl e
     | Inr t \<Rightarrow> (case serializeMembers False ms of
           Inl e \<Rightarrow> Inl e | Inr u \<Rightarrow> Inr (comma first @ quoteJson k @ 58 # t @ u)))"
  by pat_completeness auto

termination
  by (relation "measure (\<lambda>x. case x of
        Inl (Inl v) \<Rightarrow> 2 * size v + 1 | Inl (Inr slot) \<Rightarrow> 2 * size slot
      | Inr (Inl (_, slots)) \<Rightarrow> 2 * size_list size slots + 1 | Inr (Inr (_, ms)) \<Rightarrow> 2 * slotsSize ms + 1)")
    (auto simp: arrayElements_def split: if_splits dest: objectMembers_size)

definition canonicalizeJson :: "jsvalue \<Rightarrow> jsonError + jsstring" where
  "canonicalizeJson v = serialize v"

subsection \<open>The JSON value a JavaScript value denotes\<close>

datatype json =
    JNull
  | JBool bool
  | JNum jsonNumber
  | JStr jsstring
  | JArr "json list"
  | JObj "(jsstring \<times> json) list"

text \<open>\<open>None\<close> when the value has no JSON representation. Members that are not enumerable are dropped.\<close>

fun denote :: "jsvalue \<Rightarrow> json option" and denoteSlot :: "jsslot \<Rightarrow> json option"
  and denoteMember :: "jsmember \<Rightarrow> (jsstring \<times> json) option option" where
  "denote VNull = Some JNull"
| "denote (VBool b) = Some (JBool b)"
| "denote (VNumber n) = (case numberText n of Inl _ \<Rightarrow> None | Inr _ \<Rightarrow> Some (JNum n))"
| "denote (VString str) = (if hasLoneSurrogate str then None else Some (JStr str))"
| "denote (VArray slots) = map_option JArr (those (map denoteSlot slots))"
| "denote (VObject plain ms) =
     (if plain then map_option (\<lambda>xs. JObj (sort_key fst (List.map_filter id xs))) (those (map denoteMember ms)) else None)"
| "denote _ = None"
| "denoteSlot (Data v) = denote v"
| "denoteSlot _ = None"
| "denoteMember (Member (StringKey k) en slot) =
     (if hasLoneSurrogate k then None else if en then map_option (\<lambda>v. Some (k, v)) (denoteSlot slot) else Some None)"
| "denoteMember (Member SymbolKey en slot) = None"

fun writeJson :: "json \<Rightarrow> jsstring" and writeElements :: "bool \<Rightarrow> json list \<Rightarrow> jsstring"
  and writeMembers :: "bool \<Rightarrow> (jsstring \<times> json) list \<Rightarrow> jsstring" where
  "writeJson JNull = units ''null''"
| "writeJson (JBool b) = (if b then units ''true'' else units ''false'')"
| "writeJson (JNum n) = (case numberText n of Inl _ \<Rightarrow> [] | Inr t \<Rightarrow> t)"
| "writeJson (JStr str) = quoteJson str"
| "writeJson (JArr js) = 91 # writeElements True js @ [93]"
| "writeJson (JObj ms) = 123 # writeMembers True ms @ [125]"
| "writeElements first [] = []"
| "writeElements first (j # js) = comma first @ writeJson j @ writeElements False js"
| "writeMembers first [] = []"
| "writeMembers first ((k, j) # ms) = comma first @ quoteJson k @ 58 # writeJson j @ writeMembers False ms"

definition denoteMembers :: "(jsstring \<times> jsslot) list \<Rightarrow> (jsstring \<times> json) list option" where
  "denoteMembers ms = those (map (\<lambda>(k, slot). map_option (Pair k) (denoteSlot slot)) ms)"

lemma sort_key_map: "(\<And>x. key (g x) = key' x) \<Longrightarrow> sort_key key (map g xs) = map g (sort_key key' xs)"
proof (induction xs)
  case (Cons x xs)
  have "insort_key key (g x) (map g ys) = map g (insort_key key' x ys)" for ys
    by (induction ys) (simp_all add: Cons.prems)
  then show ?case using Cons by simp
qed simp

lemma denoteMembers_eq:
  "denoteMembers ms = (if list_all (\<lambda>m. denoteSlot (snd m) \<noteq> None) ms
     then Some (map (\<lambda>m. (fst m, the (denoteSlot (snd m)))) ms) else None)"
  by (induction ms) (auto simp: denoteMembers_def split: option.splits)

lemma denoteMembers_sort: "denoteMembers (sort_key fst ms) = map_option (sort_key fst) (denoteMembers ms)"
  by (simp add: denoteMembers_eq list_all_iff sort_key_map [where key' = fst])

lemma collect_denotes:
  "(case collectMembers ms of Inl _ \<Rightarrow> None | Inr out \<Rightarrow> denoteMembers out) =
    map_option (List.map_filter id) (those (map denoteMember ms))"
  by (induction ms rule: collectMembers.induct)
    (auto simp: denoteMembers_def List.map_filter_simps option.map_comp o_def split: sum.splits option.splits)

lemma object_denotes:
  "denote (VObject plain ms) = (case objectMembers plain ms of Inl _ \<Rightarrow> None | Inr out \<Rightarrow> map_option JObj (denoteMembers out))"
  using collect_denotes [of ms]
  by (cases "collectMembers ms"; cases "those (map denoteMember ms)")
    (auto simp: objectMembers_def denoteMembers_sort)

text \<open>What the serialiser writes is the text of the value denoted, and it fails when there is none.\<close>

lemma serialize_denotes:
  "case denote v of None \<Rightarrow> \<exists>e. serialize v = Inl e | Some j \<Rightarrow> serialize v = Inr (writeJson j)"
  "case denoteSlot slot of None \<Rightarrow> \<exists>e. serializeSlot slot = Inl e | Some j \<Rightarrow> serializeSlot slot = Inr (writeJson j)"
  "case those (map denoteSlot slots) of None \<Rightarrow> \<exists>e. serializeElements first slots = Inl e
    | Some js \<Rightarrow> serializeElements first slots = Inr (writeElements first js)"
  "case denoteMembers ms of None \<Rightarrow> \<exists>e. serializeMembers first ms = Inl e
    | Some js \<Rightarrow> serializeMembers first ms = Inr (writeMembers first js)"
proof (induction v and slot and first slots and first ms
    rule: serialize_serializeSlot_serializeElements_serializeMembers.induct)
  case (10 slots)
  show ?case
  proof (cases "Absent \<in> set slots")
    case True
    then have "those (map denoteSlot slots) = None" by (induction slots) (auto split: option.splits)
    then show ?thesis using True by (simp add: arrayElements_def)
  next
    case False
    then show ?thesis using 10 [of slots] by (auto simp: arrayElements_def split: option.splits)
  qed
next
  case (11 plain members)
  show ?case
  proof (cases "objectMembers plain members")
    case (Inr ms)
    then show ?thesis using 11 [OF Inr] unfolding object_denotes by (auto split: option.splits)
  qed (simp add: object_denotes del: denote.simps)
next
  case (16 first slot slots)
  then show ?case by (cases "serializeSlot slot") (auto split: option.splits)
next
  case (18 first k slot ms)
  then show ?case by (cases "serializeSlot slot") (auto simp: denoteMembers_def split: option.splits)
qed (auto simp: denoteMembers_def split: sum.splits option.splits)

subsection \<open>The text determines the value\<close>

text \<open>
  The texts \<open>JSON.stringify\<close> writes for numbers that are not integers: decimal digits, a sign, a point
  or an exponent.
\<close>

definition numberUnit :: "nat \<Rightarrow> bool" where
  "numberUnit u \<longleftrightarrow> 48 \<le> u \<and> u \<le> 57 \<or> u \<in> {43, 45, 46, 101}"

definition fractionText :: "jsstring \<Rightarrow> bool" where
  "fractionText t \<longleftrightarrow> t \<noteq> [] \<and> list_all numberUnit t \<and> (46 \<in> set t \<or> 101 \<in> set t)"

fun numbersOk :: "json \<Rightarrow> bool" where
  "numbersOk (JNum n) = (case n of NumInt i \<Rightarrow> \<bar>i\<bar> \<le> int MAX_SAFE_INTEGER | NumFraction t \<Rightarrow> fractionText t | _ \<Rightarrow> False)"
| "numbersOk (JArr js) = (\<forall>j\<in>set js. numbersOk j)"
| "numbersOk (JObj ms) = (\<forall>m\<in>set ms. numbersOk (snd m))"
| "numbersOk _ = True"

lemma units_inj: "units s = units t \<longleftrightarrow> s = t"
  unfolding units_def by (simp only: inj_map_eq_map [OF inj_of_char])

lemma digits_units: "list_all (\<lambda>u. 48 \<le> u \<and> u \<le> 57) (units (decimalText n)) \<and> units (decimalText n) \<noteq> []"
proof -
  have "isDigit c \<Longrightarrow> 48 \<le> (of_char c :: nat) \<and> of_char c \<le> (57 :: nat)" for c
    unfolding isDigit_def by (simp, elim disjE) simp_all
  then show ?thesis using decimalText_digits [of n] unfolding units_def list_all_iff by auto
qed

lemma intText_inj: "intText i = intText j \<Longrightarrow> i = j"
proof -
  have neg: "units (decimalText n) \<noteq> 45 # t" for n t using digits_units [of n] by (cases "units (decimalText n)") auto
  then have "45 # t \<noteq> units (decimalText n)" for n t by metis
  then show "intText i = intText j \<Longrightarrow> i = j"
    using neg by (auto simp: intText_def units_inj split: if_splits)
qed

lemma intText_digits: "intText i \<noteq> []" "u \<in> set (intText i) \<Longrightarrow> 48 \<le> u \<and> u \<le> 57 \<or> u = 45"
  using digits_units by (auto simp: intText_def list_all_iff split: if_splits)

lemma number_units:
  assumes "numbersOk (JNum n)"
  shows "writeJson (JNum n) \<noteq> [] \<and> list_all numberUnit (writeJson (JNum n))"
proof (cases n)
  case (NumInt i)
  then show ?thesis using assms intText_digits(1) [of i] intText_digits(2) [of _ i]
    by (auto simp: numberText_def list_all_iff numberUnit_def)
qed (use assms in \<open>auto simp: numberText_def fractionText_def\<close>)

lemma number_inj:
  assumes "numbersOk (JNum n)" and "numbersOk (JNum n')" and "writeJson (JNum n) = writeJson (JNum n')"
  shows "n = n'"
proof -
  have "46 \<notin> set (intText i) \<and> 101 \<notin> set (intText i)" for i using intText_digits(2) by fastforce
  then show ?thesis using assms intText_inj
    by (cases n; cases n') (auto simp: numberText_def fractionText_def)
qed

lemma hexUnit_inj: "a < 16 \<Longrightarrow> b < 16 \<Longrightarrow> hexUnit a = hexUnit b \<Longrightarrow> a = b"
  unfolding hexUnit_def by (metis hex_digits of_char_eq_iff option.inject)

lemma quoteUnit_cases:
  obtains (short) e where "quoteUnit u = [92, e]" "e \<noteq> 117" "(e, u) \<in> {(98, 8), (116, 9), (110, 10), (102, 12), (114, 13), (34, 34), (92, 92)}"
  | (hex) "quoteUnit u = [92, 117, 48, 48, hexUnit (u div 16), hexUnit (u mod 16)]" "u < 32"
  | (plain) "quoteUnit u = [u]" "u \<noteq> 92"
proof -
  consider "u \<in> {8, 9, 10, 12, 13, 34, 92}" | "u \<notin> {8, 9, 10, 12, 13, 34, 92}" "u < 32" | "u \<notin> {8, 9, 10, 12, 13, 34, 92}" "\<not> u < 32"
    by blast
  then show thesis
  proof cases
    case 1
    then show thesis using short [of "hd (tl (quoteUnit u))"] by (simp add: quoteUnit_def, elim disjE) simp_all
  next
    case 2
    then show thesis by (intro hex) (simp_all add: quoteUnit_def)
  next
    case 3
    then show thesis by (intro plain) (simp_all add: quoteUnit_def)
  qed
qed

lemma hex_unit_inj:
  assumes "u < 32" and "v < 32" and "hexUnit (u div 16) = hexUnit (v div 16)" and "hexUnit (u mod 16) = hexUnit (v mod 16)"
  shows "u = v"
proof -
  have "u div 16 = v div 16" by (rule hexUnit_inj [OF _ _ assms(3)]) (use assms(1,2) in simp_all)
  moreover have "u mod 16 = v mod 16" by (rule hexUnit_inj [OF _ _ assms(4)]) simp_all
  ultimately show ?thesis by (metis div_mult_mod_eq)
qed

lemma quoteUnit_split: "quoteUnit u @ x = quoteUnit v @ y \<Longrightarrow> u = v \<and> x = y"
  by (cases u rule: quoteUnit_cases; cases v rule: quoteUnit_cases) (auto dest: hex_unit_inj)

lemma quoteUnit_start: "quoteUnit u \<noteq> []" "hd (quoteUnit u) \<noteq> 34"
  by (simp_all add: quoteUnit_def)

lemma quote_split: "concat (map quoteUnit s) @ 34 # x = concat (map quoteUnit t) @ 34 # y \<Longrightarrow> s = t \<and> x = y"
proof (induction s arbitrary: t)
  case Nil
  then show ?case using quoteUnit_start by (cases t) (auto simp: hd_append intro: list.expand dest: arg_cong [where f = hd])
next
  case (Cons u s)
  show ?case
  proof (cases t)
    case Nil
    then show ?thesis using Cons.prems quoteUnit_start [of u] by (auto dest: arg_cong [where f = hd])
  next
    case (Cons v t')
    then have "quoteUnit u @ (concat (map quoteUnit s) @ 34 # x) = quoteUnit v @ (concat (map quoteUnit t') @ 34 # y)"
      using Cons.prems by simp
    from quoteUnit_split [OF this] Cons.IH Cons show ?thesis by auto
  qed
qed

lemma quoteJson_split: "quoteJson s @ x = quoteJson t @ y \<Longrightarrow> s = t \<and> x = y"
  using quote_split [of s x t y] by (simp add: quoteJson_def)

text \<open>What may follow the text of a value: nothing, a comma or a closing bracket.\<close>

definition delimited :: "jsstring \<Rightarrow> bool" where
  "delimited r \<longleftrightarrow> r = [] \<or> hd r \<in> {44, 93, 125}"

lemma literals:
  "units ''null'' = [110, 117, 108, 108]" "units ''true'' = [116, 114, 117, 101]" "units ''false'' = [102, 97, 108, 115, 101]"
  by code_simp+

lemma writeJson_start:
  "(case j of JNull \<Rightarrow> hd (writeJson j) = 110 | JBool b \<Rightarrow> hd (writeJson j) = (if b then 116 else 102)
    | JNum n \<Rightarrow> numbersOk j \<longrightarrow> numberUnit (hd (writeJson j)) | JStr t \<Rightarrow> hd (writeJson j) = 34
    | JArr js \<Rightarrow> hd (writeJson j) = 91 | JObj ms \<Rightarrow> hd (writeJson j) = 123) \<and> (numbersOk j \<longrightarrow> writeJson j \<noteq> [])"
proof (cases j)
  case (JNum n)
  then show ?thesis using number_units [of n] by (cases "writeJson (JNum n)") (auto simp del: writeJson.simps numbersOk.simps)
qed (simp_all add: literals quoteJson_def)

lemma number_split:
  assumes "list_all numberUnit t" and "list_all numberUnit t'" and "t @ r = t' @ r'" and "delimited r" and "delimited r'"
  shows "t = t' \<and> r = r'"
proof -
  have stop: "delimited r \<Longrightarrow> takeWhile numberUnit r = []" for r
    by (cases r) (auto simp: delimited_def numberUnit_def)
  have "takeWhile numberUnit (t @ r) = t" if "list_all numberUnit t" "delimited r" for t r
    using that stop by (simp add: list_all_iff)
  then have "t = t'" using assms by metis
  then show ?thesis using assms(3) by simp
qed

lemma same_kind:
  assumes "numbersOk j" and "numbersOk j'" and "writeJson j @ r = writeJson j' @ r'"
  shows "case j of JNull \<Rightarrow> j' = JNull | JBool b \<Rightarrow> j' = JBool b | JNum n \<Rightarrow> \<exists>n'. j' = JNum n'
    | JStr t \<Rightarrow> \<exists>t'. j' = JStr t' | JArr js \<Rightarrow> \<exists>js'. j' = JArr js' | JObj ms \<Rightarrow> \<exists>ms'. j' = JObj ms'"
proof -
  have "writeJson j \<noteq> []" "writeJson j' \<noteq> []" using writeJson_start assms(1,2) by blast+
  then have hd: "hd (writeJson j) = hd (writeJson j')" using arg_cong [OF assms(3), of hd] by simp
  then show ?thesis using assms(1,2) writeJson_start [of j] writeJson_start [of j']
    by (cases j; cases j') (simp_all add: numberUnit_def del: writeJson.simps numbersOk.simps split: if_splits)
qed

lemma writeJson_opens: "numbersOk j \<Longrightarrow> writeJson j \<noteq> [] \<and> hd (writeJson j) \<noteq> 93"
  using writeJson_start [of j] by (cases j) (auto simp: numberUnit_def simp del: writeJson.simps split: if_splits)

lemma elements_open: "numbersOk j \<Longrightarrow> writeElements first (j # js) @ x \<noteq> 93 # y"
  using writeJson_opens [of j] by (cases "writeJson j") (auto simp: comma_def)

lemma delimited_elements: "delimited (writeElements False js @ 93 # r)"
  by (cases js) (simp_all add: delimited_def comma_def)

lemma delimited_members: "delimited (writeMembers False ms @ 125 # r)"
  by (cases ms) (auto simp: delimited_def comma_def)

lemma writeJson_split:
  "numbersOk j \<Longrightarrow> numbersOk j' \<Longrightarrow> delimited r \<Longrightarrow> delimited r' \<Longrightarrow> writeJson j @ r = writeJson j' @ r' \<Longrightarrow> j = j' \<and> r = r'"
  "\<forall>j\<in>set js. numbersOk j \<Longrightarrow> \<forall>j\<in>set js'. numbersOk j \<Longrightarrow>
    writeElements first js @ 93 # r = writeElements first js' @ 93 # r' \<Longrightarrow> js = js' \<and> r = r'"
  "\<forall>m\<in>set ms. numbersOk (snd m) \<Longrightarrow> \<forall>m\<in>set ms'. numbersOk (snd m) \<Longrightarrow>
    writeMembers first ms @ 125 # r = writeMembers first ms' @ 125 # r' \<Longrightarrow> ms = ms' \<and> r = r'"
proof (induction j and first js and first ms arbitrary: j' r r' and js' r r' and ms' r r'
    rule: writeJson_writeElements_writeMembers.induct)
  case 1
  then show ?case using same_kind [OF 1(1,2,5)] by simp
next
  case (2 b)
  then show ?case using same_kind [OF 2(1,2,5)] by simp
next
  case (3 n)
  note kind = same_kind [OF 3(1,2,5)]
  then obtain n' where n': "j' = JNum n'" by auto
  have "list_all numberUnit (writeJson (JNum n))" "list_all numberUnit (writeJson (JNum n'))"
    using number_units 3(1,2) n' by blast+
  from number_split [OF this _ 3(3,4)] 3(5) n' have "writeJson (JNum n) = writeJson (JNum n')" "r = r'" by simp_all
  then show ?case using number_inj 3(1,2) n' by blast
next
  case (4 t)
  note kind = same_kind [OF 4(1,2,5)]
  then obtain t' where t': "j' = JStr t'" by auto
  then show ?case using quoteJson_split [of t r t' r'] 4(5) by simp
next
  case (5 js)
  note kind = same_kind [OF 5(2,3,6)]
  then obtain js' where js': "j' = JArr js'" by auto
  then show ?case using 5(1) [of js' r r'] 5(2,3,6) by simp
next
  case (6 ms)
  note kind = same_kind [OF 6(2,3,6)]
  then obtain ms' where ms': "j' = JObj ms'" by auto
  then show ?case using 6(1) [of ms' r r'] 6(2,3,6) by simp
next
  case (7 first)
  show ?case
  proof (cases js')
    case (Cons j js)
    then show ?thesis using 7 elements_open [of j first js] by (metis append_Nil list.set_intros(1) writeElements.simps(1))
  qed (use 7 in simp)
next
  case (8 first j js)
  show ?case
  proof (cases js')
    case Nil
    then show ?thesis using 8(3,5) elements_open [of j first js] by (metis append_Nil list.set_intros(1) writeElements.simps(1))
  next
    case (Cons j' k)
    have "writeJson j @ (writeElements False js @ 93 # r) = writeJson j' @ (writeElements False k @ 93 # r')"
      using 8(5) Cons by simp
    then have "j = j'" "writeElements False js @ 93 # r = writeElements False k @ 93 # r'"
      using 8(1) [of j' "writeElements False js @ 93 # r" "writeElements False k @ 93 # r'"] 8(3,4) Cons delimited_elements by auto
    moreover have "js = k \<and> r = r'" by (rule 8(2) [OF _ _ calculation(2)]) (use 8(3,4) Cons in auto)
    ultimately show ?thesis using Cons by simp
  qed
next
  case (9 first)
  show ?case by (cases ms') (use 9 in \<open>auto simp: comma_def quoteJson_def split: if_splits\<close>)
next
  case (10 first k j ms)
  show ?case
  proof (cases ms')
    case Nil
    then show ?thesis using 10(5) by (auto simp: comma_def quoteJson_def split: if_splits)
  next
    case (Cons m ms2)
    obtain k' j' where m: "m = (k', j')" by force
    have "quoteJson k @ (58 # writeJson j @ (writeMembers False ms @ 125 # r)) =
        quoteJson k' @ (58 # writeJson j' @ (writeMembers False ms2 @ 125 # r'))"
      using 10(5) Cons m by simp
    from quoteJson_split [OF this] have k: "k = k'" and
      "writeJson j @ (writeMembers False ms @ 125 # r) = writeJson j' @ (writeMembers False ms2 @ 125 # r')" by simp_all
    then have "j = j'" "writeMembers False ms @ 125 # r = writeMembers False ms2 @ 125 # r'"
      using 10(1) [of j' "writeMembers False ms @ 125 # r" "writeMembers False ms2 @ 125 # r'"] 10(3,4) Cons m delimited_members by auto
    moreover have "ms = ms2 \<and> r = r'" by (rule 10(2) [OF _ _ calculation(2)]) (use 10(3,4) Cons in auto)
    ultimately show ?thesis using Cons m k by simp
  qed
qed

subsection \<open>The properties of the canonical text\<close>

lemma canonical_refines: "canonicalizeJson v = Inr t \<longleftrightarrow> (\<exists>j. denote v = Some j \<and> t = writeJson j)"
  using serialize_denotes(1) [of v] by (auto simp: canonicalizeJson_def split: option.splits)

lemma canonical_denoted: "denote v = Some j \<Longrightarrow> canonicalizeJson v = Inr (writeJson j)"
  by (simp add: canonical_refines)

lemma writeJson_inj: "numbersOk j \<Longrightarrow> numbersOk j' \<Longrightarrow> writeJson j = writeJson j' \<longleftrightarrow> j = j'"
  using writeJson_split(1) [of j j' "[]" "[]"] by (auto simp: delimited_def)

text \<open>C18: The canonical text is defined exactly for the values that denote a JSON value, and it is the
  RFC 8785 text of that value: everything else, a lone surrogate, a fraction that is not finite, an unsafe
  integer, a function, a cycle, an accessor, is refused.\<close>

theorem canonicalizeJson_writes_the_value:
  "canonicalizeJson v = Inr t \<longleftrightarrow> (\<exists>j. denote v = Some j \<and> t = writeJson j)"
  by (rule canonical_refines)

definition demoObject :: jsvalue where
  "demoObject = VObject True [Member (StringKey (units ''b'')) True (Data (VArray [Data (VNumber (NumInt 1)), Data VNull])),
     Member (StringKey (units ''a'')) True (Data (VString (units ''x''))),
     Member (StringKey (units ''h'')) False (Accessor VFunction)]"

definition demoReordered :: jsvalue where
  "demoReordered = VObject True [Member (StringKey (units ''a'')) True (Data (VString (units ''x''))),
     Member (StringKey (units ''b'')) True (Data (VArray [Data (VNumber (NumInt 1)), Data VNull]))]"

definition demoJson :: json where
  "demoJson = JObj [(units ''a'', JStr (units ''x'')), (units ''b'', JArr [JNum (NumInt 1), JNull])]"

lemma demo_denotes: "denote demoObject = Some demoJson" "denote demoReordered = Some demoJson"
  by (simp_all add: demoObject_def demoReordered_def demoJson_def units_def List.map_filter_simps numberText_def MAX_SAFE_INTEGER_def)

text \<open>\<open>{"a":"x","b":[1,null]}\<close>\<close>

lemma demo_text: "writeJson demoJson = [123, 34, 97, 34, 58, 34, 120, 34, 44, 34, 98, 34, 58, 91, 49, 44, 110, 117, 108, 108, 93, 125]"
  by (simp add: demoJson_def units_def comma_def quoteJson_def quoteUnit_def numberText_def intText_def MAX_SAFE_INTEGER_def
      decimalText.simps [of "Suc 0"] digitChar_def)

subsection \<open>UTF-8\<close>

text \<open>\<open>TextEncoder.encode\<close>: surrogate pairs are joined, a lone surrogate becomes U+FFFD.\<close>

fun codePoints :: "jsstring \<Rightarrow> nat list" where
  "codePoints [] = []"
| "codePoints (u # us) =
     (if 0xd800 \<le> u \<and> u \<le> 0xdbff
      then (case us of [] \<Rightarrow> [0xfffd]
        | n # rest \<Rightarrow> if n < 0xdc00 \<or> 0xdfff < n then 0xfffd # codePoints us
            else (0x10000 + (u - 0xd800) * 0x400 + (n - 0xdc00)) # codePoints rest)
      else if 0xdc00 \<le> u \<and> u \<le> 0xdfff then 0xfffd # codePoints us
      else u # codePoints us)"

definition utf8Char :: "nat \<Rightarrow> nat list" where
  "utf8Char c =
     (if c < 0x80 then [c]
      else if c < 0x800 then [0xc0 + c div 64, 0x80 + c mod 64]
      else if c < 0x10000 then [0xe0 + c div 4096, 0x80 + c div 64 mod 64, 0x80 + c mod 64]
      else [0xf0 + c div 262144, 0x80 + c div 4096 mod 64, 0x80 + c div 64 mod 64, 0x80 + c mod 64])"

definition utf8Encode :: "jsstring \<Rightarrow> bytes" where
  "utf8Encode s = map word_of_nat (concat (map utf8Char (codePoints s)))"

definition canonicalizeJsonBytes :: "jsvalue \<Rightarrow> jsonError + bytes" where
  "canonicalizeJsonBytes v = map_sum id utf8Encode (canonicalizeJson v)"

text \<open>A leading byte tells how many follow, and the digits of the code point in base 64 give it back.\<close>

lemma utf8Char_cases:
  assumes "c < 0x110000"
  obtains (one) "utf8Char c = [c]" "c < 0x80"
  | (two) "utf8Char c = [0xc0 + c div 64, 0x80 + c mod 64]" "c div 64 < 32"
  | (three) "utf8Char c = [0xe0 + c div 64 div 64, 0x80 + c div 64 mod 64, 0x80 + c mod 64]" "c div 64 div 64 < 16"
  | (four) "utf8Char c = [0xf0 + c div 64 div 64 div 64, 0x80 + c div 64 div 64 mod 64, 0x80 + c div 64 mod 64, 0x80 + c mod 64]"
proof -
  consider "c < 0x80" | "\<not> c < 0x80" "c < 0x800" | "\<not> c < 0x800" "c < 0x10000" | "\<not> c < 0x10000" by linarith
  then show thesis
    by cases (use one two three four in \<open>simp_all add: utf8Char_def div_mult2_eq [symmetric]\<close>)
qed

lemma base64_digits: "c div 64 = d div 64 \<Longrightarrow> c mod 64 = d mod 64 \<Longrightarrow> c = d" for c d :: nat
  by (metis div_mult_mod_eq)

lemma utf8Char_split:
  assumes "utf8Char c @ x = utf8Char d @ y" and "c < 0x110000" and "d < 0x110000"
  shows "c = d \<and> x = y"
  using assms(1)
  by (cases rule: utf8Char_cases [OF assms(2)]; cases rule: utf8Char_cases [OF assms(3)])
    (auto intro: base64_digits)

lemma utf8Char_bytes: "c < 0x110000 \<Longrightarrow> b \<in> set (utf8Char c) \<Longrightarrow> b < 256"
  by (auto simp: utf8Char_def split: if_splits)

text \<open>Code units, and values all of whose strings are made of them.\<close>

definition codeUnits :: "jsstring \<Rightarrow> bool" where
  "codeUnits s \<longleftrightarrow> list_all (\<lambda>u. u < 65536) s"

fun unitsOk :: "(jsstring \<Rightarrow> bool) \<Rightarrow> json \<Rightarrow> bool" where
  "unitsOk P (JStr s) = P s"
| "unitsOk P (JArr js) = (\<forall>j\<in>set js. unitsOk P j)"
| "unitsOk P (JObj ms) = (\<forall>m\<in>set ms. P (fst m) \<and> unitsOk P (snd m))"
| "unitsOk P _ = True"

text \<open>Strings whose surrogates come in pairs, as \<open>hasLoneSurrogate\<close> walks them.\<close>

inductive paired :: "jsstring \<Rightarrow> bool" where
  paired_Nil: "paired []"
| paired_plain: "\<not> (0xd800 \<le> u \<and> u \<le> 0xdfff) \<Longrightarrow> paired us \<Longrightarrow> paired (u # us)"
| paired_pair: "0xd800 \<le> u \<Longrightarrow> u \<le> 0xdbff \<Longrightarrow> 0xdc00 \<le> n \<Longrightarrow> n \<le> 0xdfff \<Longrightarrow> paired us \<Longrightarrow> paired (u # n # us)"

lemma paired_iff: "paired s \<longleftrightarrow> \<not> hasLoneSurrogate s"
proof
  show "paired s \<Longrightarrow> \<not> hasLoneSurrogate s" by (induction rule: paired.induct) auto
  show "\<not> hasLoneSurrogate s \<Longrightarrow> paired s"
  proof (induction s rule: hasLoneSurrogate.induct)
    case (2 u us)
    show ?case
    proof (cases "0xd800 \<le> u \<and> u \<le> 0xdbff")
      case True
      with 2(3) obtain n rest where us: "us = n # rest" "\<not> (n < 0xdc00 \<or> 0xdfff < n)" "\<not> hasLoneSurrogate rest"
        by (cases us) (simp_all split: if_splits)
      then show ?thesis using 2(1) [OF True us(1,2,3)] True by (auto intro!: paired_pair)
    next
      case False
      with 2(3) have "\<not> (0xdc00 \<le> u \<and> u \<le> 0xdfff)" "\<not> hasLoneSurrogate us" by (simp_all split: if_splits)
      then show ?thesis using 2(2) [OF False] False by (intro paired_plain) auto
    qed
  qed (rule paired_Nil)
qed

definition joinPair :: "nat \<Rightarrow> nat \<Rightarrow> nat" where
  "joinPair u n = 0x10000 + (u - 0xd800) * 0x400 + (n - 0xdc00)"

lemma codePoints_plain: "\<not> (0xd800 \<le> u \<and> u \<le> 0xdfff) \<Longrightarrow> codePoints (u # us) = u # codePoints us"
  by auto

declare codePoints.simps(2) [simp del]

lemma codePoints_pair:
  "0xd800 \<le> u \<Longrightarrow> u \<le> 0xdbff \<Longrightarrow> 0xdc00 \<le> n \<Longrightarrow> n \<le> 0xdfff \<Longrightarrow> codePoints (u # n # us) = joinPair u n # codePoints us"
  by (simp add: codePoints.simps joinPair_def)

lemma joinPair_inj:
  assumes "0xd800 \<le> u" and "0xdc00 \<le> n" and "n \<le> 0xdfff" and "0xd800 \<le> v" and "0xdc00 \<le> m" and "m \<le> 0xdfff"
    and "joinPair u n = joinPair v m"
  shows "u = v \<and> n = m"
proof -
  have "(u - 0xd800) * 0x400 + (n - 0xdc00) = (v - 0xd800) * 0x400 + (m - 0xdc00)" using assms(7) by (simp add: joinPair_def)
  moreover have "n - 0xdc00 < 0x400" "m - 0xdc00 < 0x400" using assms(3,6) by simp_all
  moreover have "a = (a * 0x400 + r) div 0x400 \<and> r = (a * 0x400 + r) mod 0x400" if "r < 0x400" for a r :: nat using that by simp
  ultimately have "u - 0xd800 = v - 0xd800 \<and> n - 0xdc00 = m - 0xdc00" by metis
  then show ?thesis using assms(1,2,4,5) by (metis le_add_diff_inverse2)
qed

lemma joinPair_range: "u \<le> 0xdbff \<Longrightarrow> n \<le> 0xdfff \<Longrightarrow> 0x10000 \<le> joinPair u n \<and> joinPair u n < 0x110000"
  by (simp add: joinPair_def)

lemma codePoints_less: "paired s \<Longrightarrow> codeUnits s \<Longrightarrow> \<forall>c\<in>set (codePoints s). c < 0x110000"
proof (induction rule: paired.induct)
  case (paired_plain u us)
  then show ?case unfolding codePoints_plain [OF paired_plain(1)] by (simp add: codeUnits_def)
next
  case (paired_pair u n us)
  then show ?case unfolding codePoints_pair [OF paired_pair(1-4)] using joinPair_range [of u n] by (simp add: codeUnits_def)
qed simp

lemma codePoints_inj: "paired s \<Longrightarrow> paired t \<Longrightarrow> codeUnits s \<Longrightarrow> codeUnits t \<Longrightarrow> codePoints s = codePoints t \<Longrightarrow> s = t"
proof (induction arbitrary: t rule: paired.induct)
  case paired_Nil
  from paired_Nil(1,4) show ?case
    by (cases rule: paired.cases) (simp_all only: codePoints_plain codePoints_pair codePoints.simps(1) list.distinct simp_thms not_False_eq_True)
next
  case (paired_plain u us)
  have c: "codePoints (u # us) = u # codePoints us" by (rule codePoints_plain [OF paired_plain(1)])
  note ih = paired_plain.IH and eq = paired_plain.prems(4) and uu = paired_plain.prems(2,3)
  from paired_plain.prems(1) show ?case
  proof (cases rule: paired.cases)
    case (paired_pair v n vs)
    then have "u = joinPair v n" using eq c codePoints_pair [OF paired_pair(2-5)] by simp
    then show ?thesis using joinPair_range [OF paired_pair(3,5)] uu(1) by (simp add: codeUnits_def)
  next
    case (paired_plain v vs)
    then have "u = v" "codePoints us = codePoints vs" using eq c codePoints_plain [OF paired_plain(2)] by simp_all
    then show ?thesis using ih [OF paired_plain(3)] uu paired_plain(1) by (simp add: codeUnits_def)
  qed (use eq c in simp)
next
  case (paired_pair u n us)
  have c: "codePoints (u # n # us) = joinPair u n # codePoints us" by (rule codePoints_pair [OF paired_pair(1-4)])
  note ih = paired_pair.IH and eq = paired_pair.prems(4) and uu = paired_pair.prems(2,3) and su = paired_pair.hyps(1-4)
  from paired_pair.prems(1) show ?case
  proof (cases rule: paired.cases)
    case (paired_pair v m vs)
    have e: "joinPair u n = joinPair v m" "codePoints us = codePoints vs"
      using eq c codePoints_pair [OF paired_pair(2-5)] paired_pair(1) by simp_all
    then show ?thesis
      using joinPair_inj [OF su(1,3,4) paired_pair(2,4,5)] ih [OF paired_pair(6)] uu paired_pair(1) by (simp add: codeUnits_def)
  next
    case (paired_plain v vs)
    then have "v = joinPair u n" using eq c codePoints_plain [OF paired_plain(2)] by simp
    then show ?thesis using joinPair_range [OF su(2,4)] uu(2) paired_plain(1) by (simp add: codeUnits_def)
  qed (use eq c in simp)
qed

lemma utf8_concat_inj:
  "\<forall>c\<in>set cs. c < 0x110000 \<Longrightarrow> \<forall>d\<in>set ds. d < 0x110000 \<Longrightarrow> concat (map utf8Char cs) = concat (map utf8Char ds) \<Longrightarrow> cs = ds"
proof (induction cs arbitrary: ds)
  case Nil
  then show ?case by (cases ds) (auto simp: utf8Char_def split: if_splits)
next
  case (Cons c cs)
  then obtain d ds' where ds: "ds = d # ds'" by (cases ds) (auto simp: utf8Char_def split: if_splits)
  have "utf8Char c @ concat (map utf8Char cs) = utf8Char d @ concat (map utf8Char ds')" using Cons.prems(3) ds by simp
  from utf8Char_split [OF this] Cons.prems Cons.IH [of ds'] ds show ?case by auto
qed

lemma utf8Encode_inj:
  assumes "paired s" and "paired t" and "codeUnits s" and "codeUnits t" and "utf8Encode s = utf8Encode t"
  shows "s = t"
proof -
  note less = codePoints_less [OF assms(1,3)] codePoints_less [OF assms(2,4)]
  have "inj_on (word_of_nat :: nat \<Rightarrow> 8 word) {..<256}" by (rule inj_onI) (simp add: word_of_nat_eq_iff take_bit_nat_eq_self)
  moreover have "set (concat (map utf8Char (codePoints s))) \<union> set (concat (map utf8Char (codePoints t))) \<subseteq> {..<256}"
    using less utf8Char_bytes by fastforce
  ultimately have "inj_on (word_of_nat :: nat \<Rightarrow> 8 word) (set (concat (map utf8Char (codePoints s))) \<union> set (concat (map utf8Char (codePoints t))))"
    by (rule inj_on_subset)
  from inj_on_map_eq_map [OF this] assms(5) have "concat (map utf8Char (codePoints s)) = concat (map utf8Char (codePoints t))"
    unfolding utf8Encode_def by blast
  then have "codePoints s = codePoints t" by (rule utf8_concat_inj [OF less])
  then show ?thesis by (rule codePoints_inj [OF assms(1-4)])
qed

text \<open>The canonical text of a value made of code units is such a string, and has no lone surrogate.\<close>

lemma paired_append: "paired s \<Longrightarrow> paired t \<Longrightarrow> paired (s @ t)"
  by (induction rule: paired.induct) (auto intro: paired.intros)

lemma paired_ascii: "list_all (\<lambda>u. u < 128) s \<Longrightarrow> paired s"
  by (induction s) (auto intro: paired.intros)

lemma quoteUnit_plain: "0xd800 \<le> u \<Longrightarrow> quoteUnit u = [u]"
  by (simp add: quoteUnit_def)

lemma hexUnit_less: "d < 16 \<Longrightarrow> hexUnit d < 128"
proof -
  have "list_all (\<lambda>c. (of_char c :: nat) < 128) hexAlphabet" "length hexAlphabet = 16" by code_simp+
  then show "d < 16 \<Longrightarrow> hexUnit d < 128" unfolding hexUnit_def list_all_length by simp
qed

lemma quoteUnit_ascii: "u < 128 \<Longrightarrow> list_all (\<lambda>u. u < 128) (quoteUnit u)"
  by (cases u rule: quoteUnit_cases) (auto simp: hexUnit_less)

lemma quoteUnit_paired: "\<not> (0xd800 \<le> u \<and> u \<le> 0xdfff) \<Longrightarrow> paired (quoteUnit u)"
proof (cases "u < 128")
  case True
  then show ?thesis by (intro paired_ascii quoteUnit_ascii)
next
  case False
  assume "\<not> (0xd800 \<le> u \<and> u \<le> 0xdfff)"
  then show ?thesis using False by (auto simp: quoteUnit_def intro: paired.intros)
qed

lemma concat_quote_paired: "paired s \<Longrightarrow> paired (concat (map quoteUnit s))"
proof (induction rule: paired.induct)
  case (paired_plain u us)
  then show ?case by (simp add: paired_append quoteUnit_paired)
next
  case (paired_pair u n us)
  then show ?case by (simp add: quoteUnit_plain paired.paired_pair)
qed (simp add: paired_Nil)

lemma quoteJson_paired: "paired s \<Longrightarrow> paired (quoteJson s)"
proof -
  have "paired [34]" by (rule paired_ascii) simp
  then show "paired s \<Longrightarrow> paired (quoteJson s)"
    unfolding quoteJson_def by (metis append_Cons append_Nil concat_quote_paired paired_append)
qed

lemma quoteUnit_units: "u < 65536 \<Longrightarrow> codeUnits (quoteUnit u)"
proof (cases "u < 128")
  case True
  have "list_all (\<lambda>u. u < 65536) t" if "list_all (\<lambda>u. u < 128) t" for t :: "nat list" using that by (auto simp: list_all_iff)
  then show ?thesis using quoteUnit_ascii [OF True] by (simp add: codeUnits_def)
qed (auto simp: quoteUnit_def codeUnits_def)

lemma codeUnits_append [simp]: "codeUnits (s @ t) \<longleftrightarrow> codeUnits s \<and> codeUnits t"
  by (simp add: codeUnits_def)

lemma codeUnits_Cons [simp]: "codeUnits (u # t) \<longleftrightarrow> u < 65536 \<and> codeUnits t"
  by (simp add: codeUnits_def)

lemma codeUnits_Nil [simp]: "codeUnits []"
  by (simp add: codeUnits_def)

lemma quoteJson_units: "codeUnits s \<Longrightarrow> codeUnits (quoteJson s)"
proof -
  have "codeUnits s \<Longrightarrow> codeUnits (concat (map quoteUnit s))" by (induction s) (auto simp: quoteUnit_units)
  then show "codeUnits s \<Longrightarrow> codeUnits (quoteJson s)" by (simp add: quoteJson_def)
qed

definition encodable :: "jsstring \<Rightarrow> bool" where
  "encodable s \<longleftrightarrow> paired s \<and> codeUnits s"

lemma encodable_append: "encodable s \<Longrightarrow> encodable t \<Longrightarrow> encodable (s @ t)"
  by (simp add: encodable_def paired_append)

lemma encodable_ascii: "list_all (\<lambda>u. u < 128) s \<Longrightarrow> encodable s"
proof -
  have "list_all (\<lambda>u. u < 128) s \<Longrightarrow> codeUnits s" unfolding codeUnits_def by (auto simp: list_all_iff)
  then show "list_all (\<lambda>u. u < 128) s \<Longrightarrow> encodable s" by (simp add: encodable_def paired_ascii)
qed

lemma encodable_quote: "encodable s \<Longrightarrow> encodable (quoteJson s)"
  by (simp add: encodable_def quoteJson_paired quoteJson_units)

lemma encodable_Cons: "u < 128 \<Longrightarrow> encodable s \<Longrightarrow> encodable (u # s)"
  using encodable_append [OF encodable_ascii [of "[u]"]] by simp

lemma writeJson_encodable:
  "unitsOk encodable j \<Longrightarrow> numbersOk j \<Longrightarrow> encodable (writeJson j)"
  "\<forall>j\<in>set js. unitsOk encodable j \<and> numbersOk j \<Longrightarrow> encodable (writeElements first js)"
  "\<forall>m\<in>set ms. encodable (fst m) \<and> unitsOk encodable (snd m) \<and> numbersOk (snd m) \<Longrightarrow> encodable (writeMembers first ms)"
proof (induction j and first js and first ms rule: writeJson_writeElements_writeMembers.induct)
  case (3 n)
  then have "list_all numberUnit (writeJson (JNum n))" using number_units by blast
  then have "list_all (\<lambda>u. u < 128) (writeJson (JNum n))" unfolding list_all_iff numberUnit_def by fastforce
  then show ?case by (rule encodable_ascii)
qed (auto simp: literals comma_def encodable_quote intro!: encodable_append encodable_Cons intro: encodable_ascii)

lemma denote_paired:
  "denote v = Some j \<Longrightarrow> unitsOk paired j"
  "denoteSlot slot = Some j \<Longrightarrow> unitsOk paired j"
  "denoteMember m = Some (Some kj) \<Longrightarrow> paired (fst kj) \<and> unitsOk paired (snd kj)"
proof (induction v and slot and m arbitrary: j and j and kj rule: denote_denoteSlot_denoteMember.induct)
  case (5 slots)
  then obtain js where js: "those (map denoteSlot slots) = Some js" "j = JArr js" by auto
  have "\<exists>s\<in>set slots. denoteSlot s = Some x" if "those (map denoteSlot slots) = Some js" "x \<in> set js" for x slots js
    using that by (induction slots arbitrary: js) (auto split: option.splits)
  then show ?case using js 5(1) by fastforce
next
  case (6 plain ms)
  then obtain xs where xs: "those (map denoteMember ms) = Some xs" "j = JObj (sort_key fst (List.map_filter id xs))"
    by (auto split: if_splits)
  have "\<exists>m\<in>set ms. denoteMember m = Some x" if "those (map denoteMember ms) = Some xs" "x \<in> set xs" for x ms xs
    using that by (induction ms arbitrary: xs) (auto split: option.splits)
  then have member: "\<exists>m\<in>set ms. denoteMember m = Some (Some x)" if "x \<in> set (List.map_filter id xs)" for x
    using xs(1) that by (fastforce simp: List.map_filter_def)
  have plain: "plain" using 6(2) by (simp split: if_splits)
  have "paired (fst x) \<and> unitsOk paired (snd x)" if "x \<in> set (List.map_filter id xs)" for x
    using member [OF that] 6(1) [OF plain] by blast
  then show ?case unfolding xs(2) by simp
qed (auto simp: paired_iff split: if_splits sum.splits option.splits)

text \<open>A JSON value that JavaScript can hold: strings of code units, numbers written as numbers are.\<close>

definition jsData :: "json \<Rightarrow> bool" where
  "jsData j \<longleftrightarrow> numbersOk j \<and> unitsOk codeUnits j"

lemma unitsOk_encodable: "unitsOk paired j \<Longrightarrow> unitsOk codeUnits j \<Longrightarrow> unitsOk encodable j"
  by (induction encodable j rule: unitsOk.induct) (auto simp: encodable_def)

lemma canonical_text_encodable:
  assumes "denote v = Some j" and "jsData j"
  shows "encodable (writeJson j)"
  using assms by (auto simp: jsData_def intro: writeJson_encodable(1) unitsOk_encodable denote_paired(1))

lemma canonical_bytes_eq_iff:
  assumes "denote v = Some j" and "denote v' = Some j'" and "jsData j" and "jsData j'"
  shows "canonicalizeJsonBytes v = canonicalizeJsonBytes v' \<longleftrightarrow> j = j'"
proof -
  have "utf8Encode (writeJson j) = utf8Encode (writeJson j') \<Longrightarrow> writeJson j = writeJson j'"
    using utf8Encode_inj canonical_text_encodable [OF assms(1,3)] canonical_text_encodable [OF assms(2,4)]
    by (simp add: encodable_def)
  then show ?thesis using assms(3,4) writeJson_inj [of j j']
    by (auto simp: canonicalizeJsonBytes_def canonical_denoted [OF assms(1)] canonical_denoted [OF assms(2)] jsData_def)
qed

text \<open>Two values never share canonical bytes by accident: they have the same ones exactly when they
  denote the same JSON value, the members of an object taken in any order and those that are not
  enumerable ignored.\<close>

theorem canonical_bytes_identify_value:
  assumes "denote v = Some j" and "denote v' = Some j'" and "jsData j" and "jsData j'"
  shows "canonicalizeJsonBytes v = canonicalizeJsonBytes v' \<longleftrightarrow> j = j'"
  by (rule canonical_bytes_eq_iff [OF assms])

lemma canonical_bytes_identify_value_witness:
  "canonicalizeJsonBytes demoObject = canonicalizeJsonBytes demoReordered \<and> canonicalizeJson demoObject = Inr (writeJson demoJson)"
proof -
  have "jsData demoJson" by (simp add: jsData_def demoJson_def MAX_SAFE_INTEGER_def units_def)
  then show ?thesis
    using canonical_bytes_identify_value [OF demo_denotes] canonical_denoted [OF demo_denotes(1)] by blast
qed

end
