(* ===== verification/Proof_Binding.thy ===== *)
theory Proof_Binding
  imports Canonical_Json
begin

text \<open>
  What a proof binds: \<open>src/proof/covered-request.ts\<close> (the shapes of one tool call) and the hashing, the
  signed payload and the content check of \<open>src/proof/generator.ts\<close>. The hash is the parameter \<open>hash\<close>, from
  bytes to its text. A getter read by \<open>Object.entries\<close> gives the value its accessor carries.
\<close>

subsection \<open>Values of requests and responses\<close>

fun valTruthy :: "jsvalue \<Rightarrow> bool" where
  "valTruthy VNull = False"
| "valTruthy VUndefined = False"
| "valTruthy (VBool b) = b"
| "valTruthy (VNumber n) = (n \<noteq> NumInt 0 \<and> n \<noteq> NumNaN)"
| "valTruthy (VString s) = (s \<noteq> [])"
| "valTruthy (VBigint i) = (i \<noteq> 0)"
| "valTruthy _ = True"

text \<open>Own members in order: a lookup, and what \<open>Object.entries\<close> lists.\<close>

fun slotValue :: "jsslot \<Rightarrow> jsvalue" where
  "slotValue (Data v) = v"
| "slotValue (Accessor v) = v"
| "slotValue Absent = VUndefined"

fun getMember :: "jsstring \<Rightarrow> jsmember list \<Rightarrow> jsvalue" where
  "getMember k [] = VUndefined"
| "getMember k (Member key en slot # ms) = (if key = StringKey k then slotValue slot else getMember k ms)"

fun entriesOf :: "jsmember list \<Rightarrow> (jsstring \<times> jsvalue) list" where
  "entriesOf [] = []"
| "entriesOf (Member (StringKey k) True slot # ms) = (k, slotValue slot) # entriesOf ms"
| "entriesOf (_ # ms) = entriesOf ms"

definition dataMember :: "jsstring \<times> jsvalue \<Rightarrow> jsmember" where
  "dataMember kv = Member (StringKey (fst kv)) True (Data (snd kv))"

definition plainObject :: "(jsstring \<times> jsvalue) list \<Rightarrow> jsvalue" where
  "plainObject kvs = VObject True (map dataMember kvs)"

text \<open>Assigning a member: in place, or appended.\<close>

definition putEntry :: "jsstring \<Rightarrow> jsvalue \<Rightarrow> (jsstring \<times> jsvalue) list \<Rightarrow> (jsstring \<times> jsvalue) list" where
  "putEntry k v kvs = AList.update k v kvs"

definition objectMembersOf :: "jsvalue \<Rightarrow> jsmember list option" where
  "objectMembersOf v = (case v of VObject plain ms \<Rightarrow> Some ms | _ \<Rightarrow> None)"

subsection \<open>The shapes of a tool call\<close>

record toolRequest =
  tr_method :: jsstring
  tr_params :: jsvalue

record toolCall =
  tc_name :: jsstring
  tc_args :: "jsmember list"
  tc_params :: "jsmember list"

definition TOOLS_CALL_METHOD :: jsstring where
  "TOOLS_CALL_METHOD = units ''tools/call''"

definition isKyaOsControlArg :: "jsstring \<Rightarrow> bool" where
  "isKyaOsControlArg key \<longleftrightarrow> prefix (units ''_kyaos'') key"

definition withoutKeys :: "jsmember list \<Rightarrow> (jsstring \<Rightarrow> bool) \<Rightarrow> (jsstring \<times> jsvalue) list" where
  "withoutKeys ms dropped = filter (\<lambda>kv. \<not> dropped (fst kv)) (entriesOf ms)"

text \<open>\<open>?? {}\<close>, and \<open>isJsonObject\<close> on the result.\<close>

definition argumentsOf :: "jsvalue \<Rightarrow> jsmember list option" where
  "argumentsOf v = objectMembersOf (if v = VNull \<or> v = VUndefined then VObject True [] else v)"

definition wireCall :: "toolRequest \<Rightarrow> (jsstring \<times> jsmember list) option" where
  "wireCall req =
     (if tr_method req = TOOLS_CALL_METHOD
      then (case tr_params req of
          VObject plain ms \<Rightarrow> (case getMember (units ''name'') ms of VString name \<Rightarrow> Some (name, ms) | _ \<Rightarrow> None)
        | _ \<Rightarrow> None)
      else None)"

definition asToolCall :: "toolRequest \<Rightarrow> toolCall option" where
  "asToolCall req = (case wireCall req of
       Some (name, ms) \<Rightarrow>
         map_option (\<lambda>args. \<lparr>tc_name = name, tc_args = args, tc_params = ms\<rparr>) (argumentsOf (getMember (units ''arguments'') ms))
     | None \<Rightarrow>
         map_option (\<lambda>args. \<lparr>tc_name = tr_method req, tc_args = args,
             tc_params = map dataMember [(units ''name'', VString (tr_method req)), (units ''arguments'', VObject True args)]\<rparr>)
           (argumentsOf (tr_params req)))"

definition coveredToolCall :: "toolCall \<Rightarrow> toolRequest" where
  "coveredToolCall call =
     (let params = withoutKeys (tc_params call) (\<lambda>key. key = units ''_meta'')
      in \<lparr>tr_method = TOOLS_CALL_METHOD,
          tr_params = plainObject (putEntry (units ''arguments'') (plainObject (withoutKeys (tc_args call) isKyaOsControlArg)) params)\<rparr>)"

text \<open>The legacy shape holds the arguments object itself, as given.\<close>

definition alternateRequestShapes :: "toolRequest \<Rightarrow> toolRequest list" where
  "alternateRequestShapes req = (case asToolCall req of
       None \<Rightarrow> []
     | Some call \<Rightarrow>
         [coveredToolCall call,
          \<lparr>tr_method = tc_name call, tr_params = VObject True (tc_args call)\<rparr>,
          \<lparr>tr_method = tc_name call, tr_params = plainObject (withoutKeys (tc_args call) isKyaOsControlArg)\<rparr>])"

subsection \<open>Canonical hashes\<close>

datatype responseProfile = BodyProfile | EnvelopeProfile

text \<open>An object filled by assignment, and the copy of an envelope without \<open>_meta\<close>. A member named
  \<open>__proto__\<close> is not stored: an object or a function becomes the prototype, anything else is dropped.\<close>

definition isPrototype :: "jsvalue \<Rightarrow> bool" where
  "isPrototype v = (case v of VObject _ _ \<Rightarrow> True | VArray _ \<Rightarrow> True | VFunction \<Rightarrow> True | VCycle \<Rightarrow> True | _ \<Rightarrow> False)"

definition assignedObject :: "(jsstring \<times> jsvalue) list \<Rightarrow> jsvalue" where
  "assignedObject kept =
     VObject (list_all (\<lambda>kv. fst kv = units ''__proto__'' \<longrightarrow> \<not> isPrototype (snd kv)) kept)
       (map dataMember (filter (\<lambda>kv. fst kv \<noteq> units ''__proto__'') kept))"

definition envelopeOf :: "jsmember list \<Rightarrow> jsvalue" where
  "envelopeOf ms = assignedObject (filter (\<lambda>kv. fst kv \<noteq> units ''_meta'') (entriesOf ms))"

definition canonicalResponseBody :: "jsvalue \<Rightarrow> responseProfile \<Rightarrow> jsvalue" where
  "canonicalResponseBody data profile = (case (profile, data) of
       (EnvelopeProfile, VObject plain ms) \<Rightarrow> envelopeOf ms
     | _ \<Rightarrow> data)"

definition canonicalRequest :: "toolRequest \<Rightarrow> jsvalue" where
  "canonicalRequest req = plainObject ((units ''method'', VString (tr_method req)) #
     (if valTruthy (tr_params req) then [(units ''params'', tr_params req)] else []))"

definition hashValue :: "(bytes \<Rightarrow> string) \<Rightarrow> jsvalue \<Rightarrow> jsonError + string" where
  "hashValue hash v = map_sum id hash (canonicalizeJsonBytes v)"

definition computeCanonicalHashes ::
  "(bytes \<Rightarrow> string) \<Rightarrow> toolRequest \<Rightarrow> jsvalue option \<Rightarrow> responseProfile \<Rightarrow> jsonError + string \<times> string option" where
  "computeCanonicalHashes hash req response profile = (case hashValue hash (canonicalRequest req) of
       Inl e \<Rightarrow> Inl e
     | Inr requestHash \<Rightarrow> (case response of
         None \<Rightarrow> Inr (requestHash, None)
       | Some data \<Rightarrow> (case hashValue hash (canonicalResponseBody data profile) of
           Inl e \<Rightarrow> Inl e
         | Inr responseHash \<Rightarrow> Inr (requestHash, Some responseHash))))"

fun hashesOf :: "(bytes \<Rightarrow> string) \<Rightarrow> toolRequest list \<Rightarrow> jsonError + string list" where
  "hashesOf hash [] = Inr []"
| "hashesOf hash (shape # shapes) = (case computeCanonicalHashes hash shape None BodyProfile of
       Inl e \<Rightarrow> Inl e
     | Inr (h, _) \<Rightarrow> map_sum id (Cons h) (hashesOf hash shapes))"

definition acceptedRequestHashes :: "(bytes \<Rightarrow> string) \<Rightarrow> toolRequest \<Rightarrow> jsonError + string list" where
  "acceptedRequestHashes hash req = map_sum id js_set (hashesOf hash (req # alternateRequestShapes req))"

subsection \<open>Proof metadata\<close>

record proofMeta =
  pm_did :: string
  pm_kid :: string
  pm_ts :: int
  pm_nonce :: string
  pm_audience :: string
  pm_sessionId :: string
  pm_requestHash :: string
  pm_responseHash :: "string option"
  pm_scopeId :: "string option"
  pm_delegationRef :: "string option"
  pm_clientDid :: "string option"
  pm_outcome :: "string option"
  pm_reason :: "string option"
  pm_prf :: "string option"

definition RESPONSE_PROOF_PROFILE_BODY :: string where
  "RESPONSE_PROOF_PROFILE_BODY = ''org.kya-os/response-proof.body''"

definition RESPONSE_PROOF_PROFILE_ENVELOPE :: string where
  "RESPONSE_PROOF_PROFILE_ENVELOPE = ''org.kya-os/response-proof.envelope''"

text \<open>Any profile but the envelope one hashes the data as it is.\<close>

definition profileOf :: "string option \<Rightarrow> responseProfile" where
  "profileOf prf = (if prf = Some RESPONSE_PROOF_PROFILE_ENVELOPE then EnvelopeProfile else BodyProfile)"

datatype contentBindingMismatch = RequestMismatch | ResponseMismatch | ResponseMissing | ResponseUnexpected

definition findContentBindingMismatch ::
  "(bytes \<Rightarrow> string) \<Rightarrow> proofMeta \<Rightarrow> toolRequest \<Rightarrow> jsvalue option \<Rightarrow> jsonError + contentBindingMismatch option" where
  "findContentBindingMismatch hash meta req response =
     (case computeCanonicalHashes hash req response (profileOf (pm_prf meta)) of
        Inl e \<Rightarrow> Inl e
      | Inr (requestHash, responseHash) \<Rightarrow>
          (case (if pm_requestHash meta = requestHash then Inr [requestHash] else acceptedRequestHashes hash req) of
             Inl e \<Rightarrow> Inl e
           | Inr accepted \<Rightarrow>
               (if pm_requestHash meta \<notin> set accepted then Inr (Some RequestMismatch)
                else if (pm_responseHash meta \<noteq> None) \<noteq> (response \<noteq> None)
                  then Inr (Some (if pm_responseHash meta \<noteq> None then ResponseMissing else ResponseUnexpected))
                else if pm_responseHash meta \<noteq> None \<and> pm_responseHash meta \<noteq> responseHash then Inr (Some ResponseMismatch)
                else Inr None)))"

subsection \<open>The signed payload\<close>

definition optionalClaim :: "string \<Rightarrow> string option \<Rightarrow> (jsstring \<times> jsvalue) list" where
  "optionalClaim name v = (case v of Some s \<Rightarrow> if s \<noteq> [] then [(units name, VString (units s))] else [] | None \<Rightarrow> [])"

definition buildProofJwsPayload :: "proofMeta \<Rightarrow> jsvalue" where
  "buildProofJwsPayload meta = plainObject (
     [(units ''aud'', VString (units (pm_audience meta))),
      (units ''sub'', VString (units (pm_did meta))),
      (units ''iss'', VString (units (pm_did meta))),
      (units ''requestHash'', VString (units (pm_requestHash meta)))] @
     (case pm_responseHash meta of Some h \<Rightarrow> [(units ''responseHash'', VString (units h))] | None \<Rightarrow> []) @
     [(units ''ts'', VNumber (NumInt (pm_ts meta))),
      (units ''nonce'', VString (units (pm_nonce meta))),
      (units ''sessionId'', VString (units (pm_sessionId meta)))] @
     optionalClaim ''scopeId'' (pm_scopeId meta) @ optionalClaim ''delegationRef'' (pm_delegationRef meta) @
     optionalClaim ''clientDid'' (pm_clientDid meta) @ optionalClaim ''outcome'' (pm_outcome meta) @
     optionalClaim ''reason'' (pm_reason meta) @ optionalClaim ''prf'' (pm_prf meta))"

subsection \<open>What the signature covers\<close>

lemma units_small: "u \<in> set (units s) \<Longrightarrow> u < 256"
  by (auto simp: units_def)

lemma units_encodable: "\<not> hasLoneSurrogate (units s)" "codeUnits (units s)"
proof -
  have "list_all (\<lambda>u. u < 256) t \<Longrightarrow> \<not> hasLoneSurrogate t" for t by (induction t) (auto split: list.splits)
  then show "\<not> hasLoneSurrogate (units s)" using units_small by (simp add: list_all_iff)
  show "codeUnits (units s)" using units_small [of _ s] by (fastforce simp: codeUnits_def list_all_iff)
qed

lemma denote_plainObject:
  assumes "\<And>kv. kv \<in> set kvs \<Longrightarrow> \<not> hasLoneSurrogate (fst kv) \<and> denote (snd kv) = Some (g (snd kv))"
  shows "denote (plainObject kvs) = Some (JObj (sort_key fst (map (\<lambda>kv. (fst kv, g (snd kv))) kvs)))"
proof -
  have those: "those (map denoteMember (map dataMember kvs)) = Some (map Some (map (\<lambda>kv. (fst kv, g (snd kv))) kvs))"
    using assms by (induction kvs) (auto simp: dataMember_def)
  have filter: "List.map_filter id (map Some xs) = xs" for xs :: "'a list"
    by (induction xs) (simp_all add: List.map_filter_simps)
  show ?thesis unfolding plainObject_def denote.simps if_True those option.map filter ..
qed

text \<open>The claims of a payload by name; an optional one that is absent or the empty string is left out.\<close>

definition claimText :: "string option \<Rightarrow> jsvalue option" where
  "claimText v = (case v of Some s \<Rightarrow> if s \<noteq> [] then Some (VString (units s)) else None | None \<Rightarrow> None)"

definition claimsOf :: "proofMeta \<Rightarrow> (string \<times> jsvalue option) list" where
  "claimsOf meta =
     [(''aud'', Some (VString (units (pm_audience meta)))), (''sub'', Some (VString (units (pm_did meta)))),
      (''iss'', Some (VString (units (pm_did meta)))), (''requestHash'', Some (VString (units (pm_requestHash meta)))),
      (''responseHash'', map_option (\<lambda>h. VString (units h)) (pm_responseHash meta)),
      (''ts'', Some (VNumber (NumInt (pm_ts meta)))), (''nonce'', Some (VString (units (pm_nonce meta)))),
      (''sessionId'', Some (VString (units (pm_sessionId meta)))),
      (''scopeId'', claimText (pm_scopeId meta)), (''delegationRef'', claimText (pm_delegationRef meta)),
      (''clientDid'', claimText (pm_clientDid meta)), (''outcome'', claimText (pm_outcome meta)),
      (''reason'', claimText (pm_reason meta)), (''prf'', claimText (pm_prf meta))]"

definition presentClaims :: "(string \<times> jsvalue option) list \<Rightarrow> (jsstring \<times> jsvalue) list" where
  "presentClaims cs = List.map_filter (\<lambda>(n, v). map_option (Pair (units n)) v) cs"

lemma presentClaims_simps:
  "presentClaims [] = []"
  "presentClaims ((n, v) # cs) = (case v of None \<Rightarrow> [] | Some x \<Rightarrow> [(units n, x)]) @ presentClaims cs"
  by (simp_all add: presentClaims_def List.map_filter_simps split: option.split)

lemma optionalClaim_text: "optionalClaim n v = (case claimText v of None \<Rightarrow> [] | Some x \<Rightarrow> [(units n, x)])"
  by (simp add: optionalClaim_def claimText_def split: option.split)

lemma payload_claims: "buildProofJwsPayload meta = plainObject (presentClaims (claimsOf meta))"
proof -
  have "(case x of None \<Rightarrow> [] | Some h \<Rightarrow> [(k, VString (units h))]) =
      (case map_option (\<lambda>h. VString (units h)) x of None \<Rightarrow> [] | Some v \<Rightarrow> [(k, v)])" for x and k :: jsstring
    by (cases x) simp_all
  then show ?thesis
    by (simp only: buildProofJwsPayload_def claimsOf_def presentClaims_simps optionalClaim_text option.case
        append.simps append_assoc append_Nil2)
qed

lemma presentClaims_lookup:
  "distinct (map fst cs) \<Longrightarrow> map_of (presentClaims cs) (units n) = (case map_of cs n of Some (Some v) \<Rightarrow> Some v | _ \<Rightarrow> None)"
proof (induction cs)
  case (Cons c cs)
  obtain m v where c: "c = (m, v)" by force
  have "m \<notin> fst ` set cs \<Longrightarrow> map_of cs m = None" by (simp add: map_of_eq_None_iff)
  then show ?case using Cons c by (auto simp: presentClaims_simps units_inj split: option.splits)
qed (simp add: presentClaims_simps)

lemma presentClaims_names: "distinct (map fst cs) \<Longrightarrow> distinct (map fst (presentClaims cs)) \<and> fst ` set (presentClaims cs) \<subseteq> units ` fst ` set cs"
proof (induction cs)
  case (Cons c cs)
  obtain m v where c: "c = (m, v)" by force
  with Cons have ih: "distinct (map fst (presentClaims cs))" "fst ` set (presentClaims cs) \<subseteq> units ` fst ` set cs" "m \<notin> fst ` set cs"
    by simp_all
  then have "units m \<notin> fst ` set (presentClaims cs)" using units_inj by blast
  then show ?case using ih(1,2) c by (cases v) (auto simp: presentClaims_simps)
qed (simp add: presentClaims_simps)

lemma claims_distinct: "distinct (map fst (claimsOf meta))"
  by (simp add: claimsOf_def)

text \<open>A claim is a text or a safe integer, so it denotes itself.\<close>

fun claimJson :: "jsvalue \<Rightarrow> json" where
  "claimJson (VString s) = JStr s"
| "claimJson (VNumber n) = JNum n"
| "claimJson _ = JNull"

lemma claims_values:
  assumes "\<bar>pm_ts meta\<bar> \<le> int MAX_SAFE_INTEGER" and "(n, Some v) \<in> set (claimsOf meta)"
  shows "(\<exists>s. v = VString (units s)) \<or> v = VNumber (NumInt (pm_ts meta))"
proof -
  have "claimText x = Some v \<Longrightarrow> \<exists>s. v = VString (units s)" for x
    by (auto simp: claimText_def split: option.splits if_splits)
  moreover have "map_option (\<lambda>h. VString (units h)) x = Some v \<Longrightarrow> \<exists>s. v = VString (units s)" for x by auto
  ultimately show ?thesis using assms(2) unfolding claimsOf_def by (auto dest: sym)
qed

lemma presentClaims_values:
  assumes "\<bar>pm_ts meta\<bar> \<le> int MAX_SAFE_INTEGER" and "kv \<in> set (presentClaims (claimsOf meta))"
  shows "\<not> hasLoneSurrogate (fst kv) \<and> codeUnits (fst kv) \<and> denote (snd kv) = Some (claimJson (snd kv)) \<and> jsData (claimJson (snd kv))"
proof -
  from assms(2) obtain n where n: "(n, Some (snd kv)) \<in> set (claimsOf meta)" "fst kv = units n"
    by (auto simp: presentClaims_def List.map_filter_def)
  from claims_values [OF assms(1) n(1)] show ?thesis
    using assms(1) n(2) by (auto simp: units_encodable jsData_def numberText_def)
qed

lemma payload_denotes:
  assumes "\<bar>pm_ts meta\<bar> \<le> int MAX_SAFE_INTEGER"
  shows "denote (buildProofJwsPayload meta) =
    Some (JObj (sort_key fst (map (\<lambda>kv. (fst kv, claimJson (snd kv))) (presentClaims (claimsOf meta)))))"
  unfolding payload_claims by (rule denote_plainObject) (use presentClaims_values [OF assms] in blast)

lemma payload_data:
  assumes "\<bar>pm_ts meta\<bar> \<le> int MAX_SAFE_INTEGER"
  shows "jsData (JObj (sort_key fst (map (\<lambda>kv. (fst kv, claimJson (snd kv))) (presentClaims (claimsOf meta)))))"
  using presentClaims_values [OF assms] by (auto simp: jsData_def)

lemma map_of_claimJson: "map_of (map (\<lambda>kv. (fst kv, claimJson (snd kv))) kvs) k = map_option claimJson (map_of kvs k)"
  by (induction kvs) auto

lemma claims_named: "map_of (claimsOf meta) n = None \<longleftrightarrow> map_of (claimsOf meta') n = None"
  by (simp add: map_of_eq_None_iff claimsOf_def)

lemma payload_lookup:
  assumes "\<bar>pm_ts meta\<bar> \<le> int MAX_SAFE_INTEGER" and "\<bar>pm_ts meta'\<bar> \<le> int MAX_SAFE_INTEGER"
    and "canonicalizeJsonBytes (buildProofJwsPayload meta) = canonicalizeJsonBytes (buildProofJwsPayload meta')"
  shows "map_of (claimsOf meta) n = map_of (claimsOf meta') n"
proof -
  let ?es = "\<lambda>m. map (\<lambda>kv. (fst kv, claimJson (snd kv))) (presentClaims (claimsOf m))"
  have d: "denote (buildProofJwsPayload m) = Some (JObj (sort_key fst (?es m)))" "jsData (JObj (sort_key fst (?es m)))"
    if "\<bar>pm_ts m\<bar> \<le> int MAX_SAFE_INTEGER" for m
    by (rule payload_denotes [OF that], rule payload_data [OF that])
  note dd = d(1) [OF assms(1)] d(1) [OF assms(2)] d(2) [OF assms(1)] d(2) [OF assms(2)]
  note iff = canonical_bytes_eq_iff [OF dd]
  have "JObj (sort_key fst (?es meta)) = JObj (sort_key fst (?es meta'))"
    by (rule iffD1 [OF iff assms(3)])
  then have "sort_key fst (?es meta) = sort_key fst (?es meta')" by (rule json.inject(5) [THEN iffD1])
  then have "set (sort_key fst (?es meta)) = set (sort_key fst (?es meta'))" by (rule arg_cong)
  then have same: "set (?es meta) = set (?es meta')" by (simp only: set_sort)
  have names: "distinct (map fst (?es m))" for m using presentClaims_names [OF claims_distinct] by (simp add: o_def)
  have "map_of (?es meta) = map_of (?es meta')" by (rule iffD2 [OF map_of_inject_set [OF names names] same])
  then have e: "map_option claimJson (map_of (presentClaims (claimsOf meta)) (units n)) =
      map_option claimJson (map_of (presentClaims (claimsOf meta')) (units n))"
    by (simp only: map_of_claimJson fun_eq_iff)
  have inj: "v = w" if "claimJson v = claimJson w" "map_of (claimsOf meta) n = Some (Some v)" "map_of (claimsOf meta') n = Some (Some w)" for v w
    using claims_values [OF assms(1) map_of_SomeD [OF that(2)]] claims_values [OF assms(2) map_of_SomeD [OF that(3)]] that(1) by auto
  have l: "map_of (presentClaims (claimsOf m)) (units n) = (case map_of (claimsOf m) n of Some (Some v) \<Rightarrow> Some v | _ \<Rightarrow> None)" for m
    by (rule presentClaims_lookup [OF claims_distinct])
  consider "map_of (claimsOf meta) n = None" "map_of (claimsOf meta') n = None"
    | c c' where "map_of (claimsOf meta) n = Some c" "map_of (claimsOf meta') n = Some c'"
    using claims_named [of meta n meta'] by fastforce
  then show ?thesis
  proof cases
    case 2
    have same: "map_option claimJson c = map_option claimJson c'"
      using e unfolding l 2 by (cases c; cases c') (simp_all only: option.case)
    have "c = c'"
    proof (cases c)
      case None
      then show ?thesis using same by simp
    next
      case (Some v)
      then obtain w where w: "c' = Some w" "claimJson v = claimJson w" using same by (cases c') simp_all
      with Some inj [OF w(2)] 2 show ?thesis by simp
    qed
    then show ?thesis using 2 by simp
  qed simp
qed

text \<open>Two records of metadata that make the same claims: an optional one that is empty counts as absent.\<close>

definition sameClaims :: "proofMeta \<Rightarrow> proofMeta \<Rightarrow> bool" where
  "sameClaims meta meta' \<longleftrightarrow>
     pm_did meta = pm_did meta' \<and> pm_audience meta = pm_audience meta' \<and> pm_sessionId meta = pm_sessionId meta' \<and>
     pm_ts meta = pm_ts meta' \<and> pm_nonce meta = pm_nonce meta' \<and>
     pm_requestHash meta = pm_requestHash meta' \<and> pm_responseHash meta = pm_responseHash meta' \<and>
     list_all2 (\<lambda>v v'. claimText v = claimText v')
       [pm_scopeId meta, pm_delegationRef meta, pm_clientDid meta, pm_outcome meta, pm_reason meta, pm_prf meta]
       [pm_scopeId meta', pm_delegationRef meta', pm_clientDid meta', pm_outcome meta', pm_reason meta', pm_prf meta']"

lemma payload_same_claims:
  assumes "\<bar>pm_ts meta\<bar> \<le> int MAX_SAFE_INTEGER" and "\<bar>pm_ts meta'\<bar> \<le> int MAX_SAFE_INTEGER"
    and "canonicalizeJsonBytes (buildProofJwsPayload meta) = canonicalizeJsonBytes (buildProofJwsPayload meta')"
  shows "sameClaims meta meta'"
proof -
  note agree = payload_lookup [OF assms]
  have "map_option (\<lambda>h. VString (units h)) x = map_option (\<lambda>h. VString (units h)) y \<longleftrightarrow> x = y" for x y
    by (cases x; cases y) (simp_all add: units_inj)
  then show ?thesis
    using agree [of "''aud''"] agree [of "''sub''"] agree [of "''requestHash''"] agree [of "''responseHash''"]
      agree [of "''ts''"] agree [of "''nonce''"] agree [of "''sessionId''"] agree [of "''scopeId''"]
      agree [of "''delegationRef''"] agree [of "''clientDid''"] agree [of "''outcome''"] agree [of "''reason''"] agree [of "''prf''"]
    by (simp add: claimsOf_def sameClaims_def units_inj)
qed

text \<open>What the signature covers: two records of proof metadata with the same canonical payload bytes make the
  same claims: did, audience, both hashes, timestamp, nonce and session, and each optional claim up to the empty
  string counting as absent. Only the \<open>kid\<close> is outside the payload; the signed header carries it.\<close>

theorem payload_covers_every_claim:
  assumes "\<bar>pm_ts meta\<bar> \<le> int MAX_SAFE_INTEGER" and "\<bar>pm_ts meta'\<bar> \<le> int MAX_SAFE_INTEGER"
    and "canonicalizeJsonBytes (buildProofJwsPayload meta) = canonicalizeJsonBytes (buildProofJwsPayload meta')"
  shows "sameClaims meta meta'"
  by (rule payload_same_claims [OF assms])

definition demoMeta :: proofMeta where
  "demoMeta = \<lparr>pm_did = ''did:a'', pm_kid = ''did:a#k'', pm_ts = 1700000000, pm_nonce = ''n'', pm_audience = ''did:s'',
     pm_sessionId = ''s'', pm_requestHash = ''r'', pm_responseHash = None, pm_scopeId = None, pm_delegationRef = Some ''d'',
     pm_clientDid = None, pm_outcome = Some ''denied'', pm_reason = None, pm_prf = None\<rparr>"

lemma payload_covers_every_claim_witness:
  "sameClaims demoMeta (demoMeta\<lparr>pm_kid := ''other'', pm_scopeId := Some ''''\<rparr>)"
proof (rule payload_covers_every_claim)
  let ?m = "demoMeta\<lparr>pm_kid := ''other'', pm_scopeId := Some ''''\<rparr>"
  show "\<bar>pm_ts demoMeta\<bar> \<le> int MAX_SAFE_INTEGER" "\<bar>pm_ts ?m\<bar> \<le> int MAX_SAFE_INTEGER"
    by (simp_all add: demoMeta_def MAX_SAFE_INTEGER_def)
  have "buildProofJwsPayload demoMeta = buildProofJwsPayload ?m"
    by (simp add: buildProofJwsPayload_def demoMeta_def optionalClaim_def)
  then show "canonicalizeJsonBytes (buildProofJwsPayload demoMeta) = canonicalizeJsonBytes (buildProofJwsPayload ?m)"
    by (rule arg_cong)
qed

end
