(* ===== verification/Proof_Jws.thy ===== *)
theory Proof_Jws
  imports Proof_Binding
begin

text \<open>
  \<open>src/utils/crypto-service.ts\<close>: parsing and checking a compact or detached JWS under an Ed25519 key.
  \<open>JSON.parse\<close> over the decoded bytes and the provider's \<open>verify\<close> are the parameters \<open>jsonParse\<close> and
  \<open>cryptoVerify\<close>; a result of \<open>None\<close> is a throw. Logging is left out.
\<close>

type_synonym jsonParser = "bytes \<Rightarrow> jsvalue option"

type_synonym signatureCheck = "bytes \<Rightarrow> bytes \<Rightarrow> string \<Rightarrow> bool option"

text \<open>\<open>base64urlDecodeToString\<close> on Node: the regular expression, then \<open>Buffer\<close>; the bytes stand for the text they decode to.\<close>

definition base64urlDecodeToString :: "string \<Rightarrow> bytes option" where
  "base64urlDecodeToString s =
     (let base64 = map fromUrlChar (addPadding s)
      in if list_all (\<lambda>c. b64index c \<noteq> None) (stripPadding base64) then atob base64 else None)"

definition base64urlEncodeFromString :: "jsstring \<Rightarrow> string" where
  "base64urlEncodeFromString s = base64urlEncodeFromBytes (utf8Encode s)"

subsection \<open>Keys and parsed signatures\<close>

record ed25519JWK =
  jwk_kty :: "string option"
  jwk_crv :: "string option"
  jwk_x :: "string option"
  jwk_kid :: "string option"

record parsedJWS =
  pj_header :: jsvalue
  pj_payload :: "jsvalue option"
  pj_signature :: bytes
  pj_signingInput :: string

datatype jwsError = WrongPartCount | BadHeader | BadPayload | BadSignature

definition jwsParts :: "string \<Rightarrow> string list" where
  "jwsParts jws = splitOn (\<lambda>c. c = CHR ''.'') jws"

definition parseSegment :: "jsonParser \<Rightarrow> string \<Rightarrow> jsvalue option" where
  "parseSegment jsonParse segment = Option.bind (base64urlDecodeToString segment) jsonParse"

definition parseJWS :: "jsonParser \<Rightarrow> string \<Rightarrow> jwsError + parsedJWS" where
  "parseJWS jsonParse jws = (case jwsParts jws of
       [headerB64, payloadB64, signatureB64] \<Rightarrow>
         (case parseSegment jsonParse headerB64 of
            None \<Rightarrow> Inl BadHeader
          | Some header \<Rightarrow>
              (case (if payloadB64 = [] then Some None else map_option Some (parseSegment jsonParse payloadB64)) of
                 None \<Rightarrow> Inl BadPayload
               | Some payload \<Rightarrow>
                   (case base64urlDecodeToBytes signatureB64 of
                      None \<Rightarrow> Inl BadSignature
                    | Some sig \<Rightarrow> Inr \<lparr>pj_header = header, pj_payload = payload, pj_signature = sig,
                        pj_signingInput = headerB64 @ ''.'' @ payloadB64\<rparr>)))
     | _ \<Rightarrow> Inl WrongPartCount)"

text \<open>The second attempt of \<open>verifyJWS\<close> when parsing failed and a detached payload was given.\<close>

definition parseDetached :: "jsonParser \<Rightarrow> string \<Rightarrow> parsedJWS option" where
  "parseDetached jsonParse jws = (case jwsParts jws of
       [headerB64, payloadB64, signatureB64] \<Rightarrow>
         (if payloadB64 = [] then
            (case (parseSegment jsonParse headerB64, base64urlDecodeToBytes signatureB64) of
               (Some header, Some sig) \<Rightarrow>
                 Some \<lparr>pj_header = header, pj_payload = None, pj_signature = sig, pj_signingInput = []\<rparr>
             | _ \<Rightarrow> None)
          else None)
     | _ \<Rightarrow> None)"

text \<open>A member of the header. Reading one of \<open>null\<close> throws, which \<open>verifyJWS\<close> turns into the same
  answer as an algorithm other than the expected one.\<close>

definition headerMember :: "jsvalue \<Rightarrow> string \<Rightarrow> jsvalue" where
  "headerMember header name = (case header of VObject plain ms \<Rightarrow> getMember (units name) ms | _ \<Rightarrow> VUndefined)"

definition isValidEd25519JWK :: "ed25519JWK \<Rightarrow> bool" where
  "isValidEd25519JWK jwk \<longleftrightarrow> jwk_kty jwk = Some ''OKP'' \<and> jwk_crv jwk = Some ''Ed25519'' \<and> truthy (jwk_x jwk)"

definition jwkToBase64PublicKey :: "ed25519JWK \<Rightarrow> string option" where
  "jwkToBase64PublicKey jwk = Option.bind (Option.bind (jwk_x jwk) base64urlDecodeToBytes)
     (\<lambda>publicKeyBytes. if length publicKeyBytes = 32 then Some (bytesToBase64 publicKeyBytes) else None)"

definition verifyEd25519 :: "signatureCheck \<Rightarrow> bytes \<Rightarrow> bytes \<Rightarrow> string \<Rightarrow> bool" where
  "verifyEd25519 cryptoVerify data sig publicKey \<longleftrightarrow> cryptoVerify data sig publicKey = Some True"

subsection \<open>Checking a JWS\<close>

record jwsOptions =
  jo_detachedPayload :: "bytes option"
  jo_expectedKid :: "string option"
  jo_alg :: "string option"

definition textBytes :: "string \<Rightarrow> bytes" where
  "textBytes s = utf8Encode (units s)"

text \<open>\<open>options.alg || 'EdDSA'\<close>\<close>

definition expectedAlg :: "jwsOptions \<Rightarrow> string" where
  "expectedAlg opts = (if truthy (jo_alg opts) then the (jo_alg opts) else ''EdDSA'')"

text \<open>The signing input, and the one of a payload embedded next to a different detached one.\<close>

definition signingInputs :: "jwsOptions \<Rightarrow> string \<Rightarrow> parsedJWS \<Rightarrow> (bytes \<times> bytes option) option" where
  "signingInputs opts jws parsed = (case jo_detachedPayload opts of
       Some payload \<Rightarrow>
         (let headerB64 = jwsParts jws ! 0; embedded = jwsParts jws ! 1; payloadB64 = base64urlEncodeFromBytes payload
          in Some (textBytes (headerB64 @ ''.'' @ payloadB64),
               if embedded \<noteq> [] \<and> embedded \<noteq> payloadB64 then Some (textBytes (headerB64 @ ''.'' @ embedded)) else None))
     | None \<Rightarrow> if pj_signingInput parsed = [] then None else Some (textBytes (pj_signingInput parsed), None))"

definition checkParsed :: "signatureCheck \<Rightarrow> string \<Rightarrow> ed25519JWK \<Rightarrow> jwsOptions \<Rightarrow> parsedJWS \<Rightarrow> bool" where
  "checkParsed cryptoVerify jws jwk opts parsed =
     (if headerMember (pj_header parsed) ''alg'' \<noteq> VString (units (expectedAlg opts)) then False
      else if (case jo_expectedKid opts of None \<Rightarrow> False
               | Some kid \<Rightarrow> headerMember (pj_header parsed) ''kid'' \<noteq> VString (units kid)) then False
      else (case signingInputs opts jws parsed of
          None \<Rightarrow> False
        | Some (signingInput, embeddedInput) \<Rightarrow>
            (case jwkToBase64PublicKey jwk of
               None \<Rightarrow> False
             | Some publicKey \<Rightarrow>
                 verifyEd25519 cryptoVerify signingInput (pj_signature parsed) publicKey \<and>
                 (case embeddedInput of None \<Rightarrow> True
                  | Some embedded \<Rightarrow> verifyEd25519 cryptoVerify embedded (pj_signature parsed) publicKey))))"

definition verifyJWS ::
  "jsonParser \<Rightarrow> signatureCheck \<Rightarrow> string \<Rightarrow> ed25519JWK \<Rightarrow> jwsOptions \<Rightarrow> bool" where
  "verifyJWS jsonParse cryptoVerify jws jwk opts =
     (if \<not> isValidEd25519JWK jwk then False
      else if truthy (jo_expectedKid opts) \<and> jwk_kid jwk \<noteq> jo_expectedKid opts then False
      else (case parseJWS jsonParse jws of
          Inr parsed \<Rightarrow> checkParsed cryptoVerify jws jwk opts parsed
        | Inl e \<Rightarrow>
            (case (if jo_detachedPayload opts \<noteq> None then parseDetached jsonParse jws else None) of
               None \<Rightarrow> False
             | Some parsed \<Rightarrow> checkParsed cryptoVerify jws jwk opts parsed)))"

subsection \<open>What an accepted signature covers\<close>

lemma parse_retry_useless: "parseJWS jsonParse jws = Inl e \<Longrightarrow> parseDetached jsonParse jws = None"
  unfolding parseJWS_def parseDetached_def by (auto split: list.splits option.splits if_splits)

lemma verifyJWS_parsed:
  "verifyJWS jsonParse cryptoVerify jws jwk opts \<longleftrightarrow>
     isValidEd25519JWK jwk \<and> (truthy (jo_expectedKid opts) \<longrightarrow> jwk_kid jwk = jo_expectedKid opts) \<and>
     (\<exists>parsed. parseJWS jsonParse jws = Inr parsed \<and> checkParsed cryptoVerify jws jwk opts parsed)"
proof (cases "parseJWS jsonParse jws")
  case (Inl e)
  then show ?thesis by (auto simp: verifyJWS_def parse_retry_useless [OF Inl])
qed (auto simp: verifyJWS_def)

lemma parseJWS_parts:
  assumes "parseJWS jsonParse jws = Inr parsed"
  obtains h p s where "jwsParts jws = [h, p, s]" and "parseSegment jsonParse h = Some (pj_header parsed)"
    and "base64urlDecodeToBytes s = Some (pj_signature parsed)" and "p \<noteq> [] \<Longrightarrow> parseSegment jsonParse p \<noteq> None"
    and "pj_signingInput parsed = h @ ''.'' @ p"
  using assms unfolding parseJWS_def by (auto split: list.splits option.splits if_splits)

end
