(* ===== verification/Proof_Verifier.thy ===== *)
theory Proof_Verifier
  imports Proof_Jws Session
begin

text \<open>
  \<open>src/proof/verifier.ts\<close> with its error codes and \<open>validateDetachedProof\<close> of \<open>src/types/protocol.ts\<close>: the
  verifier as a pipeline of checks over a replay store. Clock reads are arguments, in milliseconds;
  durations are whole seconds. Messages and details of a result are left out.
\<close>

subsection \<open>Results\<close>

datatype proofErrorCode =
    INVALID_PROOF_STRUCTURE | MISSING_REQUIRED_FIELD
  | NONCE_REPLAY_DETECTED | TIMESTAMP_SKEW_EXCEEDED | TIMESTAMP_INVALID
  | CONTENT_BINDING_MISMATCH | KID_DID_MISMATCH | DID_MISMATCH | AUDIENCE_MISMATCH
  | INVALID_JWS_SIGNATURE | INVALID_JWS_FORMAT | INVALID_JWS_HEADER | INVALID_JWS_PAYLOAD
  | INVALID_JWS_SIGNATURE_BASE64 | UNSUPPORTED_ALGORITHM
  | INVALID_JWK_FORMAT | INVALID_JWK_KTY | INVALID_JWK_CRV | INVALID_JWK_X_FIELD | INVALID_JWK_KEY_LENGTH
  | JWK_KID_MISMATCH
  | DID_RESOLUTION_FAILED | DID_DOCUMENT_NOT_FOUND | VERIFICATION_METHOD_NOT_FOUND | PUBLIC_KEY_NOT_FOUND
  | UNSUPPORTED_DID_METHOD
  | META_POLICY_VIOLATION
  | VERIFICATION_ERROR | INTERNAL_ERROR

datatype verificationResult = ProofValid | ProofInvalid proofErrorCode

subsection \<open>The structure of a received proof\<close>

text \<open>A member of untrusted metadata: \<open>undefined\<close>, a text, a number, or anything else.\<close>

datatype metaField = Missing | Text string | Number js_number | OtherField

record rawMeta =
  rm_did :: metaField
  rm_kid :: metaField
  rm_ts :: metaField
  rm_nonce :: metaField
  rm_audience :: metaField
  rm_sessionId :: metaField
  rm_requestHash :: metaField
  rm_responseHash :: metaField
  rm_scopeId :: metaField
  rm_delegationRef :: metaField
  rm_clientDid :: metaField
  rm_outcome :: metaField
  rm_reason :: metaField
  rm_prf :: metaField

record rawProof =
  rp_jws :: metaField
  rp_meta :: "rawMeta option"

record detachedProof =
  dp_jws :: string
  dp_meta :: proofMeta

definition isHashText :: "string \<Rightarrow> bool" where
  "isHashText s \<longleftrightarrow> startsWith s ''sha256:'' \<and> length s = 71 \<and> list_all (\<lambda>c. c \<in> set ''0123456789abcdef'') (drop 7 s)"

definition requiredText :: "metaField \<Rightarrow> string option" where
  "requiredText f = (case f of Text s \<Rightarrow> if s \<noteq> [] then Some s else None | _ \<Rightarrow> None)"

definition positiveInteger :: "metaField \<Rightarrow> int option" where
  "positiveInteger f = (case f of Number (JsInteger t) \<Rightarrow> if 0 < t then Some t else None | _ \<Rightarrow> None)"

definition hashField :: "metaField \<Rightarrow> string option" where
  "hashField f = (case f of Text s \<Rightarrow> if isHashText s then Some s else None | _ \<Rightarrow> None)"

text \<open>An optional member: absent, or a text that passes the check.\<close>

definition optionalField :: "(string \<Rightarrow> bool) \<Rightarrow> metaField \<Rightarrow> string option option" where
  "optionalField ok f = (case f of Missing \<Rightarrow> Some None | Text s \<Rightarrow> if ok s then Some (Some s) else None | _ \<Rightarrow> None)"

definition OUTCOMES :: "string list" where
  "OUTCOMES = [''allowed'', ''denied'', ''step_up_required'', ''needs_authorization'']"

datatype shapeError =
    NotAnObject | JwsNotText | MetaNotObject | RequiredText string | TsNotPositiveInteger
  | RequestHashMalformed | ResponseHashMalformed | OptionalNotText string | UnknownOutcome | UnknownProfile

definition orFail :: "'e \<Rightarrow> 'a option \<Rightarrow> 'e + 'a" where
  "orFail e v = (case v of None \<Rightarrow> Inl e | Some a \<Rightarrow> Inr a)"

definition andThen :: "'e + 'a \<Rightarrow> ('a \<Rightarrow> 'e + 'b) \<Rightarrow> 'e + 'b" where
  "andThen r f = (case r of Inl e \<Rightarrow> Inl e | Inr a \<Rightarrow> f a)"

definition validateMeta :: "rawMeta \<Rightarrow> shapeError + proofMeta" where
  "validateMeta m =
     andThen (orFail (RequiredText ''did'') (requiredText (rm_did m))) (\<lambda>did.
     andThen (orFail (RequiredText ''kid'') (requiredText (rm_kid m))) (\<lambda>kid.
     andThen (orFail (RequiredText ''nonce'') (requiredText (rm_nonce m))) (\<lambda>nonce.
     andThen (orFail (RequiredText ''audience'') (requiredText (rm_audience m))) (\<lambda>aud.
     andThen (orFail (RequiredText ''sessionId'') (requiredText (rm_sessionId m))) (\<lambda>sessionId.
     andThen (orFail TsNotPositiveInteger (positiveInteger (rm_ts m))) (\<lambda>ts.
     andThen (orFail RequestHashMalformed (hashField (rm_requestHash m))) (\<lambda>requestHash.
     andThen (orFail ResponseHashMalformed (optionalField isHashText (rm_responseHash m))) (\<lambda>responseHash.
     andThen (orFail (OptionalNotText ''scopeId'') (optionalField (\<lambda>_. True) (rm_scopeId m))) (\<lambda>scopeId.
     andThen (orFail (OptionalNotText ''delegationRef'') (optionalField (\<lambda>_. True) (rm_delegationRef m))) (\<lambda>delegationRef.
     andThen (orFail (OptionalNotText ''clientDid'') (optionalField (\<lambda>_. True) (rm_clientDid m))) (\<lambda>clientDid.
     andThen (orFail (OptionalNotText ''reason'') (optionalField (\<lambda>_. True) (rm_reason m))) (\<lambda>reason.
     andThen (orFail UnknownOutcome (optionalField (\<lambda>s. s \<in> set OUTCOMES) (rm_outcome m))) (\<lambda>outcome.
     andThen (orFail UnknownProfile (optionalField (\<lambda>s. s = RESPONSE_PROOF_PROFILE_ENVELOPE) (rm_prf m))) (\<lambda>prf.
     Inr \<lparr>pm_did = did, pm_kid = kid, pm_ts = ts, pm_nonce = nonce, pm_audience = aud, pm_sessionId = sessionId,
       pm_requestHash = requestHash, pm_responseHash = responseHash, pm_scopeId = scopeId,
       pm_delegationRef = delegationRef, pm_clientDid = clientDid, pm_outcome = outcome, pm_reason = reason,
       pm_prf = prf\<rparr>))))))))))))))"

definition validateDetachedProof :: "rawProof option \<Rightarrow> shapeError + detachedProof" where
  "validateDetachedProof proof = (case proof of
       None \<Rightarrow> Inl NotAnObject
     | Some p \<Rightarrow>
         (case requiredText (rp_jws p) of
            None \<Rightarrow> Inl JwsNotText
          | Some jws \<Rightarrow>
              (case rp_meta p of
                 None \<Rightarrow> Inl MetaNotObject
               | Some m \<Rightarrow> andThen (validateMeta m) (\<lambda>meta. Inr \<lparr>dp_jws = jws, dp_meta = meta\<rparr>))))"

subsection \<open>The verifier\<close>

text \<open>A duration argument: whole seconds, or a value that is not finite.\<close>

datatype seconds = Seconds int | NotFinite

definition DEFAULT_CLOCK_SKEW_SECONDS :: int where
  "DEFAULT_CLOCK_SKEW_SECONDS = 120"

definition MIN_CLOCK_SKEW_SECONDS :: int where
  "MIN_CLOCK_SKEW_SECONDS = 30"

definition MAX_CLOCK_SKEW_SECONDS :: int where
  "MAX_CLOCK_SKEW_SECONDS = 600"

datatype verifierError = NotNonNegativeSeconds string | NonceStoreRefused nonceError

definition requireNonNegativeSeconds :: "string \<Rightarrow> seconds \<Rightarrow> verifierError + int" where
  "requireNonNegativeSeconds name v = (case v of
       NotFinite \<Rightarrow> Inl (NotNonNegativeSeconds name)
     | Seconds n \<Rightarrow> if n < 0 then Inl (NotNonNegativeSeconds name) else Inr n)"

record proofVerifier =
  pv_timestampSkewSeconds :: int
  pv_nonceTtlSeconds :: int
  pv_requireAtomicNonce :: bool

definition newProofVerifier ::
  "'n nonceStore \<Rightarrow> seconds option \<Rightarrow> seconds option \<Rightarrow> bool option \<Rightarrow> verifierError + proofVerifier" where
  "newProofVerifier store skew ttl atomic =
     andThen (requireNonNegativeSeconds ''timestampSkewSeconds'' (case skew of None \<Rightarrow> Seconds DEFAULT_CLOCK_SKEW_SECONDS | Some v \<Rightarrow> v)) (\<lambda>s.
     andThen (requireNonNegativeSeconds ''nonceTtlSeconds'' (case ttl of None \<Rightarrow> Seconds 300 | Some v \<Rightarrow> v)) (\<lambda>t.
       (let requireAtomic = (atomic = Some True)
        in (case checkNonceStore store requireAtomic of
              Inl e \<Rightarrow> Inl (NonceStoreRefused e)
            | Inr _ \<Rightarrow> Inr \<lparr>pv_timestampSkewSeconds = s, pv_nonceTtlSeconds = t, pv_requireAtomicNonce = requireAtomic\<rparr>))))"

text \<open>The server-advertised skew is given by its floor.\<close>

definition setTimestampSkew :: "seconds \<Rightarrow> proofVerifier \<Rightarrow> proofVerifier" where
  "setTimestampSkew skew v = (case skew of
       NotFinite \<Rightarrow> v
     | Seconds n \<Rightarrow> v\<lparr>pv_timestampSkewSeconds := max MIN_CLOCK_SKEW_SECONDS (min MAX_CLOCK_SKEW_SECONDS n)\<rparr>)"

record 'n verifierDeps =
  vd_jsonParse :: jsonParser
  vd_cryptoVerify :: signatureCheck
  vd_hash :: "bytes \<Rightarrow> string"
  vd_nonces :: "'n nonceStore"

record verifyEnv =
  ve_checkedAt :: int
  ve_retainedAt :: int
  ve_consumedAt :: int

record verifyOptions =
  vo_expectedDid :: "string option"
  vo_expectedAudience :: "string list option"

definition noOptions :: verifyOptions where
  "noOptions = \<lparr>vo_expectedDid = None, vo_expectedAudience = None\<rparr>"

type_synonym expectedContent = "toolRequest \<times> jsvalue option"

definition didOfKid :: "string \<Rightarrow> string option" where
  "didOfKid kid = (if startsWith kid ''did:'' then Some (takeWhile (\<lambda>c. c \<noteq> CHR ''#'') kid) else None)"

definition validateSigner :: "proofMeta \<Rightarrow> verifyOptions \<Rightarrow> verificationResult" where
  "validateSigner meta opts =
     (if didOfKid (pm_kid meta) \<notin> {None, Some (pm_did meta)} then ProofInvalid KID_DID_MISMATCH
      else if vo_expectedDid opts \<notin> {None, Some (pm_did meta)} then ProofInvalid DID_MISMATCH
      else (case vo_expectedAudience opts of
          None \<Rightarrow> ProofValid
        | Some allowed \<Rightarrow> if pm_audience meta \<in> set allowed then ProofValid else ProofInvalid AUDIENCE_MISMATCH))"

definition isWithinSkew :: "int \<Rightarrow> int \<Rightarrow> int \<Rightarrow> bool" where
  "isWithinSkew now timestamp skewSeconds \<longleftrightarrow> \<bar>now - timestamp\<bar> \<le> skewSeconds * 1000"

definition validateTimestamp :: "proofVerifier \<Rightarrow> int \<Rightarrow> int \<Rightarrow> verificationResult" where
  "validateTimestamp v now timestamp =
     (if isWithinSkew now (timestamp * 1000) (pv_timestampSkewSeconds v) then ProofValid
      else ProofInvalid TIMESTAMP_SKEW_EXCEEDED)"

definition verifySignature ::
  "jsonParser \<Rightarrow> signatureCheck \<Rightarrow> string \<Rightarrow> ed25519JWK \<Rightarrow> bytes \<Rightarrow> string \<Rightarrow> verificationResult" where
  "verifySignature jsonParse cryptoVerify jws jwk payload expectedKid =
     (if verifyJWS jsonParse cryptoVerify jws jwk
          \<lparr>jo_detachedPayload = Some payload, jo_expectedKid = Some expectedKid, jo_alg = Some ''EdDSA''\<rparr>
      then ProofValid else ProofInvalid INVALID_JWS_SIGNATURE)"

definition validateContentBinding ::
  "(bytes \<Rightarrow> string) \<Rightarrow> proofMeta \<Rightarrow> expectedContent option \<Rightarrow> verificationResult" where
  "validateContentBinding hash meta expected = (case expected of
       None \<Rightarrow> ProofValid
     | Some (req, response) \<Rightarrow>
         (case findContentBindingMismatch hash meta req response of
            Inl _ \<Rightarrow> ProofInvalid VERIFICATION_ERROR
          | Inr None \<Rightarrow> ProofValid
          | Inr (Some _) \<Rightarrow> ProofInvalid CONTENT_BINDING_MISMATCH))"

definition consumeNonce ::
  "'n nonceStore \<Rightarrow> proofVerifier \<Rightarrow> verifyEnv \<Rightarrow> proofMeta \<Rightarrow> 'n \<Rightarrow> verificationResult \<times> 'n" where
  "consumeNonce store v env meta s =
     (case nonceRetentionSeconds (pv_nonceTtlSeconds v)
             (pm_ts meta + max (pv_timestampSkewSeconds v) MAX_CLOCK_SKEW_SECONDS) (ve_retainedAt env) of
        Inl _ \<Rightarrow> (ProofInvalid VERIFICATION_ERROR, s)
      | Inr ttl \<Rightarrow>
          (case admitNonce store (pv_requireAtomicNonce v) (ve_consumedAt env) (pm_nonce meta) ttl (Some (pm_did meta)) s of
             (Inl _, s') \<Rightarrow> (ProofInvalid VERIFICATION_ERROR, s')
           | (Inr False, s') \<Rightarrow> (ProofInvalid NONCE_REPLAY_DETECTED, s')
           | (Inr True, s') \<Rightarrow> (ProofValid, s')))"

text \<open>The checks before the nonce is consumed, in order; the first failure is the result.\<close>

fun firstFailure :: "verificationResult list \<Rightarrow> verificationResult" where
  "firstFailure [] = ProofValid"
| "firstFailure (ProofValid # rs) = firstFailure rs"
| "firstFailure (ProofInvalid e # rs) = ProofInvalid e"

definition pureChecks ::
  "'n verifierDeps \<Rightarrow> proofVerifier \<Rightarrow> int \<Rightarrow> detachedProof \<Rightarrow> ed25519JWK \<Rightarrow> bytes \<Rightarrow> expectedContent option \<Rightarrow>
     verifyOptions \<Rightarrow> verificationResult list" where
  "pureChecks deps v now proof jwk payload expected opts =
     [validateSigner (dp_meta proof) opts,
      validateTimestamp v now (pm_ts (dp_meta proof)),
      verifySignature (vd_jsonParse deps) (vd_cryptoVerify deps) (dp_jws proof) jwk payload (pm_kid (dp_meta proof)),
      validateContentBinding (vd_hash deps) (dp_meta proof) expected]"

definition runVerificationPipeline ::
  "'n verifierDeps \<Rightarrow> proofVerifier \<Rightarrow> verifyEnv \<Rightarrow> detachedProof \<Rightarrow> ed25519JWK \<Rightarrow> bytes \<Rightarrow> expectedContent option \<Rightarrow>
     verifyOptions \<Rightarrow> 'n \<Rightarrow> verificationResult \<times> 'n" where
  "runVerificationPipeline deps v env proof jwk payload expected opts s =
     (case firstFailure (pureChecks deps v (ve_checkedAt env) proof jwk payload expected opts) of
        ProofInvalid e \<Rightarrow> (ProofInvalid e, s)
      | ProofValid \<Rightarrow> consumeNonce (vd_nonces deps) v env (dp_meta proof) s)"

definition encodeCanonicalPayload :: "proofMeta \<Rightarrow> jsonError + bytes" where
  "encodeCanonicalPayload meta = canonicalizeJsonBytes (buildProofJwsPayload meta)"

definition verifyProof ::
  "'n verifierDeps \<Rightarrow> proofVerifier \<Rightarrow> verifyEnv \<Rightarrow> rawProof option \<Rightarrow> ed25519JWK \<Rightarrow> expectedContent option \<Rightarrow>
     verifyOptions \<Rightarrow> 'n \<Rightarrow> verificationResult \<times> 'n" where
  "verifyProof deps v env raw jwk expected opts s = (case validateDetachedProof raw of
       Inl _ \<Rightarrow> (ProofInvalid INVALID_PROOF_STRUCTURE, s)
     | Inr proof \<Rightarrow>
         (case encodeCanonicalPayload (dp_meta proof) of
            Inl _ \<Rightarrow> (ProofInvalid VERIFICATION_ERROR, s)
          | Inr payload \<Rightarrow> runVerificationPipeline deps v env proof jwk payload expected opts s))"

definition verifyProofArtifact ::
  "'n verifierDeps \<Rightarrow> rawProof option \<Rightarrow> ed25519JWK \<Rightarrow> expectedContent option \<Rightarrow> verificationResult" where
  "verifyProofArtifact deps raw jwk expected = (case validateDetachedProof raw of
       Inl _ \<Rightarrow> ProofInvalid INVALID_PROOF_STRUCTURE
     | Inr proof \<Rightarrow>
         (case validateSigner (dp_meta proof) noOptions of
            ProofInvalid e \<Rightarrow> ProofInvalid e
          | ProofValid \<Rightarrow>
              (case encodeCanonicalPayload (dp_meta proof) of
                 Inl _ \<Rightarrow> ProofInvalid VERIFICATION_ERROR
               | Inr payload \<Rightarrow> firstFailure
                   [verifySignature (vd_jsonParse deps) (vd_cryptoVerify deps) (dp_jws proof) jwk payload (pm_kid (dp_meta proof)),
                    validateContentBinding (vd_hash deps) (dp_meta proof) expected])))"

definition verifyProofDetached ::
  "'n verifierDeps \<Rightarrow> proofVerifier \<Rightarrow> verifyEnv \<Rightarrow> rawProof option \<Rightarrow> bytes \<Rightarrow> ed25519JWK \<Rightarrow> 'n \<Rightarrow> verificationResult \<times> 'n" where
  "verifyProofDetached deps v env raw suppliedPayload jwk s = (case validateDetachedProof raw of
       Inl _ \<Rightarrow> (ProofInvalid INVALID_PROOF_STRUCTURE, s)
     | Inr proof \<Rightarrow>
         (case encodeCanonicalPayload (dp_meta proof) of
            Inl _ \<Rightarrow> (ProofInvalid VERIFICATION_ERROR, s)
          | Inr metaPayload \<Rightarrow>
              (if suppliedPayload \<noteq> metaPayload then (ProofInvalid INVALID_JWS_PAYLOAD, s)
               else runVerificationPipeline deps v env proof jwk metaPayload None noOptions s)))"

subsection \<open>What the pipeline decides\<close>

lemma firstFailure_valid: "firstFailure rs = ProofValid \<longleftrightarrow> (\<forall>r \<in> set rs. r = ProofValid)"
  by (induction rs rule: firstFailure.induct) auto

lemma signer_valid:
  "validateSigner meta opts = ProofValid \<longleftrightarrow>
     didOfKid (pm_kid meta) \<in> {None, Some (pm_did meta)} \<and> vo_expectedDid opts \<in> {None, Some (pm_did meta)} \<and>
     (vo_expectedAudience opts = None \<or> pm_audience meta \<in> set (the (vo_expectedAudience opts)))"
  by (simp add: validateSigner_def split: option.splits)

lemma timestamp_valid:
  "validateTimestamp v now ts = ProofValid \<longleftrightarrow> \<bar>now - ts * 1000\<bar> \<le> pv_timestampSkewSeconds v * 1000"
  by (simp add: validateTimestamp_def isWithinSkew_def)

lemma signature_valid:
  "verifySignature jp cv jws jwk payload kid = ProofValid \<longleftrightarrow>
     verifyJWS jp cv jws jwk \<lparr>jo_detachedPayload = Some payload, jo_expectedKid = Some kid, jo_alg = Some ''EdDSA''\<rparr>"
  by (simp add: verifySignature_def)

lemma binding_valid:
  "validateContentBinding hash meta expected = ProofValid \<longleftrightarrow>
     (case expected of None \<Rightarrow> True | Some (req, response) \<Rightarrow> findContentBindingMismatch hash meta req response = Inr None)"
  by (simp add: validateContentBinding_def split: option.splits sum.splits)

lemmas checks_valid = signer_valid timestamp_valid signature_valid binding_valid

lemma pipeline_valid:
  assumes "runVerificationPipeline deps v env dp jwk payload expected opts s = (ProofValid, s')"
  shows "\<forall>r \<in> set (pureChecks deps v (ve_checkedAt env) dp jwk payload expected opts). r = ProofValid"
    and "consumeNonce (vd_nonces deps) v env (dp_meta dp) s = (ProofValid, s')"
  using assms unfolding runVerificationPipeline_def firstFailure_valid [symmetric]
  by (auto split: verificationResult.splits)

lemma verifyProof_valid:
  assumes "verifyProof deps v env raw jwk expected opts s = (ProofValid, s')"
  obtains dp payload where "validateDetachedProof raw = Inr dp" and "encodeCanonicalPayload (dp_meta dp) = Inr payload"
    and "\<forall>r \<in> set (pureChecks deps v (ve_checkedAt env) dp jwk payload expected opts). r = ProofValid"
    and "consumeNonce (vd_nonces deps) v env (dp_meta dp) s = (ProofValid, s')"
proof -
  from assms obtain dp payload where d: "validateDetachedProof raw = Inr dp" "encodeCanonicalPayload (dp_meta dp) = Inr payload"
    and run: "runVerificationPipeline deps v env dp jwk payload expected opts s = (ProofValid, s')"
    unfolding verifyProof_def by (auto split: sum.splits)
  show thesis by (rule that [OF d pipeline_valid [OF run]])
qed

subsection \<open>A proof is accepted once\<close>

datatype verifierCall =
    SetSkew seconds
  | Verify verifyEnv "rawProof option" ed25519JWK "expectedContent option" verifyOptions

fun verifierStep ::
  "memoryNonceCache verifierDeps \<Rightarrow> verifierCall \<Rightarrow> proofVerifier \<times> memoryNonceCache \<Rightarrow> bool \<times> proofVerifier \<times> memoryNonceCache" where
  "verifierStep deps (SetSkew skew) (v, c) = (False, setTimestampSkew skew v, c)"
| "verifierStep deps (Verify env raw jwk expected opts) (v, c) =
     (case verifyProof deps v env raw jwk expected opts c of (r, c') \<Rightarrow> (r = ProofValid, v, c'))"

fun runVerifier ::
  "memoryNonceCache verifierDeps \<Rightarrow> verifierCall list \<Rightarrow> proofVerifier \<times> memoryNonceCache \<Rightarrow> bool list" where
  "runVerifier deps [] s = []"
| "runVerifier deps (call # calls) s = (case verifierStep deps call s of (b, s') \<Rightarrow> b # runVerifier deps calls s')"

abbreviation proofKey :: "proofMeta \<Rightarrow> nonceKey option" where
  "proofKey meta \<equiv> Some (Some (pm_did meta), pm_nonce meta)"

lemma consume_cache:
  assumes "consumeNonce memoryNonceStore v env meta c = (r, c')"
  shows "r \<noteq> ProofValid \<and> c' = c \<or>
    (\<exists>ttl b. (pm_ts meta + max (pv_timestampSkewSeconds v) MAX_CLOCK_SKEW_SECONDS + 1) * 1000 \<le> ve_retainedAt env + ttl * 1000 \<and>
       cacheStep (ve_consumedAt env) (proofKey meta) ttl c = (b, c') \<and> (r = ProofValid \<longleftrightarrow> b))"
proof (cases "nonceRetentionSeconds (pv_nonceTtlSeconds v)
      (pm_ts meta + max (pv_timestampSkewSeconds v) MAX_CLOCK_SKEW_SECONDS) (ve_retainedAt env)")
  case (Inl e)
  then show ?thesis using assms by (auto simp: consumeNonce_def)
next
  case (Inr ttl)
  obtain res c1 where res: "memConsume (ve_consumedAt env) (pm_nonce meta) ttl (Some (pm_did meta)) c = (res, c1)"
    by force
  then have "admitNonce memoryNonceStore (pv_requireAtomicNonce v) (ve_consumedAt env) (pm_nonce meta) ttl
      (Some (pm_did meta)) c = (res, c1)"
    by (simp add: admitNonce_def memoryNonceStore_def)
  moreover have "cacheStep (ve_consumedAt env) (proofKey meta) ttl c = (case res of Inl _ \<Rightarrow> False | Inr b \<Rightarrow> b, c1)"
    using res by (simp add: cacheStep_def split: sum.splits)
  ultimately show ?thesis using assms nonceRetention_covers(2) [OF Inr] Inr
    by (intro disjI2 exI [of _ ttl] exI [of _ "case res of Inl _ \<Rightarrow> False | Inr b \<Rightarrow> b"])
      (auto simp: consumeNonce_def split: sum.splits bool.splits)
qed

lemma verify_cache:
  assumes "vd_nonces deps = memoryNonceStore" and "verifyProof deps v env raw jwk expected opts c = (r, c')"
  shows "c' = c \<or> (\<exists>k ttl b. cacheStep (ve_consumedAt env) k ttl c = (b, c'))"
proof -
  have "c' = c \<or> (\<exists>meta. consumeNonce memoryNonceStore v env meta c = (r, c'))"
    using assms unfolding verifyProof_def runVerificationPipeline_def by (auto split: sum.splits verificationResult.splits)
  then show ?thesis using consume_cache by blast
qed

lemma verify_accepted:
  assumes "vd_nonces deps = memoryNonceStore" and "verifyProof deps v env raw jwk expected opts c = (ProofValid, c')"
    and "validateDetachedProof raw = Inr dp"
  obtains ttl where "(pm_ts (dp_meta dp) + max (pv_timestampSkewSeconds v) MAX_CLOCK_SKEW_SECONDS + 1) * 1000 \<le> ve_retainedAt env + ttl * 1000"
    and "cacheStep (ve_consumedAt env) (proofKey (dp_meta dp)) ttl c = (True, c')"
    and "ve_checkedAt env \<le> (pm_ts (dp_meta dp) + pv_timestampSkewSeconds v) * 1000"
proof -
  from assms(2) obtain payload where
    checks: "\<forall>r \<in> set (pureChecks deps v (ve_checkedAt env) dp jwk payload expected opts). r = ProofValid" and
    nonce: "consumeNonce memoryNonceStore v env (dp_meta dp) c = (ProofValid, c')"
    using assms(1,3) by (auto elim: verifyProof_valid)
  have "\<bar>ve_checkedAt env - pm_ts (dp_meta dp) * 1000\<bar> \<le> pv_timestampSkewSeconds v * 1000"
    using checks by (simp add: pureChecks_def timestamp_valid)
  then have "ve_checkedAt env \<le> (pm_ts (dp_meta dp) + pv_timestampSkewSeconds v) * 1000" by (simp add: distrib_right)
  with consume_cache [OF nonce] that show ?thesis by auto
qed

text \<open>When the cache of each call reads the clock.\<close>

fun callTimes :: "verifierCall list \<Rightarrow> int list" where
  "callTimes [] = []"
| "callTimes (SetSkew _ # calls) = callTimes calls"
| "callTimes (Verify env _ _ _ _ # calls) = ve_consumedAt env # callTimes calls"

lemma callTimes_in: "Verify env raw jwk expected opts \<in> set calls \<Longrightarrow> ve_consumedAt env \<in> set (callTimes calls)"
  by (induction calls rule: callTimes.induct) auto

lemma skew_bounded:
  assumes "pv_timestampSkewSeconds v \<le> B" and "MAX_CLOCK_SKEW_SECONDS \<le> B"
  shows "pv_timestampSkewSeconds (setTimestampSkew skew v) \<le> B"
  using assms by (auto simp: setTimestampSkew_def MAX_CLOCK_SKEW_SECONDS_def MIN_CLOCK_SKEW_SECONDS_def split: seconds.split)

text \<open>While the cache refuses a nonce up to a second after its skew window, a proof with it is accepted only by a call that
  checked it inside the window and reached the cache after that second.\<close>

lemma refused_while_fresh:
  assumes "vd_nonces deps = memoryNonceStore" and "sorted (callTimes calls)"
    and "pv_timestampSkewSeconds v \<le> B" and "MAX_CLOCK_SKEW_SECONDS \<le> B"
    and "\<And>t. t < (pm_ts meta + B + 1) * 1000 \<Longrightarrow> t \<ge> ve_consumedAt env \<Longrightarrow> cacheRefuses c (proofKey meta) t"
    and "j < length calls" and "calls ! j = Verify env raw jwk expected opts"
    and "validateDetachedProof raw = Inr dp" and "dp_meta dp = meta"
    and "runVerifier deps calls (v, c) ! j"
  shows "ve_checkedAt env \<le> (pm_ts meta + B) * 1000 \<and> (pm_ts meta + B + 1) * 1000 \<le> ve_consumedAt env"
  using assms
proof (induction calls arbitrary: v c j)
  case (Cons call calls)
  obtain b v' c' where step: "verifierStep deps call (v, c) = (b, v', c')" by (metis prod.exhaust)
  have skew': "pv_timestampSkewSeconds v' \<le> B"
    using step Cons.prems(3,4) skew_bounded by (cases call) (auto split: prod.splits)
  show ?case
  proof (cases j)
    case 0
    with Cons.prems have call: "call = Verify env raw jwk expected opts" by simp
    then have acc: "verifyProof deps v env raw jwk expected opts c = (ProofValid, c')"
      using step Cons.prems(10) 0 by (auto split: prod.splits)
    from verify_accepted [OF Cons.prems(1) acc Cons.prems(8)] Cons.prems(9)
    obtain ttl where t: "cacheStep (ve_consumedAt env) (proofKey meta) ttl c = (True, c')"
      "ve_checkedAt env \<le> (pm_ts meta + pv_timestampSkewSeconds v) * 1000" by metis
    have "\<not> cacheRefuses c (proofKey meta) (ve_consumedAt env)" using t(1) by (auto elim: cache_admitted)
    then have "\<not> ve_consumedAt env < (pm_ts meta + B + 1) * 1000" using Cons.prems(5) by blast
    then show ?thesis using t(2) Cons.prems(3) by simp
  next
    case (Suc j')
    have "cacheRefuses c' (proofKey meta) t" if t: "t < (pm_ts meta + B + 1) * 1000" "t \<ge> ve_consumedAt env" for t
    proof (cases call)
      case (Verify env0 raw0 jwk0 expected0 opts0)
      have "calls ! j' \<in> set calls" using Cons.prems(6) Suc by simp
      then have "ve_consumedAt env \<in> set (callTimes calls)" using callTimes_in Cons.prems(7) Suc by fastforce
      then have "ve_consumedAt env0 \<le> t" using Cons.prems(2) Verify t(2) by force
      moreover have "c' = c \<or> (\<exists>k ttl b. cacheStep (ve_consumedAt env0) k ttl c = (b, c'))"
        using verify_cache [OF Cons.prems(1)] step Verify by (auto split: prod.splits)
      ultimately show ?thesis using Cons.prems(5) [OF t] cache_kept by blast
    qed (use step Cons.prems(5) [OF t] in simp)
    then show ?thesis
      by (intro Cons.IH [OF Cons.prems(1) _ skew' Cons.prems(4), of c' j']) (use Cons.prems Suc step in \<open>cases call; auto\<close>)+
  qed
qed simp

text \<open>C10: when a proof is accepted twice. In any run of verifications and skew updates on one verifier over the memory nonce
  cache, in which the clock the cache reads does not go backwards, let a proof be accepted, and later one with its nonce, signer
  and timestamp. Then the later call was slow: it checked the timestamp inside the window and reached the cache a second or more
  after that check, when the retention of at least the maximal skew and a second was over. In every other case the later proof is
  refused, whatever was verified in between.\<close>

theorem proof_accepted_once:
  assumes "vd_nonces deps = memoryNonceStore" and "sorted (callTimes calls)"
    and "i < j" and "j < length calls"
    and "calls ! i = Verify env raw jwk expected opts" and "calls ! j = Verify env' raw' jwk' expected' opts'"
    and "ve_retainedAt env \<le> ve_consumedAt env"
    and "validateDetachedProof raw = Inr dp" and "validateDetachedProof raw' = Inr dp'"
    and "pm_did (dp_meta dp) = pm_did (dp_meta dp')" and "pm_nonce (dp_meta dp) = pm_nonce (dp_meta dp')"
    and "pm_ts (dp_meta dp) = pm_ts (dp_meta dp')"
    and "runVerifier deps calls (v, c) ! i" and "runVerifier deps calls (v, c) ! j"
  shows "ve_checkedAt env' + 1000 \<le> ve_consumedAt env' \<and> (pm_ts (dp_meta dp') + MAX_CLOCK_SKEW_SECONDS + 1) * 1000 \<le> ve_consumedAt env'"
  using assms
proof (induction calls arbitrary: v c i j)
  case (Cons call calls)
  obtain b v' c' where step: "verifierStep deps call (v, c) = (b, v', c')" by (metis prod.exhaust)
  obtain j' where j': "j = Suc j'" using Cons.prems(3) by (cases j) auto
  show ?case
  proof (cases i)
    case 0
    let ?B = "max (pv_timestampSkewSeconds v) MAX_CLOCK_SKEW_SECONDS"
    have call: "call = Verify env raw jwk expected opts" using Cons.prems(5) 0 by simp
    then have acc: "verifyProof deps v env raw jwk expected opts c = (ProofValid, c')" "v' = v"
      using step Cons.prems(13) 0 by (auto split: prod.splits)
    obtain ttl where ttl: "(pm_ts (dp_meta dp) + ?B + 1) * 1000 \<le> ve_retainedAt env + ttl * 1000"
      "cacheStep (ve_consumedAt env) (proofKey (dp_meta dp)) ttl c = (True, c')"
      using verify_accepted [OF Cons.prems(1) acc(1) Cons.prems(8)] by metis
    have "cacheRefuses c' (proofKey (dp_meta dp')) t" if "t < (pm_ts (dp_meta dp') + ?B + 1) * 1000" for t
    proof -
      have "t < ve_consumedAt env + ttl * 1000" using that ttl(1) Cons.prems(7,12) by simp
      then show ?thesis using cache.admitted_retained [OF ttl(2)] Cons.prems(10,11) by simp
    qed
    then have "ve_checkedAt env' \<le> (pm_ts (dp_meta dp') + ?B) * 1000 \<and> (pm_ts (dp_meta dp') + ?B + 1) * 1000 \<le> ve_consumedAt env'"
      by (intro refused_while_fresh [where calls = calls and v = v' and c = c' and j = j' and raw = raw' and dp = dp'])
        (use Cons.prems j' acc(2) call step in auto)
    moreover have "(pm_ts (dp_meta dp') + MAX_CLOCK_SKEW_SECONDS + 1) * 1000 \<le> (pm_ts (dp_meta dp') + ?B + 1) * 1000" by simp
    moreover have "(pm_ts (dp_meta dp') + ?B + 1) * 1000 = (pm_ts (dp_meta dp') + ?B) * 1000 + 1000" by (simp only: distrib_right mult_1)
    ultimately show ?thesis by linarith
  next
    case (Suc i')
    show ?thesis
      by (rule Cons.IH [of i' j' v' c']) (use Cons.prems Suc j' step in \<open>cases call; auto\<close>)+
  qed
qed simp

lemma payload_encodes:
  assumes "\<bar>pm_ts meta\<bar> \<le> int MAX_SAFE_INTEGER"
  obtains payload where "encodeCanonicalPayload meta = Inr payload"
  using canonical_denoted [OF payload_denotes [OF assms]]
  by (auto simp: encodeCanonicalPayload_def canonicalizeJsonBytes_def)

definition exampleProof :: rawProof where
  "exampleProof = \<lparr>rp_jws = Text ''e30..YQ'', rp_meta = Some
     \<lparr>rm_did = Text ''did:a'', rm_kid = Text ''did:a#k'', rm_ts = Number (JsInteger 1000), rm_nonce = Text ''n'',
      rm_audience = Text ''did:s'', rm_sessionId = Text ''s'', rm_requestHash = Text (''sha256:'' @ replicate 64 CHR ''0''),
      rm_responseHash = Missing, rm_scopeId = Missing, rm_delegationRef = Missing, rm_clientDid = Missing,
      rm_outcome = Missing, rm_reason = Missing, rm_prf = Missing\<rparr>\<rparr>"

definition exampleMeta :: proofMeta where
  "exampleMeta = \<lparr>pm_did = ''did:a'', pm_kid = ''did:a#k'', pm_ts = 1000, pm_nonce = ''n'', pm_audience = ''did:s'',
     pm_sessionId = ''s'', pm_requestHash = ''sha256:'' @ replicate 64 CHR ''0'', pm_responseHash = None, pm_scopeId = None,
     pm_delegationRef = None, pm_clientDid = None, pm_outcome = None, pm_reason = None, pm_prf = None\<rparr>"

definition exampleKey :: ed25519JWK where
  "exampleKey = \<lparr>jwk_kty = Some ''OKP'', jwk_crv = Some ''Ed25519'', jwk_x = Some (replicate 43 CHR ''A''), jwk_kid = Some ''did:a#k''\<rparr>"

definition exampleHeader :: jsvalue where
  "exampleHeader = plainObject [(units ''alg'', VString (units ''EdDSA'')), (units ''kid'', VString (units ''did:a#k''))]"

definition exampleDeps :: "memoryNonceCache verifierDeps" where
  "exampleDeps = \<lparr>vd_jsonParse = (\<lambda>bs. Some exampleHeader), vd_cryptoVerify = (\<lambda>data sig key. Some True),
     vd_hash = (\<lambda>bs. ''''), vd_nonces = memoryNonceStore\<rparr>"

definition exampleVerifier :: proofVerifier where
  "exampleVerifier = \<lparr>pv_timestampSkewSeconds = 120, pv_nonceTtlSeconds = 300, pv_requireAtomicNonce = True\<rparr>"

definition exampleEnv :: "int \<Rightarrow> verifyEnv" where
  "exampleEnv t = \<lparr>ve_checkedAt = t, ve_retainedAt = t, ve_consumedAt = t + 5\<rparr>"

lemma example_validates: "validateDetachedProof (Some exampleProof) = Inr \<lparr>dp_jws = ''e30..YQ'', dp_meta = exampleMeta\<rparr>"
  by code_simp

lemma example_publicKey: "jwkToBase64PublicKey exampleKey = Some (replicate 43 CHR ''A'' @ ''='')"
  by code_simp

lemma example_segments: "jwsParts ''e30..YQ'' = [''e30'', [], ''YQ'']" "base64urlDecodeToString ''e30'' = Some [0x7b, 0x7d]"
  "base64urlDecodeToBytes ''YQ'' = Some [0x61]"
  by code_simp+

lemma example_header: "headerMember exampleHeader ''alg'' = VString (units ''EdDSA'')" "headerMember exampleHeader ''kid'' = VString (units ''did:a#k'')"
  by code_simp+

lemma example_signature:
  "verifySignature (\<lambda>bs. Some exampleHeader) (\<lambda>data sig key. Some True) ''e30..YQ'' exampleKey payload ''did:a#k'' = ProofValid"
  by (simp add: signature_valid verifyJWS_parsed parseJWS_def checkParsed_def example_segments example_header parseSegment_def
      example_publicKey verifyEd25519_def signingInputs_def expectedAlg_def Let_def)
    (simp add: exampleKey_def isValidEd25519JWK_def)

lemma example_checks:
  assumes "\<bar>t - 1000000\<bar> \<le> pv_timestampSkewSeconds v * 1000"
  shows "firstFailure (pureChecks exampleDeps v t \<lparr>dp_jws = ''e30..YQ'', dp_meta = exampleMeta\<rparr> exampleKey payload None noOptions) = ProofValid"
proof -
  have "didOfKid ''did:a#k'' = Some ''did:a''" by code_simp
  then have s: "validateSigner exampleMeta noOptions = ProofValid" by (simp add: signer_valid exampleMeta_def noOptions_def)
  have t: "validateTimestamp v t (pm_ts exampleMeta) = ProofValid"
    using assms by (simp add: timestamp_valid exampleMeta_def)
  show ?thesis using example_signature s t
    by (simp add: pureChecks_def firstFailure_valid exampleDeps_def exampleMeta_def binding_valid)
qed

lemma example_verified:
  assumes "\<bar>ve_checkedAt env - 1000000\<bar> \<le> pv_timestampSkewSeconds v * 1000"
  shows "verifyProof exampleDeps v env (Some exampleProof) exampleKey None noOptions c
    = consumeNonce memoryNonceStore v env exampleMeta c"
proof -
  have "\<bar>pm_ts exampleMeta\<bar> \<le> int MAX_SAFE_INTEGER" by (simp add: exampleMeta_def MAX_SAFE_INTEGER_def)
  then obtain payload where "encodeCanonicalPayload exampleMeta = Inr payload" by (rule payload_encodes)
  then show ?thesis using example_checks [OF assms]
    by (simp add: verifyProof_def example_validates runVerificationPipeline_def exampleDeps_def)
qed

lemma example_run:
  "runVerifier exampleDeps
     [Verify (exampleEnv 1000000) (Some exampleProof) exampleKey None noOptions, SetSkew (Seconds 900),
      Verify (exampleEnv 1100000) (Some exampleProof) exampleKey None noOptions] (exampleVerifier, newNonceCache 0) ! 0"
proof -
  have "fst (consumeNonce memoryNonceStore exampleVerifier (exampleEnv 1000000) exampleMeta (newNonceCache 0)) = ProofValid" by code_simp
  then obtain c where "consumeNonce memoryNonceStore exampleVerifier (exampleEnv 1000000) exampleMeta (newNonceCache 0) = (ProofValid, c)"
    by (metis prod.collapse)
  moreover have "\<bar>ve_checkedAt (exampleEnv 1000000) - 1000000\<bar> \<le> pv_timestampSkewSeconds exampleVerifier * 1000"
    by (simp add: exampleEnv_def exampleVerifier_def)
  ultimately show ?thesis using example_verified by simp
qed

lemma proof_accepted_once_witness:
  "\<not> runVerifier exampleDeps
     [Verify (exampleEnv 1000000) (Some exampleProof) exampleKey None noOptions, SetSkew (Seconds 900),
      Verify (exampleEnv 1100000) (Some exampleProof) exampleKey None noOptions] (exampleVerifier, newNonceCache 0) ! 2"
proof
  assume again: "runVerifier exampleDeps
     [Verify (exampleEnv 1000000) (Some exampleProof) exampleKey None noOptions, SetSkew (Seconds 900),
      Verify (exampleEnv 1100000) (Some exampleProof) exampleKey None noOptions] (exampleVerifier, newNonceCache 0) ! 2"
  have "ve_checkedAt (exampleEnv 1100000) + 1000 \<le> ve_consumedAt (exampleEnv 1100000) \<and>
      (pm_ts exampleMeta + MAX_CLOCK_SKEW_SECONDS + 1) * 1000 \<le> ve_consumedAt (exampleEnv 1100000)"
    using proof_accepted_once [where i = 0 and env = "exampleEnv 1000000" and env' = "exampleEnv 1100000" and jwk = exampleKey and jwk' = exampleKey
      and expected = None and expected' = None and opts = noOptions and opts' = noOptions, OF _ _ _ _ _ _ _ example_validates example_validates _ _ _ example_run again]
    by (simp add: exampleDeps_def exampleEnv_def)
  then show False by (simp add: exampleEnv_def)
qed

text \<open>A verification that takes a second or more after the timestamp check leaves the retention no
  margin: the second acceptance below reads the clock inside the window and reaches the cache after the nonce has expired.\<close>

lemma slow_replay_accepted:
  "runVerifier exampleDeps
     [Verify (exampleEnv 1000000) (Some exampleProof) exampleKey None noOptions,
      Verify \<lparr>ve_checkedAt = 1600000, ve_retainedAt = 1600000, ve_consumedAt = 1601005\<rparr> (Some exampleProof) exampleKey None noOptions]
     (setTimestampSkew (Seconds 600) exampleVerifier, newNonceCache 0) = [True, True]"
proof -
  let ?v = "setTimestampSkew (Seconds 600) exampleVerifier"
  let ?late = "\<lparr>ve_checkedAt = 1600000, ve_retainedAt = 1600000, ve_consumedAt = 1601005\<rparr>"
  let ?first = "consumeNonce memoryNonceStore ?v (exampleEnv 1000000) exampleMeta (newNonceCache 0)"
  have skew: "pv_timestampSkewSeconds ?v = 600" by code_simp
  have "fst ?first = ProofValid" by code_simp
  moreover have "fst (consumeNonce memoryNonceStore ?v ?late exampleMeta (snd ?first)) = ProofValid" by code_simp
  moreover have "verifyProof exampleDeps ?v (exampleEnv 1000000) (Some exampleProof) exampleKey None noOptions c
      = consumeNonce memoryNonceStore ?v (exampleEnv 1000000) exampleMeta c"
    "verifyProof exampleDeps ?v ?late (Some exampleProof) exampleKey None noOptions c = consumeNonce memoryNonceStore ?v ?late exampleMeta c" for c
    by (rule example_verified, simp add: skew exampleEnv_def)+
  ultimately show ?thesis by (simp add: case_prod_beta)
qed

end
