(* ===== verification/Proof_Safety.thy ===== *)
theory Proof_Safety
  imports Proof_Verifier
begin

text \<open>
  What an accepted proof shows: its claims were signed by the holder of the key, and the request and response it
  was checked against are the ones whose hashes were signed.
\<close>

subsection \<open>Signing inputs\<close>

lemma splitOn_parts: "p \<in> set (splitOn P s) \<Longrightarrow> c \<in> set p \<Longrightarrow> \<not> P c"
proof (induction s arbitrary: p)
  case (Cons c' cs)
  then show ?case by (cases "splitOn P cs") (fastforce split: if_splits)+
qed simp

definition signingInput :: "string \<Rightarrow> bytes \<Rightarrow> bytes" where
  "signingInput headerB64 payload = textBytes (headerB64 @ ''.'' @ base64urlEncodeFromBytes payload)"

lemma textBytes_inj: "textBytes s = textBytes t \<Longrightarrow> s = t"
  using utf8Encode_inj [of "units s" "units t"] units_encodable by (simp add: textBytes_def paired_iff units_inj)

lemma base64url_inj: "base64urlEncodeFromBytes p = base64urlEncodeFromBytes q \<Longrightarrow> p = q"
  using base64url_inverse by (metis option.inject)

lemma signingInput_inj:
  assumes "signingInput h p = signingInput h' p'" and "CHR ''.'' \<notin> set h" and "CHR ''.'' \<notin> set h'"
  shows "h = h' \<and> p = p'"
proof -
  have "h @ CHR ''.'' # base64urlEncodeFromBytes p = h' @ CHR ''.'' # base64urlEncodeFromBytes p'"
    using textBytes_inj assms(1) by (simp add: signingInput_def)
  from append_sep_inject [OF this assms(2,3)] show ?thesis using base64url_inj by blast
qed

lemma detached_signature:
  assumes "verifyJWS jsonParse cryptoVerify jws jwk
      \<lparr>jo_detachedPayload = Some payload, jo_expectedKid = Some kid, jo_alg = Some ''EdDSA''\<rparr>"
  obtains h and parsed :: parsedJWS and publicKey where "CHR ''.'' \<notin> set h" and "jwkToBase64PublicKey jwk = Some publicKey"
    and "cryptoVerify (signingInput h payload) (pj_signature parsed) publicKey = Some True"
    and "parseSegment jsonParse h = Some (pj_header parsed)" and "headerMember (pj_header parsed) ''kid'' = VString (units kid)"
    and "headerMember (pj_header parsed) ''alg'' = VString (units ''EdDSA'')"
proof -
  from assms obtain parsed where parsed: "parseJWS jsonParse jws = Inr parsed"
    and check: "checkParsed cryptoVerify jws jwk \<lparr>jo_detachedPayload = Some payload, jo_expectedKid = Some kid, jo_alg = Some ''EdDSA''\<rparr> parsed"
    by (auto simp: verifyJWS_parsed)
  obtain h p s where parts: "jwsParts jws = [h, p, s]" "parseSegment jsonParse h = Some (pj_header parsed)"
    using parsed by (rule parseJWS_parts)
  have nodot: "CHR ''.'' \<notin> set h" using splitOn_parts [of h "\<lambda>c. c = CHR ''.''" jws] parts(1) by (auto simp: jwsParts_def)
  obtain publicKey where "jwkToBase64PublicKey jwk = Some publicKey"
    "cryptoVerify (signingInput h payload) (pj_signature parsed) publicKey = Some True"
    "headerMember (pj_header parsed) ''kid'' = VString (units kid)" "headerMember (pj_header parsed) ''alg'' = VString (units ''EdDSA'')"
    using check parts(1)
    by (auto simp: checkParsed_def signingInputs_def Let_def verifyEd25519_def signingInput_def expectedAlg_def
        split: if_splits option.splits)
  then show thesis using that [OF nodot] parts(2) by blast
qed

lemma those_members: "those xs = Some ys \<Longrightarrow> x \<in> set xs \<Longrightarrow> x \<noteq> None"
  by (induction xs arbitrary: ys) (auto split: option.splits)

lemma encoded_ts_safe:
  assumes "encodeCanonicalPayload meta = Inr payload"
  shows "\<bar>pm_ts meta\<bar> \<le> int MAX_SAFE_INTEGER"
proof -
  let ?ts = "dataMember (units ''ts'', VNumber (NumInt (pm_ts meta)))"
  obtain j where "denote (buildProofJwsPayload meta) = Some j"
    using assms canonical_refines [of "buildProofJwsPayload meta"]
    by (cases "canonicalizeJson (buildProofJwsPayload meta)") (auto simp: encodeCanonicalPayload_def canonicalizeJsonBytes_def)
  moreover have "\<exists>kvs. buildProofJwsPayload meta = VObject True (map dataMember kvs) \<and> (units ''ts'', VNumber (NumInt (pm_ts meta))) \<in> set kvs"
    unfolding buildProofJwsPayload_def plainObject_def by (intro exI conjI) (rule refl, simp)
  then obtain kvs where kvs: "buildProofJwsPayload meta = VObject True (map dataMember kvs)"
    "(units ''ts'', VNumber (NumInt (pm_ts meta))) \<in> set kvs" by blast
  ultimately obtain ys where "those (map denoteMember (map dataMember kvs)) = Some ys" by auto
  from those_members [OF this, of "denoteMember ?ts"] kvs(2) have "denoteMember ?ts \<noteq> None" by simp
  then show ?thesis by (simp add: dataMember_def numberText_def split: if_splits)
qed

subsection \<open>An accepted proof was minted\<close>

text \<open>The bytes a key holder signs: proof payloads, under any protected header.\<close>

definition signedBy :: "proofMeta set \<Rightarrow> bytes \<Rightarrow> bool" where
  "signedBy minted data \<longleftrightarrow> (\<exists>meta \<in> minted. \<exists>h payload. CHR ''.'' \<notin> set h \<and> encodeCanonicalPayload meta = Inr payload \<and>
     data = signingInput h payload)"

lemma accepted_was_minted:
  assumes "verifyProof deps v env raw jwk expected opts s = (ProofValid, s')"
    and "validateDetachedProof raw = Inr dp" and "jwkToBase64PublicKey jwk = Some publicKey"
    and "\<And>data sig. vd_cryptoVerify deps data sig publicKey = Some True \<Longrightarrow> signedBy minted data"
  shows "\<exists>meta \<in> minted. sameClaims meta (dp_meta dp)"
proof -
  obtain payload where payload: "encodeCanonicalPayload (dp_meta dp) = Inr payload"
    and checks: "\<forall>r \<in> set (pureChecks deps v (ve_checkedAt env) dp jwk payload expected opts). r = ProofValid"
    using assms(1,2) by (auto elim: verifyProof_valid)
  from checks obtain h sig where h: "CHR ''.'' \<notin> set h" "vd_cryptoVerify deps (signingInput h payload) sig publicKey = Some True"
    using assms(3) by (auto simp: pureChecks_def signature_valid elim: detached_signature)
  from assms(4) [OF h(2)] obtain meta h' payload' where meta: "meta \<in> minted" "CHR ''.'' \<notin> set h'"
    "encodeCanonicalPayload meta = Inr payload'" "signingInput h payload = signingInput h' payload'"
    unfolding signedBy_def by blast
  have "payload = payload'" using signingInput_inj [OF meta(4) h(1) meta(2)] by simp
  then have "sameClaims meta (dp_meta dp)"
    using payload meta(3) payload_same_claims [OF encoded_ts_safe [OF meta(3)] encoded_ts_safe [OF payload]]
    by (simp add: encodeCanonicalPayload_def)
  with meta(1) show ?thesis by blast
qed

text \<open>C7: authenticity. When the key verifies only signatures its holder made, and the holder signed only
  the payloads of the proofs it minted, then a proof the verifier accepts makes exactly the claims of a minted one: no
  claim of the metadata can be changed, added or removed.\<close>

theorem accepted_proof_was_minted:
  assumes "verifyProof deps v env raw jwk expected opts s = (ProofValid, s')"
    and "validateDetachedProof raw = Inr dp" and "jwkToBase64PublicKey jwk = Some publicKey"
    and "\<And>data sig. vd_cryptoVerify deps data sig publicKey = Some True \<Longrightarrow> signedBy minted data"
  shows "\<exists>meta \<in> minted. sameClaims meta (dp_meta dp)"
  by (rule accepted_was_minted [OF assms])

definition strictVerify :: signatureCheck where
  "strictVerify data sig key = Some (data = signingInput ''e30'' (projr (encodeCanonicalPayload exampleMeta)))"

lemma strict_verified:
  "fst (verifyProof (exampleDeps\<lparr>vd_cryptoVerify := strictVerify\<rparr>) exampleVerifier (exampleEnv 1000000) (Some exampleProof)
     exampleKey None noOptions (newNonceCache 0)) = ProofValid"
proof -
  let ?deps = "exampleDeps\<lparr>vd_cryptoVerify := strictVerify\<rparr>"
  let ?proof = "\<lparr>dp_jws = ''e30..YQ'', dp_meta = exampleMeta\<rparr>"
  have "\<bar>pm_ts exampleMeta\<bar> \<le> int MAX_SAFE_INTEGER" by (simp add: exampleMeta_def MAX_SAFE_INTEGER_def)
  then obtain payload where payload: "encodeCanonicalPayload exampleMeta = Inr payload" by (rule payload_encodes)
  have "verifySignature (\<lambda>bs. Some exampleHeader) strictVerify ''e30..YQ'' exampleKey payload ''did:a#k'' = ProofValid"
    by (simp add: signature_valid verifyJWS_parsed parseJWS_def checkParsed_def example_segments example_header parseSegment_def
        example_publicKey verifyEd25519_def signingInputs_def expectedAlg_def Let_def strictVerify_def payload signingInput_def)
      (simp add: exampleKey_def isValidEd25519JWK_def)
  moreover have "firstFailure (pureChecks exampleDeps exampleVerifier 1000000 ?proof exampleKey payload None noOptions) = ProofValid"
    by (rule example_checks) (simp add: exampleVerifier_def)
  ultimately have "firstFailure (pureChecks ?deps exampleVerifier 1000000 ?proof exampleKey payload None noOptions) = ProofValid"
    by (simp add: firstFailure_valid pureChecks_def exampleDeps_def exampleMeta_def)
  moreover have "fst (consumeNonce memoryNonceStore exampleVerifier (exampleEnv 1000000) exampleMeta (newNonceCache 0)) = ProofValid"
    by code_simp
  moreover have "ve_checkedAt (exampleEnv 1000000) = 1000000" "vd_nonces ?deps = memoryNonceStore"
    by (simp_all add: exampleEnv_def exampleDeps_def)
  ultimately show ?thesis
    by (simp add: verifyProof_def example_validates payload runVerificationPipeline_def)
qed

lemma accepted_proof_was_minted_witness: "\<exists>meta \<in> {exampleMeta}. sameClaims meta exampleMeta"
proof -
  let ?deps = "exampleDeps\<lparr>vd_cryptoVerify := strictVerify\<rparr>"
  have "\<bar>pm_ts exampleMeta\<bar> \<le> int MAX_SAFE_INTEGER" by (simp add: exampleMeta_def MAX_SAFE_INTEGER_def)
  then obtain payload where payload: "encodeCanonicalPayload exampleMeta = Inr payload" by (rule payload_encodes)
  have "CHR ''.'' \<notin> set ''e30''" by simp
  then have "signedBy {exampleMeta} data" if "vd_cryptoVerify ?deps data sig (replicate 43 CHR ''A'' @ ''='') = Some True" for data sig
    using that payload by (auto simp: strictVerify_def signedBy_def intro: exI [of _ "''e30''"])
  moreover obtain s' where "verifyProof ?deps exampleVerifier (exampleEnv 1000000) (Some exampleProof)
      exampleKey None noOptions (newNonceCache 0) = (ProofValid, s')"
    using strict_verified by (metis prod.collapse)
  ultimately show ?thesis
    using accepted_proof_was_minted [OF _ example_validates example_publicKey, of ?deps exampleVerifier "exampleEnv 1000000" None noOptions
      "newNonceCache 0" s' "{exampleMeta}"] by simp
qed

subsection \<open>The shapes of one call\<close>

text \<open>An object as a JSON parser makes it: data members with distinct names.\<close>

definition plainData :: "jsmember list \<Rightarrow> bool" where
  "plainData ms \<longleftrightarrow> ms = map dataMember (entriesOf ms) \<and> distinct (map fst (entriesOf ms))"

definition parsedRequest :: "toolRequest \<Rightarrow> bool" where
  "parsedRequest req \<longleftrightarrow> (case tr_params req of
       VObject plain ms \<Rightarrow> plain \<and> plainData ms \<and>
         (case getMember (units ''arguments'') ms of VObject plain' args \<Rightarrow> plain' \<and> plainData args | _ \<Rightarrow> True)
     | _ \<Rightarrow> True)"

text \<open>The tool name and the arguments that are not protocol envelope.\<close>

definition businessCall :: "toolRequest \<Rightarrow> (jsstring \<times> (jsstring \<times> jsvalue) list) option" where
  "businessCall req = map_option (\<lambda>call. (tc_name call, withoutKeys (tc_args call) isKyaOsControlArg)) (asToolCall req)"

lemma entriesOf_data [simp]: "entriesOf (map dataMember kvs) = kvs"
  by (induction kvs) (auto simp: dataMember_def)

lemma getMember_data: "getMember k (map dataMember kvs) = (case map_of kvs k of None \<Rightarrow> VUndefined | Some v \<Rightarrow> v)"
  by (induction kvs) (auto simp: dataMember_def)

lemma map_of_filter_name: "P k \<Longrightarrow> map_of (filter (\<lambda>kv. P (fst kv)) kvs) k = map_of kvs k"
  by (induction kvs) auto

lemma withoutKeys_data: "withoutKeys (map dataMember kvs) P = filter (\<lambda>kv. \<not> P (fst kv)) kvs"
  by (simp add: withoutKeys_def)

lemma names_differ: "units ''name'' \<noteq> units ''_meta''" "units ''arguments'' \<noteq> units ''_meta''" "units ''name'' \<noteq> units ''arguments''"
  by (simp_all add: units_inj)

lemma name_not_control: "\<not> isKyaOsControlArg (units ''name'')"
  by (simp add: isKyaOsControlArg_def units_def)

text \<open>Reading back the covered shape, and a legacy shape.\<close>

lemma covered_businessCall:
  assumes "tc_args call = map dataMember args" and "tc_params call = map dataMember params"
    and "map_of params (units ''name'') = Some (VString (tc_name call))"
  shows "businessCall (coveredToolCall call) = Some (tc_name call, filter (\<lambda>kv. \<not> isKyaOsControlArg (fst kv)) args)"
proof -
  let ?args = "filter (\<lambda>kv. \<not> isKyaOsControlArg (fst kv)) args"
  let ?ms = "putEntry (units ''arguments'') (plainObject ?args) (filter (\<lambda>kv. fst kv \<noteq> units ''_meta'') params)"
  have shape: "coveredToolCall call = \<lparr>tr_method = TOOLS_CALL_METHOD, tr_params = plainObject ?ms\<rparr>"
    by (simp add: coveredToolCall_def assms(1,2) withoutKeys_data Let_def)
  have name: "getMember (units ''name'') (map dataMember ?ms) = VString (tc_name call)"
    using map_of_filter_name [of "\<lambda>k. k \<noteq> units ''_meta''" "units ''name''" params, OF names_differ(1)] assms(3) names_differ(3)
    unfolding getMember_data putEntry_def update_conv' by simp
  have arguments: "getMember (units ''arguments'') (map dataMember ?ms) = plainObject ?args"
    unfolding getMember_data putEntry_def update_conv' by simp
  have "asToolCall (coveredToolCall call) = Some \<lparr>tc_name = tc_name call, tc_args = map dataMember ?args, tc_params = map dataMember ?ms\<rparr>"
    unfolding shape asToolCall_def wireCall_def plainObject_def
    using name arguments by (simp add: plainObject_def argumentsOf_def objectMembersOf_def)
  then show ?thesis by (simp add: businessCall_def withoutKeys_data)
qed

lemma legacy_businessCall:
  assumes "wireCall \<lparr>tr_method = name, tr_params = plainObject args\<rparr> = None"
  shows "businessCall \<lparr>tr_method = name, tr_params = plainObject args\<rparr> = Some (name, filter (\<lambda>kv. \<not> isKyaOsControlArg (fst kv)) args)"
  using assms by (simp add: businessCall_def asToolCall_def argumentsOf_def objectMembersOf_def plainObject_def withoutKeys_data)

lemma wireCall_filtered:
  "wireCall \<lparr>tr_method = name, tr_params = plainObject (filter (\<lambda>kv. \<not> isKyaOsControlArg (fst kv)) args)\<rparr> = None \<longleftrightarrow>
   wireCall \<lparr>tr_method = name, tr_params = plainObject args\<rparr> = None"
  unfolding wireCall_def plainObject_def
  using map_of_filter_name [of "\<lambda>k. \<not> isKyaOsControlArg k" "units ''name''" args] name_not_control
  by (simp add: getMember_data split: option.splits jsvalue.splits)

lemma plainData_entries: "plainData ms \<Longrightarrow> \<exists>kvs. ms = map dataMember kvs"
  unfolding plainData_def by blast

lemma arguments_data:
  assumes "argumentsOf v = Some ms" and "case v of VObject plain args \<Rightarrow> plain \<and> plainData args | _ \<Rightarrow> True"
  shows "\<exists>args. ms = map dataMember args \<and> (v = plainObject args \<or> args = [] \<and> v \<in> {VNull, VUndefined})"
  using assms plainData_entries by (cases v) (auto simp: argumentsOf_def objectMembersOf_def plainObject_def split: if_splits)

text \<open>A call read from a request: its arguments and parameters are data, and the legacy shapes of it are not
  read as wire calls.\<close>

lemma toolCall_read:
  assumes "parsedRequest req" and "asToolCall req = Some call" and "map_option fst (wireCall req) \<noteq> Some TOOLS_CALL_METHOD"
  shows "\<exists>args params. tc_args call = map dataMember args \<and> tc_params call = map dataMember params \<and>
    map_of params (units ''name'') = Some (VString (tc_name call)) \<and>
    wireCall \<lparr>tr_method = tc_name call, tr_params = plainObject args\<rparr> = None"
proof (cases "wireCall req")
  case None
  with assms(2) obtain ms where ms: "argumentsOf (tr_params req) = Some ms"
    "call = \<lparr>tc_name = tr_method req, tc_args = ms, tc_params = map dataMember [(units ''name'', VString (tr_method req)), (units ''arguments'', VObject True ms)]\<rparr>"
    unfolding asToolCall_def by auto
  have "case tr_params req of VObject plain args \<Rightarrow> plain \<and> plainData args | _ \<Rightarrow> True"
    using assms(1) by (auto simp: parsedRequest_def split: jsvalue.splits)
  from arguments_data [OF ms(1) this] obtain args where args: "ms = map dataMember args"
    "tr_params req = plainObject args \<or> args = [] \<and> tr_params req \<in> {VNull, VUndefined}" by blast
  have "wireCall \<lparr>tr_method = tr_method req, tr_params = plainObject args\<rparr> = None"
    using args(2) None by (auto simp: wireCall_def plainObject_def split: if_splits)
  then show ?thesis using ms(2) args(1)
    by (intro exI [of _ args] exI [of _ "[(units ''name'', VString (tr_method req)), (units ''arguments'', VObject True ms)]"]) simp
next
  case (Some w)
  then obtain plain ms name where w: "tr_params req = VObject plain ms" "getMember (units ''name'') ms = VString name" "w = (name, ms)"
    by (auto simp: wireCall_def split: if_splits jsvalue.splits)
  with assms(2) Some obtain args where args: "argumentsOf (getMember (units ''arguments'') ms) = Some args"
    "call = \<lparr>tc_name = name, tc_args = args, tc_params = ms\<rparr>" unfolding asToolCall_def by auto
  have data: "plainData ms" "case getMember (units ''arguments'') ms of VObject plain' args \<Rightarrow> plain' \<and> plainData args | _ \<Rightarrow> True"
    using assms(1) w(1) by (simp_all add: parsedRequest_def)
  obtain kvs where kvs: "ms = map dataMember kvs" using plainData_entries [OF data(1)] by blast
  from arguments_data [OF args(1) data(2)] obtain akvs where "args = map dataMember akvs" by blast
  moreover have "map_of kvs (units ''name'') = Some (VString name)"
    using w(2) unfolding kvs getMember_data by (simp split: option.splits)
  moreover have "name \<noteq> TOOLS_CALL_METHOD" using assms(3) Some w(3) by simp
  ultimately show ?thesis using args(2) kvs
    by (intro exI [of _ akvs] exI [of _ kvs]) (simp add: wireCall_def)
qed

lemma alternate_businessCall:
  assumes "parsedRequest req" and "shape \<in> set (alternateRequestShapes req)" and "map_option fst (wireCall req) \<noteq> Some TOOLS_CALL_METHOD"
  shows "businessCall req \<noteq> None \<and> businessCall shape = businessCall req"
proof -
  from assms(2) obtain call where call: "asToolCall req = Some call" by (cases "asToolCall req") (auto simp: alternateRequestShapes_def)
  from toolCall_read [OF assms(1) call assms(3)] obtain args params where
    a: "tc_args call = map dataMember args" and ps: "tc_params call = map dataMember params"
    and n: "map_of params (units ''name'') = Some (VString (tc_name call))"
    and l: "wireCall \<lparr>tr_method = tc_name call, tr_params = plainObject args\<rparr> = None" by blast
  let ?args = "filter (\<lambda>kv. \<not> isKyaOsControlArg (fst kv)) args"
  have "businessCall req = Some (tc_name call, ?args)" by (simp add: businessCall_def call a withoutKeys_data)
  moreover have "shape \<in> {coveredToolCall call, \<lparr>tr_method = tc_name call, tr_params = plainObject args\<rparr>,
      \<lparr>tr_method = tc_name call, tr_params = plainObject ?args\<rparr>}"
    using assms(2) by (simp add: alternateRequestShapes_def call a withoutKeys_data plainObject_def)
  ultimately show ?thesis
    using covered_businessCall [OF a ps n] legacy_businessCall [OF l] legacy_businessCall [of "tc_name call" ?args] l
    by (auto simp: wireCall_filtered)
qed

subsection \<open>Accepted content is signed content\<close>

text \<open>The values a content check hashes for a request and a response.\<close>

definition hashedBytes :: "responseProfile \<Rightarrow> toolRequest \<Rightarrow> jsvalue option \<Rightarrow> bytes set" where
  "hashedBytes profile req response =
     {b. \<exists>v \<in> canonicalRequest ` set (req # alternateRequestShapes req) \<union> (\<lambda>d. canonicalResponseBody d profile) ` set_option response.
        canonicalizeJsonBytes v = Inr b}"

lemma hashesOf_shape: "hashesOf hash shapes = Inr hs \<Longrightarrow> h \<in> set hs \<Longrightarrow>
    \<exists>shape \<in> set shapes. hashValue hash (canonicalRequest shape) = Inr h"
proof (induction shapes arbitrary: hs)
  case (Cons shape shapes)
  obtain rq where rq: "hashValue hash (canonicalRequest shape) = Inr rq"
    using Cons.prems(1) by (cases "hashValue hash (canonicalRequest shape)") (auto simp: computeCanonicalHashes_def)
  then obtain hs' where hs': "hashesOf hash shapes = Inr hs'"
    using Cons.prems(1) by (cases "hashesOf hash shapes") (auto simp: computeCanonicalHashes_def)
  have "hs = rq # hs'" using Cons.prems(1) rq hs' by (simp add: computeCanonicalHashes_def)
  with Cons.prems(2) rq Cons.IH [OF hs'] show ?case by auto
qed simp

lemma hashValue_Inr: "hashValue hash v = Inr h \<longleftrightarrow> (\<exists>b. canonicalizeJsonBytes v = Inr b \<and> h = hash b)"
  by (cases "canonicalizeJsonBytes v") (auto simp: hashValue_def)

lemma computed_hashes:
  "computeCanonicalHashes hash req response profile = Inr (rq, rs) \<longleftrightarrow>
     hashValue hash (canonicalRequest req) = Inr rq \<and>
     (case response of None \<Rightarrow> rs = None
      | Some data \<Rightarrow> \<exists>h. hashValue hash (canonicalResponseBody data profile) = Inr h \<and> rs = Some h)"
  by (auto simp: computeCanonicalHashes_def split: sum.splits option.splits)

text \<open>The content check compares the two hashes: one of the shapes hashes to the signed request hash, and the response, when
  there is one on either side, to the signed response hash.\<close>

lemma no_mismatch:
  assumes "findContentBindingMismatch hash meta req response = Inr None"
  shows "\<exists>shape \<in> set (req # alternateRequestShapes req). hashValue hash (canonicalRequest shape) = Inr (pm_requestHash meta)"
    and "case response of None \<Rightarrow> pm_responseHash meta = None
      | Some data \<Rightarrow> \<exists>h. hashValue hash (canonicalResponseBody data (profileOf (pm_prf meta))) = Inr h \<and> pm_responseHash meta = Some h"
proof -
  obtain rq rs where hs: "computeCanonicalHashes hash req response (profileOf (pm_prf meta)) = Inr (rq, rs)"
    using assms by (cases "computeCanonicalHashes hash req response (profileOf (pm_prf meta))") (auto simp: findContentBindingMismatch_def)
  note check = assms [unfolded findContentBindingMismatch_def hs sum.case prod.case]
  have req: "pm_requestHash meta = rq \<or> (\<exists>accepted. acceptedRequestHashes hash req = Inr accepted \<and> pm_requestHash meta \<in> set accepted)"
    using check by (auto split: sum.splits if_splits)
  then show "\<exists>shape \<in> set (req # alternateRequestShapes req). hashValue hash (canonicalRequest shape) = Inr (pm_requestHash meta)"
  proof (elim disjE exE conjE)
    assume "pm_requestHash meta = rq"
    then show ?thesis using hs by (auto simp: computed_hashes)
  next
    fix accepted assume a: "acceptedRequestHashes hash req = Inr accepted" "pm_requestHash meta \<in> set accepted"
    then obtain hs' where "hashesOf hash (req # alternateRequestShapes req) = Inr hs'" "accepted = js_set hs'"
      unfolding acceptedRequestHashes_def by (cases "hashesOf hash (req # alternateRequestShapes req)") auto
    then show ?thesis using a(2) hashesOf_shape by (metis set_js_set)
  qed
  have "(pm_responseHash meta \<noteq> None) = (response \<noteq> None)" "pm_responseHash meta = None \<or> pm_responseHash meta = rs"
    using check by (auto split: sum.splits if_splits)
  then show "case response of None \<Rightarrow> pm_responseHash meta = None
      | Some data \<Rightarrow> \<exists>h. hashValue hash (canonicalResponseBody data (profileOf (pm_prf meta))) = Inr h \<and> pm_responseHash meta = Some h"
    using hs unfolding computed_hashes by (cases response; cases "pm_responseHash meta") auto
qed

text \<open>C13: what the content check establishes. When the hashes of a proof were computed over a request and a
  response, and the verifier finds no mismatch with the request and response it received, then one of the shapes of the
  received request has the canonical bytes that were hashed, and the responses are both absent or have the same
  canonical bytes, unless the hash collides on the values hashed.\<close>

theorem accepted_content_is_signed_content:
  assumes "computeCanonicalHashes hash signedReq signedRes (profileOf (pm_prf meta)) = Inr (pm_requestHash meta, pm_responseHash meta)"
    and "findContentBindingMismatch hash meta req response = Inr None"
    and "inj_on hash (hashedBytes (profileOf (pm_prf meta)) signedReq signedRes \<union> hashedBytes (profileOf (pm_prf meta)) req response)"
  shows "(\<exists>shape \<in> set (req # alternateRequestShapes req).
      canonicalizeJsonBytes (canonicalRequest shape) = canonicalizeJsonBytes (canonicalRequest signedReq)) \<and>
    rel_option (\<lambda>d d'. canonicalizeJsonBytes (canonicalResponseBody d (profileOf (pm_prf meta))) =
        canonicalizeJsonBytes (canonicalResponseBody d' (profileOf (pm_prf meta)))) response signedRes"
proof
  let ?p = "profileOf (pm_prf meta)"
  note signed = assms(1) [unfolded computed_hashes]
  have same: "canonicalizeJsonBytes v = canonicalizeJsonBytes v'"
    if "hashValue hash v = Inr h" "hashValue hash v' = Inr h"
      "v \<in> canonicalRequest ` set (req # alternateRequestShapes req) \<union> (\<lambda>d. canonicalResponseBody d ?p) ` set_option response"
      "v' \<in> canonicalRequest ` set (signedReq # alternateRequestShapes signedReq) \<union> (\<lambda>d. canonicalResponseBody d ?p) ` set_option signedRes"
    for v v' h
  proof -
    from that(1,2) obtain b b' where b: "canonicalizeJsonBytes v = Inr b" "canonicalizeJsonBytes v' = Inr b'" "hash b = hash b'"
      by (auto simp: hashValue_Inr)
    have "b \<in> hashedBytes ?p req response" "b' \<in> hashedBytes ?p signedReq signedRes"
      using b(1,2) that(3,4) unfolding hashedBytes_def by blast+
    then have "b = b'" using assms(3) b(3) by (auto dest: inj_onD)
    then show ?thesis using b by simp
  qed
  from no_mismatch(1) [OF assms(2)] obtain shape where shape: "shape \<in> set (req # alternateRequestShapes req)"
    "hashValue hash (canonicalRequest shape) = Inr (pm_requestHash meta)" by blast
  show "\<exists>shape \<in> set (req # alternateRequestShapes req).
      canonicalizeJsonBytes (canonicalRequest shape) = canonicalizeJsonBytes (canonicalRequest signedReq)"
    using same [OF shape(2) conjunct1 [OF signed]] shape(1) by auto
  show "rel_option (\<lambda>d d'. canonicalizeJsonBytes (canonicalResponseBody d ?p) =
        canonicalizeJsonBytes (canonicalResponseBody d' ?p)) response signedRes"
    using no_mismatch(2) [OF assms(2)] conjunct2 [OF signed] same
    by (cases response; cases signedRes) auto
qed

definition exampleHash :: "bytes \<Rightarrow> string" where
  "exampleHash bs = map (\<lambda>w. char_of (unat w)) bs"

lemma exampleHash_inj: "inj_on exampleHash S"
proof (rule inj_onI)
  have "inj (\<lambda>w :: 8 word. char_of (unat w))"
  proof (rule injI)
    fix v w :: "8 word"
    assume "char_of (unat v) = char_of (unat w)"
    then have "(of_char (char_of (unat v)) :: nat) = of_char (char_of (unat w))" by (rule arg_cong)
    then have "unat v mod 256 = unat w mod 256" by simp
    moreover have "unat v < 256" "unat w < 256" using unsigned_less [of v] unsigned_less [of w] by simp_all
    ultimately have "unat v = unat w" by simp
    then show "v = w" by (rule word_unat_eq_iff [THEN iffD2])
  qed
  then show "exampleHash x = exampleHash y \<Longrightarrow> x = y" for x y by (simp add: exampleHash_def)
qed

definition exampleRequestSent :: toolRequest where
  "exampleRequestSent = \<lparr>tr_method = units ''echo'', tr_params = plainObject [(units ''text'', VString (units ''hi''))]\<rparr>"

definition exampleResponse :: jsvalue where
  "exampleResponse = VString (units ''hi'')"

definition signedMeta :: proofMeta where
  "signedMeta = exampleMeta\<lparr>pm_requestHash := exampleHash (projr (canonicalizeJsonBytes (canonicalRequest exampleRequestSent))),
     pm_responseHash := Some (exampleHash (projr (canonicalizeJsonBytes exampleResponse)))\<rparr>"

lemma accepted_content_is_signed_content_witness:
  "findContentBindingMismatch exampleHash signedMeta exampleRequestSent (Some exampleResponse) = Inr None \<and>
   (\<exists>shape \<in> set (exampleRequestSent # alternateRequestShapes exampleRequestSent).
      canonicalizeJsonBytes (canonicalRequest shape) = canonicalizeJsonBytes (canonicalRequest exampleRequestSent))"
proof -
  have bytes: "\<exists>b. canonicalizeJsonBytes v = Inr b" if "denote v \<noteq> None" for v
    using that canonical_denoted [of v] by (auto simp: canonicalizeJsonBytes_def)
  have denoted: "denote (canonicalRequest exampleRequestSent) \<noteq> None" "denote exampleResponse \<noteq> None"
    by (simp_all add: exampleRequestSent_def exampleResponse_def canonicalRequest_def plainObject_def dataMember_def units_encodable)
  obtain b b' where b: "canonicalizeJsonBytes (canonicalRequest exampleRequestSent) = Inr b" "canonicalizeJsonBytes exampleResponse = Inr b'"
    using bytes [OF denoted(1)] bytes [OF denoted(2)] by blast
  have body: "canonicalResponseBody exampleResponse p = exampleResponse" for p
    by (cases p) (simp_all add: canonicalResponseBody_def exampleResponse_def)
  have hashes: "computeCanonicalHashes exampleHash exampleRequestSent (Some exampleResponse) (profileOf (pm_prf signedMeta)) =
      Inr (pm_requestHash signedMeta, pm_responseHash signedMeta)"
    by (simp add: computed_hashes hashValue_Inr body b signedMeta_def)
  have match: "findContentBindingMismatch exampleHash signedMeta exampleRequestSent (Some exampleResponse) = Inr None"
    unfolding findContentBindingMismatch_def hashes by (simp add: signedMeta_def)
  show ?thesis
    using accepted_content_is_signed_content [OF hashes match exampleHash_inj] match by blast
qed

text \<open>every request shape a verifier accepts besides the one given describes the same tool name and the same
  business arguments, for a parsed request that does not call a tool named \<open>tools/call\<close>.\<close>

theorem alternate_shapes_describe_one_call:
  assumes "parsedRequest req" and "shape \<in> set (alternateRequestShapes req)" and "map_option fst (wireCall req) \<noteq> Some TOOLS_CALL_METHOD"
  shows "businessCall req \<noteq> None \<and> businessCall shape = businessCall req"
  by (rule alternate_businessCall [OF assms])

definition wireRequest :: toolRequest where
  "wireRequest = \<lparr>tr_method = TOOLS_CALL_METHOD, tr_params = plainObject [(units ''name'', VString (units ''echo'')),
     (units ''arguments'', plainObject [(units ''text'', VString (units ''hi'')), (units ''_kyaos_proof'', VNull)])]\<rparr>"

lemma alternate_shapes_describe_one_call_witness:
  "businessCall (coveredToolCall (the (asToolCall wireRequest))) = Some (units ''echo'', [(units ''text'', VString (units ''hi''))])"
proof -
  have "coveredToolCall (the (asToolCall wireRequest)) \<in> set (alternateRequestShapes wireRequest)"
    by (simp add: alternateRequestShapes_def asToolCall_def wireCall_def wireRequest_def plainObject_def dataMember_def
        argumentsOf_def objectMembersOf_def units_inj)
  moreover have "parsedRequest wireRequest" "map_option fst (wireCall wireRequest) \<noteq> Some TOOLS_CALL_METHOD"
    "businessCall wireRequest = Some (units ''echo'', [(units ''text'', VString (units ''hi''))])"
    by code_simp+
  ultimately show ?thesis using alternate_shapes_describe_one_call [of wireRequest] by simp
qed

text \<open>The exception: a wire call of a tool named \<open>tools/call\<close> has a legacy shape that reads as a call of another tool.\<close>

lemma nested_call_ambiguous:
  "\<exists>req shape. parsedRequest req \<and> shape \<in> set (alternateRequestShapes req) \<and>
     map_option fst (businessCall req) = Some TOOLS_CALL_METHOD \<and> map_option fst (businessCall shape) = Some (units ''echo'')"
proof -
  let ?args = "plainObject [(units ''name'', VString (units ''echo''))]"
  let ?req = "\<lparr>tr_method = TOOLS_CALL_METHOD, tr_params = plainObject [(units ''name'', VString TOOLS_CALL_METHOD), (units ''arguments'', ?args)]\<rparr>"
  let ?shape = "\<lparr>tr_method = TOOLS_CALL_METHOD, tr_params = ?args\<rparr>"
  have "?shape \<in> set (alternateRequestShapes ?req)"
    by (simp add: alternateRequestShapes_def asToolCall_def wireCall_def plainObject_def dataMember_def
        argumentsOf_def objectMembersOf_def units_inj)
  moreover have "parsedRequest ?req" "map_option fst (businessCall ?req) = Some TOOLS_CALL_METHOD"
    "map_option fst (businessCall ?shape) = Some (units ''echo'')"
    by code_simp+
  ultimately show ?thesis by blast
qed

end
