(* ===== verification/Did_Keys.thy ===== *)
theory Did_Keys
  imports Base58 Proof_Generator
begin

text \<open>
  DIDs and the keys they publish: \<open>src/utils/did-helpers.ts\<close>, \<open>src/delegation/did-key-resolver.ts\<close>,
  \<open>src/delegation/verification-method-key.ts\<close>, \<open>src/utils/ed25519-public-key.ts\<close>,
  \<open>src/delegation/did-resolver-registry.ts\<close>, the documents of \<open>src/delegation/vc-verifier.types.ts\<close>, and
  \<open>fetchPublicKeyFromDID\<close> of \<open>src/proof/verifier.ts\<close>. Resolving a DID is a parameter.
\<close>

subsection \<open>DID strings\<close>

definition isValidDid :: "string \<Rightarrow> bool" where
  "isValidDid did \<longleftrightarrow> startsWith did ''did:''"

text \<open>\<open>/^did:([^:]+):/\<close>\<close>

definition getDidMethod :: "string \<Rightarrow> string option" where
  "getDidMethod did =
     (if \<not> isValidDid did then None
      else (let rest = drop 4 did; method = takeWhile (\<lambda>c. c \<noteq> CHR '':'') rest
            in if method \<noteq> [] \<and> length method < length rest then Some method else None))"

definition normalizeDid :: "string \<Rightarrow> string" where
  "normalizeDid did = js_trim did"

definition compareDids :: "string \<Rightarrow> string \<Rightarrow> bool" where
  "compareDids did1 did2 \<longleftrightarrow> normalizeDid did1 = normalizeDid did2"

definition getServerDid :: "string option \<Rightarrow> string option \<Rightarrow> string option" where
  "getServerDid serverDid agentDid = (if truthy serverDid then serverDid else if truthy agentDid then agentDid else None)"

definition extractAgentId :: "string \<Rightarrow> string" where
  "extractAgentId did = last (splitOn (\<lambda>c. c = CHR '':'') did)"

definition extractAgentSlug :: "string \<Rightarrow> string" where
  "extractAgentSlug did = extractAgentId did"

definition ED25519_MULTICODEC_PREFIX :: bytes where
  "ED25519_MULTICODEC_PREFIX = [0xed, 0x01]"

definition generateDidKeyFromBytes :: "bytes \<Rightarrow> string" where
  "generateDidKeyFromBytes publicKeyBytes = ''did:key:z'' @ base58Encode (ED25519_MULTICODEC_PREFIX @ publicKeyBytes)"

definition generateDidKeyFromBase64 :: "string \<Rightarrow> string option" where
  "generateDidKeyFromBase64 publicKeyBase64 = map_option generateDidKeyFromBytes (atob publicKeyBase64)"

definition didKeyFragment :: "string \<Rightarrow> string" where
  "didKeyFragment did = (if startsWith did ''did:key:'' then drop 8 did else ''keys-1'')"

subsection \<open>DID documents\<close>

record verificationMethod =
  vm_id :: string
  vm_type :: string
  vm_controller :: string
  vm_publicKeyJwk :: "ed25519JWK option"
  vm_publicKeyBase58 :: "string option"
  vm_publicKeyMultibase :: "string option"

record didDocument =
  dd_id :: string
  dd_alsoKnownAs :: "string list option"
  dd_verificationMethod :: "verificationMethod list option"
  dd_authentication :: "string list option"
  dd_assertionMethod :: "string list option"

text \<open>A resolver: a throw, no document, or a document.\<close>

type_synonym didResolver = "string \<Rightarrow> didDocument option option"

subsection \<open>did:key\<close>

definition ED25519_PUBLIC_KEY_LENGTH :: nat where
  "ED25519_PUBLIC_KEY_LENGTH = 32"

definition MAX_DID_KEY_BASE58_LENGTH :: nat where
  "MAX_DID_KEY_BASE58_LENGTH = 64"

definition isEd25519DidKey :: "string \<Rightarrow> bool" where
  "isEd25519DidKey did \<longleftrightarrow> startsWith did ''did:key:z6Mk''"

definition extractPublicKeyFromDidKey :: "string \<Rightarrow> bytes option" where
  "extractPublicKeyFromDidKey did =
     (if \<not> startsWith did ''did:key:z'' then None
      else (case base58Decode (drop 9 did) (Some (JsInteger (int MAX_DID_KEY_BASE58_LENGTH))) of
          Inl _ \<Rightarrow> None
        | Inr multicodecBytes \<Rightarrow>
            (if length multicodecBytes \<noteq> length ED25519_MULTICODEC_PREFIX + ED25519_PUBLIC_KEY_LENGTH \<or>
                take 2 multicodecBytes \<noteq> ED25519_MULTICODEC_PREFIX
             then None else Some (drop 2 multicodecBytes))))"

definition publicKeyToJwk :: "bytes \<Rightarrow> ed25519JWK" where
  "publicKeyToJwk publicKeyBytes = \<lparr>jwk_kty = Some ''OKP'', jwk_crv = Some ''Ed25519'',
     jwk_x = Some (base64urlEncodeFromBytes publicKeyBytes), jwk_kid = None\<rparr>"

definition resolveDidKeySync :: "string \<Rightarrow> didDocument option" where
  "resolveDidKeySync did =
     (if \<not> isEd25519DidKey did then None
      else (case extractPublicKeyFromDidKey did of
          None \<Rightarrow> None
        | Some publicKeyBytes \<Rightarrow>
            (let methodId = did @ ''#'' @ didKeyFragment did
             in Some \<lparr>dd_id = did, dd_alsoKnownAs = None,
                  dd_verificationMethod = Some [\<lparr>vm_id = methodId, vm_type = ''Ed25519VerificationKey2020'', vm_controller = did,
                    vm_publicKeyJwk = Some (publicKeyToJwk publicKeyBytes), vm_publicKeyBase58 = None,
                    vm_publicKeyMultibase = Some (drop 8 did)\<rparr>],
                  dd_authentication = Some [methodId], dd_assertionMethod = Some [methodId]\<rparr>)))"

definition createDidKeyResolver :: didResolver where
  "createDidKeyResolver did = Some (resolveDidKeySync did)"

subsection \<open>The key of a verification method\<close>

definition rawEd25519Key :: "verificationMethod \<Rightarrow> bytes option" where
  "rawEd25519Key vm =
     (let bound = Some (JsInteger (int MAX_BASE58_DECODE_LENGTH))
      in case vm_publicKeyMultibase vm of
        Some (CHR ''z'' # encoded) \<Rightarrow>
          (case base58Decode encoded bound of
             Inl _ \<Rightarrow> None
           | Inr decoded \<Rightarrow>
               (let stripped = (if length decoded = ED25519_PUBLIC_KEY_LENGTH + length ED25519_MULTICODEC_PREFIX \<and>
                      take 2 decoded = ED25519_MULTICODEC_PREFIX then drop 2 decoded else decoded)
                in if length stripped = ED25519_PUBLIC_KEY_LENGTH then Some stripped else None))
      | _ \<Rightarrow>
          (if truthy (vm_publicKeyBase58 vm) then
             (case base58Decode (the (vm_publicKeyBase58 vm)) bound of
                Inl _ \<Rightarrow> None
              | Inr decoded \<Rightarrow> if length decoded = ED25519_PUBLIC_KEY_LENGTH then Some decoded else None)
           else None))"

definition verificationMethodJwk :: "verificationMethod \<Rightarrow> ed25519JWK option" where
  "verificationMethodJwk vm = (case vm_publicKeyJwk vm of
       Some jwk \<Rightarrow> Some jwk
     | None \<Rightarrow> map_option publicKeyToJwk (rawEd25519Key vm))"

subsection \<open>Strict public keys\<close>

definition SMALL_ORDER_ENCODINGS :: "bytes list" where
  "SMALL_ORDER_ENCODINGS =
     [replicate 32 0,
      1 # replicate 31 0,
      [0x26, 0xe8, 0x95, 0x8f, 0xc2, 0xb2, 0x27, 0xb0, 0x45, 0xc3, 0xf4, 0x89, 0xf2, 0xef, 0x98, 0xf0,
       0xd5, 0xdf, 0xac, 0x05, 0xd3, 0xc6, 0x33, 0x39, 0xb1, 0x38, 0x02, 0x88, 0x6d, 0x53, 0xfc, 0x05],
      [0xc7, 0x17, 0x6a, 0x70, 0x3d, 0x4d, 0xd8, 0x4f, 0xba, 0x3c, 0x0b, 0x76, 0x0d, 0x10, 0x67, 0x0f,
       0x2a, 0x20, 0x53, 0xfa, 0x2c, 0x39, 0xcc, 0xc6, 0x4e, 0xc7, 0xfd, 0x77, 0x92, 0xac, 0x03, 0x7a],
      0xec # replicate 30 0xff @ [0x7f],
      0xed # replicate 30 0xff @ [0x7f],
      0xee # replicate 30 0xff @ [0x7f]]"

text \<open>For a key of 32 bytes: every byte but the last as it is, the last without its sign bit.\<close>

definition isSmallOrderEd25519Key :: "bytes \<Rightarrow> bool" where
  "isSmallOrderEd25519Key key \<longleftrightarrow>
     list_ex (\<lambda>blocked. take 31 key = take 31 blocked \<and> and (nth_default 0 key 31) 0x7f = nth_default 0 blocked 31) SMALL_ORDER_ENCODINGS"

definition decodeEd25519PublicKey :: "string \<Rightarrow> bytes option" where
  "decodeEd25519PublicKey publicKeyBase64 =
     (let compact = filter (\<lambda>c. \<not> isAsciiWhitespace c) publicKeyBase64;
          body = take 43 compact
      in if length body = 43 \<and> list_all (\<lambda>c. b64index (fromUrlChar c) \<noteq> None) body \<and> drop 43 compact \<in> {[], ''=''}
         then (case base64ToBytes compact of
             None \<Rightarrow> None
           | Some key \<Rightarrow> if length key \<noteq> ED25519_KEY_SIZE \<or> isSmallOrderEd25519Key key then None else Some key)
         else None)"

subsection \<open>The key of a proof's signer\<close>

definition verificationMethodMatcher :: "string \<Rightarrow> string \<Rightarrow> (verificationMethod \<Rightarrow> bool) option" where
  "verificationMethodMatcher did kid = (case didOfKid kid of
       Some owner \<Rightarrow>
         (if owner \<noteq> did then None
          else (let fragment = drop (length owner) kid
                in Some (\<lambda>vm. vm_id vm = kid \<or> (fragment \<noteq> [] \<and> vm_id vm = fragment))))
     | None \<Rightarrow>
         (let kidWithHash = (if startsWith kid ''#'' then kid else ''#'' @ kid)
          in Some (\<lambda>vm. vm_id vm = kidWithHash \<or> vm_id vm = did @ kidWithHash)))"

definition fetchPublicKeyFromDID :: "didResolver \<Rightarrow> string \<Rightarrow> string option \<Rightarrow> proofErrorCode + ed25519JWK" where
  "fetchPublicKeyFromDID resolve did kid =
     andThen (if truthy kid then orFail KID_DID_MISMATCH (map_option Some (verificationMethodMatcher did (the kid))) else Inr None) (\<lambda>matcher.
     andThen (orFail DID_RESOLUTION_FAILED (resolve did)) (\<lambda>resolved.
     andThen (orFail DID_DOCUMENT_NOT_FOUND resolved) (\<lambda>didDoc.
       (case dd_verificationMethod didDoc of
          None \<Rightarrow> Inl VERIFICATION_METHOD_NOT_FOUND
        | Some [] \<Rightarrow> Inl VERIFICATION_METHOD_NOT_FOUND
        | Some (first # rest) \<Rightarrow>
            andThen (orFail VERIFICATION_METHOD_NOT_FOUND
                (case matcher of Some matches \<Rightarrow> List.find matches (first # rest) | None \<Rightarrow> Some first)) (\<lambda>vm.
            andThen (orFail PUBLIC_KEY_NOT_FOUND (verificationMethodJwk vm)) (\<lambda>jwk.
              (if jwk_kty jwk \<noteq> Some ''OKP'' \<or> jwk_crv jwk \<noteq> Some ''Ed25519'' \<or> \<not> truthy (jwk_x jwk) then Inl INVALID_JWK_FORMAT
               else Inr (if \<not> truthy (jwk_kid jwk) \<and> vm_id vm \<noteq> [] then jwk\<lparr>jwk_kid := Some (vm_id vm)\<rparr> else jwk))))))))"

subsection \<open>Resolver registries\<close>

datatype resolverEntry = ResolverInstance didResolver | ResolverFactory "didResolver option"

text \<open>\<open>/^[a-z0-9]+$/\<close> on the method. A factory is given with the resolver it makes from the configured fetch provider, if one is configured.\<close>

definition isMethodName :: "string \<Rightarrow> bool" where
  "isMethodName method \<longleftrightarrow> method \<noteq> [] \<and> list_all (\<lambda>c. c \<in> set ''abcdefghijklmnopqrstuvwxyz0123456789'') method"

fun buildDidResolverRegistry :: "(string \<times> resolverEntry) list \<Rightarrow> (string, didResolver) jsmap" where
  "buildDidResolverRegistry [] = []"
| "buildDidResolverRegistry ((method, entry) # entries) =
     (let rest = buildDidResolverRegistry entries
      in if \<not> isMethodName method then rest
         else (case entry of
             ResolverFactory None \<Rightarrow> rest
           | ResolverFactory (Some resolver) \<Rightarrow> (method, resolver) # rest
           | ResolverInstance resolver \<Rightarrow> (method, resolver) # rest))"

subsection \<open>A did:key names one key\<close>

lemma digitsOf_split:
  assumes "2 \<le> B" and "0 < n div B ^ k"
  shows "\<exists>ds. length ds = k \<and> digitsOf B n = digitsOf B (n div B ^ k) @ ds"
  using assms(2)
proof (induction k arbitrary: n)
  case (Suc k)
  have step: "n div B ^ Suc k = n div B div B ^ k" by (simp add: div_mult2_eq)
  then obtain ds where ds: "length ds = k" "digitsOf B (n div B) = digitsOf B (n div B ^ Suc k) @ ds"
    using Suc.IH [of "n div B"] Suc.prems by auto
  have "0 < n" using Suc.prems by (metis bot_nat_0.not_eq_extremum div_0)
  then have "digitsOf B n = digitsOf B (n div B ^ Suc k) @ (ds @ [n mod B])" using digitsOf_pos [OF assms(1)] ds(2) by simp
  with ds(1) show ?case by (intro exI [of _ "ds @ [n mod B]"]) simp
qed simp

lemma digitsOf_small: "2 \<le> B \<Longrightarrow> n < B ^ k \<Longrightarrow> length (digitsOf B n) \<le> k"
proof (induction k arbitrary: n)
  case (Suc k)
  show ?case
  proof (cases "n = 0")
    case False
    have "n div B < B ^ k" using Suc.prems by (simp add: less_mult_imp_div_less mult.commute)
    then have "length (digitsOf B (n div B)) \<le> k" by (rule Suc.IH [OF Suc.prems(1)])
    then show ?thesis using False Suc.prems(1) by (simp add: digitsOf_pos)
  qed simp
qed simp

lemma foldl_value: "foldl (\<lambda>v d. v * B + d) a ds = a * B ^ length ds + valueOf B ds" for a :: nat
proof (induction ds rule: rev_induct)
  case (snoc d ds)
  then show ?case by (simp add: algebra_simps)
qed (simp add: valueOf_def)

lemma valueOf_less: "0 < B \<Longrightarrow> \<forall>d \<in> set ds. d < B \<Longrightarrow> valueOf B ds < B ^ length ds"
proof (induction ds rule: rev_induct)
  case (snoc d ds)
  then have "valueOf B ds + 1 \<le> B ^ length ds" and "d < B" by auto
  then have "(valueOf B ds + 1) * B \<le> B ^ length ds * B" by (intro mult_right_mono) simp_all
  with \<open>d < B\<close> show ?case by (simp add: algebra_simps)
qed simp

text \<open>The number of a multicodec key lies between \<open>0xed01\<close> and \<open>0xed02\<close> times 256 to the 32.\<close>

lemma multicodec_number:
  assumes "length key = 32"
  shows "60673 * 256 ^ 32 \<le> valueOf 256 (map unat (ED25519_MULTICODEC_PREFIX @ key)) \<and>
    valueOf 256 (map unat (ED25519_MULTICODEC_PREFIX @ key)) < 60674 * 256 ^ 32"
proof -
  have "valueOf 256 (map unat (ED25519_MULTICODEC_PREFIX @ key)) = foldl (\<lambda>v d. v * 256 + d) 60673 (map unat key)"
    by (simp add: valueOf_def ED25519_MULTICODEC_PREFIX_def)
  also have "\<dots> = 60673 * 256 ^ 32 + valueOf 256 (map unat key)" using foldl_value assms by simp
  finally have eq: "valueOf 256 (map unat (ED25519_MULTICODEC_PREFIX @ key)) = 60673 * 256 ^ 32 + valueOf 256 (map unat key)" .
  have "valueOf 256 (map unat key) < 256 ^ length (map unat key)" by (rule valueOf_less) (auto simp: unat_byte)
  then show ?thesis unfolding eq using assms by simp
qed

lemma multicodec_base58:
  assumes "length key = 32"
  shows "length (base58Encode (ED25519_MULTICODEC_PREFIX @ key)) \<le> 47 \<and> startsWith (base58Encode (ED25519_MULTICODEC_PREFIX @ key)) ''6Mk''"
proof -
  define n where "n = valueOf 256 (map unat (ED25519_MULTICODEC_PREFIX @ key))"
  have bounds: "60673 * 256 ^ 32 \<le> n" "n < 60674 * 256 ^ 32" using multicodec_number [OF assms] by (simp_all add: n_def)
  have "leadingZeros (map unat (ED25519_MULTICODEC_PREFIX @ key)) = 0"
    by (simp add: leadingZeros_def ED25519_MULTICODEC_PREFIX_def)
  then have enc: "base58Encode (ED25519_MULTICODEC_PREFIX @ key) = map ((!) base58Alphabet) (digitsOf 58 n)"
    by (simp add: base58Encode_digits n_def)
  have "n < 58 ^ 47" using bounds(2) by simp
  then have len: "length (digitsOf 58 n) \<le> 47" by (intro digitsOf_small) simp_all
  have "18023 * 58 ^ 44 \<le> n" "n < 18024 * 58 ^ 44" using bounds by simp_all
  then have q: "n div 58 ^ 44 = 18023" by (intro div_nat_eqI) simp_all
  obtain ds where "digitsOf 58 n = digitsOf 58 18023 @ ds" using digitsOf_split [of 58 n 44] q by auto
  moreover have "digitsOf 58 18023 = [5, 20, 43]" by (simp add: digitsOf.simps)
  moreover have "map ((!) base58Alphabet) [5, 20, 43] = ''6Mk''" by code_simp
  ultimately have "base58Encode (ED25519_MULTICODEC_PREFIX @ key) = ''6Mk'' @ map ((!) base58Alphabet) ds" using enc by simp
  then have "startsWith (base58Encode (ED25519_MULTICODEC_PREFIX @ key)) ''6Mk''" by simp
  moreover have "length (base58Encode (ED25519_MULTICODEC_PREFIX @ key)) \<le> 47" unfolding enc length_map by (rule len)
  ultimately show ?thesis by (rule conjI [rotated])
qed

lemma did_key_extracts:
  "extractPublicKeyFromDidKey did = Some key \<longleftrightarrow> length key = 32 \<and> did = generateDidKeyFromBytes key"
proof
  assume ex: "extractPublicKeyFromDidKey did = Some key"
  let ?bound = "Some (JsInteger (int MAX_DID_KEY_BASE58_LENGTH))"
  have p: "startsWith did ''did:key:z''" using ex by (simp add: extractPublicKeyFromDidKey_def split: if_splits)
  obtain bs where bounded: "base58Decode (drop 9 did) ?bound = Inr bs"
    using ex p by (cases "base58Decode (drop 9 did) ?bound") (simp_all add: extractPublicKeyFromDidKey_def)
  then have dec: "base58Decode (drop 9 did) None = Inr bs" unfolding base58Decode_bounded by (simp split: if_splits)
  have bs: "length bs = 34" "take 2 bs = ED25519_MULTICODEC_PREFIX" "key = drop 2 bs"
    using ex p bounded by (simp_all add: extractPublicKeyFromDidKey_def ED25519_MULTICODEC_PREFIX_def ED25519_PUBLIC_KEY_LENGTH_def split: if_splits)
  obtain rest where rest: "did = ''did:key:z'' @ rest" using p by (auto simp: prefix_def)
  have "base58Encode bs = rest" using dec unfolding base58_inverse rest by simp
  moreover have "bs = ED25519_MULTICODEC_PREFIX @ key" using append_take_drop_id [of 2 bs] unfolding bs(2,3) by (rule sym)
  ultimately have "did = generateDidKeyFromBytes key" unfolding generateDidKeyFromBytes_def rest by simp
  moreover have "length key = 32" using bs(1) unfolding bs(3) by simp
  ultimately show "length key = 32 \<and> did = generateDidKeyFromBytes key" by (rule conjI [rotated])
next
  assume key: "length key = 32 \<and> did = generateDidKeyFromBytes key"
  let ?text = "base58Encode (ED25519_MULTICODEC_PREFIX @ key)"
  have "base58Decode ?text (Some (JsInteger (int MAX_DID_KEY_BASE58_LENGTH))) = Inr (ED25519_MULTICODEC_PREFIX @ key)"
  proof -
    have "\<not> MAX_DID_KEY_BASE58_LENGTH < length ?text"
      using multicodec_base58 [OF conjunct1 [OF key]] by (simp add: MAX_DID_KEY_BASE58_LENGTH_def)
    then show ?thesis unfolding base58Decode_bounded by (simp add: base58_inverse)
  qed
  then show "extractPublicKeyFromDidKey did = Some key"
    using key by (simp add: extractPublicKeyFromDidKey_def generateDidKeyFromBytes_def ED25519_MULTICODEC_PREFIX_def ED25519_PUBLIC_KEY_LENGTH_def)
qed

text \<open>C14: a did:key is its key. The resolver reads a 32-byte key from a DID exactly when the DID is the one generated
  from that key, so distinct DIDs never share a key and no second spelling of a DID resolves.\<close>

theorem did_key_is_its_key:
  "(extractPublicKeyFromDidKey did = Some key) = (length key = 32 \<and> did = generateDidKeyFromBytes key)"
  by (rule did_key_extracts)

lemma did_key_resolves:
  assumes "length key = 32"
  shows "resolveDidKeySync (generateDidKeyFromBytes key) \<noteq> None" "extractPublicKeyFromDidKey (generateDidKeyFromBytes key) = Some key"
proof -
  show ex: "extractPublicKeyFromDidKey (generateDidKeyFromBytes key) = Some key" using assms by (simp add: did_key_extracts)
  have "isEd25519DidKey (generateDidKeyFromBytes key)"
    using multicodec_base58 [OF assms] by (auto simp: isEd25519DidKey_def generateDidKeyFromBytes_def prefix_def)
  then show "resolveDidKeySync (generateDidKeyFromBytes key) \<noteq> None" by (simp add: resolveDidKeySync_def ex Let_def)
qed

subsection \<open>Resolving the key of a signer\<close>

definition didKeyJwk :: "string \<Rightarrow> bytes \<Rightarrow> ed25519JWK" where
  "didKeyJwk did key = (publicKeyToJwk key)\<lparr>jwk_kid := Some (did @ ''#'' @ didKeyFragment did)\<rparr>"

lemma didKeyJwk_publicKey: "length key = 32 \<Longrightarrow> jwkToBase64PublicKey (didKeyJwk did key) = Some (bytesToBase64 key)"
  by (simp add: didKeyJwk_def publicKeyToJwk_def jwkToBase64PublicKey_def base64url_inverse)

lemma didKeyJwk_valid: "length key = 32 \<Longrightarrow> isValidEd25519JWK (didKeyJwk did key)"
proof -
  assume "length key = 32"
  then have "base64urlEncodeFromBytes key \<noteq> []"
    using base64url_inverse [of key] by (auto simp: base64urlDecodeToBytes_def addPadding_def atob_def stripPadding_def endsWithChar_def)
  then show ?thesis by (simp add: didKeyJwk_def publicKeyToJwk_def isValidEd25519JWK_def)
qed

lemma base58_chars: "c \<in> set (base58Encode bs) \<Longrightarrow> c \<in> set base58Alphabet"
proof -
  have "d < 58" if "d \<in> set (replicate k 0 @ digitsOf 58 n)" for d k n using that digitsOf_less [of 58] by auto
  then show "c \<in> set (base58Encode bs) \<Longrightarrow> c \<in> set base58Alphabet"
    unfolding base58Encode_digits set_map using base58Alphabet_length by (metis (no_types, lifting) imageE nth_mem)
qed

lemma did_key_no_hash: "CHR ''#'' \<notin> set (generateDidKeyFromBytes key)"
proof -
  have "CHR ''#'' \<notin> set base58Alphabet" by code_simp
  then show ?thesis using base58_chars unfolding generateDidKeyFromBytes_def by auto
qed

lemma takeWhile_hash: "CHR ''#'' \<notin> set d \<Longrightarrow> takeWhile (\<lambda>c. c \<noteq> CHR ''#'') (d @ CHR ''#'' # f) = d"
  by (induction d) auto

lemma kid_owner: "CHR ''#'' \<notin> set d \<Longrightarrow> startsWith d ''did:'' \<Longrightarrow> didOfKid (d @ ''#'' @ f) = Some d"
  using takeWhile_hash by (auto simp: didOfKid_def prefix_def)

text \<open>the verifier reads the key of a did:key signer back: for the DID generated from a key, without a \<open>kid\<close> or with the
  DID's own method, \<open>fetchPublicKeyFromDID\<close> answers that key; a \<open>kid\<close> of a did:web is refused before resolving.\<close>

theorem did_key_signer_resolved:
  assumes "length key = 32" and "did = generateDidKeyFromBytes key"
  shows "fetchPublicKeyFromDID createDidKeyResolver did None = Inr (didKeyJwk did key) \<and>
    fetchPublicKeyFromDID createDidKeyResolver did (Some (did @ ''#'' @ didKeyFragment did)) = Inr (didKeyJwk did key) \<and>
    fetchPublicKeyFromDID createDidKeyResolver did (Some (''did:web:'' @ rest)) = Inl KID_DID_MISMATCH"
proof (intro conjI)
  have ex: "extractPublicKeyFromDidKey did = Some key" unfolding assms(2) by (rule did_key_resolves(2) [OF assms(1)])
  have ed: "isEd25519DidKey did"
    using did_key_resolves(1) [OF assms(1)] unfolding assms(2) by (simp add: resolveDidKeySync_def split: if_splits)
  obtain vm where doc: "resolveDidKeySync did = Some \<lparr>dd_id = did, dd_alsoKnownAs = None, dd_verificationMethod = Some [vm],
      dd_authentication = Some [did @ ''#'' @ didKeyFragment did], dd_assertionMethod = Some [did @ ''#'' @ didKeyFragment did]\<rparr>"
    and vm: "vm_id vm = did @ ''#'' @ didKeyFragment did" "vm_publicKeyJwk vm = Some (publicKeyToJwk key)"
    using ed ex by (simp add: resolveDidKeySync_def Let_def)
  have x: "truthy (jwk_x (publicKeyToJwk key))"
    using didKeyJwk_valid [OF assms(1)] by (simp add: isValidEd25519JWK_def didKeyJwk_def)
  have jwk: "jwk_kty (publicKeyToJwk key) = Some ''OKP''" "jwk_crv (publicKeyToJwk key) = Some ''Ed25519''" "jwk_kid (publicKeyToJwk key) = None"
    by (simp_all add: publicKeyToJwk_def)
  have d: "CHR ''#'' \<notin> set did" "startsWith did ''did:''"
    using did_key_no_hash unfolding assms(2) generateDidKeyFromBytes_def by simp_all
  show "fetchPublicKeyFromDID createDidKeyResolver did None = Inr (didKeyJwk did key)"
    by (simp add: fetchPublicKeyFromDID_def createDidKeyResolver_def doc verificationMethodJwk_def vm x jwk didKeyJwk_def)
  have "verificationMethodMatcher did (did @ ''#'' @ didKeyFragment did) =
      Some (\<lambda>v. vm_id v = did @ ''#'' @ didKeyFragment did \<or> ''#'' @ didKeyFragment did \<noteq> [] \<and> vm_id v = ''#'' @ didKeyFragment did)"
    unfolding verificationMethodMatcher_def kid_owner [OF d] by (simp add: Let_def)
  then show "fetchPublicKeyFromDID createDidKeyResolver did (Some (did @ ''#'' @ didKeyFragment did)) = Inr (didKeyJwk did key)"
    by (simp add: fetchPublicKeyFromDID_def createDidKeyResolver_def doc verificationMethodJwk_def vm x jwk didKeyJwk_def)
  have "takeWhile (\<lambda>c. c \<noteq> CHR ''#'') (''did:web:'' @ rest) \<noteq> did"
    unfolding assms(2) generateDidKeyFromBytes_def by simp
  then have "verificationMethodMatcher did (''did:web:'' @ rest) = None"
    unfolding verificationMethodMatcher_def didOfKid_def by simp
  then show "fetchPublicKeyFromDID createDidKeyResolver did (Some (''did:web:'' @ rest)) = Inl KID_DID_MISMATCH"
    by (simp add: fetchPublicKeyFromDID_def orFail_def andThen_def)
qed

lemma did_key_signer_resolved_witness:
  "fetchPublicKeyFromDID createDidKeyResolver (generateDidKeyFromBytes (replicate 32 7)) None =
     Inr (didKeyJwk (generateDidKeyFromBytes (replicate 32 7)) (replicate 32 7))"
  using did_key_signer_resolved [of "replicate 32 7" _ "[]"] by simp

end
