(* ===== verification/Vc_Checks.thy ===== *)
theory Vc_Checks
  imports Did_Keys
begin

text \<open>
  Delegation credentials as they arrive, unchecked: the schema and the validity bounds of
  \<open>src/types/protocol.ts\<close>, the stateless checks of \<open>src/delegation/vc-verification-checks.ts\<close>, and the
  JWT serialisation of \<open>src/delegation/utils.ts\<close> and \<open>src/delegation/vc-jwt-verify.ts\<close>.

  A credential is any JavaScript value. \<open>Date.parse\<close>, \<open>JSON.parse\<close>, the DID resolver, the status list
  resolver, the signature verifier and \<open>jose\<close> are parameters; an answer \<open>None\<close> of theirs is a throw. The
  texts of reasons and the durations of the metrics are left out: a reason is the check it names.
\<close>

subsection \<open>Reading untrusted values\<close>

abbreviation jsGet :: "jsvalue \<Rightarrow> string \<Rightarrow> jsvalue" where
  "jsGet v name \<equiv> headerMember v name"

abbreviation jsText :: "string \<Rightarrow> jsvalue" where
  "jsText s \<equiv> VString (units s)"

fun isText :: "jsvalue \<Rightarrow> bool" where
  "isText (VString _) = True"
| "isText _ = False"

text \<open>\<open>typeof v === 'object'\<close>, and not \<open>null\<close>.\<close>

fun isObjectLike :: "jsvalue \<Rightarrow> bool" where
  "isObjectLike (VArray _) = True"
| "isObjectLike (VObject _ _) = True"
| "isObjectLike VCycle = True"
| "isObjectLike _ = False"

fun arrayItems :: "jsvalue \<Rightarrow> jsvalue list option" where
  "arrayItems (VArray slots) = Some (map slotValue slots)"
| "arrayItems _ = None"

definition ownKeys :: "jsvalue \<Rightarrow> jsstring list" where
  "ownKeys v = (case v of VObject plain ms \<Rightarrow> map fst (entriesOf ms) | _ \<Rightarrow> [])"

text \<open>A number as the decimal \<open>m / 10 ^ e\<close> it is written as; \<open>None\<close> unless it is finite.\<close>

type_synonym decimal = "int \<times> nat"

definition fractionValue :: "jsstring \<Rightarrow> decimal" where
  "fractionValue t =
     (let body = (if take 1 t = [45] then drop 1 t else t);
          mantissa = takeWhile (\<lambda>u. u \<noteq> 101) body;
          exponent = drop (Suc (length mantissa)) body;
          whole = takeWhile (\<lambda>u. u \<noteq> 46) mantissa;
          fraction = drop (Suc (length whole)) mantissa;
          m = int (valueOf 10 (map (\<lambda>u. u - 48) (whole @ fraction)))
      in (if take 1 t = [45] then - m else m, length fraction + valueOf 10 (map (\<lambda>u. u - 48) (drop 1 exponent))))"

definition finiteNumber :: "jsvalue \<Rightarrow> decimal option" where
  "finiteNumber v = (case v of
       VNumber (NumInt i) \<Rightarrow> Some (i, 0)
     | VNumber (NumFraction t) \<Rightarrow> Some (fractionValue t)
     | _ \<Rightarrow> None)"

definition decimalLess :: "decimal \<Rightarrow> decimal \<Rightarrow> bool" where
  "decimalLess a b \<longleftrightarrow> fst a * 10 ^ snd b < fst b * 10 ^ snd a"

lemma finiteNumber_int [simp]: "finiteNumber (VNumber (NumInt i)) = Some (i, 0)"
  by (simp add: finiteNumber_def)

lemma decimalLess_int [simp]: "decimalLess (i, 0) (j, 0) \<longleftrightarrow> i < j"
  by (simp add: decimalLess_def)

subsection \<open>Schema\<close>

datatype schemaFailure = NotAnObject | BadContext | WrongFirstContext | MissingTypeArray | WrongTypes | BadIssuer
  | MissingIssuanceDate | MissingCredentialSubject | MissingSubjectId | MissingDelegation | MissingDelegationFields

definition W3C_CONTEXT :: string where
  "W3C_CONTEXT = ''https://www.w3.org/2018/credentials/v1''"

definition validateDelegationCredential :: "jsvalue \<Rightarrow> schemaFailure option" where
  "validateDelegationCredential v =
     (let cs = jsGet v ''credentialSubject''; del = jsGet cs ''delegation''
      in if \<not> isObjectLike v then Some NotAnObject
         else if arrayItems (jsGet v ''@context'') = None \<or> arrayItems (jsGet v ''@context'') = Some [] then Some BadContext
         else if hd (the (arrayItems (jsGet v ''@context''))) \<noteq> jsText W3C_CONTEXT then Some WrongFirstContext
         else (case arrayItems (jsGet v ''type'') of
             None \<Rightarrow> Some MissingTypeArray
           | Some types \<Rightarrow>
               (if jsText ''VerifiableCredential'' \<notin> set types \<or> jsText ''DelegationCredential'' \<notin> set types then Some WrongTypes
                else if \<not> valTruthy (jsGet v ''issuer'') \<or> \<not> (isText (jsGet v ''issuer'') \<or> isObjectLike (jsGet v ''issuer'')) then Some BadIssuer
                else if \<not> valTruthy (jsGet v ''issuanceDate'') \<or> \<not> isText (jsGet v ''issuanceDate'') then Some MissingIssuanceDate
                else if \<not> isObjectLike cs then Some MissingCredentialSubject
                else if \<not> valTruthy (jsGet cs ''id'') \<or> \<not> isText (jsGet cs ''id'') then Some MissingSubjectId
                else if \<not> isObjectLike del then Some MissingDelegation
                else if \<not> valTruthy (jsGet del ''id'') \<or> \<not> valTruthy (jsGet del ''issuerDid'') \<or>
                  \<not> valTruthy (jsGet del ''subjectDid'') \<or> \<not> valTruthy (jsGet del ''constraints'') then Some MissingDelegationFields
                else None)))"

subsection \<open>Validity bounds\<close>

definition delegationOf :: "jsvalue \<Rightarrow> jsvalue" where
  "delegationOf vc = jsGet (jsGet vc ''credentialSubject'') ''delegation''"

definition isEpochSeconds :: "jsvalue \<Rightarrow> bool" where
  "isEpochSeconds v \<longleftrightarrow> finiteNumber v \<noteq> None"

text \<open>The clock is read for each bound. \<open>dateParse\<close> gives the milliseconds of a text, \<open>None\<close> for \<open>NaN\<close>.\<close>

definition isDelegationCredentialExpired :: "(jsstring \<Rightarrow> int option) \<Rightarrow> int \<Rightarrow> int \<Rightarrow> jsvalue \<Rightarrow> bool" where
  "isDelegationCredentialExpired dateParse nowMs nowMs' vc =
     (let notAfter = jsGet (jsGet (delegationOf vc) ''constraints'') ''notAfter''
      in if (case jsGet vc ''expirationDate'' of
               VUndefined \<Rightarrow> False
             | VString s \<Rightarrow> (case dateParse s of None \<Rightarrow> True | Some expiresAt \<Rightarrow> expiresAt < nowMs)
             | _ \<Rightarrow> True) then True
         else if notAfter \<noteq> VUndefined then
           (case finiteNumber notAfter of None \<Rightarrow> True | Some bound \<Rightarrow> decimalLess bound (nowMs' div 1000, 0))
         else False)"

definition isDelegationCredentialNotYetValid :: "int \<Rightarrow> jsvalue \<Rightarrow> bool" where
  "isDelegationCredentialNotYetValid nowMs vc =
     (let notBefore = jsGet (jsGet (delegationOf vc) ''constraints'') ''notBefore''
      in if notBefore = VUndefined then False
         else (case finiteNumber notBefore of None \<Rightarrow> True | Some bound \<Rightarrow> decimalLess (nowMs div 1000, 0) bound))"

subsection \<open>Basic checks\<close>

datatype basicFailure = SchemaInvalid schemaFailure | CredentialExpired | CredentialNotYetValid | DelegationNotActive jsvalue
  | MissingDid | MissingProof | ExtraneousSubjectFields "jsstring list" | JwtParseFailed | JwtClaimNotNumeric string
  | JwtExpired | JwtNotYetValid | IssuerMismatch

definition DELEGATION_SUBJECT_KEYS :: "jsstring list" where
  "DELEGATION_SUBJECT_KEYS = [units ''id'', units ''delegation'']"

definition validateSubjectShape :: "jsvalue \<Rightarrow> basicFailure option" where
  "validateSubjectShape vc =
     (let extraneous = filter (\<lambda>k. k \<notin> set DELEGATION_SUBJECT_KEYS) (ownKeys (jsGet vc ''credentialSubject''))
      in if extraneous = [] then None else Some (ExtraneousSubjectFields extraneous))"

text \<open>The clock reads of one run of the basic checks.\<close>

record basicClock =
  bk_expirationMs :: int
  bk_notAfterMs :: int
  bk_notBeforeMs :: int

definition validateBasicProperties ::
  "(jsstring \<Rightarrow> int option) \<Rightarrow> basicClock \<Rightarrow> bool \<Rightarrow> jsvalue \<Rightarrow> basicFailure option" where
  "validateBasicProperties dateParse clock requireEmbeddedProof vc = (case validateDelegationCredential vc of
       Some e \<Rightarrow> Some (SchemaInvalid e)
     | None \<Rightarrow>
         (if isDelegationCredentialExpired dateParse (bk_expirationMs clock) (bk_notAfterMs clock) vc then Some CredentialExpired
          else if isDelegationCredentialNotYetValid (bk_notBeforeMs clock) vc then Some CredentialNotYetValid
          else if jsGet (delegationOf vc) ''status'' \<noteq> jsText ''active'' then
            Some (DelegationNotActive (jsGet (delegationOf vc) ''status''))
          else if \<not> valTruthy (jsGet (delegationOf vc) ''issuerDid'') \<or> \<not> valTruthy (jsGet (delegationOf vc) ''subjectDid'') then Some MissingDid
          else if requireEmbeddedProof \<and> \<not> valTruthy (jsGet vc ''proof'') then Some MissingProof
          else validateSubjectShape vc))"

subsection \<open>The signature of an embedded proof\<close>

definition SUPPORTED_CREDENTIAL_PROOF_TYPES :: "string list" where
  "SUPPORTED_CREDENTIAL_PROOF_TYPES = [''Ed25519Signature2020'', ''DataIntegrityProof'']"

definition isSupportedCredentialProofType :: "jsvalue \<Rightarrow> bool" where
  "isSupportedCredentialProofType suite \<longleftrightarrow> suite \<in> jsText ` set SUPPORTED_CREDENTIAL_PROOF_TYPES"

text \<open>A resolver is called with whatever the issuer member holds.\<close>

type_synonym issuerResolver = "jsvalue \<Rightarrow> didDocument option option"

type_synonym credentialVerifier = "jsvalue \<Rightarrow> ed25519JWK \<Rightarrow> (bool \<times> string option) option"

type_synonym statusResolver = "jsvalue \<Rightarrow> bool option"

datatype signatureFailure = NoResolverOrVerifier | UnsupportedProofType jsvalue | DidNotResolved | ProofMissing
  | VerificationMethodMissing | MethodNotFound | NoUsableKey | VerifierSays "string option" | SignatureError
  | SmallOrderKey | EnvelopeInvalid

datatype signatureResult = SignatureValid | SignatureInvalid signatureFailure

definition findVerificationMethod :: "didDocument \<Rightarrow> jsvalue \<Rightarrow> verificationMethod option" where
  "findVerificationMethod didDoc methodId =
     Option.bind (dd_verificationMethod didDoc) (List.find (\<lambda>vm. jsText (vm_id vm) = methodId))"

definition verifyCredentialSignature ::
  "jsvalue \<Rightarrow> issuerResolver option \<Rightarrow> credentialVerifier option \<Rightarrow> signatureResult" where
  "verifyCredentialSignature vc didResolver signatureVerifier =
     (let issuerDid = (if isText (jsGet vc ''issuer'') then jsGet vc ''issuer'' else jsGet (jsGet vc ''issuer'') ''id'');
          embedded = jsGet vc ''proof''; methodId = jsGet embedded ''verificationMethod''
      in if jsGet vc ''issuer'' \<in> {VNull, VUndefined} then SignatureInvalid SignatureError else case (didResolver, signatureVerifier) of
        (Some resolve, Some verifier) \<Rightarrow>
          (if valTruthy embedded \<and> \<not> isSupportedCredentialProofType (jsGet embedded ''type'')
           then SignatureInvalid (UnsupportedProofType (jsGet embedded ''type''))
           else (case resolve issuerDid of
               None \<Rightarrow> SignatureInvalid SignatureError
             | Some None \<Rightarrow> SignatureInvalid DidNotResolved
             | Some (Some didDoc) \<Rightarrow>
                 (if \<not> valTruthy embedded then SignatureInvalid ProofMissing
                  else if \<not> valTruthy methodId then SignatureInvalid VerificationMethodMissing
                  else (case findVerificationMethod didDoc methodId of
                      None \<Rightarrow> SignatureInvalid MethodNotFound
                    | Some vm \<Rightarrow>
                        (case verificationMethodJwk vm of
                           None \<Rightarrow> SignatureInvalid NoUsableKey
                         | Some publicKeyJwk \<Rightarrow>
                             (case verifier vc publicKeyJwk of
                                None \<Rightarrow> SignatureInvalid SignatureError
                              | Some (valid, reason) \<Rightarrow> if valid then SignatureValid else SignatureInvalid (VerifierSays reason)))))))
      | _ \<Rightarrow> SignatureInvalid NoResolverOrVerifier)"

subsection \<open>Status\<close>

datatype statusOutcome = OutcomeRevoked | OutcomeUnresolvable

datatype statusCheck = StatusLive | StatusDenied statusOutcome

definition checkCredentialStatus :: "jsvalue \<Rightarrow> statusResolver option \<Rightarrow> statusCheck" where
  "checkCredentialStatus status statusListResolver = (case statusListResolver of
       None \<Rightarrow> StatusDenied OutcomeUnresolvable
     | Some resolver \<Rightarrow>
         (case resolver status of
            None \<Rightarrow> StatusDenied OutcomeUnresolvable
          | Some isRevoked \<Rightarrow> if isRevoked then StatusDenied OutcomeRevoked else StatusLive))"

subsection \<open>The combined result\<close>

datatype vcStage = BasicStage | SignatureStage | StatusStage | CompleteStage

datatype vcReason = BasicReason basicFailure | SignatureReason signatureFailure | StatusReason statusOutcome | UnknownFailure

record vcVerification =
  vr_valid :: bool
  vr_reason :: "vcReason option"
  vr_statusOutcome :: "statusOutcome option"
  vr_stage :: vcStage
  vr_cached :: bool
  vr_checks :: "bool \<times> bool option \<times> bool option"

definition basicFailed :: "basicFailure \<Rightarrow> vcVerification" where
  "basicFailed e = \<lparr>vr_valid = False, vr_reason = Some (BasicReason e), vr_statusOutcome = None, vr_stage = BasicStage,
     vr_cached = False, vr_checks = (False, None, None)\<rparr>"

text \<open>\<open>signatureResult.reason || statusResult.reason || 'Unknown failure'\<close>: only a signature verifier can leave its reason out.\<close>

definition failureReason :: "signatureResult \<Rightarrow> statusCheck \<Rightarrow> vcReason" where
  "failureReason sig status = (case (sig, status) of
       (SignatureInvalid (VerifierSays reason), StatusLive) \<Rightarrow>
         if truthy reason then SignatureReason (VerifierSays reason) else UnknownFailure
     | (SignatureInvalid (VerifierSays reason), StatusDenied outcome) \<Rightarrow>
         if truthy reason then SignatureReason (VerifierSays reason) else StatusReason outcome
     | (SignatureInvalid f, _) \<Rightarrow> SignatureReason f
     | (SignatureValid, StatusDenied outcome) \<Rightarrow> StatusReason outcome
     | (SignatureValid, StatusLive) \<Rightarrow> UnknownFailure)"

definition combineVerificationResult :: "signatureResult \<Rightarrow> statusCheck \<Rightarrow> vcVerification" where
  "combineVerificationResult sig status =
     (let allValid = (sig = SignatureValid \<and> status = StatusLive)
      in \<lparr>vr_valid = allValid,
          vr_reason = (if allValid then None else Some (failureReason sig status)),
          vr_statusOutcome = (case status of StatusLive \<Rightarrow> None | StatusDenied outcome \<Rightarrow> Some outcome),
          vr_stage = (if allValid then CompleteStage else if sig = SignatureValid then StatusStage else SignatureStage),
          vr_cached = False,
          vr_checks = (True, Some (sig = SignatureValid), Some (status = StatusLive))\<rparr>)"

subsection \<open>The JWT serialisation\<close>

record vcJwt =
  vj_header :: jsvalue
  vj_payload :: jsvalue
  vj_signature :: string
  vj_signingInput :: string

definition completeVCJWT :: "string \<Rightarrow> string \<Rightarrow> string" where
  "completeVCJWT input sig = input @ ''.'' @ sig"

definition parseVCJWT :: "jsonParser \<Rightarrow> string \<Rightarrow> vcJwt option" where
  "parseVCJWT jsonParse jwt = (case jwsParts jwt of
       [h, p, sig] \<Rightarrow>
         (case (parseSegment jsonParse h, parseSegment jsonParse p) of
            (Some header, Some payload) \<Rightarrow>
              Some \<lparr>vj_header = header, vj_payload = payload, vj_signature = sig, vj_signingInput = h @ ''.'' @ p\<rparr>
          | _ \<Rightarrow> None)
     | _ \<Rightarrow> None)"

text \<open>\<open>credentialIssuerDid\<close> on an unchecked credential: \<open>VUndefined\<close> when it names no issuer.\<close>

definition issuerDidOf :: "jsvalue \<Rightarrow> jsvalue" where
  "issuerDidOf credential =
     (let iss = jsGet credential ''issuer''
      in if isText iss then iss
         else if isObjectLike iss \<and> isText (jsGet iss ''id'') then jsGet iss ''id'' else VUndefined)"

definition JWT_NBF_LEEWAY_SECONDS :: int where
  "JWT_NBF_LEEWAY_SECONDS = 30"

definition claimNumeric :: "jsvalue \<Rightarrow> string \<Rightarrow> bool" where
  "claimNumeric payload claim \<longleftrightarrow> jsGet payload claim = VUndefined \<or> finiteNumber (jsGet payload claim) \<noteq> None"

text \<open>\<open>nowMs / 1000\<close> is the decimal with three digits after the point.\<close>

definition validateJwtTimeBounds :: "jsvalue \<Rightarrow> int \<Rightarrow> basicFailure option" where
  "validateJwtTimeBounds payload nowMs =
     (if \<not> claimNumeric payload ''exp'' then Some (JwtClaimNotNumeric ''exp'')
      else if \<not> claimNumeric payload ''nbf'' then Some (JwtClaimNotNumeric ''nbf'')
      else if (case finiteNumber (jsGet payload ''exp'') of None \<Rightarrow> False | Some e \<Rightarrow> \<not> decimalLess (nowMs, 3) e) then Some JwtExpired
      else if (case finiteNumber (jsGet payload ''nbf'') of None \<Rightarrow> False
               | Some n \<Rightarrow> decimalLess (nowMs + JWT_NBF_LEEWAY_SECONDS * 1000, 3) n) then Some JwtNotYetValid
      else None)"

definition isJsonObject :: "jsvalue \<Rightarrow> bool" where
  "isJsonObject v \<longleftrightarrow> isObjectLike v \<and> arrayItems v = None"

record preparedVcJwt =
  pw_vc :: jsvalue
  pw_issuerDid :: jsvalue
  pw_kid :: "jsstring option"

definition kidOf :: "jsvalue \<Rightarrow> jsstring option" where
  "kidOf header = (case jsGet header ''kid'' of VString s \<Rightarrow> Some s | _ \<Rightarrow> None)"

definition prepareVcJwtCredential ::
  "jsonParser \<Rightarrow> (jsstring \<Rightarrow> int option) \<Rightarrow> int \<Rightarrow> basicClock \<Rightarrow> string \<Rightarrow> basicFailure + preparedVcJwt" where
  "prepareVcJwtCredential jsonParse dateParse nowMs clock jwt = (case parseVCJWT jsonParse jwt of
       None \<Rightarrow> Inl JwtParseFailed
     | Some parsed \<Rightarrow>
         (if \<not> isJsonObject (vj_header parsed) \<or> \<not> isJsonObject (vj_payload parsed) \<or>
             (jsGet (vj_header parsed) ''kid'' \<noteq> VUndefined \<and> \<not> isText (jsGet (vj_header parsed) ''kid'')) then Inl JwtParseFailed
          else (case validateJwtTimeBounds (vj_payload parsed) nowMs of
              Some e \<Rightarrow> Inl e
            | None \<Rightarrow>
                (let vc = jsGet (vj_payload parsed) ''vc''
                 in case validateBasicProperties dateParse clock False vc of
                   Some e \<Rightarrow> Inl e
                 | None \<Rightarrow>
                     (if issuerDidOf vc \<noteq> jsGet (vj_payload parsed) ''iss'' then Inl IssuerMismatch
                      else Inr \<lparr>pw_vc = vc, pw_issuerDid = jsGet (vj_payload parsed) ''iss'', pw_kid = kidOf (vj_header parsed)\<rparr>)))))"

definition selectVerificationMethod :: "verificationMethod list \<Rightarrow> jsstring option \<Rightarrow> verificationMethod option" where
  "selectVerificationMethod methods kid = (case kid of
       Some (u # us) \<Rightarrow> List.find (\<lambda>m. units (vm_id m) = u # us) methods
     | _ \<Rightarrow> (case methods of [] \<Rightarrow> None | m # _ \<Rightarrow> Some m))"

text \<open>\<open>importJWK\<close> and \<open>compactVerify\<close> with the algorithm pinned to EdDSA, and the raw bytes of an imported
  key, absent when it is not an extractable Ed25519 public key; the outer option of the last is a throw.\<close>

record 'k joseOps =
  jose_importJWK :: "ed25519JWK \<Rightarrow> 'k option"
  jose_compactVerify :: "string \<Rightarrow> 'k \<Rightarrow> bool"
  jose_exportRaw :: "'k \<Rightarrow> bytes option option"

definition isSmallOrderEd25519CryptoKey :: "'k joseOps \<Rightarrow> 'k \<Rightarrow> bool option" where
  "isSmallOrderEd25519CryptoKey jose key =
     map_option (\<lambda>raw. case raw of None \<Rightarrow> False | Some bs \<Rightarrow> isSmallOrderEd25519Key bs) (jose_exportRaw jose key)"

definition verifyVcJwtSignature ::
  "'k joseOps \<Rightarrow> string \<Rightarrow> jsvalue \<Rightarrow> jsstring option \<Rightarrow> issuerResolver option \<Rightarrow> signatureResult" where
  "verifyVcJwtSignature jose jwt issuerDid kid didResolver = (case didResolver of
       None \<Rightarrow> SignatureInvalid NoResolverOrVerifier
     | Some resolve \<Rightarrow>
         (case resolve issuerDid of
            None \<Rightarrow> SignatureInvalid DidNotResolved
          | Some None \<Rightarrow> SignatureInvalid DidNotResolved
          | Some (Some didDoc) \<Rightarrow>
              (case selectVerificationMethod (case dd_verificationMethod didDoc of None \<Rightarrow> [] | Some methods \<Rightarrow> methods) kid of
                 None \<Rightarrow> SignatureInvalid MethodNotFound
               | Some vm \<Rightarrow>
                   (case verificationMethodJwk vm of
                      None \<Rightarrow> SignatureInvalid NoUsableKey
                    | Some publicKeyJwk \<Rightarrow>
                        (case jose_importJWK jose publicKeyJwk of
                           None \<Rightarrow> SignatureInvalid EnvelopeInvalid
                         | Some key \<Rightarrow>
                             (case isSmallOrderEd25519CryptoKey jose key of
                                None \<Rightarrow> SignatureInvalid EnvelopeInvalid
                              | Some True \<Rightarrow> SignatureInvalid SmallOrderKey
                              | Some False \<Rightarrow>
                                  if jose_compactVerify jose jwt key then SignatureValid else SignatureInvalid EnvelopeInvalid))))))"

subsection \<open>Facts about the checks\<close>

lemma combine_valid: "vr_valid (combineVerificationResult sig status) \<longleftrightarrow> sig = SignatureValid \<and> status = StatusLive"
  by (simp add: combineVerificationResult_def Let_def)

lemma basicFailed_invalid [simp]: "\<not> vr_valid (basicFailed e)"
  by (simp add: basicFailed_def)

lemma status_live: "checkCredentialStatus status resolver = StatusLive \<longleftrightarrow> (\<exists>r. resolver = Some r \<and> r status = Some False)"
  by (auto simp: checkCredentialStatus_def split: option.splits)

lemma signature_valid_verifier:
  assumes "verifyCredentialSignature vc resolver verifier = SignatureValid"
  obtains resolve check didDoc vm jwk reason where "resolver = Some resolve" and "verifier = Some check"
    and "isSupportedCredentialProofType (jsGet (jsGet vc ''proof'') ''type'')"
    and "findVerificationMethod didDoc (jsGet (jsGet vc ''proof'') ''verificationMethod'') = Some vm"
    and "verificationMethodJwk vm = Some jwk" and "check vc jwk = Some (True, reason)"
    and "resolve (if isText (jsGet vc ''issuer'') then jsGet vc ''issuer'' else jsGet (jsGet vc ''issuer'') ''id'') = Some (Some didDoc)"
  using assms unfolding verifyCredentialSignature_def Let_def
  by (auto split: if_splits option.splits)

end
