(* ===== verification/Vc_Verifier.thy ===== *)
theory Vc_Verifier
  imports Vc_Checks Ttl_Cache
begin

text \<open>
  \<open>src/delegation/vc-verifier.ts\<close>: the delegation credential verifier, which orders the basic checks, the
  signature and the status, and keeps a cache of signature results. Ports, options and clock reads are
  arguments of a call; what other calls do to the cache while a signature is being verified is the argument
  \<open>between\<close>. The order of the two awaited promises does not matter: only the signature touches the cache.
\<close>

subsection \<open>Configuration and options\<close>

record 'k vcPorts =
  vp_didResolver :: "issuerResolver option"
  vp_statusListResolver :: "statusResolver option"
  vp_signatureVerifier :: "credentialVerifier option"
  vp_jose :: "'k joseOps"
  vp_jsonParse :: jsonParser
  vp_dateParse :: "jsstring \<Rightarrow> int option"
  vp_toText :: "jsvalue \<Rightarrow> jsstring option"

record vcOptions =
  vo_skipCache :: bool
  vo_skipSignature :: bool
  vo_skipStatus :: bool
  vo_didResolver :: "issuerResolver option"
  vo_statusListResolver :: "statusResolver option"

definition defaultOptions :: vcOptions where
  "defaultOptions = \<lparr>vo_skipCache = False, vo_skipSignature = False, vo_skipStatus = False,
     vo_didResolver = None, vo_statusListResolver = None\<rparr>"

record vcClock =
  vk_basic :: basicClock
  vk_jwtMs :: int
  vk_readMs :: int
  vk_storeMs :: int

type_synonym signatureCache = "(nat, signatureResult) ttlCache"

text \<open>\<open>cacheTtl\<close> and \<open>maxCacheSize\<close>, with their defaults.\<close>

definition newSignatureCache :: "int option \<Rightarrow> int option \<Rightarrow> signatureCache" where
  "newSignatureCache ttl bound = newTtlCache (case ttl of None \<Rightarrow> 60000 | Some t \<Rightarrow> t) (case bound of None \<Rightarrow> 1000 | Some n \<Rightarrow> n)"

fun orElse :: "'a option \<Rightarrow> 'a option \<Rightarrow> 'a option" where
  "orElse (Some x) _ = Some x"
| "orElse None y = y"

subsection \<open>Cache keys\<close>

definition cacheAllowed :: "vcOptions \<Rightarrow> bool" where
  "cacheAllowed opts \<longleftrightarrow> \<not> vo_skipCache opts \<and> \<not> vo_skipSignature opts \<and>
     vo_didResolver opts = None \<and> vo_statusListResolver opts = None"

text \<open>\<open>vc.id ?? ''\<close> inside a template. The text of an id that is not a string is the parameter \<open>toText\<close>, which may throw.\<close>

definition idText :: "(jsvalue \<Rightarrow> jsstring option) \<Rightarrow> jsvalue \<Rightarrow> jsstring option" where
  "idText toText vc =
     (if vc \<in> {VNull, VUndefined} then None
      else (case jsGet vc ''id'' of VNull \<Rightarrow> Some [] | VUndefined \<Rightarrow> Some [] | VString s \<Rightarrow> Some s | v \<Rightarrow> toText v))"

definition keyPrefix :: "string \<Rightarrow> jsstring \<Rightarrow> jsstring" where
  "keyPrefix mode vcId = units mode @ 0 # vcId @ [0]"

definition cacheKeyForCredential :: "(jsvalue \<Rightarrow> jsstring option) \<Rightarrow> jsvalue \<Rightarrow> vcOptions \<Rightarrow> jsstring option" where
  "cacheKeyForCredential toText vc opts =
     (if \<not> cacheAllowed opts then None
      else (case idText toText vc of
          None \<Rightarrow> None
        | Some vcId \<Rightarrow> (case canonicalizeJson vc of Inl _ \<Rightarrow> None | Inr t \<Rightarrow> Some (keyPrefix ''di'' vcId @ t))))"

text \<open>The outer option is a throw: this key is not built inside a \<open>try\<close>.\<close>

definition cacheKeyForJwt :: "(jsvalue \<Rightarrow> jsstring option) \<Rightarrow> string \<Rightarrow> jsvalue \<Rightarrow> vcOptions \<Rightarrow> jsstring option option" where
  "cacheKeyForJwt toText jwt vc opts =
     (if \<not> cacheAllowed opts then Some None
      else map_option (\<lambda>vcId. Some (keyPrefix ''jwt'' vcId @ units jwt)) (idText toText vc))"

subsection \<open>Verification\<close>

definition cachedSignature ::
  "jsstring option \<Rightarrow> signatureResult \<Rightarrow> vcClock \<Rightarrow> (signatureCache \<Rightarrow> signatureCache) \<Rightarrow> signatureCache \<Rightarrow>
   (signatureResult \<times> bool) \<times> signatureCache" where
  "cachedSignature cacheKey run clock between cache = (case cacheKey of
       None \<Rightarrow> ((run, False), between cache)
     | Some k \<Rightarrow>
         (case cacheGet (vk_readMs clock) k cache of
            (Some hit, cache') \<Rightarrow> ((hit, True), cache')
          | (None, cache') \<Rightarrow>
              ((run, False), if run = SignatureValid then cacheSet (vk_storeMs clock) k run (between cache') else between cache')))"

definition statusOf :: "'k vcPorts \<Rightarrow> vcOptions \<Rightarrow> jsvalue \<Rightarrow> statusCheck" where
  "statusOf ports opts vc =
     (if \<not> vo_skipStatus opts \<and> valTruthy (jsGet vc ''credentialStatus'')
      then checkCredentialStatus (jsGet vc ''credentialStatus'') (orElse (vo_statusListResolver opts) (vp_statusListResolver ports))
      else StatusLive)"

definition finalizeVerification :: "signatureResult \<times> bool \<Rightarrow> statusCheck \<Rightarrow> vcVerification" where
  "finalizeVerification signature status =
     (let result = combineVerificationResult (fst signature) status
      in if snd signature then result\<lparr>vr_cached := True\<rparr> else result)"

definition credentialSignature :: "'k vcPorts \<Rightarrow> vcOptions \<Rightarrow> jsvalue \<Rightarrow> signatureResult" where
  "credentialSignature ports opts vc =
     (if vo_skipSignature opts then SignatureValid
      else verifyCredentialSignature vc (orElse (vo_didResolver opts) (vp_didResolver ports)) (vp_signatureVerifier ports))"

definition verifyDelegationCredential ::
  "'k vcPorts \<Rightarrow> vcOptions \<Rightarrow> vcClock \<Rightarrow> (signatureCache \<Rightarrow> signatureCache) \<Rightarrow> jsvalue \<Rightarrow> signatureCache \<Rightarrow>
   vcVerification \<times> signatureCache" where
  "verifyDelegationCredential ports opts clock between vc cache =
     (case validateBasicProperties (vp_dateParse ports) (vk_basic clock) True vc of
        Some e \<Rightarrow> (basicFailed e, cache)
      | None \<Rightarrow>
          (case cachedSignature (cacheKeyForCredential (vp_toText ports) vc opts) (credentialSignature ports opts vc) clock between cache of
             (signature, cache') \<Rightarrow> (finalizeVerification signature (statusOf ports opts vc), cache')))"

definition envelopeSignature :: "'k vcPorts \<Rightarrow> vcOptions \<Rightarrow> string \<Rightarrow> preparedVcJwt \<Rightarrow> signatureResult" where
  "envelopeSignature ports opts jwt prepared =
     (if vo_skipSignature opts then SignatureValid
      else verifyVcJwtSignature (vp_jose ports) jwt (pw_issuerDid prepared) (pw_kid prepared)
        (orElse (vo_didResolver opts) (vp_didResolver ports)))"

definition verifyDelegationJwt ::
  "'k vcPorts \<Rightarrow> vcOptions \<Rightarrow> vcClock \<Rightarrow> (signatureCache \<Rightarrow> signatureCache) \<Rightarrow> string \<Rightarrow> signatureCache \<Rightarrow>
   vcVerification option \<times> signatureCache" where
  "verifyDelegationJwt ports opts clock between jwt cache =
     (case prepareVcJwtCredential (vp_jsonParse ports) (vp_dateParse ports) (vk_jwtMs clock) (vk_basic clock) jwt of
        Inl e \<Rightarrow> (Some (basicFailed e), cache)
      | Inr prepared \<Rightarrow>
          (case cacheKeyForJwt (vp_toText ports) jwt (pw_vc prepared) opts of
             None \<Rightarrow> (None, cache)
           | Some cacheKey \<Rightarrow>
               (case cachedSignature cacheKey (envelopeSignature ports opts jwt prepared) clock between cache of
                  (signature, cache') \<Rightarrow> (Some (finalizeVerification signature (statusOf ports opts (pw_vc prepared))), cache'))))"

definition clearCache :: "signatureCache \<Rightarrow> signatureCache" where
  "clearCache cache = cacheClear cache"

definition clearCacheEntry :: "jsstring \<Rightarrow> signatureCache \<Rightarrow> signatureCache" where
  "clearCacheEntry vcId cache = cacheDeleteWhere (\<lambda>key. prefix (keyPrefix ''di'' vcId) key \<or> prefix (keyPrefix ''jwt'' vcId) key) cache"

subsection \<open>Cache keys name one credential\<close>

lemma quoteUnit_no_nul: "0 \<notin> set (quoteUnit u)"
proof -
  have "hexUnit d \<noteq> 0" if "d < 16" for d
  proof -
    have "list_all (\<lambda>d. hexUnit d \<noteq> 0) [0..<16]" by code_simp
    with that show ?thesis by (simp add: list_all_iff)
  qed
  from this [of "u div 16"] this [of "u mod 16"] show ?thesis by (auto simp: quoteUnit_def split: if_splits)
qed

lemma quoteJson_no_nul: "0 \<notin> set (quoteJson s)"
  using quoteUnit_no_nul by (auto simp: quoteJson_def)

lemma units_no_nul: "CHR 0x00 \<notin> set s \<Longrightarrow> 0 \<notin> set (units s)"
proof -
  have "(of_char c :: nat) = of_char (CHR 0x00) \<Longrightarrow> c = CHR 0x00" for c by (simp only: of_char_eq_iff)
  then have "(of_char c :: nat) = 0 \<Longrightarrow> c = CHR 0x00" for c by simp
  then show "CHR 0x00 \<notin> set s \<Longrightarrow> ?thesis" by (auto simp: units_def)
qed

lemma comma_no_nul: "0 \<notin> set (comma first)"
  by (simp add: comma_def)

lemma writeJson_no_nul:
  "numbersOk j \<Longrightarrow> 0 \<notin> set (writeJson j)"
  "\<forall>j\<in>set js. numbersOk j \<Longrightarrow> 0 \<notin> set (writeElements first js)"
  "\<forall>m\<in>set ms. numbersOk (snd m) \<Longrightarrow> 0 \<notin> set (writeMembers first ms)"
proof (induction j and first js and first ms rule: writeJson_writeElements_writeMembers.induct)
  case (3 n)
  then show ?case using number_units [of n] by (auto simp: numberUnit_def list_all_iff)
qed (use quoteJson_no_nul comma_no_nul in \<open>auto simp: units_no_nul\<close>)

text \<open>The last NUL of a key ends its id, whatever the id holds.\<close>

lemma last_nul_splits:
  assumes "xs @ 0 # t = xs' @ 0 # t'" and "0 \<notin> set t" and "0 \<notin> set t'"
  shows "xs = xs' \<and> t = (t' :: jsstring)"
proof -
  have "rev t @ 0 # rev xs = rev t' @ 0 # rev xs'" using arg_cong [OF assms(1), of rev] by simp
  from append_sep_inject [OF this] assms(2,3) show ?thesis by simp
qed

lemma keyPrefix_append: "keyPrefix mode vcId @ t = (units mode @ 0 # vcId) @ 0 # t"
  by (simp add: keyPrefix_def)

text \<open>The numbers of a value carry the texts numbers have.\<close>

definition numbersPrinted :: "jsvalue \<Rightarrow> bool" where
  "numbersPrinted v = (case denote v of None \<Rightarrow> True | Some j \<Rightarrow> numbersOk j)"

lemma di_key_text:
  assumes "cacheKeyForCredential toText vc opts = Some k"
  obtains j vcId where "denote vc = Some j" and "k = (units ''di'' @ 0 # vcId) @ 0 # writeJson j" and "idText toText vc = Some vcId"
    and "cacheAllowed opts"
  using assms unfolding cacheKeyForCredential_def
  by (auto simp: keyPrefix_append canonical_refines split: if_splits option.splits sum.splits)

lemma di_key_names_credential:
  assumes "cacheKeyForCredential toText vc opts = Some k" and "cacheKeyForCredential toText' vc' opts' = Some k"
    and "numbersPrinted vc" and "numbersPrinted vc'"
  shows "denote vc = denote vc'"
proof -
  obtain j i where j: "denote vc = Some j" "k = (units ''di'' @ 0 # i) @ 0 # writeJson j"
    using assms(1) by (rule di_key_text)
  obtain j' i' where j': "denote vc' = Some j'" "k = (units ''di'' @ 0 # i') @ 0 # writeJson j'"
    using assms(2) by (rule di_key_text)
  have ok: "numbersOk j" "numbersOk j'" using assms(3,4) j(1) j'(1) by (simp_all add: numbersPrinted_def)
  have "writeJson j = writeJson j'"
    using last_nul_splits [OF trans [OF j(2) [symmetric] j'(2)] writeJson_no_nul(1) [OF ok(1)] writeJson_no_nul(1) [OF ok(2)]] by (rule conjunct2)
  then show ?thesis using j(1) j'(1) writeJson_inj [OF ok] by simp
qed

lemma jwt_key_text:
  "cacheKeyForJwt toText jwt vc opts = Some (Some k) \<longleftrightarrow>
     cacheAllowed opts \<and> (\<exists>vcId. idText toText vc = Some vcId \<and> k = keyPrefix ''jwt'' vcId @ units jwt)"
  by (auto simp: cacheKeyForJwt_def)

lemma di_key_not_jwt: "(units ''di'' @ 0 # i) @ t \<noteq> keyPrefix ''jwt'' i' @ t'"
  by (simp add: keyPrefix_def units_def)

subsection \<open>What the cache has seen\<close>

text \<open>
  The cache accesses of any number of calls, in the order they happen: a lookup, and later the store of a
  signature that verified, which may come after the accesses of other calls.
\<close>

datatype 'k verifierEvent =
    Lookup int jsstring
  | StoreCredential "'k vcPorts" vcOptions vcClock jsvalue
  | StoreJwt "'k vcPorts" vcOptions vcClock string
  | ClearAll
  | ClearEntry jsstring

definition preparedOf :: "'k vcPorts \<Rightarrow> vcClock \<Rightarrow> string \<Rightarrow> basicFailure + preparedVcJwt" where
  "preparedOf ports clock jwt = prepareVcJwtCredential (vp_jsonParse ports) (vp_dateParse ports) (vk_jwtMs clock) (vk_basic clock) jwt"

definition storeOps :: "jsstring option \<Rightarrow> signatureResult \<Rightarrow> int \<Rightarrow> (nat, signatureResult) cacheOp list" where
  "storeOps cacheKey run t = (case cacheKey of None \<Rightarrow> [] | Some k \<Rightarrow> if run = SignatureValid then [CacheSet t k run] else [])"

fun eventOps :: "'k verifierEvent \<Rightarrow> (nat, signatureResult) cacheOp list" where
  "eventOps (Lookup t k) = [CacheGet t k]"
| "eventOps (StoreCredential ports opts clock vc) =
     storeOps (cacheKeyForCredential (vp_toText ports) vc opts) (credentialSignature ports opts vc) (vk_storeMs clock)"
| "eventOps (StoreJwt ports opts clock jwt) = (case preparedOf ports clock jwt of
       Inl e \<Rightarrow> []
     | Inr prepared \<Rightarrow> (case cacheKeyForJwt (vp_toText ports) jwt (pw_vc prepared) opts of
           None \<Rightarrow> []
         | Some cacheKey \<Rightarrow> storeOps cacheKey (envelopeSignature ports opts jwt prepared) (vk_storeMs clock)))"
| "eventOps ClearAll = [CacheClear]"
| "eventOps (ClearEntry vcId) =
     [CacheDeleteWhere (\<lambda>key. prefix (keyPrefix ''di'' vcId) key \<or> prefix (keyPrefix ''jwt'' vcId) key)]"

definition applyEvents :: "'k verifierEvent list \<Rightarrow> signatureCache \<Rightarrow> signatureCache" where
  "applyEvents events cache = fold runCacheOp (concat (map eventOps events)) cache"

lemma applyEvents_append: "applyEvents (es @ fs) c = applyEvents fs (applyEvents es c)"
  by (simp add: applyEvents_def)

lemma cachedSignature_events:
  fixes others :: "'k verifierEvent list"
  assumes "eventOps store = storeOps cacheKey run (vk_storeMs clock)"
  shows "\<exists>before after. set before \<subseteq> range (Lookup (vk_readMs clock)) \<and> set after \<subseteq> {store} \<and>
    snd (cachedSignature cacheKey run clock (applyEvents others) c) \<in> {applyEvents before c, applyEvents (before @ others @ after) c}"
proof (cases cacheKey)
  case None
  then show ?thesis by (intro exI [of _ "[]"]) (simp add: cachedSignature_def)
next
  case (Some k)
  then have "snd (cachedSignature cacheKey run clock (applyEvents others) c) \<in>
      {applyEvents [Lookup (vk_readMs clock) k :: 'k verifierEvent] c, applyEvents ([Lookup (vk_readMs clock) k] @ others @ [store]) c}"
    using assms by (auto simp: cachedSignature_def applyEvents_def storeOps_def split: option.splits prod.splits)
  then show ?thesis by (intro exI [of _ "[Lookup (vk_readMs clock) k]"] exI [of _ "[store]"]) auto
qed

text \<open>A call changes the cache only by such accesses, so a run of overlapping calls is a sequence of events.\<close>

theorem verifyDelegationCredential_events:
  fixes ports :: "'k vcPorts" and others :: "'k verifierEvent list"
  shows "\<exists>before after. set before \<subseteq> range (Lookup (vk_readMs clock)) \<and> set after \<subseteq> {StoreCredential ports opts clock vc} \<and>
    snd (verifyDelegationCredential ports opts clock (applyEvents others) vc c) \<in> {applyEvents before c, applyEvents (before @ others @ after) c}"
proof (cases "validateBasicProperties (vp_dateParse ports) (vk_basic clock) True vc")
  case None
  have "eventOps (StoreCredential ports opts clock vc) =
      storeOps (cacheKeyForCredential (vp_toText ports) vc opts) (credentialSignature ports opts vc) (vk_storeMs clock)" by simp
  from cachedSignature_events [OF this] None show ?thesis by (simp add: verifyDelegationCredential_def split_beta)
next
  case (Some e)
  then show ?thesis by (intro exI [of _ "[]"]) (simp add: verifyDelegationCredential_def applyEvents_def)
qed

theorem verifyDelegationJwt_events:
  fixes ports :: "'k vcPorts" and others :: "'k verifierEvent list"
  shows "\<exists>before after. set before \<subseteq> range (Lookup (vk_readMs clock)) \<and> set after \<subseteq> {StoreJwt ports opts clock jwt} \<and>
    snd (verifyDelegationJwt ports opts clock (applyEvents others) jwt c) \<in> {applyEvents before c, applyEvents (before @ others @ after) c}"
proof (cases "preparedOf ports clock jwt")
  case (Inl e)
  then show ?thesis by (intro exI [of _ "[]"]) (simp add: verifyDelegationJwt_def preparedOf_def applyEvents_def)
next
  case (Inr prepared)
  show ?thesis
  proof (cases "cacheKeyForJwt (vp_toText ports) jwt (pw_vc prepared) opts")
    case None
    then show ?thesis using Inr by (intro exI [of _ "[]"]) (simp add: verifyDelegationJwt_def preparedOf_def applyEvents_def)
  next
    case (Some cacheKey)
    then have "eventOps (StoreJwt ports opts clock jwt) = storeOps cacheKey (envelopeSignature ports opts jwt prepared) (vk_storeMs clock)"
      using Inr by simp
    from cachedSignature_events [OF this] Some Inr show ?thesis by (simp add: verifyDelegationJwt_def preparedOf_def split_beta)
  qed
qed

subsection \<open>A cached signature was verified\<close>

lemma lastStored_set: "fold (lastStored k) ops old = Some (v, t) \<Longrightarrow> old = Some (v, t) \<or> CacheSet t k v \<in> set ops"
proof (induction ops arbitrary: old)
  case (Cons op ops)
  then have "lastStored k op old = Some (v, t) \<or> CacheSet t k v \<in> set ops" by simp
  then show ?case by (cases op) (auto split: if_splits)
qed simp

lemma disabled_step:
  assumes "tc_ttlMs c \<le> 0 \<or> tc_maxEntries c \<le> 0" and "tc_entries c = []"
  shows "tc_entries (runCacheOp op c) = []"
proof (cases op)
  case (CacheSet t k v)
  then show ?thesis using assms by (auto simp: cacheSet_def)
next
  case (CacheGet t k)
  then show ?thesis using assms by (simp add: cacheGet_def)
next
  case (CacheDeleteWhere p)
  then show ?thesis using assms by (simp add: cacheDeleteWhere_def)
qed (simp_all add: assms cacheDelete_def cacheClear_def)

lemma disabled_cache_empty:
  "tc_ttlMs c \<le> 0 \<or> tc_maxEntries c \<le> 0 \<Longrightarrow> tc_entries c = [] \<Longrightarrow> tc_entries (fold runCacheOp ops c) = []"
  by (induction ops arbitrary: c) (simp_all add: disabled_step runCacheOp_config)

lemma hit_was_stored:
  assumes "fst (cacheGet now k (applyEvents events (newTtlCache ttl n))) = Some v"
  obtains t where "CacheSet t k v \<in> set (concat (map eventOps events))" and "now \<le> t + ttl"
proof (cases "0 < ttl \<and> 0 < n")
  case True
  then obtain t where t: "fold (lastStored k) (concat (map eventOps events)) None = Some (v, t)" "now \<le> t + ttl"
    using runCache_serves_fresh [OF conjunct1 conjunct2 assms [unfolded applyEvents_def]] by blast
  from lastStored_set [OF t(1)] have "CacheSet t k v \<in> set (concat (map eventOps events))" by simp
  then show thesis using t(2) by (rule that)
next
  case False
  then have "tc_entries (applyEvents events (newTtlCache ttl n)) = []"
    unfolding applyEvents_def by (intro disabled_cache_empty) (auto simp: newTtlCache_def)
  with assms show thesis by (simp add: cacheGet_def)
qed

lemma storeOps_set:
  "CacheSet t k v \<in> set (storeOps cacheKey run t') \<longleftrightarrow> cacheKey = Some k \<and> run = SignatureValid \<and> v = run \<and> t = t'"
  by (auto simp: storeOps_def split: option.splits)

lemma stored_jwt:
  assumes "CacheSet t k v \<in> set (eventOps (StoreJwt ports opts clock jwt))"
  obtains prepared vcId where "preparedOf ports clock jwt = Inr prepared" and "k = keyPrefix ''jwt'' vcId @ units jwt"
    and "envelopeSignature ports opts jwt prepared = SignatureValid" and "v = SignatureValid" and "t = vk_storeMs clock"
    and "cacheAllowed opts"
proof -
  obtain prepared where p: "preparedOf ports clock jwt = Inr prepared" using assms by (cases "preparedOf ports clock jwt") simp_all
  then obtain cacheKey where "cacheKeyForJwt (vp_toText ports) jwt (pw_vc prepared) opts = Some cacheKey"
    using assms by (cases "cacheKeyForJwt (vp_toText ports) jwt (pw_vc prepared) opts") simp_all
  then show thesis using that p assms by (auto simp: storeOps_set jwt_key_text)
qed

lemma di_hit:
  assumes "CacheSet t k v \<in> set (eventOps e)" and "cacheKeyForCredential toText vc opts = Some k"
  obtains ports' opts' clock' vc' where "e = StoreCredential ports' opts' clock' vc'" and "t = vk_storeMs clock'" and "v = SignatureValid"
    and "cacheKeyForCredential (vp_toText ports') vc' opts' = Some k" and "credentialSignature ports' opts' vc' = SignatureValid"
proof (cases e)
  case (StoreCredential ports' opts' clock' vc')
  with assms(1) show thesis using that by (simp add: storeOps_set)
next
  case (StoreJwt ports' opts' clock' jwt')
  then have "\<exists>i' t'. k = keyPrefix ''jwt'' i' @ t'"
    using assms(1) by (metis stored_jwt)
  moreover obtain i j where "k = (units ''di'' @ 0 # i) @ 0 # writeJson j" using assms(2) by (rule di_key_text)
  ultimately have False using di_key_not_jwt by metis
  then show thesis ..
qed (use assms(1) in simp_all)

lemma cached_credential:
  assumes "fst (cachedSignature (cacheKeyForCredential toText vc opts) run clock between (applyEvents events (newTtlCache ttl n))) = (sig, cached)"
  shows "sig = run \<and> \<not> cached \<or> cached \<and> sig = SignatureValid \<and> (\<exists>ports' opts' clock' vc' k.
    StoreCredential ports' opts' clock' vc' \<in> set events \<and> cacheKeyForCredential toText vc opts = Some k \<and>
    cacheKeyForCredential (vp_toText ports') vc' opts' = Some k \<and>
    credentialSignature ports' opts' vc' = SignatureValid \<and> vk_readMs clock \<le> vk_storeMs clock' + ttl)"
proof (cases "cacheKeyForCredential toText vc opts")
  case (Some k)
  show ?thesis
  proof (cases "fst (cacheGet (vk_readMs clock) k (applyEvents events (newTtlCache ttl n)))")
    case None
    then show ?thesis using assms Some by (auto simp: cachedSignature_def split: prod.splits)
  next
    case hit: (Some v)
    then have v: "sig = v" "cached" using assms Some by (auto simp: cachedSignature_def split: prod.splits)
    obtain t where t: "CacheSet t k v \<in> set (concat (map eventOps events))" "vk_readMs clock \<le> t + ttl" using hit by (rule hit_was_stored)
    then obtain e where e: "e \<in> set events" "CacheSet t k v \<in> set (eventOps e)" by auto
    from e(2) Some show ?thesis by (rule di_hit) (use v t(2) e(1) Some in blast)
  qed
qed (use assms in \<open>simp add: cachedSignature_def\<close>)

lemma finalize_valid: "vr_valid (finalizeVerification signature status) \<longleftrightarrow> fst signature = SignatureValid \<and> status = StatusLive"
  by (simp add: finalizeVerification_def Let_def combine_valid)

text \<open>\<open>credentialStatus\<close> is present and the resolver does not say, now, that the credential is live.\<close>

definition notRevokedNow :: "'k vcPorts \<Rightarrow> vcOptions \<Rightarrow> jsvalue \<Rightarrow> bool" where
  "notRevokedNow ports opts vc \<longleftrightarrow> \<not> valTruthy (jsGet vc ''credentialStatus'') \<or>
     (\<exists>resolver. orElse (vo_statusListResolver opts) (vp_statusListResolver ports) = Some resolver \<and>
        resolver (jsGet vc ''credentialStatus'') = Some False)"

lemma statusOf_live: "\<not> vo_skipStatus opts \<Longrightarrow> statusOf ports opts vc = StatusLive \<longleftrightarrow> notRevokedNow ports opts vc"
  by (auto simp: statusOf_def notRevokedNow_def status_live)

lemma accepted_credential:
  fixes events :: "'k verifierEvent list" and ports :: "'k vcPorts"
  assumes "vr_valid (fst (verifyDelegationCredential ports opts clock between vc (applyEvents events (newTtlCache ttl n))))"
    and "numbersPrinted vc" and "\<And>ports' opts' clock' vc'. StoreCredential ports' opts' clock' vc' \<in> set events \<Longrightarrow>
      numbersPrinted vc'"
  shows "validateBasicProperties (vp_dateParse ports) (vk_basic clock) True vc = None \<and> (vo_skipStatus opts \<or> notRevokedNow ports opts vc) \<and>
    (credentialSignature ports opts vc = SignatureValid \<or>
     (\<exists>ports' opts' clock' vc'. StoreCredential ports' opts' clock' vc' \<in> set events \<and> denote vc' = denote vc \<and>
        \<not> vo_skipSignature opts' \<and> vo_didResolver opts' = None \<and> credentialSignature ports' opts' vc' = SignatureValid \<and>
        vk_readMs clock \<le> vk_storeMs clock' + ttl))"
proof -
  let ?c = "applyEvents events (newTtlCache ttl n)"
  have basic: "validateBasicProperties (vp_dateParse ports) (vk_basic clock) True vc = None"
    using assms(1) by (auto simp: verifyDelegationCredential_def split: option.splits)
  obtain sig cached where hit: "fst (cachedSignature (cacheKeyForCredential (vp_toText ports) vc opts) (credentialSignature ports opts vc) clock between ?c) = (sig, cached)"
    by (metis surj_pair)
  then have ok: "sig = SignatureValid" "statusOf ports opts vc = StatusLive"
    using assms(1) basic by (auto simp: verifyDelegationCredential_def finalize_valid split: prod.splits)
  from cached_credential [OF hit] ok(1) consider "credentialSignature ports opts vc = SignatureValid"
    | ports' opts' clock' vc' k where "StoreCredential ports' opts' clock' vc' \<in> set events"
      "cacheKeyForCredential (vp_toText ports) vc opts = Some k" "cacheKeyForCredential (vp_toText ports') vc' opts' = Some k"
      "credentialSignature ports' opts' vc' = SignatureValid" "vk_readMs clock \<le> vk_storeMs clock' + ttl" by blast
  then have "credentialSignature ports opts vc = SignatureValid \<or>
     (\<exists>ports' opts' clock' vc'. StoreCredential ports' opts' clock' vc' \<in> set events \<and> denote vc' = denote vc \<and>
        \<not> vo_skipSignature opts' \<and> vo_didResolver opts' = None \<and> credentialSignature ports' opts' vc' = SignatureValid \<and>
        vk_readMs clock \<le> vk_storeMs clock' + ttl)"
  proof cases
    case (2 ports' opts' clock' vc' k)
    have "denote vc' = denote vc" by (rule di_key_names_credential [OF 2(3,2)]) (use assms(2,3) 2(1) in blast)+
    moreover have "cacheAllowed opts'" using 2(3) by (rule di_key_text)
    ultimately show ?thesis using 2(1,4,5) unfolding cacheAllowed_def by blast
  qed simp
  with basic ok(2) show ?thesis using statusOf_live by blast
qed

text \<open>C11: a warm cache accepts nothing a fresh verification would not have. Whatever calls ran before and at the same
  time, a credential that is accepted without skipping a check passes the basic checks now, is not revoked now, and its
  signature verifies now or verified, no longer than the cache lifetime ago, for a credential denoting the same JSON value.\<close>

theorem accepted_credential_was_verified:
  fixes events :: "'k verifierEvent list" and ports :: "'k vcPorts"
  assumes "vr_valid (fst (verifyDelegationCredential ports opts clock between vc (applyEvents events (newTtlCache ttl n))))"
    and "\<not> vo_skipSignature opts" and "\<not> vo_skipStatus opts"
    and "numbersPrinted vc" and "\<And>ports' opts' clock' vc'. StoreCredential ports' opts' clock' vc' \<in> set events \<Longrightarrow>
      numbersPrinted vc'"
  shows "validateBasicProperties (vp_dateParse ports) (vk_basic clock) True vc = None \<and> notRevokedNow ports opts vc \<and>
    (credentialSignature ports opts vc = SignatureValid \<or>
     (\<exists>ports' opts' clock' vc'. StoreCredential ports' opts' clock' vc' \<in> set events \<and> denote vc' = denote vc \<and>
        \<not> vo_skipSignature opts' \<and> vo_didResolver opts' = None \<and> credentialSignature ports' opts' vc' = SignatureValid \<and>
        vk_readMs clock \<le> vk_storeMs clock' + ttl))"
  using accepted_credential [OF assms(1,4,5)] assms(3) by simp

definition exampleDelegation :: jsvalue where
  "exampleDelegation = plainObject [(units ''id'', jsText ''del-1''), (units ''issuerDid'', jsText ''did:i''),
     (units ''subjectDid'', jsText ''did:s''), (units ''constraints'', plainObject [(units ''notAfter'', VNumber (NumInt 2000)),
       (units ''scopes'', VArray [Data (jsText ''files:read'')])]),
     (units ''status'', jsText ''active'')]"

definition exampleVc :: jsvalue where
  "exampleVc = plainObject [(units ''@context'', VArray [Data (jsText W3C_CONTEXT)]), (units ''id'', jsText ''urn:1''),
     (units ''type'', VArray [Data (jsText ''VerifiableCredential''), Data (jsText ''DelegationCredential'')]),
     (units ''issuer'', jsText ''did:i''), (units ''issuanceDate'', jsText ''2024''),
     (units ''credentialSubject'', plainObject [(units ''id'', jsText ''did:s''), (units ''delegation'', exampleDelegation)]),
     (units ''credentialStatus'', plainObject [(units ''type'', jsText ''BitstringStatusListEntry'')]),
     (units ''proof'', plainObject [(units ''type'', jsText ''DataIntegrityProof''), (units ''verificationMethod'', jsText ''did:i#k'')])]"

definition exampleMethod :: verificationMethod where
  "exampleMethod = \<lparr>vm_id = ''did:i#k'', vm_type = ''JsonWebKey2020'', vm_controller = ''did:i'',
     vm_publicKeyJwk = Some \<lparr>jwk_kty = Some ''OKP'', jwk_crv = Some ''Ed25519'', jwk_x = Some ''AAAA'', jwk_kid = None\<rparr>,
     vm_publicKeyBase58 = None, vm_publicKeyMultibase = None\<rparr>"

definition examplePorts :: "bool \<Rightarrow> unit vcPorts" where
  "examplePorts online = \<lparr>
     vp_didResolver = Some (\<lambda>did. if online \<and> did = jsText ''did:i'' then Some (Some \<lparr>dd_id = ''did:i'', dd_alsoKnownAs = None,
        dd_verificationMethod = Some [exampleMethod], dd_authentication = None, dd_assertionMethod = None\<rparr>) else None),
     vp_statusListResolver = Some (\<lambda>_. Some False),
     vp_signatureVerifier = Some (\<lambda>_ _. Some (True, None)),
     vp_jose = \<lparr>jose_importJWK = (\<lambda>_. Some ()), jose_compactVerify = (\<lambda>_ _. online), jose_exportRaw = (\<lambda>_. Some None)\<rparr>,
     vp_jsonParse = (\<lambda>bs. Some (if bs = [] then plainObject [(units ''alg'', jsText ''EdDSA'')] else plainObject [(units ''iss'', jsText ''did:i''), (units ''vc'', exampleVc)])),
     vp_dateParse = (\<lambda>_. None), vp_toText = (\<lambda>_. None)\<rparr>"

definition exampleClock :: "int \<Rightarrow> vcClock" where
  "exampleClock t = \<lparr>vk_basic = \<lparr>bk_expirationMs = t, bk_notAfterMs = t, bk_notBeforeMs = t\<rparr>, vk_jwtMs = t, vk_readMs = t, vk_storeMs = t\<rparr>"

lemma example_basic: "validateBasicProperties (vp_dateParse (examplePorts b)) (vk_basic (exampleClock 1000000)) True exampleVc = None"
  by code_simp

lemma exampleVc_signature: "credentialSignature (examplePorts True) defaultOptions exampleVc = SignatureValid"
  by code_simp

lemma example_jwt: "preparedOf (examplePorts b) (exampleClock 1000000) ''.e30.YQ'' = Inr \<lparr>pw_vc = exampleVc, pw_issuerDid = jsText ''did:i'', pw_kid = None\<rparr>"
  by code_simp

lemma example_envelope: "envelopeSignature (examplePorts True) defaultOptions ''.e30.YQ'' \<lparr>pw_vc = exampleVc, pw_issuerDid = jsText ''did:i'', pw_kid = None\<rparr> = SignatureValid"
  by code_simp

text \<open>A value with a canonical form, and numbers as they are printed.\<close>

definition canonicalisable :: "jsvalue \<Rightarrow> bool" where
  "canonicalisable v \<longleftrightarrow> (\<exists>j. denote v = Some j \<and> numbersOk j)"

lemma canonicalisable_text: "canonicalisable (jsText s)"
  by (simp add: canonicalisable_def units_encodable)

lemma canonicalisable_int: "\<bar>i\<bar> \<le> int MAX_SAFE_INTEGER \<Longrightarrow> canonicalisable (VNumber (NumInt i))"
  by (simp add: canonicalisable_def numberText_def)

lemma canonicalisable_array:
  assumes "\<And>v. v \<in> set vs \<Longrightarrow> canonicalisable v"
  shows "canonicalisable (VArray (map Data vs))"
proof -
  have "\<exists>js. those (map denote vs) = Some js \<and> (\<forall>j\<in>set js. numbersOk j)"
    using assms
  proof (induction vs)
    case (Cons v vs)
    from Cons.IH Cons.prems obtain js where "those (map denote vs) = Some js" "\<forall>j\<in>set js. numbersOk j" by auto
    moreover obtain j where "denote v = Some j" "numbersOk j" using Cons.prems [of v] by (auto simp: canonicalisable_def)
    ultimately show ?case by simp
  qed simp
  then show ?thesis by (auto simp: canonicalisable_def comp_def)
qed

lemma canonicalisable_object:
  assumes "\<And>kv. kv \<in> set kvs \<Longrightarrow> fst kv \<in> range units \<and> canonicalisable (snd kv)"
  shows "canonicalisable (plainObject kvs)"
proof -
  have "\<not> hasLoneSurrogate (fst kv) \<and> denote (snd kv) = Some (the (denote (snd kv))) \<and> numbersOk (the (denote (snd kv)))"
    if "kv \<in> set kvs" for kv using assms [OF that] units_encodable(1) by (auto simp: canonicalisable_def)
  then show ?thesis using denote_plainObject [of kvs "\<lambda>v. the (denote v)"] by (fastforce simp: canonicalisable_def)
qed

lemma example_denotes: "canonicalisable exampleVc"
proof -
  have "canonicalisable exampleDelegation" unfolding exampleDelegation_def
    by (rule canonicalisable_object) (auto intro!: canonicalisable_text canonicalisable_object canonicalisable_int canonicalisable_array [of "[_]", simplified] simp: MAX_SAFE_INTEGER_def)
  then show ?thesis unfolding exampleVc_def
    by (intro canonicalisable_object)
      (auto intro!: canonicalisable_text canonicalisable_object canonicalisable_array [of "[_]", simplified] canonicalisable_array [of "[_, _]", simplified])
qed


lemma example_key: "\<exists>k. cacheKeyForCredential (vp_toText (examplePorts b)) exampleVc defaultOptions = Some k"
proof -
  obtain j where "denote exampleVc = Some j" using example_denotes by (auto simp: canonicalisable_def)
  then have "canonicalizeJson exampleVc = Inr (writeJson j)" by (rule canonical_denoted)
  moreover have "idText toText exampleVc = Some (units ''urn:1'')" for toText
    by (simp add: idText_def exampleVc_def headerMember_def plainObject_def dataMember_def units_inj)
  moreover have "cacheAllowed defaultOptions" by (simp add: cacheAllowed_def defaultOptions_def)
  ultimately show ?thesis by (simp add: cacheKeyForCredential_def)
qed

definition warmCache :: signatureCache where
  "warmCache = applyEvents [StoreCredential (examplePorts True) defaultOptions (exampleClock 1000000) exampleVc] (newTtlCache 60000 10)"

lemma cacheSet_hit: "0 < ttl \<Longrightarrow> 0 < n \<Longrightarrow> now \<le> t + ttl \<Longrightarrow> fst (cacheGet now k (cacheSet t k v (newTtlCache ttl n))) = Some v"
  by (simp add: cacheGet_def cacheSet_def newTtlCache_def)

lemma example_warm:
  "vr_valid (fst (verifyDelegationCredential (examplePorts False) defaultOptions (exampleClock 1000000) id exampleVc warmCache))"
proof -
  obtain k where "cacheKeyForCredential (vp_toText (examplePorts True)) exampleVc defaultOptions = Some k" using example_key by blast
  then have k: "cacheKeyForCredential (vp_toText (examplePorts b)) exampleVc defaultOptions = Some k" for b by (simp add: examplePorts_def)
  have "fst (cacheGet 1000000 k warmCache) = Some SignatureValid"
    using k [of True] by (simp add: warmCache_def applyEvents_def storeOps_def exampleVc_signature exampleClock_def cacheSet_hit)
  then have "fst (fst (cachedSignature (Some k) run (exampleClock 1000000) id warmCache)) = SignatureValid" for run
    by (auto simp: cachedSignature_def exampleClock_def split: prod.splits option.splits)
  moreover have "statusOf (examplePorts False) defaultOptions exampleVc = StatusLive" by code_simp
  ultimately show ?thesis
    by (simp add: verifyDelegationCredential_def example_basic k finalize_valid split_beta)
qed

lemma accepted_credential_was_verified_witness:
  "notRevokedNow (examplePorts False) defaultOptions exampleVc \<and>
   (credentialSignature (examplePorts False) defaultOptions exampleVc = SignatureValid \<or>
    (\<exists>ports' opts' clock' vc'. StoreCredential ports' opts' clock' vc' \<in> {StoreCredential (examplePorts True) defaultOptions (exampleClock 1000000) exampleVc} \<and>
       credentialSignature ports' opts' vc' = SignatureValid))"
proof -
  have p: "numbersPrinted exampleVc" using example_denotes by (auto simp: canonicalisable_def numbersPrinted_def)
  have "\<not> vo_skipSignature defaultOptions" "\<not> vo_skipStatus defaultOptions" by (simp_all add: defaultOptions_def)
  from accepted_credential_was_verified [OF example_warm [unfolded warmCache_def] this p] p show ?thesis by fastforce
qed

subsection \<open>Tokens\<close>

lemma splitOn_length: "length (splitOn P s) = Suc (length (filter P s))"
  by (induction s) (auto split: list.splits)

lemma splitOn_first: "splitOn P (xs @ ys) = h # rest \<Longrightarrow> \<not> list_ex P xs \<Longrightarrow> \<exists>ys'. h = xs @ ys'"
proof (induction xs arbitrary: h)
  case (Cons x xs)
  then show ?case by (auto split: list.splits)
qed simp

lemma jwt_key_names_token:
  assumes "keyPrefix ''jwt'' i @ units jwt = keyPrefix ''jwt'' i' @ units jwt'"
    and "jwsParts jwt = [h, p, s]" and "jwsParts jwt' = [h', p', s']"
    and "CHR 0x00 \<notin> set h" and "CHR 0x00 \<notin> set h'"
  shows "jwt = jwt'"
proof -
  have suffix_eq: "a = b" if eq: "x @ 0 # units a = y @ 0 # units b" and parts: "jwsParts a = [ha, pa, sa]" "jwsParts b = [hb, pb, sb]"
      and nul: "CHR 0x00 \<notin> set hb" and len: "length a \<le> length b" for x y :: jsstring and a b ha pa sa hb pb sb
  proof -
    have "suffix (0 # units a) (x @ 0 # units a)" by (simp add: suffix_def)
    moreover have "suffix (0 # units b) (x @ 0 # units a)" unfolding eq by (simp add: suffix_def)
    ultimately have "suffix (0 # units a) (0 # units b)" by (rule suffix_length_suffix) (use len in \<open>simp add: units_def\<close>)
    then obtain us where us: "0 # units b = us @ 0 # units a" by (auto simp: suffix_def)
    show ?thesis
    proof (cases us)
      case Nil
      then show ?thesis using us by (simp add: units_inj)
    next
      case (Cons u us')
      then have b: "units b = us' @ 0 # units a" using us by simp
      then obtain b1 b2 where b12: "b = b1 @ b2" "units b1 = us'" "units b2 = 0 # units a"
        unfolding units_def by (auto simp: map_eq_append_conv)
      then obtain c b3 where c: "b2 = c # b3" "of_char c = (0 :: nat)" "units b3 = units a" by (cases b2) (auto simp: units_def)
      then have "c = CHR 0x00" using of_char_eq_iff [of c "CHR 0x00", where 'a = nat] by simp
      moreover have "b3 = a" using c(3) by (simp add: units_inj)
      ultimately have bb: "b = b1 @ CHR 0x00 # a" using b12(1) c(1) by simp
      have "length (filter (\<lambda>c. c = CHR ''.'') b) = length (filter (\<lambda>c. c = CHR ''.'') a)"
        using parts splitOn_length [of _ a] splitOn_length [of _ b] unfolding jwsParts_def by (metis list.size(3,4) nat.inject)
      then have "filter (\<lambda>c. c = CHR ''.'') b1 = []" unfolding bb by simp
      then have "\<not> list_ex (\<lambda>c. c = CHR ''.'') (b1 @ [CHR 0x00])" by (auto simp: list_ex_iff filter_empty_conv)
      then obtain t where "hb = (b1 @ [CHR 0x00]) @ t"
        using splitOn_first [of _ "b1 @ [CHR 0x00]" a hb "[pb, sb]"] parts(2) unfolding jwsParts_def bb by auto
      with nul show ?thesis by simp
    qed
  qed
  have eq: "(units ''jwt'' @ 0 # i) @ 0 # units jwt = (units ''jwt'' @ 0 # i') @ 0 # units jwt'"
    using assms(1) by (simp add: keyPrefix_append)
  show ?thesis
  proof (cases "length jwt \<le> length jwt'")
    case True
    then show ?thesis by (rule suffix_eq [OF eq assms(2,3,5)])
  next
    case False
    then have "jwt' = jwt" by (intro suffix_eq [OF eq [symmetric] assms(3,2,4)]) simp
    then show ?thesis by (rule sym)
  qed
qed


lemma decodable_no_nul:
  assumes "base64urlDecodeToString s = Some bs"
  shows "CHR 0x00 \<notin> set s"
proof
  assume "CHR 0x00 \<in> set s"
  moreover have "fromUrlChar (CHR 0x00) = CHR 0x00" by (simp add: fromUrlChar_def)
  ultimately have "CHR 0x00 \<in> set (map fromUrlChar (addPadding s))" by (force simp: addPadding_def image_iff)
  moreover have "c \<in> set (stripPadding t)" if "c \<in> set t" "c \<noteq> CHR ''=''" for c t
  proof -
    have "c \<in> set (butlast t)" if "endsWithChar t (CHR ''='')" "c \<in> set t" "c \<noteq> CHR ''=''" for c t
      using that append_butlast_last_id [of t] by (metis Un_iff empty_iff endsWithChar_def insert_iff list.set(1,2) set_append)
    with that show ?thesis by (auto simp: stripPadding_def Let_def)
  qed
  ultimately have "CHR 0x00 \<in> set (stripPadding (map fromUrlChar (addPadding s)))" by simp
  moreover have "b64index (CHR 0x00) = None" by code_simp
  moreover have "list_all (\<lambda>c. b64index c \<noteq> None) (stripPadding (map fromUrlChar (addPadding s)))"
    using assms by (simp add: base64urlDecodeToString_def Let_def split: if_splits)
  ultimately show False by (fastforce simp: list_all_iff)
qed


lemma prepared_parts:
  assumes "preparedOf ports clock jwt = Inr prepared"
  obtains parsed h p s where "parseVCJWT (vp_jsonParse ports) jwt = Some parsed" and "jwsParts jwt = [h, p, s]" and "CHR 0x00 \<notin> set h"
    and "pw_vc prepared = jsGet (vj_payload parsed) ''vc''" and "pw_issuerDid prepared = jsGet (vj_payload parsed) ''iss''"
    and "issuerDidOf (pw_vc prepared) = pw_issuerDid prepared"
    and "validateBasicProperties (vp_dateParse ports) (vk_basic clock) False (pw_vc prepared) = None"
    and "validateJwtTimeBounds (vj_payload parsed) (vk_jwtMs clock) = None"
proof -
  obtain parsed where parsed: "parseVCJWT (vp_jsonParse ports) jwt = Some parsed"
    using assms by (cases "parseVCJWT (vp_jsonParse ports) jwt") (simp_all add: preparedOf_def prepareVcJwtCredential_def)
  then obtain h p s header where parts: "jwsParts jwt = [h, p, s]" "parseSegment (vp_jsonParse ports) h = Some header"
    unfolding parseVCJWT_def by (auto split: list.splits option.splits)
  then obtain bs where "base64urlDecodeToString h = Some bs" by (auto simp: parseSegment_def bind_eq_Some_conv)
  then have "CHR 0x00 \<notin> set h" by (rule decodable_no_nul)
  with parsed parts(1) show thesis using assms that [of parsed h p s]
    unfolding preparedOf_def prepareVcJwtCredential_def by (auto simp: Let_def split: if_splits option.splits)
qed

lemma cached_token:
  assumes prep: "preparedOf ports clock jwt = Inr prepared"
    and key: "cacheKeyForJwt (vp_toText ports) jwt (pw_vc prepared) opts = Some cacheKey"
    and run: "fst (cachedSignature cacheKey run clock between (applyEvents events (newTtlCache ttl n))) = (sig, cached)"
  shows "sig = run \<and> \<not> cached \<or> cached \<and> (\<exists>ports' opts' clock' prepared'. StoreJwt ports' opts' clock' jwt \<in> set events \<and>
    preparedOf ports' clock' jwt = Inr prepared' \<and> envelopeSignature ports' opts' jwt prepared' = SignatureValid \<and>
    cacheAllowed opts' \<and> vk_readMs clock \<le> vk_storeMs clock' + ttl)"
proof (cases cacheKey)
  case (Some k)
  then obtain i where k: "k = keyPrefix ''jwt'' i @ units jwt" using key by (auto simp: jwt_key_text)
  show ?thesis
  proof (cases "fst (cacheGet (vk_readMs clock) k (applyEvents events (newTtlCache ttl n)))")
    case None
    then show ?thesis using run Some by (auto simp: cachedSignature_def split: prod.splits)
  next
    case hit: (Some v)
    then have cached using run Some by (auto simp: cachedSignature_def split: prod.splits)
    obtain t where t: "CacheSet t k v \<in> set (concat (map eventOps events))" "vk_readMs clock \<le> t + ttl" using hit by (rule hit_was_stored)
    then obtain e where e: "e \<in> set events" "CacheSet t k v \<in> set (eventOps e)" by auto
    show ?thesis
    proof (cases e)
      case (StoreCredential ports' opts' clock' vc')
      then have "cacheKeyForCredential (vp_toText ports') vc' opts' = Some k" using e(2) by (simp add: storeOps_set)
      then show ?thesis using k di_key_not_jwt by (metis di_key_text)
    next
      case (StoreJwt ports' opts' clock' jwt')
      then obtain prepared' i' where st: "preparedOf ports' clock' jwt' = Inr prepared'" "k = keyPrefix ''jwt'' i' @ units jwt'"
          "envelopeSignature ports' opts' jwt' prepared' = SignatureValid" "t = vk_storeMs clock'" "cacheAllowed opts'"
        using e(2) by (metis stored_jwt)
      have "jwt' = jwt"
        by (rule prepared_parts [OF st(1)], rule prepared_parts [OF prep]) (rule jwt_key_names_token [OF trans [OF st(2) [symmetric] k]])
      then show ?thesis using st e(1) StoreJwt t(2) \<open>cached\<close> by blast
    qed (use e(2) in simp_all)
  qed
qed (use run in \<open>simp add: cachedSignature_def\<close>)

lemma accepted_token:
  fixes events :: "'k verifierEvent list" and ports :: "'k vcPorts"
  assumes "fst (verifyDelegationJwt ports opts clock between jwt (applyEvents events (newTtlCache ttl n))) = Some result"
    and "vr_valid result"
  shows "\<exists>parsed prepared. parseVCJWT (vp_jsonParse ports) jwt = Some parsed \<and> preparedOf ports clock jwt = Inr prepared \<and>
    validateJwtTimeBounds (vj_payload parsed) (vk_jwtMs clock) = None \<and>
    validateBasicProperties (vp_dateParse ports) (vk_basic clock) False (jsGet (vj_payload parsed) ''vc'') = None \<and>
    issuerDidOf (jsGet (vj_payload parsed) ''vc'') = jsGet (vj_payload parsed) ''iss'' \<and>
    (vo_skipStatus opts \<or> notRevokedNow ports opts (jsGet (vj_payload parsed) ''vc'')) \<and>
    (envelopeSignature ports opts jwt prepared = SignatureValid \<or>
     (\<exists>ports' opts' clock' prepared'. StoreJwt ports' opts' clock' jwt \<in> set events \<and> preparedOf ports' clock' jwt = Inr prepared' \<and>
        \<not> vo_skipSignature opts' \<and> envelopeSignature ports' opts' jwt prepared' = SignatureValid \<and>
        vk_readMs clock \<le> vk_storeMs clock' + ttl))"
proof -
  let ?c = "applyEvents events (newTtlCache ttl n)"
  obtain prepared where prep: "preparedOf ports clock jwt = Inr prepared"
    using assms(1,2) by (cases "preparedOf ports clock jwt") (auto simp: verifyDelegationJwt_def preparedOf_def)
  obtain cacheKey where key: "cacheKeyForJwt (vp_toText ports) jwt (pw_vc prepared) opts = Some cacheKey"
    using assms(1) prep by (cases "cacheKeyForJwt (vp_toText ports) jwt (pw_vc prepared) opts")
      (simp_all add: verifyDelegationJwt_def preparedOf_def)
  obtain sig cached where hit: "fst (cachedSignature cacheKey (envelopeSignature ports opts jwt prepared) clock between ?c) = (sig, cached)"
    by (metis surj_pair)
  then have ok: "sig = SignatureValid" "statusOf ports opts (pw_vc prepared) = StatusLive"
    using assms(1,2) prep key by (auto simp: verifyDelegationJwt_def preparedOf_def finalize_valid split: prod.splits)
  have live: "vo_skipStatus opts \<or> notRevokedNow ports opts (pw_vc prepared)" using ok(2) statusOf_live by blast
  from cached_token [OF prep key hit] ok(1) have "envelopeSignature ports opts jwt prepared = SignatureValid \<or>
     (\<exists>ports' opts' clock' prepared'. StoreJwt ports' opts' clock' jwt \<in> set events \<and> preparedOf ports' clock' jwt = Inr prepared' \<and>
        \<not> vo_skipSignature opts' \<and> envelopeSignature ports' opts' jwt prepared' = SignatureValid \<and>
        vk_readMs clock \<le> vk_storeMs clock' + ttl)"
    unfolding cacheAllowed_def by blast
  moreover obtain parsed h p s where parsed: "parseVCJWT (vp_jsonParse ports) jwt = Some parsed"
    "pw_vc prepared = jsGet (vj_payload parsed) ''vc''" "pw_issuerDid prepared = jsGet (vj_payload parsed) ''iss''"
    "issuerDidOf (pw_vc prepared) = pw_issuerDid prepared"
    "validateBasicProperties (vp_dateParse ports) (vk_basic clock) False (pw_vc prepared) = None"
    "validateJwtTimeBounds (vj_payload parsed) (vk_jwtMs clock) = None" using prep by (rule prepared_parts)
  ultimately show ?thesis using prep live by (intro exI [of _ parsed] exI [of _ prepared]) (simp only: parsed simp_thms)
qed

text \<open>an accepted token was checked in full. Whatever calls ran before and at the same time, a VC-JWT that is accepted
  without skipping a check is inside its own time bounds and those of its credential now, is not revoked now, names as
  issuer the one its claims name, and its envelope verifies under a key of that issuer now or did, for the same token, no
  longer than the cache lifetime ago.\<close>

theorem accepted_token_was_verified:
  fixes events :: "'k verifierEvent list" and ports :: "'k vcPorts"
  assumes "fst (verifyDelegationJwt ports opts clock between jwt (applyEvents events (newTtlCache ttl n))) = Some result"
    and "vr_valid result" and "\<not> vo_skipSignature opts" and "\<not> vo_skipStatus opts"
  shows "\<exists>parsed prepared. parseVCJWT (vp_jsonParse ports) jwt = Some parsed \<and> preparedOf ports clock jwt = Inr prepared \<and>
    validateJwtTimeBounds (vj_payload parsed) (vk_jwtMs clock) = None \<and>
    validateBasicProperties (vp_dateParse ports) (vk_basic clock) False (jsGet (vj_payload parsed) ''vc'') = None \<and>
    issuerDidOf (jsGet (vj_payload parsed) ''vc'') = jsGet (vj_payload parsed) ''iss'' \<and>
    notRevokedNow ports opts (jsGet (vj_payload parsed) ''vc'') \<and>
    (envelopeSignature ports opts jwt prepared = SignatureValid \<or>
     (\<exists>ports' opts' clock' prepared'. StoreJwt ports' opts' clock' jwt \<in> set events \<and> preparedOf ports' clock' jwt = Inr prepared' \<and>
        \<not> vo_skipSignature opts' \<and> envelopeSignature ports' opts' jwt prepared' = SignatureValid \<and>
        vk_readMs clock \<le> vk_storeMs clock' + ttl))"
  using accepted_token [OF assms(1,2)] assms(4) by simp


lemma example_status: "statusOf (examplePorts b) defaultOptions exampleVc = StatusLive"
  by code_simp

lemma accepted_token_was_verified_witness:
  "\<exists>parsed. parseVCJWT (vp_jsonParse (examplePorts True)) ''.e30.YQ'' = Some parsed \<and>
     issuerDidOf (jsGet (vj_payload parsed) ''vc'') = jsGet (vj_payload parsed) ''iss''"
proof -
  let ?jwt = "''.e30.YQ''" and ?prepared = "\<lparr>pw_vc = exampleVc, pw_issuerDid = jsText ''did:i'', pw_kid = None\<rparr>"
  have "cacheKeyForJwt (vp_toText (examplePorts True)) ?jwt exampleVc defaultOptions \<noteq> None"
    by (simp add: cacheKeyForJwt_def idText_def exampleVc_def headerMember_def plainObject_def dataMember_def units_inj)
  then obtain key where key: "cacheKeyForJwt (vp_toText (examplePorts True)) ?jwt exampleVc defaultOptions = Some key" by blast
  have "fst (cachedSignature key SignatureValid (exampleClock 1000000) id (applyEvents ([] :: unit verifierEvent list) (newTtlCache 60000 10))) = (SignatureValid, False)"
    by (cases key) (simp_all add: cachedSignature_def applyEvents_def cacheGet_def newTtlCache_def)
  then have r: "fst (verifyDelegationJwt (examplePorts True) defaultOptions (exampleClock 1000000) id ?jwt
      (applyEvents ([] :: unit verifierEvent list) (newTtlCache 60000 10))) = Some (finalizeVerification (SignatureValid, False) StatusLive)"
    using example_jwt [of True] example_envelope key example_status [of True]
    by (simp add: verifyDelegationJwt_def preparedOf_def split_beta)
  have "vr_valid (finalizeVerification (SignatureValid, False) StatusLive)" by (simp add: finalize_valid)
  note r = r this
  have "\<not> vo_skipSignature defaultOptions" "\<not> vo_skipStatus defaultOptions" by (simp_all add: defaultOptions_def)
  from accepted_token_was_verified [OF r this] show ?thesis by blast
qed

subsection \<open>Denials\<close>

text \<open>The verdict on the signature: what the cache answers now, else that of a fresh verification.\<close>

definition signatureVerdict :: "'k vcPorts \<Rightarrow> vcOptions \<Rightarrow> vcClock \<Rightarrow> jsvalue \<Rightarrow> signatureCache \<Rightarrow> signatureResult" where
  "signatureVerdict ports opts clock vc c = (case cacheKeyForCredential (vp_toText ports) vc opts of
       None \<Rightarrow> credentialSignature ports opts vc
     | Some k \<Rightarrow> (case fst (cacheGet (vk_readMs clock) k c) of
           None \<Rightarrow> credentialSignature ports opts vc | Some hit \<Rightarrow> hit))"

lemma cachedSignature_verdict:
  "fst (fst (cachedSignature (cacheKeyForCredential (vp_toText ports) vc opts) (credentialSignature ports opts vc) clock between c)) =
     signatureVerdict ports opts clock vc c"
  by (auto simp: cachedSignature_def signatureVerdict_def split: option.splits prod.splits)

text \<open>C12: a denial names its cause, whatever the cache holds. The stage is \<open>basic\<close> exactly when a basic check failed;
  \<open>signature\<close> exactly when the basic checks passed and the signature did not verify; \<open>status\<close> exactly when both passed, a
  status is called for and the resolver is missing, throws or reports the credential revoked; and \<open>complete\<close> exactly when
  the credential is accepted. The status outcome is reported at every stage but the first: revoked exactly when a resolver
  says so now, unresolvable exactly when one is called for and there is none or it throws.\<close>

theorem denial_names_its_cause:
  "let verdict = fst (verifyDelegationCredential ports opts clock between vc c);
       basicPassed = (validateBasicProperties (vp_dateParse ports) (vk_basic clock) True vc = None);
       signature = signatureVerdict ports opts clock vc c;
       status = jsGet vc ''credentialStatus'';
       statusAsked = (\<not> vo_skipStatus opts \<and> valTruthy status);
       answer = (case orElse (vo_statusListResolver opts) (vp_statusListResolver ports) of
         None \<Rightarrow> None | Some resolver \<Rightarrow> resolver status)
   in (vr_stage verdict = BasicStage) = (\<not> basicPassed) \<and>
      (vr_stage verdict = SignatureStage) = (basicPassed \<and> signature \<noteq> SignatureValid) \<and>
      (vr_stage verdict = StatusStage) = (basicPassed \<and> signature = SignatureValid \<and> statusAsked \<and> answer \<noteq> Some False) \<and>
      (vr_stage verdict = CompleteStage) = vr_valid verdict \<and>
      (vr_statusOutcome verdict = Some OutcomeRevoked) = (basicPassed \<and> statusAsked \<and> answer = Some True) \<and>
      (vr_statusOutcome verdict = Some OutcomeUnresolvable) = (basicPassed \<and> statusAsked \<and> answer = None)"
proof (cases "validateBasicProperties (vp_dateParse ports) (vk_basic clock) True vc")
  case None
  let ?r = "fst (verifyDelegationCredential ports opts clock between vc c)" and ?sig = "signatureVerdict ports opts clock vc c"
  obtain cached where "?r = finalizeVerification (?sig, cached) (statusOf ports opts vc)"
    using None cachedSignature_verdict [of ports vc opts clock between c]
    by (simp add: verifyDelegationCredential_def split_beta) (metis prod.collapse)
  then have r: "vr_stage ?r = (if ?sig = SignatureValid \<and> statusOf ports opts vc = StatusLive then CompleteStage
        else if ?sig = SignatureValid then StatusStage else SignatureStage)"
    "vr_valid ?r \<longleftrightarrow> ?sig = SignatureValid \<and> statusOf ports opts vc = StatusLive"
    "vr_statusOutcome ?r = (case statusOf ports opts vc of StatusLive \<Rightarrow> None | StatusDenied outcome \<Rightarrow> Some outcome)"
    by (simp_all add: finalizeVerification_def combineVerificationResult_def Let_def)
  show ?thesis unfolding Let_def r using None
    by (auto simp: statusOf_def checkCredentialStatus_def split: option.splits if_splits)
next
  case (Some e)
  then show ?thesis by (simp add: verifyDelegationCredential_def basicFailed_def)
qed

text \<open>A cleared credential is verified again: whatever the cache held, the answer after \<open>clearCacheEntry\<close> rests on a fresh
  signature check.\<close>

theorem cleared_credential_is_reverified:
  assumes "idText (vp_toText ports) vc = Some vcId"
    and "validateBasicProperties (vp_dateParse ports) (vk_basic clock) True vc = None"
  shows "fst (verifyDelegationCredential ports opts clock between vc (clearCacheEntry vcId c)) =
    finalizeVerification (credentialSignature ports opts vc, False) (statusOf ports opts vc)"
proof -
  have "fst (cachedSignature (cacheKeyForCredential (vp_toText ports) vc opts) run clock between (clearCacheEntry vcId c)) = (run, False)" for run
  proof (cases "cacheKeyForCredential (vp_toText ports) vc opts")
    case (Some k)
    then have "prefix (keyPrefix ''di'' vcId) k" using assms(1)
      by (auto simp: cacheKeyForCredential_def split: if_splits sum.splits)
    then have "jm_get (tc_entries (clearCacheEntry vcId c)) k = None"
      using fold_delete_get [of "\<lambda>key. prefix (keyPrefix ''di'' vcId) key \<or> prefix (keyPrefix ''jwt'' vcId) key" _ c k]
      by (auto simp: clearCacheEntry_def cacheDeleteWhere_def map_of_eq_None_iff)
    then show ?thesis using Some by (simp add: cachedSignature_def cacheGet_def)
  qed (simp add: cachedSignature_def)
  then show ?thesis using assms(2) by (simp add: verifyDelegationCredential_def split_beta)
qed

end
