(* ===== verification/Delegation_Check.thy ===== *)
theory Delegation_Check
  imports Chain_Safety Vc_Verifier
begin

text \<open>
  \<open>src/middleware/with-kya-os.delegation-verify.ts\<close>: authenticating a presented delegation, an object with an
  embedded proof or a VC-JWT, by the credential verifier and the chain walk together. The verifier keeps its
  signature cache between the calls of a walk, so the moment at which it is asked about a credential is an
  argument: the clock reads, the cache accesses made before, and those other calls make meanwhile.

  The chain walk reads a credential through its typed members, so \<open>readCredential\<close> takes them from the object:
  a member that is missing or of another type is absent, or the empty text where there is no absence.
  Log lines and the challenge texts are left out.
\<close>

subsection \<open>Reading the members of a credential\<close>

definition narrow :: "jsstring \<Rightarrow> string" where
  "narrow s = map char_of s"

definition latin1 :: "jsstring \<Rightarrow> bool" where
  "latin1 s \<longleftrightarrow> list_all (\<lambda>u. u < 256) s"

lemma narrow_units [simp]: "narrow (units s) = s"
  by (simp add: narrow_def units_def comp_def)

lemma units_narrow: "latin1 s \<Longrightarrow> units (narrow s) = s"
  by (auto simp: narrow_def units_def latin1_def list_all_iff intro!: map_idI)

fun textMember :: "jsvalue \<Rightarrow> string option" where
  "textMember (VString s) = Some (narrow s)"
| "textMember _ = None"

definition textOr :: "string \<Rightarrow> jsvalue \<Rightarrow> string" where
  "textOr d v = (case textMember v of None \<Rightarrow> d | Some s \<Rightarrow> s)"

definition textList :: "jsvalue \<Rightarrow> string list option" where
  "textList v = map_option (List.map_filter textMember) (arrayItems v)"

fun intMember :: "jsvalue \<Rightarrow> int option" where
  "intMember (VNumber (NumInt i)) = Some i"
| "intMember _ = None"

fun readAudience :: "jsvalue \<Rightarrow> audience option" where
  "readAudience (VString s) = Some (AudienceOne (narrow s))"
| "readAudience (VArray slots) = Some (AudienceMany (List.map_filter (\<lambda>s. textMember (slotValue s)) slots))"
| "readAudience _ = None"

type_synonym toText = "jsvalue \<Rightarrow> jsstring option"

definition readMember :: "toText \<Rightarrow> jsvalue \<Rightarrow> js_value" where
  "readMember toText v = (case v of VString s \<Rightarrow> Str (narrow s) | VNull \<Rightarrow> Nullish | VUndefined \<Rightarrow> Nullish
     | _ \<Rightarrow> NonStr (narrow (case toText v of None \<Rightarrow> [] | Some t \<Rightarrow> t)))"

definition readCrisp :: "toText \<Rightarrow> jsvalue \<Rightarrow> crispScope" where
  "readCrisp toText v = (if v \<in> {VNull, VUndefined} then NullScope
     else CrispScope (readMember toText (jsGet v ''resource'')) (readMember toText (jsGet v ''matcher'')))"

definition readConstraints :: "toText \<Rightarrow> jsvalue \<Rightarrow> delegationConstraints" where
  "readConstraints toText k = \<lparr>k_notBefore = intMember (jsGet k ''notBefore''), k_notAfter = intMember (jsGet k ''notAfter''),
     k_scopes = textList (jsGet k ''scopes''), k_audience = readAudience (jsGet k ''audience''),
     k_crispScopes = map_option (map (readCrisp toText)) (arrayItems (jsGet (jsGet k ''crisp'') ''scopes''))\<rparr>"

definition readDelegation :: "toText \<Rightarrow> jsvalue \<Rightarrow> delegationSubject" where
  "readDelegation toText d = \<lparr>d_id = textOr [] (jsGet d ''id''), d_issuerDid = textOr [] (jsGet d ''issuerDid''),
     d_subjectDid = textOr [] (jsGet d ''subjectDid''), d_parentId = textMember (jsGet d ''parentId''),
     d_scopes = textList (jsGet d ''scopes''),
     d_constraints = (if isObjectLike (jsGet d ''constraints'') then Some (readConstraints toText (jsGet d ''constraints'')) else None)\<rparr>"

definition readStatus :: "jsvalue \<Rightarrow> credentialStatus" where
  "readStatus s = \<lparr>cs_id = textMember (jsGet s ''id''), cs_type = textOr [] (jsGet s ''type''),
     cs_statusPurpose = textOr [] (jsGet s ''statusPurpose''), cs_statusListIndex = textOr [] (jsGet s ''statusListIndex''),
     cs_statusListCredential = textOr [] (jsGet s ''statusListCredential'')\<rparr>"

definition readIssuer :: "jsvalue \<Rightarrow> issuerRef" where
  "readIssuer v = (case v of VString s \<Rightarrow> IssuerString (narrow s)
     | _ \<Rightarrow> if isObjectLike v then IssuerObject (textMember (jsGet v ''id'')) else IssuerOther)"

definition readCredential :: "toText \<Rightarrow> jsvalue \<Rightarrow> delegationCredential" where
  "readCredential toText vc = \<lparr>vc_id = textMember (jsGet vc ''id''), vc_issuer = readIssuer (jsGet vc ''issuer''),
     vc_expirationDate = textMember (jsGet vc ''expirationDate''),
     vc_delegation = (if isObjectLike (delegationOf vc) then Some (readDelegation toText (delegationOf vc)) else None),
     vc_credentialStatus = (if valTruthy (jsGet vc ''credentialStatus'') then Some (readStatus (jsGet vc ''credentialStatus'')) else None)\<rparr>"

subsection \<open>The signature of an embedded proof\<close>

definition readCredentialProofValue :: "jsvalue \<Rightarrow> jsstring" where
  "readCredentialProofValue embedded = (case jsGet embedded ''proofValue'' of VString s \<Rightarrow> s | _ \<Rightarrow> [])"

definition withoutProof :: "jsvalue \<Rightarrow> jsvalue" where
  "withoutProof vc = assignedObject (filter (\<lambda>kv. fst kv \<noteq> units ''proof'')
     (case vc of VObject plain ms \<Rightarrow> entriesOf ms | _ \<Rightarrow> []))"

text \<open>A text with a code unit that is no byte does not decode.\<close>

definition decodeText :: "jsstring \<Rightarrow> bytes option" where
  "decodeText s = (if latin1 s then base64urlDecodeToBytes (narrow s) else None)"

definition signatureVerifier :: "signatureCheck \<Rightarrow> credentialVerifier" where
  "signatureVerifier cryptoVerify vc publicKeyJwk =
     (let embedded = jsGet vc ''proof''; proofValue = readCredentialProofValue embedded
      in if \<not> valTruthy embedded then Some (False, Some ''Missing proof'')
         else if proofValue = [] then Some (False, Some ''Missing proofValue in proof'')
         else (case canonicalizeJsonBytes (withoutProof vc) of
             Inl e \<Rightarrow> None
           | Inr data \<Rightarrow>
               (case decodeText proofValue of
                  None \<Rightarrow> None
                | Some sigBytes \<Rightarrow>
                    (if \<not> truthy (jwk_x publicKeyJwk) then Some (False, Some ''No x field in publicKeyJwk'')
                     else (case base64urlDecodeToBytes (the (jwk_x publicKeyJwk)) of
                         None \<Rightarrow> None
                       | Some pubKeyBytes \<Rightarrow>
                           map_option (\<lambda>valid. (valid, if valid then None else Some ''Signature verification failed''))
                             (cryptoVerify data sigBytes (bytesToBase64 pubKeyBytes)))))))"

subsection \<open>Resolving an issuer\<close>

record resolvers =
  rs_custom :: "issuerResolver option"
  rs_configured :: "(string, Did_Keys.didResolver) jsmap"
  rs_web :: "Did_Keys.didResolver option"

definition builtinResolve :: "resolvers \<Rightarrow> string \<Rightarrow> didDocument option option" where
  "builtinResolve rs did =
     (if startsWith did ''did:key:'' then createDidKeyResolver did
      else if startsWith did ''did:web:'' then (case rs_web rs of None \<Rightarrow> Some None | Some web \<Rightarrow> web did)
      else Some None)"

definition resolveConfigured :: "resolvers \<Rightarrow> jsvalue \<Rightarrow> didDocument option option" where
  "resolveConfigured rs didValue = (case textMember didValue of
       None \<Rightarrow> None
     | Some did \<Rightarrow>
         (case Option.bind (getDidMethod did) (jm_get (rs_configured rs)) of
            None \<Rightarrow> builtinResolve rs did
          | Some resolver \<Rightarrow>
              (case resolver did of
                 None \<Rightarrow> Some None
               | Some (Some doc) \<Rightarrow> Some (Some doc)
               | Some None \<Rightarrow> builtinResolve rs did)))"

definition resolveIssuer :: "resolvers \<Rightarrow> issuerResolver" where
  "resolveIssuer rs did = (case rs_custom rs of
       None \<Rightarrow> resolveConfigured rs did
     | Some custom \<Rightarrow> (case custom did of
           None \<Rightarrow> None
         | Some (Some doc) \<Rightarrow> Some (Some doc)
         | Some None \<Rightarrow> resolveConfigured rs did))"

subsection \<open>Checking a presented delegation\<close>

record 'k verifierMoment =
  mo_clock :: vcClock
  mo_between :: "signatureCache \<Rightarrow> signatureCache"
  mo_events :: "'k verifierEvent list"

record 'k delegationConfig =
  dg_serverDid :: string
  dg_ports :: "'k vcPorts"
  dg_cacheTtl :: "int option"
  dg_cacheSize :: "int option"
  dg_resolveChain :: "(jsvalue \<Rightarrow> string + jsvalue list) option"
  dg_revocationChecker :: "(string \<Rightarrow> string + revocationAnswer) option"
  dg_trustedRootIssuers :: "string list option"
  dg_maxChainLength :: "js_number option"
  dg_regexp :: regexp

definition viewOf :: "'k delegationConfig \<Rightarrow> jsvalue \<Rightarrow> delegationCredential" where
  "viewOf cfg = readCredential (vp_toText (dg_ports cfg))"

definition cacheAt :: "'k delegationConfig \<Rightarrow> 'k verifierMoment \<Rightarrow> signatureCache" where
  "cacheAt cfg m = applyEvents (mo_events m) (newSignatureCache (dg_cacheTtl cfg) (dg_cacheSize cfg))"

definition verdictAt :: "'k delegationConfig \<Rightarrow> 'k verifierMoment \<Rightarrow> bool \<Rightarrow> jsvalue \<Rightarrow> vcVerification" where
  "verdictAt cfg m skip credential = fst (Vc_Verifier.verifyDelegationCredential (dg_ports cfg)
     (defaultOptions\<lparr>vo_skipSignature := skip\<rparr>) (mo_clock m) (mo_between m) credential (cacheAt cfg m))"

text \<open>
  The object behind a credential the walk reads: the leaf, or the first of the resolved ancestors that
  reads like it. No two objects of a chain that gets as far as the verifier read alike, since the walk
  refuses a delegation id it has seen before.
\<close>

definition objectOf :: "'k delegationConfig \<Rightarrow> jsvalue \<Rightarrow> delegationCredential \<Rightarrow> jsvalue" where
  "objectOf cfg leaf c =
     (if viewOf cfg leaf = c then leaf
      else (case dg_resolveChain cfg of
          None \<Rightarrow> leaf
        | Some resolve \<Rightarrow> (case resolve leaf of
            Inl _ \<Rightarrow> leaf
          | Inr resolved \<Rightarrow> (case List.find (\<lambda>r. viewOf cfg r = c) resolved of None \<Rightarrow> leaf | Some r \<Rightarrow> r))))"

definition chainDepsOf :: "'k delegationConfig \<Rightarrow> (jsvalue \<Rightarrow> 'k verifierMoment) \<Rightarrow> jsvalue \<Rightarrow> chainDeps" where
  "chainDepsOf cfg moments leaf = \<lparr>
     serverDid = dg_serverDid cfg,
     verifyDelegationCredential = (\<lambda>c skip.
       \<lparr>v_valid = vr_valid (verdictAt cfg (moments (objectOf cfg leaf c)) skip (objectOf cfg leaf c)), v_reason = None\<rparr>),
     resolveDelegationChain = map_option (\<lambda>resolve _. map_sum id (map (viewOf cfg)) (resolve leaf)) (dg_resolveChain cfg),
     statusListConfigured = (vp_statusListResolver (dg_ports cfg) \<noteq> None),
     revocationChecker = dg_revocationChecker cfg,
     trustedRootIssuers = dg_trustedRootIssuers cfg,
     maxChainLength = dg_maxChainLength cfg,
     dateParse = (\<lambda>s. vp_dateParse (dg_ports cfg) (units s)),
     regexpEngine = dg_regexp cfg\<rparr>"

datatype delegationCheck = DelegationValid jsvalue bool "decimal option" | DelegationRefused "jsvalue option" | DelegationThrew

fun earlierDecimal :: "decimal option \<Rightarrow> int option \<Rightarrow> decimal option" where
  "earlierDecimal None e = map_option (\<lambda>t. (t, 0)) e"
| "earlierDecimal (Some d) None = Some d"
| "earlierDecimal (Some d) (Some t) = Some (if decimalLess (t, 0) d then (t, 0) else d)"

definition checkChain ::
  "'k delegationConfig \<Rightarrow> (jsvalue \<Rightarrow> 'k verifierMoment) \<Rightarrow> jsvalue \<Rightarrow> bool \<Rightarrow> decimal option \<Rightarrow> delegationCheck" where
  "checkChain cfg moments vc isJwt jwtExpiresAt =
     (case validateDelegationChain (chainDepsOf cfg moments vc) (viewOf cfg vc) isJwt of
        ChainValid e ws \<Rightarrow> DelegationValid vc isJwt (earlierDecimal jwtExpiresAt e)
      | ChainInvalid _ \<Rightarrow> DelegationRefused (Some vc)
      | ChainThrew \<Rightarrow> DelegationRefused (Some vc))"

text \<open>A credential from a token gets a marker proof, unless it has a proof of its own.\<close>

definition withJwtMarker :: "jsstring \<Rightarrow> jsvalue \<Rightarrow> jsvalue" where
  "withJwtMarker jwt vc =
     (if valTruthy (jsGet vc ''proof'') then vc
      else plainObject (putEntry (units ''proof'') (plainObject [(units ''type'', jsText ''JwtProof2020''), (units ''jwt'', VString jwt)])
        (case vc of VObject plain ms \<Rightarrow> entriesOf ms | _ \<Rightarrow> [])))"

definition jwtExpiry :: "jsvalue \<Rightarrow> decimal option" where
  "jwtExpiry payload = map_option (\<lambda>(m, e). (m * 1000, e)) (finiteNumber (jsGet payload ''exp''))"

definition verifyToken ::
  "'k delegationConfig \<Rightarrow> (jsvalue \<Rightarrow> 'k verifierMoment) \<Rightarrow> 'k verifierMoment \<Rightarrow> jsstring \<Rightarrow> delegationCheck" where
  "verifyToken cfg moments m token =
     (case (if latin1 token then parseVCJWT (vp_jsonParse (dg_ports cfg)) (narrow token) else None) of
        None \<Rightarrow> DelegationRefused None
      | Some parsed \<Rightarrow>
          (let vc = jsGet (vj_payload parsed) ''vc''
           in if vj_payload parsed = VNull then DelegationThrew
              else if \<not> valTruthy vc then DelegationRefused None
              else (case fst (verifyDelegationJwt (dg_ports cfg) (defaultOptions\<lparr>vo_skipStatus := True\<rparr>)
                     (mo_clock m) (mo_between m) (narrow token) (cacheAt cfg m)) of
                  None \<Rightarrow> DelegationThrew
                | Some envelope \<Rightarrow>
                    (if \<not> vr_valid envelope then DelegationRefused (Some vc)
                     else checkChain cfg moments (withJwtMarker token vc) True (jwtExpiry (vj_payload parsed))))))"

definition verifyDelegation ::
  "'k delegationConfig \<Rightarrow> (jsvalue \<Rightarrow> 'k verifierMoment) \<Rightarrow> 'k verifierMoment \<Rightarrow> jsvalue \<Rightarrow> delegationCheck" where
  "verifyDelegation cfg moments m delegationArg = (case delegationArg of
       VString token \<Rightarrow> verifyToken cfg moments m token
     | _ \<Rightarrow> checkChain cfg moments delegationArg False None)"

subsection \<open>What a valid delegation has passed\<close>

definition ttlOf :: "'k delegationConfig \<Rightarrow> int" where
  "ttlOf cfg = (case dg_cacheTtl cfg of None \<Rightarrow> 60000 | Some t \<Rightarrow> t)"

text \<open>A signature of the same JSON value verified, now or at an access of the cache no longer than its lifetime ago.\<close>

definition signatureVouched :: "'k delegationConfig \<Rightarrow> 'k verifierMoment \<Rightarrow> jsvalue \<Rightarrow> bool" where
  "signatureVouched cfg m vc \<longleftrightarrow> credentialSignature (dg_ports cfg) defaultOptions vc = SignatureValid \<or>
     (\<exists>ports' opts' clock' vc'. StoreCredential ports' opts' clock' vc' \<in> set (mo_events m) \<and> denote vc' = denote vc \<and>
        \<not> vo_skipSignature opts' \<and> credentialSignature ports' opts' vc' = SignatureValid \<and>
        vk_readMs (mo_clock m) \<le> vk_storeMs clock' + ttlOf cfg)"

definition credentialChecked :: "'k delegationConfig \<Rightarrow> 'k verifierMoment \<Rightarrow> bool \<Rightarrow> jsvalue \<Rightarrow> bool" where
  "credentialChecked cfg m skip vc \<longleftrightarrow>
     validateBasicProperties (vp_dateParse (dg_ports cfg)) (vk_basic (mo_clock m)) True vc = None \<and>
     notRevokedNow (dg_ports cfg) defaultOptions vc \<and> (skip \<or> signatureVouched cfg m vc)"

definition tokenChecked :: "'k delegationConfig \<Rightarrow> 'k verifierMoment \<Rightarrow> string \<Rightarrow> bool" where
  "tokenChecked cfg m jwt \<longleftrightarrow> (\<exists>parsed prepared. parseVCJWT (vp_jsonParse (dg_ports cfg)) jwt = Some parsed \<and>
     preparedOf (dg_ports cfg) (mo_clock m) jwt = Inr prepared \<and> validateJwtTimeBounds (vj_payload parsed) (vk_jwtMs (mo_clock m)) = None \<and>
     issuerDidOf (jsGet (vj_payload parsed) ''vc'') = jsGet (vj_payload parsed) ''iss'' \<and>
     (envelopeSignature (dg_ports cfg) defaultOptions jwt prepared = SignatureValid \<or>
      (\<exists>ports' opts' clock' prepared'. StoreJwt ports' opts' clock' jwt \<in> set (mo_events m) \<and> preparedOf ports' clock' jwt = Inr prepared' \<and>
         \<not> vo_skipSignature opts' \<and> envelopeSignature ports' opts' jwt prepared' = SignatureValid \<and>
         vk_readMs (mo_clock m) \<le> vk_storeMs clock' + ttlOf cfg)))"

text \<open>The numbers of the credentials the cache has seen are printed as numbers are.\<close>

definition momentPrinted :: "'k verifierMoment \<Rightarrow> bool" where
  "momentPrinted m \<longleftrightarrow> (\<forall>ports' opts' clock' vc'. StoreCredential ports' opts' clock' vc' \<in> set (mo_events m) \<longrightarrow> numbersPrinted vc')"

lemma cacheAt_new: "cacheAt cfg m = applyEvents (mo_events m) (newTtlCache (ttlOf cfg) (case dg_cacheSize cfg of None \<Rightarrow> 1000 | Some n \<Rightarrow> n))"
  by (simp add: cacheAt_def newSignatureCache_def ttlOf_def)

lemma signature_same_options:
  "\<not> vo_skipSignature opts \<Longrightarrow> vo_didResolver opts = None \<Longrightarrow> credentialSignature ports opts vc = credentialSignature ports defaultOptions vc"
  by (simp add: credentialSignature_def defaultOptions_def)

lemma verdict_checked:
  assumes "vr_valid (verdictAt cfg m skip vc)" and "numbersPrinted vc" and "momentPrinted m"
  shows "credentialChecked cfg m skip vc"
proof -
  let ?opts = "defaultOptions\<lparr>vo_skipSignature := skip\<rparr>"
  have opts: "\<not> vo_skipStatus ?opts" "notRevokedNow (dg_ports cfg) ?opts vc = notRevokedNow (dg_ports cfg) defaultOptions vc"
    "\<not> skip \<Longrightarrow> ?opts = defaultOptions" by (simp_all add: defaultOptions_def notRevokedNow_def)
  have printed: "numbersPrinted vc'" if "StoreCredential ports' opts' clock' vc' \<in> set (mo_events m)" for ports' opts' clock' vc'
    using assms(3) that unfolding momentPrinted_def by blast
  have "validateBasicProperties (vp_dateParse (dg_ports cfg)) (vk_basic (mo_clock m)) True vc = None \<and>
      (vo_skipStatus ?opts \<or> notRevokedNow (dg_ports cfg) ?opts vc) \<and>
      (credentialSignature (dg_ports cfg) ?opts vc = SignatureValid \<or>
       (\<exists>ports' opts' clock' vc'. StoreCredential ports' opts' clock' vc' \<in> set (mo_events m) \<and> denote vc' = denote vc \<and>
          \<not> vo_skipSignature opts' \<and> vo_didResolver opts' = None \<and> credentialSignature ports' opts' vc' = SignatureValid \<and>
          vk_readMs (mo_clock m) \<le> vk_storeMs clock' + ttlOf cfg))"
    by (rule accepted_credential [OF assms(1) [unfolded verdictAt_def cacheAt_new] assms(2) printed])
  then show ?thesis using opts unfolding credentialChecked_def signatureVouched_def by (cases skip) auto
qed

definition chainObjects :: "'k delegationConfig \<Rightarrow> jsvalue \<Rightarrow> jsvalue list" where
  "chainObjects cfg leaf = leaf # (case dg_resolveChain cfg of None \<Rightarrow> []
     | Some resolve \<Rightarrow> (case resolve leaf of Inl _ \<Rightarrow> [] | Inr resolved \<Rightarrow> resolved))"

lemma chainObjects_iff: "r \<in> set (chainObjects cfg leaf) \<longleftrightarrow>
    r = leaf \<or> (\<exists>resolve resolved. dg_resolveChain cfg = Some resolve \<and> resolve leaf = Inr resolved \<and> r \<in> set resolved)"
  by (cases "dg_resolveChain cfg") (auto simp: chainObjects_def split: sum.split)

lemma objectOf_member: "objectOf cfg leaf c \<in> set (chainObjects cfg leaf)"
  by (auto simp: objectOf_def chainObjects_def find_Some_iff split: option.split sum.split)

lemma objectOf_view:
  assumes "c \<in> viewOf cfg ` set (chainObjects cfg leaf)"
  shows "viewOf cfg (objectOf cfg leaf c) = c"
proof (cases "viewOf cfg leaf = c")
  case False
  from assms obtain r where "c = viewOf cfg r" "r \<in> set (chainObjects cfg leaf)" by blast
  with False obtain resolve resolved where r: "dg_resolveChain cfg = Some resolve" "resolve leaf = Inr resolved"
    "c \<in> viewOf cfg ` set resolved" unfolding chainObjects_iff by blast
  then obtain found where "List.find (\<lambda>r. viewOf cfg r = c) resolved = Some found"
    by (cases "List.find (\<lambda>r. viewOf cfg r = c) resolved") (auto simp: find_None_iff)
  moreover from this have "viewOf cfg found = c" by (auto simp: find_Some_iff)
  ultimately show ?thesis using False r by (simp add: objectOf_def)
qed (simp add: objectOf_def)

lemma assembled_members:
  assumes "assembleChain deps leaf d = Inr chain" and "c \<in> set chain"
  shows "c = leaf \<or> (\<exists>resolve resolved. resolveDelegationChain deps = Some resolve \<and> resolve leaf = Inr resolved \<and> c \<in> set resolved)"
  using assms by (auto simp: assembleChain_def split: if_splits option.splits sum.splits dest: in_set_butlastD)

lemma chain_has_objects:
  assumes "assembleChain (chainDepsOf cfg moments vc) (viewOf cfg vc) d = Inr chain" and "c \<in> set chain"
  shows "c \<in> viewOf cfg ` set (chainObjects cfg vc)"
proof (cases "c = viewOf cfg vc")
  case False
  with assembled_members [OF assms] obtain resolve' resolved where
    "resolveDelegationChain (chainDepsOf cfg moments vc) = Some resolve'" "resolve' (viewOf cfg vc) = Inr resolved" "c \<in> set resolved" by blast
  then obtain resolve where "dg_resolveChain cfg = Some resolve" "map_sum id (map (viewOf cfg)) (resolve vc) = Inr resolved"
    by (auto simp: chainDepsOf_def)
  moreover from this obtain raws where "resolve vc = Inr raws" "resolved = map (viewOf cfg) raws" by (cases "resolve vc") auto
  ultimately show ?thesis using \<open>c \<in> set resolved\<close> by (auto simp: chainObjects_iff)
qed (simp add: chainObjects_def)

lemma credentialsOk_member:
  "credentialsOk deps skip cs \<Longrightarrow> c \<in> set cs \<Longrightarrow> \<exists>b. credentialOk deps b c \<and> (b \<longrightarrow> skip \<and> c = last cs)"
proof (induction cs)
  case (Cons x cs)
  then show ?case by (cases "c = x") (auto split: if_splits)
qed simp

lemma chain_checked:
  assumes "checkChain cfg moments vc isJwt jwtExpiresAt = DelegationValid vc' isJwt' e"
    and printed: "\<forall>r \<in> set (chainObjects cfg vc). numbersPrinted r \<and> momentPrinted (moments r)"
  shows "vc' = vc \<and> isJwt' = isJwt \<and> (\<exists>raws. raws \<noteq> [] \<and> last raws = vc \<and>
    chainOk (chainDepsOf cfg moments vc) isJwt (map (viewOf cfg) raws) \<and>
    notRevoked (chainDepsOf cfg moments vc) (map (viewOf cfg) raws) \<and>
    (\<forall>raw \<in> set raws. credentialChecked cfg (moments raw) (isJwt \<and> raw = vc) raw))"
proof -
  let ?deps = "chainDepsOf cfg moments vc"
  obtain x w where valid: "validateDelegationChain ?deps (viewOf cfg vc) isJwt = ChainValid x w" and same: "vc' = vc" "isJwt' = isJwt"
    using assms(1) by (auto simp: checkChain_def split: chainOutcome.splits)
  then obtain d chain where chain: "assembleChain ?deps (viewOf cfg vc) d = Inr chain" "chainOk ?deps isJwt chain" "notRevoked ?deps chain"
    unfolding validateDelegationChain_char by blast
  let ?raws = "map (objectOf cfg vc) chain"
  have "map (\<lambda>c. viewOf cfg (objectOf cfg vc c)) chain = map (\<lambda>c. c) chain"
    by (rule map_cong [OF refl]) (rule objectOf_view [OF chain_has_objects [OF chain(1)]])
  then have view: "map (viewOf cfg) ?raws = chain" by (simp add: comp_def)
  have shape: "chain \<noteq> []" "last chain = viewOf cfg vc" using assembleChain_Inr [OF chain(1)] by simp_all
  have last: "last ?raws = vc" using shape by (simp add: last_map objectOf_def)
  have "credentialChecked cfg (moments (objectOf cfg vc c)) (isJwt \<and> objectOf cfg vc c = vc) (objectOf cfg vc c)" if c: "c \<in> set chain" for c
  proof -
    obtain b where b: "credentialOk ?deps b c" "b \<longrightarrow> isJwt \<and> c = last chain"
      using credentialsOk_member [of ?deps isJwt chain c] chain(2) c by (auto simp: chainOk_def)
    then have "vr_valid (verdictAt cfg (moments (objectOf cfg vc c)) b (objectOf cfg vc c))"
      by (auto simp: credentialOk_def chainDepsOf_def)
    then have "credentialChecked cfg (moments (objectOf cfg vc c)) b (objectOf cfg vc c)"
      using printed objectOf_member by (intro verdict_checked) blast+
    moreover have "b \<Longrightarrow> isJwt \<and> objectOf cfg vc c = vc" using b(2) shape by (simp add: objectOf_def)
    ultimately show ?thesis by (auto simp: credentialChecked_def)
  qed
  then have "\<forall>raw \<in> set ?raws. credentialChecked cfg (moments raw) (isJwt \<and> raw = vc) raw" by simp
  with same last chain view shape show ?thesis by (intro conjI exI [of _ ?raws]) simp_all
qed

lemma valid_delegation:
  assumes "verifyDelegation cfg moments m arg = DelegationValid vc isJwt e"
    and printed: "\<forall>r \<in> set (chainObjects cfg vc). numbersPrinted r \<and> momentPrinted (moments r)"
  shows "(if isJwt then \<exists>token parsed. arg = VString token \<and> parseVCJWT (vp_jsonParse (dg_ports cfg)) (narrow token) = Some parsed \<and>
            vc = withJwtMarker token (jsGet (vj_payload parsed) ''vc'') \<and> tokenChecked cfg m (narrow token)
          else vc = arg) \<and>
    (\<exists>raws. raws \<noteq> [] \<and> last raws = vc \<and>
      chainOk (chainDepsOf cfg moments vc) isJwt (map (viewOf cfg) raws) \<and>
      notRevoked (chainDepsOf cfg moments vc) (map (viewOf cfg) raws) \<and>
      (\<forall>raw \<in> set raws. credentialChecked cfg (moments raw) (isJwt \<and> raw = vc) raw))"
proof (cases "\<exists>token. arg = VString token")
  case False
  then have "checkChain cfg moments arg False None = DelegationValid vc isJwt e"
    using assms(1) by (cases arg) (auto simp: verifyDelegation_def)
  moreover from this have same: "vc = arg" "\<not> isJwt" by (auto simp: checkChain_def split: chainOutcome.splits)
  ultimately show ?thesis using chain_checked [of cfg moments vc isJwt None vc isJwt e] printed by simp
next
  case True
  then obtain token where token: "arg = VString token" by blast
  let ?opts = "defaultOptions\<lparr>vo_skipStatus := True\<rparr>"
  from assms(1) token obtain parsed envelope where p: "parseVCJWT (vp_jsonParse (dg_ports cfg)) (narrow token) = Some parsed"
    "fst (verifyDelegationJwt (dg_ports cfg) ?opts (mo_clock m) (mo_between m) (narrow token) (cacheAt cfg m)) = Some envelope"
    "vr_valid envelope"
    "checkChain cfg moments (withJwtMarker token (jsGet (vj_payload parsed) ''vc'')) True (jwtExpiry (vj_payload parsed)) = DelegationValid vc isJwt e"
    by (auto simp: verifyDelegation_def verifyToken_def Let_def split: option.splits if_splits)
  have vc: "vc = withJwtMarker token (jsGet (vj_payload parsed) ''vc'')" "isJwt"
    using p(4) by (auto simp: checkChain_def split: chainOutcome.splits)
  have chain: "\<exists>raws. raws \<noteq> [] \<and> last raws = vc \<and>
      chainOk (chainDepsOf cfg moments vc) isJwt (map (viewOf cfg) raws) \<and>
      notRevoked (chainDepsOf cfg moments vc) (map (viewOf cfg) raws) \<and>
      (\<forall>raw \<in> set raws. credentialChecked cfg (moments raw) (isJwt \<and> raw = vc) raw)"
    using chain_checked [OF p(4)] printed vc by auto
  obtain parsed' prepared where t: "parseVCJWT (vp_jsonParse (dg_ports cfg)) (narrow token) = Some parsed'"
      "preparedOf (dg_ports cfg) (mo_clock m) (narrow token) = Inr prepared"
      "validateJwtTimeBounds (vj_payload parsed') (vk_jwtMs (mo_clock m)) = None"
      "issuerDidOf (jsGet (vj_payload parsed') ''vc'') = jsGet (vj_payload parsed') ''iss''"
      "envelopeSignature (dg_ports cfg) ?opts (narrow token) prepared = SignatureValid \<or>
       (\<exists>ports' opts' clock' prepared'. StoreJwt ports' opts' clock' (narrow token) \<in> set (mo_events m) \<and>
         preparedOf ports' clock' (narrow token) = Inr prepared' \<and>
         \<not> vo_skipSignature opts' \<and> envelopeSignature ports' opts' (narrow token) prepared' = SignatureValid \<and>
         vk_readMs (mo_clock m) \<le> vk_storeMs clock' + ttlOf cfg)"
    using accepted_token [OF p(2) [unfolded cacheAt_new] p(3)] by blast
  have "envelopeSignature (dg_ports cfg) ?opts (narrow token) prepared = envelopeSignature (dg_ports cfg) defaultOptions (narrow token) prepared"
    by (simp add: envelopeSignature_def defaultOptions_def)
  with t have "tokenChecked cfg m (narrow token)" unfolding tokenChecked_def by auto
  with token p(1) vc chain show ?thesis by auto
qed

text \<open>C3: a delegation is accepted only after every check. The credential returned is the presented object, or that of a
  presented token whose envelope signature was verified and whose issuer is the credential's; it ends a chain of credentials
  whose ids are distinct, whose links fit and none of which is revoked; each of them is live and well-formed, and each but
  the leaf of a token has a signature that verified, now or within the cache's lifetime, over the same JSON value.\<close>

theorem valid_delegation_was_checked:
  assumes "verifyDelegation cfg moments m arg = DelegationValid vc isJwt e"
    and "\<forall>r \<in> set (chainObjects cfg vc). numbersPrinted r \<and> momentPrinted (moments r)"
  shows "(if isJwt then \<exists>token parsed. arg = VString token \<and> parseVCJWT (vp_jsonParse (dg_ports cfg)) (narrow token) = Some parsed \<and>
            vc = withJwtMarker token (jsGet (vj_payload parsed) ''vc'') \<and> tokenChecked cfg m (narrow token)
          else vc = arg) \<and>
    (\<exists>raws. raws \<noteq> [] \<and> last raws = vc \<and>
      chainOk (chainDepsOf cfg moments vc) isJwt (map (viewOf cfg) raws) \<and>
      notRevoked (chainDepsOf cfg moments vc) (map (viewOf cfg) raws) \<and>
      (\<forall>raw \<in> set raws. credentialChecked cfg (moments raw) (isJwt \<and> raw = vc) raw))"
  by (rule valid_delegation [OF assms])

definition exampleConfig :: "unit delegationConfig" where
  "exampleConfig = \<lparr>dg_serverDid = ''did:srv'', dg_ports = examplePorts False, dg_cacheTtl = Some 60000, dg_cacheSize = Some 10,
     dg_resolveChain = None, dg_revocationChecker = None, dg_trustedRootIssuers = Some [''did:i''], dg_maxChainLength = None,
     dg_regexp = (\<lambda>_ _. None)\<rparr>"

definition exampleMoment :: "unit verifierMoment" where
  "exampleMoment = \<lparr>mo_clock = exampleClock 1000000, mo_between = id,
     mo_events = [StoreCredential (examplePorts True) defaultOptions (exampleClock 1000000) exampleVc]\<rparr>"

lemma example_verdict: "vr_valid (verdictAt exampleConfig exampleMoment False exampleVc)"
proof -
  have "cacheAt exampleConfig exampleMoment = warmCache" "defaultOptions\<lparr>vo_skipSignature := False\<rparr> = defaultOptions"
    by (simp_all add: cacheAt_new ttlOf_def exampleConfig_def exampleMoment_def warmCache_def defaultOptions_def)
  then show ?thesis using example_warm by (simp add: verdictAt_def) (simp add: exampleConfig_def exampleMoment_def)
qed

lemma example_view: "viewOf exampleConfig exampleVc = \<lparr>vc_id = Some ''urn:1'', vc_issuer = IssuerString ''did:i'', vc_expirationDate = None,
    vc_delegation = Some \<lparr>d_id = ''del-1'', d_issuerDid = ''did:i'', d_subjectDid = ''did:s'', d_parentId = None, d_scopes = None,
      d_constraints = Some \<lparr>k_notBefore = None, k_notAfter = Some 2000, k_scopes = Some [''files:read''], k_audience = None, k_crispScopes = None\<rparr>\<rparr>,
    vc_credentialStatus = Some \<lparr>cs_id = None, cs_type = ''BitstringStatusListEntry'', cs_statusPurpose = [], cs_statusListIndex = [],
      cs_statusListCredential = []\<rparr>\<rparr>"
  by code_simp

lemma example_delegation: "verifyDelegation exampleConfig (\<lambda>_. exampleMoment) exampleMoment exampleVc = DelegationValid exampleVc False (Some (2000000, 0))"
proof -
  let ?deps = "chainDepsOf exampleConfig (\<lambda>_. exampleMoment) exampleVc"
  have "objectOf exampleConfig exampleVc (viewOf exampleConfig exampleVc) = exampleVc" by (simp add: objectOf_def)
  then have "v_valid (chainDeps.verifyDelegationCredential ?deps (viewOf exampleConfig exampleVc) False)"
    using example_verdict by (simp add: chainDepsOf_def)
  moreover have "serverDid ?deps = ''did:srv''" "resolveDelegationChain ?deps = None" "statusListConfigured ?deps" "revocationChecker ?deps = None"
    "trustedRootIssuers ?deps = Some [''did:i'']" "maxChainLength ?deps = None"
    by (simp_all add: chainDepsOf_def exampleConfig_def examplePorts_def)
  ultimately have "\<exists>w. validateDelegationChain ?deps (viewOf exampleConfig exampleVc) False = ChainValid (Some 2000000) w"
    unfolding example_view
    by (simp add: validateDelegationChain_def assembleChain_def checkLength_def checkCredential_def initialWalk_def checkRoot_def
      verifyDelegationAudience_def credentialIssuerDid_def constraintDeadline_def expiryDeadline_def)
  moreover have "verifyDelegation exampleConfig (\<lambda>_. exampleMoment) exampleMoment exampleVc = checkChain exampleConfig (\<lambda>_. exampleMoment) exampleVc False None"
    by (simp add: verifyDelegation_def exampleVc_def plainObject_def)
  ultimately show ?thesis by (auto simp: checkChain_def)
qed

lemma valid_delegation_was_checked_witness:
  "\<exists>raws. raws \<noteq> [] \<and> last raws = exampleVc \<and> (\<forall>raw \<in> set raws. credentialChecked exampleConfig exampleMoment False raw)"
proof -
  have "numbersPrinted exampleVc" using example_denotes by (auto simp: canonicalisable_def numbersPrinted_def)
  then have "\<forall>r \<in> set (chainObjects exampleConfig exampleVc). numbersPrinted r \<and> momentPrinted exampleMoment"
    by (simp add: chainObjects_def exampleConfig_def momentPrinted_def exampleMoment_def)
  from valid_delegation_was_checked [OF example_delegation this] show ?thesis by fastforce
qed

text \<open>A token whose payload is the JSON \<open>null\<close> makes the check throw instead of refusing it.\<close>

lemma null_payload_throws:
  assumes "latin1 token" and "parseVCJWT (vp_jsonParse (dg_ports cfg)) (narrow token) = Some parsed" and "vj_payload parsed = VNull"
  shows "verifyDelegation cfg moments m (VString token) = DelegationThrew"
  using assms by (simp add: verifyDelegation_def verifyToken_def Let_def)

end
