(* ===== verification/Holder_Binding.thy ===== *)
theory Holder_Binding
  imports Did_Keys
begin

text \<open>
  \<open>src/delegation/holder-binding.ts\<close>: a request proof bound to the key of a did:key subject. The verifier is the
  one of \<open>Proof_Verifier\<close>, over its parameters and replay store.
\<close>

subsection \<open>The client\<close>

definition toHolderBindingRequest :: "jsstring \<Rightarrow> jsmember list \<Rightarrow> toolRequest" where
  "toHolderBindingRequest toolName args =
     \<lparr>tr_method = toolName, tr_params = assignedObject (filter (\<lambda>kv. \<not> isKyaOsControlArg (fst kv)) (entriesOf args))\<rparr>"

record requestProofInput =
  rq_toolName :: jsstring
  rq_args :: "jsmember list"
  rq_audience :: string
  rq_sessionId :: "string option"

text \<open>The session a proof before any handshake names; the members the generator does not read are left empty.\<close>

definition requestSession :: "requestProofInput \<Rightarrow> int \<Rightarrow> bytes \<Rightarrow> bytes \<Rightarrow> sessionContext" where
  "requestSession input nowMs nonceBytes sessionBytes =
     \<lparr>sc_sessionId = (case rq_sessionId input of Some i \<Rightarrow> i | None \<Rightarrow> ''req-'' @ base64urlEncodeFromBytes sessionBytes),
      sc_audience = rq_audience input, sc_nonce = base64urlEncodeFromBytes nonceBytes, sc_timestamp = nowMs div 1000,
      sc_createdAt = nowMs div 1000, sc_lastActivity = nowMs div 1000, sc_ttlMinutes = 30, sc_metaPolicy = '''',
      sc_agentDid = None, sc_serverDid = None, sc_clientInfo = None\<rparr>"

definition noProofOptions :: proofOptions where
  "noProofOptions = \<lparr>po_scopeId = None, po_delegationRef = None, po_clientDid = None, po_outcome = None, po_reason = None,
     po_profile = None, po_precomputedRequestHash = None\<rparr>"

definition generateRequestProof ::
  "'k signer \<Rightarrow> 'k proofIdentity \<Rightarrow> int \<Rightarrow> bytes \<Rightarrow> bytes \<Rightarrow> bytes \<Rightarrow> requestProofInput \<Rightarrow> proofError + detachedProof" where
  "generateRequestProof sg idn nowMs nonceBytes sessionBytes proofBytes input =
     generateProof sg idn nowMs proofBytes (toHolderBindingRequest (rq_toolName input) (rq_args input)) None
       (requestSession input nowMs nonceBytes sessionBytes) noProofOptions"

subsection \<open>The check\<close>

datatype holderBindingCause = AudienceMismatchCause | VerifierCause proofErrorCode

datatype holderBinding = Bound | Unbound "holderBindingCause option" | NotApplicable

definition isHolderBindingApplicable :: "string \<Rightarrow> bool" where
  "isHolderBindingApplicable subjectDid \<longleftrightarrow> extractPublicKeyFromDidKey subjectDid \<noteq> None"

record holderBindingInput =
  hb_proof :: "rawProof option"
  hb_subjectDid :: string
  hb_request :: toolRequest
  hb_response :: "jsvalue option"
  hb_expectedAudience :: "string list option"

definition assertHolderBinding ::
  "'n verifierDeps \<Rightarrow> proofVerifier \<Rightarrow> verifyEnv \<Rightarrow> holderBindingInput \<Rightarrow> 'n \<Rightarrow> holderBinding \<times> 'n" where
  "assertHolderBinding deps v env input s = (case extractPublicKeyFromDidKey (hb_subjectDid input) of
       None \<Rightarrow> (NotApplicable, s)
     | Some subjectKeyBytes \<Rightarrow>
         (case Option.bind (hb_proof input) rp_meta of
            None \<Rightarrow> (Unbound None, s)
          | Some meta \<Rightarrow>
              (if rm_did meta \<noteq> Text (hb_subjectDid input) then (Unbound None, s)
               else if (case hb_expectedAudience input of None \<Rightarrow> False | Some allowed \<Rightarrow> rm_audience meta \<notin> Text ` set allowed)
               then (Unbound (Some AudienceMismatchCause), s)
               else (case verifyProof deps v env (hb_proof input) (didKeyJwk (hb_subjectDid input) subjectKeyBytes)
                        (Some (hb_request input, hb_response input)) noOptions s of
                   (ProofValid, s') \<Rightarrow> (Bound, s')
                 | (ProofInvalid e, s') \<Rightarrow> (Unbound (Some (VerifierCause e)), s')))))"

subsection \<open>What a bound request shows\<close>

lemma validated_meta:
  assumes "validateDetachedProof (Some raw) = Inr dp"
  obtains m where "rp_meta raw = Some m" and "rm_did m = Text (pm_did (dp_meta dp))" and "rm_audience m = Text (pm_audience (dp_meta dp))"
proof -
  obtain m where m: "rp_meta raw = Some m" "validateMeta m = Inr (dp_meta dp)"
    using assms by (auto simp: validateDetachedProof_def andThen_def split: option.splits sum.splits)
  have read: "orFail e (requiredText f) = Inr s \<Longrightarrow> f = Text s" for e f s
    by (auto simp: orFail_def requiredText_def split: option.splits metaField.splits if_splits)
  have "rm_did m = Text (pm_did (dp_meta dp)) \<and> rm_audience m = Text (pm_audience (dp_meta dp))"
    using m(2) unfolding validateMeta_def andThen_def by (cases "dp_meta dp") (auto split: sum.splits dest!: read)
  then show thesis using that m(1) by blast
qed

lemma bound_verified:
  assumes "assertHolderBinding deps v env input s = (Bound, s')"
  obtains key raw where "length key = 32" and "hb_subjectDid input = generateDidKeyFromBytes key" and "hb_proof input = Some raw"
    and "verifyProof deps v env (Some raw) (didKeyJwk (hb_subjectDid input) key) (Some (hb_request input, hb_response input)) noOptions s = (ProofValid, s')"
    and "\<forall>m. rp_meta raw = Some m \<longrightarrow> rm_did m = Text (hb_subjectDid input) \<and>
      (hb_expectedAudience input = None \<or> rm_audience m \<in> Text ` set (the (hb_expectedAudience input)))"
proof -
  obtain key where key: "extractPublicKeyFromDidKey (hb_subjectDid input) = Some key"
    using assms by (cases "extractPublicKeyFromDidKey (hb_subjectDid input)") (simp_all add: assertHolderBinding_def)
  obtain raw m where raw: "hb_proof input = Some raw" "rp_meta raw = Some m"
    using assms key by (cases "hb_proof input"; cases "Option.bind (hb_proof input) rp_meta") (simp_all add: assertHolderBinding_def)
  have did: "rm_did m = Text (hb_subjectDid input)" using assms key raw by (simp add: assertHolderBinding_def split: if_splits)
  have aud: "hb_expectedAudience input = None \<or> rm_audience m \<in> Text ` set (the (hb_expectedAudience input))"
    using assms key raw did by (cases "hb_expectedAudience input") (auto simp: assertHolderBinding_def split: if_splits)
  have "verifyProof deps v env (Some raw) (didKeyJwk (hb_subjectDid input) key) (Some (hb_request input, hb_response input)) noOptions s = (ProofValid, s')"
    using assms key raw did aud
    by (auto simp: assertHolderBinding_def split: prod.splits verificationResult.splits if_splits option.splits)
  then show thesis using that [of key raw] key raw did aud did_key_extracts by auto
qed

text \<open>C8: theft of a delegation does not help. When the key of a did:key verifies only signatures its holder made, and the
  holder signed only the proofs it minted, a request that is bound to a subject carries the claims of a proof its holder
  minted: for that subject, for one of the expected audiences, and with the hash of a shape of the very request.\<close>

theorem bound_request_was_signed_by_holder:
  assumes "assertHolderBinding deps v env input s = (Bound, s')"
    and "\<And>key data sig. hb_subjectDid input = generateDidKeyFromBytes key \<Longrightarrow>
      vd_cryptoVerify deps data sig (bytesToBase64 key) = Some True \<Longrightarrow> signedBy minted data"
  shows "\<exists>meta \<in> minted. pm_did meta = hb_subjectDid input \<and>
    (hb_expectedAudience input = None \<or> pm_audience meta \<in> set (the (hb_expectedAudience input))) \<and>
    (\<exists>shape \<in> set (hb_request input # alternateRequestShapes (hb_request input)).
       hashValue (vd_hash deps) (canonicalRequest shape) = Inr (pm_requestHash meta))"
proof -
  from assms(1) obtain key raw where key: "length key = 32" "hb_subjectDid input = generateDidKeyFromBytes key"
    and ver: "verifyProof deps v env (Some raw) (didKeyJwk (hb_subjectDid input) key) (Some (hb_request input, hb_response input)) noOptions s = (ProofValid, s')"
    and raw: "\<forall>m. rp_meta raw = Some m \<longrightarrow> rm_did m = Text (hb_subjectDid input) \<and>
      (hb_expectedAudience input = None \<or> rm_audience m \<in> Text ` set (the (hb_expectedAudience input)))"
    by (rule bound_verified)
  from ver obtain dp payload where dp: "validateDetachedProof (Some raw) = Inr dp"
    and checks: "\<forall>r \<in> set (pureChecks deps v (ve_checkedAt env) dp (didKeyJwk (hb_subjectDid input) key) payload
        (Some (hb_request input, hb_response input)) noOptions). r = ProofValid"
    by (rule verifyProof_valid)
  have only: "signedBy minted data" if "vd_cryptoVerify deps data sig (bytesToBase64 key) = Some True" for data sig
    by (rule assms(2) [OF key(2) that])
  obtain meta where meta: "meta \<in> minted" "sameClaims meta (dp_meta dp)"
    using accepted_was_minted [OF ver dp didKeyJwk_publicKey [OF key(1)], of minted] only by blast
  obtain m where m: "rp_meta raw = Some m" "rm_did m = Text (pm_did (dp_meta dp))" "rm_audience m = Text (pm_audience (dp_meta dp))"
    using dp by (rule validated_meta)
  have "findContentBindingMismatch (vd_hash deps) (dp_meta dp) (hb_request input) (hb_response input) = Inr None"
    using checks by (simp add: pureChecks_def binding_valid)
  from no_mismatch(1) [OF this] show ?thesis
    using meta m mp [OF spec [OF raw] m(1)] by (intro bexI [of _ meta]) (auto simp: sameClaims_def)
qed

definition holderKey :: bytes where
  "holderKey = replicate 32 7"

definition holderDid :: string where
  "holderDid = generateDidKeyFromBytes holderKey"

definition holderMeta :: proofMeta where
  "holderMeta = exampleMeta\<lparr>pm_did := holderDid, pm_kid := holderDid @ ''#'' @ didKeyFragment holderDid\<rparr>"

definition holderDeps :: "memoryNonceCache verifierDeps" where
  "holderDeps = \<lparr>vd_jsonParse = (\<lambda>bs. Some (plainObject [(units ''alg'', VString (units ''EdDSA'')), (units ''kid'', VString (units (pm_kid holderMeta)))])),
     vd_cryptoVerify = (\<lambda>data sig key. Some (data = signingInput ''e30'' (projr (encodeCanonicalPayload holderMeta)))),
     vd_hash = (\<lambda>bs. pm_requestHash exampleMeta), vd_nonces = memoryNonceStore\<rparr>"

definition holderRequest :: holderBindingInput where
  "holderRequest = \<lparr>hb_proof = Some (sentProof \<lparr>dp_jws = ''e30..YQ'', dp_meta = holderMeta\<rparr>), hb_subjectDid = holderDid,
     hb_request = exampleRequestSent, hb_response = None, hb_expectedAudience = Some [''did:s'']\<rparr>"

lemma holder_payload: "\<exists>payload. encodeCanonicalPayload holderMeta = Inr payload"
proof -
  have "\<bar>pm_ts holderMeta\<bar> \<le> int MAX_SAFE_INTEGER" by (simp add: holderMeta_def exampleMeta_def MAX_SAFE_INTEGER_def)
  then show ?thesis by (rule payload_encodes) blast
qed

lemma holder_meta_valid: "validateDetachedProof (Some (sentProof \<lparr>dp_jws = ''e30..YQ'', dp_meta = holderMeta\<rparr>)) = Inr \<lparr>dp_jws = ''e30..YQ'', dp_meta = holderMeta\<rparr>"
proof (rule sent_validates)
  have "wellFormedMeta exampleMeta" by code_simp
  moreover have "holderDid \<noteq> []" by (simp add: holderDid_def generateDidKeyFromBytes_def)
  ultimately show "wellFormedMeta (dp_meta \<lparr>dp_jws = ''e30..YQ'', dp_meta = holderMeta\<rparr>)"
    by (simp add: wellFormedMeta_def holderMeta_def)
qed simp

lemma holder_bound: "fst (assertHolderBinding holderDeps exampleVerifier (exampleEnv 1000000) holderRequest (newNonceCache 0)) = Bound"
proof -
  let ?dp = "\<lparr>dp_jws = ''e30..YQ'', dp_meta = holderMeta\<rparr>"
  have key: "length holderKey = 32" by (simp add: holderKey_def)
  have ex: "extractPublicKeyFromDidKey holderDid = Some holderKey" unfolding holderDid_def by (rule did_key_resolves(2) [OF key])
  obtain payload where payload: "encodeCanonicalPayload holderMeta = Inr payload" using holder_payload by blast
  have meta: "pm_kid holderMeta = holderDid @ ''#'' @ didKeyFragment holderDid" "pm_did holderMeta = holderDid"
    "pm_audience holderMeta = ''did:s''" "pm_ts holderMeta = 1000" "pm_requestHash holderMeta = pm_requestHash exampleMeta" "pm_responseHash holderMeta = None"
    by (simp_all add: holderMeta_def exampleMeta_def)
  have "headerMember (plainObject [(units ''alg'', VString (units ''EdDSA'')), (units ''kid'', w)]) ''kid'' = w"
    "headerMember (plainObject [(units ''alg'', VString (units ''EdDSA'')), (units ''kid'', w)]) ''alg'' = VString (units ''EdDSA'')" for w
    by (simp_all add: headerMember_def plainObject_def dataMember_def units_inj)
  then have "verifySignature (vd_jsonParse holderDeps) (vd_cryptoVerify holderDeps) ''e30..YQ'' (didKeyJwk holderDid holderKey) payload (pm_kid holderMeta) = ProofValid"
    using didKeyJwk_valid [OF key, of holderDid]
    by (simp add: signature_valid verifyJWS_parsed parseJWS_def checkParsed_def example_segments parseSegment_def holderDeps_def
        didKeyJwk_publicKey [OF key] verifyEd25519_def signingInputs_def expectedAlg_def Let_def payload signingInput_def)
      (simp add: didKeyJwk_def meta)
  moreover have "validateSigner holderMeta noOptions = ProofValid"
    using kid_owner [of holderDid "didKeyFragment holderDid"] did_key_no_hash [of holderKey]
    by (simp add: signer_valid meta noOptions_def holderDid_def generateDidKeyFromBytes_def)
  moreover have "validateTimestamp exampleVerifier 1000000 (pm_ts holderMeta) = ProofValid"
    by (simp add: timestamp_valid meta exampleVerifier_def)
  moreover have "findContentBindingMismatch (vd_hash holderDeps) holderMeta exampleRequestSent None = Inr None"
  proof (rule generated_content_matches)
    have "denote (canonicalRequest exampleRequestSent) \<noteq> None"
      by (simp add: exampleRequestSent_def canonicalRequest_def plainObject_def dataMember_def units_encodable)
    then have "hashValue (vd_hash holderDeps) (canonicalRequest exampleRequestSent) = Inr (pm_requestHash exampleMeta)"
      using canonical_denoted by (auto simp: hashValue_def canonicalizeJsonBytes_def holderDeps_def)
    then show "computeCanonicalHashes (vd_hash holderDeps) exampleRequestSent None (profileOf (pm_prf holderMeta)) =
        Inr (pm_requestHash holderMeta, pm_responseHash holderMeta)" by (simp add: computed_hashes meta)
  qed
  ultimately have checks: "firstFailure (pureChecks holderDeps exampleVerifier 1000000 ?dp (didKeyJwk holderDid holderKey) payload
      (Some (exampleRequestSent, None)) noOptions) = ProofValid"
    by (simp add: firstFailure_valid pureChecks_def binding_valid)
  have "fst (consumeNonce memoryNonceStore exampleVerifier (exampleEnv 1000000) holderMeta (newNonceCache 0)) = ProofValid"
    by (rule consume_fresh) (simp_all add: exampleVerifier_def cacheRefuses_def newNonceCache_def)
  then have "fst (verifyProof holderDeps exampleVerifier (exampleEnv 1000000) (Some (sentProof ?dp)) (didKeyJwk holderDid holderKey)
      (Some (exampleRequestSent, None)) noOptions (newNonceCache 0)) = ProofValid"
    using checks by (simp add: verifyProof_def holder_meta_valid payload runVerificationPipeline_def exampleEnv_def)
      (simp add: holderDeps_def)
  then obtain s' where s': "verifyProof holderDeps exampleVerifier (exampleEnv 1000000) (Some (sentProof ?dp)) (didKeyJwk holderDid holderKey)
      (Some (exampleRequestSent, None)) noOptions (newNonceCache 0) = (ProofValid, s')" by (metis prod.collapse)
  obtain m where "rp_meta (sentProof ?dp) = Some m" "rm_did m = Text holderDid" "rm_audience m = Text ''did:s''"
    using validated_meta [OF holder_meta_valid] meta by auto
  then show ?thesis using s' by (simp add: assertHolderBinding_def holderRequest_def ex)
qed

lemma bound_request_was_signed_by_holder_witness:
  "\<exists>meta \<in> {holderMeta}. pm_did meta = holderDid \<and> pm_audience meta \<in> {''did:s''}"
proof -
  obtain s' where bound: "assertHolderBinding holderDeps exampleVerifier (exampleEnv 1000000) holderRequest (newNonceCache 0) = (Bound, s')"
    using holder_bound by (metis prod.collapse)
  have "signedBy {holderMeta} data" if "vd_cryptoVerify holderDeps data sig key = Some True" for data sig key
    using that holder_payload by (auto simp: holderDeps_def signedBy_def intro: exI [of _ "''e30''"])
  from bound_request_was_signed_by_holder [OF bound, of "{holderMeta}"] this show ?thesis
    by (simp add: holderRequest_def)
qed

end
