(* ===== verification/Grant_Store.thy ===== *)
theory Grant_Store
  imports Vc_Checks
begin

text \<open>
  \<open>src/providers/grant-store.ts\<close>: approved authorization grants, bound to an agent and
  optionally to a session, with soft revocation. The clock is an argument of the operations
  that read it.
\<close>

datatype grantStatus = GrantActive | GrantExpired | GrantRevoked

record grant =
  g_id :: string
  g_agentDid :: string
  g_userDid :: "jsvalue option"
  g_scopes :: "string list"
  g_sessionId :: "string option"
  g_credentialJwt :: "jsstring option"
  g_delegationCredential :: "jsvalue option"
  g_issuedAt :: int
  g_expiresAt :: "decimal option"
  g_status :: grantStatus
  g_revocationReason :: "string option"

type_synonym grantStore = "(string, grant) jsmap"

definition bindGrant :: "grant \<Rightarrow> grantStore \<Rightarrow> grantStore" where
  "bindGrant g s = jm_set (g_id g) g s"

definition pastExpiry :: "int \<Rightarrow> grant \<Rightarrow> bool" where
  "pastExpiry now g = (case g_expiresAt g of None \<Rightarrow> False | Some t \<Rightarrow> \<not> decimalLess (now, 0) t)"

definition activeGrants :: "int \<Rightarrow> grantStore \<Rightarrow> grant list" where
  "activeGrants now s = filter (\<lambda>g. g_status g = GrantActive \<and> \<not> pastExpiry now g) (map snd s)"

definition coversScopes :: "grant \<Rightarrow> string list option \<Rightarrow> bool" where
  "coversScopes g required = (case required of
       None \<Rightarrow> True | Some rs \<Rightarrow> rs = [] \<or> list_all (\<lambda>s. s \<in> set (g_scopes g)) rs)"

definition getByAgent :: "int \<Rightarrow> string \<Rightarrow> string list option \<Rightarrow> grantStore \<Rightarrow> grant list" where
  "getByAgent now agentDid required s =
     filter (\<lambda>g. g_agentDid g = agentDid \<and> coversScopes g required) (activeGrants now s)"

definition getBySession :: "int \<Rightarrow> string \<Rightarrow> string list option \<Rightarrow> grantStore \<Rightarrow> grant list" where
  "getBySession now sessionId required s =
     filter (\<lambda>g. g_sessionId g = Some sessionId \<and> coversScopes g required) (activeGrants now s)"

definition getGrantById :: "string \<Rightarrow> grantStore \<Rightarrow> grant option" where
  "getGrantById i s = jm_get s i"

definition revokeGrant :: "string \<Rightarrow> string option \<Rightarrow> grantStore \<Rightarrow> grantStore" where
  "revokeGrant i reason s = (case jm_get s i of
       None \<Rightarrow> s
     | Some g \<Rightarrow> jm_set i (g\<lparr>g_status := GrantRevoked,
         g_revocationReason := (case reason of None \<Rightarrow> g_revocationReason g | Some r \<Rightarrow> Some r)\<rparr>) s)"

definition cleanupGrants :: "int \<Rightarrow> grantStore \<Rightarrow> grantStore" where
  "cleanupGrants now s = filter (\<lambda>(_, g). \<not> pastExpiry now g) s"

subsection \<open>The store\<close>

datatype grantOp = Bind grant | Revoke string "string option" | CleanupAt int

fun runGrantOp :: "grantOp \<Rightarrow> grantStore \<Rightarrow> grantStore" where
  "runGrantOp (Bind g) = bindGrant g"
| "runGrantOp (Revoke i reason) = revokeGrant i reason"
| "runGrantOp (CleanupAt now) = cleanupGrants now"

definition grantsWf :: "grantStore \<Rightarrow> bool" where
  "grantsWf s \<longleftrightarrow> distinct (jm_keys s) \<and> (\<forall>(i, g) \<in> set s. g_id g = i)"

lemma grantsWf_get: "grantsWf s \<Longrightarrow> jm_get s i = Some g \<Longrightarrow> g_id g = i"
  by (auto simp: grantsWf_def dest: map_of_SomeD)

lemma in_store: "grantsWf s \<Longrightarrow> g \<in> set (map snd s) \<longleftrightarrow> jm_get s (g_id g) = Some g"
  by (force simp: grantsWf_def image_iff dest: map_of_SomeD)

lemma bindGrant_wf: "grantsWf s \<Longrightarrow> grantsWf (bindGrant g s)"
proof -
  assume wf: "grantsWf s"
  have "set (jm_set (g_id g) g s) \<subseteq> insert (g_id g, g) (set s)"
    by (induction s) auto
  then show ?thesis using wf by (auto simp: grantsWf_def bindGrant_def)
qed

lemma revokeGrant_bind:
  "grantsWf s \<Longrightarrow> revokeGrant i reason s = s \<or> (\<exists>g. g_id g = i \<and> g_status g = GrantRevoked \<and> revokeGrant i reason s = bindGrant g s)"
proof (cases "jm_get s i")
  case (Some g)
  assume "grantsWf s"
  let ?r = "g\<lparr>g_status := GrantRevoked,
    g_revocationReason := (case reason of None \<Rightarrow> g_revocationReason g | Some r \<Rightarrow> Some r)\<rparr>"
  have i: "g_id ?r = i" using grantsWf_get [OF \<open>grantsWf s\<close> Some] by simp
  have "revokeGrant i reason s = bindGrant ?r s"
    unfolding bindGrant_def i using Some by (simp add: revokeGrant_def)
  then have "g_id ?r = i \<and> g_status ?r = GrantRevoked \<and> revokeGrant i reason s = bindGrant ?r s"
    using i by simp
  then show ?thesis by (rule disjI2 [OF exI])
qed (simp add: revokeGrant_def)

lemma distinct_keys_filter: "distinct (jm_keys s) \<Longrightarrow> distinct (jm_keys (filter P s))"
  by (induction s) (auto simp: image_iff)

lemma runGrantOp_wf: "grantsWf s \<Longrightarrow> grantsWf (runGrantOp op s)"
proof (cases op)
  case (Revoke i reason)
  assume "grantsWf s"
  then show ?thesis using revokeGrant_bind [of s i reason] bindGrant_wf Revoke by auto
next
  case (Bind g)
  assume "grantsWf s"
  then show ?thesis using Bind by (simp add: bindGrant_wf)
next
  case (CleanupAt now)
  assume "grantsWf s"
  then show ?thesis using CleanupAt by (auto simp: cleanupGrants_def grantsWf_def distinct_keys_filter)
qed

lemma runGrants_wf: "grantsWf s \<Longrightarrow> grantsWf (fold runGrantOp ops s)"
  by (induction ops arbitrary: s) (simp_all add: runGrantOp_wf)

text \<open>a lookup returns exactly the live grants it is asked for. In a store reached by any
  operations, \<open>getBySession\<close> returns a grant if and only if it is stored, active, before its
  expiry, bound to that very session and covers the required scopes, so a grant bound to one
  session, or to none, is never returned to another; \<open>getByAgent\<close> likewise by agent.\<close>

theorem grant_lookups_exact:
  "(g \<in> set (getBySession now sid required (fold runGrantOp ops [])) \<longleftrightarrow>
      getGrantById (g_id g) (fold runGrantOp ops []) = Some g \<and> g_status g = GrantActive \<and>
      pastExpiry now g = False \<and> g_sessionId g = Some sid \<and> coversScopes g required) \<and>
   (g \<in> set (getByAgent now did required (fold runGrantOp ops [])) \<longleftrightarrow>
      getGrantById (g_id g) (fold runGrantOp ops []) = Some g \<and> g_status g = GrantActive \<and>
      pastExpiry now g = False \<and> g_agentDid g = did \<and> coversScopes g required)"
proof -
  have wf: "grantsWf (fold runGrantOp ops [])" by (rule runGrants_wf) (simp add: grantsWf_def)
  show ?thesis
    using in_store [OF wf, of g]
    by (auto simp: getBySession_def getByAgent_def activeGrants_def getGrantById_def)
qed

text \<open>An operation that does not bind the id again.\<close>

fun leavesUnbound :: "string \<Rightarrow> grantOp \<Rightarrow> bool" where
  "leavesUnbound i (Bind g) = (g_id g \<noteq> i)"
| "leavesUnbound i _ = True"

definition notActive :: "string \<Rightarrow> grantStore \<Rightarrow> bool" where
  "notActive i s = (case jm_get s i of None \<Rightarrow> True | Some g \<Rightarrow> g_status g = GrantRevoked)"

lemma jm_get_filter:
  "distinct (jm_keys s) \<Longrightarrow> jm_get (filter (\<lambda>(k, v). P v) s) i = (case jm_get s i of None \<Rightarrow> None | Some g \<Rightarrow> if P g then Some g else None)"
  by (induction s) (auto split: option.splits simp: map_of_eq_None_iff image_iff dest: map_of_SomeD)

lemma runGrantOp_notActive:
  "grantsWf s \<Longrightarrow> leavesUnbound i op \<Longrightarrow> notActive i s \<Longrightarrow> notActive i (runGrantOp op s)"
proof (cases op)
  case (CleanupAt now)
  assume "grantsWf s" "notActive i s"
  then show ?thesis
    using CleanupAt jm_get_filter [of s "\<lambda>g. \<not> pastExpiry now g" i]
    by (cases "jm_get s i") (simp_all add: notActive_def cleanupGrants_def grantsWf_def)
qed (auto simp: notActive_def bindGrant_def revokeGrant_def split: option.splits)

lemma runGrants_notActive:
  "grantsWf s \<Longrightarrow> list_all (leavesUnbound i) ops \<Longrightarrow> notActive i s \<Longrightarrow> notActive i (fold runGrantOp ops s)"
  by (induction ops arbitrary: s) (simp_all add: runGrantOp_wf runGrantOp_notActive)

text \<open>revocation of a grant lasts. After a revocation, no sequence of operations that does not
  bind the same id again makes any lookup return the grant, at any time.\<close>

theorem revoked_grant_stays_revoked:
  assumes "list_all (leavesUnbound i) later" and "g_id g = i"
  shows "g \<notin> set (getBySession now sid required (fold runGrantOp later (revokeGrant i reason (fold runGrantOp before [])))) \<and>
    g \<notin> set (getByAgent now did required (fold runGrantOp later (revokeGrant i reason (fold runGrantOp before []))))"
proof -
  let ?s = "fold runGrantOp before []"
  have wf: "grantsWf ?s" by (rule runGrants_wf) (simp add: grantsWf_def)
  have wf': "grantsWf (revokeGrant i reason ?s)" using runGrantOp_wf [OF wf, of "Revoke i reason"] by simp
  have "notActive i (revokeGrant i reason ?s)"
    by (auto simp: notActive_def revokeGrant_def split: option.splits)
  from runGrants_notActive [OF wf' assms(1) this]
  have "notActive i (fold runGrantOp later (revokeGrant i reason ?s))" .
  then show ?thesis
    using in_store [OF runGrants_wf [OF wf'], of g later] assms(2)
    by (auto simp: notActive_def getBySession_def getByAgent_def activeGrants_def split: option.splits)
qed

definition exampleGrant :: grant where
  "exampleGrant = \<lparr>g_id = ''g1'', g_agentDid = ''did:key:a'', g_userDid = None, g_scopes = [''files:read''],
     g_sessionId = Some ''s1'', g_credentialJwt = None, g_delegationCredential = None, g_issuedAt = 0,
     g_expiresAt = None, g_status = GrantActive, g_revocationReason = None\<rparr>"

theorem revoked_grant_stays_revoked_witness:
  "exampleGrant \<in> set (getBySession 5 ''s1'' None (fold runGrantOp [Bind exampleGrant] [])) \<and>
   exampleGrant \<notin> set (getBySession 5 ''s1'' None (fold runGrantOp [CleanupAt 3]
     (revokeGrant ''g1'' None (fold runGrantOp [Bind exampleGrant] []))))"
proof
  show "exampleGrant \<in> set (getBySession 5 ''s1'' None (fold runGrantOp [Bind exampleGrant] []))"
    by (simp add: getBySession_def activeGrants_def bindGrant_def exampleGrant_def pastExpiry_def coversScopes_def)
  show "exampleGrant \<notin> set (getBySession 5 ''s1'' None (fold runGrantOp [CleanupAt 3]
     (revokeGrant ''g1'' None (fold runGrantOp [Bind exampleGrant] []))))"
    by (rule revoked_grant_stays_revoked [THEN conjunct1]) (simp_all add: exampleGrant_def)
qed

end
