(* ===== verification/Policy.thy ===== *)
theory Policy
  imports Kya_Prelude
begin

text \<open>
  \<open>src/policy\<close>: the risk classifier, the projection of resolved facts to a policy request, the
  default engine and quorum verification over signed approval grants. Checking a grant's
  signature is a parameter.
\<close>

subsection \<open>Facts and decisions\<close>

datatype reversibility = Reversible | ReversibleWithEffort | Irreversible | UnknownReversibility

datatype blastRadius = RecordRadius | ResourceRadius | CollectionRadius | TenantRadius
  | EnvironmentRadius | GlobalRadius | UnknownRadius

datatype severity = NoSeverity | Low | Medium | High | Catastrophic | UnknownSeverity

record riskAssessment =
  ra_reversibility :: reversibility
  ra_blastRadius :: blastRadius
  ra_severity :: severity

record policyRequest =
  pr_agentDid :: string
  pr_responsibleParty :: "string option"
  pr_toolName :: string
  pr_namespace :: string
  pr_delegatedScopes :: "string list"
  pr_budgetRemaining :: "int option"
  pr_scopeMatched :: bool
  pr_humanApprovals :: "string list"
  pr_risk :: riskAssessment

record quorum =
  q_n :: int
  q_approvers :: "string list"

datatype policyDecision = Allow | Deny string | StepUp quorum string

subsection \<open>The classifier\<close>

record partialRisk =
  ph_reversibility :: "reversibility option"
  ph_blastRadius :: "blastRadius option"
  ph_severity :: "severity option"

definition SENSITIVE_VERBS :: "string list" where
  "SENSITIVE_VERBS = [''delete'', ''drop'', ''destroy'', ''remove'', ''terminate'', ''transfer'', ''payment'',
     ''admin'', ''execute'', ''modify'', ''write'', ''rotate'', ''revoke'']"

definition READ_VERBS :: "string list" where
  "READ_VERBS = [''read'', ''get'', ''list'', ''describe'', ''search'', ''query'']"

definition inRange :: "nat \<Rightarrow> nat \<Rightarrow> char \<Rightarrow> bool" where
  "inRange a b c \<longleftrightarrow> a \<le> of_char c \<and> of_char c \<le> b"

definition isLowerOrDigit :: "char \<Rightarrow> bool" where
  "isLowerOrDigit c \<longleftrightarrow> inRange 97 122 c \<or> inRange 48 57 c"

definition isUpper :: "char \<Rightarrow> bool" where
  "isUpper c \<longleftrightarrow> inRange 65 90 c"

definition lowerChar :: "char \<Rightarrow> char" where
  "lowerChar c = (if isUpper c \<or> inRange 192 214 c \<or> inRange 216 222 c then char_of (of_char c + 32 :: nat) else c)"

fun camelSpaces :: "string \<Rightarrow> string" where
  "camelSpaces (a # b # s) = (if isLowerOrDigit a \<and> isUpper b then a # CHR '' '' # camelSpaces (b # s) else a # camelSpaces (b # s))"
| "camelSpaces s = s"

definition isNameSeparator :: "char \<Rightarrow> bool" where
  "isNameSeparator c \<longleftrightarrow> c \<in> set ''.:/_-'' \<or> isTrimSpace c"

definition tokenize :: "string \<Rightarrow> string list" where
  "tokenize name = filter (\<lambda>t. t \<noteq> []) (map (map lowerChar)
     (concat (map (\<lambda>seg. splitOn isTrimSpace (camelSpaces seg)) (splitOn isNameSeparator name))))"

definition isProd :: "string \<Rightarrow> bool" where
  "isProd namespace = (let t = tokenize namespace in ''prod'' \<in> set t \<or> ''production'' \<in> set t)"

definition withHint :: "partialRisk option \<Rightarrow> riskAssessment \<Rightarrow> riskAssessment" where
  "withHint hint base = (case hint of
       None \<Rightarrow> base
     | Some h \<Rightarrow> \<lparr>ra_reversibility = (case ph_reversibility h of None \<Rightarrow> ra_reversibility base | Some x \<Rightarrow> x),
         ra_blastRadius = (case ph_blastRadius h of None \<Rightarrow> ra_blastRadius base | Some x \<Rightarrow> x),
         ra_severity = (case ph_severity h of None \<Rightarrow> ra_severity base | Some x \<Rightarrow> x)\<rparr>)"

definition baseRisk :: "string \<Rightarrow> string \<Rightarrow> riskAssessment" where
  "baseRisk toolName namespace =
     (let tokens = tokenize toolName; prod = isProd namespace
      in if list_ex (\<lambda>t. t \<in> set SENSITIVE_VERBS) tokens
         then \<lparr>ra_reversibility = Irreversible, ra_blastRadius = (if prod then EnvironmentRadius else ResourceRadius),
               ra_severity = (if prod then Catastrophic else High)\<rparr>
         else if list_ex (\<lambda>t. t \<in> set READ_VERBS) tokens
         then \<lparr>ra_reversibility = Reversible, ra_blastRadius = RecordRadius, ra_severity = Low\<rparr>
         else \<lparr>ra_reversibility = UnknownReversibility, ra_blastRadius = UnknownRadius, ra_severity = UnknownSeverity\<rparr>)"

definition classify :: "(string \<Rightarrow> partialRisk option) \<Rightarrow> string \<Rightarrow> string \<Rightarrow> riskAssessment" where
  "classify hints toolName namespace =
     (let hint = hints toolName
      in (case hint of
            Some h \<Rightarrow> (case (ph_reversibility h, ph_blastRadius h, ph_severity h) of
                (Some r, Some b, Some s) \<Rightarrow> \<lparr>ra_reversibility = r, ra_blastRadius = b, ra_severity = s\<rparr>
              | _ \<Rightarrow> withHint hint (baseRisk toolName namespace))
          | None \<Rightarrow> withHint hint (baseRisk toolName namespace)))"

subsection \<open>The projection\<close>

record policyInput =
  pi_agentDid :: string
  pi_responsibleParty :: "string option"
  pi_toolName :: string
  pi_namespace :: string
  pi_delegatedScopes :: "string list"
  pi_scopeMatched :: bool
  pi_risk :: riskAssessment
  pi_humanApprovals :: "string list option"
  pi_budgetRemaining :: "int option"

definition buildPolicyRequest :: "policyInput \<Rightarrow> policyRequest" where
  "buildPolicyRequest i =
     \<lparr>pr_agentDid = pi_agentDid i,
      pr_responsibleParty = (if truthy (pi_responsibleParty i) then pi_responsibleParty i else None),
      pr_toolName = pi_toolName i, pr_namespace = pi_namespace i, pr_delegatedScopes = pi_delegatedScopes i,
      pr_budgetRemaining = pi_budgetRemaining i, pr_scopeMatched = pi_scopeMatched i,
      pr_humanApprovals = (case pi_humanApprovals i of None \<Rightarrow> [] | Some a \<Rightarrow> a), pr_risk = pi_risk i\<rparr>"

subsection \<open>The default engine\<close>

record defaultPolicyConfig =
  dc_stepUpQuorum :: "int option"
  dc_stepUpApprovers :: "string list option"

definition dangerous :: "riskAssessment \<Rightarrow> bool" where
  "dangerous r \<longleftrightarrow> ra_reversibility r = Irreversible \<or> ra_severity r = Catastrophic \<or> ra_severity r = High"

definition evaluate :: "defaultPolicyConfig \<Rightarrow> policyRequest \<Rightarrow> policyDecision" where
  "evaluate cfg req =
     (let risk = pr_risk req
      in if \<not> pr_scopeMatched req then Deny ''scope_not_matched''
         else if ra_severity risk = UnknownSeverity \<or> ra_reversibility risk = UnknownReversibility
           then Deny ''unclassified_high_risk''
         else if dangerous risk then
           (let n = (case dc_stepUpQuorum cfg of None \<Rightarrow> 1 | Some k \<Rightarrow> k);
                allowed = (case dc_stepUpApprovers cfg of None \<Rightarrow> [] | Some a \<Rightarrow> a);
                approvers = js_set (filter (\<lambda>did. allowed = [] \<or> did \<in> set allowed) (pr_humanApprovals req))
            in if n \<le> int (length approvers) then Allow
               else StepUp \<lparr>q_n = n, q_approvers = allowed\<rparr> ''destructive_action_requires_approval'')
         else Allow)"

subsection \<open>Approval quorums\<close>

record approvalGrant =
  ag_approvalRequestId :: string
  ag_approverDid :: string
  ag_requestHash :: string
  ag_approves :: bool
  ag_ts :: int
  ag_signature :: string

record quorumResult =
  qr_satisfied :: bool
  qr_approvers :: "string list"

definition countsFor :: "string list \<Rightarrow> quorum \<Rightarrow> (approvalGrant \<Rightarrow> bool) \<Rightarrow> approvalGrant \<Rightarrow> bool" where
  "countsFor actionHashes q isValidSignature g \<longleftrightarrow>
     ag_approves g \<and> ag_requestHash g \<in> set actionHashes \<and>
     \<not> (q_approvers q \<noteq> [] \<and> ag_approverDid g \<notin> set (q_approvers q)) \<and> isValidSignature g"

definition verifyApprovalQuorum ::
  "approvalGrant list \<Rightarrow> string list \<Rightarrow> quorum \<Rightarrow> (approvalGrant \<Rightarrow> bool) \<Rightarrow> quorumResult" where
  "verifyApprovalQuorum grants actionHashes q isValidSignature =
     (if q_n q \<le> 0 then \<lparr>qr_satisfied = False, qr_approvers = []\<rparr>
      else
        (let approvers = js_set (map ag_approverDid (filter (countsFor actionHashes q isValidSignature) grants))
         in \<lparr>qr_satisfied = (q_n q \<le> int (length approvers)), qr_approvers = approvers\<rparr>))"

subsection \<open>Decisions\<close>

text \<open>C37: the default engine fails closed. It allows exactly the requests whose scope matched and
  whose risk is classified, when they are not dangerous or when at least the configured number
  of distinct approvers, all on the allowlist if there is one, stand behind them.\<close>

theorem evaluate_allows_iff:
  "evaluate cfg req = Allow \<longleftrightarrow>
     pr_scopeMatched req \<and> ra_severity (pr_risk req) \<noteq> UnknownSeverity \<and>
     ra_reversibility (pr_risk req) \<noteq> UnknownReversibility \<and>
     (if dangerous (pr_risk req)
      then (case dc_stepUpQuorum cfg of None \<Rightarrow> 1 | Some k \<Rightarrow> k) \<le>
        int (card {did \<in> set (pr_humanApprovals req).
          dc_stepUpApprovers cfg \<in> {None, Some []} \<or> did \<in> set (the (dc_stepUpApprovers cfg))})
      else True)"
proof -
  let ?allowed = "case dc_stepUpApprovers cfg of None \<Rightarrow> [] | Some a \<Rightarrow> a"
  have "{did \<in> set (pr_humanApprovals req). ?allowed = [] \<or> did \<in> set ?allowed} =
      {did \<in> set (pr_humanApprovals req). dc_stepUpApprovers cfg \<in> {None, Some []} \<or> did \<in> set (the (dc_stepUpApprovers cfg))}"
    by (cases "dc_stepUpApprovers cfg") auto
  then show ?thesis
    by (simp add: evaluate_def Let_def length_js_set)
qed

lemma verifyApprovalQuorum_approvers:
  "0 < q_n q \<Longrightarrow> set (qr_approvers (verifyApprovalQuorum grants hashes q valid)) =
     {d. \<exists>g \<in> set grants. countsFor hashes q valid g \<and> ag_approverDid g = d}"
  by (auto simp: verifyApprovalQuorum_def Let_def)

lemma verifyApprovalQuorum_satisfied:
  "qr_satisfied (verifyApprovalQuorum grants hashes q valid) \<longleftrightarrow>
     0 < q_n q \<and> q_n q \<le> int (card (set (qr_approvers (verifyApprovalQuorum grants hashes q valid))))"
  by (auto simp: verifyApprovalQuorum_def Let_def length_js_set)

text \<open>a quorum is real. It is satisfied exactly when it asks for a positive number and at least
  that many distinct allowed approvers each signed an approval of exactly the suspended action.\<close>

theorem quorum_satisfied_iff:
  "qr_satisfied (verifyApprovalQuorum grants hashes q valid) \<longleftrightarrow>
     0 < q_n q \<and>
     q_n q \<le> int (card (ag_approverDid ` {g \<in> set grants. ag_approves g \<and> ag_requestHash g \<in> set hashes \<and>
       (q_approvers q = [] \<or> ag_approverDid g \<in> set (q_approvers q)) \<and> valid g}))"
proof (cases "0 < q_n q")
  case True
  have "{d. \<exists>g \<in> set grants. countsFor hashes q valid g \<and> ag_approverDid g = d} =
      ag_approverDid ` {g \<in> set grants. ag_approves g \<and> ag_requestHash g \<in> set hashes \<and>
       (q_approvers q = [] \<or> ag_approverDid g \<in> set (q_approvers q)) \<and> valid g}"
    by (auto simp: countsFor_def)
  with True show ?thesis
    by (simp only: verifyApprovalQuorum_satisfied verifyApprovalQuorum_approvers)
qed (simp add: verifyApprovalQuorum_satisfied)

text \<open>a step-up ends in an allow exactly when it was approved. When the engine suspends a
  request for a quorum of at least one, the same request carrying the approvers that quorum
  verification returned is allowed if and only if the quorum was satisfied.\<close>

theorem step_up_resumes_iff_approved:
  assumes "evaluate cfg req = StepUp q reason" and "0 < q_n q"
  shows "evaluate cfg (req\<lparr>pr_humanApprovals := qr_approvers (verifyApprovalQuorum grants hashes q valid)\<rparr>) = Allow \<longleftrightarrow>
    qr_satisfied (verifyApprovalQuorum grants hashes q valid)"
proof -
  let ?a = "qr_approvers (verifyApprovalQuorum grants hashes q valid)"
  from assms(1) have req: "pr_scopeMatched req" "ra_severity (pr_risk req) \<noteq> UnknownSeverity"
      "ra_reversibility (pr_risk req) \<noteq> UnknownReversibility" "dangerous (pr_risk req)"
    and q: "q_n q = (case dc_stepUpQuorum cfg of None \<Rightarrow> 1 | Some k \<Rightarrow> k)"
      "q_approvers q = (case dc_stepUpApprovers cfg of None \<Rightarrow> [] | Some a \<Rightarrow> a)"
    by (auto simp: evaluate_def Let_def split: if_splits)
  have "filter (\<lambda>did. q_approvers q = [] \<or> did \<in> set (q_approvers q)) ?a = ?a"
    using verifyApprovalQuorum_approvers [OF assms(2)] by (auto simp: filter_id_conv countsFor_def)
  then have "evaluate cfg (req\<lparr>pr_humanApprovals := ?a\<rparr>) = Allow \<longleftrightarrow> q_n q \<le> int (length (js_set ?a))"
    using req q by (simp add: evaluate_def Let_def)
  then show ?thesis
    using assms(2) by (simp add: length_js_set verifyApprovalQuorum_satisfied)
qed

definition exampleAction :: "string \<Rightarrow> string \<Rightarrow> string list \<Rightarrow> policyRequest" where
  "exampleAction tool ns approvals = buildPolicyRequest
     \<lparr>pi_agentDid = ''did:key:a'', pi_responsibleParty = None, pi_toolName = tool, pi_namespace = ns,
      pi_delegatedScopes = [], pi_scopeMatched = True, pi_risk = classify (\<lambda>_. None) tool ns,
      pi_humanApprovals = Some approvals, pi_budgetRemaining = None\<rparr>"

definition defaultPolicy :: defaultPolicyConfig where
  "defaultPolicy = \<lparr>dc_stepUpQuorum = None, dc_stepUpApprovers = None\<rparr>"

theorem step_up_resumes_iff_approved_witness:
  "evaluate defaultPolicy ((exampleAction ''users.deleteAll'' ''prod'' [])\<lparr>pr_humanApprovals :=
      qr_approvers (verifyApprovalQuorum
        [\<lparr>ag_approvalRequestId = ''r'', ag_approverDid = ''did:cfo'', ag_requestHash = ''h'', ag_approves = True,
          ag_ts = 0, ag_signature = ''s''\<rparr>] [''h''] \<lparr>q_n = 1, q_approvers = []\<rparr> (\<lambda>_. True))\<rparr>) = Allow"
proof -
  have "evaluate defaultPolicy (exampleAction ''users.deleteAll'' ''prod'' []) =
      StepUp \<lparr>q_n = 1, q_approvers = []\<rparr> ''destructive_action_requires_approval''"
    by code_simp
  from step_up_resumes_iff_approved [OF this, of "[\<lparr>ag_approvalRequestId = ''r'', ag_approverDid = ''did:cfo'',
      ag_requestHash = ''h'', ag_approves = True, ag_ts = 0, ag_signature = ''s''\<rparr>]" "[''h'']" "\<lambda>_. True"]
  show ?thesis by (simp add: verifyApprovalQuorum_def countsFor_def js_set_def js_add_def)
qed

text \<open>what an unapproved call of a tool in scope gets, by the words of its name, under the
  default policy and without hints: a step-up when one is a sensitive verb, otherwise an allow
  when one is a read verb, otherwise a denial. The namespace never weakens the decision.\<close>

theorem unapproved_tool_decision:
  "evaluate defaultPolicy (exampleAction tool ns []) =
     (if list_ex (\<lambda>t. t \<in> set SENSITIVE_VERBS) (tokenize tool)
        then StepUp \<lparr>q_n = 1, q_approvers = []\<rparr> ''destructive_action_requires_approval''
      else if list_ex (\<lambda>t. t \<in> set READ_VERBS) (tokenize tool) then Allow
      else Deny ''unclassified_high_risk'')"
  by (simp add: exampleAction_def buildPolicyRequest_def classify_def withHint_def baseRisk_def evaluate_def
      dangerous_def defaultPolicy_def js_set_def Let_def)

text \<open>a quorum of zero is not treated alike. Quorum verification never satisfies it, but the
  default engine configured with it allows a dangerous action that nobody approved.\<close>

theorem zero_quorum_auto_allows:
  "evaluate \<lparr>dc_stepUpQuorum = Some 0, dc_stepUpApprovers = None\<rparr> (exampleAction ''users.deleteAll'' ''prod'' []) = Allow \<and>
   \<not> qr_satisfied (verifyApprovalQuorum grants hashes \<lparr>q_n = 0, q_approvers = []\<rparr> valid)"
proof
  show "evaluate \<lparr>dc_stepUpQuorum = Some 0, dc_stepUpApprovers = None\<rparr> (exampleAction ''users.deleteAll'' ''prod'' []) = Allow"
    by code_simp
qed (simp add: verifyApprovalQuorum_def)

end
