(* ===== verification/Call_Gate.thy ===== *)
theory Call_Gate
  imports Delegation_Check Holder_Binding Grant_Store Policy
begin

text \<open>
  \<open>src/middleware/with-kya-os.grants.ts\<close>, \<open>with-kya-os.delegation-gate.ts\<close> and \<open>with-kya-os.policy-gate.ts\<close>: the
  two gates a call passes before its handler runs. A call reads its arguments, the clock, the grant store and the
  credential verifier at moments that are arguments of the definitions; the replay store of the holder proofs is
  threaded through. The result says which branch was taken, with the arguments and the context the handler gets, and
  the grant that is bound. The text of a refusal and the proof attached to it are left out.
\<close>

subsection \<open>Control arguments\<close>

definition DEFAULT_APPROVALS_KEY :: string where
  "DEFAULT_APPROVALS_KEY = ''_kyaos_approvals''"

definition withoutControlArgs :: "jsmember list \<Rightarrow> jsvalue" where
  "withoutControlArgs args = assignedObject (filter (\<lambda>kv. \<not> isKyaOsControlArg (fst kv)) (entriesOf args))"

abbreviation argument :: "string \<Rightarrow> jsmember list \<Rightarrow> jsvalue" where
  "argument name args \<equiv> getMember (units name) args"

subsection \<open>Reading a proof\<close>

definition metaMember :: "jsvalue \<Rightarrow> metaField" where
  "metaMember v = (case v of VUndefined \<Rightarrow> Missing | VString s \<Rightarrow> Text (narrow s)
     | VNumber (NumInt i) \<Rightarrow> Number (JsInteger i) | VNumber _ \<Rightarrow> Number JsNonInteger | _ \<Rightarrow> OtherField)"

definition rawMetaOf :: "jsvalue \<Rightarrow> rawMeta" where
  "rawMetaOf m =
     (let member = (\<lambda>name. metaMember (jsGet m name))
      in \<lparr>rm_did = member ''did'', rm_kid = member ''kid'', rm_ts = member ''ts'', rm_nonce = member ''nonce'',
          rm_audience = member ''audience'', rm_sessionId = member ''sessionId'', rm_requestHash = member ''requestHash'',
          rm_responseHash = member ''responseHash'', rm_scopeId = member ''scopeId'', rm_delegationRef = member ''delegationRef'',
          rm_clientDid = member ''clientDid'', rm_outcome = member ''outcome'', rm_reason = member ''reason'', rm_prf = member ''prf''\<rparr>)"

definition rawProofOf :: "jsvalue \<Rightarrow> rawProof option" where
  "rawProofOf p =
     (if isObjectLike p
      then Some \<lparr>rp_jws = metaMember (jsGet p ''jws''),
        rp_meta = (if isObjectLike (jsGet p ''meta'') then Some (rawMetaOf (jsGet p ''meta'')) else None)\<rparr>
      else None)"

subsection \<open>The parts of a gate, and the moments of a call\<close>

datatype holderMode = HolderOff | HolderWarn | HolderEnforce

datatype auditCall =
    DelegationVerified jsvalue
  | GrantUsed string
  | AuthorizationApproved
  | AuthorizationEvaluated policyDecision

record ('k, 'n) gate =
  gt_delegation :: "'k delegationConfig"
  gt_holderMode :: holderMode
  gt_proofDeps :: "'n verifierDeps"
  gt_proofVerifier :: proofVerifier
  gt_jsonParse :: "jsstring \<Rightarrow> jsvalue option"
  gt_hash :: "bytes \<Rightarrow> string"
  gt_proofLayer :: bool
  gt_audit :: "auditCall \<Rightarrow> bool"

record 'k checkMoment =
  cm_credentials :: "jsvalue \<Rightarrow> 'k verifierMoment"
  cm_token :: "'k verifierMoment"

record 'k grantRead =
  gr_store :: grantStore
  gr_now :: int
  gr_readMs :: "grant \<Rightarrow> int"
  gr_check :: "grant \<Rightarrow> 'k checkMoment"

record 'k callMoment =
  cl_proof :: verifyEnv
  cl_agent :: "'k grantRead"
  cl_session :: "'k grantRead"
  cl_check :: "'k checkMoment"
  cl_issuedMs :: int

definition checkDelegation :: "('k, 'n) gate \<Rightarrow> 'k checkMoment \<Rightarrow> jsvalue \<Rightarrow> delegationCheck" where
  "checkDelegation gt cm = verifyDelegation (gt_delegation gt) (cm_credentials cm) (cm_token cm)"

definition subjectId :: "jsvalue \<Rightarrow> jsvalue" where
  "subjectId vc = jsGet (jsGet vc ''credentialSubject'') ''id''"

definition controllerOf :: "jsvalue \<Rightarrow> jsvalue" where
  "controllerOf vc = jsGet (delegationOf vc) ''controller''"

definition scopeGranted :: "('k, 'n) gate \<Rightarrow> string \<Rightarrow> jsvalue \<Rightarrow> type_error + bool" where
  "scopeGranted gt scopeId vc =
     map_sum id satisfied (scopeSatisfies (dg_regexp (gt_delegation gt)) scopeId (viewOf (gt_delegation gt) vc))"

definition scopesOf :: "('k, 'n) gate \<Rightarrow> jsvalue \<Rightarrow> string list" where
  "scopesOf gt vc = getDelegationScopes (viewOf (gt_delegation gt) vc)"

subsection \<open>Holder binding\<close>

definition bindHolder ::
  "('k, 'n) gate \<Rightarrow> 'k callMoment \<Rightarrow> jsstring \<Rightarrow> jsmember list \<Rightarrow> jsvalue \<Rightarrow> string \<Rightarrow> 'n \<Rightarrow> holderBinding \<times> 'n" where
  "bindHolder gt cl toolName args proof subjectDid =
     assertHolderBinding (gt_proofDeps gt) (gt_proofVerifier gt) (cl_proof cl)
       \<lparr>hb_proof = rawProofOf proof, hb_subjectDid = subjectDid, hb_request = toHolderBindingRequest toolName args,
        hb_response = None, hb_expectedAudience = Some [dg_serverDid (gt_delegation gt)]\<rparr>"

text \<open>A proof given as text is parsed.\<close>

definition parsedProof :: "('k, 'n) gate \<Rightarrow> jsvalue \<Rightarrow> jsvalue option" where
  "parsedProof gt proofArg = (case proofArg of VString t \<Rightarrow> gt_jsonParse gt t | _ \<Rightarrow> Some proofArg)"

text \<open>Whether the mode refuses the call: \<open>True\<close> only under \<open>enforce\<close>.\<close>

definition refusesHolder ::
  "('k, 'n) gate \<Rightarrow> 'k callMoment \<Rightarrow> jsstring \<Rightarrow> jsmember list \<Rightarrow> jsvalue \<Rightarrow> 'n \<Rightarrow> bool \<times> 'n" where
  "refusesHolder gt cl toolName args vc s =
     (if gt_holderMode gt = HolderOff then (False, s)
      else (case textMember (subjectId vc) of
          None \<Rightarrow> (False, s)
        | Some subjectDid \<Rightarrow>
            (if subjectDid = [] \<or> \<not> isHolderBindingApplicable subjectDid then (False, s)
             else if argument ''_kyaos_proof'' args = VUndefined then (gt_holderMode gt = HolderEnforce, s)
             else
               (let proof = (case parsedProof gt (argument ''_kyaos_proof'' args) of None \<Rightarrow> plainObject [] | Some p \<Rightarrow> p);
                    (binding, s') = bindHolder gt cl toolName args proof subjectDid s
                in (binding \<noteq> Bound \<and> gt_holderMode gt = HolderEnforce, s')))))"

subsection \<open>Resolving a grant\<close>

definition authorizeGrant :: "('k, 'n) gate \<Rightarrow> 'k grantRead \<Rightarrow> string \<Rightarrow> grant \<Rightarrow> (grant \<times> jsvalue) option" where
  "authorizeGrant gt gr scopeId grant =
     (if g_status grant \<noteq> GrantActive \<or> scopeId \<notin> set (g_scopes grant) then None
      else if pastExpiry (gr_readMs gr grant) grant then None
      else (case (case g_credentialJwt grant of Some jwt \<Rightarrow> Some (VString jwt) | None \<Rightarrow> g_delegationCredential grant) of
          None \<Rightarrow> None
        | Some evidence \<Rightarrow>
            (case checkDelegation gt (gr_check gr grant) evidence of
               DelegationValid vc isJwt e \<Rightarrow>
                 (if subjectId vc \<noteq> jsText (g_agentDid grant) \<or>
                     controllerOf vc \<noteq> (case g_userDid grant of None \<Rightarrow> VUndefined | Some u \<Rightarrow> u) \<or>
                     scopeGranted gt scopeId vc \<noteq> Inr True then None
                  else Some (grant, vc))
             | _ \<Rightarrow> None)))"

fun firstAuthorized :: "('k, 'n) gate \<Rightarrow> 'k grantRead \<Rightarrow> string \<Rightarrow> grant list \<Rightarrow> (grant \<times> jsvalue) option" where
  "firstAuthorized gt gr scopeId [] = None"
| "firstAuthorized gt gr scopeId (g # gs) =
     (case authorizeGrant gt gr scopeId g of None \<Rightarrow> firstAuthorized gt gr scopeId gs | Some r \<Rightarrow> Some r)"

definition resolveAgentGrant ::
  "('k, 'n) gate \<Rightarrow> 'k callMoment \<Rightarrow> jsstring \<Rightarrow> jsmember list \<Rightarrow> string option \<Rightarrow> string \<Rightarrow> 'n \<Rightarrow> (grant \<times> jsvalue) option \<times> 'n" where
  "resolveAgentGrant gt cl toolName args sessionId scopeId s =
     (if gt_holderMode gt = HolderOff \<or> argument ''_kyaos_proof'' args = VUndefined then (None, s)
      else (case parsedProof gt (argument ''_kyaos_proof'' args) of
          None \<Rightarrow> (None, s)
        | Some proof \<Rightarrow>
            (case textMember (jsGet (jsGet proof ''meta'') ''did'') of
               None \<Rightarrow> (None, s)
             | Some agentDid \<Rightarrow>
                 (if \<not> isHolderBindingApplicable agentDid then (None, s)
                  else
                    (let (binding, s') = bindHolder gt cl toolName args proof agentDid s
                     in (if binding \<noteq> Bound then None
                         else firstAuthorized gt (cl_agent cl) scopeId
                           (filter (\<lambda>g. g_agentDid g = agentDid \<and> (g_sessionId g = None \<or> g_sessionId g = sessionId))
                             (getByAgent (gr_now (cl_agent cl)) agentDid (Some [scopeId]) (gr_store (cl_agent cl)))), s'))))))"

definition resolveSessionGrant :: "('k, 'n) gate \<Rightarrow> 'k callMoment \<Rightarrow> string option \<Rightarrow> string \<Rightarrow> (grant \<times> jsvalue) option" where
  "resolveSessionGrant gt cl sessionId scopeId =
     (if \<not> truthy sessionId then None
      else firstAuthorized gt (cl_session cl) scopeId
        (filter (\<lambda>g. g_sessionId g = sessionId \<and> \<not> (gt_holderMode gt = HolderEnforce \<and> isHolderBindingApplicable (g_agentDid g)))
          (getBySession (gr_now (cl_session cl)) (the sessionId) (Some [scopeId]) (gr_store (cl_session cl)))))"

definition resolveExistingGrant ::
  "('k, 'n) gate \<Rightarrow> 'k callMoment \<Rightarrow> jsstring \<Rightarrow> jsmember list \<Rightarrow> string option \<Rightarrow> string \<Rightarrow> 'n \<Rightarrow> (grant \<times> jsvalue) option \<times> 'n" where
  "resolveExistingGrant gt cl toolName args sessionId scopeId s =
     (case resolveAgentGrant gt cl toolName args sessionId scopeId s of
        (Some r, s') \<Rightarrow> (Some r, s')
      | (None, s') \<Rightarrow> (resolveSessionGrant gt cl sessionId scopeId, s'))"

subsection \<open>Binding a grant\<close>

fun joinText :: "string \<Rightarrow> string list \<Rightarrow> string" where
  "joinText sep [] = []"
| "joinText sep [s] = s"
| "joinText sep (s # ss) = s @ sep @ joinText sep ss"

definition grantId :: "(bytes \<Rightarrow> string) \<Rightarrow> string \<Rightarrow> string option \<Rightarrow> string list \<Rightarrow> string" where
  "grantId hash agentDid sessionId scopes =
     (let key = agentDid @ ''|'' @ (case sessionId of None \<Rightarrow> [] | Some i \<Rightarrow> i) @ ''|'' @ joinText '','' (sort_key units scopes);
          digest = hash (utf8Encode (units key))
      in ''grant_'' @ (if startsWith digest ''sha256:'' then drop 7 digest else digest))"

definition bindGrantOnSuccess ::
  "('k, 'n) gate \<Rightarrow> 'k callMoment \<Rightarrow> jsvalue \<Rightarrow> jsvalue \<Rightarrow> bool \<Rightarrow> string option \<Rightarrow> string \<Rightarrow> decimal option \<Rightarrow> grant option" where
  "bindGrantOnSuccess gt cl vc delegationArg isJwt sessionId scopeId deadline = (case textMember (subjectId vc) of
       None \<Rightarrow> None
     | Some agentDid \<Rightarrow>
         (if agentDid = [] \<or> (gt_holderMode gt = HolderOff \<and> sessionId = None) then None
          else
            (let scopes = js_set (scopeId # scopesOf gt vc)
             in Some \<lparr>g_id = grantId (gt_hash gt) agentDid sessionId scopes, g_agentDid = agentDid,
                  g_userDid = (if controllerOf vc = VUndefined then None else Some (controllerOf vc)), g_scopes = scopes,
                  g_sessionId = sessionId,
                  g_credentialJwt = (case delegationArg of VString jwt \<Rightarrow> if isJwt then Some jwt else None | _ \<Rightarrow> None),
                  g_delegationCredential = (case delegationArg of VString jwt \<Rightarrow> if isJwt then None else Some vc | _ \<Rightarrow> Some vc),
                  g_issuedAt = cl_issuedMs cl, g_expiresAt = deadline, g_status = GrantActive, g_revocationReason = None\<rparr>)))"

subsection \<open>The delegation gate\<close>

record callContext =
  cx_scopeId :: string
  cx_agentDid :: jsvalue
  cx_controller :: "jsvalue option"
  cx_delegatedScopes :: "string list"
  cx_grantRef :: "string option"
  cx_approvals :: "jsvalue option"

datatype refusal = DelegationInvalid | HolderBindingFailed | InsufficientScope

datatype gateOutcome = HandlerRuns jsvalue callContext | NeedsAuthorization | GateRefused refusal | GateThrew

text \<open>\<open>controller?.startsWith\<close> throws on a value that is neither absent nor a text.\<close>

definition startsWithThrows :: "jsvalue \<Rightarrow> bool" where
  "startsWithThrows v \<longleftrightarrow> v \<notin> {VUndefined, VNull} \<and> \<not> isText v"

definition forwardedApprovals :: "jsmember list \<Rightarrow> jsvalue option" where
  "forwardedApprovals args =
     (let approvals = argument DEFAULT_APPROVALS_KEY args in if approvals = VUndefined then None else Some approvals)"

definition grantContext :: "('k, 'n) gate \<Rightarrow> string \<Rightarrow> jsmember list \<Rightarrow> grant \<Rightarrow> jsvalue \<Rightarrow> callContext" where
  "grantContext gt scopeId args grant vc = \<lparr>cx_scopeId = scopeId, cx_agentDid = jsText (g_agentDid grant), cx_controller = g_userDid grant,
     cx_delegatedScopes = scopesOf gt vc, cx_grantRef = Some (g_id grant), cx_approvals = forwardedApprovals args\<rparr>"

definition delegationContext :: "('k, 'n) gate \<Rightarrow> string \<Rightarrow> jsmember list \<Rightarrow> jsvalue \<Rightarrow> callContext" where
  "delegationContext gt scopeId args vc = \<lparr>cx_scopeId = scopeId, cx_agentDid = subjectId vc,
     cx_controller = (if controllerOf vc = VUndefined then None else Some (controllerOf vc)),
     cx_delegatedScopes = scopesOf gt vc, cx_grantRef = None, cx_approvals = forwardedApprovals args\<rparr>"

definition delegationRefOf :: "jsvalue \<Rightarrow> jsvalue" where
  "delegationRefOf vc = (if jsGet vc ''id'' \<in> {VUndefined, VNull} then jsGet (delegationOf vc) ''id'' else jsGet vc ''id'')"

definition withoutDelegation ::
  "('k, 'n) gate \<Rightarrow> 'k callMoment \<Rightarrow> jsstring \<Rightarrow> string \<Rightarrow> jsmember list \<Rightarrow> string option \<Rightarrow> 'n \<Rightarrow> gateOutcome \<times> 'n \<times> grant option" where
  "withoutDelegation gt cl toolName scopeId args sessionId s =
     (case resolveExistingGrant gt cl toolName args sessionId scopeId s of
        (None, s') \<Rightarrow> (NeedsAuthorization, s', None)
      | (Some (grant, vc), s') \<Rightarrow>
          (if startsWithThrows (case g_userDid grant of None \<Rightarrow> VUndefined | Some u \<Rightarrow> u) then (GateThrew, s', None)
           else if \<not> gt_audit gt (GrantUsed (g_id grant)) then (GateThrew, s', None)
           else (HandlerRuns (withoutControlArgs args) (grantContext gt scopeId args grant vc), s', None)))"

definition withVerifiedDelegation ::
  "('k, 'n) gate \<Rightarrow> 'k callMoment \<Rightarrow> string \<Rightarrow> jsmember list \<Rightarrow> string option \<Rightarrow> jsvalue \<Rightarrow> jsvalue \<Rightarrow> bool \<Rightarrow> decimal option \<Rightarrow>
     gateOutcome \<times> grant option" where
  "withVerifiedDelegation gt cl scopeId args sessionId delegationArg vc isJwt deadline =
     (case scopeGranted gt scopeId vc of
        Inl e \<Rightarrow> (GateThrew, None)
      | Inr False \<Rightarrow> (GateRefused InsufficientScope, None)
      | Inr True \<Rightarrow>
          (if \<not> isJwt \<and> isl (canonicalizeJsonBytes vc) then (GateThrew, None)
           else if startsWithThrows (controllerOf vc) then (GateThrew, None)
           else if \<not> gt_audit gt (DelegationVerified (delegationRefOf vc)) \<or> \<not> gt_audit gt AuthorizationApproved then (GateThrew, None)
           else (HandlerRuns (withoutControlArgs args) (delegationContext gt scopeId args vc),
                 bindGrantOnSuccess gt cl vc delegationArg isJwt sessionId scopeId deadline)))"

definition wrapWithDelegation ::
  "('k, 'n) gate \<Rightarrow> 'k callMoment \<Rightarrow> jsstring \<Rightarrow> string \<Rightarrow> jsmember list \<Rightarrow> string option \<Rightarrow> 'n \<Rightarrow> gateOutcome \<times> 'n \<times> grant option" where
  "wrapWithDelegation gt cl toolName scopeId args sessionId s =
     (let delegationArg = argument ''_kyaos_delegation'' args
      in if \<not> gt_proofLayer gt then (GateThrew, s, None)
         else if delegationArg \<in> {VUndefined, VNull} then withoutDelegation gt cl toolName scopeId args sessionId s
         else (case checkDelegation gt (cl_check cl) delegationArg of
             DelegationThrew \<Rightarrow> (GateThrew, s, None)
           | DelegationRefused c \<Rightarrow> (GateRefused DelegationInvalid, s, None)
           | DelegationValid vc isJwt deadline \<Rightarrow>
               (let (refused, s') = refusesHolder gt cl toolName args vc s;
                    (outcome, bound) = withVerifiedDelegation gt cl scopeId args sessionId delegationArg vc isJwt deadline
                in if refused then (GateRefused HolderBindingFailed, s', None) else (outcome, s', bound))))"

subsection \<open>The policy gate\<close>

record policyGate =
  pg_engine :: "policyRequest \<Rightarrow> policyDecision option"
  pg_classify :: "string \<Rightarrow> string \<Rightarrow> riskAssessment"
  pg_namespace :: "jsmember list \<Rightarrow> string option"
  pg_approvalsKey :: string
  pg_validSignature :: "approvalGrant \<Rightarrow> bool"
  pg_scopeMatched :: bool
  pg_hash :: "bytes \<Rightarrow> string"
  pg_proofLayer :: bool
  pg_audit :: "auditCall \<Rightarrow> bool"
  pg_toText :: toText

record policyPrincipal =
  pp_agentDid :: string
  pp_responsibleParty :: "string option"
  pp_delegatedScopes :: "string list"

definition nullishOr :: "jsvalue \<Rightarrow> jsvalue \<Rightarrow> jsvalue" where
  "nullishOr v d = (if v \<in> {VUndefined, VNull} then d else v)"

definition extractPolicyPrincipal :: "toText \<Rightarrow> jsvalue \<Rightarrow> policyPrincipal" where
  "extractPolicyPrincipal toText del =
     (if \<not> isObjectLike del then \<lparr>pp_agentDid = ''unknown'', pp_responsibleParty = None, pp_delegatedScopes = []\<rparr>
      else \<lparr>pp_agentDid = textOr [] (nullishOr (jsGet (delegationOf del) ''subjectDid'') (nullishOr (subjectId del) (jsText ''unknown''))),
        pp_responsibleParty = (if valTruthy (controllerOf del) then textMember (controllerOf del) else None),
        pp_delegatedScopes = getDelegationScopes (readCredential toText del)\<rparr>)"

definition contextPrincipal :: "callContext \<Rightarrow> policyPrincipal" where
  "contextPrincipal ctx = \<lparr>pp_agentDid = textOr [] (cx_agentDid ctx),
     pp_responsibleParty = Option.bind (cx_controller ctx) textMember, pp_delegatedScopes = cx_delegatedScopes ctx\<rparr>"

definition readApproval :: "jsvalue \<Rightarrow> approvalGrant" where
  "readApproval g = \<lparr>ag_approvalRequestId = textOr [] (jsGet g ''approvalRequestId''), ag_approverDid = textOr [] (jsGet g ''approverDid''),
     ag_requestHash = textOr [] (jsGet g ''requestHash''), ag_approves = (jsGet g ''decision'' = jsText ''approve''),
     ag_ts = (case intMember (jsGet g ''ts'') of None \<Rightarrow> 0 | Some t \<Rightarrow> t), ag_signature = textOr [] (jsGet g ''signature'')\<rparr>"

text \<open>Approvals that arrived in the context are read where the client would have sent them.\<close>

definition restoredArgs :: "string \<Rightarrow> jsmember list \<Rightarrow> callContext option \<Rightarrow> jsmember list" where
  "restoredArgs key callArgs ctx =
     (case (argument key callArgs = VUndefined, Option.bind ctx cx_approvals) of
        (True, Some approvals) \<Rightarrow> map dataMember (putEntry (units key) approvals (entriesOf callArgs))
      | _ \<Rightarrow> callArgs)"

definition membersOf :: "jsvalue \<Rightarrow> jsmember list" where
  "membersOf v = (case v of VObject plain ms \<Rightarrow> ms | _ \<Rightarrow> [])"

definition approvedAction :: "policyGate \<Rightarrow> jsstring \<Rightarrow> jsmember list \<Rightarrow> toolRequest" where
  "approvedAction pg toolName callArgs = \<lparr>tr_method = toolName,
     tr_params = plainObject (filter (\<lambda>kv. fst kv \<noteq> units (pg_approvalsKey pg)) (entriesOf (membersOf (withoutControlArgs callArgs))))\<rparr>"

definition policyRequestOf :: "policyGate \<Rightarrow> jsstring \<Rightarrow> jsmember list \<Rightarrow> callContext option \<Rightarrow> policyRequest" where
  "policyRequestOf pg toolName callArgs ctx =
     (let args = restoredArgs (pg_approvalsKey pg) callArgs ctx;
          namespace = (case pg_namespace pg args of None \<Rightarrow> narrow toolName | Some n \<Rightarrow> n);
          principal = (case ctx of Some c \<Rightarrow> contextPrincipal c
            | None \<Rightarrow> extractPolicyPrincipal (pg_toText pg) (argument ''_kyaos_delegation'' args))
      in buildPolicyRequest \<lparr>pi_agentDid = pp_agentDid principal, pi_responsibleParty = pp_responsibleParty principal,
           pi_toolName = narrow toolName, pi_namespace = namespace, pi_delegatedScopes = pp_delegatedScopes principal,
           pi_scopeMatched = pg_scopeMatched pg, pi_risk = pg_classify pg (narrow toolName) namespace,
           pi_humanApprovals = None, pi_budgetRemaining = None\<rparr>)"

definition suppliedApprovals :: "policyGate \<Rightarrow> jsmember list \<Rightarrow> callContext option \<Rightarrow> jsvalue list" where
  "suppliedApprovals pg callArgs ctx =
     (case arrayItems (argument (pg_approvalsKey pg) (restoredArgs (pg_approvalsKey pg) callArgs ctx)) of None \<Rightarrow> [] | Some vs \<Rightarrow> vs)"

datatype policyOutcome = PolicyRuns jsvalue | PolicyDenied string | NeedsApproval quorum string | PolicyThrew

text \<open>A missing approval among the supplied ones makes the count throw, unless the quorum is refused before.\<close>

definition stepUp :: "policyGate \<Rightarrow> jsstring \<Rightarrow> jsmember list \<Rightarrow> callContext option \<Rightarrow> quorum \<Rightarrow> string \<Rightarrow> policyOutcome" where
  "stepUp pg toolName callArgs ctx q reason =
     (case acceptedRequestHashes (pg_hash pg) (approvedAction pg toolName callArgs) of
        Inl e \<Rightarrow> PolicyThrew
      | Inr hashes \<Rightarrow>
          (let grants = suppliedApprovals pg callArgs ctx
           in if 0 < q_n q \<and> (VNull \<in> set grants \<or> VUndefined \<in> set grants) then PolicyThrew
              else if qr_satisfied (verifyApprovalQuorum (map readApproval grants) hashes q (pg_validSignature pg))
              then (if pg_audit pg AuthorizationApproved then PolicyRuns (withoutControlArgs callArgs) else PolicyThrew)
              else NeedsApproval q reason))"

definition withPolicyGate :: "policyGate \<Rightarrow> jsstring \<Rightarrow> jsmember list \<Rightarrow> callContext option \<Rightarrow> policyOutcome" where
  "withPolicyGate pg toolName callArgs ctx =
     (if \<not> pg_proofLayer pg then PolicyThrew
      else (case pg_engine pg (policyRequestOf pg toolName callArgs ctx) of
          None \<Rightarrow> PolicyThrew
        | Some decision \<Rightarrow>
            (if \<not> pg_audit pg (AuthorizationEvaluated decision) then PolicyThrew
             else (case decision of
                 Allow \<Rightarrow> (if pg_audit pg AuthorizationApproved then PolicyRuns (withoutControlArgs callArgs) else PolicyThrew)
               | Deny reason \<Rightarrow> PolicyDenied reason
               | StepUp q reason \<Rightarrow> stepUp pg toolName callArgs ctx q reason))))"

text \<open>The policy gate as the handler of the delegation gate.\<close>

datatype callOutcome = CallRuns jsvalue callContext | DelegationGateStops gateOutcome | PolicyGateStops policyOutcome

definition gatedCall ::
  "('k, 'n) gate \<Rightarrow> policyGate \<Rightarrow> 'k callMoment \<Rightarrow> jsstring \<Rightarrow> string \<Rightarrow> jsmember list \<Rightarrow> string option \<Rightarrow> 'n \<Rightarrow> callOutcome" where
  "gatedCall gt pg cl toolName scopeId args sessionId s =
     (case fst (wrapWithDelegation gt cl toolName scopeId args sessionId s) of
        HandlerRuns callArgs ctx \<Rightarrow>
          (case withPolicyGate pg toolName (membersOf callArgs) (Some ctx) of
             PolicyRuns handlerArgs \<Rightarrow> CallRuns handlerArgs ctx
           | stop \<Rightarrow> PolicyGateStops stop)
      | stop \<Rightarrow> DelegationGateStops stop)"

subsection \<open>What lets a handler run\<close>

text \<open>The proof the call carries, given as text or as an object.\<close>

definition sentProof :: "('k, 'n) gate \<Rightarrow> jsmember list \<Rightarrow> jsvalue" where
  "sentProof gt args = (case parsedProof gt (argument ''_kyaos_proof'' args) of None \<Rightarrow> plainObject [] | Some p \<Rightarrow> p)"

text \<open>That proof shows possession of the key of the subject, over the tool and the arguments the handler gets.\<close>

definition provedPossession :: "('k, 'n) gate \<Rightarrow> 'k callMoment \<Rightarrow> jsstring \<Rightarrow> jsmember list \<Rightarrow> 'n \<Rightarrow> string \<Rightarrow> bool" where
  "provedPossession gt cl toolName args s did \<longleftrightarrow> argument ''_kyaos_proof'' args \<noteq> VUndefined \<and>
     fst (bindHolder gt cl toolName args (sentProof gt args) did s) = Bound"

definition evidenceOf :: "grant \<Rightarrow> jsvalue option" where
  "evidenceOf g = (case g_credentialJwt g of Some jwt \<Rightarrow> Some (VString jwt) | None \<Rightarrow> g_delegationCredential g)"

text \<open>A stored grant that covers the scope and is neither revoked nor past its deadline.\<close>

definition liveGrant :: "'k grantRead \<Rightarrow> string \<Rightarrow> grant \<Rightarrow> bool" where
  "liveGrant gr scopeId g \<longleftrightarrow> g \<in> set (map snd (gr_store gr)) \<and> g_status g = GrantActive \<and> scopeId \<in> set (g_scopes g) \<and>
     \<not> pastExpiry (gr_now gr) g \<and> \<not> pastExpiry (gr_readMs gr g) g"

lemma firstAuthorized_Some:
  "firstAuthorized gt gr scopeId gs = Some r \<Longrightarrow> \<exists>g \<in> set gs. authorizeGrant gt gr scopeId g = Some r"
  by (induction gs) (auto split: option.splits)

lemma authorizeGrant_Some_iff:
  "authorizeGrant gt gr scopeId g = Some r \<longleftrightarrow> (\<exists>vc evidence isJwt e. r = (g, vc) \<and> g_status g = GrantActive \<and> scopeId \<in> set (g_scopes g) \<and>
     \<not> pastExpiry (gr_readMs gr g) g \<and> evidenceOf g = Some evidence \<and> checkDelegation gt (gr_check gr g) evidence = DelegationValid vc isJwt e \<and>
     subjectId vc = jsText (g_agentDid g) \<and> controllerOf vc = (case g_userDid g of None \<Rightarrow> VUndefined | Some u \<Rightarrow> u) \<and>
     scopeGranted gt scopeId vc = Inr True)"
  unfolding authorizeGrant_def evidenceOf_def [symmetric] by (auto split: option.splits delegationCheck.splits)

lemma looked_up:
  "g \<in> set (getByAgent now did (Some [scopeId]) store) \<Longrightarrow> g \<in> set (map snd store) \<and> \<not> pastExpiry now g"
  "g \<in> set (getBySession now sid (Some [scopeId]) store) \<Longrightarrow> g \<in> set (map snd store) \<and> \<not> pastExpiry now g"
  by (auto simp: getByAgent_def getBySession_def activeGrants_def)

text \<open>What a resolved grant stands on.\<close>

definition grantAuthority ::
  "('k, 'n) gate \<Rightarrow> 'k callMoment \<Rightarrow> jsstring \<Rightarrow> string \<Rightarrow> jsmember list \<Rightarrow> string option \<Rightarrow> 'n \<Rightarrow> 'k grantRead \<Rightarrow> grant \<Rightarrow> bool" where
  "grantAuthority gt cl toolName scopeId args sessionId s gr g \<longleftrightarrow> gr \<in> {cl_agent cl, cl_session cl} \<and> liveGrant gr scopeId g \<and>
     (g_sessionId g = None \<or> g_sessionId g = sessionId) \<and>
     (provedPossession gt cl toolName args s (g_agentDid g) \<or>
      truthy sessionId \<and> g_sessionId g = sessionId \<and> \<not> (gt_holderMode gt = HolderEnforce \<and> isHolderBindingApplicable (g_agentDid g)))"

lemma resolved_agent_grant:
  assumes "resolveAgentGrant gt cl toolName args sessionId scopeId s = (Some (g, vc), s')"
  shows "grantAuthority gt cl toolName scopeId args sessionId s (cl_agent cl) g \<and> authorizeGrant gt (cl_agent cl) scopeId g = Some (g, vc)"
proof -
  obtain did where bound: "provedPossession gt cl toolName args s did"
    and first: "firstAuthorized gt (cl_agent cl) scopeId
      (filter (\<lambda>g. g_agentDid g = did \<and> (g_sessionId g = None \<or> g_sessionId g = sessionId))
        (getByAgent (gr_now (cl_agent cl)) did (Some [scopeId]) (gr_store (cl_agent cl)))) = Some (g, vc)"
    using assms by (auto simp: resolveAgentGrant_def provedPossession_def sentProof_def Let_def split_beta split: if_splits option.splits)
  from firstAuthorized_Some [OF first] obtain g' where g': "g' \<in> set (getByAgent (gr_now (cl_agent cl)) did (Some [scopeId]) (gr_store (cl_agent cl)))"
    "g_agentDid g' = did" "g_sessionId g' = None \<or> g_sessionId g' = sessionId" "authorizeGrant gt (cl_agent cl) scopeId g' = Some (g, vc)" by auto
  moreover from g'(4) have "g = g'" by (simp add: authorizeGrant_Some_iff)
  ultimately show ?thesis using bound looked_up(1) [OF g'(1)]
    by (auto simp: grantAuthority_def liveGrant_def authorizeGrant_Some_iff)
qed

lemma resolved_session_grant:
  assumes "resolveSessionGrant gt cl sessionId scopeId = Some (g, vc)"
  shows "grantAuthority gt cl toolName scopeId args sessionId s (cl_session cl) g \<and> authorizeGrant gt (cl_session cl) scopeId g = Some (g, vc)"
proof -
  have t: "truthy sessionId" using assms by (auto simp: resolveSessionGrant_def split: if_splits)
  have first: "firstAuthorized gt (cl_session cl) scopeId
      (filter (\<lambda>g. g_sessionId g = sessionId \<and> \<not> (gt_holderMode gt = HolderEnforce \<and> isHolderBindingApplicable (g_agentDid g)))
        (getBySession (gr_now (cl_session cl)) (the sessionId) (Some [scopeId]) (gr_store (cl_session cl)))) = Some (g, vc)"
    using assms t by (simp add: resolveSessionGrant_def)
  from firstAuthorized_Some [OF first] obtain g' where g': "g' \<in> set (getBySession (gr_now (cl_session cl)) (the sessionId) (Some [scopeId]) (gr_store (cl_session cl)))"
    "g_sessionId g' = sessionId" "\<not> (gt_holderMode gt = HolderEnforce \<and> isHolderBindingApplicable (g_agentDid g'))"
    "authorizeGrant gt (cl_session cl) scopeId g' = Some (g, vc)" by auto
  moreover from g'(4) have "g = g'" by (simp add: authorizeGrant_Some_iff)
  ultimately show ?thesis using t looked_up(2) [OF g'(1)]
    by (auto simp: grantAuthority_def liveGrant_def authorizeGrant_Some_iff)
qed

lemma resolved_grant:
  assumes "resolveExistingGrant gt cl toolName args sessionId scopeId s = (Some (g, vc), s')"
  shows "\<exists>gr. grantAuthority gt cl toolName scopeId args sessionId s gr g \<and> authorizeGrant gt gr scopeId g = Some (g, vc)"
proof (cases "fst (resolveAgentGrant gt cl toolName args sessionId scopeId s)")
  case None
  then have "resolveSessionGrant gt cl sessionId scopeId = Some (g, vc)"
    using assms by (auto simp: resolveExistingGrant_def split: prod.splits option.splits)
  from resolved_session_grant [OF this] show ?thesis by blast
next
  case (Some r)
  then have "\<exists>s''. resolveAgentGrant gt cl toolName args sessionId scopeId s = (Some (g, vc), s'')"
    using assms by (auto simp: resolveExistingGrant_def split: prod.splits option.splits)
  then obtain s'' where "resolveAgentGrant gt cl toolName args sessionId scopeId s = (Some (g, vc), s'')" ..
  from resolved_agent_grant [OF this] show ?thesis by blast
qed

lemma grant_holder:
  "grantAuthority gt cl toolName scopeId args sessionId s gr g \<Longrightarrow> gt_holderMode gt = HolderEnforce \<Longrightarrow>
     isHolderBindingApplicable (g_agentDid g) \<Longrightarrow> provedPossession gt cl toolName args s (g_agentDid g)"
  by (auto simp: grantAuthority_def)

lemma accepted_holder:
  assumes "fst (refusesHolder gt cl toolName args vc s) = False" and "gt_holderMode gt = HolderEnforce"
    and "textMember (subjectId vc) = Some did" and "did \<noteq> []" and "isHolderBindingApplicable did"
  shows "provedPossession gt cl toolName args s did"
  using assms by (auto simp: refusesHolder_def provedPossession_def sentProof_def Let_def split_beta split: if_splits option.splits)

text \<open>The credential a call runs under: verified in this very call for the scope, presented by it or kept in a live grant
  of its agent or session, and proved to be the caller's where that is enforced.\<close>

definition callAuthority ::
  "('k, 'n) gate \<Rightarrow> 'k callMoment \<Rightarrow> jsstring \<Rightarrow> string \<Rightarrow> jsmember list \<Rightarrow> string option \<Rightarrow> 'n \<Rightarrow> jsvalue \<Rightarrow> bool" where
  "callAuthority gt cl toolName scopeId args sessionId s vc \<longleftrightarrow>
     (\<exists>cm evidence isJwt e. checkDelegation gt cm evidence = DelegationValid vc isJwt e \<and> scopeGranted gt scopeId vc = Inr True \<and>
       (gt_holderMode gt = HolderEnforce \<longrightarrow> (\<forall>did. textMember (subjectId vc) = Some did \<longrightarrow> did \<noteq> [] \<longrightarrow> isHolderBindingApplicable did \<longrightarrow>
          provedPossession gt cl toolName args s did)) \<and>
       (evidence = argument ''_kyaos_delegation'' args \<and> cm = cl_check cl \<or>
        argument ''_kyaos_delegation'' args \<in> {VUndefined, VNull} \<and>
        (\<exists>gr g. grantAuthority gt cl toolName scopeId args sessionId s gr g \<and> evidenceOf g = Some evidence \<and> cm = gr_check gr g \<and>
           subjectId vc = jsText (g_agentDid g))))"

lemma delegation_gate_runs:
  assumes "fst (wrapWithDelegation gt cl toolName scopeId args sessionId s) = HandlerRuns h ctx"
  shows "h = withoutControlArgs args \<and> cx_scopeId ctx = scopeId \<and> cx_approvals ctx = forwardedApprovals args \<and>
    (\<exists>vc. callAuthority gt cl toolName scopeId args sessionId s vc \<and> cx_agentDid ctx = subjectId vc \<and>
       cx_delegatedScopes ctx = scopesOf gt vc \<and> Option.bind (cx_controller ctx) textMember = textMember (controllerOf vc))"
proof (cases "argument ''_kyaos_delegation'' args \<in> {VUndefined, VNull}")
  case True
  then have w: "fst (withoutDelegation gt cl toolName scopeId args sessionId s) = HandlerRuns h ctx"
    using assms by (auto simp: wrapWithDelegation_def Let_def split: if_splits)
  then obtain g vc s' where r: "resolveExistingGrant gt cl toolName args sessionId scopeId s = (Some (g, vc), s')"
    by (auto simp: withoutDelegation_def split: prod.splits option.splits if_splits)
  then have h: "h = withoutControlArgs args" "ctx = grantContext gt scopeId args g vc"
    using w by (simp_all add: withoutDelegation_def split: if_splits)
  obtain gr where gr: "grantAuthority gt cl toolName scopeId args sessionId s gr g" "authorizeGrant gt gr scopeId g = Some (g, vc)"
    using resolved_grant [OF r] by blast
  obtain evidence isJwt e where a: "evidenceOf g = Some evidence" "checkDelegation gt (gr_check gr g) evidence = DelegationValid vc isJwt e"
    "subjectId vc = jsText (g_agentDid g)" "scopeGranted gt scopeId vc = Inr True"
    "controllerOf vc = (case g_userDid g of None \<Rightarrow> VUndefined | Some u \<Rightarrow> u)"
    using gr(2) by (auto simp: authorizeGrant_Some_iff)
  have "textMember (subjectId vc) = Some did \<Longrightarrow> did = g_agentDid g" for did using a(3) by simp
  then have "callAuthority gt cl toolName scopeId args sessionId s vc"
    unfolding callAuthority_def using a gr(1) True grant_holder [OF gr(1)] by blast
  moreover have "Option.bind (g_userDid g) textMember = textMember (controllerOf vc)"
    using a(5) by (cases "g_userDid g") simp_all
  ultimately show ?thesis using h a(3) by (intro conjI exI [of _ vc]) (auto simp: grantContext_def)
next
  case False
  let ?arg = "argument ''_kyaos_delegation'' args"
  obtain vc isJwt e where c: "checkDelegation gt (cl_check cl) ?arg = DelegationValid vc isJwt e"
    using assms False by (auto simp: wrapWithDelegation_def Let_def split: if_splits delegationCheck.splits)
  have w: "fst (refusesHolder gt cl toolName args vc s) = False"
    "fst (withVerifiedDelegation gt cl scopeId args sessionId ?arg vc isJwt e) = HandlerRuns h ctx"
    using assms False c by (auto simp: wrapWithDelegation_def Let_def split_beta split: if_splits)
  then have r: "h = withoutControlArgs args" "ctx = delegationContext gt scopeId args vc" "scopeGranted gt scopeId vc = Inr True"
    by (auto simp: withVerifiedDelegation_def split: sum.splits bool.splits if_splits)
  have "callAuthority gt cl toolName scopeId args sessionId s vc"
    unfolding callAuthority_def using c r(3) accepted_holder [OF w(1)] by blast
  moreover have "Option.bind (if controllerOf vc = VUndefined then None else Some (controllerOf vc)) textMember = textMember (controllerOf vc)"
    by simp
  ultimately show ?thesis using r by (intro conjI exI [of _ vc]) (auto simp: delegationContext_def)
qed

text \<open>C1: a handler behind the delegation gate runs only with authority. It gets the arguments without the control
  arguments, exactly the request a holder proof signs; the context names the subject and the scopes of a credential that was
  verified during this very call and grants the tool's scope, whether it was presented or kept in a live grant of this agent or
  session; and under \<open>enforce\<close> the caller has proved possession of the key of every did:key subject, over this request.\<close>

theorem handler_runs_with_authority:
  assumes "fst (wrapWithDelegation gt cl toolName scopeId args sessionId s) = HandlerRuns h ctx"
  shows "h = tr_params (toHolderBindingRequest toolName args) \<and>
    (\<exists>cm evidence vc isJwt e. checkDelegation gt cm evidence = DelegationValid vc isJwt e \<and> scopeGranted gt scopeId vc = Inr True \<and>
       cx_agentDid ctx = subjectId vc \<and> cx_delegatedScopes ctx = scopesOf gt vc \<and>
       (gt_holderMode gt = HolderEnforce \<longrightarrow> (\<forall>did. textMember (subjectId vc) = Some did \<longrightarrow> did \<noteq> [] \<longrightarrow> isHolderBindingApplicable did \<longrightarrow>
          provedPossession gt cl toolName args s did)) \<and>
       (evidence = argument ''_kyaos_delegation'' args \<and> cm = cl_check cl \<or>
        argument ''_kyaos_delegation'' args \<in> {VUndefined, VNull} \<and>
        (\<exists>gr g. grantAuthority gt cl toolName scopeId args sessionId s gr g \<and> evidenceOf g = Some evidence \<and> cm = gr_check gr g \<and>
           subjectId vc = jsText (g_agentDid g))))"
proof -
  from delegation_gate_runs [OF assms] obtain vc where "callAuthority gt cl toolName scopeId args sessionId s vc"
    "cx_agentDid ctx = subjectId vc" "cx_delegatedScopes ctx = scopesOf gt vc" "h = withoutControlArgs args" by blast
  then show ?thesis unfolding callAuthority_def by (simp add: toHolderBindingRequest_def withoutControlArgs_def) blast
qed

definition exampleGate :: "(unit, memoryNonceCache) gate" where
  "exampleGate = \<lparr>gt_delegation = exampleConfig, gt_holderMode = HolderOff, gt_proofDeps = holderDeps, gt_proofVerifier = exampleVerifier,
     gt_jsonParse = (\<lambda>_. None), gt_hash = (\<lambda>_. ''sha256:00''), gt_proofLayer = True, gt_audit = (\<lambda>_. True)\<rparr>"

definition exampleCheck :: "unit checkMoment" where
  "exampleCheck = \<lparr>cm_credentials = (\<lambda>_. exampleMoment), cm_token = exampleMoment\<rparr>"

definition exampleRead :: "grantStore \<Rightarrow> unit grantRead" where
  "exampleRead store = \<lparr>gr_store = store, gr_now = 1000000, gr_readMs = (\<lambda>_. 1000000), gr_check = (\<lambda>_. exampleCheck)\<rparr>"

definition exampleCall :: "grantStore \<Rightarrow> unit callMoment" where
  "exampleCall store = \<lparr>cl_proof = exampleEnv 1000000, cl_agent = exampleRead store, cl_session = exampleRead store,
     cl_check = exampleCheck, cl_issuedMs = 1000000\<rparr>"

definition exampleArgs :: "jsmember list" where
  "exampleArgs = [dataMember (units ''path'', jsText ''a''), dataMember (units ''_kyaos_delegation'', exampleVc)]"

lemma example_presented: "argument ''_kyaos_delegation'' exampleArgs = exampleVc"
  by (simp add: exampleArgs_def dataMember_def units_inj)

lemma example_checked: "checkDelegation exampleGate exampleCheck exampleVc = DelegationValid exampleVc False (Some (2000000, 0))"
  using example_delegation by (simp add: checkDelegation_def exampleGate_def exampleCheck_def)

lemma example_scope: "scopeGranted exampleGate ''files:read'' exampleVc = Inr True"
  by (simp add: scopeGranted_def exampleGate_def example_view scopeSatisfies_def flatScopes_def)

lemma example_gate: "fst (wrapWithDelegation exampleGate (exampleCall store) (units ''read'') ''files:read'' exampleArgs sessionId s) =
    HandlerRuns (withoutControlArgs exampleArgs) (delegationContext exampleGate ''files:read'' exampleArgs exampleVc)"
proof -
  obtain j where "denote exampleVc = Some j" using example_denotes by (auto simp: canonicalisable_def)
  then have "\<not> isl (canonicalizeJsonBytes exampleVc)" by (simp add: canonicalizeJsonBytes_def canonical_denoted)
  moreover have "controllerOf exampleVc = VUndefined"
    by (simp add: controllerOf_def delegationOf_def exampleVc_def exampleDelegation_def headerMember_def plainObject_def dataMember_def units_inj)
  moreover have "exampleVc \<notin> {VUndefined, VNull}" by (simp add: exampleVc_def plainObject_def)
  moreover have "gt_proofLayer exampleGate" "gt_audit exampleGate e" "gt_holderMode exampleGate = HolderOff" for e
    by (simp_all add: exampleGate_def)
  moreover have "cl_check (exampleCall store) = exampleCheck" by (simp add: exampleCall_def)
  ultimately show ?thesis using example_checked example_scope
    by (simp add: wrapWithDelegation_def Let_def example_presented refusesHolder_def withVerifiedDelegation_def startsWithThrows_def split_beta)
qed

lemma handler_runs_with_authority_witness:
  "\<exists>cm evidence vc isJwt e. checkDelegation exampleGate cm evidence = DelegationValid vc isJwt e \<and> scopeGranted exampleGate ''files:read'' vc = Inr True"
  using handler_runs_with_authority [OF example_gate [of "[]" None "newNonceCache 0"]] by blast

subsection \<open>The policy gate\<close>

lemma policy_gate_runs:
  assumes "withPolicyGate pg toolName args ctx = PolicyRuns h"
  shows "h = withoutControlArgs args \<and> pg_audit pg AuthorizationApproved \<and>
    (\<exists>decision. pg_engine pg (policyRequestOf pg toolName args ctx) = Some decision \<and> (decision = Allow \<or>
      (\<exists>q reason hashes. decision = StepUp q reason \<and> acceptedRequestHashes (pg_hash pg) (approvedAction pg toolName args) = Inr hashes \<and>
        0 < q_n q \<and> q_n q \<le> int (card (ag_approverDid ` {g \<in> readApproval ` set (suppliedApprovals pg args ctx).
          countsFor hashes q (pg_validSignature pg) g})))))"
proof -
  obtain decision where d: "pg_engine pg (policyRequestOf pg toolName args ctx) = Some decision"
    using assms by (auto simp: withPolicyGate_def split: if_splits option.splits)
  show ?thesis
  proof (cases decision)
    case Allow
    then show ?thesis using assms d by (auto simp: withPolicyGate_def split: if_splits)
  next
    case (Deny r)
    then show ?thesis using assms d by (auto simp: withPolicyGate_def split: if_splits)
  next
    case (StepUp q reason)
    then have run: "stepUp pg toolName args ctx q reason = PolicyRuns h"
      using assms d by (auto simp: withPolicyGate_def split: if_splits)
    then obtain hashes where hashes: "acceptedRequestHashes (pg_hash pg) (approvedAction pg toolName args) = Inr hashes"
      by (auto simp: stepUp_def split: sum.splits)
    with run have sat: "qr_satisfied (verifyApprovalQuorum (map readApproval (suppliedApprovals pg args ctx)) hashes q (pg_validSignature pg))"
      "h = withoutControlArgs args" "pg_audit pg AuthorizationApproved"
      by (auto simp: stepUp_def Let_def split: if_splits)
    then have n: "0 < q_n q" by (simp add: verifyApprovalQuorum_satisfied)
    with sat(1) have "q_n q \<le> int (card (ag_approverDid ` {g \<in> readApproval ` set (suppliedApprovals pg args ctx).
        countsFor hashes q (pg_validSignature pg) g}))"
      by (simp add: verifyApprovalQuorum_def Let_def length_js_set)
    with n sat hashes d StepUp show ?thesis by blast
  qed
qed

subsection \<open>Both gates\<close>

text \<open>What the client sent, without the control arguments and the member a copy cannot keep.\<close>

definition businessEntries :: "jsmember list \<Rightarrow> (jsstring \<times> jsvalue) list" where
  "businessEntries args = filter (\<lambda>kv. \<not> isKyaOsControlArg (fst kv) \<and> fst kv \<noteq> units ''__proto__'') (entriesOf args)"

definition sentApprovals :: "jsmember list \<Rightarrow> jsvalue list" where
  "sentApprovals args = (case arrayItems (argument DEFAULT_APPROVALS_KEY args) of None \<Rightarrow> [] | Some vs \<Rightarrow> vs)"

lemma clean_members: "membersOf (withoutControlArgs args) = map dataMember (businessEntries args)"
  by (simp add: membersOf_def withoutControlArgs_def assignedObject_def businessEntries_def conj_commute filter_filter [symmetric] del: filter_filter)

lemma business_again: "businessEntries (map dataMember (businessEntries args)) = businessEntries args"
  by (simp add: businessEntries_def)

lemma approvals_key_control: "isKyaOsControlArg (units DEFAULT_APPROVALS_KEY)"
  by (simp add: isKyaOsControlArg_def DEFAULT_APPROVALS_KEY_def units_def)

lemma clean_has_no_approvals: "argument DEFAULT_APPROVALS_KEY (map dataMember (businessEntries args)) = VUndefined"
  using approvals_key_control
  by (auto simp: getMember_data businessEntries_def map_of_eq_None_iff split: option.split dest!: map_of_SomeD)

lemma forwarded_approvals_read:
  assumes "pg_approvalsKey pg = DEFAULT_APPROVALS_KEY" and "cx_approvals ctx = forwardedApprovals args"
  shows "suppliedApprovals pg (membersOf (withoutControlArgs args)) (Some ctx) = sentApprovals args"
proof (cases "argument DEFAULT_APPROVALS_KEY args = VUndefined")
  case True
  then show ?thesis using assms clean_has_no_approvals [of args]
    by (simp add: suppliedApprovals_def sentApprovals_def restoredArgs_def forwardedApprovals_def clean_members)
next
  case False
  then show ?thesis using assms clean_has_no_approvals [of args]
    by (simp add: suppliedApprovals_def sentApprovals_def restoredArgs_def forwardedApprovals_def clean_members getMember_data
        putEntry_def update_conv')
qed

lemma approved_action_is_the_call:
  assumes "pg_approvalsKey pg = DEFAULT_APPROVALS_KEY"
  shows "approvedAction pg toolName (membersOf (withoutControlArgs args)) =
    \<lparr>tr_method = toolName, tr_params = plainObject (businessEntries args)\<rparr>"
proof -
  have "filter (\<lambda>kv. fst kv \<noteq> units DEFAULT_APPROVALS_KEY) (businessEntries args) = businessEntries args"
    using approvals_key_control by (auto simp: businessEntries_def intro!: filter_cong)
  then show ?thesis using assms by (simp add: approvedAction_def clean_members business_again)
qed

text \<open>What the policy engine has to be asked about a call: the principal and the scopes of the credential the call runs under,
  the tool, the namespace the host resolves from the call's own arguments and approvals, the risk of the two, what the host
  configured about the scope, and no approval at all.\<close>

definition authenticatedRequest :: "('k, 'n) gate \<Rightarrow> policyGate \<Rightarrow> jsstring \<Rightarrow> jsmember list \<Rightarrow> jsvalue \<Rightarrow> policyRequest" where
  "authenticatedRequest gt pg toolName args vc =
     (let approvals = argument DEFAULT_APPROVALS_KEY args;
          seen = map dataMember (if approvals = VUndefined then businessEntries args
            else putEntry (units DEFAULT_APPROVALS_KEY) approvals (businessEntries args));
          namespace = (case pg_namespace pg seen of None \<Rightarrow> narrow toolName | Some n \<Rightarrow> n)
      in \<lparr>pr_agentDid = textOr [] (subjectId vc),
          pr_responsibleParty = (if truthy (textMember (controllerOf vc)) then textMember (controllerOf vc) else None),
          pr_toolName = narrow toolName, pr_namespace = namespace, pr_delegatedScopes = scopesOf gt vc,
          pr_budgetRemaining = None, pr_scopeMatched = pg_scopeMatched pg, pr_humanApprovals = [],
          pr_risk = pg_classify pg (narrow toolName) namespace\<rparr>)"

lemma authenticated_request:
  assumes "pg_approvalsKey pg = DEFAULT_APPROVALS_KEY" and "cx_approvals ctx = forwardedApprovals args"
    and "cx_agentDid ctx = subjectId vc" and "cx_delegatedScopes ctx = scopesOf gt vc"
    and "Option.bind (cx_controller ctx) textMember = textMember (controllerOf vc)"
  shows "policyRequestOf pg toolName (membersOf (withoutControlArgs args)) (Some ctx) = authenticatedRequest gt pg toolName args vc"
proof -
  have "restoredArgs DEFAULT_APPROVALS_KEY (membersOf (withoutControlArgs args)) (Some ctx) =
      map dataMember (if argument DEFAULT_APPROVALS_KEY args = VUndefined then businessEntries args
        else putEntry (units DEFAULT_APPROVALS_KEY) (argument DEFAULT_APPROVALS_KEY args) (businessEntries args))"
    using assms(2) clean_has_no_approvals [of args] by (simp add: restoredArgs_def forwardedApprovals_def clean_members)
  then show ?thesis using assms
    by (simp add: policyRequestOf_def buildPolicyRequest_def authenticatedRequest_def contextPrincipal_def Let_def)
qed

text \<open>C2: a call runs past both gates only as it was authorised and approved, where the policy gate reads the approvals from the
  standard control argument. The handler gets what the client sent without the control arguments. The call runs under a
  credential that was verified in this very call for the tool's scope, presented by the call or kept in a live grant of its agent
  or session, with the proven holder where that is enforced (\<open>callAuthority\<close>). The policy engine is asked about exactly this
  principal, its scopes, the tool and its risk, with no approver (\<open>authenticatedRequest\<close>), whatever the arguments claim; it allows
  the call, or it asks for a quorum and at least that many distinct allowed approvers signed an approval, sent with the call, of a
  hash of exactly the tool and the arguments the handler then gets.\<close>

theorem gated_call_was_approved:
  assumes "gatedCall gt pg cl toolName scopeId args sessionId s = CallRuns h ctx"
    and "pg_approvalsKey pg = DEFAULT_APPROVALS_KEY"
  shows "entriesOf (membersOf h) = businessEntries args \<and>
    (\<exists>vc decision. callAuthority gt cl toolName scopeId args sessionId s vc \<and>
      cx_agentDid ctx = subjectId vc \<and> cx_delegatedScopes ctx = scopesOf gt vc \<and>
      pg_engine pg (authenticatedRequest gt pg toolName args vc) = Some decision \<and>
      (decision = Allow \<or>
       (\<exists>q reason hashes. decision = StepUp q reason \<and>
          acceptedRequestHashes (pg_hash pg) \<lparr>tr_method = toolName, tr_params = plainObject (entriesOf (membersOf h))\<rparr> = Inr hashes \<and>
          0 < q_n q \<and> q_n q \<le> int (card (ag_approverDid ` {g \<in> readApproval ` set (sentApprovals args).
            countsFor hashes q (pg_validSignature pg) g})))))"
proof -
  obtain callArgs where run: "fst (wrapWithDelegation gt cl toolName scopeId args sessionId s) = HandlerRuns callArgs ctx"
    "withPolicyGate pg toolName (membersOf callArgs) (Some ctx) = PolicyRuns h"
    using assms(1) by (auto simp: gatedCall_def split: gateOutcome.splits policyOutcome.splits)
  from delegation_gate_runs [OF run(1)] obtain vc where gate: "callArgs = withoutControlArgs args" "cx_approvals ctx = forwardedApprovals args"
    and vc: "callAuthority gt cl toolName scopeId args sessionId s vc" "cx_agentDid ctx = subjectId vc" "cx_delegatedScopes ctx = scopesOf gt vc"
      "Option.bind (cx_controller ctx) textMember = textMember (controllerOf vc)" by blast
  from policy_gate_runs [OF run(2)] obtain decision where h: "h = withoutControlArgs (membersOf callArgs)"
    and d: "pg_engine pg (policyRequestOf pg toolName (membersOf callArgs) (Some ctx)) = Some decision"
    and ok: "decision = Allow \<or> (\<exists>q reason hashes. decision = StepUp q reason \<and>
      acceptedRequestHashes (pg_hash pg) (approvedAction pg toolName (membersOf callArgs)) = Inr hashes \<and> 0 < q_n q \<and>
      q_n q \<le> int (card (ag_approverDid ` {g \<in> readApproval ` set (suppliedApprovals pg (membersOf callArgs) (Some ctx)).
        countsFor hashes q (pg_validSignature pg) g})))" by blast
  have entries: "entriesOf (membersOf h) = businessEntries args" by (simp add: h gate(1) clean_members business_again)
  note ok = ok [unfolded gate(1) approved_action_is_the_call [OF assms(2)] forwarded_approvals_read [OF assms(2) gate(2)]]
  note d = d [unfolded gate(1) authenticated_request [OF assms(2) gate(2) vc(2,3,4)]]
  show ?thesis unfolding entries by (intro conjI refl exI [of _ vc] exI [of _ decision] vc d ok)
qed

definition examplePolicy :: policyGate where
  "examplePolicy = \<lparr>pg_engine = (\<lambda>r. Some (evaluate \<lparr>dc_stepUpQuorum = None, dc_stepUpApprovers = None\<rparr> r)), pg_classify = classify (\<lambda>_. None),
     pg_namespace = (\<lambda>_. None), pg_approvalsKey = DEFAULT_APPROVALS_KEY, pg_validSignature = (\<lambda>_. False), pg_scopeMatched = True,
     pg_hash = (\<lambda>_. []), pg_proofLayer = True, pg_audit = (\<lambda>_. True), pg_toText = (\<lambda>_. None)\<rparr>"

lemma example_risk: "classify (\<lambda>_. None) ''read'' ''read'' = \<lparr>ra_reversibility = Reversible, ra_blastRadius = RecordRadius, ra_severity = Low\<rparr>"
  by code_simp

lemma example_gated: "\<exists>h ctx. gatedCall exampleGate examplePolicy (exampleCall []) (units ''read'') ''files:read'' exampleArgs None (newNonceCache 0) = CallRuns h ctx"
proof -
  let ?ctx = "delegationContext exampleGate ''files:read'' exampleArgs exampleVc" and ?args = "membersOf (withoutControlArgs exampleArgs)"
  have "pr_risk (policyRequestOf examplePolicy (units ''read'') ?args (Some ?ctx)) = \<lparr>ra_reversibility = Reversible, ra_blastRadius = RecordRadius, ra_severity = Low\<rparr>"
    "pr_scopeMatched (policyRequestOf examplePolicy (units ''read'') ?args (Some ?ctx))"
    by (simp_all add: policyRequestOf_def buildPolicyRequest_def examplePolicy_def Let_def example_risk)
  then have "withPolicyGate examplePolicy (units ''read'') ?args (Some ?ctx) = PolicyRuns (withoutControlArgs ?args)"
    by (simp add: withPolicyGate_def) (simp add: examplePolicy_def evaluate_def dangerous_def Let_def)
  then show ?thesis by (simp add: gatedCall_def example_gate)
qed

lemma gated_call_was_approved_witness:
  "\<exists>h ctx. gatedCall exampleGate examplePolicy (exampleCall []) (units ''read'') ''files:read'' exampleArgs None (newNonceCache 0) = CallRuns h ctx \<and>
     entriesOf (membersOf h) = businessEntries exampleArgs"
proof -
  obtain h ctx where run: "gatedCall exampleGate examplePolicy (exampleCall []) (units ''read'') ''files:read'' exampleArgs None (newNonceCache 0) = CallRuns h ctx"
    using example_gated by blast
  have "pg_approvalsKey examplePolicy = DEFAULT_APPROVALS_KEY" by (simp add: examplePolicy_def)
  from gated_call_was_approved [OF run this] run show ?thesis by blast
qed

subsection \<open>The next call\<close>

lemma valid_forms:
  "checkDelegation gt cm arg = DelegationValid vc isJwt e \<Longrightarrow> isJwt = isText arg \<and> (\<not> isJwt \<longrightarrow> vc = arg)"
  by (cases arg) (auto simp: checkDelegation_def verifyDelegation_def verifyToken_def checkChain_def Let_def
      split: chainOutcome.splits option.splits if_splits)

lemma bound_grant:
  assumes "bindGrantOnSuccess gt cl vc arg isJwt sessionId scopeId deadline = Some g" and "isJwt = isText arg" and "\<not> isJwt \<longrightarrow> vc = arg"
  shows "evidenceOf g = Some arg \<and> g_status g = GrantActive \<and> scopeId \<in> set (g_scopes g) \<and> g_sessionId g = sessionId \<and>
    g_userDid g = (if controllerOf vc = VUndefined then None else Some (controllerOf vc))"
  using assms by (cases arg) (auto simp: bindGrantOnSuccess_def evidenceOf_def Let_def split: option.splits if_splits)

lemma gate_binds:
  assumes "wrapWithDelegation gt cl toolName scopeId args sessionId s = (HandlerRuns h ctx, s', Some g)"
  obtains vc isJwt e where "checkDelegation gt (cl_check cl) (argument ''_kyaos_delegation'' args) = DelegationValid vc isJwt e"
    and "scopeGranted gt scopeId vc = Inr True" and "ctx = delegationContext gt scopeId args vc"
    and "\<not> startsWithThrows (controllerOf vc)" and "gt_proofLayer gt"
    and "bindGrantOnSuccess gt cl vc (argument ''_kyaos_delegation'' args) isJwt sessionId scopeId e = Some g"
proof -
  let ?arg = "argument ''_kyaos_delegation'' args"
  have "?arg \<notin> {VUndefined, VNull}"
    using assms by (auto simp: wrapWithDelegation_def withoutDelegation_def Let_def split: if_splits prod.splits option.splits)
  then obtain vc isJwt e where c: "checkDelegation gt (cl_check cl) ?arg = DelegationValid vc isJwt e"
    "withVerifiedDelegation gt cl scopeId args sessionId ?arg vc isJwt e = (HandlerRuns h ctx, Some g)" "gt_proofLayer gt"
    using assms by (auto simp: wrapWithDelegation_def Let_def split: if_splits prod.splits delegationCheck.splits)
  then have "scopeGranted gt scopeId vc = Inr True \<and> ctx = delegationContext gt scopeId args vc \<and> \<not> startsWithThrows (controllerOf vc) \<and>
      bindGrantOnSuccess gt cl vc ?arg isJwt sessionId scopeId e = Some g"
    by (auto simp: withVerifiedDelegation_def split: sum.splits bool.splits if_splits)
  with c(1,3) show thesis by (intro that [of vc isJwt e]) simp_all
qed

lemma firstAuthorized_only:
  "g \<in> set gs \<Longrightarrow> set gs \<subseteq> {g} \<Longrightarrow> authorizeGrant gt gr scopeId g = Some r \<Longrightarrow> firstAuthorized gt gr scopeId gs = Some r"
  by (cases gs) auto

text \<open>C40: a call that presented a delegation spares the later ones of its session from presenting it. Let the first call have
  bound the grant \<open>g\<close>, under a session id that is not empty, for a subject that is plain text and, under \<open>enforce\<close>, no did:key.
  While \<open>g\<close> is stored, the only grant of the session for the scope, before its deadline at both reads of the clock, while its
  credential verifies again and the audit sink takes the event, a later call of any tool of that scope with neither a delegation
  nor a proof runs its handler under the very grant \<open>g\<close>: for the same agent, responsible party, scope and delegated scopes.\<close>

theorem bound_grant_authorises_next_call:
  assumes first: "wrapWithDelegation gt cl toolName scopeId args sessionId s = (HandlerRuns h ctx, s', Some g)"
    and stored: "g \<in> set (map snd (gr_store (cl_session later)))"
    and only: "\<And>g'. g' \<in> set (map snd (gr_store (cl_session later))) \<Longrightarrow> g_sessionId g' = sessionId \<Longrightarrow> scopeId \<in> set (g_scopes g') \<Longrightarrow> g' = g"
    and live: "\<not> pastExpiry (gr_now (cl_session later)) g" "\<not> pastExpiry (gr_readMs (cl_session later) g) g"
    and again: "\<And>vc isJwt e. checkDelegation gt (cl_check cl) (argument ''_kyaos_delegation'' args) = DelegationValid vc isJwt e \<Longrightarrow>
      \<exists>e'. checkDelegation gt (gr_check (cl_session later) g) (argument ''_kyaos_delegation'' args) = DelegationValid vc isJwt e'"
    and agent: "cx_agentDid ctx = jsText (g_agentDid g)" and bearer: "truthy sessionId"
      "\<not> (gt_holderMode gt = HolderEnforce \<and> isHolderBindingApplicable (g_agentDid g))"
    and audit: "gt_audit gt (GrantUsed (g_id g))"
    and bare: "argument ''_kyaos_delegation'' nextArgs \<in> {VUndefined, VNull}" "argument ''_kyaos_proof'' nextArgs = VUndefined"
  shows "\<exists>nextCtx. wrapWithDelegation gt later nextTool scopeId nextArgs sessionId s'' = (HandlerRuns (withoutControlArgs nextArgs) nextCtx, s'', None) \<and>
    cx_grantRef nextCtx = Some (g_id g) \<and> cx_scopeId nextCtx = scopeId \<and> cx_agentDid nextCtx = cx_agentDid ctx \<and>
    cx_controller nextCtx = cx_controller ctx \<and> cx_delegatedScopes nextCtx = cx_delegatedScopes ctx"
proof -
  obtain vc isJwt e where v: "checkDelegation gt (cl_check cl) (argument ''_kyaos_delegation'' args) = DelegationValid vc isJwt e"
    "scopeGranted gt scopeId vc = Inr True" "ctx = delegationContext gt scopeId args vc" "\<not> startsWithThrows (controllerOf vc)" "gt_proofLayer gt"
    "bindGrantOnSuccess gt cl vc (argument ''_kyaos_delegation'' args) isJwt sessionId scopeId e = Some g"
    using first by (rule gate_binds)
  from bound_grant [OF v(6)] valid_forms [OF v(1)] have g: "evidenceOf g = Some (argument ''_kyaos_delegation'' args)"
    "g_status g = GrantActive" "scopeId \<in> set (g_scopes g)" "g_sessionId g = sessionId"
    "g_userDid g = (if controllerOf vc = VUndefined then None else Some (controllerOf vc))" by blast+
  obtain e' where "checkDelegation gt (gr_check (cl_session later) g) (argument ''_kyaos_delegation'' args) = DelegationValid vc isJwt e'"
    using again [OF v(1)] by blast
  then have auth: "authorizeGrant gt (cl_session later) scopeId g = Some (g, vc)"
    using g live v(2,3) agent by (simp add: authorizeGrant_Some_iff delegationContext_def)
  obtain sid where sid: "sessionId = Some sid" "sid \<noteq> []" using bearer(1) by (cases sessionId) auto
  let ?gs = "filter (\<lambda>g. g_sessionId g = sessionId \<and> \<not> (gt_holderMode gt = HolderEnforce \<and> isHolderBindingApplicable (g_agentDid g)))
      (getBySession (gr_now (cl_session later)) (the sessionId) (Some [scopeId]) (gr_store (cl_session later)))"
  have "g \<in> set ?gs" using stored live(1) g sid bearer(2) by (simp add: getBySession_def activeGrants_def coversScopes_def)
  moreover have "set ?gs \<subseteq> {g}" using only by (auto simp: getBySession_def activeGrants_def coversScopes_def)
  ultimately have "firstAuthorized gt (cl_session later) scopeId ?gs = Some (g, vc)"
    by (rule firstAuthorized_only [OF _ _ auth])
  then have "resolveExistingGrant gt later nextTool nextArgs sessionId scopeId s'' = (Some (g, vc), s'')"
    using bearer(1) bare(2) by (simp add: resolveExistingGrant_def resolveAgentGrant_def resolveSessionGrant_def)
  then have "wrapWithDelegation gt later nextTool scopeId nextArgs sessionId s'' =
      (HandlerRuns (withoutControlArgs nextArgs) (grantContext gt scopeId nextArgs g vc), s'', None)"
    using bare(1) v(4,5) audit g(5) by (auto simp: wrapWithDelegation_def withoutDelegation_def Let_def startsWithThrows_def)
  then show ?thesis using v(3) g(5) agent by (simp add: grantContext_def delegationContext_def)
qed

definition exampleBound :: grant where
  "exampleBound = \<lparr>g_id = ''grant_00'', g_agentDid = ''did:s'', g_userDid = None, g_scopes = [''files:read''], g_sessionId = Some ''s1'',
     g_credentialJwt = None, g_delegationCredential = Some exampleVc, g_issuedAt = 1000000, g_expiresAt = Some (2000000, 0),
     g_status = GrantActive, g_revocationReason = None\<rparr>"

lemma example_parts: "subjectId exampleVc = jsText ''did:s''" "controllerOf exampleVc = VUndefined"
  by (simp_all add: subjectId_def controllerOf_def delegationOf_def exampleVc_def exampleDelegation_def headerMember_def plainObject_def dataMember_def units_inj)

lemma example_bound: "bindGrantOnSuccess exampleGate (exampleCall []) exampleVc exampleVc False (Some ''s1'') ''files:read'' (Some (2000000, 0)) = Some exampleBound"
proof -
  have "scopesOf exampleGate exampleVc = [''files:read'']"
    by (simp add: scopesOf_def exampleGate_def example_view getDelegationScopes_def flatScopes_def js_set_def js_add_def)
  then show ?thesis
    by (simp add: bindGrantOnSuccess_def example_parts exampleBound_def js_set_def js_add_def grantId_def Let_def exampleGate_def exampleCall_def)
      (simp add: exampleVc_def plainObject_def)
qed

lemma example_first: "wrapWithDelegation exampleGate (exampleCall []) (units ''read'') ''files:read'' exampleArgs (Some ''s1'') s =
    (HandlerRuns (withoutControlArgs exampleArgs) (delegationContext exampleGate ''files:read'' exampleArgs exampleVc), s, Some exampleBound)"
proof -
  obtain j where "denote exampleVc = Some j" using example_denotes by (auto simp: canonicalisable_def)
  then have "\<not> isl (canonicalizeJsonBytes exampleVc)" by (simp add: canonicalizeJsonBytes_def canonical_denoted)
  moreover have "exampleVc \<notin> {VUndefined, VNull}" by (simp add: exampleVc_def plainObject_def)
  moreover have "gt_proofLayer exampleGate" "gt_audit exampleGate e" "gt_holderMode exampleGate = HolderOff" for e
    by (simp_all add: exampleGate_def)
  moreover have "cl_check (exampleCall []) = exampleCheck" by (simp add: exampleCall_def)
  ultimately show ?thesis using example_checked example_scope example_bound
    by (simp add: wrapWithDelegation_def Let_def example_presented refusesHolder_def withVerifiedDelegation_def startsWithThrows_def example_parts)
qed

lemma bound_grant_authorises_next_call_witness:
  "\<exists>nextCtx. fst (wrapWithDelegation exampleGate (exampleCall [(''grant_00'', exampleBound)]) (units ''list'') ''files:read'' [] (Some ''s1'')
      (newNonceCache 0)) = HandlerRuns (withoutControlArgs []) nextCtx \<and> cx_grantRef nextCtx = Some ''grant_00''"
proof -
  let ?later = "exampleCall [(''grant_00'', exampleBound)]"
  have "\<exists>nextCtx. wrapWithDelegation exampleGate ?later (units ''list'') ''files:read'' [] (Some ''s1'') (newNonceCache 0) =
      (HandlerRuns (withoutControlArgs []) nextCtx, newNonceCache 0, None) \<and> cx_grantRef nextCtx = Some (g_id exampleBound) \<and>
    cx_scopeId nextCtx = ''files:read'' \<and> cx_agentDid nextCtx = cx_agentDid (delegationContext exampleGate ''files:read'' exampleArgs exampleVc) \<and>
    cx_controller nextCtx = cx_controller (delegationContext exampleGate ''files:read'' exampleArgs exampleVc) \<and>
    cx_delegatedScopes nextCtx = cx_delegatedScopes (delegationContext exampleGate ''files:read'' exampleArgs exampleVc)"
  proof (rule bound_grant_authorises_next_call [OF example_first [of "newNonceCache 0"]])
    show "\<exists>e'. checkDelegation exampleGate (gr_check (cl_session ?later) exampleBound)
        (argument ''_kyaos_delegation'' exampleArgs) = DelegationValid vc isJwt e'"
      if "checkDelegation exampleGate (cl_check (exampleCall [])) (argument ''_kyaos_delegation'' exampleArgs) = DelegationValid vc isJwt e" for vc isJwt e
      using that by (simp add: exampleCall_def exampleRead_def)
  qed (simp_all add: exampleCall_def exampleRead_def exampleBound_def pastExpiry_def decimalLess_def delegationContext_def example_parts exampleGate_def)
  then show ?thesis by (auto simp: exampleBound_def)
qed

subsection \<open>Two corners\<close>

text \<open>Without holder binding a grant bound under the empty session id can never be resolved, though it is stored.\<close>

lemma empty_session_grant_orphaned:
  "bindGrantOnSuccess exampleGate (exampleCall []) exampleVc exampleVc False (Some '''') ''files:read'' None \<noteq> None \<and>
   (gt_holderMode gt = HolderOff \<longrightarrow> fst (resolveExistingGrant gt cl toolName args (Some '''') scopeId s) = None)"
  by (simp add: resolveExistingGrant_def resolveAgentGrant_def resolveSessionGrant_def bindGrantOnSuccess_def example_parts Let_def exampleGate_def)

text \<open>A controller that is no text makes the gate throw after the scope was granted.\<close>

lemma controller_not_text_throws:
  "scopeGranted gt scopeId vc = Inr True \<Longrightarrow> startsWithThrows (controllerOf vc) \<Longrightarrow>
     withVerifiedDelegation gt cl scopeId args sessionId arg vc isJwt e = (GateThrew, None)"
  by (simp add: withVerifiedDelegation_def)

end
