(* ===== verification/Audit_Types.thy ===== *)
theory Audit_Types
  imports Kya_Prelude
begin

text \<open>
  \<open>src/audit/types.ts\<close> and \<open>src/audit/integrity.ts\<close>: producer events, signed ledger entries,
  receipts and heads of the audit ledger, and the evidence an event refers to. A digest is its
  text; a decimal sequence is the \<^typ>\<open>nat\<close> it denotes, in the one spelling the schemas accept.
\<close>

type_synonym digest = string

subsection \<open>Parties, signers, evidence\<close>

record evidenceEncryption =
  ee_suite :: string
  ee_keyId :: string
  ee_nonce :: string
  ee_aadDigest :: digest

record evidenceRef =
  er_objectId :: string
  er_ciphertextDigest :: digest
  er_plaintextCommitment :: "digest option"
  er_mediaType :: string
  er_size :: nat
  er_encryption :: evidenceEncryption

datatype partyRef =
    PublicDid string
  | PairwiseDid string
  | KeyedCommitment digest string
  | EvidenceParty evidenceRef

record signerRef =
  sr_did :: string
  sr_kid :: string
  sr_alg :: string

subsection \<open>Events\<close>

text \<open>The details of an event, by family; the phase of a family is its text.\<close>

datatype auditDetails =
    SessionDetails (ad_phase: string) (ad_reasonCode: "string option")
  | ToolDetails (ad_phase: string) (ad_attempt: nat) (ad_idempotencyRef: "string option")
  | ProofDetails (ad_phase: string) (ad_proofDigest: "digest option") (ad_verificationCode: "string option")
  | DelegationDetails (ad_phase: string) (ad_delegationRef: string) (ad_parentRef: "string option")
      (ad_statusEvidence: "evidenceRef list option")
  | AuthorizationDetails (ad_phase: string) (ad_policyDigest: "digest option") (ad_grantRef: "string option")
  | ConsentDetails (ad_phase: string) (ad_consentRef: "string option")
  | KeyDetails (ad_phase: string) (ad_previousSigner: "signerRef option") (ad_nextSigner: "signerRef option")
      (ad_configurationDigest: "digest option")
  | LedgerDetails (ad_phase: string) (ad_checkpointDigest: "digest option") (ad_previousEpochId: "string option")
      (ad_previousTerminalCheckpointDigest: "digest option") (ad_successorEpochIds: "string list option")
      (ad_targetEvidenceRef: "evidenceRef option")
  | AdministrationDetails (ad_phase: string) (ad_purpose: "string option") (ad_sourceSequence: "nat option")
      (ad_selectionDigest: "digest option")

record authorizationEvidence =
  ae_source :: string
  ae_decision :: string
  ae_scopeId :: "string option"
  ae_delegationRef :: "string option"
  ae_delegationCredentialDigest :: "digest option"
  ae_delegationChainDigests :: "digest list option"
  ae_statusEvidence :: "evidenceRef list option"
  ae_grantRef :: "string option"
  ae_policyId :: "string option"
  ae_policyVersion :: "string option"
  ae_policyDigest :: "digest option"
  ae_verificationCode :: "string option"

record eventSource =
  es_producer :: partyRef
  es_sourceId :: string
  es_sourceSequence :: "nat option"
  es_previousSourceEventDigest :: "digest option"

record eventAction =
  ea_category :: string
  ea_name :: "string option"
  ea_detailRef :: "evidenceRef option"

record eventPrivacy =
  ep_classification :: string
  ep_retentionClass :: string
  ep_legalHold :: "string option"

text \<open>The constant \<open>schema\<close> and \<open>eventVersion\<close> fields are left out of the record.\<close>

record producerEvent =
  pe_eventId :: string
  pe_eventType :: string
  pe_binding :: string
  pe_occurredAt :: int
  pe_tenantRef :: partyRef
  pe_source :: eventSource
  pe_correlationId :: "string option"
  pe_causationId :: "string option"
  pe_trace :: "(string option \<times> string option) option"
  pe_session :: "(partyRef \<times> digest option) option"
  pe_actor :: "partyRef option"
  pe_responsibleParty :: "partyRef option"
  pe_resource :: "partyRef option"
  pe_action :: eventAction
  pe_outcome :: string
  pe_reason :: "(string \<times> evidenceRef option) option"
  pe_authorization :: "authorizationEvidence option"
  pe_proof :: "evidenceRef option"
  pe_evidence :: "evidenceRef list"
  pe_details :: auditDetails
  pe_privacy :: eventPrivacy

subsection \<open>Entries and heads\<close>

record entryCore =
  ec_ledgerId :: string
  ec_ledgerEpochId :: string
  ec_sequence :: nat
  ec_previousEntryDigest :: "digest option"
  ec_recordedAt :: int
  ec_recorder :: signerRef
  ec_eventDigest :: digest
  ec_event :: producerEvent
  ec_evidenceManifestDigest :: digest

record receiptCore =
  rc_ledgerId :: string
  rc_ledgerEpochId :: string
  rc_sequence :: nat
  rc_eventId :: string
  rc_entryDigest :: digest
  rc_previousEntryDigest :: "digest option"
  rc_recordedAt :: int
  rc_recorder :: signerRef

record signedEntry =
  se_core :: entryCore
  se_eventDigest :: digest
  se_entryDigest :: digest
  se_receiptCore :: receiptCore
  se_receiptJws :: string

record auditHead =
  ah_ledgerId :: string
  ah_ledgerEpochId :: string
  ah_sequence :: nat
  ah_entryDigest :: digest

record ledgerRef =
  lr_ledgerId :: string
  lr_ledgerEpochId :: string

subsection \<open>The evidence of an event, and the receipt of an entry\<close>

definition partyEvidence :: "partyRef option \<Rightarrow> evidenceRef list" where
  "partyEvidence p = (case p of Some (EvidenceParty r) \<Rightarrow> [r] | _ \<Rightarrow> [])"

definition optionRefs :: "evidenceRef option \<Rightarrow> evidenceRef list" where
  "optionRefs r = (case r of None \<Rightarrow> [] | Some x \<Rightarrow> [x])"

definition detailsEvidence :: "auditDetails \<Rightarrow> evidenceRef list" where
  "detailsEvidence d = (case d of
       DelegationDetails _ _ _ ev \<Rightarrow> (case ev of None \<Rightarrow> [] | Some refs \<Rightarrow> refs)
     | LedgerDetails _ _ _ _ _ (Some r) \<Rightarrow> [r]
     | _ \<Rightarrow> [])"

definition collectAuditEvidenceRefs :: "producerEvent \<Rightarrow> evidenceRef list" where
  "collectAuditEvidenceRefs e =
     partyEvidence (Some (pe_tenantRef e)) @ partyEvidence (Some (es_producer (pe_source e))) @
     partyEvidence (map_option fst (pe_session e)) @ partyEvidence (pe_actor e) @
     partyEvidence (pe_responsibleParty e) @ partyEvidence (pe_resource e) @
     optionRefs (pe_proof e) @ pe_evidence e @ optionRefs (ea_detailRef (pe_action e)) @
     optionRefs (Option.bind (pe_reason e) snd) @
     (case Option.bind (pe_authorization e) ae_statusEvidence of None \<Rightarrow> [] | Some refs \<Rightarrow> refs) @
     detailsEvidence (pe_details e)"

definition buildAuditRecorderReceiptCore :: "entryCore \<Rightarrow> digest \<Rightarrow> receiptCore" where
  "buildAuditRecorderReceiptCore core d =
     \<lparr>rc_ledgerId = ec_ledgerId core, rc_ledgerEpochId = ec_ledgerEpochId core, rc_sequence = ec_sequence core,
      rc_eventId = pe_eventId (ec_event core), rc_entryDigest = d,
      rc_previousEntryDigest = ec_previousEntryDigest core, rc_recordedAt = ec_recordedAt core,
      rc_recorder = ec_recorder core\<rparr>"

end
