(* ===== verification/Audit_Journal.thy ===== *)
theory Audit_Journal
  imports Audit_Types
begin

text \<open>
  \<open>src/audit/providers/journal.ts\<close> and \<open>memory-journal.ts\<close>: the ledger store with its atomic
  compare-and-append. The interface is the record of operations \<open>journalOps\<close> over an arbitrary
  journal state and the locale \<open>audit_journal\<close> of their laws for one ledger; the memory journal is
  its interpretation. The second part shows that a ledger written only through linked appends is a
  hash chain, whatever the order in which its writers come.
\<close>

subsection \<open>The interface\<close>

datatype appendResult =
    Appended signedEntry
  | DuplicateEntry signedEntry
  | HeadConflict "auditHead option"
  | IdempotencyConflict signedEntry

record appendInput =
  ai_ledger :: ledgerRef
  ai_expectedHead :: "auditHead option"
  ai_entry :: signedEntry
  ai_idempotencyKey :: digest

text \<open>The operations a recorder calls. \<open>compareAndAppend\<close> may throw, the others answer.\<close>

record 'j journalOps =
  jo_getHead :: "ledgerRef \<Rightarrow> 'j \<Rightarrow> auditHead option"
  jo_getByIdempotencyKey :: "string \<Rightarrow> digest \<Rightarrow> 'j \<Rightarrow> signedEntry option"
  jo_compareAndAppend :: "appendInput \<Rightarrow> 'j \<Rightarrow> (unit + appendResult) \<times> 'j"
  jo_readRange :: "ledgerRef \<Rightarrow> nat option \<Rightarrow> int option \<Rightarrow> 'j \<Rightarrow> signedEntry list"

definition headFor :: "ledgerRef \<Rightarrow> signedEntry \<Rightarrow> auditHead" where
  "headFor l e = \<lparr>ah_ledgerId = lr_ledgerId l, ah_ledgerEpochId = lr_ledgerEpochId l,
     ah_sequence = ec_sequence (se_core e), ah_entryDigest = se_entryDigest e\<rparr>"

definition headOf :: "ledgerRef \<Rightarrow> signedEntry list \<Rightarrow> auditHead option" where
  "headOf l es = (if es = [] then None else Some (headFor l (last es)))"

lemma headOf_append [simp]: "headOf l (es @ [e]) = Some (headFor l e)"
  by (simp add: headOf_def)

lemma headOf_Nil [simp]: "headOf l [] = None"
  by (simp add: headOf_def)

subsection \<open>The memory journal\<close>

definition NUL :: char where
  "NUL = CHR 0x00"

definition ledgerKey :: "ledgerRef \<Rightarrow> string" where
  "ledgerKey l = lr_ledgerId l @ NUL # lr_ledgerEpochId l"

definition idempotencyMapKey :: "string \<Rightarrow> digest \<Rightarrow> string" where
  "idempotencyMapKey ledgerId k = ledgerId @ NUL # k"

definition headsEqual :: "auditHead option \<Rightarrow> auditHead option \<Rightarrow> bool" where
  "headsEqual l r = (case (l, r) of
       (Some a, Some b) \<Rightarrow> ah_ledgerId a = ah_ledgerId b \<and> ah_ledgerEpochId a = ah_ledgerEpochId b \<and>
         ah_sequence a = ah_sequence b \<and> ah_entryDigest a = ah_entryDigest b
     | (None, None) \<Rightarrow> True
     | _ \<Rightarrow> False)"

record memJournal =
  mj_entries :: "(string, signedEntry list) jsmap"
  mj_byKey :: "(string, signedEntry) jsmap"
  mj_heads :: "(string, auditHead) jsmap"

definition emptyJournal :: memJournal where
  "emptyJournal = \<lparr>mj_entries = [], mj_byKey = [], mj_heads = []\<rparr>"

definition memGetHead :: "ledgerRef \<Rightarrow> memJournal \<Rightarrow> auditHead option" where
  "memGetHead l j = jm_get (mj_heads j) (ledgerKey l)"

definition memGetByIdempotencyKey :: "string \<Rightarrow> digest \<Rightarrow> memJournal \<Rightarrow> signedEntry option" where
  "memGetByIdempotencyKey ledgerId k j = jm_get (mj_byKey j) (idempotencyMapKey ledgerId k)"

definition memSnapshot :: "ledgerRef \<Rightarrow> memJournal \<Rightarrow> signedEntry list" where
  "memSnapshot l j = (case jm_get (mj_entries j) (ledgerKey l) of Some es \<Rightarrow> es | None \<Rightarrow> [])"

definition memCompareAndAppend :: "appendInput \<Rightarrow> memJournal \<Rightarrow> appendResult \<times> memJournal" where
  "memCompareAndAppend input j =
     (let idKey = idempotencyMapKey (lr_ledgerId (ai_ledger input)) (ai_idempotencyKey input)
      in case jm_get (mj_byKey j) idKey of
           Some existing \<Rightarrow>
             (if se_eventDigest existing = se_eventDigest (ai_entry input) then DuplicateEntry existing
              else IdempotencyConflict existing, j)
         | None \<Rightarrow>
             (let key = ledgerKey (ai_ledger input); actualHead = jm_get (mj_heads j) key
              in if \<not> headsEqual (ai_expectedHead input) actualHead then (HeadConflict actualHead, j)
                 else (Appended (ai_entry input),
                   \<lparr>mj_entries = jm_set key (memSnapshot (ai_ledger input) j @ [ai_entry input]) (mj_entries j),
                    mj_byKey = jm_set idKey (ai_entry input) (mj_byKey j),
                    mj_heads = jm_set key (headFor (ai_ledger input) (ai_entry input)) (mj_heads j)\<rparr>)))"

text \<open>The generator of \<open>readRange\<close>, run to its end; a limit is any integer.\<close>

fun yieldRange :: "nat option \<Rightarrow> int option \<Rightarrow> int \<Rightarrow> signedEntry list \<Rightarrow> signedEntry list" where
  "yieldRange after limit yielded [] = []"
| "yieldRange after limit yielded (e # es) =
     (if (case after of None \<Rightarrow> False | Some a \<Rightarrow> ec_sequence (se_core e) \<le> a) then yieldRange after limit yielded es
      else if (case limit of None \<Rightarrow> False | Some n \<Rightarrow> n \<le> yielded) then []
      else e # yieldRange after limit (yielded + 1) es)"

definition memReadRange :: "ledgerRef \<Rightarrow> nat option \<Rightarrow> int option \<Rightarrow> memJournal \<Rightarrow> signedEntry list" where
  "memReadRange l after limit j = yieldRange after limit 0 (memSnapshot l j)"

definition memOps :: "memJournal journalOps" where
  "memOps = \<lparr>jo_getHead = memGetHead, jo_getByIdempotencyKey = memGetByIdempotencyKey,
     jo_compareAndAppend = (\<lambda>i j. case memCompareAndAppend i j of (r, j') \<Rightarrow> (Inr r, j')),
     jo_readRange = memReadRange\<rparr>"

lemma headsEqual_iff: "headsEqual l r \<longleftrightarrow> l = r"
  by (cases l; cases r) (auto simp: headsEqual_def)

lemma ledgerKey_inject:
  assumes "NUL \<notin> set (lr_ledgerId l)" and "NUL \<notin> set (lr_ledgerId l')"
  shows "ledgerKey l = ledgerKey l' \<longleftrightarrow> l = l'"
  using append_sep_inject [OF _ assms, of "lr_ledgerEpochId l" "lr_ledgerEpochId l'"]
  by (auto simp: ledgerKey_def)

lemma idempotencyMapKey_inject:
  assumes "NUL \<notin> set i" and "NUL \<notin> set i'"
  shows "idempotencyMapKey i k = idempotencyMapKey i' k' \<longleftrightarrow> i = i' \<and> k = k'"
  using append_sep_inject [OF _ assms, of k k'] by (auto simp: idempotencyMapKey_def)

subsection \<open>The laws of a journal for one ledger\<close>

locale audit_journal =
  fixes ops :: "'j journalOps" and ledger :: ledgerRef
    and inv :: "'j \<Rightarrow> bool" and entries :: "'j \<Rightarrow> signedEntry list"
  assumes head_is_last: "inv j \<Longrightarrow> jo_getHead ops ledger j = headOf ledger (entries j)"
    and append_known: "inv j \<Longrightarrow> jo_getByIdempotencyKey ops (lr_ledgerId ledger) k j = Some e \<Longrightarrow>
      jo_compareAndAppend ops \<lparr>ai_ledger = ledger, ai_expectedHead = h, ai_entry = n, ai_idempotencyKey = k\<rparr> j =
        (Inr (if se_eventDigest e = se_eventDigest n then DuplicateEntry e else IdempotencyConflict e), j)"
    and append_stale: "inv j \<Longrightarrow> jo_getByIdempotencyKey ops (lr_ledgerId ledger) k j = None \<Longrightarrow>
      h \<noteq> headOf ledger (entries j) \<Longrightarrow>
      jo_compareAndAppend ops \<lparr>ai_ledger = ledger, ai_expectedHead = h, ai_entry = n, ai_idempotencyKey = k\<rparr> j =
        (Inr (HeadConflict (headOf ledger (entries j))), j)"
    and append_fresh: "inv j \<Longrightarrow> jo_getByIdempotencyKey ops (lr_ledgerId ledger) k j = None \<Longrightarrow>
      h = headOf ledger (entries j) \<Longrightarrow>
      \<exists>j'. jo_compareAndAppend ops \<lparr>ai_ledger = ledger, ai_expectedHead = h, ai_entry = n, ai_idempotencyKey = k\<rparr> j =
          (Inr (Appended n), j') \<and> inv j' \<and> entries j' = entries j @ [n] \<and>
        (\<forall>k'. jo_getByIdempotencyKey ops (lr_ledgerId ledger) k' j' =
          (if k' = k then Some n else jo_getByIdempotencyKey ops (lr_ledgerId ledger) k' j))"
begin

text \<open>What one compare-and-append can do.\<close>

lemma append_cases:
  assumes "inv j"
    and "jo_compareAndAppend ops \<lparr>ai_ledger = ledger, ai_expectedHead = h, ai_entry = n, ai_idempotencyKey = k\<rparr> j = (r, j')"
  obtains (known) e where "jo_getByIdempotencyKey ops (lr_ledgerId ledger) k j = Some e" "j' = j"
      "r = Inr (if se_eventDigest e = se_eventDigest n then DuplicateEntry e else IdempotencyConflict e)"
  | (stale) "jo_getByIdempotencyKey ops (lr_ledgerId ledger) k j = None" "h \<noteq> headOf ledger (entries j)" "j' = j"
      "r = Inr (HeadConflict (headOf ledger (entries j)))"
  | (fresh) "jo_getByIdempotencyKey ops (lr_ledgerId ledger) k j = None" "h = headOf ledger (entries j)"
      "r = Inr (Appended n)" "inv j'" "entries j' = entries j @ [n]"
      "\<And>k'. jo_getByIdempotencyKey ops (lr_ledgerId ledger) k' j' =
        (if k' = k then Some n else jo_getByIdempotencyKey ops (lr_ledgerId ledger) k' j)"
proof (cases "jo_getByIdempotencyKey ops (lr_ledgerId ledger) k j")
  case (Some e)
  then show thesis using known append_known [OF assms(1) Some] assms(2) by auto
next
  case None
  show thesis
  proof (cases "h = headOf ledger (entries j)")
    case True
    then show thesis using fresh None append_fresh [OF assms(1) None True, of n] assms(2) by auto
  next
    case False
    then show thesis using stale None append_stale [OF assms(1) None False, of n] assms(2) by auto
  qed
qed

end

text \<open>The memory journal obeys the laws for every ledger; its head record is then the last entry.\<close>

definition memInv :: "ledgerRef \<Rightarrow> memJournal \<Rightarrow> bool" where
  "memInv l j \<longleftrightarrow> memGetHead l j = headOf l (memSnapshot l j)"

lemma memAppend_known:
  "memGetByIdempotencyKey (lr_ledgerId (ai_ledger i)) (ai_idempotencyKey i) j = Some e \<Longrightarrow>
    memCompareAndAppend i j =
      (if se_eventDigest e = se_eventDigest (ai_entry i) then DuplicateEntry e else IdempotencyConflict e, j)"
  by (simp add: memCompareAndAppend_def memGetByIdempotencyKey_def)

lemma memAppend_stale:
  "memGetByIdempotencyKey (lr_ledgerId (ai_ledger i)) (ai_idempotencyKey i) j = None \<Longrightarrow>
    ai_expectedHead i \<noteq> memGetHead (ai_ledger i) j \<Longrightarrow>
    memCompareAndAppend i j = (HeadConflict (memGetHead (ai_ledger i) j), j)"
  by (simp add: memCompareAndAppend_def memGetByIdempotencyKey_def memGetHead_def headsEqual_iff Let_def)

lemma memAppend_fresh:
  assumes "memGetByIdempotencyKey (lr_ledgerId (ai_ledger i)) (ai_idempotencyKey i) j = None"
    and "ai_expectedHead i = memGetHead (ai_ledger i) j"
  shows "fst (memCompareAndAppend i j) = Appended (ai_entry i)"
    and "memSnapshot l (snd (memCompareAndAppend i j)) =
      (if ledgerKey l = ledgerKey (ai_ledger i) then memSnapshot (ai_ledger i) j @ [ai_entry i] else memSnapshot l j)"
    and "memGetHead l (snd (memCompareAndAppend i j)) =
      (if ledgerKey l = ledgerKey (ai_ledger i) then Some (headFor (ai_ledger i) (ai_entry i)) else memGetHead l j)"
    and "memGetByIdempotencyKey s k (snd (memCompareAndAppend i j)) =
      (if idempotencyMapKey s k = idempotencyMapKey (lr_ledgerId (ai_ledger i)) (ai_idempotencyKey i)
       then Some (ai_entry i) else memGetByIdempotencyKey s k j)"
  using assms
  by (simp_all add: memCompareAndAppend_def memGetByIdempotencyKey_def memGetHead_def memSnapshot_def headsEqual_iff
      Let_def)

interpretation mem: audit_journal memOps l "memInv l" "memSnapshot l" for l
proof (unfold_locales, goal_cases)
  case (1 j)
  then show ?case by (simp add: memInv_def memOps_def)
next
  case (2 j k e h n)
  then show ?case by (simp add: memOps_def memAppend_known)
next
  case (3 j k h n)
  then show ?case by (simp add: memOps_def memInv_def memAppend_stale)
next
  case (4 j k h n)
  let ?i = "\<lparr>ai_ledger = l, ai_expectedHead = h, ai_entry = n, ai_idempotencyKey = k\<rparr>"
  have "memGetByIdempotencyKey (lr_ledgerId (ai_ledger ?i)) (ai_idempotencyKey ?i) j = None"
    "ai_expectedHead ?i = memGetHead (ai_ledger ?i) j" using 4 by (simp_all add: memOps_def memInv_def)
  note fresh = memAppend_fresh [OF this]
  show ?case
    by (intro exI [of _ "snd (memCompareAndAppend ?i j)"])
      (use fresh in \<open>simp add: memOps_def memInv_def case_prod_beta idempotencyMapKey_def\<close>)
qed

subsection \<open>Hash chains\<close>

text \<open>An entry continues a head: the next sequence, and the digest of the head as predecessor; a
  ledger is a chain when each of its entries continues the one before it.\<close>

definition continues :: "ledgerRef \<Rightarrow> auditHead option \<Rightarrow> signedEntry \<Rightarrow> bool" where
  "continues l h e \<longleftrightarrow> ec_ledgerId (se_core e) = lr_ledgerId l \<and> ec_ledgerEpochId (se_core e) = lr_ledgerEpochId l \<and>
     ec_sequence (se_core e) = (case h of None \<Rightarrow> 0 | Some a \<Rightarrow> ah_sequence a + 1) \<and>
     ec_previousEntryDigest (se_core e) = map_option ah_entryDigest h"

definition chainedLedger :: "ledgerRef \<Rightarrow> signedEntry list \<Rightarrow> bool" where
  "chainedLedger l es \<longleftrightarrow> (\<forall>i<length es. ec_ledgerId (se_core (es ! i)) = lr_ledgerId l \<and>
     ec_ledgerEpochId (se_core (es ! i)) = lr_ledgerEpochId l \<and> ec_sequence (se_core (es ! i)) = i \<and>
     ec_previousEntryDigest (se_core (es ! i)) = (if i = 0 then None else Some (se_entryDigest (es ! (i - 1)))))"

lemma chained_Nil [simp]: "chainedLedger l []"
  by (simp add: chainedLedger_def)

lemma chained_append:
  assumes "chainedLedger l es" and "continues l (headOf l es) e"
  shows "chainedLedger l (es @ [e])"
proof -
  have "ec_sequence (se_core (last es)) = length es - 1" if "es \<noteq> []"
    using assms(1) that by (simp add: chainedLedger_def last_conv_nth)
  then have e: "ec_sequence (se_core e) = length es"
    "ec_previousEntryDigest (se_core e) = (if es = [] then None else Some (se_entryDigest (last es)))"
    "ec_ledgerId (se_core e) = lr_ledgerId l" "ec_ledgerEpochId (se_core e) = lr_ledgerEpochId l"
    using assms(2) by (cases "es = []"; auto simp: continues_def headOf_def headFor_def)+
  show ?thesis
    unfolding chainedLedger_def
  proof (intro allI impI)
    fix i assume "i < length (es @ [e])"
    then consider "i < length es" | "i = length es" by fastforce
    then show "ec_ledgerId (se_core ((es @ [e]) ! i)) = lr_ledgerId l \<and>
        ec_ledgerEpochId (se_core ((es @ [e]) ! i)) = lr_ledgerEpochId l \<and> ec_sequence (se_core ((es @ [e]) ! i)) = i \<and>
        ec_previousEntryDigest (se_core ((es @ [e]) ! i)) = (if i = 0 then None else Some (se_entryDigest ((es @ [e]) ! (i - 1))))"
    proof cases
      case 1
      moreover have "i - 1 < length es" using 1 by simp
      ultimately show ?thesis using assms(1) by (simp add: chainedLedger_def nth_append del: One_nat_def)
    next
      case 2
      then show ?thesis using e by (cases "es = []") (simp_all add: nth_append last_conv_nth)
    qed
  qed
qed

lemma chained_sequences: "chainedLedger l es \<Longrightarrow> map (\<lambda>e. ec_sequence (se_core e)) es = [0..<length es]"
  by (rule nth_equalityI) (simp_all add: chainedLedger_def)

subsection \<open>Any number of writers\<close>

text \<open>A run of compare-and-appends on the memory journal, in the order in which they take effect,
  with their answers.\<close>

fun runAppends :: "appendInput list \<Rightarrow> memJournal \<Rightarrow> appendResult list \<times> memJournal" where
  "runAppends [] j = ([], j)"
| "runAppends (i # is) j = (case memCompareAndAppend i j of (r, j') \<Rightarrow>
     (case runAppends is j' of (rs, j'') \<Rightarrow> (r # rs, j'')))"

text \<open>A well-behaved writer: it names its ledger without NUL characters and offers an entry that
  continues the head it expects, however old that head is.\<close>

definition goodInput :: "appendInput \<Rightarrow> bool" where
  "goodInput i \<longleftrightarrow> NUL \<notin> set (lr_ledgerId (ai_ledger i)) \<and> continues (ai_ledger i) (ai_expectedHead i) (ai_entry i)"

definition chainedJournal :: "memJournal \<Rightarrow> bool" where
  "chainedJournal j \<longleftrightarrow> (\<forall>l :: ledgerRef. NUL \<notin> set (lr_ledgerId l) \<longrightarrow> memInv l j \<and> chainedLedger l (memSnapshot l j))"

lemma append_chained:
  assumes "chainedJournal j" and "goodInput i"
  shows "chainedJournal (snd (memCompareAndAppend i j))"
proof (cases "memGetByIdempotencyKey (lr_ledgerId (ai_ledger i)) (ai_idempotencyKey i) j")
  case (Some e)
  then show ?thesis using assms(1) by (simp add: memAppend_known)
next
  case None
  show ?thesis
  proof (cases "ai_expectedHead i = memGetHead (ai_ledger i) j")
    case False
    then show ?thesis using assms(1) None by (simp add: memAppend_stale)
  next
    case True
    note fresh = memAppend_fresh [OF None True]
    show ?thesis
      unfolding chainedJournal_def
    proof (intro allI impI)
      fix l :: ledgerRef assume l: "NUL \<notin> set (lr_ledgerId l)"
      have same: "ledgerKey l = ledgerKey (ai_ledger i) \<longleftrightarrow> l = ai_ledger i"
        by (rule ledgerKey_inject [OF l]) (use assms(2) in \<open>simp add: goodInput_def\<close>)
      have old: "memInv l j" "chainedLedger l (memSnapshot l j)" using assms(1) l by (auto simp: chainedJournal_def)
      have "continues l (headOf l (memSnapshot l j)) (ai_entry i)" if "l = ai_ledger i"
        using assms(2) old(1) True that by (simp add: goodInput_def memInv_def)
      then show "memInv l (snd (memCompareAndAppend i j)) \<and> chainedLedger l (memSnapshot l (snd (memCompareAndAppend i j)))"
        using old chained_append by (auto simp: memInv_def fresh same)
    qed
  qed
qed

lemma runAppends_chained:
  "chainedJournal j \<Longrightarrow> list_all goodInput is \<Longrightarrow> chainedJournal (snd (runAppends is j))"
proof (induction "is" arbitrary: j)
  case (Cons i "is")
  then show ?case using Cons.IH [OF append_chained] by (simp add: case_prod_beta)
qed simp

lemma empty_chained: "chainedJournal emptyJournal"
  by (simp add: chainedJournal_def memInv_def memGetHead_def memSnapshot_def emptyJournal_def)

text \<open>Concrete entries, for the witnesses: two writers that both saw the empty ledger, and one that saw
  the first entry.\<close>

definition demoEvent :: "string \<Rightarrow> producerEvent" where
  "demoEvent i = \<lparr>pe_eventId = i, pe_eventType = ''tool.call.started'', pe_binding = ''mcp'', pe_occurredAt = 0,
     pe_tenantRef = PublicDid ''t'', pe_source = \<lparr>es_producer = PublicDid ''p'', es_sourceId = ''s'',
       es_sourceSequence = None, es_previousSourceEventDigest = None\<rparr>,
     pe_correlationId = None, pe_causationId = None, pe_trace = None, pe_session = None, pe_actor = None,
     pe_responsibleParty = None, pe_resource = None,
     pe_action = \<lparr>ea_category = ''tool'', ea_name = None, ea_detailRef = None\<rparr>, pe_outcome = ''succeeded'',
     pe_reason = None, pe_authorization = None, pe_proof = None, pe_evidence = [],
     pe_details = ToolDetails ''started'' 0 None,
     pe_privacy = \<lparr>ep_classification = ''internal'', ep_retentionClass = ''x'', ep_legalHold = None\<rparr>\<rparr>"

definition demoSigner :: signerRef where
  "demoSigner = \<lparr>sr_did = ''r'', sr_kid = ''r#k'', sr_alg = ''EdDSA''\<rparr>"

definition demoEntry :: "string \<Rightarrow> nat \<Rightarrow> digest option \<Rightarrow> signedEntry" where
  "demoEntry i n prev = (let core = \<lparr>ec_ledgerId = ''L'', ec_ledgerEpochId = ''1'', ec_sequence = n,
       ec_previousEntryDigest = prev, ec_recordedAt = 0, ec_recorder = demoSigner, ec_eventDigest = ''e'' @ i,
       ec_event = demoEvent i, ec_evidenceManifestDigest = ''m''\<rparr>
     in \<lparr>se_core = core, se_eventDigest = ''e'' @ i, se_entryDigest = ''d'' @ i,
         se_receiptCore = buildAuditRecorderReceiptCore core (''d'' @ i), se_receiptJws = ''sig''\<rparr>)"

definition demoLedger :: ledgerRef where
  "demoLedger = \<lparr>lr_ledgerId = ''L'', lr_ledgerEpochId = ''1''\<rparr>"

definition demoInput :: "string \<Rightarrow> string option \<Rightarrow> appendInput" where
  "demoInput i prev = (case prev of
     None \<Rightarrow> \<lparr>ai_ledger = demoLedger, ai_expectedHead = None, ai_entry = demoEntry i 0 None, ai_idempotencyKey = ''k'' @ i\<rparr>
   | Some q \<Rightarrow> \<lparr>ai_ledger = demoLedger, ai_expectedHead = Some (headFor demoLedger (demoEntry q 0 None)),
       ai_entry = demoEntry i 1 (Some (''d'' @ q)), ai_idempotencyKey = ''k'' @ i\<rparr>)"

definition demoInputs :: "appendInput list" where
  "demoInputs = [demoInput ''a'' None, demoInput ''b'' None, demoInput ''b'' (Some ''a''), demoInput ''a'' None]"

lemma demo_good: "list_all goodInput demoInputs"
  by code_simp

text \<open>Where the stored entries come from: each was offered against exactly the head that the entries before it make.\<close>

definition offeredJournal :: "appendInput set \<Rightarrow> memJournal \<Rightarrow> bool" where
  "offeredJournal D j \<longleftrightarrow> (\<forall>l :: ledgerRef. NUL \<notin> set (lr_ledgerId l) \<longrightarrow> memInv l j \<and>
     (\<forall>n < length (memSnapshot l j). \<exists>i \<in> D. ai_ledger i = l \<and> ai_entry i = memSnapshot l j ! n \<and>
        ai_expectedHead i = headOf l (take n (memSnapshot l j))))"

lemma append_offered:
  assumes "offeredJournal D j" and "NUL \<notin> set (lr_ledgerId (ai_ledger i))"
  shows "offeredJournal (insert i D) (snd (memCompareAndAppend i j))"
proof (cases "memGetByIdempotencyKey (lr_ledgerId (ai_ledger i)) (ai_idempotencyKey i) j")
  case (Some e)
  then show ?thesis using assms(1) by (fastforce simp: memAppend_known offeredJournal_def)
next
  case None
  show ?thesis
  proof (cases "ai_expectedHead i = memGetHead (ai_ledger i) j")
    case False
    then show ?thesis using assms(1) None by (fastforce simp: memAppend_stale offeredJournal_def)
  next
    case True
    note fresh = memAppend_fresh [OF None True]
    show ?thesis
      unfolding offeredJournal_def
    proof (intro allI impI)
      fix l :: ledgerRef assume l: "NUL \<notin> set (lr_ledgerId l)"
      have same: "ledgerKey l = ledgerKey (ai_ledger i) \<longleftrightarrow> l = ai_ledger i" by (rule ledgerKey_inject [OF l assms(2)])
      have old: "memInv l j" "\<forall>n < length (memSnapshot l j). \<exists>i \<in> D. ai_ledger i = l \<and> ai_entry i = memSnapshot l j ! n \<and>
          ai_expectedHead i = headOf l (take n (memSnapshot l j))" using assms(1) l by (auto simp: offeredJournal_def)
      have "ai_expectedHead i = headOf l (memSnapshot l j)" if "l = ai_ledger i" using old(1) True that by (simp add: memInv_def)
      then show "memInv l (snd (memCompareAndAppend i j)) \<and> (\<forall>n < length (memSnapshot l (snd (memCompareAndAppend i j))).
          \<exists>x \<in> insert i D. ai_ledger x = l \<and> ai_entry x = memSnapshot l (snd (memCompareAndAppend i j)) ! n \<and>
            ai_expectedHead x = headOf l (take n (memSnapshot l (snd (memCompareAndAppend i j)))))"
        using old by (auto simp: memInv_def fresh same nth_append less_Suc_eq)
    qed
  qed
qed

lemma runAppends_offered:
  "offeredJournal D j \<Longrightarrow> list_all (\<lambda>i. NUL \<notin> set (lr_ledgerId (ai_ledger i))) is \<Longrightarrow>
     offeredJournal (D \<union> set is) (snd (runAppends is j))"
proof (induction "is" arbitrary: D j)
  case (Cons i "is")
  then show ?case using Cons.IH [OF append_offered, of D j i] by (simp add: case_prod_beta)
qed simp

lemma empty_offered: "offeredJournal {} emptyJournal"
  by (simp add: offeredJournal_def memInv_def memGetHead_def memSnapshot_def emptyJournal_def)

text \<open>C32: what compare-and-appends of any number of writers build. In whatever order they reach the memory journal, and whatever
  entries and heads the writers offer, as long as ledger ids hold no NUL: the head of every ledger is that of its last entry, and
  each of its entries was offered for that ledger against exactly the head of the entries before it. So where every writer offers
  only entries that continue the head it expects, as the recorder does, however stale that head is, every ledger is one hash
  chain: consecutive sequences from 0, each entry naming the digest of its predecessor.\<close>

theorem concurrent_appends_form_a_chain:
  assumes "list_all (\<lambda>i. NUL \<notin> set (lr_ledgerId (ai_ledger i))) is" and "NUL \<notin> set (lr_ledgerId l)"
    and "snd (runAppends is emptyJournal) = j"
  shows "memGetHead l j = headOf l (memSnapshot l j) \<and>
    (\<forall>n < length (memSnapshot l j). \<exists>i \<in> set is. ai_ledger i = l \<and> ai_entry i = memSnapshot l j ! n \<and>
       ai_expectedHead i = headOf l (take n (memSnapshot l j))) \<and>
    (list_all (\<lambda>i. continues (ai_ledger i) (ai_expectedHead i) (ai_entry i)) is \<longrightarrow> chainedLedger l (memSnapshot l j))"
proof -
  have "chainedLedger l (memSnapshot l j)" if "list_all (\<lambda>i. continues (ai_ledger i) (ai_expectedHead i) (ai_entry i)) is"
  proof -
    have "list_all goodInput is" using assms(1) that by (simp add: list_all_iff goodInput_def)
    then show ?thesis using runAppends_chained [OF empty_chained] assms(2,3) by (auto simp: chainedJournal_def)
  qed
  then show ?thesis using runAppends_offered [OF empty_offered assms(1)] assms(2,3) by (auto simp: offeredJournal_def memInv_def)
qed

lemma concurrent_appends_form_a_chain_witness:
  "chainedLedger demoLedger (memSnapshot demoLedger (snd (runAppends demoInputs emptyJournal))) \<and>
    length (memSnapshot demoLedger (snd (runAppends demoInputs emptyJournal))) = 2"
proof
  have nul: "NUL \<notin> set (lr_ledgerId demoLedger)" by (simp add: demoLedger_def NUL_def)
  have "list_all (\<lambda>i. NUL \<notin> set (lr_ledgerId (ai_ledger i))) demoInputs"
    "list_all (\<lambda>i. continues (ai_ledger i) (ai_expectedHead i) (ai_entry i)) demoInputs"
    using demo_good by (simp_all add: list_all_iff goodInput_def)
  with concurrent_appends_form_a_chain [OF this(1) nul refl]
  show "chainedLedger demoLedger (memSnapshot demoLedger (snd (runAppends demoInputs emptyJournal)))" by blast
qed code_simp

text \<open>Per idempotency key, the first append wins and is never replaced.\<close>

lemma key_kept:
  "memGetByIdempotencyKey s k j = Some e \<Longrightarrow> NUL \<notin> set s \<Longrightarrow> goodInput i \<Longrightarrow>
    memGetByIdempotencyKey s k (snd (memCompareAndAppend i j)) = Some e"
  using memAppend_known [of i j] memAppend_stale [of i j] memAppend_fresh(4) [of i j s k]
    idempotencyMapKey_inject [of s "lr_ledgerId (ai_ledger i)" k "ai_idempotencyKey i"]
  by (cases "memGetByIdempotencyKey (lr_ledgerId (ai_ledger i)) (ai_idempotencyKey i) j";
      cases "ai_expectedHead i = memGetHead (ai_ledger i) j") (auto simp: goodInput_def)

lemma run_key_kept:
  "memGetByIdempotencyKey s k j = Some e \<Longrightarrow> NUL \<notin> set s \<Longrightarrow> list_all goodInput is \<Longrightarrow>
    memGetByIdempotencyKey s k (snd (runAppends is j)) = Some e"
proof (induction "is" arbitrary: j)
  case (Cons i "is")
  then show ?case using Cons.IH [OF key_kept [OF Cons.prems(1,2)]] by (simp add: case_prod_beta)
qed simp

lemma appended_recorded:
  "fst (memCompareAndAppend i j) = Appended e \<Longrightarrow> e = ai_entry i \<and>
    memGetByIdempotencyKey (lr_ledgerId (ai_ledger i)) (ai_idempotencyKey i) j = None \<and>
    memGetByIdempotencyKey (lr_ledgerId (ai_ledger i)) (ai_idempotencyKey i) (snd (memCompareAndAppend i j)) = Some e"
  by (auto simp: memCompareAndAppend_def memGetByIdempotencyKey_def Let_def split: option.splits if_splits)

lemma runAppends_append: "runAppends (as @ bs) j =
    (case runAppends as j of (rs, j') \<Rightarrow> case runAppends bs j' of (rs', j'') \<Rightarrow> (rs @ rs', j''))"
  by (induction as arbitrary: j) (simp_all add: case_prod_beta)

text \<open>An append happens at most once per idempotency key. After an entry was appended under a key,
  whatever other well-behaved appends follow, a call with the same key of the same logical ledger,
  for any epoch, appends nothing: it returns that entry when the event is the same, and reports it
  as a conflict otherwise.\<close>

theorem append_once_per_key:
  assumes "list_all goodInput (as @ i # bs)" and "fst (memCompareAndAppend i (snd (runAppends as j))) = Appended e"
    and "lr_ledgerId (ai_ledger i') = lr_ledgerId (ai_ledger i)" and "ai_idempotencyKey i' = ai_idempotencyKey i"
  shows "memCompareAndAppend i' (snd (runAppends (as @ i # bs) j)) =
    (if se_eventDigest (ai_entry i') = se_eventDigest e then DuplicateEntry e else IdempotencyConflict e,
     snd (runAppends (as @ i # bs) j))"
proof -
  have good: "NUL \<notin> set (lr_ledgerId (ai_ledger i))" "list_all goodInput bs" using assms(1) by (auto simp: goodInput_def)
  let ?j = "snd (memCompareAndAppend i (snd (runAppends as j)))"
  have "memGetByIdempotencyKey (lr_ledgerId (ai_ledger i)) (ai_idempotencyKey i) (snd (runAppends bs ?j)) = Some e"
    using run_key_kept [OF _ good] appended_recorded [OF assms(2)] by blast
  moreover have "snd (runAppends (as @ i # bs) j) = snd (runAppends bs ?j)"
    by (simp add: runAppends_append case_prod_beta)
  ultimately show ?thesis using assms(3,4) by (simp add: memAppend_known eq_commute)
qed

lemma append_once_per_key_witness:
  "memCompareAndAppend (demoInput ''a'' (Some ''b''))
      (snd (runAppends ([] @ demoInput ''a'' None # [demoInput ''b'' (Some ''a'')]) emptyJournal)) =
    (DuplicateEntry (demoEntry ''a'' 0 None),
     snd (runAppends ([] @ demoInput ''a'' None # [demoInput ''b'' (Some ''a'')]) emptyJournal))"
proof -
  have good: "list_all goodInput ([] @ demoInput ''a'' None # [demoInput ''b'' (Some ''a'')])" by code_simp
  have first: "fst (memCompareAndAppend (demoInput ''a'' None) (snd (runAppends [] emptyJournal))) = Appended (demoEntry ''a'' 0 None)"
    by code_simp
  have same: "lr_ledgerId (ai_ledger (demoInput ''a'' (Some ''b''))) = lr_ledgerId (ai_ledger (demoInput ''a'' None))"
    "ai_idempotencyKey (demoInput ''a'' (Some ''b'')) = ai_idempotencyKey (demoInput ''a'' None)"
    "se_eventDigest (ai_entry (demoInput ''a'' (Some ''b''))) = se_eventDigest (demoEntry ''a'' 0 None)" by code_simp+
  show ?thesis using append_once_per_key [OF good first same(1,2)] same(3) by simp
qed

subsection \<open>Reading a range\<close>

lemma yieldRange_limit:
  "(\<forall>e\<in>set es. \<not> (case after of None \<Rightarrow> False | Some a \<Rightarrow> ec_sequence (se_core e) \<le> a)) \<Longrightarrow>
    yieldRange after limit y es = (case limit of None \<Rightarrow> es | Some n \<Rightarrow> take (nat (n - y)) es)"
proof (induction es arbitrary: y)
  case (Cons e es)
  then have "yieldRange after limit (y + 1) es = (case limit of None \<Rightarrow> es | Some n \<Rightarrow> take (nat (n - (y + 1))) es)" by auto
  moreover have "take (nat (n - y)) (e # es) = e # take (nat (n - (y + 1))) es" if "\<not> n \<le> y" for n
  proof -
    have "nat (n - y) = Suc (nat (n - (y + 1)))" using that by linarith
    then show ?thesis by simp
  qed
  ultimately show ?case using Cons.prems by (auto split: option.splits)
qed (auto split: option.splits)

lemma yieldRange_skip:
  "(\<forall>e\<in>set xs. ec_sequence (se_core e) \<le> a) \<Longrightarrow> yieldRange (Some a) limit y (xs @ es) = yieldRange (Some a) limit y es"
  by (induction xs) auto

text \<open>Reading a range of a chained ledger pages exactly: it returns the entries from the one after
  \<open>afterSequence\<close>, at most \<open>limit\<close> of them, in order.\<close>

theorem readRange_pages_exactly:
  assumes "chainedLedger l (memSnapshot l j)"
  shows "memReadRange l after limit j =
    (let rest = drop (case after of None \<Rightarrow> 0 | Some a \<Rightarrow> a + 1) (memSnapshot l j)
     in case limit of None \<Rightarrow> rest | Some n \<Rightarrow> take (nat n) rest)"
proof -
  let ?es = "memSnapshot l j"
  have seq: "ec_sequence (se_core (?es ! i)) = i" if "i < length ?es" for i
    using assms that by (simp add: chainedLedger_def)
  show ?thesis
  proof (cases after)
    case None
    then show ?thesis by (simp add: memReadRange_def yieldRange_limit Let_def split: option.splits)
  next
    case (Some a)
    have "\<forall>e\<in>set (take (a + 1) ?es). ec_sequence (se_core e) \<le> a"
      using seq by (auto simp: in_set_conv_nth)
    moreover have "\<forall>e\<in>set (drop (a + 1) ?es). \<not> ec_sequence (se_core e) \<le> a"
      using seq by (auto simp: in_set_conv_nth)
    ultimately show ?thesis
      using yieldRange_skip [of "take (a + 1) ?es" a limit 0 "drop (a + 1) ?es"]
        yieldRange_limit [of "drop (a + 1) ?es" "Some a" limit 0]
      by (simp add: Some memReadRange_def Let_def del: take_append drop_append split: option.splits)
  qed
qed

lemma readRange_pages_exactly_witness:
  "memReadRange demoLedger (Some 0) (Some 5) (snd (runAppends demoInputs emptyJournal)) = [demoEntry ''b'' 1 (Some ''da'')]"
proof -
  have snap: "memSnapshot demoLedger (snd (runAppends demoInputs emptyJournal)) = [demoEntry ''a'' 0 None, demoEntry ''b'' 1 (Some ''da'')]"
    by code_simp
  have "chainedLedger demoLedger (memSnapshot demoLedger (snd (runAppends demoInputs emptyJournal)))"
    using runAppends_chained [OF empty_chained demo_good]
    unfolding chainedJournal_def by (simp add: demoLedger_def NUL_def)
  from readRange_pages_exactly [OF this, of "Some 0" "Some 5"] show ?thesis by (simp add: snap)
qed

end
