(* ===== verification/Audit_Recorder.thy ===== *)
theory Audit_Recorder
  imports Audit_Journal
begin

text \<open>
  \<open>src/audit/recorder-service.ts\<close>: the recorder that validates an authenticated submission, stores
  its evidence, and appends its event to the ledger under optimistic concurrency. The hash functions,
  the signature, the schema checks, the journal and the evidence store are the fields of
  \<open>recorderConfig\<close>, \<open>journalOps\<close> and \<open>evidenceOps\<close>. What other writers do while the recorder waits is
  the parameter \<open>env\<close>, a change of the world at each point where the code awaits the journal. The
  promise that concurrent first submissions of one recorder share (\<open>initialization\<close>) is not
  modelled: each of them is an appender of its own.
\<close>

subsection \<open>Configuration, submissions, state\<close>

datatype recorderError =
    UnauthorizedSubmission
  | LedgerMismatch
  | EpochMismatch
  | EventIdConflict string
  | AppendConflictExhausted
  | JournalFailure
  | EvidenceFailure
  | InvalidConfiguration
  | InvalidEvent

record authContext =
  ctx_producerAuthority :: string
  ctx_tenantAuthority :: string
  ctx_producerRef :: "partyRef option"
  ctx_tenantRef :: "partyRef option"

record encryptedEvidence =
  ev_ref :: evidenceRef
  ev_ciphertext :: "nat list"

record submission =
  sub_ledgerId :: string
  sub_expectedLedgerEpochId :: "string option"
  sub_producerEvent :: producerEvent
  sub_encryptedEvidence :: "encryptedEvidence list"

record recorderConfig =
  cfg_ledgerId :: string
  cfg_ledgerEpochId :: string
  cfg_tenantRef :: partyRef
  cfg_binding :: string
  cfg_sourceId :: string
  cfg_signer :: signerRef
  cfg_previousEpochId :: "string option"
  cfg_previousTerminalCheckpointDigest :: "digest option"
  cfg_sealed :: "bool option"
  cfg_maxAppendConflicts :: nat
  cfg_authorize :: "(submission \<Rightarrow> authContext \<Rightarrow> bool) option"
  cfg_validEvent :: "producerEvent \<Rightarrow> bool"
  cfg_validCore :: "entryCore \<Rightarrow> bool"
  cfg_validSigned :: "signedEntry \<Rightarrow> bool"
  cfg_digestEvent :: "producerEvent \<Rightarrow> digest"
  cfg_digestManifest :: "evidenceRef list \<Rightarrow> digest"
  cfg_digestEntry :: "entryCore \<Rightarrow> digest"
  cfg_digestIdentity :: "string \<Rightarrow> string \<Rightarrow> string \<Rightarrow> string \<Rightarrow> digest"
  cfg_sign :: "receiptCore \<Rightarrow> string"

text \<open>The evidence store: the answers of \<open>has\<close>, \<open>putIfAbsent\<close> and \<open>applyRetention\<close>, any of which may throw.\<close>

record 'e evidenceOps =
  eo_has :: "evidenceRef \<Rightarrow> 'e \<Rightarrow> unit + bool"
  eo_put :: "encryptedEvidence \<Rightarrow> 'e \<Rightarrow> (unit + unit) \<times> 'e"
  eo_dispose :: "evidenceRef \<Rightarrow> 'e \<Rightarrow> (unit + unit) \<times> 'e"

record evidenceHold =
  eh_holders :: nat
  eh_shared :: bool

record ('j, 'e) world =
  w_journal :: 'j
  w_committed :: "auditHead option"
  w_reported :: "auditHead option"
  w_now :: int
  w_evidence :: 'e
  w_held :: "(string, evidenceHold) jsmap"

datatype awaitPoint =
    BeforeLookup | BeforeRead nat | BeforeRaced nat | BeforeAppend nat | AfterAppend nat

type_synonym ('j, 'e) environment = "awaitPoint \<Rightarrow> ('j, 'e) world \<Rightarrow> ('j, 'e) world"

text \<open>The constructor: \<open>None\<close> when it throws, otherwise the retry budget.\<close>

definition DEFAULT_MAX_APPEND_CONFLICTS :: nat where
  "DEFAULT_MAX_APPEND_CONFLICTS = 256"

definition constructRecorder :: "string option \<Rightarrow> digest option \<Rightarrow> bool option \<Rightarrow> nat option \<Rightarrow> nat option" where
  "constructRecorder previousEpochId previousCheckpoint guard maxAppendConflicts =
     (if (previousEpochId = None) \<noteq> (previousCheckpoint = None) then None
      else if previousEpochId \<noteq> None \<and> guard = None then None
      else Some (case maxAppendConflicts of None \<Rightarrow> DEFAULT_MAX_APPEND_CONFLICTS | Some n \<Rightarrow> n))"

subsection \<open>Heads and parties\<close>

definition sameHead :: "auditHead option \<Rightarrow> auditHead option \<Rightarrow> bool" where
  "sameHead l r = (case (l, r) of
       (Some a, Some b) \<Rightarrow> ah_entryDigest a = ah_entryDigest b \<and> ah_sequence a = ah_sequence b
     | (None, None) \<Rightarrow> True
     | _ \<Rightarrow> False)"

definition higherHead :: "auditHead option \<Rightarrow> auditHead option \<Rightarrow> auditHead option" where
  "higherHead current candidate = (case (current, candidate) of
       (_, None) \<Rightarrow> current
     | (None, _) \<Rightarrow> candidate
     | (Some a, Some b) \<Rightarrow> if ah_sequence a < ah_sequence b then candidate else current)"

definition sameSigner :: "signerRef \<Rightarrow> signerRef \<Rightarrow> bool" where
  "sameSigner l r \<longleftrightarrow> sr_did l = sr_did r \<and> sr_kid l = sr_kid r \<and> sr_alg l = sr_alg r"

definition sameParty :: "partyRef \<Rightarrow> partyRef \<Rightarrow> bool" where
  "sameParty l r \<longleftrightarrow> l = r"

definition authorityMatchesParty :: "string \<Rightarrow> partyRef option \<Rightarrow> partyRef \<Rightarrow> bool" where
  "authorityMatchesParty authority boundRef claimedRef = (case boundRef of
       Some r \<Rightarrow> sameParty r claimedRef
     | None \<Rightarrow> (case claimedRef of PublicDid d \<Rightarrow> d = authority | PairwiseDid d \<Rightarrow> d = authority | _ \<Rightarrow> False))"

definition recorderLedger :: "recorderConfig \<Rightarrow> ledgerRef" where
  "recorderLedger cfg = \<lparr>lr_ledgerId = cfg_ledgerId cfg, lr_ledgerEpochId = cfg_ledgerEpochId cfg\<rparr>"

subsection \<open>Validation\<close>

definition validateSubmissionEnvelope :: "recorderConfig \<Rightarrow> submission \<Rightarrow> authContext \<Rightarrow> recorderError option" where
  "validateSubmissionEnvelope cfg sub ctx =
     (if ctx_producerAuthority ctx = [] \<or> ctx_tenantAuthority ctx = [] then Some UnauthorizedSubmission
      else if sub_ledgerId sub \<noteq> cfg_ledgerId cfg then Some LedgerMismatch else None)"

definition validateEventAuthority :: "recorderConfig \<Rightarrow> producerEvent \<Rightarrow> authContext \<Rightarrow> recorderError option" where
  "validateEventAuthority cfg event ctx =
     (if \<not> authorityMatchesParty (ctx_producerAuthority ctx) (ctx_producerRef ctx) (es_producer (pe_source event))
      then Some UnauthorizedSubmission
      else if \<not> sameParty (pe_tenantRef event) (cfg_tenantRef cfg) \<or>
        \<not> authorityMatchesParty (ctx_tenantAuthority ctx) (ctx_tenantRef ctx) (pe_tenantRef event)
      then Some UnauthorizedSubmission else None)"

definition validateExistingGenesis :: "recorderConfig \<Rightarrow> signedEntry \<Rightarrow> recorderError + signedEntry" where
  "validateExistingGenesis cfg entry =
     (let core = se_core entry; event = ec_event core
      in if cfg_validSigned cfg entry \<and> ec_sequence core = 0 \<and> ec_previousEntryDigest core = None \<and>
           ec_ledgerId core = cfg_ledgerId cfg \<and> ec_ledgerEpochId core = cfg_ledgerEpochId cfg \<and>
           sameSigner (ec_recorder core) (cfg_signer cfg) \<and> pe_eventType event = ''ledger.epoch.started'' \<and>
           pe_binding event = cfg_binding cfg \<and> es_sourceId (pe_source event) = cfg_sourceId cfg \<and>
           es_producer (pe_source event) = PublicDid (sr_did (cfg_signer cfg)) \<and>
           sameParty (pe_tenantRef event) (cfg_tenantRef cfg) \<and>
           (case pe_details event of
              LedgerDetails phase _ prevEpoch prevCheckpoint _ _ \<Rightarrow> phase = ''epoch_started'' \<and>
                prevEpoch = cfg_previousEpochId cfg \<and> prevCheckpoint = cfg_previousTerminalCheckpointDigest cfg
            | _ \<Rightarrow> False)
         then Inr entry else Inl JournalFailure)"

definition resolveDuplicate :: "signedEntry \<Rightarrow> digest \<Rightarrow> recorderError + signedEntry" where
  "resolveDuplicate existing d =
     (if se_eventDigest existing \<noteq> d then Inl (EventIdConflict (pe_eventId (ec_event (se_core existing))))
      else Inr existing)"

definition genesisEvent :: "recorderConfig \<Rightarrow> int \<Rightarrow> producerEvent" where
  "genesisEvent cfg now = \<lparr>
     pe_eventId = ''genesis:'' @ cfg_ledgerId cfg @ '':'' @ cfg_ledgerEpochId cfg,
     pe_eventType = ''ledger.epoch.started'', pe_binding = cfg_binding cfg, pe_occurredAt = now,
     pe_tenantRef = cfg_tenantRef cfg,
     pe_source = \<lparr>es_producer = PublicDid (sr_did (cfg_signer cfg)), es_sourceId = cfg_sourceId cfg,
       es_sourceSequence = Some 0, es_previousSourceEventDigest = None\<rparr>,
     pe_correlationId = None, pe_causationId = None, pe_trace = None, pe_session = None, pe_actor = None,
     pe_responsibleParty = None, pe_resource = Some (PublicDid (sr_did (cfg_signer cfg))),
     pe_action = \<lparr>ea_category = ''ledger.epoch'', ea_name = None, ea_detailRef = None\<rparr>,
     pe_outcome = ''succeeded'', pe_reason = None, pe_authorization = None, pe_proof = None, pe_evidence = [],
     pe_details = LedgerDetails ''epoch_started'' None
       (if truthy (cfg_previousEpochId cfg) then cfg_previousEpochId cfg else None)
       (if truthy (cfg_previousEpochId cfg) then cfg_previousTerminalCheckpointDigest cfg else None) None None,
     pe_privacy = \<lparr>ep_classification = ''internal'', ep_retentionClass = ''integrity-ledger'', ep_legalHold = None\<rparr>\<rparr>"

definition identifyEvent :: "recorderConfig \<Rightarrow> producerEvent \<Rightarrow> authContext \<Rightarrow> digest \<times> digest" where
  "identifyEvent cfg event ctx =
     (cfg_digestEvent cfg event,
      cfg_digestIdentity cfg (cfg_ledgerId cfg) (ctx_producerAuthority ctx) (es_sourceId (pe_source event)) (pe_eventId event))"

subsection \<open>Appending\<close>

definition buildCandidate ::
  "recorderConfig \<Rightarrow> producerEvent \<Rightarrow> digest \<Rightarrow> auditHead option \<Rightarrow> bool \<Rightarrow> int \<Rightarrow> recorderError + signedEntry" where
  "buildCandidate cfg event eventDigest head genesis now =
     (let n = (case head of None \<Rightarrow> 0 | Some h \<Rightarrow> ah_sequence h + 1)
      in if genesis \<noteq> (n = 0) then Inl JournalFailure
         else let core = \<lparr>ec_ledgerId = cfg_ledgerId cfg, ec_ledgerEpochId = cfg_ledgerEpochId cfg, ec_sequence = n,
                 ec_previousEntryDigest = map_option ah_entryDigest head, ec_recordedAt = now,
                 ec_recorder = cfg_signer cfg, ec_eventDigest = eventDigest, ec_event = event,
                 ec_evidenceManifestDigest = cfg_digestManifest cfg (collectAuditEvidenceRefs event)\<rparr>
         in if \<not> cfg_validCore cfg core then Inl InvalidEvent
            else let d = cfg_digestEntry cfg core; receipt = buildAuditRecorderReceiptCore core d
            in Inr \<lparr>se_core = core, se_eventDigest = eventDigest, se_entryDigest = d, se_receiptCore = receipt,
                 se_receiptJws = cfg_sign cfg receipt\<rparr>)"

definition headForks :: "auditHead option \<Rightarrow> auditHead option \<Rightarrow> bool" where
  "headForks actual known = (case (known, actual) of
       (Some k, Some a) \<Rightarrow> ah_sequence k = ah_sequence a \<and> ah_entryDigest k \<noteq> ah_entryDigest a
     | _ \<Rightarrow> False)"

text \<open>\<open>assertNoRegression\<close>: true when it throws.\<close>

definition headRegressed :: "auditHead option \<Rightarrow> auditHead option \<Rightarrow> auditHead option \<Rightarrow> bool" where
  "headRegressed actual committed reported \<longleftrightarrow>
     (case committed of None \<Rightarrow> False
      | Some c \<Rightarrow> (case actual of None \<Rightarrow> True | Some a \<Rightarrow> ah_sequence a < ah_sequence c)) \<or>
     headForks actual committed \<or> headForks actual reported"

definition resolveExisting :: "recorderConfig \<Rightarrow> bool \<Rightarrow> digest \<Rightarrow> signedEntry \<Rightarrow> recorderError + signedEntry" where
  "resolveExisting cfg genesis eventDigest existing =
     (if genesis then validateExistingGenesis cfg existing else resolveDuplicate existing eventDigest)"

text \<open>The retry loop; the number is that of the attempts left.\<close>

fun appendLoop ::
  "'j journalOps \<Rightarrow> recorderConfig \<Rightarrow> ('j, 'e) environment \<Rightarrow> bool \<Rightarrow> producerEvent \<Rightarrow> digest \<Rightarrow> digest \<Rightarrow> nat \<Rightarrow>
   ('j, 'e) world \<Rightarrow> (recorderError + signedEntry) \<times> ('j, 'e) world" where
  "appendLoop ops cfg env genesis event eventDigest key 0 w = (Inl AppendConflictExhausted, w)"
| "appendLoop ops cfg env genesis event eventDigest key (Suc n) w =
     (let committed = w_committed w; reported = w_reported w;
          w1 = env (BeforeRead n) w;
          head = higherHead committed (jo_getHead ops (recorderLedger cfg) (w_journal w1));
          w2 = env (BeforeRaced n) w1;
          raced = (if genesis \<and> head \<noteq> None then jo_getByIdempotencyKey ops (cfg_ledgerId cfg) key (w_journal w2) else None)
      in case raced of
           Some r \<Rightarrow> (validateExistingGenesis cfg r, w2)
         | None \<Rightarrow>
           (case buildCandidate cfg event eventDigest head genesis (w_now w2) of
              Inl e \<Rightarrow> (Inl e, w2)
            | Inr candidate \<Rightarrow>
              (let w3 = env (BeforeAppend n) w2
               in case jo_compareAndAppend ops \<lparr>ai_ledger = recorderLedger cfg, ai_expectedHead = head,
                      ai_entry = candidate, ai_idempotencyKey = key\<rparr> (w_journal w3) of
                    (Inl _, j) \<Rightarrow> (Inl JournalFailure, w3\<lparr>w_journal := j\<rparr>)
                  | (Inr result, j) \<Rightarrow>
                    (let w4 = env (AfterAppend n) (w3\<lparr>w_journal := j\<rparr>)
                     in case result of
                          Appended e \<Rightarrow> (Inr e, w4\<lparr>w_committed := higherHead (w_committed w4) (Some (headFor (recorderLedger cfg) e)),
                            w_reported := higherHead (w_reported w4) (Some (headFor (recorderLedger cfg) e))\<rparr>)
                        | DuplicateEntry e \<Rightarrow> (resolveExisting cfg genesis eventDigest e, w4)
                        | IdempotencyConflict e \<Rightarrow> (resolveExisting cfg genesis eventDigest e, w4)
                        | HeadConflict actual \<Rightarrow>
                          if headRegressed actual committed reported then (Inl JournalFailure, w4)
                          else (let w5 = w4\<lparr>w_reported := higherHead (w_reported w4) actual\<rparr>
                            in if sameHead head actual then (Inl JournalFailure, w5)
                               else appendLoop ops cfg env genesis event eventDigest key n w5)))))"

definition appendEvent ::
  "'j journalOps \<Rightarrow> recorderConfig \<Rightarrow> ('j, 'e) environment \<Rightarrow> bool \<Rightarrow> producerEvent \<Rightarrow> digest \<times> digest \<Rightarrow>
   ('j, 'e) world \<Rightarrow> (recorderError + signedEntry) \<times> ('j, 'e) world" where
  "appendEvent ops cfg env genesis event identity w = (case identity of (eventDigest, key) \<Rightarrow>
     (let w0 = env BeforeLookup w
      in case jo_getByIdempotencyKey ops (cfg_ledgerId cfg) key (w_journal w0) of
           Some d \<Rightarrow> (resolveExisting cfg genesis eventDigest d, w0)
         | None \<Rightarrow> appendLoop ops cfg env genesis event eventDigest key (cfg_maxAppendConflicts cfg + 1) w0))"

subsection \<open>Initialisation\<close>

definition genesisContext :: "recorderConfig \<Rightarrow> authContext" where
  "genesisContext cfg = \<lparr>ctx_producerAuthority = sr_did (cfg_signer cfg), ctx_tenantAuthority = ''audit-recorder'',
     ctx_producerRef = Some (PublicDid (sr_did (cfg_signer cfg))), ctx_tenantRef = Some (cfg_tenantRef cfg)\<rparr>"

definition ensureInitialized ::
  "'j journalOps \<Rightarrow> recorderConfig \<Rightarrow> ('j, 'e) environment \<Rightarrow> ('j, 'e) world \<Rightarrow>
   (recorderError + signedEntry) \<times> ('j, 'e) world" where
  "ensureInitialized ops cfg env w =
     (case jo_getHead ops (recorderLedger cfg) (w_journal w) of
        Some _ \<Rightarrow>
          (case jo_readRange ops (recorderLedger cfg) None (Some 1) (w_journal w) of
             entry # _ \<Rightarrow> (validateExistingGenesis cfg entry, w)
           | [] \<Rightarrow> (Inl JournalFailure, w))
      | None \<Rightarrow>
          if cfg_previousEpochId cfg \<noteq> None \<and> cfg_sealed cfg \<noteq> Some True then (Inl InvalidConfiguration, w)
          else let event = genesisEvent cfg (w_now w)
            in if \<not> cfg_validEvent cfg event then (Inl InvalidEvent, w)
               else appendEvent ops cfg env True event (identifyEvent cfg event (genesisContext cfg)) w)"

subsection \<open>Evidence\<close>

definition evidenceIds :: "encryptedEvidence list \<Rightarrow> string list" where
  "evidenceIds evidence = js_set (map (\<lambda>item. er_objectId (ev_ref item)) evidence)"

definition holdOne :: "string \<Rightarrow> (string, evidenceHold) jsmap \<Rightarrow> (string, evidenceHold) jsmap" where
  "holdOne i held = (case jm_get held i of
       None \<Rightarrow> jm_set i \<lparr>eh_holders = 1, eh_shared = False\<rparr> held
     | Some h \<Rightarrow> jm_set i \<lparr>eh_holders = eh_holders h + 1, eh_shared = True\<rparr> held)"

definition holdEvidence :: "encryptedEvidence list \<Rightarrow> (string, evidenceHold) jsmap \<Rightarrow> string list \<times> (string, evidenceHold) jsmap" where
  "holdEvidence evidence held = (let ids = evidenceIds evidence in (ids, fold holdOne ids held))"

text \<open>Every id released was held by the same submission, so the lookup succeeds; a missing one, where
  the code would throw, leaves the map alone.\<close>

definition releaseOne :: "string \<Rightarrow> (string, evidenceHold) jsmap \<Rightarrow> (string, evidenceHold) jsmap" where
  "releaseOne i held = (case jm_get held i of
       None \<Rightarrow> held
     | Some h \<Rightarrow> if eh_holders h = 1 then jm_delete i held
         else jm_set i (h\<lparr>eh_holders := eh_holders h - 1\<rparr>) held)"

definition releaseEvidence :: "string list \<Rightarrow> (string, evidenceHold) jsmap \<Rightarrow> (string, evidenceHold) jsmap" where
  "releaseEvidence ids held = fold releaseOne ids held"

definition evidenceRefMap :: "producerEvent \<Rightarrow> (string, evidenceRef) jsmap" where
  "evidenceRefMap event = fold (\<lambda>r m. jm_set (er_objectId r) r m) (collectAuditEvidenceRefs event) []"

fun persistLoop ::
  "'e evidenceOps \<Rightarrow> (string, evidenceRef) jsmap \<Rightarrow> string list \<Rightarrow> encryptedEvidence list \<Rightarrow> encryptedEvidence list \<Rightarrow>
   'e \<Rightarrow> (recorderError + encryptedEvidence list) \<times> 'e" where
  "persistLoop eops refs submitted stored [] e = (Inr stored, e)"
| "persistLoop eops refs submitted stored (item # items) e =
     (let i = er_objectId (ev_ref item)
      in if i \<in> set submitted \<or> jm_get refs i \<noteq> Some (ev_ref item) then (Inl EvidenceFailure, e)
         else (case eo_has eops (ev_ref item) e of
             Inl _ \<Rightarrow> (Inl EvidenceFailure, e)
           | Inr existed \<Rightarrow>
             (case eo_put eops item e of
                (Inl _, e') \<Rightarrow> (Inl EvidenceFailure, e')
              | (Inr _, e') \<Rightarrow>
                persistLoop eops refs (js_add i submitted) (if existed then stored else stored @ [item]) items e')))"

definition persistSubmittedEvidence ::
  "'e evidenceOps option \<Rightarrow> encryptedEvidence list \<Rightarrow> producerEvent \<Rightarrow> 'e \<Rightarrow>
   (recorderError + encryptedEvidence list) \<times> 'e" where
  "persistSubmittedEvidence eops evidence event e =
     (if evidence = [] then (Inr [], e)
      else case eops of None \<Rightarrow> (Inl EvidenceFailure, e)
        | Some eo \<Rightarrow> persistLoop eo (evidenceRefMap event) [] [] evidence e)"

text \<open>Disposal stops at the first failure and reports nothing.\<close>

fun disposeLoop :: "'e evidenceOps \<Rightarrow> (string, evidenceHold) jsmap \<Rightarrow> encryptedEvidence list \<Rightarrow> 'e \<Rightarrow> 'e" where
  "disposeLoop eops held [] e = e"
| "disposeLoop eops held (item # items) e =
     (if (case jm_get held (er_objectId (ev_ref item)) of Some h \<Rightarrow> eh_shared h | None \<Rightarrow> False)
      then disposeLoop eops held items e
      else case eo_dispose eops (ev_ref item) e of
          (Inl _, e') \<Rightarrow> e'
        | (Inr _, e') \<Rightarrow> disposeLoop eops held items e')"

definition disposeUncommittedEvidence ::
  "'j journalOps \<Rightarrow> 'e evidenceOps option \<Rightarrow> recorderConfig \<Rightarrow> encryptedEvidence list \<Rightarrow> digest \<Rightarrow>
   ('j, 'e) world \<Rightarrow> ('j, 'e) world" where
  "disposeUncommittedEvidence ops eops cfg stored key w =
     (case eops of None \<Rightarrow> w
      | Some eo \<Rightarrow> if stored = [] then w
          else if jo_getByIdempotencyKey ops (cfg_ledgerId cfg) key (w_journal w) \<noteq> None then w
          else w\<lparr>w_evidence := disposeLoop eo (w_held w) stored (w_evidence w)\<rparr>)"

subsection \<open>Submitting\<close>

text \<open>The waits of the genesis append and of the event's own append are told apart by the first
  argument of \<open>envs\<close>. First the part of \<open>submitAuthenticated\<close> between holding the evidence and releasing it.\<close>

definition submitHeld ::
  "'j journalOps \<Rightarrow> 'e evidenceOps option \<Rightarrow> recorderConfig \<Rightarrow> ('j, 'e) environment \<Rightarrow> submission \<Rightarrow> digest \<times> digest \<Rightarrow>
   ('j, 'e) world \<Rightarrow> (recorderError + signedEntry) \<times> ('j, 'e) world" where
  "submitHeld ops eops cfg env sub identity w =
     (case persistSubmittedEvidence eops (sub_encryptedEvidence sub) (sub_producerEvent sub) (w_evidence w) of
        (Inl e, es) \<Rightarrow> (Inl e, w\<lparr>w_evidence := es\<rparr>)
      | (Inr stored, es) \<Rightarrow>
        (case appendEvent ops cfg env False (sub_producerEvent sub) identity (w\<lparr>w_evidence := es\<rparr>) of
           (Inr entry, w') \<Rightarrow> (Inr entry, w')
         | (Inl e, w') \<Rightarrow> (Inl e, disposeUncommittedEvidence ops eops cfg stored (snd identity) w')))"

text \<open>The checks before the event is identified.\<close>

definition refuseSubmission :: "recorderConfig \<Rightarrow> submission \<Rightarrow> authContext \<Rightarrow> recorderError option" where
  "refuseSubmission cfg sub ctx =
     (case validateSubmissionEnvelope cfg sub ctx of Some e \<Rightarrow> Some e | None \<Rightarrow>
        if \<not> cfg_validEvent cfg (sub_producerEvent sub) then Some InvalidEvent
        else (case validateEventAuthority cfg (sub_producerEvent sub) ctx of Some e \<Rightarrow> Some e | None \<Rightarrow>
          if (case cfg_authorize cfg of Some authorize \<Rightarrow> \<not> authorize sub ctx | None \<Rightarrow> False)
          then Some UnauthorizedSubmission else None))"

text \<open>A new event: initialise the ledger, hold the evidence, append, release.\<close>

definition submitNew ::
  "'j journalOps \<Rightarrow> 'e evidenceOps option \<Rightarrow> recorderConfig \<Rightarrow> (bool \<Rightarrow> ('j, 'e) environment) \<Rightarrow> submission \<Rightarrow> digest \<times> digest \<Rightarrow>
   ('j, 'e) world \<Rightarrow> (recorderError + signedEntry) \<times> ('j, 'e) world" where
  "submitNew ops eops cfg envs sub identity w =
     (case ensureInitialized ops cfg (envs True) w of
        (Inl e, w1) \<Rightarrow> (Inl e, w1)
      | (Inr _, w1) \<Rightarrow>
        (case holdEvidence (sub_encryptedEvidence sub) (w_held w1) of
           (ids, held) \<Rightarrow>
             (case submitHeld ops eops cfg (envs False) sub identity (w1\<lparr>w_held := held\<rparr>) of
                (r, w2) \<Rightarrow> (r, w2\<lparr>w_held := releaseEvidence ids (w_held w2)\<rparr>))))"

definition submitAuthenticated ::
  "'j journalOps \<Rightarrow> 'e evidenceOps option \<Rightarrow> recorderConfig \<Rightarrow> (bool \<Rightarrow> ('j, 'e) environment) \<Rightarrow> submission \<Rightarrow> authContext \<Rightarrow>
   ('j, 'e) world \<Rightarrow> (recorderError + signedEntry) \<times> ('j, 'e) world" where
  "submitAuthenticated ops eops cfg envs sub ctx w =
     (case refuseSubmission cfg sub ctx of Some e \<Rightarrow> (Inl e, w) | None \<Rightarrow>
        (let identity = identifyEvent cfg (sub_producerEvent sub) ctx
         in case jo_getByIdempotencyKey ops (cfg_ledgerId cfg) (snd identity) (w_journal w) of
              Some d \<Rightarrow> (resolveDuplicate d (fst identity), w)
            | None \<Rightarrow>
              if sub_expectedLedgerEpochId sub \<noteq> None \<and> sub_expectedLedgerEpochId sub \<noteq> Some (cfg_ledgerEpochId cfg)
              then (Inl EpochMismatch, w)
              else submitNew ops eops cfg envs sub identity w))"

end
