(* ===== verification/Recorder_Safety.thy ===== *)
theory Recorder_Safety
  imports Audit_Recorder
begin

text \<open>
  What the recorder of \<open>src/audit/recorder-service.ts\<close> guarantees on a journal that obeys the laws of
  \<open>audit_journal\<close>, whatever other writers do between its steps, and on one that does not.
\<close>

subsection \<open>Heads of a chained ledger\<close>

definition knownHead :: "ledgerRef \<Rightarrow> signedEntry list \<Rightarrow> auditHead option \<Rightarrow> bool" where
  "knownHead l es h \<longleftrightarrow> (case h of None \<Rightarrow> True | Some a \<Rightarrow> a \<in> headFor l ` set es)"

lemma headFor_sequence [simp]: "ah_sequence (headFor l e) = ec_sequence (se_core e)"
  by (simp add: headFor_def)

lemma chained_position:
  assumes "chainedLedger l es" and "e \<in> set es"
  shows "ec_sequence (se_core e) < length es \<and> es ! ec_sequence (se_core e) = e"
  using assms by (auto simp: chainedLedger_def in_set_conv_nth)

lemma known_same:
  assumes "chainedLedger l es" and "a \<in> headFor l ` set es" and "b \<in> headFor l ` set es" and "ah_sequence a = ah_sequence b"
  shows "a = b"
  using assms chained_position [OF assms(1)] by (metis headFor_sequence imageE)

lemma headOf_known: "knownHead l es (headOf l es)"
  by (simp add: knownHead_def headOf_def)

lemma known_below_head:
  assumes "chainedLedger l es" and "a \<in> headFor l ` set es"
  shows "\<exists>b. headOf l es = Some b \<and> ah_sequence a \<le> ah_sequence b"
proof -
  from assms(2) have ne: "es \<noteq> []" by auto
  have "ec_sequence (se_core (last es)) = length es - 1" using assms(1) ne by (simp add: chainedLedger_def last_conv_nth)
  moreover have "ah_sequence a < length es" using assms chained_position by fastforce
  ultimately show ?thesis using ne by (auto simp: headOf_def)
qed

lemma known_append: "knownHead l es h \<Longrightarrow> knownHead l (es @ added) h"
  by (auto simp: knownHead_def split: option.splits)

text \<open>The head a recorder appends after is the journal's own, when that journal never went back.\<close>

lemma higher_is_head:
  assumes "chainedLedger l es" and "knownHead l es c"
  shows "higherHead c (headOf l es) = headOf l es"
proof (cases c)
  case (Some a)
  then have a: "a \<in> headFor l ` set es" using assms(2) by (simp add: knownHead_def)
  from known_below_head [OF assms(1) a] obtain b where b: "headOf l es = Some b" "ah_sequence a \<le> ah_sequence b" by blast
  have "b \<in> headFor l ` set es" using headOf_known [of l es] b by (simp add: knownHead_def)
  then have "ah_sequence a = ah_sequence b \<Longrightarrow> a = b" using known_same [OF assms(1) a] by blast
  then show ?thesis using Some b by (auto simp: higherHead_def)
qed (simp add: higherHead_def split: option.splits)

lemma not_regressed:
  assumes "chainedLedger l es" and "knownHead l es c" and "knownHead l es r"
  shows "\<not> headRegressed (headOf l es) c r"
proof -
  have fork: "\<not> headForks (headOf l es) k" if "knownHead l es k" for k
  proof (cases "k"; cases "headOf l es")
    fix a b assume ab: "k = Some a" "headOf l es = Some b"
    then have "a \<in> headFor l ` set es" "b \<in> headFor l ` set es"
      using that headOf_known [of l es] by (auto simp: knownHead_def)
    then have "ah_sequence a = ah_sequence b \<Longrightarrow> a = b" by (rule known_same [OF assms(1)])
    then show ?thesis using ab by (auto simp: headForks_def)
  qed (simp_all add: headForks_def)
  show ?thesis
    using fork [OF assms(2)] fork [OF assms(3)] known_below_head [OF assms(1)] assms(2)
    by (fastforce simp: headRegressed_def knownHead_def split: option.splits)
qed

lemma sameHead_known:
  assumes "chainedLedger l es" and "knownHead l es h" and "knownHead l es h'" and "sameHead h h'"
  shows "h = h'"
  using assms known_same [OF assms(1)] by (auto simp: sameHead_def knownHead_def split: option.splits)

lemma higher_known: "knownHead l es a \<Longrightarrow> knownHead l es b \<Longrightarrow> knownHead l es (higherHead a b)"
  by (auto simp: higherHead_def split: option.splits)

lemma candidate_continues:
  "buildCandidate cfg event d h genesis now = Inr e \<Longrightarrow>
    continues (recorderLedger cfg) h e \<and> se_eventDigest e = d \<and> ec_event (se_core e) = event \<and>
    (genesis \<longleftrightarrow> ec_sequence (se_core e) = 0)"
  by (auto simp: buildCandidate_def continues_def recorderLedger_def Let_def split: if_splits option.splits)

text \<open>The states a recorder meets on a sound journal, and how they change.\<close>

definition okWorld :: "('j \<Rightarrow> bool) \<Rightarrow> ('j \<Rightarrow> signedEntry list) \<Rightarrow> ledgerRef \<Rightarrow> ('j, 'e) world \<Rightarrow> bool" where
  "okWorld jinv entries l w \<longleftrightarrow> jinv (w_journal w) \<and> chainedLedger l (entries (w_journal w)) \<and>
     knownHead l (entries (w_journal w)) (w_committed w) \<and> knownHead l (entries (w_journal w)) (w_reported w)"

definition worldGrows ::
  "'j journalOps \<Rightarrow> ('j \<Rightarrow> signedEntry list) \<Rightarrow> ledgerRef \<Rightarrow> ('j, 'e) world \<Rightarrow> ('j, 'e) world \<Rightarrow> bool" where
  "worldGrows ops entries l w w' \<longleftrightarrow> (\<exists>added. entries (w_journal w') = entries (w_journal w) @ added) \<and>
     (\<forall>k e. jo_getByIdempotencyKey ops (lr_ledgerId l) k (w_journal w) = Some e \<longrightarrow>
        jo_getByIdempotencyKey ops (lr_ledgerId l) k (w_journal w') = Some e)"

definition goodEnv ::
  "'j journalOps \<Rightarrow> ('j \<Rightarrow> bool) \<Rightarrow> ('j \<Rightarrow> signedEntry list) \<Rightarrow> ledgerRef \<Rightarrow> ('j, 'e) environment \<Rightarrow> bool" where
  "goodEnv ops jinv entries l env \<longleftrightarrow>
     (\<forall>p w. okWorld jinv entries l w \<longrightarrow> okWorld jinv entries l (env p w) \<and> worldGrows ops entries l w (env p w))"

lemma worldGrows_refl [simp]: "worldGrows ops entries l w w"
  by (simp add: worldGrows_def)

lemma worldGrows_trans: "worldGrows ops entries l w w' \<Longrightarrow> worldGrows ops entries l w' w'' \<Longrightarrow> worldGrows ops entries l w w''"
  unfolding worldGrows_def by (metis append.assoc)

lemma worldGrows_known:
  "worldGrows ops entries l w w' \<Longrightarrow> knownHead l (entries (w_journal w)) h \<Longrightarrow> knownHead l (entries (w_journal w')) h"
  using known_append by (auto simp: worldGrows_def)

text \<open>What a call leaves behind: a grown, sound world, and the returned entry under its key. It fails
  for lack of attempts only when others appended as often.\<close>

definition appendOutcome ::
  "'j journalOps \<Rightarrow> ('j \<Rightarrow> bool) \<Rightarrow> ('j \<Rightarrow> signedEntry list) \<Rightarrow> ledgerRef \<Rightarrow> bool \<Rightarrow> digest \<Rightarrow> digest \<Rightarrow> nat \<Rightarrow> ('j, 'e) world \<Rightarrow>
   recorderError + signedEntry \<Rightarrow> ('j, 'e) world \<Rightarrow> bool" where
  "appendOutcome ops jinv entries l genesis d key n w r w' \<longleftrightarrow> okWorld jinv entries l w' \<and> worldGrows ops entries l w w' \<and>
     (\<not> genesis \<longrightarrow> (\<forall>e. r = Inr e \<longrightarrow> se_eventDigest e = d \<and>
        jo_getByIdempotencyKey ops (lr_ledgerId l) key (w_journal w') = Some e)) \<and>
     (\<not> genesis \<and> entries (w_journal w) \<noteq> [] \<longrightarrow> r \<noteq> Inl JournalFailure) \<and>
     (r = Inl AppendConflictExhausted \<longrightarrow> length (entries (w_journal w)) + n \<le> length (entries (w_journal w')))"

lemma outcome_later:
  assumes "worldGrows ops entries l w w1" and "length (entries (w_journal w)) + m \<le> length (entries (w_journal w1)) + n"
    and "appendOutcome ops jinv entries l genesis d key n w1 r w'"
  shows "appendOutcome ops jinv entries l genesis d key m w r w'"
proof -
  have "okWorld jinv entries l w'" "worldGrows ops entries l w w'"
    using assms(3) worldGrows_trans [OF assms(1)] by (auto simp: appendOutcome_def)
  moreover have "entries (w_journal w) \<noteq> [] \<Longrightarrow> entries (w_journal w1) \<noteq> []" using assms(1) by (auto simp: worldGrows_def)
  moreover have "length (entries (w_journal w)) + m \<le> length (entries (w_journal w'))" if "r = Inl AppendConflictExhausted"
    using assms(2,3) that by (simp add: appendOutcome_def)
  ultimately show ?thesis using assms(3) unfolding appendOutcome_def by blast
qed

lemma goodEnv_step:
  "goodEnv ops jinv entries l env \<Longrightarrow> okWorld jinv entries l w \<Longrightarrow> okWorld jinv entries l (env p w) \<and> worldGrows ops entries l w (env p w)"
  by (simp add: goodEnv_def)

lemma resolved_outcome:
  assumes "okWorld jinv entries l w'" and "jo_getByIdempotencyKey ops (lr_ledgerId l) key (w_journal w') = Some e"
    and "worldGrows ops entries l w w'"
  shows "appendOutcome ops jinv entries l genesis d key n w (resolveExisting cfg genesis d e) w'"
  using assms
  by (auto simp: appendOutcome_def resolveExisting_def resolveDuplicate_def validateExistingGenesis_def Let_def
      split: if_splits)

lemma grown_length: "worldGrows ops entries l w w' \<Longrightarrow> length (entries (w_journal w)) \<le> length (entries (w_journal w'))"
  by (auto simp: worldGrows_def)

context audit_journal
begin

lemma stale_attempt_retries:
  assumes "okWorld inv entries ledger w" and "h \<noteq> headOf ledger (entries (w_journal w))"
    and "knownHead ledger (entries (w_journal w)) h"
    and "knownHead ledger (entries (w_journal w)) c" and "knownHead ledger (entries (w_journal w)) r"
  shows "\<not> headRegressed (headOf ledger (entries (w_journal w))) c r \<and> \<not> sameHead h (headOf ledger (entries (w_journal w)))"
proof -
  have ch: "chainedLedger ledger (entries (w_journal w))" using assms(1) by (simp add: okWorld_def)
  show ?thesis using not_regressed [OF ch assms(4,5)] sameHead_known [OF ch assms(3) headOf_known] assms(2) by auto
qed

lemma fresh_append_grows:
  assumes "okWorld inv entries ledger w" and "inv j'" and "entries j' = entries (w_journal w) @ [e]"
    and "continues ledger (headOf ledger (entries (w_journal w))) e"
    and "jo_getByIdempotencyKey ops (lr_ledgerId ledger) k (w_journal w) = None"
    and "\<And>k'. jo_getByIdempotencyKey ops (lr_ledgerId ledger) k' j' =
      (if k' = k then Some e else jo_getByIdempotencyKey ops (lr_ledgerId ledger) k' (w_journal w))"
  shows "okWorld inv entries ledger (w\<lparr>w_journal := j'\<rparr>) \<and> worldGrows ops entries ledger w (w\<lparr>w_journal := j'\<rparr>) \<and>
    headFor ledger e \<in> headFor ledger ` set (entries j')"
  using assms chained_append [OF _ assms(4)] known_append by (auto simp: okWorld_def worldGrows_def)

lemma heads_updated:
  "okWorld inv entries ledger w \<Longrightarrow> knownHead ledger (entries (w_journal w)) h \<Longrightarrow>
    okWorld inv entries ledger (w\<lparr>w_committed := higherHead (w_committed w) h, w_reported := higherHead (w_reported w) h\<rparr>) \<and>
    okWorld inv entries ledger (w\<lparr>w_reported := higherHead (w_reported w) h\<rparr>)"
  by (simp add: okWorld_def higher_known)

lemma appendLoop_outcome:
  assumes env: "goodEnv ops inv entries ledger env" and cfg: "recorderLedger cfg = ledger"
  shows "okWorld inv entries ledger w \<Longrightarrow> appendLoop ops cfg env genesis event d key n w = (r, w') \<Longrightarrow> appendOutcome ops inv entries ledger genesis d key n w r w'"
proof (induction n arbitrary: w)
  case 0
  then show ?case by (auto simp: appendOutcome_def)
next
  case (Suc n)
  define w1 where "w1 = env (BeforeRead n) w"
  define w2 where "w2 = env (BeforeRaced n) w1"
  define w3 where "w3 = env (BeforeAppend n) w2"
  let ?c = "w_committed w" and ?h = "headOf ledger (entries (w_journal w1))"
  have w1: "okWorld inv entries ledger w1" "worldGrows ops entries ledger w w1"
    using goodEnv_step [OF env Suc.prems(1)] by (auto simp: w1_def)
  have w2: "okWorld inv entries ledger w2" "worldGrows ops entries ledger w1 w2"
    using goodEnv_step [OF env w1(1)] by (auto simp: w2_def)
  have w3: "okWorld inv entries ledger w3" "worldGrows ops entries ledger w2 w3"
    using goodEnv_step [OF env w2(1)] by (auto simp: w3_def)
  have g13: "worldGrows ops entries ledger w1 w3" using w2(2) w3(2) by (rule worldGrows_trans)
  have g3: "worldGrows ops entries ledger w w3" using w1(2) g13 by (rule worldGrows_trans)
  have known: "knownHead ledger (entries (w_journal w1)) ?c" "knownHead ledger (entries (w_journal w3)) ?c"
    "knownHead ledger (entries (w_journal w3)) (w_reported w)" "knownHead ledger (entries (w_journal w3)) ?h"
    using worldGrows_known [OF w1(2)] worldGrows_known [OF g3] worldGrows_known [OF g13 headOf_known] Suc.prems(1)
    by (auto simp: okWorld_def)
  have head: "higherHead ?c (jo_getHead ops ledger (w_journal w1)) = ?h"
    using higher_is_head [OF _ known(1)] head_is_last w1(1) by (simp add: okWorld_def)
  have ne: "?h \<noteq> None" if "entries (w_journal w) \<noteq> []" using that w1(2) by (auto simp: worldGrows_def headOf_def)
  have lid: "cfg_ledgerId cfg = lr_ledgerId ledger" using cfg by (auto simp: recorderLedger_def)
  have g2: "worldGrows ops entries ledger w w2" using w1(2) w2(2) by (rule worldGrows_trans)
  define prior where "prior = (if genesis \<and> ?h \<noteq> None
    then jo_getByIdempotencyKey ops (lr_ledgerId ledger) key (w_journal w2) else None)"
  consider (raced) e where "prior = Some e"
    | (failed) e where "prior = None" "buildCandidate cfg event d ?h genesis (w_now w2) = Inl e"
    | (built) cand where "prior = None" "buildCandidate cfg event d ?h genesis (w_now w2) = Inr cand"
    by (cases prior; cases "buildCandidate cfg event d ?h genesis (w_now w2)") auto
  then show ?case
  proof cases
    case (raced e)
    then have "r = validateExistingGenesis cfg e" "w' = w2" genesis
      using Suc.prems(2) by (simp_all add: cfg lid head Let_def prior_def split: if_splits flip: w1_def w2_def)
    moreover have "jo_getByIdempotencyKey ops (lr_ledgerId ledger) key (w_journal w2) = Some e"
      using raced by (simp add: prior_def split: if_splits)
    ultimately show ?thesis using resolved_outcome [OF w2(1) _ g2, of key e genesis] by (simp add: resolveExisting_def)
  next
    case (failed e)
    then have e: "\<not> genesis \<Longrightarrow> entries (w_journal w) \<noteq> [] \<Longrightarrow> e = InvalidEvent" "e \<noteq> AppendConflictExhausted"
      using ne by (auto simp: buildCandidate_def Let_def split: if_splits option.splits)
    have "r = Inl e" "w' = w2" 
      using Suc.prems(2) failed by (simp_all add: cfg lid head Let_def prior_def split: if_splits flip: w1_def w2_def)
    then show ?thesis using e w2(1) g2 by (auto simp: appendOutcome_def)
  next
    case (built cand)
    note Inr = built
    have cont: "continues ledger ?h cand" "se_eventDigest cand = d" using candidate_continues [OF built(2)] cfg by auto
    obtain res j where cas: "jo_compareAndAppend ops \<lparr>ai_ledger = ledger, ai_expectedHead = ?h, ai_entry = cand,
        ai_idempotencyKey = key\<rparr> (w_journal w3) = (res, j)" by (metis surj_pair)
    define w4 where "w4 = env (AfterAppend n) (w3\<lparr>w_journal := j\<rparr>)"
    have "inv (w_journal w3)" using w3(1) by (simp add: okWorld_def)
    from this cas show ?thesis
    proof (cases rule: append_cases)
      case (known e)
      then have w4: "okWorld inv entries ledger w4" "worldGrows ops entries ledger w3 w4"
        using goodEnv_step [OF env w3(1)] by (auto simp: w4_def)
      have "env (AfterAppend n) w3 = w4" using known(2) by (simp add: w4_def)
      then have "r = resolveExisting cfg genesis d e \<and> w' = w4"
        using Suc.prems(2) Inr cas known
        by (simp add: cfg head lid Let_def prior_def flip: w1_def w2_def w3_def split: if_splits)
      moreover have "jo_getByIdempotencyKey ops (lr_ledgerId ledger) key (w_journal w4) = Some e"
        using known(1) w4(2) by (simp add: worldGrows_def)
      ultimately show ?thesis using resolved_outcome [OF w4(1) _ worldGrows_trans [OF g3 w4(2)]] by simp
    next
      case stale
      let ?a = "headOf ledger (entries (w_journal w3))"
      define w5 where "w5 = w4\<lparr>w_reported := higherHead (w_reported w4) ?a\<rparr>"
      have w4: "okWorld inv entries ledger w4" "worldGrows ops entries ledger w3 w4"
        using goodEnv_step [OF env w3(1)] stale(3) by (auto simp: w4_def)
      have w5: "okWorld inv entries ledger w5" "worldGrows ops entries ledger w3 w5"
        using heads_updated [OF w4(1) worldGrows_known [OF w4(2) headOf_known]] w4(2)
        by (simp_all add: w5_def worldGrows_def)
      have "env (AfterAppend n) w3 = w4" using stale(3) by (simp add: w4_def)
      moreover note stale_attempt_retries [OF w3(1) stale(2) known(4) known(2) known(3)]
      ultimately have "appendLoop ops cfg env genesis event d key n w5 = (r, w')"
        using Suc.prems(2) Inr cas stale
        by (simp add: cfg head lid Let_def w5_def prior_def split: if_splits flip: w1_def w2_def w3_def)
      then have out: "appendOutcome ops inv entries ledger genesis d key n w5 r w'" by (rule Suc.IH [OF w5(1)])
      have "entries (w_journal w1) \<noteq> entries (w_journal w3)" using stale(2) by auto
      then have "length (entries (w_journal w1)) < length (entries (w_journal w3))" using g13 by (auto simp: worldGrows_def)
      then show ?thesis
        using grown_length [OF w1(2)] grown_length [OF w5(2)]
        by (intro outcome_later [OF worldGrows_trans [OF g3 w5(2)] _ out]) simp
    next
      case fresh
      have g: "okWorld inv entries ledger (w3\<lparr>w_journal := j\<rparr>)" "worldGrows ops entries ledger w3 (w3\<lparr>w_journal := j\<rparr>)"
        "headFor ledger cand \<in> headFor ledger ` set (entries j)"
        using fresh_append_grows [OF w3(1) fresh(4,5) _ fresh(1,6)] cont(1) fresh(2) by auto
      have w4: "okWorld inv entries ledger w4" "worldGrows ops entries ledger (w3\<lparr>w_journal := j\<rparr>) w4"
        using goodEnv_step [OF env g(1)] by (auto simp: w4_def)
      let ?e = "Some (headFor ledger cand)"
      have res: "r = Inr cand" "w' = w4\<lparr>w_committed := higherHead (w_committed w4) ?e, w_reported := higherHead (w_reported w4) ?e\<rparr>"
        using Suc.prems(2) Inr cas fresh(3)
        by (simp_all add: cfg head lid Let_def prior_def split: if_splits flip: w1_def w2_def w3_def w4_def)
      have "knownHead ledger (entries (w_journal w4)) ?e"
        by (rule worldGrows_known [OF w4(2)]) (use g(3) in \<open>simp add: knownHead_def\<close>)
      then have "okWorld inv entries ledger w'" using heads_updated [OF w4(1)] res(2) by blast
      moreover have "worldGrows ops entries ledger w w'"
        using worldGrows_trans [OF worldGrows_trans [OF g3 g(2)] w4(2)] res(2) by (simp add: worldGrows_def)
      moreover have "jo_getByIdempotencyKey ops (lr_ledgerId ledger) key (w_journal w') = Some cand"
        using w4(2) fresh(6) [of key] res(2) by (simp add: worldGrows_def)
      ultimately show ?thesis using res(1) cont(2) by (simp add: appendOutcome_def)
    qed
  qed
qed

text \<open>The whole append.\<close>

lemma appendEvent_outcome:
  assumes env: "goodEnv ops inv entries ledger env" and cfg: "recorderLedger cfg = ledger"
    and w: "okWorld inv entries ledger w"
    and run: "appendEvent ops cfg env genesis event (d, key) w = (r, w')"
  shows "appendOutcome ops inv entries ledger genesis d key (cfg_maxAppendConflicts cfg + 1) w r w'"
proof -
  let ?w = "env BeforeLookup w"
  have w0: "okWorld inv entries ledger ?w" "worldGrows ops entries ledger w ?w" using goodEnv_step [OF env w] by auto
  have lid: "cfg_ledgerId cfg = lr_ledgerId ledger" using cfg by (auto simp: recorderLedger_def)
  show ?thesis
  proof (cases "jo_getByIdempotencyKey ops (lr_ledgerId ledger) key (w_journal ?w)")
    case None
    have "appendLoop ops cfg env genesis event d key (cfg_maxAppendConflicts cfg + 1) ?w = (r, w')"
      using run None by (simp add: appendEvent_def lid del: appendLoop.simps)
    then have "appendOutcome ops inv entries ledger genesis d key (cfg_maxAppendConflicts cfg + 1) ?w r w'"
      by (intro appendLoop_outcome [OF env cfg w0(1)])
    then show ?thesis by (rule outcome_later [OF w0(2), rotated]) (use grown_length [OF w0(2)] in simp)
  next
    case (Some e)
    then have "r = resolveExisting cfg genesis d e" "w' = ?w" using run by (auto simp: appendEvent_def lid)
    then show ?thesis using resolved_outcome [OF w0(1) Some w0(2)] by simp
  qed
qed

end

subsection \<open>Submissions on a sound journal\<close>

text \<open>What a submission leaves behind.\<close>

definition submitOutcome :: 
  "'j journalOps \<Rightarrow> ('j \<Rightarrow> bool) \<Rightarrow> ('j \<Rightarrow> signedEntry list) \<Rightarrow> ledgerRef \<Rightarrow> digest \<times> digest \<Rightarrow> ('j, 'e) world \<Rightarrow> recorderError + signedEntry \<Rightarrow> ('j, 'e) world \<Rightarrow> bool" where
  "submitOutcome ops jinv entries l identity w r w' \<longleftrightarrow> okWorld jinv entries l w' \<and> worldGrows ops entries l w w' \<and>
     (\<forall>e. r = Inr e \<longrightarrow> se_eventDigest e = fst identity \<and>
        jo_getByIdempotencyKey ops (lr_ledgerId l) (snd identity) (w_journal w') = Some e)"

context audit_journal
begin

lemma initialized_ok:
  assumes env: "goodEnv ops inv entries ledger env" and cfg: "recorderLedger cfg = ledger"
    and w: "okWorld inv entries ledger w" and run: "ensureInitialized ops cfg env w = (r, w')"
  shows "okWorld inv entries ledger w' \<and> worldGrows ops entries ledger w w'"
proof (cases "appendEvent ops cfg env True (genesisEvent cfg (w_now w))
    (identifyEvent cfg (genesisEvent cfg (w_now w)) (genesisContext cfg)) w = (r, w')")
  case True
  then obtain d k where "appendEvent ops cfg env True (genesisEvent cfg (w_now w)) (d, k) w = (r, w')" by (metis surj_pair)
  from appendEvent_outcome [OF env cfg w this] show ?thesis by (simp add: appendOutcome_def)
next
  case False
  then have "w' = w" using run unfolding ensureInitialized_def Let_def
    by (auto split: option.splits list.splits if_splits)
  then show ?thesis using w by simp
qed

lemma held_ok [simp]:
  "okWorld inv entries ledger (w\<lparr>w_held := h\<rparr>) = okWorld inv entries ledger w"
  "okWorld inv entries ledger (w\<lparr>w_evidence := e\<rparr>) = okWorld inv entries ledger w"
  "worldGrows ops entries ledger w (w'\<lparr>w_held := h\<rparr>) = worldGrows ops entries ledger w w'"
  "worldGrows ops entries ledger w (w'\<lparr>w_evidence := e\<rparr>) = worldGrows ops entries ledger w w'"
  "worldGrows ops entries ledger (w\<lparr>w_held := h\<rparr>) w' = worldGrows ops entries ledger w w'"
  "worldGrows ops entries ledger (w\<lparr>w_evidence := e\<rparr>) w' = worldGrows ops entries ledger w w'"
  by (simp_all add: okWorld_def worldGrows_def)

lemma dispose_keeps:
  "w_journal (disposeUncommittedEvidence ops eops cfg stored key w) = w_journal w"
  "w_committed (disposeUncommittedEvidence ops eops cfg stored key w) = w_committed w"
  "w_reported (disposeUncommittedEvidence ops eops cfg stored key w) = w_reported w"
  by (auto simp: disposeUncommittedEvidence_def split: option.splits)

lemma submitHeld_ok:
  assumes env: "goodEnv ops inv entries ledger env" and cfg: "recorderLedger cfg = ledger"
    and w: "okWorld inv entries ledger w" and run: "submitHeld ops eops cfg env sub identity w = (r, w')"
  shows "submitOutcome ops inv entries ledger identity w r w'"
proof -
  obtain p es where p: "persistSubmittedEvidence eops (sub_encryptedEvidence sub) (sub_producerEvent sub) (w_evidence w) = (p, es)"
    by (metis surj_pair)
  let ?w = "w\<lparr>w_evidence := es\<rparr>"
  show ?thesis
  proof (cases p)
    case (Inl e)
    then show ?thesis using run p w by (auto simp: submitHeld_def submitOutcome_def)
  next
    case (Inr stored)
    obtain r1 w1 where a: "appendEvent ops cfg env False (sub_producerEvent sub) (fst identity, snd identity) ?w = (r1, w1)"
      by (metis surj_pair)
    have out: "appendOutcome ops inv entries ledger False (fst identity) (snd identity) (cfg_maxAppendConflicts cfg + 1) ?w r1 w1"
      by (rule appendEvent_outcome [OF env cfg _ a]) (use w in simp)
    then show ?thesis using run p Inr a
      by (auto simp: submitHeld_def submitOutcome_def appendOutcome_def okWorld_def worldGrows_def dispose_keeps
          split: sum.splits)
  qed
qed

lemma submitNew_ok:
  assumes env: "goodEnv ops inv entries ledger (envs True)" "goodEnv ops inv entries ledger (envs False)"
    and cfg: "recorderLedger cfg = ledger" and w: "okWorld inv entries ledger w"
    and run: "submitNew ops eops cfg envs sub identity w = (r, w')"
  shows "submitOutcome ops inv entries ledger identity w r w'"
proof -
  obtain r1 w1 where a: "ensureInitialized ops cfg (envs True) w = (r1, w1)" by (metis surj_pair)
  note g = initialized_ok [OF env(1) cfg w a]
  show ?thesis
  proof (cases r1)
    case (Inl e)
    then have "r = Inl e" "w' = w1" using run a by (simp_all add: submitNew_def)
    then show ?thesis using g by (simp add: submitOutcome_def)
  next
    case (Inr x)
    obtain ids held where h: "holdEvidence (sub_encryptedEvidence sub) (w_held w1) = (ids, held)" by (metis surj_pair)
    obtain r2 w2 where b: "submitHeld ops eops cfg (envs False) sub identity (w1\<lparr>w_held := held\<rparr>) = (r2, w2)" by (metis surj_pair)
    have "submitOutcome ops inv entries ledger identity (w1\<lparr>w_held := held\<rparr>) r2 w2"
      by (rule submitHeld_ok [OF env(2) cfg _ b]) (use g in simp)
    moreover have "r = r2" "w' = w2\<lparr>w_held := releaseEvidence ids (w_held w2)\<rparr>"
      using run a Inr h b by (simp_all add: submitNew_def)
    ultimately show ?thesis using worldGrows_trans [of ops entries ledger w w1 w2] g by (simp add: submitOutcome_def)
  qed
qed

lemma submit_ok:
  assumes env: "goodEnv ops inv entries ledger (envs True)" "goodEnv ops inv entries ledger (envs False)"
    and cfg: "recorderLedger cfg = ledger" and w: "okWorld inv entries ledger w"
    and run: "submitAuthenticated ops eops cfg envs sub ctx w = (r, w')"
  shows "submitOutcome ops inv entries ledger (identifyEvent cfg (sub_producerEvent sub) ctx) w r w'"
proof -
  let ?id = "identifyEvent cfg (sub_producerEvent sub) ctx"
  have lid: "cfg_ledgerId cfg = lr_ledgerId ledger" using cfg by (auto simp: recorderLedger_def)
  show ?thesis
  proof (cases "refuseSubmission cfg sub ctx")
    case (Some e)
    then have "r = Inl e" "w' = w" using run by (simp_all add: submitAuthenticated_def)
    then show ?thesis using w by (simp add: submitOutcome_def)
  next
    case None
    note run = run [unfolded submitAuthenticated_def None Let_def lid option.case]
    show ?thesis
    proof (cases "jo_getByIdempotencyKey ops (lr_ledgerId ledger) (snd ?id) (w_journal w)")
      case (Some d)
      then have rw: "r = resolveDuplicate d (fst ?id)" "w' = w" using run by simp_all
      have "resolveDuplicate d (fst ?id) = Inr e \<Longrightarrow> e = d \<and> se_eventDigest d = fst ?id" for e
        by (simp add: resolveDuplicate_def split: if_splits)
      then show ?thesis using w Some worldGrows_refl unfolding submitOutcome_def rw by blast
    next
      case None
      note run = run [unfolded None option.case]
      show ?thesis
      proof (cases "sub_expectedLedgerEpochId sub \<noteq> None \<and> sub_expectedLedgerEpochId sub \<noteq> Some (cfg_ledgerEpochId cfg)")
        case True
        then have "r = Inl EpochMismatch" "w' = w" using run by auto
        then show ?thesis using w by (simp add: submitOutcome_def)
      next
        case False
        then have "submitNew ops eops cfg envs sub ?id w = (r, w')" using run by (simp only: if_False)
        then show ?thesis by (rule submitNew_ok [OF env cfg w])
      qed
    qed
  qed
qed

end

subsection \<open>The recorder on the memory journal\<close>

text \<open>Other writers of the memory journal: before each step of the recorder, a batch of appends.\<close>

definition otherWriters :: "(awaitPoint \<Rightarrow> appendInput list) \<Rightarrow> (memJournal, 'e) environment" where
  "otherWriters others p w = w\<lparr>w_journal := snd (runAppends (others p) (w_journal w))\<rparr>"

lemma mem_append_ok:
  assumes l: "NUL \<notin> set (lr_ledgerId l)" and i: "goodInput i" and j: "memInv l j" "chainedLedger l (memSnapshot l j)"
  shows "memInv l (snd (memCompareAndAppend i j)) \<and> chainedLedger l (memSnapshot l (snd (memCompareAndAppend i j))) \<and>
    (\<exists>added. memSnapshot l (snd (memCompareAndAppend i j)) = memSnapshot l j @ added)"
proof (cases "memGetByIdempotencyKey (lr_ledgerId (ai_ledger i)) (ai_idempotencyKey i) j")
  case (Some e)
  then show ?thesis using j by (simp add: memAppend_known)
next
  case None
  show ?thesis
  proof (cases "ai_expectedHead i = memGetHead (ai_ledger i) j")
    case False
    then show ?thesis using j None by (simp add: memAppend_stale)
  next
    case True
    note fresh = memAppend_fresh [OF None True]
    have same: "ledgerKey l = ledgerKey (ai_ledger i) \<longleftrightarrow> l = ai_ledger i"
      by (rule ledgerKey_inject [OF l]) (use i in \<open>simp add: goodInput_def\<close>)
    have "continues l (headOf l (memSnapshot l j)) (ai_entry i)" if "l = ai_ledger i"
      using i j(1) True that by (simp add: goodInput_def memInv_def)
    then show ?thesis using j chained_append by (auto simp: memInv_def fresh same)
  qed
qed

lemma mem_run_ok:
  assumes "NUL \<notin> set (lr_ledgerId l)"
  shows "list_all goodInput is \<Longrightarrow> memInv l j \<Longrightarrow> chainedLedger l (memSnapshot l j) \<Longrightarrow>
    memInv l (snd (runAppends is j)) \<and> chainedLedger l (memSnapshot l (snd (runAppends is j))) \<and>
    (\<exists>added. memSnapshot l (snd (runAppends is j)) = memSnapshot l j @ added)"
proof (induction "is" arbitrary: j)
  case (Cons i "is")
  then have i: "goodInput i" and rest: "list_all goodInput is" by auto
  note one = mem_append_ok [OF assms i Cons.prems(2,3)]
  from Cons.IH [OF rest] one show ?case by (fastforce simp: case_prod_beta)
qed simp

lemma mem_good_env:
  assumes "NUL \<notin> set (lr_ledgerId l)" and "\<And>p. list_all goodInput (others p)"
  shows "goodEnv memOps (memInv l) (memSnapshot l) l (otherWriters others)"
  unfolding goodEnv_def
proof (intro allI impI)
  fix p and w :: "(memJournal, 'e) world"
  assume w: "okWorld (memInv l) (memSnapshot l) l w"
  note run = mem_run_ok [OF assms(1) assms(2) [of p], of "w_journal w"]
  have "okWorld (memInv l) (memSnapshot l) l (otherWriters others p w)"
    using w run known_append unfolding okWorld_def otherWriters_def by auto
  moreover have "worldGrows memOps (memSnapshot l) l w (otherWriters others p w)"
    using w run run_key_kept [OF _ assms(1) assms(2) [of p]]
    by (auto simp: okWorld_def otherWriters_def worldGrows_def memOps_def)
  ultimately show "okWorld (memInv l) (memSnapshot l) l (otherWriters others p w) \<and>
    worldGrows memOps (memSnapshot l) l w (otherWriters others p w)" ..
qed

text \<open>Appending among other writers. On the memory journal, with any batches of appends by other
  writers between the steps of the recorder, an append of a producer event to a started ledger
  leaves the ledger one hash chain that only grew; a returned entry carries the digest of the event
  and is stored under its idempotency key; the sound journal is never reported as failed; and the
  attempts run out only when others appended at least \<open>maxAppendConflicts + 1\<close> entries meanwhile.\<close>

theorem append_among_writers:
  assumes "\<And>p. list_all goodInput (others p)" and "NUL \<notin> set (cfg_ledgerId cfg)"
    and "l = recorderLedger cfg" and "okWorld (memInv l) (memSnapshot l) l w" and "memSnapshot l (w_journal w) \<noteq> []"
    and "appendEvent memOps cfg (otherWriters others) False event (d, key) w = (r, w')"
  shows "chainedLedger l (memSnapshot l (w_journal w')) \<and>
    (\<exists>added. memSnapshot l (w_journal w') = memSnapshot l (w_journal w) @ added) \<and>
    (\<forall>e. r = Inr e \<longrightarrow> se_eventDigest e = d \<and> memGetByIdempotencyKey (cfg_ledgerId cfg) key (w_journal w') = Some e) \<and>
    r \<noteq> Inl JournalFailure \<and>
    (r = Inl AppendConflictExhausted \<longrightarrow>
      length (memSnapshot l (w_journal w)) + (cfg_maxAppendConflicts cfg + 1) \<le> length (memSnapshot l (w_journal w')))"
proof -
  have lid: "lr_ledgerId l = cfg_ledgerId cfg" using assms(3) by (simp add: recorderLedger_def)
  have env: "goodEnv memOps (memInv l) (memSnapshot l) l (otherWriters others)"
    by (rule mem_good_env) (use assms(1,2) lid in auto)
  from mem.appendEvent_outcome [OF env assms(3) [symmetric] assms(4) assms(6)] show ?thesis
    using assms(5) by (auto simp: appendOutcome_def okWorld_def worldGrows_def memOps_def lid)
qed

definition demoConfig :: recorderConfig where
  "demoConfig = \<lparr>cfg_ledgerId = ''L'', cfg_ledgerEpochId = ''1'', cfg_tenantRef = PublicDid ''t'', cfg_binding = ''mcp'',
     cfg_sourceId = ''rec'', cfg_signer = demoSigner, cfg_previousEpochId = None, cfg_previousTerminalCheckpointDigest = None,
     cfg_sealed = None, cfg_maxAppendConflicts = 1, cfg_authorize = None, cfg_validEvent = (\<lambda>_. True), cfg_validCore = (\<lambda>_. True),
     cfg_validSigned = (\<lambda>_. True), cfg_digestEvent = (\<lambda>e. ''e'' @ pe_eventId e), cfg_digestManifest = (\<lambda>_. ''m''),
     cfg_digestEntry = (\<lambda>c. ''d'' @ pe_eventId (ec_event c)), cfg_digestIdentity = (\<lambda>_ _ _ i. ''k'' @ i), cfg_sign = (\<lambda>_. ''sig'')\<rparr>"

definition demoWorld :: "(memJournal, unit) world" where
  "demoWorld = \<lparr>w_journal = snd (runAppends [demoInput ''a'' None] emptyJournal), w_committed = None, w_reported = None,
     w_now = 0, w_evidence = (), w_held = []\<rparr>"

text \<open>Another writer gets in between the read and the first append.\<close>

definition demoOthers :: "awaitPoint \<Rightarrow> appendInput list" where
  "demoOthers p = (if p = BeforeAppend 1 then [demoInput ''b'' (Some ''a'')] else [])"

lemma demo_world_ok: "okWorld (memInv (recorderLedger demoConfig)) (memSnapshot (recorderLedger demoConfig)) (recorderLedger demoConfig) demoWorld"
proof -
  have l: "recorderLedger demoConfig = demoLedger" by (simp add: recorderLedger_def demoConfig_def demoLedger_def)
  have "goodInput (demoInput ''a'' None)" by code_simp
  then have "chainedJournal (w_journal demoWorld)"
    using runAppends_chained [OF empty_chained, of "[demoInput ''a'' None]"] by (simp add: demoWorld_def)
  then show ?thesis unfolding l okWorld_def chainedJournal_def knownHead_def
    by (simp add: demoLedger_def NUL_def) (simp add: demoWorld_def)
qed

lemma append_among_writers_witness:
  "\<exists>e w'. appendEvent memOps demoConfig (otherWriters demoOthers) False (demoEvent ''c'') (''ec'', ''kc'') demoWorld = (Inr e, w') \<and>
    se_eventDigest e = ''ec'' \<and> ec_sequence (se_core e) = 2 \<and>
    chainedLedger (recorderLedger demoConfig) (memSnapshot (recorderLedger demoConfig) (w_journal w'))"
proof -
  obtain r w' where run: "appendEvent memOps demoConfig (otherWriters demoOthers) False (demoEvent ''c'') (''ec'', ''kc'') demoWorld = (r, w')"
    by (metis surj_pair)
  have others: "list_all goodInput (demoOthers p)" for p
  proof -
    have "goodInput (demoInput ''b'' (Some ''a''))" by code_simp
    then show ?thesis by (simp add: demoOthers_def)
  qed
  have nul: "NUL \<notin> set (cfg_ledgerId demoConfig)" by code_simp
  have ne: "memSnapshot (recorderLedger demoConfig) (w_journal demoWorld) \<noteq> []" by code_simp
  have "(case fst (appendEvent memOps demoConfig (otherWriters demoOthers) False (demoEvent ''c'') (''ec'', ''kc'') demoWorld) of
      Inr e \<Rightarrow> ec_sequence (se_core e) = 2 | Inl _ \<Rightarrow> False)" by code_simp
  then obtain e where e: "r = Inr e" "ec_sequence (se_core e) = 2" using run by (auto split: sum.splits)
  from append_among_writers [OF others nul refl demo_world_ok ne run] show ?thesis using e run by auto
qed

text \<open>C31: A submission that is accepted was allowed and is on the ledger. If \<open>submitAuthenticated\<close>
  returns an entry, then the envelope, the schema, the producer's and tenant's authority and the
  authorizer let it pass, the entry carries the digest of the submitted event, and the journal holds
  it under the authenticated identity of that event; the ledger, its genesis included, is a hash
  chain that only grew. This holds with other writers appending between all steps.\<close>

theorem accepted_submission_is_recorded:
  assumes "\<And>b p. list_all goodInput (others b p)" and "NUL \<notin> set (cfg_ledgerId cfg)"
    and "l = recorderLedger cfg" and "okWorld (memInv l) (memSnapshot l) l w"
    and "submitAuthenticated memOps eops cfg (\<lambda>b. otherWriters (others b)) sub ctx w = (Inr e, w')"
  shows "refuseSubmission cfg sub ctx = None \<and> se_eventDigest e = cfg_digestEvent cfg (sub_producerEvent sub) \<and>
    memGetByIdempotencyKey (cfg_ledgerId cfg) (snd (identifyEvent cfg (sub_producerEvent sub) ctx)) (w_journal w') = Some e \<and>
    chainedLedger l (memSnapshot l (w_journal w')) \<and>
    (\<exists>added. memSnapshot l (w_journal w') = memSnapshot l (w_journal w) @ added)"
proof -
  have lid: "lr_ledgerId l = cfg_ledgerId cfg" using assms(3) by (simp add: recorderLedger_def)
  have env: "goodEnv memOps (memInv l) (memSnapshot l) l (otherWriters (others b))" for b
    by (rule mem_good_env) (use assms(1,2) lid in auto)
  have "refuseSubmission cfg sub ctx = None"
    using assms(5) by (cases "refuseSubmission cfg sub ctx") (auto simp: submitAuthenticated_def)
  with mem.submit_ok [of l, OF env env assms(3) [symmetric] assms(4) assms(5)] show ?thesis
    by (auto simp: submitOutcome_def okWorld_def worldGrows_def memOps_def lid identifyEvent_def)
qed

definition demoSubmission :: submission where
  "demoSubmission = \<lparr>sub_ledgerId = ''L'', sub_expectedLedgerEpochId = None, sub_producerEvent = demoEvent ''c'',
     sub_encryptedEvidence = []\<rparr>"

definition demoContext :: authContext where
  "demoContext = \<lparr>ctx_producerAuthority = ''p'', ctx_tenantAuthority = ''t'', ctx_producerRef = None, ctx_tenantRef = None\<rparr>"

definition emptyWorld :: "(memJournal, unit) world" where
  "emptyWorld = demoWorld\<lparr>w_journal := emptyJournal\<rparr>"

lemma accepted_submission_is_recorded_witness:
  "\<exists>e w'. submitAuthenticated memOps None demoConfig (\<lambda>_. otherWriters (\<lambda>_. [])) demoSubmission demoContext emptyWorld = (Inr e, w') \<and>
    ec_sequence (se_core e) = 1 \<and> memGetByIdempotencyKey ''L'' ''kc'' (w_journal w') = Some e"
proof -
  let ?run = "submitAuthenticated memOps None demoConfig (\<lambda>b. otherWriters ((\<lambda>_ _. []) b)) demoSubmission demoContext emptyWorld"
  have "(case fst ?run of Inr e \<Rightarrow> ec_sequence (se_core e) = 1 | Inl _ \<Rightarrow> False)" by code_simp
  then obtain e w' where e: "?run = (Inr e, w')" "ec_sequence (se_core e) = 1"
    by (cases ?run) (auto split: sum.splits)
  have nul: "NUL \<notin> set (cfg_ledgerId demoConfig)" by code_simp
  have ok: "okWorld (memInv (recorderLedger demoConfig)) (memSnapshot (recorderLedger demoConfig)) (recorderLedger demoConfig) emptyWorld"
    by (simp add: okWorld_def emptyWorld_def demoWorld_def memInv_def memGetHead_def memSnapshot_def emptyJournal_def knownHead_def)
  have key: "snd (identifyEvent demoConfig (sub_producerEvent demoSubmission) demoContext) = ''kc''" "cfg_ledgerId demoConfig = ''L''"
    by code_simp+
  have none: "list_all goodInput ((\<lambda>_ _. []) (b :: bool) (p :: awaitPoint))" for b p by simp
  from accepted_submission_is_recorded [OF none nul refl ok e(1)] show ?thesis using e key by auto
qed

subsection \<open>On a journal that may go back\<close>

text \<open>Nothing is assumed of the journal here but that an entry it reports as appended is the one it was
  offered: it may lag, lose entries or be restored. Its states are paired with the log of the
  entries it accepted.\<close>

definition loggedOps :: "'j journalOps \<Rightarrow> ('j \<times> signedEntry list) journalOps" where
  "loggedOps ops = \<lparr>jo_getHead = (\<lambda>l j. jo_getHead ops l (fst j)),
     jo_getByIdempotencyKey = (\<lambda>i k j. jo_getByIdempotencyKey ops i k (fst j)),
     jo_compareAndAppend = (\<lambda>i j. case jo_compareAndAppend ops i (fst j) of
        (Inr (Appended e), j') \<Rightarrow> (Inr (Appended e), (j', snd j @ [e]))
      | (r, j') \<Rightarrow> (r, (j', snd j))),
     jo_readRange = (\<lambda>l a n j. jo_readRange ops l a n (fst j))\<rparr>"

definition answersHonestly :: "'j journalOps \<Rightarrow> bool" where
  "answersHonestly ops \<longleftrightarrow> (\<forall>i j e j'. jo_compareAndAppend ops i j = (Inr (Appended e), j') \<longrightarrow> e = ai_entry i)"

text \<open>The journal may be changed in any way while the recorder waits; the log of accepted entries and
  the recorder's own head are not.\<close>

definition onlyJournal :: "('j \<times> signedEntry list, 'e) environment \<Rightarrow> bool" where
  "onlyJournal env \<longleftrightarrow> (\<forall>p w. snd (w_journal (env p w)) = snd (w_journal w) \<and> w_committed (env p w) = w_committed w)"

definition acceptedBelow :: "('j \<times> signedEntry list, 'e) world \<Rightarrow> bool" where
  "acceptedBelow w \<longleftrightarrow> sorted_wrt (<) (map (\<lambda>e. ec_sequence (se_core e)) (snd (w_journal w))) \<and>
     (\<forall>e\<in>set (snd (w_journal w)). \<exists>c. w_committed w = Some c \<and> ec_sequence (se_core e) \<le> ah_sequence c)"

lemma candidate_above:
  assumes "buildCandidate cfg event d (higherHead (Some c) h) genesis now = Inr e"
  shows "ah_sequence c < ec_sequence (se_core e)"
proof -
  obtain a where a: "higherHead (Some c) h = Some a" "ah_sequence c \<le> ah_sequence a"
    by (cases h; cases "ah_sequence c < ah_sequence (the h)") (simp_all add: higherHead_def)
  then show ?thesis using candidate_continues [OF assms] by (simp add: continues_def)
qed

lemma accepted_step:
  assumes "acceptedBelow w" and "buildCandidate cfg event d (higherHead (w_committed w) h) genesis now = Inr e"
    and "snd (w_journal w') = snd (w_journal w) @ [e]" and "w_committed w' = higherHead (w_committed w) (Some (headFor l e))"
  shows "acceptedBelow w'"
proof (cases "w_committed w")
  case None
  then have "snd (w_journal w) = []" using assms(1) by (cases "snd (w_journal w)") (auto simp: acceptedBelow_def)
  then show ?thesis using assms(3,4) None by (simp add: acceptedBelow_def higherHead_def)
next
  case (Some c)
  have lt: "ah_sequence c < ec_sequence (se_core e)" by (rule candidate_above) (use assms(2) Some in simp)
  then have "w_committed w' = Some (headFor l e)" using assms(4) Some by (simp add: higherHead_def)
  then show ?thesis using assms(1,3) Some lt by (fastforce simp: acceptedBelow_def sorted_wrt_append)
qed

lemma accepted_same:
  "acceptedBelow w \<Longrightarrow> snd (w_journal w') = snd (w_journal w) \<Longrightarrow> w_committed w' = w_committed w \<Longrightarrow> acceptedBelow w'"
  by (simp add: acceptedBelow_def)

lemma logged_append_cases:
  assumes "answersHonestly ops" and "jo_compareAndAppend (loggedOps ops) i j = (r, j')"
  obtains (accepted) "r = Inr (Appended (ai_entry i))" "snd j' = snd j @ [ai_entry i]"
  | (other) "\<forall>e. r \<noteq> Inr (Appended e)" "snd j' = snd j"
proof -
  obtain r0 j0 where c: "jo_compareAndAppend ops i (fst j) = (r0, j0)" by (metis surj_pair)
  show thesis
  proof (cases "\<exists>e. r0 = Inr (Appended e)")
    case True
    then obtain e where "r0 = Inr (Appended e)" by blast
    moreover from this have "e = ai_entry i" using assms(1) c unfolding answersHonestly_def by blast
    ultimately show thesis using accepted assms(2) c by (auto simp: loggedOps_def)
  next
    case False
    then show thesis using other assms(2) c by (auto simp: loggedOps_def split: sum.splits appendResult.splits)
  qed
qed

lemma appendLoop_accepts_above:
  assumes "answersHonestly ops" and env: "onlyJournal env"
  shows "acceptedBelow w \<Longrightarrow> appendLoop (loggedOps ops) cfg env genesis event d key n w = (r, w') \<Longrightarrow> acceptedBelow w'"
proof (induction n arbitrary: w)
  case 0
  then show ?case by simp
next
  case (Suc n)
  define w1 where "w1 = env (BeforeRead n) w"
  define w2 where "w2 = env (BeforeRaced n) w1"
  define w3 where "w3 = env (BeforeAppend n) w2"
  let ?h = "higherHead (w_committed w) (jo_getHead (loggedOps ops) (recorderLedger cfg) (w_journal w1))"
  have keep: "snd (w_journal (env p v)) = snd (w_journal v)" "w_committed (env p v) = w_committed v" for p v
    using env by (simp_all add: onlyJournal_def)
  have w2: "acceptedBelow w2" by (rule accepted_same [OF Suc.prems(1)]) (simp_all add: w2_def w1_def keep)
  have w3: "snd (w_journal w3) = snd (w_journal w)" "w_committed w3 = w_committed w" by (simp_all add: w3_def w2_def w1_def keep)
  note run = Suc.prems(2) [unfolded appendLoop.simps Let_def, folded w1_def, folded w2_def]
  show ?case
  proof (cases "if genesis \<and> ?h \<noteq> None then jo_getByIdempotencyKey (loggedOps ops) (cfg_ledgerId cfg) key (w_journal w2) else None")
    case (Some e)
    then have "w' = w2" using run by simp
    then show ?thesis using w2 by simp
  next
    case None
    note run = run [unfolded None option.case]
    show ?thesis
    proof (cases "buildCandidate cfg event d ?h genesis (w_now w2)")
      case (Inl e)
      then have "w' = w2" using run by simp
      then show ?thesis using w2 by simp
    next
      case (Inr cand)
      note run = run [unfolded Inr sum.case, folded w3_def]
      obtain res j where cas: "jo_compareAndAppend (loggedOps ops) \<lparr>ai_ledger = recorderLedger cfg, ai_expectedHead = ?h,
          ai_entry = cand, ai_idempotencyKey = key\<rparr> (w_journal w3) = (res, j)" by (metis surj_pair)
      define w4 where "w4 = env (AfterAppend n) (w3\<lparr>w_journal := j\<rparr>)"
      have w4: "snd (w_journal w4) = snd j" "w_committed w4 = w_committed w" by (simp_all add: w4_def keep w3)
      note run = run [unfolded cas prod.case, folded w4_def]
      show ?thesis using assms(1) cas
      proof (cases rule: logged_append_cases)
        case accepted
        have "w_committed w' = higherHead (w_committed w) (Some (headFor (recorderLedger cfg) cand))"
          "snd (w_journal w') = snd (w_journal w) @ [cand]"
          using run accepted w4 w3 by auto
        then show ?thesis by (intro accepted_step [OF Suc.prems(1) Inr])
      next
        case other
        have same: "acceptedBelow v" if "snd (w_journal v) = snd j" "w_committed v = w_committed w" for v :: "('a \<times> signedEntry list, 'b) world"
          by (rule accepted_same [OF Suc.prems(1)]) (use that other(2) w3 in simp_all)
        show ?thesis
        proof (cases res)
          case (Inl u)
          then have "w' = w3\<lparr>w_journal := j\<rparr>" using run by simp
          then show ?thesis using same w3 by simp
        next
          case (Inr a)
          show ?thesis
          proof (cases a)
            case (HeadConflict actual)
            let ?w5 = "w4\<lparr>w_reported := higherHead (w_reported w4) actual\<rparr>"
            have "acceptedBelow ?w5" using same w4 by simp
            moreover have "w' = w4 \<or> w' = ?w5 \<or> appendLoop (loggedOps ops) cfg env genesis event d key n ?w5 = (r, w')"
              using run Inr HeadConflict by (auto split: if_splits)
            ultimately show ?thesis using Suc.IH same w4 by blast
          qed (use run Inr other(1) same w4 in auto)
        qed
      qed
    qed
  qed
qed

text \<open>One recorder's calls, one after the other.\<close>

fun appendAll ::
  "'j journalOps \<Rightarrow> recorderConfig \<Rightarrow> (nat \<Rightarrow> ('j, 'e) environment) \<Rightarrow> (producerEvent \<times> digest \<times> digest) list \<Rightarrow>
   ('j, 'e) world \<Rightarrow> ('j, 'e) world" where
  "appendAll ops cfg envs [] w = w"
| "appendAll ops cfg envs ((event, d, key) # calls) w =
     appendAll ops cfg envs calls (snd (appendEvent ops cfg (envs (length calls)) False event (d, key) w))"

lemma appendEvent_accepts_above:
  assumes "answersHonestly ops" and "onlyJournal env" and "acceptedBelow w"
  shows "acceptedBelow (snd (appendEvent (loggedOps ops) cfg env genesis event identity w))"
proof -
  obtain d key where i: "identity = (d, key)" by (metis surj_pair)
  let ?w = "env BeforeLookup w"
  have w: "acceptedBelow ?w" by (rule accepted_same [OF assms(3)]) (use assms(2) in \<open>simp_all add: onlyJournal_def\<close>)
  show ?thesis
  proof (cases "jo_getByIdempotencyKey (loggedOps ops) (cfg_ledgerId cfg) key (w_journal ?w)")
    case None
    obtain r w' where l: "appendLoop (loggedOps ops) cfg env genesis event d key (cfg_maxAppendConflicts cfg + 1) ?w = (r, w')"
      by (metis surj_pair)
    then show ?thesis using appendLoop_accepts_above [OF assms(1,2) w l] None
      by (simp add: appendEvent_def i del: appendLoop.simps)
  next
    case (Some e)
    then show ?thesis using w by (simp add: appendEvent_def i)
  qed
qed

text \<open>No sequence is receipted twice, even by a journal that goes back. For any journal that
  returns the entry it was offered when it reports an append, and is otherwise free to lag, fail,
  forget or be restored between all steps, the entries accepted from the consecutive calls of one
  recorder have strictly increasing sequences.\<close>

theorem accepted_sequences_increase:
  assumes "answersHonestly ops" and "\<And>n. onlyJournal (envs n)"
    and "w_committed w = None" and "snd (w_journal w) = []"
  shows "sorted_wrt (<) (map (\<lambda>e. ec_sequence (se_core e)) (snd (w_journal (appendAll (loggedOps ops) cfg envs calls w))))"
proof -
  have "acceptedBelow v \<Longrightarrow> acceptedBelow (appendAll (loggedOps ops) cfg envs calls v)" for v :: "('a \<times> signedEntry list, 'b) world"
  proof (induction calls arbitrary: v)
    case (Cons c calls)
    obtain event d key where c: "c = (event, d, key)" by (metis surj_pair)
    show ?case unfolding c appendAll.simps
      by (rule Cons.IH, rule appendEvent_accepts_above [OF assms(1,2) Cons.prems])
  qed simp
  moreover have "acceptedBelow w" using assms(3,4) by (simp add: acceptedBelow_def)
  ultimately show ?thesis by (simp add: acceptedBelow_def)
qed

lemma memOps_honest: "answersHonestly memOps"
  unfolding answersHonestly_def
proof (intro allI impI)
  fix i e and j j' :: memJournal
  assume "jo_compareAndAppend memOps i j = (Inr (Appended e), j')"
  then have "fst (memCompareAndAppend i j) = Appended e" by (simp add: memOps_def split: prod.splits)
  then show "e = ai_entry i" using appended_recorded by blast
qed

text \<open>A journal restored to its first entry before the second call: the call fails.\<close>

definition restoredEnv :: "nat \<Rightarrow> (memJournal \<times> signedEntry list, unit) environment" where
  "restoredEnv n p w = (if n = 0 \<and> p = BeforeLookup then w\<lparr>w_journal := (w_journal demoWorld, snd (w_journal w))\<rparr> else w)"

definition loggedWorld :: "(memJournal \<times> signedEntry list, unit) world" where
  "loggedWorld = \<lparr>w_journal = (w_journal demoWorld, []), w_committed = None, w_reported = None, w_now = 0, w_evidence = (), w_held = []\<rparr>"

lemma accepted_sequences_increase_witness:
  "sorted_wrt (<) (map (\<lambda>e. ec_sequence (se_core e)) (snd (w_journal (appendAll (loggedOps memOps) demoConfig restoredEnv
      [(demoEvent ''b'', ''eb'', ''kb''), (demoEvent ''c'', ''ec'', ''kc'')] loggedWorld)))) \<and>
    length (snd (w_journal (appendAll (loggedOps memOps) demoConfig restoredEnv
      [(demoEvent ''b'', ''eb'', ''kb''), (demoEvent ''c'', ''ec'', ''kc'')] loggedWorld))) = 1"
proof
  show "sorted_wrt (<) (map (\<lambda>e. ec_sequence (se_core e)) (snd (w_journal (appendAll (loggedOps memOps) demoConfig restoredEnv
      [(demoEvent ''b'', ''eb'', ''kb''), (demoEvent ''c'', ''ec'', ''kc'')] loggedWorld))))"
    by (rule accepted_sequences_increase [OF memOps_honest]) (simp_all add: onlyJournal_def restoredEnv_def loggedWorld_def)
qed code_simp

text \<open>The calls must not overlap. While one call waits for its append, another call of the same recorder
  appends and is receipted at sequence 1; the journal is then restored; the waiting append is
  accepted at sequence 1 as well, and the recorder keeps the other entry as its head and notices
  nothing.\<close>

definition overlapEnv :: "(memJournal, unit) environment" where
  "overlapEnv p w = (if p = BeforeAppend 1
     then (snd (appendEvent memOps demoConfig (\<lambda>_ v. v) False (demoEvent ''b'') (''eb'', ''kb'') w))\<lparr>w_journal := w_journal demoWorld\<rparr>
     else w)"

lemma overlapping_appends_fork:
  "(case appendEvent memOps demoConfig overlapEnv False (demoEvent ''c'') (''ec'', ''kc'') demoWorld of
      (Inr e, w') \<Rightarrow> ec_sequence (se_core e) = 1 \<and> se_eventDigest e = ''ec'' \<and>
        w_committed w' = Some (headFor demoLedger (demoEntry ''b'' 1 (Some ''da'')))
    | _ \<Rightarrow> False)"
  by code_simp

end
