(* ===== verification/Merkle_Path.thy ===== *)
theory Merkle_Path
  imports Radix
begin

text \<open>
  The shape of the RFC 9162 tree of \<open>src/audit/merkle.ts\<close>, without its hashes: where a tree of \<open>n\<close>
  leaves is split (\<open>largestPowerOfTwoLessThan\<close>), the shift its verifiers make on the right edge, and
  the equivalence of the climb along a path, bit by bit from the leaf up, with its reading by
  recursion from the root down.
\<close>

subsection \<open>Where a tree is split\<close>

function largestPowerFrom :: "nat \<Rightarrow> nat \<Rightarrow> nat" where
  "largestPowerFrom pw n = (if 0 < pw \<and> pw * 2 < n then largestPowerFrom (pw * 2) n else pw)"
  by pat_completeness auto

termination
  by (relation "measure (\<lambda>(pw, n). n - pw)") auto

declare largestPowerFrom.simps [simp del]

definition largestPowerOfTwoLessThan :: "nat \<Rightarrow> nat" where
  "largestPowerOfTwoLessThan n = largestPowerFrom 1 n"

lemma largestPowerFrom_spec:
  "2 ^ a < n \<Longrightarrow> \<exists>m. largestPowerFrom (2 ^ a) n = 2 ^ m \<and> 2 ^ m < n \<and> n \<le> 2 ^ Suc m"
proof (induction "n - 2 ^ a" arbitrary: a rule: less_induct)
  case less
  show ?case
  proof (cases "2 ^ Suc a < n")
    case True
    have "(2 :: nat) ^ a < 2 ^ Suc a" by simp
    then have "n - 2 ^ Suc a < n - 2 ^ a" using True by linarith
    from less.hyps [OF this True] show ?thesis
      using True by (simp add: largestPowerFrom.simps [of "2 ^ a"] mult.commute)
  next
    case False
    then show ?thesis using less.prems by (auto simp: largestPowerFrom.simps [of "2 ^ a"] intro!: exI [of _ a])
  qed
qed

lemma split_spec: "1 < n \<Longrightarrow> \<exists>m. largestPowerOfTwoLessThan n = 2 ^ m \<and> 2 ^ m < n \<and> n \<le> 2 ^ Suc m"
  using largestPowerFrom_spec [of 0 n] by (simp add: largestPowerOfTwoLessThan_def)

lemma split_bounds: "1 < n \<Longrightarrow> 0 < largestPowerOfTwoLessThan n \<and> largestPowerOfTwoLessThan n < n"
  using split_spec by fastforce

lemma split_shrinks: "1 < n \<Longrightarrow> n - largestPowerOfTwoLessThan n < n"
  using split_bounds by (metis diff_less less_trans zero_less_one)

subsection \<open>The climb along a path\<close>

function shiftEven :: "nat \<Rightarrow> nat \<Rightarrow> nat \<times> nat" where
  "shiftEven leafPos lastPos =
     (if even leafPos \<and> leafPos \<noteq> 0 then shiftEven (leafPos div 2) (lastPos div 2) else (leafPos, lastPos))"
  by pat_completeness auto

termination
  by (relation "measure fst") auto

declare shiftEven.simps [simp del]

text \<open>
  The climb both verifiers of the tree make: from a node at position \<open>a\<close> of a level whose last
  position is \<open>s\<close>, one digest of the path at a step. \<open>L\<close> joins a sibling on the left, \<open>R\<close> one on the
  right; on the right edge the levels without a sibling are skipped.
\<close>

fun climb :: "('s \<Rightarrow> 'v \<Rightarrow> 'v option) \<Rightarrow> ('v \<Rightarrow> 's \<Rightarrow> 'v option) \<Rightarrow> nat \<Rightarrow> nat \<Rightarrow> 'v \<Rightarrow> 's list \<Rightarrow> 'v option" where
  "climb L R a s v [] = (if s = 0 then Some v else None)"
| "climb L R a s v (x # p) =
     (if s = 0 then None
      else if odd a \<or> a = s
        then Option.bind (L x v) (\<lambda>c. (case shiftEven a s of (a', s') \<Rightarrow> climb L R (a' div 2) (s' div 2) c p))
      else Option.bind (R v x) (\<lambda>c. climb L R (a div 2) (s div 2) c p))"

subsection \<open>The recursive reading of a path\<close>

text \<open>The root an audit path leads to, read from the root down: its last digest is the sibling at
  the top.\<close>

function climbRoot :: "('s \<Rightarrow> 'v \<Rightarrow> 'v option) \<Rightarrow> ('v \<Rightarrow> 's \<Rightarrow> 'v option) \<Rightarrow> nat \<Rightarrow> nat \<Rightarrow> 'v \<Rightarrow> 's list \<Rightarrow> 'v option" where
  "climbRoot L R i n h p =
     (if n \<le> 1 then Some h
      else (let k = largestPowerOfTwoLessThan n
            in if i < k then Option.bind (climbRoot L R i k h (butlast p)) (\<lambda>l. R l (last p))
               else Option.bind (climbRoot L R (i - k) (n - k) h (butlast p)) (L (last p))))"
  by pat_completeness auto

termination
  by (relation "measure (\<lambda>(_, _, _, n, _, _). n)") (use split_bounds in \<open>auto simp: not_le\<close>)

declare climbRoot.simps [simp del]

function pathLength :: "nat \<Rightarrow> nat \<Rightarrow> nat" where
  "pathLength i n =
     (if n \<le> 1 then 0
      else (let k = largestPowerOfTwoLessThan n
            in Suc (if i < k then pathLength i k else pathLength (i - k) (n - k))))"
  by pat_completeness auto

termination
  by (relation "measure (\<lambda>(_, n). n)") (use split_bounds in \<open>auto simp: not_le\<close>)

declare pathLength.simps [simp del]

lemma shiftEven_double: "x \<noteq> 0 \<Longrightarrow> shiftEven (2 * x) (2 * x) = shiftEven x x"
  by (simp add: shiftEven.simps [of "2 * x"])

lemma loop_double: "x \<noteq> 0 \<Longrightarrow> climb L R (2 * x) (2 * x) h p = climb L R x x h p"
  by (cases p) (simp_all add: shiftEven_double)

lemma loop_power: "x \<noteq> 0 \<Longrightarrow> climb L R (2 ^ j * x) (2 ^ j * x) h p = climb L R x x h p"
proof (induction j)
  case (Suc j)
  then show ?case using loop_double [of "2 ^ j * x" L R h p] by (simp add: mult.assoc)
qed simp

lemma split_power: "largestPowerOfTwoLessThan (2 ^ Suc m) = 2 ^ m"
proof -
  have "1 < (2 :: nat) ^ Suc m" by (rule one_less_power) simp_all
  then obtain j where j: "largestPowerOfTwoLessThan (2 ^ Suc m) = 2 ^ j" "(2::nat) ^ j < 2 ^ Suc m" "(2::nat) ^ Suc m \<le> 2 ^ Suc j"
    using split_spec by blast
  have "j < Suc m" by (rule power_less_imp_less_exp [OF _ j(2)]) simp
  moreover have "Suc m \<le> Suc j" by (rule power_le_imp_le_exp [OF _ j(3)]) simp
  ultimately show ?thesis using j(1) by simp
qed

text \<open>A complete subtree with further leaves to its right: the loop moves up one level a step.\<close>

lemma loop_complete:
  assumes "i < 2 ^ m" and "(b + 1) * 2 ^ m \<le> s" and "length p = pathLength i (2 ^ m)"
  shows "climb L R (b * 2 ^ m + i) s h (p @ rest) =
    Option.bind (climbRoot L R i (2 ^ m) h p) (\<lambda>r. climb L R b (s div 2 ^ m) r rest)"
  using assms
proof (induction m arbitrary: i b s p rest)
  case 0
  then show ?case by (simp add: pathLength.simps climbRoot.simps)
next
  case (Suc m)
  have n1: "\<not> (2 :: nat) ^ Suc m \<le> 1" unfolding not_le by (rule one_less_power) simp_all
  note k = split_power [of m]
  have pl: "pathLength i (2 ^ Suc m) =
      Suc (if i < 2 ^ m then pathLength i (2 ^ m) else pathLength (i - 2 ^ m) (2 ^ m))"
    by (subst pathLength.simps) (use n1 k in \<open>simp add: Let_def\<close>)
  have pr: "climbRoot L R i (2 ^ Suc m) h z =
      (if i < 2 ^ m then Option.bind (climbRoot L R i (2 ^ m) h (butlast z)) (\<lambda>l. R l (last z))
       else Option.bind (climbRoot L R (i - 2 ^ m) (2 ^ m) h (butlast z)) (L (last z)))" for z
    by (subst climbRoot.simps) (use n1 k in \<open>simp add: Let_def\<close>)
  from Suc.prems(3) obtain q x where p: "p = q @ [x]"
    unfolding pl by (cases p rule: rev_cases) auto
  have up: "s div 2 ^ m div 2 = s div 2 ^ Suc m" by (simp add: div_mult2_eq [symmetric] mult.commute)
  show ?case
  proof (cases "i < 2 ^ m")
    case True
    have len: "length q = pathLength i (2 ^ m)"
      using Suc.prems(3) True p by (simp only: pl) simp
    have s: "(2 * b + 1) * 2 ^ m \<le> s" using Suc.prems(2) by (simp add: algebra_simps)
    have "2 * b + 1 \<le> s div 2 ^ m" using s by (simp add: less_eq_div_iff_mult_less_eq)
    moreover have "(2 * b + 2) * 2 ^ m \<le> s" using Suc.prems(2) by (simp add: algebra_simps)
    then have "2 * b + 2 \<le> s div 2 ^ m" by (simp add: less_eq_div_iff_mult_less_eq)
    ultimately have step: "climb L R (2 * b) (s div 2 ^ m) r (x # rest) =
        Option.bind (R r x) (\<lambda>c. climb L R b (s div 2 ^ Suc m) c rest)" for r
      by (simp add: up)
    have "climb L R ((2 * b) * 2 ^ m + i) s h (q @ (x # rest)) =
        Option.bind (climbRoot L R i (2 ^ m) h q) (\<lambda>r. climb L R (2 * b) (s div 2 ^ m) r (x # rest))"
      by (rule Suc.IH [OF True _ len]) (use s in simp)
    moreover have "(2 * b) * 2 ^ m + i = b * 2 ^ Suc m + i" by simp
    ultimately show ?thesis using True p by (simp only: pr step append_assoc append_Cons append_Nil butlast_snoc last_snoc if_True Option.bind_assoc)
  next
    case False
    have i': "i - 2 ^ m < 2 ^ m" using Suc.prems(1) False by simp
    have len: "length q = pathLength (i - 2 ^ m) (2 ^ m)"
      using Suc.prems(3) False p by (simp only: pl) simp
    have s: "(2 * b + 1 + 1) * 2 ^ m \<le> s" using Suc.prems(2) by (simp add: algebra_simps)
    then have "2 * b + 2 \<le> s div 2 ^ m" by (simp add: less_eq_div_iff_mult_less_eq)
    then have step: "climb L R (2 * b + 1) (s div 2 ^ m) r (x # rest) =
        Option.bind (L x r) (\<lambda>c. climb L R b (s div 2 ^ Suc m) c rest)" for r
      by (simp add: up shiftEven.simps)
    have "climb L R ((2 * b + 1) * 2 ^ m + (i - 2 ^ m)) s h (q @ (x # rest)) =
        Option.bind (climbRoot L R (i - 2 ^ m) (2 ^ m) h q) (\<lambda>r. climb L R (2 * b + 1) (s div 2 ^ m) r (x # rest))"
      by (rule Suc.IH [OF i' s len])
    moreover have "(2 * b + 1) * 2 ^ m + (i - 2 ^ m) = b * 2 ^ Suc m + i" using False by (simp add: algebra_simps)
    ultimately show ?thesis using False p by (simp only: pr step append_assoc append_Cons append_Nil butlast_snoc last_snoc if_False Option.bind_assoc)
  qed
qed

lemma path_split:
  assumes "1 < n" and "length p = pathLength i n"
  obtains m q x where "largestPowerOfTwoLessThan n = 2 ^ m" "2 ^ m < n" "n \<le> 2 ^ Suc m" "p = q @ [x]"
    "length q = (if i < 2 ^ m then pathLength i (2 ^ m) else pathLength (i - 2 ^ m) (n - 2 ^ m))"
    "\<And>h. climbRoot L R i n h p =
      (if i < 2 ^ m then Option.bind (climbRoot L R i (2 ^ m) h q) (\<lambda>l. R l x)
       else Option.bind (climbRoot L R (i - 2 ^ m) (n - 2 ^ m) h q) (L x))"
proof -
  from split_spec [OF assms(1)] obtain m
    where m: "largestPowerOfTwoLessThan n = 2 ^ m" "2 ^ m < n" "n \<le> 2 ^ Suc m" by blast
  have pl: "pathLength i n = Suc (if i < 2 ^ m then pathLength i (2 ^ m) else pathLength (i - 2 ^ m) (n - 2 ^ m))"
    by (subst pathLength.simps) (use assms(1) m(1) in \<open>simp add: Let_def\<close>)
  obtain q x where p: "p = q @ [x]" using assms(2) unfolding pl by (cases p rule: rev_cases) auto
  show thesis
    by (rule that [OF m p])
      (use assms p pl in \<open>simp_all add: climbRoot.simps [of _ _ i n] m(1) Let_def\<close>)
qed

lemma split_position:
  assumes "2 ^ m < n" and "n \<le> 2 ^ Suc m"
  shows "(c * 2 ^ Suc m + n - 1) div 2 ^ m = 2 * c + (1 :: nat)"
proof -
  have "c * 2 ^ Suc m + n - 1 = (2 * c + 1) * 2 ^ m + (n - 1 - 2 ^ m)" using assms(1) by (simp add: algebra_simps)
  moreover have "n - 1 - 2 ^ m < 2 ^ m" using assms by simp
  ultimately show ?thesis by (metis add.commute div_less div_mult_self1 add_0_right power_not_zero zero_neq_numeral)
qed

text \<open>The last, possibly incomplete, subtree of a tree with leaves before it.\<close>

lemma loop_last:
  assumes "2 ^ M dvd B" and "0 < B" and "n \<le> 2 ^ M" and "i < n" and "length p = pathLength i n"
  shows "climb L R (B + i) (B + n - 1) h (p @ rest) =
    Option.bind (climbRoot L R i n h p) (\<lambda>r. climb L R B B r rest)"
  using assms
proof (induction n arbitrary: i B M p rest rule: less_induct)
  case (less n)
  show ?case
  proof (cases "n \<le> 1")
    case True
    then have "n = 1" using less.prems(4) by simp
    then show ?thesis using less.prems by (simp add: pathLength.simps climbRoot.simps)
  next
    case False
    then have "1 < n" by simp
    then obtain m q x where m: "2 ^ m < n" "n \<le> 2 ^ Suc m" and p: "p = q @ [x]"
      and len: "length q = (if i < 2 ^ m then pathLength i (2 ^ m) else pathLength (i - 2 ^ m) (n - 2 ^ m))"
      and pr: "\<And>h. climbRoot L R i n h p =
        (if i < 2 ^ m then Option.bind (climbRoot L R i (2 ^ m) h q) (\<lambda>l. R l x)
         else Option.bind (climbRoot L R (i - 2 ^ m) (n - 2 ^ m) h q) (L x))"
      by (rule path_split [where L = L and R = R, OF _ less.prems(5)]) blast
    have app: "p @ rest = q @ (x # rest)" using p by simp
    have "(2 :: nat) ^ m < 2 ^ M" using m(1) less.prems(3) by (rule less_le_trans)
    then have "m < M" by simp
    then have "(2 :: nat) ^ Suc m dvd 2 ^ M" by (intro le_imp_power_dvd) simp
    then have "2 ^ Suc m dvd B" using less.prems(1) by (rule dvd_trans)
    then obtain c where c: "B = c * 2 ^ Suc m" by (metis dvdE mult.commute)
    then have c0: "c \<noteq> 0" using less.prems(2) by auto
    have end_pos: "climb L R B B r rest = climb L R c c r rest" for r
      using loop_power [OF c0, of L R "Suc m" r rest] unfolding c by (simp only: mult.commute)
    show ?thesis
    proof (cases "i < 2 ^ m")
      case True
      have pos: "(B + n - 1) div 2 ^ m = 2 * c + 1" unfolding c by (rule split_position [OF m])
      have step: "climb L R (2 * c) (2 * c + 1) r (x # rest) =
          Option.bind (R r x) (\<lambda>d. climb L R c c d rest)" for r by simp
      have "climb L R (2 * c * 2 ^ m + i) (B + n - 1) h (q @ (x # rest)) =
          Option.bind (climbRoot L R i (2 ^ m) h q)
            (\<lambda>r. climb L R (2 * c) ((B + n - 1) div 2 ^ m) r (x # rest))"
        by (rule loop_complete [OF True]) (use c m(1) len True in \<open>simp_all add: algebra_simps\<close>)
      moreover have "2 * c * 2 ^ m + i = B + i" unfolding c by simp
      ultimately show ?thesis
        using app by (simp only: pr True if_True pos step end_pos Option.bind_assoc)
    next
      case False
      have B: "B + 2 ^ m = 2 ^ m * (2 * c + 1)" unfolding c by (simp add: algebra_simps)
      have step: "climb L R (B + 2 ^ m) (B + 2 ^ m) r (x # rest) =
          Option.bind (L x r) (\<lambda>d. climb L R c c d rest)" for r
      proof -
        have "climb L R (2 * c + 1) (2 * c + 1) r (x # rest) =
            Option.bind (L x r) (\<lambda>d. climb L R c c d rest)"
          by (simp add: shiftEven.simps)
        then show ?thesis unfolding B using loop_power [of "2 * c + 1" L R m r "x # rest"] by simp
      qed
      have "climb L R (B + 2 ^ m + (i - 2 ^ m)) (B + 2 ^ m + (n - 2 ^ m) - 1) h (q @ (x # rest)) =
          Option.bind (climbRoot L R (i - 2 ^ m) (n - 2 ^ m) h q)
            (\<lambda>r. climb L R (B + 2 ^ m) (B + 2 ^ m) r (x # rest))"
        by (rule less.IH [where M = m]) (use m less.prems(4) len False in \<open>simp_all add: B\<close>)
      moreover have "B + 2 ^ m + (i - 2 ^ m) = B + i" "B + 2 ^ m + (n - 2 ^ m) - 1 = B + n - 1"
        using False m(1) by simp_all
      ultimately show ?thesis
        using app False by (simp only: pr if_False step end_pos Option.bind_assoc)
    qed
  qed
qed

lemma loop_whole:
  assumes "i < n" and "length p = pathLength i n"
  shows "climb L R i (n - 1) h p = climbRoot L R i n h p"
proof (cases "n \<le> 1")
  case True
  then have "n = 1" using assms(1) by simp
  then show ?thesis using assms by (simp add: pathLength.simps climbRoot.simps)
next
  case False
  then have "1 < n" by simp
  then obtain m q x where m: "2 ^ m < n" "n \<le> 2 ^ Suc m" and p: "p = q @ [x]"
    and len: "length q = (if i < 2 ^ m then pathLength i (2 ^ m) else pathLength (i - 2 ^ m) (n - 2 ^ m))"
    and pr: "\<And>h. climbRoot L R i n h p =
      (if i < 2 ^ m then Option.bind (climbRoot L R i (2 ^ m) h q) (\<lambda>l. R l x)
       else Option.bind (climbRoot L R (i - 2 ^ m) (n - 2 ^ m) h q) (L x))"
    by (rule path_split [where L = L and R = R, OF _ assms(2)]) blast
  show ?thesis
  proof (cases "i < 2 ^ m")
    case True
    have pos: "(n - 1) div 2 ^ m = 1" using split_position [OF m, of 0] by simp
    have "climb L R i (n - 1) h (q @ [x]) =
        Option.bind (climbRoot L R i (2 ^ m) h q) (\<lambda>r. climb L R 0 ((n - 1) div 2 ^ m) r [x])"
      using loop_complete [OF True, of 0 "n - 1" q L R h "[x]"] m(1) len True by simp
    also have "\<dots> = Option.bind (climbRoot L R i (2 ^ m) h q) (\<lambda>l. R l x)" by (simp only: pos) simp
    finally show ?thesis using True by (simp only: pr p [symmetric] if_True)
  next
    case False
    have step: "climb L R (2 ^ m) (2 ^ m) r [x] = L x r" for r
      using loop_power [of 1 L R m r "[x]"] by (simp add: shiftEven.simps)
    have "climb L R (2 ^ m + (i - 2 ^ m)) (2 ^ m + (n - 2 ^ m) - 1) h (q @ [x]) =
        Option.bind (climbRoot L R (i - 2 ^ m) (n - 2 ^ m) h q) (\<lambda>r. climb L R (2 ^ m) (2 ^ m) r [x])"
      by (rule loop_last [where M = m]) (use m assms(1) len False in simp_all)
    then have "climb L R i (n - 1) h p =
        Option.bind (climbRoot L R (i - 2 ^ m) (n - 2 ^ m) h q) (L x)"
      using False p m(1) by (simp add: step del: climb.simps)
    then show ?thesis using False by (simp only: pr if_False)
  qed
qed

text \<open>How many digests the loop consumes depends on the positions only.\<close>

lemma loop_length:
  "climb L R a s h p = Some r \<Longrightarrow> climb L' R' a s h' p' = Some r' \<Longrightarrow> length p = length p'"
proof (induction p arbitrary: a s h p' h')
  case Nil
  then show ?case by (cases p') (auto split: if_splits)
next
  case (Cons x p)
  from Cons.prems obtain y q where p': "p' = y # q" by (cases p') (auto split: if_splits)
  show ?case
  proof (cases "odd a \<or> a = s")
    case True
    obtain a' s' where sh: "shiftEven a s = (a', s')" by (cases "shiftEven a s")
    from Cons.prems True obtain d d' where "climb L R (a' div 2) (s' div 2) d p = Some r"
      "climb L' R' (a' div 2) (s' div 2) d' q = Some r'"
      by (auto simp: p' sh bind_eq_Some_conv split: if_splits)
    then show ?thesis using Cons.IH p' by simp
  next
    case False
    with Cons.prems obtain d d' where "climb L R (a div 2) (s div 2) d p = Some r"
      "climb L' R' (a div 2) (s div 2) d' q = Some r'"
      by (auto simp: p' bind_eq_Some_conv split: if_splits)
    then show ?thesis using Cons.IH p' by simp
  qed
qed

lemma climbRoot_some: "i < n \<Longrightarrow> length p = pathLength i n \<Longrightarrow> climbRoot (\<lambda>_ _. Some v) (\<lambda>_ _. Some v) i n v p = Some v"
proof (induction n arbitrary: i p rule: less_induct)
  case (less n)
  show ?case
  proof (cases "n \<le> 1")
    case True
    then show ?thesis by (simp add: climbRoot.simps)
  next
    case False
    then have n: "1 < n" by simp
    note b = split_bounds [OF n] split_shrinks [OF n]
    have "length (butlast p) = (let k = largestPowerOfTwoLessThan n in if i < k then pathLength i k else pathLength (i - k) (n - k))"
      using less.prems(2) False by (simp add: pathLength.simps [of i n] Let_def)
    then show ?thesis
      using b less.IH [of "largestPowerOfTwoLessThan n" i "butlast p"]
        less.IH [of "n - largestPowerOfTwoLessThan n" "i - largestPowerOfTwoLessThan n" "butlast p"] less.prems(1) False
      by (simp add: climbRoot.simps [of _ _ i n] Let_def del: butlast.simps last.simps)
  qed
qed

lemma loop_path_length:
  assumes "i < n" and "climb L R i (n - 1) h p = Some r"
  shows "length p = pathLength i n"
proof -
  have "climb (\<lambda>_ _. Some ()) (\<lambda>_ _. Some ()) i (n - 1) () (replicate (pathLength i n) ()) = Some ()"
    using loop_whole [OF assms(1)] climbRoot_some [OF assms(1)] by (metis length_replicate)
  from loop_length [OF assms(2) this] show ?thesis by simp
qed

lemma loop_iff:
  "i < n \<Longrightarrow> climb L R i (n - 1) h p = Some r \<longleftrightarrow> length p = pathLength i n \<and> climbRoot L R i n h p = Some r"
  using loop_path_length loop_whole by metis

end
