(* ===== verification/Merkle.thy ===== *)
theory Merkle
  imports Merkle_Path
begin

text \<open>
  \<open>src/audit/merkle.ts\<close>: the RFC 9162 Merkle tree over entry digests. A digest is its text
  \<open>sha256:\<close> followed by 64 lower-case hexadecimal digits; the hash function, from bytes to such a
  text, is the parameter \<open>sha\<close>. An operation that throws is \<open>None\<close>.
\<close>

subsection \<open>Digest texts\<close>

definition digestBytes :: "string \<Rightarrow> bytes option" where
  "digestBytes d =
     (if take 7 d = ''sha256:'' \<and> length d = 71 then hexBytes (drop 7 d) else None)"

subsection \<open>The tree\<close>

text \<open>The byte strings that are hashed.\<close>

definition leafInput :: "string \<Rightarrow> bytes option" where
  "leafInput d = map_option (\<lambda>b. 0x00 # b) (digestBytes d)"

definition nodeInput :: "string \<Rightarrow> string \<Rightarrow> bytes option" where
  "nodeInput l r = (case (digestBytes l, digestBytes r) of
     (Some a, Some b) \<Rightarrow> Some (0x01 # a @ b) | _ \<Rightarrow> None)"

definition leafHash :: "(bytes \<Rightarrow> string) \<Rightarrow> string \<Rightarrow> string option" where
  "leafHash sha d = map_option sha (leafInput d)"

definition nodeHash :: "(bytes \<Rightarrow> string) \<Rightarrow> string \<Rightarrow> string \<Rightarrow> string option" where
  "nodeHash sha l r = map_option sha (nodeInput l r)"

definition bindNode :: "(bytes \<Rightarrow> string) \<Rightarrow> string option \<Rightarrow> string option \<Rightarrow> string option" where
  "bindNode sha l r = Option.bind l (\<lambda>x. Option.bind r (nodeHash sha x))"

lemma length_not_short: "leaves \<noteq> [] \<Longrightarrow> length leaves \<noteq> 1 \<Longrightarrow> 1 < length leaves"
  by (cases leaves) auto

function merkleRoot :: "(bytes \<Rightarrow> string) \<Rightarrow> string list \<Rightarrow> string option" where
  "merkleRoot sha leaves =
     (if leaves = [] then Some (sha [])
      else if length leaves = 1 then leafHash sha (leaves ! 0)
      else (let k = largestPowerOfTwoLessThan (length leaves)
            in bindNode sha (merkleRoot sha (take k leaves)) (merkleRoot sha (drop k leaves))))"
  by pat_completeness auto

termination
  by (relation "measure (\<lambda>(_, leaves). length leaves)")
    (use length_not_short split_bounds in \<open>auto simp: Suc_lessI\<close>)

declare merkleRoot.simps [simp del]

text \<open>
  On a list the source cannot split, an empty one here and a list of at most one leaf in
  \<open>buildConsistencyProof\<close>, its recursion exhausts the stack and the call rejects; no call
  reaches that case.
\<close>

function buildInclusionProof :: "(bytes \<Rightarrow> string) \<Rightarrow> string list \<Rightarrow> nat \<Rightarrow> string list option" where
  "buildInclusionProof sha leaves i =
     (if length leaves = 1 then Some []
      else if leaves = [] then None
      else (let k = largestPowerOfTwoLessThan (length leaves)
            in if i < k
               then Option.bind (buildInclusionProof sha (take k leaves) i) (\<lambda>path.
                 map_option (\<lambda>sibling. path @ [sibling]) (merkleRoot sha (drop k leaves)))
               else Option.bind (buildInclusionProof sha (drop k leaves) (i - k)) (\<lambda>path.
                 map_option (\<lambda>sibling. path @ [sibling]) (merkleRoot sha (take k leaves)))))"
  by pat_completeness auto

termination
  by (relation "measure (\<lambda>(_, leaves, _). length leaves)")
    (use length_not_short split_bounds in \<open>auto simp: Suc_lessI\<close>)

declare buildInclusionProof.simps [simp del]

definition validSize :: "js_number \<Rightarrow> nat option" where
  "validSize n = (case n of JsNonInteger \<Rightarrow> None
     | JsInteger i \<Rightarrow> if i < 0 \<or> int MAX_SAFE_INTEGER < i then None else Some (nat i))"

definition inclusionProof :: "(bytes \<Rightarrow> string) \<Rightarrow> string list \<Rightarrow> js_number \<Rightarrow> string list option" where
  "inclusionProof sha leaves index = (case validSize index of
       None \<Rightarrow> None
     | Some i \<Rightarrow> if leaves = [] \<or> length leaves \<le> i then None else buildInclusionProof sha leaves i)"

subsection \<open>Verifying an inclusion\<close>

fun inclusionLoop :: "(bytes \<Rightarrow> string) \<Rightarrow> nat \<Rightarrow> nat \<Rightarrow> string \<Rightarrow> string list \<Rightarrow> string option" where
  "inclusionLoop sha leafPos lastPos calculated [] = (if lastPos = 0 then Some calculated else None)"
| "inclusionLoop sha leafPos lastPos calculated (sibling # path) =
     (if lastPos = 0 then None
      else if odd leafPos \<or> leafPos = lastPos
        then Option.bind (nodeHash sha sibling calculated) (\<lambda>c.
          (case shiftEven leafPos lastPos of (a, b) \<Rightarrow> inclusionLoop sha (a div 2) (b div 2) c path))
      else Option.bind (nodeHash sha calculated sibling) (\<lambda>c.
          inclusionLoop sha (leafPos div 2) (lastPos div 2) c path))"

record inclusionVerification =
  iv_leaf :: string
  iv_leafIndex :: js_number
  iv_treeSize :: js_number
  iv_root :: string
  iv_auditPath :: "string list"

definition verifyInclusion :: "(bytes \<Rightarrow> string) \<Rightarrow> inclusionVerification \<Rightarrow> bool" where
  "verifyInclusion sha v = (case (validSize (iv_leafIndex v), validSize (iv_treeSize v)) of
       (Some i, Some n) \<Rightarrow>
         (if n = 0 \<or> n \<le> i then False
          else Option.bind (leafHash sha (iv_leaf v)) (\<lambda>h. inclusionLoop sha i (n - 1) h (iv_auditPath v)) = Some (iv_root v))
     | _ \<Rightarrow> False)"

subsection \<open>Consistency\<close>

function buildConsistencyProof :: "(bytes \<Rightarrow> string) \<Rightarrow> nat \<Rightarrow> string list \<Rightarrow> bool \<Rightarrow> string list option" where
  "buildConsistencyProof sha oldSize leaves complete =
     (if oldSize = length leaves
      then (if complete then Some [] else map_option (\<lambda>r. [r]) (merkleRoot sha leaves))
      else if length leaves \<le> 1 then None
      else (let k = largestPowerOfTwoLessThan (length leaves)
            in if oldSize \<le> k
               then Option.bind (buildConsistencyProof sha oldSize (take k leaves) complete) (\<lambda>path.
                 map_option (\<lambda>r. path @ [r]) (merkleRoot sha (drop k leaves)))
               else Option.bind (buildConsistencyProof sha (oldSize - k) (drop k leaves) False) (\<lambda>path.
                 map_option (\<lambda>r. path @ [r]) (merkleRoot sha (take k leaves)))))"
  by pat_completeness auto

termination
  by (relation "measure (\<lambda>(_, _, leaves, _). length leaves)")
    (use split_bounds in \<open>auto simp: not_le intro!: split_shrinks\<close>)

declare buildConsistencyProof.simps [simp del]

definition consistencyProof :: "(bytes \<Rightarrow> string) \<Rightarrow> string list \<Rightarrow> js_number \<Rightarrow> string list option" where
  "consistencyProof sha leaves oldSize = (case validSize oldSize of
       None \<Rightarrow> None
     | Some n \<Rightarrow> if n = 0 \<or> length leaves < n then None
         else if n = length leaves then Some [] else buildConsistencyProof sha n leaves True)"

function shiftOdd :: "nat \<Rightarrow> nat \<Rightarrow> nat \<times> nat" where
  "shiftOdd oldNode newNode = (if odd oldNode then shiftOdd (oldNode div 2) (newNode div 2) else (oldNode, newNode))"
  by pat_completeness auto

termination
  by (relation "measure fst") (auto simp: odd_pos)

declare shiftOdd.simps [simp del]

fun consistencyLoop ::
  "(bytes \<Rightarrow> string) \<Rightarrow> nat \<Rightarrow> nat \<Rightarrow> string \<Rightarrow> string \<Rightarrow> string list \<Rightarrow> (string \<times> string) option" where
  "consistencyLoop sha oldNode newNode oldHash newHash [] = (if newNode = 0 then Some (oldHash, newHash) else None)"
| "consistencyLoop sha oldNode newNode oldHash newHash (sibling # path) =
     (if newNode = 0 then None
      else if odd oldNode \<or> oldNode = newNode
        then Option.bind (nodeHash sha sibling oldHash) (\<lambda>ho. Option.bind (nodeHash sha sibling newHash) (\<lambda>hn.
          (case shiftEven oldNode newNode of (a, b) \<Rightarrow> consistencyLoop sha (a div 2) (b div 2) ho hn path)))
      else Option.bind (nodeHash sha newHash sibling) (\<lambda>hn.
          consistencyLoop sha (oldNode div 2) (newNode div 2) oldHash hn path))"

record consistencyVerification =
  cv_oldSize :: js_number
  cv_newSize :: js_number
  cv_oldRoot :: string
  cv_newRoot :: string
  cv_auditPath :: "string list"

definition verifyConsistency :: "(bytes \<Rightarrow> string) \<Rightarrow> consistencyVerification \<Rightarrow> bool" where
  "verifyConsistency sha v = (case (validSize (cv_oldSize v), validSize (cv_newSize v)) of
       (Some m, Some n) \<Rightarrow>
         (if m = 0 \<or> n < m then False
          else if m = n then cv_auditPath v = [] \<and> cv_oldRoot v = cv_newRoot v
          else (case shiftOdd (m - 1) (n - 1) of (oldNode, newNode) \<Rightarrow>
            (if oldNode = 0
             then consistencyLoop sha oldNode newNode (cv_oldRoot v) (cv_oldRoot v) (cv_auditPath v) =
               Some (cv_oldRoot v, cv_newRoot v)
             else (case cv_auditPath v of
                 [] \<Rightarrow> False
               | first # path \<Rightarrow> consistencyLoop sha oldNode newNode first first path = Some (cv_oldRoot v, cv_newRoot v)))))
     | _ \<Rightarrow> False)"

subsection \<open>The recursive reading of a path\<close>

text \<open>The root an audit path leads to, read from the root down.\<close>

definition pathRoot :: "(bytes \<Rightarrow> string) \<Rightarrow> nat \<Rightarrow> nat \<Rightarrow> string \<Rightarrow> string list \<Rightarrow> string option" where
  "pathRoot sha = climbRoot (nodeHash sha) (nodeHash sha)"

lemma pathRoot_simps: "pathRoot sha i n h p =
     (if n \<le> 1 then Some h
      else (let k = largestPowerOfTwoLessThan n
            in if i < k then Option.bind (pathRoot sha i k h (butlast p)) (\<lambda>l. nodeHash sha l (last p))
               else Option.bind (pathRoot sha (i - k) (n - k) h (butlast p)) (nodeHash sha (last p))))"
  unfolding pathRoot_def by (subst climbRoot.simps) simp

lemma inclusionLoop_climb: "inclusionLoop sha a s h p = climb (nodeHash sha) (nodeHash sha) a s h p"
  by (induction p arbitrary: a s h) (simp_all split: prod.split)

lemma inclusion_iff:
  "i < n \<Longrightarrow> inclusionLoop sha i (n - 1) h p = Some r \<longleftrightarrow> length p = pathLength i n \<and> pathRoot sha i n h p = Some r"
  unfolding inclusionLoop_climb pathRoot_def by (rule loop_iff)

subsection \<open>Completeness of inclusion proofs\<close>

text \<open>A text that is a digest: \<open>sha256:\<close> and 64 lower-case hexadecimal digits.\<close>

definition isDigest :: "string \<Rightarrow> bool" where
  "isDigest d \<longleftrightarrow> digestBytes d \<noteq> None"

lemma leafHash_digest: "isDigest d \<Longrightarrow> \<exists>h. leafHash sha d = Some h"
  by (auto simp: isDigest_def leafHash_def leafInput_def)

lemma nodeHash_digest: "isDigest l \<Longrightarrow> isDigest r \<Longrightarrow> \<exists>h. nodeHash sha l r = Some h"
  by (auto simp: isDigest_def nodeHash_def nodeInput_def)

lemma hash_is_digest:
  assumes "\<And>b. isDigest (sha b)"
  shows "leafHash sha d = Some h \<Longrightarrow> isDigest h" "nodeHash sha l r = Some h \<Longrightarrow> isDigest h"
  using assms by (auto simp: leafHash_def nodeHash_def)

lemma merkleRoot_single: "merkleRoot sha [d] = leafHash sha d"
  by (simp add: merkleRoot.simps)

lemma merkleRoot_split:
  assumes "1 < length leaves"
  shows "merkleRoot sha leaves = (let k = largestPowerOfTwoLessThan (length leaves)
    in bindNode sha (merkleRoot sha (take k leaves)) (merkleRoot sha (drop k leaves)))"
  using assms by (subst merkleRoot.simps) auto

lemma buildInclusionProof_split:
  assumes "1 < length leaves"
  shows "buildInclusionProof sha leaves i = (let k = largestPowerOfTwoLessThan (length leaves)
    in if i < k
       then Option.bind (buildInclusionProof sha (take k leaves) i) (\<lambda>path.
         map_option (\<lambda>sibling. path @ [sibling]) (merkleRoot sha (drop k leaves)))
       else Option.bind (buildInclusionProof sha (drop k leaves) (i - k)) (\<lambda>path.
         map_option (\<lambda>sibling. path @ [sibling]) (merkleRoot sha (take k leaves))))"
  using assms by (subst buildInclusionProof.simps) auto

lemma merkleRoot_total:
  assumes "\<And>b. isDigest (sha b)"
  shows "list_all isDigest leaves \<Longrightarrow> \<exists>r. merkleRoot sha leaves = Some r \<and> isDigest r"
proof (induction "length leaves" arbitrary: leaves rule: less_induct)
  case less
  consider "leaves = []" | d where "leaves = [d]" | "1 < length leaves"
    by (cases leaves; cases "tl leaves") auto
  then show ?case
  proof cases
    case 1
    then show ?thesis using assms by (simp add: merkleRoot.simps)
  next
    case 2
    then show ?thesis using less.prems leafHash_digest hash_is_digest(1) [OF assms]
      by (fastforce simp: merkleRoot_single)
  next
    case 3
    let ?k = "largestPowerOfTwoLessThan (length leaves)"
    note b = split_bounds [OF 3] split_shrinks [OF 3]
    have "list_all isDigest (take ?k leaves)" "list_all isDigest (drop ?k leaves)"
      using less.prems by (auto simp: list_all_iff dest: in_set_takeD in_set_dropD)
    then obtain l r where "merkleRoot sha (take ?k leaves) = Some l" "isDigest l"
      "merkleRoot sha (drop ?k leaves) = Some r" "isDigest r"
      using less.hyps [of "take ?k leaves"] less.hyps [of "drop ?k leaves"] b by auto
    then show ?thesis
      using nodeHash_digest [of l r sha] hash_is_digest(2) [OF assms]
      by (fastforce simp: merkleRoot_split [OF 3] Let_def bindNode_def)
  qed
qed

lemma buildInclusionProof_total:
  assumes "\<And>b. isDigest (sha b)"
  shows "list_all isDigest leaves \<Longrightarrow> i < length leaves \<Longrightarrow> \<exists>p. buildInclusionProof sha leaves i = Some p"
proof (induction "length leaves" arbitrary: leaves i rule: less_induct)
  case less
  consider "length leaves = 1" | "1 < length leaves" using less.prems(2) by (cases "length leaves"; cases "length leaves = 1") auto
  then show ?case
  proof cases
    case 1
    then show ?thesis by (simp add: buildInclusionProof.simps)
  next
    case 2
    let ?k = "largestPowerOfTwoLessThan (length leaves)"
    note b = split_bounds [OF 2] split_shrinks [OF 2]
    have ds: "list_all isDigest (take ?k leaves)" "list_all isDigest (drop ?k leaves)"
      using less.prems by (auto simp: list_all_iff dest: in_set_takeD in_set_dropD)
    then obtain l r where "merkleRoot sha (take ?k leaves) = Some l" "merkleRoot sha (drop ?k leaves) = Some r"
      using merkleRoot_total [of sha, OF assms] by blast
    then show ?thesis
      using less.hyps [of "take ?k leaves" i] less.hyps [of "drop ?k leaves" "i - ?k"] b less.prems(2) ds
        diff_less_mono [OF less.prems(2), of ?k]
      by (cases "i < ?k") (auto simp: buildInclusionProof_split [OF 2] Let_def)
  qed
qed

lemma proof_leads_to_root:
  "buildInclusionProof sha leaves i = Some p \<Longrightarrow> merkleRoot sha leaves = Some r \<Longrightarrow> i < length leaves \<Longrightarrow>
    length p = pathLength i (length leaves) \<and>
    (\<exists>h. leafHash sha (leaves ! i) = Some h \<and> pathRoot sha i (length leaves) h p = Some r)"
proof (induction "length leaves" arbitrary: leaves i p r rule: less_induct)
  case less
  consider d where "leaves = [d]" | "1 < length leaves"
    using less.prems(3) by (cases leaves; cases "tl leaves") auto
  then show ?case
  proof cases
    case 1
    then show ?thesis using less.prems
      by (simp add: buildInclusionProof.simps merkleRoot_single pathLength.simps pathRoot_simps)
  next
    case 2
    let ?n = "length leaves"
    let ?k = "largestPowerOfTwoLessThan ?n"
    note b = split_bounds [OF 2] split_shrinks [OF 2]
    from less.prems(2) obtain x y where xy: "merkleRoot sha (take ?k leaves) = Some x"
      "merkleRoot sha (drop ?k leaves) = Some y" "nodeHash sha x y = Some r"
      by (auto simp: merkleRoot_split [OF 2] Let_def bindNode_def bind_eq_Some_conv)
    note unfold = pathLength.simps [of i ?n] pathRoot_simps [of sha i ?n] buildInclusionProof_split [OF 2]
    show ?thesis
    proof (cases "i < ?k")
      case True
      with less.prems(1) xy obtain q where q: "buildInclusionProof sha (take ?k leaves) i = Some q" "p = q @ [y]"
        by (auto simp: unfold Let_def bind_eq_Some_conv)
      have "length q = pathLength i (length (take ?k leaves)) \<and>
          (\<exists>h. leafHash sha (take ?k leaves ! i) = Some h \<and> pathRoot sha i (length (take ?k leaves)) h q = Some x)"
        by (rule less.hyps [OF _ q(1) xy(1)]) (use b True in auto)
      then show ?thesis using 2 b True q xy(3) by (auto simp: unfold Let_def min_def)
    next
      case False
      with less.prems(1) xy obtain q where q: "buildInclusionProof sha (drop ?k leaves) (i - ?k) = Some q" "p = q @ [x]"
        by (auto simp: unfold Let_def bind_eq_Some_conv)
      have "length q = pathLength (i - ?k) (length (drop ?k leaves)) \<and>
          (\<exists>h. leafHash sha (drop ?k leaves ! (i - ?k)) = Some h \<and>
            pathRoot sha (i - ?k) (length (drop ?k leaves)) h q = Some y)"
        by (rule less.hyps [OF _ q(1) xy(2)]) (use b False less.prems(3) in auto)
      then show ?thesis using 2 b False q xy(3) less.prems(3) by (auto simp: unfold Let_def)
    qed
  qed
qed

lemma validSize_int: "n \<le> MAX_SAFE_INTEGER \<Longrightarrow> validSize (JsInteger (int n)) = Some n"
  by (simp add: validSize_def)


text \<open>A hash for the witnesses: the sum of the bytes, written as a digest.\<close>

definition checksum :: "bytes \<Rightarrow> string" where
  "checksum b = (let v = unat (sum_list b) in
     ''sha256:'' @ replicate 62 CHR ''0'' @ [hexAlphabet ! (v div 16), hexAlphabet ! (v mod 16)])"

lemma hexBytes_zeros: "hexBytes s = Some bs \<Longrightarrow> hexBytes (replicate (2 * n) CHR ''0'' @ s) = Some (replicate n 0 @ bs)"
proof (induction n)
  case (Suc n)
  moreover have "hexValue CHR ''0'' = Some 0" by code_simp
  ultimately show ?case by simp
qed simp

lemma digest_of_hex: "length s = 64 \<Longrightarrow> hexBytes s = Some bs \<Longrightarrow> isDigest (''sha256:'' @ s)"
  by (simp add: isDigest_def digestBytes_def)

lemma checksum_is_digest: "isDigest (checksum b)"
proof -
  define v where "v = unat (sum_list b)"
  have v: "v div 16 < 16" "v mod 16 < 16" using unsigned_less [of "sum_list b", where ?'a = nat] by (simp_all add: v_def)
  have "hexBytes [hexAlphabet ! (v div 16), hexAlphabet ! (v mod 16)] = Some [word_of_nat v]"
    by (simp add: hex_digits v)
  from digest_of_hex [OF _ hexBytes_zeros [OF this, of 31]] show ?thesis
    unfolding checksum_def Let_def v_def by simp
qed

text \<open>Every leaf of a tree has an inclusion proof, and the verifier accepts it against the
  root of the tree: for a hash function whose outputs are digest texts and leaves that are such
  texts, \<open>inclusionProof\<close> and \<open>root\<close> return, and \<open>verifyInclusion\<close> with the returned path is true.\<close>

theorem inclusion_proof_complete:
  assumes "\<And>b. isDigest (sha b)" and "list_all isDigest leaves" and "i < length leaves"
    and "length leaves \<le> MAX_SAFE_INTEGER"
  shows "\<exists>p r. inclusionProof sha leaves (JsInteger (int i)) = Some p \<and> merkleRoot sha leaves = Some r \<and>
    verifyInclusion sha \<lparr>iv_leaf = leaves ! i, iv_leafIndex = JsInteger (int i),
      iv_treeSize = JsInteger (int (length leaves)), iv_root = r, iv_auditPath = p\<rparr>"
proof -
  from merkleRoot_total [of sha, OF assms(1,2)] obtain r where r: "merkleRoot sha leaves = Some r" by blast
  from buildInclusionProof_total [of sha, OF assms(1,2,3)] obtain p where p: "buildInclusionProof sha leaves i = Some p" by blast
  from proof_leads_to_root [OF p r assms(3)] obtain h where h: "leafHash sha (leaves ! i) = Some h"
    "inclusionLoop sha i (length leaves - 1) h p = Some r"
    using inclusion_iff [OF assms(3)] by blast
  have "validSize (JsInteger (int i)) = Some i" "validSize (JsInteger (int (length leaves))) = Some (length leaves)"
    using assms(3,4) by (simp_all add: validSize_int)
  then show ?thesis using p r h assms(3)
    by (auto simp: inclusionProof_def verifyInclusion_def simp del: One_nat_def)
qed

definition leafText :: "char \<Rightarrow> string" where
  "leafText c = ''sha256:'' @ replicate 63 CHR ''0'' @ [c]"

lemma inclusion_proof_complete_witness:
  "\<exists>p r. inclusionProof checksum (map leafText ''12345'') (JsInteger 3) = Some p \<and>
    merkleRoot checksum (map leafText ''12345'') = Some r \<and>
    verifyInclusion checksum \<lparr>iv_leaf = leafText CHR ''4'', iv_leafIndex = JsInteger 3,
      iv_treeSize = JsInteger 5, iv_root = r, iv_auditPath = p\<rparr>"
proof -
  have "list_all isDigest (map leafText ''12345'')" unfolding isDigest_def by code_simp
  from inclusion_proof_complete [of checksum, OF checksum_is_digest this, of 3] show ?thesis
    by (simp add: MAX_SAFE_INTEGER_def)
qed

subsection \<open>Soundness of inclusion proofs\<close>

text \<open>The byte strings hashed when the root of a tree is computed, and when a path is followed.\<close>

definition optionList :: "'a option \<Rightarrow> 'a list" where
  "optionList x = (case x of None \<Rightarrow> [] | Some a \<Rightarrow> [a])"

definition nodeInputs :: "string option \<Rightarrow> string option \<Rightarrow> bytes list" where
  "nodeInputs l r = optionList (Option.bind l (\<lambda>x. Option.bind r (nodeInput x)))"

function treeInputs :: "(bytes \<Rightarrow> string) \<Rightarrow> string list \<Rightarrow> bytes list" where
  "treeInputs sha leaves =
     (if leaves = [] then [[]]
      else if length leaves = 1 then optionList (leafInput (leaves ! 0))
      else (let k = largestPowerOfTwoLessThan (length leaves)
            in treeInputs sha (take k leaves) @ treeInputs sha (drop k leaves) @
               nodeInputs (merkleRoot sha (take k leaves)) (merkleRoot sha (drop k leaves))))"
  by pat_completeness auto

termination
  by (relation "measure (\<lambda>(_, leaves). length leaves)")
    (use length_not_short split_bounds in \<open>auto simp: Suc_lessI\<close>)

declare treeInputs.simps [simp del]

function pathInputs :: "(bytes \<Rightarrow> string) \<Rightarrow> nat \<Rightarrow> nat \<Rightarrow> string \<Rightarrow> string list \<Rightarrow> bytes list" where
  "pathInputs sha i n h p =
     (if n \<le> 1 then []
      else (let k = largestPowerOfTwoLessThan n
            in if i < k
               then pathInputs sha i k h (butlast p) @ nodeInputs (pathRoot sha i k h (butlast p)) (Some (last p))
               else pathInputs sha (i - k) (n - k) h (butlast p) @
                 nodeInputs (Some (last p)) (pathRoot sha (i - k) (n - k) h (butlast p))))"
  by pat_completeness auto

termination
  by (relation "measure (\<lambda>(_, _, n, _, _). n)") (use split_bounds in \<open>auto simp: not_le\<close>)

declare pathInputs.simps [simp del]

lemma digestBytes_inj: "digestBytes d = Some b \<Longrightarrow> digestBytes e = Some b \<Longrightarrow> d = e"
  unfolding digestBytes_def by (metis append_take_drop_id hexBytes_inj option.distinct(1))

lemma digestBytes_length: "digestBytes d = Some b \<Longrightarrow> length b = 32"
  unfolding digestBytes_def by (auto split: if_splits dest: hexBytes_length)

lemma leafInput_inj: "leafInput d = Some b \<Longrightarrow> leafInput e = Some b \<Longrightarrow> d = e"
  unfolding leafInput_def using digestBytes_inj by auto

lemma nodeInput_inj:
  assumes "nodeInput l r = Some b" and "nodeInput l' r' = Some b"
  shows "l = l' \<and> r = r'"
  using assms digestBytes_length digestBytes_inj
  by (auto simp: nodeInput_def split: option.splits dest: append_eq_append_conv [THEN iffD1, rotated])

lemma nodeHash_eq:
  assumes "nodeHash sha l r = Some h" and "nodeHash sha l' r' = Some h" and "inj_on sha S"
    and "set (nodeInputs (Some l) (Some r)) \<subseteq> S" and "set (nodeInputs (Some l') (Some r')) \<subseteq> S"
  shows "l = l' \<and> r = r'"
proof -
  from assms(1,2) obtain b b' where b: "nodeInput l r = Some b" "nodeInput l' r' = Some b'" "sha b = sha b'"
    by (auto simp: nodeHash_def)
  with assms(3-5) have "b = b'" by (auto simp: nodeInputs_def optionList_def dest: inj_onD)
  with b show ?thesis using nodeInput_inj by blast
qed

lemma leafHash_eq:
  assumes "leafHash sha d = Some h" and "leafHash sha e = Some h" and "inj_on sha S"
    and "set (optionList (leafInput d)) \<subseteq> S" and "set (optionList (leafInput e)) \<subseteq> S"
  shows "d = e"
proof -
  from assms(1,2) obtain b b' where b: "leafInput d = Some b" "leafInput e = Some b'" "sha b = sha b'"
    by (auto simp: leafHash_def)
  with assms(3-5) have "b = b'" by (auto simp: optionList_def dest: inj_onD)
  with b show ?thesis using leafInput_inj by blast
qed

lemma root_path_agree:
  "merkleRoot sha leaves = Some r \<Longrightarrow> pathRoot sha i (length leaves) h p = Some r \<Longrightarrow> i < length leaves \<Longrightarrow>
    inj_on sha S \<Longrightarrow> set (treeInputs sha leaves) \<subseteq> S \<Longrightarrow> set (pathInputs sha i (length leaves) h p) \<subseteq> S \<Longrightarrow>
    leafHash sha (leaves ! i) = Some h \<and> set (optionList (leafInput (leaves ! i))) \<subseteq> S"
proof (induction "length leaves" arbitrary: leaves i p r rule: less_induct)
  case less
  consider d where "leaves = [d]" | "1 < length leaves"
    using less.prems(3) by (cases leaves; cases "tl leaves") auto
  then show ?case
  proof cases
    case 1
    then show ?thesis using less.prems by (simp add: merkleRoot_single pathRoot_simps treeInputs.simps)
  next
    case 2
    let ?n = "length leaves"
    let ?k = "largestPowerOfTwoLessThan ?n"
    note b = split_bounds [OF 2] split_shrinks [OF 2]
    from less.prems(1) obtain x y where xy: "merkleRoot sha (take ?k leaves) = Some x"
      "merkleRoot sha (drop ?k leaves) = Some y" "nodeHash sha x y = Some r"
      by (auto simp: merkleRoot_split [OF 2] Let_def bindNode_def bind_eq_Some_conv)
    have ne: "leaves \<noteq> []" "length leaves \<noteq> 1" "\<not> length leaves \<le> 1" using 2 by auto
    have tree: "set (treeInputs sha (take ?k leaves)) \<subseteq> S" "set (treeInputs sha (drop ?k leaves)) \<subseteq> S"
      "set (nodeInputs (Some x) (Some y)) \<subseteq> S"
      using less.prems(5) ne by (simp_all add: treeInputs.simps [of sha leaves] xy Let_def)
    show ?thesis
    proof (cases "i < ?k")
      case True
      from less.prems(2) True ne obtain l where l: "pathRoot sha i ?k h (butlast p) = Some l" "nodeHash sha l (last p) = Some r"
        by (auto simp: pathRoot_simps [of sha i ?n] Let_def bind_eq_Some_conv)
      have path: "set (pathInputs sha i ?k h (butlast p)) \<subseteq> S" "set (nodeInputs (Some l) (Some (last p))) \<subseteq> S"
        using less.prems(6) ne True l by (simp_all add: pathInputs.simps [of sha i ?n] Let_def)
      from nodeHash_eq [OF xy(3) l(2) less.prems(4) tree(3) path(2)] have "l = x" by simp
      moreover have "length (take ?k leaves) = ?k" using b by simp
      ultimately have "leafHash sha (take ?k leaves ! i) = Some h \<and> set (optionList (leafInput (take ?k leaves ! i))) \<subseteq> S"
        using less.hyps [of "take ?k leaves", OF _ xy(1) _ _ less.prems(4) tree(1)] l(1) path(1) True b by simp
      then show ?thesis using True by simp
    next
      case False
      from less.prems(2) False ne obtain l where l: "pathRoot sha (i - ?k) (?n - ?k) h (butlast p) = Some l"
        "nodeHash sha (last p) l = Some r"
        by (auto simp: pathRoot_simps [of sha i ?n] Let_def bind_eq_Some_conv)
      have path: "set (pathInputs sha (i - ?k) (?n - ?k) h (butlast p)) \<subseteq> S"
        "set (nodeInputs (Some (last p)) (Some l)) \<subseteq> S"
        using less.prems(6) ne False l by (simp_all add: pathInputs.simps [of sha i ?n] Let_def)
      from nodeHash_eq [OF xy(3) l(2) less.prems(4) tree(3) path(2)] have "l = y" by simp
      moreover have "length (drop ?k leaves) = ?n - ?k" by simp
      moreover have "i - ?k < ?n - ?k" using diff_less_mono [OF less.prems(3), of ?k] False by simp
      ultimately have "leafHash sha (drop ?k leaves ! (i - ?k)) = Some h \<and>
          set (optionList (leafInput (drop ?k leaves ! (i - ?k)))) \<subseteq> S"
        using less.hyps [of "drop ?k leaves", OF _ xy(2) _ _ less.prems(4) tree(2)] l(1) path(1) b by simp
      then show ?thesis using False less.prems(3) by simp
    qed
  qed
qed


lemma inclusion_names_leaf:
  assumes "merkleRoot sha leaves = Some r"
    and "verifyInclusion sha \<lparr>iv_leaf = d, iv_leafIndex = JsInteger i,
      iv_treeSize = JsInteger (int (length leaves)), iv_root = r, iv_auditPath = p\<rparr>"
    and "leafHash sha d = Some h"
    and "inj_on sha (set (treeInputs sha leaves @ optionList (leafInput d) @ pathInputs sha (nat i) (length leaves) h p))"
  shows "0 \<le> i \<and> nat i < length leaves \<and> d = leaves ! nat i"
proof -
  let ?S = "set (treeInputs sha leaves @ optionList (leafInput d) @ pathInputs sha (nat i) (length leaves) h p)"
  from assms(2,3) have i: "0 \<le> i" "nat i < length leaves" "inclusionLoop sha (nat i) (length leaves - 1) h p = Some r"
    by (auto simp: verifyInclusion_def validSize_def split: option.splits if_splits)
  from i(2,3) have "pathRoot sha (nat i) (length leaves) h p = Some r" by (simp only: inclusion_iff)
  from root_path_agree [OF assms(1) this i(2) assms(4)]
  have "leafHash sha (leaves ! nat i) = Some h" "set (optionList (leafInput (leaves ! nat i))) \<subseteq> ?S" by auto
  from leafHash_eq [OF assms(3) this(1) assms(4) _ this(2)] i show ?thesis by auto
qed

text \<open>An accepted inclusion proof names the true leaf. When \<open>verifyInclusion\<close> accepts a leaf
  text at an index of a tree of the size of \<open>leaves\<close> against the root of \<open>leaves\<close>, whatever path
  it is given, the index lies in the tree and the leaf is the one stored there, provided the hash
  function does not collide on the byte strings hashed for this root and on this path.\<close>

theorem accepted_inclusion_names_leaf:
  assumes "merkleRoot sha leaves = Some r"
    and "verifyInclusion sha \<lparr>iv_leaf = d, iv_leafIndex = JsInteger i,
      iv_treeSize = JsInteger (int (length leaves)), iv_root = r, iv_auditPath = p\<rparr>"
    and "leafHash sha d = Some h"
    and "inj_on sha (set (treeInputs sha leaves @ optionList (leafInput d) @ pathInputs sha (nat i) (length leaves) h p))"
  shows "0 \<le> i \<and> nat i < length leaves \<and> d = leaves ! nat i"
  by (rule inclusion_names_leaf [OF assms])

lemma accepted_inclusion_names_leaf_witness:
  "0 \<le> (1 :: int) \<and> nat 1 < length (map leafText ''123'') \<and> leafText CHR ''2'' = map leafText ''123'' ! nat 1"
proof -
  define leaves where "leaves = map leafText ''123''"
  define h where "h = the (leafHash checksum (leafText CHR ''2''))"
  define p where "p = the (buildInclusionProof checksum leaves 1)"
  define r where "r = the (merkleRoot checksum leaves)"
  have r: "merkleRoot checksum leaves = Some r" unfolding r_def leaves_def by code_simp
  have h: "leafHash checksum (leafText CHR ''2'') = Some h" unfolding h_def by code_simp
  have "inclusionLoop checksum 1 2 h p = Some r" unfolding h_def p_def r_def leaves_def by code_simp
  then have v: "verifyInclusion checksum \<lparr>iv_leaf = leafText CHR ''2'', iv_leafIndex = JsInteger 1,
      iv_treeSize = JsInteger (int (length leaves)), iv_root = r, iv_auditPath = p\<rparr>"
    using h by (simp add: verifyInclusion_def validSize_def MAX_SAFE_INTEGER_def leaves_def numeral_2_eq_2
        del: inclusionLoop.simps)
  have "distinct (map checksum (remdups (treeInputs checksum leaves @ optionList (leafInput (leafText CHR ''2'')) @
      pathInputs checksum (nat 1) (length leaves) h p)))"
    unfolding h_def p_def leaves_def by code_simp
  then have "inj_on checksum (set (treeInputs checksum leaves @ optionList (leafInput (leafText CHR ''2'')) @
      pathInputs checksum (nat 1) (length leaves) h p))"
    by (simp only: distinct_map set_remdups)
  from accepted_inclusion_names_leaf [OF r v h this] show ?thesis unfolding leaves_def .
qed

end
