(* ===== verification/Merkle_Consistency.thy ===== *)
theory Merkle_Consistency
  imports Merkle
begin

text \<open>
  The consistency proofs of \<open>src/audit/merkle.ts\<close>: the verifier's loop climbs two trees at once, from
  a complete subtree that ends where the old tree ends. It is read as a recursion that splits the new
  tree from its root down, and from that reading follow the completeness of \<open>consistencyProof\<close> and the
  soundness of \<open>verifyConsistency\<close>: an old root accepted against a new one is the root of a prefix.
\<close>

subsection \<open>The loop as a climb of pairs\<close>

definition joinLeft :: "(bytes \<Rightarrow> string) \<Rightarrow> string \<Rightarrow> string \<times> string \<Rightarrow> (string \<times> string) option" where
  "joinLeft sha x v = Option.bind (nodeHash sha x (fst v)) (\<lambda>ho. map_option (Pair ho) (nodeHash sha x (snd v)))"

definition joinRight :: "(bytes \<Rightarrow> string) \<Rightarrow> string \<times> string \<Rightarrow> string \<Rightarrow> (string \<times> string) option" where
  "joinRight sha v x = map_option (Pair (fst v)) (nodeHash sha (snd v) x)"

lemma joinLeft_Some: "joinLeft sha x v = Some (ho, hn) \<longleftrightarrow> nodeHash sha x (fst v) = Some ho \<and> nodeHash sha x (snd v) = Some hn"
  by (auto simp: joinLeft_def bind_eq_Some_conv)

lemma joinRight_Some: "joinRight sha v x = Some (ho, hn) \<longleftrightarrow> ho = fst v \<and> nodeHash sha (snd v) x = Some hn"
  by (auto simp: joinRight_def)

lemma consistencyLoop_climb:
  "consistencyLoop sha a s ho hn p = climb (joinLeft sha) (joinRight sha) a s (ho, hn) p"
  by (induction p arbitrary: a s ho hn)
    (auto simp: joinLeft_def joinRight_def split: prod.split bind_split option.split)

text \<open>The roots of both trees, read from the root of the new one down to the subtree whose root is \<open>seed\<close>.\<close>

function conRoot :: "(bytes \<Rightarrow> string) \<Rightarrow> nat \<Rightarrow> nat \<Rightarrow> string \<Rightarrow> string list \<Rightarrow> (string \<times> string) option" where
  "conRoot sha m n seed p =
     (if n \<le> m \<or> n \<le> 1 then Some (seed, seed)
      else (let k = largestPowerOfTwoLessThan n
            in if m \<le> k then Option.bind (conRoot sha m k seed (butlast p)) (\<lambda>v. joinRight sha v (last p))
               else Option.bind (conRoot sha (m - k) (n - k) seed (butlast p)) (joinLeft sha (last p))))"
  by pat_completeness auto

termination
  by (relation "measure (\<lambda>(_, _, n, _, _). n)") (use split_bounds in \<open>auto simp: not_le\<close>)

declare conRoot.simps [simp del]

subsection \<open>Positions one level up\<close>

text \<open>A size \<open>m\<close> is \<open>2 ^ s * (i + 1)\<close> with an even \<open>i\<close>: its last \<open>2 ^ s\<close> leaves are the largest complete
  subtree it ends with, at position \<open>i\<close> of level \<open>s\<close>. That level of a tree of \<open>n\<close> leaves has
  \<open>levelSize s n\<close> nodes.\<close>

definition levelSize :: "nat \<Rightarrow> nat \<Rightarrow> nat" where
  "levelSize s n = (n - 1) div 2 ^ s + 1"

lemma size_level: "0 < m \<Longrightarrow> \<exists>s i. m = 2 ^ s * (i + 1) \<and> even i" for m :: nat
proof (induction m rule: less_induct)
  case (less m)
  show ?case
  proof (cases "even m")
    case True
    then obtain m' where m: "m = 2 * m'" by blast
    then obtain s i where "m' = 2 ^ s * (i + 1)" "even i" using less.IH [of m'] less.prems by auto
    then show ?thesis using m by (intro exI [of _ "Suc s"] exI [of _ i]) simp
  next
    case False
    then show ?thesis by (intro exI [of _ 0] exI [of _ "m - 1"]) simp
  qed
qed

lemma shiftOdd_level: "even i \<Longrightarrow> shiftOdd (2 ^ s * (i + 1) - 1) N = (i, N div 2 ^ s)"
proof (induction s arbitrary: N)
  case 0
  then show ?case by (simp add: shiftOdd.simps)
next
  case (Suc s)
  define a where "a = 2 ^ s * (i + 1)"
  have a: "0 < a" "2 ^ Suc s * (i + 1) - 1 = 2 * a - 1" by (simp_all add: a_def)
  have "odd (2 * a - 1)" "(2 * a - 1) div 2 = a - 1" using a(1) by presburger+
  then have "shiftOdd (2 * a - 1) N = shiftOdd (a - 1) (N div 2)" by (simp only: shiftOdd.simps [of "2 * a - 1"] if_True not_False_eq_True)
  also have "\<dots> = (i, N div 2 div 2 ^ s)" unfolding a_def by (rule Suc.IH [OF Suc.prems])
  also have "N div 2 div 2 ^ s = N div 2 ^ Suc s" by (simp add: div_mult2_eq)
  finally show ?case by (simp only: a(2))
qed

lemma split_unique:
  assumes "2 ^ u < n" and "n \<le> 2 ^ Suc u"
  shows "largestPowerOfTwoLessThan n = 2 ^ u"
proof -
  have "1 < n" using assms(1) by (metis le_less_trans one_le_numeral one_le_power)
  then obtain v where v: "largestPowerOfTwoLessThan n = 2 ^ v" "2 ^ v < n" "n \<le> 2 ^ Suc v" using split_spec by blast
  have "(2::nat) ^ v < 2 ^ Suc u" "(2::nat) ^ u < 2 ^ Suc v" using v(2,3) assms by linarith+
  then have "v < Suc u" "u < Suc v" by (metis power_less_imp_less_exp one_less_numeral_iff semiring_norm(76))+
  then show ?thesis using v(1) by simp
qed

lemma levelSize_shift: "s \<le> t \<Longrightarrow> 2 ^ t < n \<Longrightarrow> levelSize s (n - 2 ^ t) = levelSize s n - 2 ^ (t - s)"
proof -
  assume "s \<le> t" "2 ^ t < n"
  then have "n - 1 = (n - 2 ^ t - 1) + 2 ^ (t - s) * 2 ^ s" by (simp add: power_add [symmetric])
  then have "(n - 1) div 2 ^ s = (n - 2 ^ t - 1) div 2 ^ s + 2 ^ (t - s)" by (simp only: div_mult_self1 power_not_zero) simp
  then show ?thesis by (simp add: levelSize_def)
qed

lemma levelSize_power: "s \<le> t \<Longrightarrow> levelSize s (2 ^ t) = 2 ^ (t - s)"
proof -
  assume "s \<le> t"
  then have t: "(2 :: nat) ^ t = 2 ^ s * 2 ^ (t - s)" by (simp add: power_add [symmetric])
  have "(2 ^ t - 1) div 2 ^ s = 2 ^ (t - s) - (1 :: nat)"
  proof -
    obtain c where c: "(2 :: nat) ^ (t - s) = Suc c" by (metis gr0_implies_Suc zero_less_numeral zero_less_power)
    have "(2 :: nat) ^ t - 1 = (2 ^ s - 1) + c * 2 ^ s" unfolding t c by (simp add: mult.commute)
    then have "(2 ^ t - 1) div 2 ^ s = (2 ^ s - 1) div 2 ^ s + c"
      by (metis add.commute div_mult_self1 power_not_zero zero_neq_numeral)
    then show ?thesis by (simp add: c)
  qed
  then show ?thesis by (simp add: levelSize_def)
qed

text \<open>How the split of a tree moves both the end of the old tree and the level of its last subtree.\<close>

lemma level_split:
  assumes "m = 2 ^ s * (i + 1)" and "even i" and "m < n"
  obtains t where "s \<le> t" "1 < n" "largestPowerOfTwoLessThan n = 2 ^ t" "2 ^ t < n" "n \<le> 2 ^ Suc t"
    "1 < levelSize s n" "largestPowerOfTwoLessThan (levelSize s n) = 2 ^ (t - s)"
    "m \<le> 2 ^ t \<longleftrightarrow> i < 2 ^ (t - s)"
proof -
  have pos: "(0 :: nat) < 2 ^ s" by simp
  have s: "2 ^ s < n" using assms(1,3) by (simp add: add_lessD1)
  have n: "1 < n" using s pos by linarith
  then obtain t where t: "largestPowerOfTwoLessThan n = 2 ^ t" "2 ^ t < n" "n \<le> 2 ^ Suc t" using split_spec by blast
  have "(2 :: nat) ^ s < 2 ^ Suc t" using s t(3) by simp
  then have st: "s \<le> t" by (metis less_Suc_eq_le power_less_imp_less_exp one_less_numeral_iff semiring_norm(76))
  have tt: "(2 :: nat) ^ t = 2 ^ s * 2 ^ (t - s)" "(2 :: nat) ^ Suc t = 2 ^ s * 2 ^ Suc (t - s)"
    using st by (simp_all add: power_add [symmetric] Suc_diff_le [symmetric] del: power_Suc)
  have "2 ^ s * 2 ^ (t - s) \<le> n - 1" using t(2) tt(1) by linarith
  then have low: "2 ^ (t - s) \<le> (n - 1) div 2 ^ s" using pos by (simp add: less_eq_div_iff_mult_less_eq mult.commute)
  have "n - 1 < 2 ^ s * 2 ^ Suc (t - s)" using t(3) n unfolding tt(2) by linarith
  then have high: "(n - 1) div 2 ^ s < 2 ^ Suc (t - s)" by (simp only: less_mult_imp_div_less mult.commute)
  have u: "2 ^ (t - s) < levelSize s n" "levelSize s n \<le> 2 ^ Suc (t - s)" using low high by (simp_all add: levelSize_def)
  have "(1 :: nat) \<le> 2 ^ (t - s)" by simp
  then have n': "1 < levelSize s n" using u(1) by linarith
  have "m \<le> 2 ^ t \<longleftrightarrow> i + 1 \<le> 2 ^ (t - s)" unfolding assms(1) tt(1) using pos by (simp only: mult_le_cancel1) simp
  then have "m \<le> 2 ^ t \<longleftrightarrow> i < 2 ^ (t - s)" by (simp only: less_eq_Suc_le Suc_eq_plus1)
  then show thesis by (rule that [OF st n t n' split_unique [OF u]])
qed

text \<open>A complete tree may end where the old one does, and then the old one is its only subtree.\<close>

definition endsIn :: "nat \<Rightarrow> nat \<Rightarrow> nat \<Rightarrow> bool" where
  "endsIn i m n \<longleftrightarrow> m < n \<or> m = n \<and> i = 0"

lemma level_left:
  assumes "m = 2 ^ s * (i + 1)" and "even i" and "s \<le> t" and "m \<le> 2 ^ t"
  shows "endsIn i m (2 ^ t)"
proof (cases "m = 2 ^ t")
  case True
  then have "2 ^ s * (i + 1) = 2 ^ s * 2 ^ (t - s)" using assms(1,3) by (simp add: power_add [symmetric])
  then have "i + 1 = 2 ^ (t - s)" by (simp only: mult_cancel1) simp
  moreover have "odd (i + 1)" using assms(2) by simp
  ultimately have "t - s = 0" by (metis even_power even_numeral gr0I)
  then show ?thesis using \<open>i + 1 = 2 ^ (t - s)\<close> True by (simp add: endsIn_def)
qed (use assms(4) in \<open>simp add: endsIn_def\<close>)

lemma level_right:
  assumes "m = 2 ^ s * (i + 1)" and "even i" and "s \<le> t" and "m < n" and "2 ^ t < m" and "n \<le> 2 ^ Suc t"
  shows "m - 2 ^ t = 2 ^ s * (i - 2 ^ (t - s) + 1)" and "even (i - 2 ^ (t - s))" and "i \<noteq> 0"
    and "2 ^ (t - s) \<le> i" and "endsIn (i - 2 ^ (t - s)) (m - 2 ^ t) (n - 2 ^ t)"
proof -
  have tt: "(2 :: nat) ^ t = 2 ^ s * 2 ^ (t - s)" using assms(3) by (simp add: power_add [symmetric])
  have "2 ^ s * 2 ^ (t - s) < 2 ^ s * (i + 1)" using assms(1,5) tt by simp
  then have i: "2 ^ (t - s) \<le> i" by (simp del: mult_Suc_right)
  then show "2 ^ (t - s) \<le> i" .
  have "i + 1 - 2 ^ (t - s) = i - 2 ^ (t - s) + 1" using i by simp
  then show "m - 2 ^ t = 2 ^ s * (i - 2 ^ (t - s) + 1)" unfolding assms(1) tt by (simp only: diff_mult_distrib2 [symmetric])
  show "i \<noteq> 0" using i by (metis le_zero_eq power_not_zero zero_neq_numeral)
  have "t - s \<noteq> 0"
  proof
    assume "t - s = 0"
    then have "t = s" using assms(3) by simp
    then have "2 ^ s * (i + 1) < 2 ^ s * 2" using assms(1,4,6) by (simp only: power_Suc mult.commute)
    then have "i + 1 < 2" by (rule mult_less_cancel1 [THEN iffD1, THEN conjunct2])
    then have "i = 0" by simp
    then show False using \<open>i \<noteq> 0\<close> by simp
  qed
  then show "even (i - 2 ^ (t - s))" using assms(2) i by simp
  show "endsIn (i - 2 ^ (t - s)) (m - 2 ^ t) (n - 2 ^ t)" using assms(4,5) diff_less_mono [of m n "2 ^ t"] by (simp add: endsIn_def)
qed

lemma endsIn_small: "m = 2 ^ s * (i + 1) \<Longrightarrow> endsIn i m n \<Longrightarrow> n \<le> m \<Longrightarrow> i = 0 \<and> n = m \<and> levelSize s n = 1"
  by (auto simp: endsIn_def levelSize_def)

lemma conRoot_climb:
  assumes "m = 2 ^ s * (i + 1)" and "even i" and "endsIn i m n"
  shows "conRoot sha m n seed p = climbRoot (joinLeft sha) (joinRight sha) i (levelSize s n) (seed, seed) p"
  using assms
proof (induction n arbitrary: m i p rule: less_induct)
  case (less n)
  show ?case
  proof (cases "m < n")
    case False
    then have "n \<le> m" by simp
    from endsIn_small [OF less.prems(1,3) this] have "n \<le> m" "levelSize s n \<le> 1" by (metis order_refl)+
    then show ?thesis by (subst conRoot.simps, subst climbRoot.simps) simp
  next
    case True
    then obtain t where t: "s \<le> t" "1 < n" "largestPowerOfTwoLessThan n = 2 ^ t" "2 ^ t < n" "n \<le> 2 ^ Suc t"
      "1 < levelSize s n" "largestPowerOfTwoLessThan (levelSize s n) = 2 ^ (t - s)" "m \<le> 2 ^ t \<longleftrightarrow> i < 2 ^ (t - s)"
      by (rule level_split [OF less.prems(1,2)])
    have ne: "\<not> (n \<le> m \<or> n \<le> 1)" "\<not> levelSize s n \<le> 1" using True t(2,6) by simp_all
    show ?thesis
    proof (cases "m \<le> 2 ^ t")
      case True
      have "conRoot sha m (2 ^ t) seed (butlast p) =
          climbRoot (joinLeft sha) (joinRight sha) i (2 ^ (t - s)) (seed, seed) (butlast p)"
        using less.IH [OF t(4) less.prems(1,2) level_left [OF less.prems(1,2) t(1) True]] levelSize_power [OF t(1)] by simp
      then show ?thesis unfolding conRoot.simps [of sha m n] climbRoot.simps [of _ _ i "levelSize s n"] Let_def t(3,7)
        using ne True t(8) by (simp only: if_True if_False)
    next
      case False
      then have "2 ^ t < m" by simp
      note r = level_right [OF less.prems(1,2) t(1) \<open>m < n\<close> this t(5)]
      have "conRoot sha (m - 2 ^ t) (n - 2 ^ t) seed (butlast p) =
          climbRoot (joinLeft sha) (joinRight sha) (i - 2 ^ (t - s)) (levelSize s n - 2 ^ (t - s)) (seed, seed) (butlast p)"
        using less.IH [OF _ r(1,2,5)] t(4) levelSize_shift [OF t(1,4)] by simp
      then show ?thesis unfolding conRoot.simps [of sha m n] climbRoot.simps [of _ _ i "levelSize s n"] Let_def t(3,7)
        using ne False t(8) by (simp only: if_True if_False)
    qed
  qed
qed

subsection \<open>What the verifier accepts\<close>

text \<open>The root the climb starts from and the rest of the path: the old root itself when the old tree
  is complete, the first digest of the path otherwise.\<close>

definition pathSeed :: "nat \<Rightarrow> string \<Rightarrow> string list \<Rightarrow> (string \<times> string list) option" where
  "pathSeed m oldRoot path =
     (if fst (shiftOdd (m - 1) 0) = 0 then Some (oldRoot, path)
      else (case path of [] \<Rightarrow> None | x # rest \<Rightarrow> Some (x, rest)))"

lemma pathSeed_level:
  "m = 2 ^ s * (i + 1) \<Longrightarrow> even i \<Longrightarrow> pathSeed m oldRoot path =
     (if i = 0 then Some (oldRoot, path) else (case path of [] \<Rightarrow> None | x # rest \<Rightarrow> Some (x, rest)))"
  using shiftOdd_level [of i s 0] by (simp add: pathSeed_def del: mult_Suc_right)

lemma verifyConsistency_seed:
  assumes "m = 2 ^ s * (i + 1)" and "even i" and "m < n" and "validSize oldSize = Some m" and "validSize newSize = Some n"
  shows "verifyConsistency sha \<lparr>cv_oldSize = oldSize, cv_newSize = newSize, cv_oldRoot = oldRoot, cv_newRoot = newRoot,
      cv_auditPath = path\<rparr> \<longleftrightarrow>
    (case pathSeed m oldRoot path of None \<Rightarrow> False
     | Some (seed, rest) \<Rightarrow> length rest = pathLength i (levelSize s n) \<and> conRoot sha m n seed rest = Some (oldRoot, newRoot))"
proof -
  have m0: "m \<noteq> 0" "\<not> n < m" "m \<noteq> n" using assms(1,3) by simp_all
  have sh: "shiftOdd (m - 1) (n - 1) = (i, levelSize s n - 1)"
    using shiftOdd_level [OF assms(2), of s "n - 1"] unfolding assms(1) by (simp add: levelSize_def)
  have ends: "endsIn i m n" using assms(3) by (simp add: endsIn_def)
  have "2 ^ s * i \<le> n - 1" using assms(1,3) by simp
  then have "i \<le> (n - 1) div 2 ^ s" by (simp add: less_eq_div_iff_mult_less_eq mult.commute)
  then have i: "i < levelSize s n" by (simp add: levelSize_def)
  have loop: "consistencyLoop sha i (levelSize s n - 1) seed seed rest = Some (oldRoot, newRoot) \<longleftrightarrow>
      length rest = pathLength i (levelSize s n) \<and> conRoot sha m n seed rest = Some (oldRoot, newRoot)" for seed rest
    unfolding consistencyLoop_climb conRoot_climb [OF assms(1,2) ends] by (rule loop_iff [OF i])
  show ?thesis
    unfolding verifyConsistency_def consistencyVerification.select_convs assms(4,5) option.case prod.case sh
      pathSeed_level [OF assms(1,2)] if_not_P [OF m0(3)]
    using m0(1,2) loop by (cases "i = 0"; cases path) (simp_all del: consistencyLoop.simps One_nat_def)
qed

lemma roots_agree:
  "merkleRoot sha xs = Some r \<Longrightarrow> merkleRoot sha ys = Some r \<Longrightarrow> length xs = length ys \<Longrightarrow> inj_on sha S \<Longrightarrow>
    set (treeInputs sha xs) \<subseteq> S \<Longrightarrow> set (treeInputs sha ys) \<subseteq> S \<Longrightarrow> xs = ys"
proof (induction "length xs" arbitrary: xs ys r rule: less_induct)
  case less
  consider "xs = []" | d where "xs = [d]" | "1 < length xs" by (cases xs; cases "tl xs") auto
  then show ?case
  proof cases
    case 1
    then show ?thesis using less.prems(3) by simp
  next
    case 2
    then obtain e where e: "ys = [e]" using less.prems(3) by (cases ys) auto
    have "d = e"
      using leafHash_eq [of sha d r e, OF _ _ less.prems(4)] less.prems(1,2,5,6) 2 e
      by (simp add: merkleRoot_single treeInputs.simps)
    then show ?thesis using 2 e by simp
  next
    case 3
    let ?k = "largestPowerOfTwoLessThan (length xs)"
    have len_ys: "1 < length ys" "largestPowerOfTwoLessThan (length ys) = ?k" using 3 less.prems(3) by simp_all
    note b = split_bounds [OF 3] split_shrinks [OF 3]
    from less.prems(1) obtain x y where xy: "merkleRoot sha (take ?k xs) = Some x"
      "merkleRoot sha (drop ?k xs) = Some y" "nodeHash sha x y = Some r"
      by (auto simp: merkleRoot_split [OF 3] Let_def bindNode_def bind_eq_Some_conv)
    from less.prems(2) obtain x' y' where xy': "merkleRoot sha (take ?k ys) = Some x'"
      "merkleRoot sha (drop ?k ys) = Some y'" "nodeHash sha x' y' = Some r"
      by (auto simp: merkleRoot_split [OF len_ys(1)] len_ys(2) Let_def bindNode_def bind_eq_Some_conv)
    have ne: "xs \<noteq> []" "length xs \<noteq> 1" "ys \<noteq> []" "length ys \<noteq> 1" using 3 len_ys(1) by auto
    have tree: "set (treeInputs sha (take ?k xs)) \<subseteq> S" "set (treeInputs sha (drop ?k xs)) \<subseteq> S"
      "set (nodeInputs (Some x) (Some y)) \<subseteq> S"
      using less.prems(5) ne by (simp_all add: treeInputs.simps [of sha xs] xy Let_def)
    have tree': "set (treeInputs sha (take ?k ys)) \<subseteq> S" "set (treeInputs sha (drop ?k ys)) \<subseteq> S"
      "set (nodeInputs (Some x') (Some y')) \<subseteq> S"
      using less.prems(6) ne by (simp_all add: treeInputs.simps [of sha ys] len_ys(2) xy' Let_def)
    from nodeHash_eq [OF xy(3) xy'(3) less.prems(4) tree(3) tree'(3)] have "x' = x" "y' = y" by simp_all
    then have "take ?k xs = take ?k ys" "drop ?k xs = drop ?k ys"
      using less.hyps [OF _ xy(1) _ _ less.prems(4) tree(1) tree'(1)] less.hyps [OF _ xy(2) _ _ less.prems(4) tree(2) tree'(2)]
        xy' b less.prems(3) by simp_all
    then show ?thesis by (metis append_take_drop_id)
  qed
qed

text \<open>The byte strings hashed on the new tree's side of the climb.\<close>

function conInputs :: "(bytes \<Rightarrow> string) \<Rightarrow> nat \<Rightarrow> nat \<Rightarrow> string \<Rightarrow> string list \<Rightarrow> bytes list" where
  "conInputs sha m n seed p =
     (if n \<le> m \<or> n \<le> 1 then []
      else (let k = largestPowerOfTwoLessThan n
            in if m \<le> k
               then conInputs sha m k seed (butlast p) @
                 nodeInputs (map_option snd (conRoot sha m k seed (butlast p))) (Some (last p))
               else conInputs sha (m - k) (n - k) seed (butlast p) @
                 nodeInputs (Some (last p)) (map_option snd (conRoot sha (m - k) (n - k) seed (butlast p)))))"
  by pat_completeness auto

termination
  by (relation "measure (\<lambda>(_, _, n, _, _). n)") (use split_bounds in \<open>auto simp: not_le\<close>)

declare conInputs.simps [simp del]

lemma con_agree:
  "merkleRoot sha leaves = Some r \<Longrightarrow> conRoot sha m (length leaves) seed p = Some (ho, r) \<Longrightarrow> 0 < m \<Longrightarrow> m \<le> length leaves \<Longrightarrow>
    inj_on sha S \<Longrightarrow> set (treeInputs sha leaves) \<subseteq> S \<Longrightarrow> set (conInputs sha m (length leaves) seed p) \<subseteq> S \<Longrightarrow>
    merkleRoot sha (take m leaves) = Some ho"
proof (induction "length leaves" arbitrary: leaves m p r ho rule: less_induct)
  case less
  let ?n = "length leaves"
  show ?case
  proof (cases "?n \<le> m")
    case True
    then show ?thesis using less.prems(1,2) by (auto simp: conRoot.simps)
  next
    case False
    then have n: "1 < ?n" using less.prems(3) by simp
    let ?k = "largestPowerOfTwoLessThan ?n"
    note b = split_bounds [OF n] split_shrinks [OF n]
    from less.prems(1) obtain x y where xy: "merkleRoot sha (take ?k leaves) = Some x"
      "merkleRoot sha (drop ?k leaves) = Some y" "nodeHash sha x y = Some r"
      by (auto simp: merkleRoot_split [OF n] Let_def bindNode_def bind_eq_Some_conv)
    have ne: "leaves \<noteq> []" "length leaves \<noteq> 1" "\<not> (?n \<le> m \<or> ?n \<le> 1)" using n False by auto
    have tree: "set (treeInputs sha (take ?k leaves)) \<subseteq> S" "set (treeInputs sha (drop ?k leaves)) \<subseteq> S"
      "set (nodeInputs (Some x) (Some y)) \<subseteq> S"
      using less.prems(6) ne by (simp_all add: treeInputs.simps [of sha leaves] xy Let_def)
    show ?thesis
    proof (cases "m \<le> ?k")
      case True
      from less.prems(2) True ne(3) obtain l where l: "conRoot sha m ?k seed (butlast p) = Some (ho, l)"
        "nodeHash sha l (last p) = Some r"
        by (auto simp: conRoot.simps [of sha m ?n] Let_def bind_eq_Some_conv joinRight_Some)
      have path: "set (conInputs sha m ?k seed (butlast p)) \<subseteq> S" "set (nodeInputs (Some l) (Some (last p))) \<subseteq> S"
        using less.prems(7) ne(3) True l by (simp_all add: conInputs.simps [of sha m ?n] Let_def)
      from nodeHash_eq [OF xy(3) l(2) less.prems(5) tree(3) path(2)] have "l = x" by simp
      moreover have k: "length (take ?k leaves) = ?k" using b by simp
      ultimately have "merkleRoot sha (take m (take ?k leaves)) = Some ho"
        using less.hyps [of "take ?k leaves", OF _ xy(1) _ less.prems(3) _ less.prems(5) tree(1)] l(1) path(1) b True by simp
      then show ?thesis using True by (simp add: min_absorb1)
    next
      case False
      from less.prems(2) False ne(3) obtain o' l where l: "conRoot sha (m - ?k) (?n - ?k) seed (butlast p) = Some (o', l)"
        "nodeHash sha (last p) o' = Some ho" "nodeHash sha (last p) l = Some r"
        by (auto simp: conRoot.simps [of sha m ?n] Let_def bind_eq_Some_conv joinLeft_Some)
      have path: "set (conInputs sha (m - ?k) (?n - ?k) seed (butlast p)) \<subseteq> S" "set (nodeInputs (Some (last p)) (Some l)) \<subseteq> S"
        using less.prems(7) ne(3) False l by (simp_all add: conInputs.simps [of sha m ?n] Let_def)
      from nodeHash_eq [OF xy(3) l(3) less.prems(5) tree(3) path(2)] have e: "last p = x" "l = y" by simp_all
      have "length (drop ?k leaves) = ?n - ?k" "0 < m - ?k" "m - ?k \<le> ?n - ?k" using False less.prems(4) by simp_all
      then have right: "merkleRoot sha (take (m - ?k) (drop ?k leaves)) = Some o'"
        using less.hyps [of "drop ?k leaves", OF _ xy(2) _ _ _ less.prems(5) tree(2)] l(1) e path(1) b by simp
      from split_spec [OF n] obtain u where u: "?k = 2 ^ u" "2 ^ u < ?n" "?n \<le> 2 ^ Suc u" by blast
      have len: "length (take m leaves) = m" using less.prems(4) by simp
      have k: "largestPowerOfTwoLessThan m = ?k" unfolding u(1)
        by (rule split_unique) (use u False less.prems(4) in simp_all)
      have "1 < m" using False u(1) by (metis less_one not_le_imp_less not_less power_not_zero zero_neq_numeral le_less_trans nat_neq_iff)
      then have "merkleRoot sha (take m leaves) =
          bindNode sha (merkleRoot sha (take ?k leaves)) (merkleRoot sha (take (m - ?k) (drop ?k leaves)))"
        using merkleRoot_split [of "take m leaves" sha] False
        unfolding len k Let_def by (simp add: drop_take min_absorb1)
      then show ?thesis using right xy(1) l(2) e by (simp add: bindNode_def)
    qed
  qed
qed

subsection \<open>Soundness\<close>

definition verifiedInputs :: "(bytes \<Rightarrow> string) \<Rightarrow> nat \<Rightarrow> nat \<Rightarrow> string \<Rightarrow> string list \<Rightarrow> bytes list" where
  "verifiedInputs sha m n oldRoot path =
     (case pathSeed m oldRoot path of None \<Rightarrow> [] | Some (seed, rest) \<Rightarrow> conInputs sha m n seed rest)"

text \<open>An accepted proof shows the old root to be that of a prefix of the new leaves.\<close>

lemma consistent_prefix_root:
  assumes "merkleRoot sha new = Some newRoot"
    and "verifyConsistency sha \<lparr>cv_oldSize = JsInteger (int m), cv_newSize = JsInteger (int (length new)),
      cv_oldRoot = oldRoot, cv_newRoot = newRoot, cv_auditPath = path\<rparr>"
    and "inj_on sha S" and "set (treeInputs sha new) \<subseteq> S" and "set (verifiedInputs sha m (length new) oldRoot path) \<subseteq> S"
  shows "0 < m \<and> m \<le> length new \<and> merkleRoot sha (take m new) = Some oldRoot"
proof -
  let ?n = "length new"
  from assms(2) have v: "validSize (JsInteger (int m)) = Some m" "validSize (JsInteger (int ?n)) = Some ?n"
    "0 < m" "m \<le> ?n" "m = ?n \<Longrightarrow> oldRoot = newRoot"
    unfolding verifyConsistency_def by (auto simp: validSize_def split: option.splits if_splits)
  have "merkleRoot sha (take m new) = Some oldRoot"
  proof (cases "m = ?n")
    case True
    then show ?thesis using assms(1) v(5) by simp
  next
    case False
    obtain s i where si: "m = 2 ^ s * (i + 1)" "even i" using size_level [OF v(3)] by blast
    have "m < ?n" using False v(4) by simp
    from assms(2) obtain seed rest where s: "pathSeed m oldRoot path = Some (seed, rest)"
      "conRoot sha m ?n seed rest = Some (oldRoot, newRoot)"
      unfolding verifyConsistency_seed [OF si \<open>m < ?n\<close> v(1,2)] by (auto split: option.splits)
    show ?thesis
      by (rule con_agree [OF assms(1) s(2) v(3,4) assms(3,4)]) (use assms(5) in \<open>simp add: verifiedInputs_def s(1)\<close>)
  qed
  with v show ?thesis by simp
qed

lemma consistency_prefix:
  assumes "merkleRoot sha old = Some oldRoot" and "merkleRoot sha new = Some newRoot"
    and "verifyConsistency sha \<lparr>cv_oldSize = JsInteger (int (length old)), cv_newSize = JsInteger (int (length new)),
      cv_oldRoot = oldRoot, cv_newRoot = newRoot, cv_auditPath = path\<rparr>"
    and "inj_on sha (set (treeInputs sha old @ treeInputs sha (take (length old) new) @ treeInputs sha new @
      verifiedInputs sha (length old) (length new) oldRoot path))"
  shows "old \<noteq> [] \<and> (\<exists>rest. new = old @ rest)"
proof -
  have r: "0 < length old \<and> length old \<le> length new \<and> merkleRoot sha (take (length old) new) = Some oldRoot"
    by (rule consistent_prefix_root [OF assms(2-4)]) auto
  from roots_agree [OF assms(1) _ _ assms(4)] r have "old = take (length old) new" by (simp add: subset_iff)
  then have "new = old @ drop (length old) new" by (metis append_take_drop_id)
  then show ?thesis using r by auto
qed

text \<open>An accepted consistency proof means nothing was rewritten. When \<open>verifyConsistency\<close> accepts
  the root of one list of leaves against the root of another, whatever path it is given, the first list
  is not empty and the second one extends it, provided the hash function does not collide on the byte
  strings hashed for the two roots, for the root of the prefix and on the path.\<close>

theorem accepted_consistency_is_prefix:
  assumes "merkleRoot sha old = Some oldRoot" and "merkleRoot sha new = Some newRoot"
    and "verifyConsistency sha \<lparr>cv_oldSize = JsInteger (int (length old)), cv_newSize = JsInteger (int (length new)),
      cv_oldRoot = oldRoot, cv_newRoot = newRoot, cv_auditPath = path\<rparr>"
    and "inj_on sha (set (treeInputs sha old @ treeInputs sha (take (length old) new) @ treeInputs sha new @
      verifiedInputs sha (length old) (length new) oldRoot path))"
  shows "old \<noteq> [] \<and> (\<exists>rest. new = old @ rest)"
  by (rule consistency_prefix [OF assms])

lemma accepted_consistency_is_prefix_witness:
  "map leafText ''138'' \<noteq> [] \<and> (\<exists>rest. map leafText ''138f'' = map leafText ''138'' @ rest)"
proof -
  define old new where "old = map leafText ''138''" and "new = map leafText ''138f''"
  define ro rn where "ro = the (merkleRoot checksum old)" and "rn = the (merkleRoot checksum new)"
  define p where "p = the (buildConsistencyProof checksum 3 new True)"
  note defs = old_def new_def ro_def rn_def p_def
  have r: "merkleRoot checksum old = Some ro" "merkleRoot checksum new = Some rn" unfolding defs by code_simp+
  have seed: "pathSeed 3 ro p = Some (hd p, tl p)" unfolding defs by code_simp
  have "shiftOdd 2 3 = (2, 3)" by code_simp
  moreover have "consistencyLoop checksum 2 3 (hd p) (hd p) (tl p) = Some (ro, rn)" "p \<noteq> []" unfolding defs by code_simp+
  ultimately have v: "verifyConsistency checksum \<lparr>cv_oldSize = JsInteger (int (length old)), cv_newSize = JsInteger (int (length new)),
      cv_oldRoot = ro, cv_newRoot = rn, cv_auditPath = p\<rparr>"
    by (cases p) (simp_all add: verifyConsistency_def validSize_def MAX_SAFE_INTEGER_def old_def new_def
        numeral_2_eq_2 numeral_3_eq_3 del: consistencyLoop.simps)
  have "distinct (map checksum (remdups (treeInputs checksum old @ treeInputs checksum (take (length old) new) @
      treeInputs checksum new @ verifiedInputs checksum (length old) (length new) ro p)))"
    unfolding defs by code_simp
  then have "inj_on checksum (set (treeInputs checksum old @ treeInputs checksum (take (length old) new) @
      treeInputs checksum new @ verifiedInputs checksum (length old) (length new) ro p))"
    by (simp only: distinct_map set_remdups)
  from accepted_consistency_is_prefix [OF r v this] show ?thesis unfolding old_def new_def .
qed

subsection \<open>Completeness\<close>

lemma buildConsistencyProof_split:
  assumes "m < length leaves" and "0 < m"
  shows "buildConsistencyProof sha m leaves complete = (let k = largestPowerOfTwoLessThan (length leaves)
    in if m \<le> k
       then Option.bind (buildConsistencyProof sha m (take k leaves) complete) (\<lambda>path.
         map_option (\<lambda>r. path @ [r]) (merkleRoot sha (drop k leaves)))
       else Option.bind (buildConsistencyProof sha (m - k) (drop k leaves) False) (\<lambda>path.
         map_option (\<lambda>r. path @ [r]) (merkleRoot sha (take k leaves))))"
  using assms by (subst buildConsistencyProof.simps) auto

lemma buildConsistencyProof_total:
  assumes "\<And>b. isDigest (sha b)"
  shows "list_all isDigest leaves \<Longrightarrow> 0 < m \<Longrightarrow> m \<le> length leaves \<Longrightarrow> \<exists>p. buildConsistencyProof sha m leaves complete = Some p"
proof (induction "length leaves" arbitrary: leaves m complete rule: less_induct)
  case less
  from merkleRoot_total [of sha, OF assms less.prems(1)] obtain r where r: "merkleRoot sha leaves = Some r" by blast
  show ?case
  proof (cases "m = length leaves")
    case True
    then show ?thesis using r by (simp add: buildConsistencyProof.simps)
  next
    case False
    then have m: "m < length leaves" and n: "1 < length leaves" using less.prems(2,3) by simp_all
    let ?k = "largestPowerOfTwoLessThan (length leaves)"
    note b = split_bounds [OF n] split_shrinks [OF n]
    have ds: "list_all isDigest (take ?k leaves)" "list_all isDigest (drop ?k leaves)"
      using less.prems by (auto simp: list_all_iff dest: in_set_takeD in_set_dropD)
    then obtain x y where xy: "merkleRoot sha (take ?k leaves) = Some x" "merkleRoot sha (drop ?k leaves) = Some y"
      using merkleRoot_total [of sha, OF assms] by blast
    show ?thesis
      using less.hyps [of "take ?k leaves" m complete] less.hyps [of "drop ?k leaves" "m - ?k" False] b less.prems(2) ds m xy
        diff_le_mono [OF less.prems(3), of ?k]
      by (cases "m \<le> ?k") (auto simp: buildConsistencyProof_split [OF m less.prems(2)] Let_def)
  qed
qed

text \<open>The proof built starts with the root of the subtree the climb starts from, unless that is the
  old root itself.\<close>

definition leadsTo :: "(bytes \<Rightarrow> string) \<Rightarrow> nat \<Rightarrow> nat \<Rightarrow> nat \<Rightarrow> nat \<Rightarrow> string \<Rightarrow> string list \<Rightarrow> string \<Rightarrow> string \<Rightarrow> bool" where
  "leadsTo sha i s m n seed q ho hn \<longleftrightarrow>
     length q = pathLength i (levelSize s n) \<and> conRoot sha m n seed q = Some (ho, hn)"

lemma leadsTo_step:
  assumes "m < n" and "1 < n" and "largestPowerOfTwoLessThan n = 2 ^ t" and "s \<le> t" and "2 ^ t < n"
    and "1 < levelSize s n" and "largestPowerOfTwoLessThan (levelSize s n) = 2 ^ (t - s)" and "m \<le> 2 ^ t \<longleftrightarrow> i < 2 ^ (t - s)"
  shows "m \<le> 2 ^ t \<Longrightarrow> leadsTo sha i s m (2 ^ t) seed q ho x \<Longrightarrow> nodeHash sha x y = Some r \<Longrightarrow>
      leadsTo sha i s m n seed (q @ [y]) ho r"
    and "2 ^ t < m \<Longrightarrow> leadsTo sha (i - 2 ^ (t - s)) s (m - 2 ^ t) (n - 2 ^ t) seed q ho y \<Longrightarrow> nodeHash sha x y = Some r \<Longrightarrow>
      nodeHash sha x ho = Some ho' \<Longrightarrow> leadsTo sha i s m n seed (q @ [x]) ho' r"
  using assms
  by (simp_all add: leadsTo_def pathLength.simps [of i "levelSize s n"] conRoot.simps [of sha m n] Let_def not_le
      levelSize_power levelSize_shift joinRight_def joinLeft_def)

lemma build_leads:
  assumes "m = 2 ^ s * (i + 1)" and "even i" and "endsIn i m (length leaves)"
    and "buildConsistencyProof sha m leaves complete = Some p" and "merkleRoot sha leaves = Some r"
    and "merkleRoot sha (take m leaves) = Some ho"
  shows "if complete \<and> i = 0 then leadsTo sha i s m (length leaves) ho p ho r
    else \<exists>seed q. p = seed # q \<and> leadsTo sha i s m (length leaves) seed q ho r"
  using assms
proof (induction "length leaves" arbitrary: leaves m i complete p r ho rule: less_induct)
  case less
  let ?n = "length leaves"
  show ?case
  proof (cases "m < ?n")
    case False
    then have "?n \<le> m" by simp
    note e = endsIn_small [OF less.prems(1,3) this]
    have "levelSize s ?n \<le> 1" "?n \<le> m" using e by (metis order_refl)+
    then have "leadsTo sha i s m ?n r [] r r"
      unfolding leadsTo_def by (subst pathLength.simps, subst conRoot.simps) simp
    moreover have "ho = r" using less.prems(5,6) e by simp
    moreover have "p = (if complete then [] else [r])" using less.prems(4,5) e by (auto simp: buildConsistencyProof.simps split: if_splits)
    ultimately show ?thesis using e by auto
  next
    case True
    then obtain t where t: "s \<le> t" "1 < ?n" "largestPowerOfTwoLessThan ?n = 2 ^ t" "2 ^ t < ?n" "?n \<le> 2 ^ Suc t"
      "1 < levelSize s ?n" "largestPowerOfTwoLessThan (levelSize s ?n) = 2 ^ (t - s)" "m \<le> 2 ^ t \<longleftrightarrow> i < 2 ^ (t - s)"
      by (rule level_split [OF less.prems(1,2)])
    let ?l = "take (2 ^ t) leaves" and ?r = "drop (2 ^ t) leaves"
    have len: "length ?l = 2 ^ t" "length ?r = ?n - 2 ^ t" "length ?r < ?n"
      using t(4) split_shrinks [OF t(2)] by (simp_all add: t(3))
    have m0: "0 < m" using less.prems(1) by simp
    note step = leadsTo_step [OF True t(2,3,1,4,6,7,8)]
    note build = less.prems(4) [unfolded buildConsistencyProof_split [OF True m0] Let_def t(3)]
    from less.prems(5) obtain x y where xy: "merkleRoot sha ?l = Some x" "merkleRoot sha ?r = Some y" "nodeHash sha x y = Some r"
      by (auto simp: merkleRoot_split [OF t(2)] t(3) Let_def bindNode_def bind_eq_Some_conv)
    show ?thesis
    proof (cases "m \<le> 2 ^ t")
      case True
      from build True xy(2) obtain q where q: "buildConsistencyProof sha m ?l complete = Some q" "p = q @ [y]"
        by (auto simp: bind_eq_Some_conv)
      have "if complete \<and> i = 0 then leadsTo sha i s m (2 ^ t) ho q ho x
          else \<exists>seed q'. q = seed # q' \<and> leadsTo sha i s m (2 ^ t) seed q' ho x"
        using less.hyps [of ?l, unfolded len(1), OF t(4) less.prems(1,2) level_left [OF less.prems(1,2) t(1) True] q(1) xy(1)]
          less.prems(6) True by (simp add: min_absorb1)
      then show ?thesis using step(1) [OF True _ xy(3)] q(2) by (auto split: if_splits)
    next
      case False
      then have m: "2 ^ t < m" by simp
      note right = level_right [OF less.prems(1,2) t(1) \<open>m < ?n\<close> m t(5)]
      from build False xy(1) obtain q where q: "buildConsistencyProof sha (m - 2 ^ t) ?r False = Some q" "p = q @ [x]"
        by (auto simp: bind_eq_Some_conv)
      have k: "largestPowerOfTwoLessThan m = 2 ^ t" by (rule split_unique [OF m]) (use \<open>m < ?n\<close> t(5) in simp)
      have "1 < m" using m by (metis le_less_trans one_le_numeral one_le_power)
      then have "bindNode sha (merkleRoot sha ?l) (merkleRoot sha (take (m - 2 ^ t) ?r)) = Some ho"
        using less.prems(6) merkleRoot_split [of "take m leaves" sha] \<open>m < ?n\<close> m
        by (simp add: k drop_take min_absorb1 Let_def)
      then obtain ho' where o: "merkleRoot sha (take (m - 2 ^ t) ?r) = Some ho'" "nodeHash sha x ho' = Some ho"
        using xy(1) by (auto simp: bindNode_def bind_eq_Some_conv)
      have "\<exists>seed q'. q = seed # q' \<and> leadsTo sha (i - 2 ^ (t - s)) s (m - 2 ^ t) (?n - 2 ^ t) seed q' ho' y"
        using less.hyps [OF len(3) right(1,2), unfolded len(2), OF right(5) q(1) xy(2) o(1)] by simp
      then show ?thesis using step(2) [OF m _ xy(3) o(2)] q(2) right(3) by fastforce
    qed
  qed
qed

text \<open>Every prefix of a tree has a consistency proof, and the verifier accepts it: for a hash
  function whose outputs are digest texts and leaves that are such texts, \<open>consistencyProof\<close> returns a
  path with which \<open>verifyConsistency\<close> accepts the root of the first \<open>m\<close> leaves against that of all.\<close>

theorem consistency_proof_complete:
  assumes "\<And>b. isDigest (sha b)" and "list_all isDigest leaves" and "0 < m" and "m \<le> length leaves"
    and "length leaves \<le> MAX_SAFE_INTEGER"
  shows "\<exists>p ro rn. consistencyProof sha leaves (JsInteger (int m)) = Some p \<and>
    merkleRoot sha (take m leaves) = Some ro \<and> merkleRoot sha leaves = Some rn \<and>
    verifyConsistency sha \<lparr>cv_oldSize = JsInteger (int m), cv_newSize = JsInteger (int (length leaves)),
      cv_oldRoot = ro, cv_newRoot = rn, cv_auditPath = p\<rparr>"
proof -
  have "list_all isDigest (take m leaves)" using assms(2) by (auto simp: list_all_iff dest: in_set_takeD)
  then obtain ro rn where r: "merkleRoot sha (take m leaves) = Some ro" "merkleRoot sha leaves = Some rn"
    using merkleRoot_total [of sha, OF assms(1)] assms(2) by blast
  have v: "validSize (JsInteger (int m)) = Some m" "validSize (JsInteger (int (length leaves))) = Some (length leaves)"
    using assms(4,5) by (simp_all add: validSize_int)
  show ?thesis
  proof (cases "m = length leaves")
    case True
    then show ?thesis using r v assms(3)
      by (simp add: consistencyProof_def verifyConsistency_def)
  next
    case False
    then have m: "m < length leaves" using assms(4) by simp
    obtain s i where si: "m = 2 ^ s * (i + 1)" "even i" using size_level [OF assms(3)] by blast
    obtain p where p: "buildConsistencyProof sha m leaves True = Some p"
      using buildConsistencyProof_total [of sha, OF assms(1-4)] by blast
    have "endsIn i m (length leaves)" using m by (simp add: endsIn_def)
    from build_leads [OF si this p r(2,1)]
    have "verifyConsistency sha \<lparr>cv_oldSize = JsInteger (int m), cv_newSize = JsInteger (int (length leaves)),
        cv_oldRoot = ro, cv_newRoot = rn, cv_auditPath = p\<rparr>"
      unfolding verifyConsistency_seed [OF si m v] pathSeed_level [OF si] leadsTo_def
      by (auto split: if_splits)
    then show ?thesis using r v assms(3) m p by (auto simp: consistencyProof_def)
  qed
qed

lemma consistency_proof_complete_witness:
  "\<exists>p ro rn. consistencyProof checksum (map leafText ''12345'') (JsInteger 3) = Some p \<and>
    merkleRoot checksum (map leafText ''123'') = Some ro \<and> merkleRoot checksum (map leafText ''12345'') = Some rn \<and>
    verifyConsistency checksum \<lparr>cv_oldSize = JsInteger 3, cv_newSize = JsInteger 5,
      cv_oldRoot = ro, cv_newRoot = rn, cv_auditPath = p\<rparr>"
proof -
  have "list_all isDigest (map leafText ''12345'')" unfolding isDigest_def by code_simp
  from consistency_proof_complete [of checksum, OF checksum_is_digest this, of 3] show ?thesis
    by (simp add: MAX_SAFE_INTEGER_def)
qed

end
