(* ===== verification/Audit_Verifier.thy ===== *)
theory Audit_Verifier
  imports Recorder_Safety Merkle_Consistency "HOL-Library.List_Lexorder"
begin

text \<open>
  \<open>src/audit/verifier.ts\<close>: the historical verifier of ledger entries, checkpoints and observation receipts. An
  artifact is what the schema made of it, or \<open>None\<close> where the schema refused it; the suites are literals of the
  schemas and the verifier's hash, signature and authorization collaborators are the fields of \<open>artifactVerifier\<close>.
  The clock is read once per verification.
\<close>

subsection \<open>Dimensions of a report\<close>

datatype verdict = ValidVerdict | InvalidVerdict | IndeterminateVerdict

record auditDimension =
  dm_verdict :: verdict
  dm_reasonCodes :: "string list"

definition INDETERMINATE_REASONS :: "string list" where
  "INDETERMINATE_REASONS = [''AUDIT_NOT_EVALUATED'', ''AUDIT_KEY_BOUNDARY_UNRESOLVED'']"

definition unitOrder :: "string \<Rightarrow> nat list" where
  "unitOrder s = map of_char s"

definition dimension :: "verdict \<Rightarrow> string list \<Rightarrow> auditDimension" where
  "dimension v reasonCodes = \<lparr>dm_verdict = v, dm_reasonCodes = sort_key unitOrder (js_set reasonCodes)\<rparr>"

definition verdictOf :: "string list \<Rightarrow> verdict" where
  "verdictOf reasons =
     (if reasons = [] then ValidVerdict
      else if list_all (\<lambda>r. r \<in> set INDETERMINATE_REASONS) reasons then IndeterminateVerdict else InvalidVerdict)"

abbreviation reasonIf :: "bool \<Rightarrow> string \<Rightarrow> string list" where
  "reasonIf b code \<equiv> (if b then [code] else [])"

definition mergeAuditDimensions :: "auditDimension list \<Rightarrow> auditDimension" where
  "mergeAuditDimensions values =
     (if values = [] then dimension IndeterminateVerdict [''AUDIT_NOT_EVALUATED'']
      else dimension
        (if list_ex (\<lambda>d. dm_verdict d = InvalidVerdict) values then InvalidVerdict
         else if list_all (\<lambda>d. dm_verdict d = ValidVerdict) values then ValidVerdict else IndeterminateVerdict)
        (concat (map dm_reasonCodes values)))"

subsection \<open>The policy\<close>

record checkpointBounds =
  cb_validFromCheckpoint :: "digest option"
  cb_validUntilCheckpoint :: "digest option"

record keyPolicy = checkpointBounds +
  kp_signer :: signerRef
  kp_validFrom :: "int option"
  kp_validUntil :: "int option"

record epochPolicy = checkpointBounds +
  tp_ledgerId :: string
  tp_ledgerEpochId :: string
  tp_recorderKeys :: "keyPolicy list"

datatype keyRevocationMode = AsObserved | CurrentKeys | BothModes

record verificationPolicy =
  pol_policyId :: string
  pol_trustedLedgerEpochs :: "epochPolicy list"
  pol_trustedObservers :: "keyPolicy list"
  pol_authorizedExporterKeys :: "keyPolicy list list"
  pol_acceptedIntegritySuites :: "string list"
  pol_acceptedAlgorithms :: "string list"
  pol_keyRevocationMode :: keyRevocationMode
  pol_requiredCheckpointFreshnessMs :: "int option"
  pol_requiredAuditProfile :: "nat option"

text \<open>A policy the schema refused still names its text id, if it has one.\<close>

datatype givenPolicy = RefusedPolicy "string option" | GoodPolicy verificationPolicy

definition keyIsValidAt :: "keyPolicy \<Rightarrow> int \<Rightarrow> bool" where
  "keyIsValidAt k t \<longleftrightarrow> (case kp_validFrom k of None \<Rightarrow> True | Some f \<Rightarrow> f \<le> t) \<and>
     (case kp_validUntil k of None \<Rightarrow> True | Some u \<Rightarrow> t \<le> u)"

subsection \<open>Checkpoints, observations, boundaries\<close>

record checkpointCore =
  ck_checkpointId :: string
  ck_ledgerId :: string
  ck_ledgerEpochId :: string
  ck_treeSize :: nat
  ck_firstSequence :: nat
  ck_lastSequence :: nat
  ck_rootDigest :: digest
  ck_headEntryDigest :: digest
  ck_previousCheckpointDigest :: "digest option"
  ck_createdAt :: int
  ck_issuer :: signerRef

record signedCheckpoint =
  sk_core :: checkpointCore
  sk_checkpointDigest :: digest
  sk_jws :: string

record observationCore =
  oc_observerId :: string
  oc_observer :: signerRef
  oc_ledgerId :: string
  oc_ledgerEpochId :: string
  oc_checkpointDigest :: digest
  oc_treeSize :: nat
  oc_observedAt :: int
  oc_previousObservationDigest :: "digest option"

record observationReceipt =
  or_core :: observationCore
  or_observationDigest :: digest
  or_jws :: string

record checkpointBoundary = ledgerRef +
  by_treeSize :: nat

type_synonym checkpointBoundaries = "(digest, checkpointBoundary) jsmap"

datatype boundStatus = Within | Unresolved | Outside

datatype resolvedBound = NoBound | UnknownBound | AtSize nat

definition resolveBound :: "checkpointBoundaries \<Rightarrow> string \<Rightarrow> string \<Rightarrow> digest option \<Rightarrow> resolvedBound" where
  "resolveBound boundaries ledgerId epochId d = (case d of
       None \<Rightarrow> NoBound
     | Some digest \<Rightarrow> (case jm_get boundaries digest of
           None \<Rightarrow> UnknownBound
         | Some b \<Rightarrow> if lr_ledgerId b = ledgerId \<and> lr_ledgerEpochId b = epochId then AtSize (by_treeSize b) else UnknownBound))"

definition positionWithin ::
  "'a checkpointBounds_scheme \<Rightarrow> string \<Rightarrow> string \<Rightarrow> nat \<Rightarrow> checkpointBoundaries \<Rightarrow> boundStatus" where
  "positionWithin bounds ledgerId epochId position boundaries =
     (let from = resolveBound boundaries ledgerId epochId (cb_validFromCheckpoint bounds);
          until = resolveBound boundaries ledgerId epochId (cb_validUntilCheckpoint bounds)
      in if (case from of AtSize n \<Rightarrow> position \<le> n | _ \<Rightarrow> False) \<or> (case until of AtSize n \<Rightarrow> n < position | _ \<Rightarrow> False) then Outside
         else if from = UnknownBound \<or> until = UnknownBound then Unresolved else Within)"

definition strictest :: "boundStatus list \<Rightarrow> boundStatus" where
  "strictest values = (if Outside \<in> set values then Outside else if Unresolved \<in> set values then Unresolved else Within)"

fun bestTrust ::
  "keyPolicy list \<Rightarrow> signerRef \<Rightarrow> int \<Rightarrow> boundStatus \<Rightarrow> (keyPolicy \<Rightarrow> boundStatus) \<Rightarrow> boundStatus \<Rightarrow> boundStatus" where
  "bestTrust [] signer t epoch place best = best"
| "bestTrust (key # keys) signer t epoch place best =
     (if \<not> sameSigner (kp_signer key) signer \<or> \<not> keyIsValidAt key t then bestTrust keys signer t epoch place best
      else (case strictest [epoch, place key] of
          Within \<Rightarrow> Within
        | Unresolved \<Rightarrow> bestTrust keys signer t epoch place Unresolved
        | Outside \<Rightarrow> bestTrust keys signer t epoch place best))"

definition keyTrust ::
  "keyPolicy list \<Rightarrow> signerRef \<Rightarrow> int \<Rightarrow> string \<Rightarrow> string \<Rightarrow> nat \<Rightarrow> checkpointBoundaries \<Rightarrow> checkpointBounds option \<Rightarrow> boundStatus" where
  "keyTrust keys signer t ledgerId epochId position boundaries epochBounds =
     bestTrust keys signer t
       (case epochBounds of None \<Rightarrow> Within | Some b \<Rightarrow> positionWithin b ledgerId epochId position boundaries)
       (\<lambda>key. positionWithin key ledgerId epochId position boundaries) Outside"

definition keyIsCurrent :: "keyPolicy list \<Rightarrow> signerRef \<Rightarrow> int \<Rightarrow> bool" where
  "keyIsCurrent keys signer now \<longleftrightarrow>
     list_ex (\<lambda>key. sameSigner (kp_signer key) signer \<and> keyIsValidAt key now \<and> cb_validUntilCheckpoint key = None) keys"

definition epochPolicyOf :: "verificationPolicy \<Rightarrow> string \<Rightarrow> string \<Rightarrow> epochPolicy option" where
  "epochPolicyOf pol ledgerId epochId =
     List.find (\<lambda>p. tp_ledgerId p = ledgerId \<and> tp_ledgerEpochId p = epochId) (pol_trustedLedgerEpochs pol)"

definition recorderKeysOf :: "verificationPolicy \<Rightarrow> string \<Rightarrow> string \<Rightarrow> keyPolicy list" where
  "recorderKeysOf pol ledgerId epochId = (case epochPolicyOf pol ledgerId epochId of None \<Rightarrow> [] | Some p \<Rightarrow> tp_recorderKeys p)"

subsection \<open>The verifier\<close>

record artifactVerifier =
  av_sha :: "bytes \<Rightarrow> string"
  av_digestEvent :: "producerEvent \<Rightarrow> digest"
  av_digestManifest :: "evidenceRef list \<Rightarrow> digest"
  av_digestEntry :: "entryCore \<Rightarrow> digest"
  av_digestCheckpoint :: "checkpointCore \<Rightarrow> digest"
  av_digestObservation :: "observationCore \<Rightarrow> digest"
  av_verifyReceipt :: "receiptCore \<Rightarrow> string \<Rightarrow> signerRef \<Rightarrow> bool"
  av_verifyCheckpoint :: "checkpointCore \<Rightarrow> string \<Rightarrow> signerRef \<Rightarrow> bool"
  av_verifyObservation :: "observationCore \<Rightarrow> string \<Rightarrow> signerRef \<Rightarrow> bool"
  av_verifiedAt :: "int option"
  av_maxClockSkewMs :: "int option"
  av_authorization :: "(signedEntry list \<Rightarrow> verificationPolicy \<Rightarrow> auditDimension \<times> auditDimension) option"

definition DEFAULT_MAX_CLOCK_SKEW_MS :: int where
  "DEFAULT_MAX_CLOCK_SKEW_MS = 120000"

definition ENTRY_SUITE :: string where
  "ENTRY_SUITE = ''KYA-AUDIT-JCS-SHA256-JWS-2026''"

definition CHECKPOINT_SUITE :: string where
  "CHECKPOINT_SUITE = ''KYA-AUDIT-RFC9162-SHA256-JWS-2026''"

record verificationReport =
  vr_policyId :: string
  vr_verifiedAt :: "int option"
  vr_cryptographicIntegrity :: auditDimension
  vr_chainIntegrity :: auditDimension
  vr_checkpointIntegrity :: auditDimension
  vr_anchorIntegrity :: auditDimension
  vr_scopeEvidenceCompleteness :: auditDimension
  vr_authorizedAsObserved :: auditDimension
  vr_currentAuthorization :: auditDimension

definition invalidPolicyReport :: "string option \<Rightarrow> verificationReport" where
  "invalidPolicyReport policyId =
     (let invalid = dimension InvalidVerdict [''AUDIT_VERIFICATION_POLICY_INVALID''];
          unknown = dimension IndeterminateVerdict [''AUDIT_NOT_EVALUATED'']
      in \<lparr>vr_policyId = (case policyId of None \<Rightarrow> ''invalid-policy'' | Some i \<Rightarrow> i), vr_verifiedAt = None,
          vr_cryptographicIntegrity = invalid, vr_chainIntegrity = invalid, vr_checkpointIntegrity = invalid,
          vr_anchorIntegrity = invalid, vr_scopeEvidenceCompleteness = invalid,
          vr_authorizedAsObserved = unknown, vr_currentAuthorization = unknown\<rparr>)"

definition requireValid :: "bool \<Rightarrow> auditDimension \<Rightarrow> auditDimension" where
  "requireValid unmet d = (if unmet then dimension InvalidVerdict (dm_reasonCodes d @ [''AUDIT_REQUIRED_PROFILE_UNMET'']) else d)"

definition applyRequiredAuditProfile :: "verificationReport \<Rightarrow> verificationPolicy \<Rightarrow> bool \<Rightarrow> verificationReport" where
  "applyRequiredAuditProfile report pol supportingAnchors = (case pol_requiredAuditProfile pol of
       None \<Rightarrow> report
     | Some level \<Rightarrow>
         (let unmet = (\<lambda>n d. n < level \<and> dm_verdict d \<noteq> ValidVerdict)
          in report\<lparr>
            vr_cryptographicIntegrity := requireValid (unmet 0 (vr_cryptographicIntegrity report)) (vr_cryptographicIntegrity report),
            vr_chainIntegrity := requireValid (unmet 1 (vr_chainIntegrity report)) (vr_chainIntegrity report),
            vr_checkpointIntegrity := requireValid (unmet 2 (vr_checkpointIntegrity report)) (vr_checkpointIntegrity report),
            vr_anchorIntegrity := requireValid (unmet 3 (vr_anchorIntegrity report) \<or> 3 < level \<and> \<not> supportingAnchors)
              (vr_anchorIntegrity report)\<rparr>))"

subsection \<open>Entries\<close>

definition boundariesOf :: "artifactVerifier \<Rightarrow> signedCheckpoint option list \<Rightarrow> checkpointBoundaries" where
  "boundariesOf av checkpoints = fold (\<lambda>candidate result. case candidate of
       None \<Rightarrow> result
     | Some c \<Rightarrow> jm_set (av_digestCheckpoint av (sk_core c))
         \<lparr>lr_ledgerId = ck_ledgerId (sk_core c), lr_ledgerEpochId = ck_ledgerEpochId (sk_core c), by_treeSize = ck_treeSize (sk_core c)\<rparr> result)
     checkpoints []"

definition trustReasons :: "boundStatus \<Rightarrow> string \<Rightarrow> string list" where
  "trustReasons trust untrusted =
     reasonIf (trust = Outside) untrusted @ reasonIf (trust = Unresolved) ''AUDIT_KEY_BOUNDARY_UNRESOLVED''"

definition recorderTrust ::
  "verificationPolicy \<Rightarrow> string \<Rightarrow> string \<Rightarrow> signerRef \<Rightarrow> int \<Rightarrow> nat \<Rightarrow> checkpointBoundaries \<Rightarrow> boundStatus" where
  "recorderTrust pol ledgerId epochId signer t position boundaries =
     keyTrust (recorderKeysOf pol ledgerId epochId) signer t ledgerId epochId position boundaries
       (map_option checkpointBounds.truncate (epochPolicyOf pol ledgerId epochId))"

definition verifyEntry :: "artifactVerifier \<Rightarrow> verificationPolicy \<Rightarrow> checkpointBoundaries \<Rightarrow> signedEntry \<Rightarrow> string list" where
  "verifyEntry av pol boundaries entry =
     (let core = se_core entry;
          trust = recorderTrust pol (ec_ledgerId core) (ec_ledgerEpochId core) (ec_recorder core) (ec_recordedAt core)
            (ec_sequence core + 1) boundaries;
          eventDigest = av_digestEvent av (ec_event core)
      in reasonIf (ENTRY_SUITE \<notin> set (pol_acceptedIntegritySuites pol)) ''AUDIT_UNSUPPORTED_SUITE'' @
         reasonIf (sr_alg (ec_recorder core) \<notin> set (pol_acceptedAlgorithms pol)) ''AUDIT_UNSUPPORTED_ALGORITHM'' @
         trustReasons trust ''AUDIT_UNTRUSTED_RECORDER'' @
         reasonIf (eventDigest \<noteq> ec_eventDigest core \<or> eventDigest \<noteq> se_eventDigest entry) ''AUDIT_EVENT_DIGEST_MISMATCH'' @
         reasonIf (av_digestManifest av (collectAuditEvidenceRefs (ec_event core)) \<noteq> ec_evidenceManifestDigest core)
           ''AUDIT_EVIDENCE_MANIFEST_DIGEST_MISMATCH'' @
         reasonIf (av_digestEntry av core \<noteq> se_entryDigest entry) ''AUDIT_ENTRY_DIGEST_MISMATCH'' @
         reasonIf (buildAuditRecorderReceiptCore core (se_entryDigest entry) \<noteq> se_receiptCore entry) ''AUDIT_RECEIPT_MISMATCH'' @
         reasonIf (\<not> av_verifyReceipt av (se_receiptCore entry) (se_receiptJws entry) (ec_recorder core)) ''AUDIT_SIGNATURE_INVALID'')"

definition verifyChainPosition :: "signedEntry \<Rightarrow> signedEntry option \<Rightarrow> string list" where
  "verifyChainPosition entry previous =
     (let core = se_core entry
      in case previous of
           None \<Rightarrow>
             (if ec_sequence core = 0
              then reasonIf (ec_previousEntryDigest core \<noteq> None \<or> pe_eventType (ec_event core) \<noteq> ''ledger.epoch.started'') ''AUDIT_GENESIS_INVALID''
              else reasonIf (ec_previousEntryDigest core = None) ''AUDIT_PREDECESSOR_MISMATCH'')
         | Some prev \<Rightarrow>
             reasonIf (ec_ledgerId core \<noteq> ec_ledgerId (se_core prev) \<or> ec_ledgerEpochId core \<noteq> ec_ledgerEpochId (se_core prev))
               ''AUDIT_LEDGER_SCOPE_MISMATCH'' @
             reasonIf (ec_sequence core \<noteq> ec_sequence (se_core prev) + 1) ''AUDIT_SEQUENCE_GAP'' @
             reasonIf (ec_previousEntryDigest core \<noteq> Some (se_entryDigest prev)) ''AUDIT_PREDECESSOR_MISMATCH'')"

text \<open>The reasons found over the candidates, cryptographic and of the chain, and the entries that have the shape of one.\<close>

fun verifyAll ::
  "artifactVerifier \<Rightarrow> verificationPolicy \<Rightarrow> checkpointBoundaries \<Rightarrow> signedEntry option list \<Rightarrow> signedEntry option \<Rightarrow>
     string list \<times> string list \<times> signedEntry list" where
  "verifyAll av pol boundaries [] previous = ([], [], [])"
| "verifyAll av pol boundaries (None # cs) previous =
     (let (crypto, chain, es) = verifyAll av pol boundaries cs previous
      in (''AUDIT_SCHEMA_INVALID'' # crypto, ''AUDIT_SCHEMA_INVALID'' # chain, es))"
| "verifyAll av pol boundaries (Some e # cs) previous =
     (let (crypto, chain, es) = verifyAll av pol boundaries cs (Some e)
      in (verifyEntry av pol boundaries e @ crypto, verifyChainPosition e previous @ chain, e # es))"

definition verifyCurrentKeys ::
  "artifactVerifier \<Rightarrow> verificationPolicy \<Rightarrow> signedEntry list \<Rightarrow> signedCheckpoint list \<Rightarrow> observationReceipt list \<Rightarrow> signerRef option \<Rightarrow>
     auditDimension option" where
  "verifyCurrentKeys av pol entries checkpoints observations exporter =
     (if pol_keyRevocationMode pol = AsObserved then None
      else Some (case av_verifiedAt av of
          None \<Rightarrow> dimension IndeterminateVerdict [''AUDIT_NOT_EVALUATED'']
        | Some now \<Rightarrow>
            (if list_all (\<lambda>e. keyIsCurrent (recorderKeysOf pol (ec_ledgerId (se_core e)) (ec_ledgerEpochId (se_core e))) (ec_recorder (se_core e)) now) entries \<and>
                list_all (\<lambda>c. keyIsCurrent (recorderKeysOf pol (ck_ledgerId (sk_core c)) (ck_ledgerEpochId (sk_core c))) (ck_issuer (sk_core c)) now) checkpoints \<and>
                list_all (\<lambda>r. keyIsCurrent (pol_trustedObservers pol) (oc_observer (or_core r)) now) observations \<and>
                (case exporter of None \<Rightarrow> True | Some s \<Rightarrow> keyIsCurrent (concat (pol_authorizedExporterKeys pol)) s now)
             then dimension ValidVerdict [] else dimension InvalidVerdict [''AUDIT_KEY_NOT_CURRENT''])))"

definition verifyEntries ::
  "artifactVerifier \<Rightarrow> signedEntry option list \<Rightarrow> givenPolicy \<Rightarrow> signedCheckpoint option list \<Rightarrow> verificationReport" where
  "verifyEntries av candidates policy checkpoints = (case policy of
       RefusedPolicy i \<Rightarrow> invalidPolicyReport i
     | GoodPolicy pol \<Rightarrow>
         (let (crypto, chain0, es) = verifyAll av pol (boundariesOf av checkpoints) candidates None;
              chain = reasonIf (candidates = []) ''AUDIT_BUNDLE_SELECTION_INCOMPLETE'' @ chain0;
              (asObserved, current) = (case av_authorization av of
                  None \<Rightarrow> (dimension IndeterminateVerdict [if list_ex (\<lambda>e. pe_authorization (ec_event (se_core e)) \<noteq> None) es
                      then ''AUDIT_AUTHORIZATION_COLLATERAL_NOT_VERIFIED'' else ''AUDIT_AUTHORIZATION_EVIDENCE_MISSING''],
                    dimension IndeterminateVerdict [''AUDIT_CURRENT_AUTHORIZATION_NOT_EVALUATED''])
                | Some authorization \<Rightarrow> authorization es pol)
          in applyRequiredAuditProfile
            \<lparr>vr_policyId = pol_policyId pol, vr_verifiedAt = av_verifiedAt av,
             vr_cryptographicIntegrity = dimension (if candidates \<noteq> [] then verdictOf crypto else InvalidVerdict) crypto,
             vr_chainIntegrity = dimension (if chain = [] \<and> candidates \<noteq> [] then ValidVerdict else InvalidVerdict) chain,
             vr_checkpointIntegrity = dimension IndeterminateVerdict [''AUDIT_CHECKPOINT_MISSING''],
             vr_anchorIntegrity = dimension IndeterminateVerdict [''AUDIT_OBSERVER_EVIDENCE_MISSING''],
             vr_scopeEvidenceCompleteness = dimension (if candidates \<noteq> [] then IndeterminateVerdict else InvalidVerdict) [''AUDIT_NOT_EVALUATED''],
             vr_authorizedAsObserved = asObserved,
             vr_currentAuthorization = (case verifyCurrentKeys av pol es [] [] None of
                 None \<Rightarrow> current
               | Some currentKeys \<Rightarrow> mergeAuditDimensions [current, currentKeys])\<rparr> pol False))"

subsection \<open>Checkpoints and observations\<close>

text \<open>\<open>Inl\<close> is a refusal before the core was read, \<open>Inr\<close> the core with the reasons found.\<close>

definition checkSignedCheckpoint ::
  "artifactVerifier \<Rightarrow> signedCheckpoint option \<Rightarrow> givenPolicy \<Rightarrow> signedCheckpoint option list \<Rightarrow> auditDimension + checkpointCore \<times> string list" where
  "checkSignedCheckpoint av checkpoint policy context = (case policy of
       RefusedPolicy _ \<Rightarrow> Inl (dimension InvalidVerdict [''AUDIT_VERIFICATION_POLICY_INVALID''])
     | GoodPolicy pol \<Rightarrow> (case checkpoint of
           None \<Rightarrow> Inl (dimension InvalidVerdict [''AUDIT_SCHEMA_INVALID''])
         | Some validated \<Rightarrow>
             (let core = sk_core validated;
                  trust = recorderTrust pol (ck_ledgerId core) (ck_ledgerEpochId core) (ck_issuer core) (ck_createdAt core)
                    (ck_treeSize core) (boundariesOf av (context @ [Some validated]))
              in Inr (core,
                reasonIf (CHECKPOINT_SUITE \<notin> set (pol_acceptedIntegritySuites pol)) ''AUDIT_UNSUPPORTED_SUITE'' @
                reasonIf (sr_alg (ck_issuer core) \<notin> set (pol_acceptedAlgorithms pol)) ''AUDIT_UNSUPPORTED_ALGORITHM'' @
                trustReasons trust ''AUDIT_UNTRUSTED_RECORDER'' @
                reasonIf (av_digestCheckpoint av core \<noteq> sk_checkpointDigest validated) ''AUDIT_CHECKPOINT_DIGEST_MISMATCH'' @
                reasonIf (\<not> av_verifyCheckpoint av core (sk_jws validated) (ck_issuer core)) ''AUDIT_CHECKPOINT_SIGNATURE_INVALID''))))"

definition rangeMatches :: "checkpointCore \<Rightarrow> signedEntry list \<Rightarrow> bool" where
  "rangeMatches core entries \<longleftrightarrow> ck_treeSize core \<le> MAX_SAFE_INTEGER \<and> ck_treeSize core = length entries \<and> entries \<noteq> [] \<and>
     ec_sequence (se_core (hd entries)) = ck_firstSequence core \<and> ec_sequence (se_core (last entries)) = ck_lastSequence core \<and>
     se_entryDigest (last entries) = ck_headEntryDigest core \<and>
     list_all (\<lambda>e. ec_ledgerId (se_core e) = ck_ledgerId core \<and> ec_ledgerEpochId (se_core e) = ck_ledgerEpochId core) entries"

definition verifyCheckpoint ::
  "artifactVerifier \<Rightarrow> signedCheckpoint option \<Rightarrow> signedEntry list \<Rightarrow> givenPolicy \<Rightarrow> signedCheckpoint option list \<Rightarrow> auditDimension option" where
  "verifyCheckpoint av checkpoint entries policy context = (case checkSignedCheckpoint av checkpoint policy context of
       Inl result \<Rightarrow> Some result
     | Inr (core, reasons) \<Rightarrow>
         (if \<not> rangeMatches core entries
          then let all = reasons @ [''AUDIT_CHECKPOINT_RANGE_MISMATCH''] in Some (dimension (verdictOf all) all)
          else map_option (\<lambda>root. let all = reasons @ reasonIf (root \<noteq> ck_rootDigest core) ''AUDIT_CHECKPOINT_ROOT_MISMATCH''
             in dimension (verdictOf all) all) (merkleRoot (av_sha av) (map se_entryDigest entries))))"

definition verifySignedCheckpoint ::
  "artifactVerifier \<Rightarrow> signedCheckpoint option \<Rightarrow> givenPolicy \<Rightarrow> signedCheckpoint option list \<Rightarrow> auditDimension" where
  "verifySignedCheckpoint av checkpoint policy context = (case checkSignedCheckpoint av checkpoint policy context of
       Inl result \<Rightarrow> result
     | Inr (core, reasons) \<Rightarrow>
         (let all = reasons @ reasonIf (ck_firstSequence core \<noteq> 0 \<or> ck_lastSequence core + 1 \<noteq> ck_treeSize core) ''AUDIT_CHECKPOINT_RANGE_MISMATCH''
          in dimension (verdictOf all) all))"

definition freshnessReasons :: "artifactVerifier \<Rightarrow> verificationPolicy \<Rightarrow> int \<Rightarrow> string list" where
  "freshnessReasons av pol observedAt = (case pol_requiredCheckpointFreshnessMs pol of
       None \<Rightarrow> []
     | Some fresh \<Rightarrow> (case av_verifiedAt av of
           None \<Rightarrow> [''AUDIT_NOT_EVALUATED'']
         | Some now \<Rightarrow>
             (if observedAt > now + (case av_maxClockSkewMs av of None \<Rightarrow> DEFAULT_MAX_CLOCK_SKEW_MS | Some s \<Rightarrow> s) then [''AUDIT_OBSERVATION_FUTURE_DATED'']
              else reasonIf (now - observedAt > fresh) ''AUDIT_OBSERVATION_STALE'')))"

definition verifyObservation ::
  "artifactVerifier \<Rightarrow> signedCheckpoint option \<Rightarrow> observationReceipt option \<Rightarrow> givenPolicy \<Rightarrow> signedCheckpoint option list \<Rightarrow> auditDimension" where
  "verifyObservation av checkpoint receipt policy context = (case policy of
       RefusedPolicy _ \<Rightarrow> dimension InvalidVerdict [''AUDIT_VERIFICATION_POLICY_INVALID'']
     | GoodPolicy pol \<Rightarrow> (case (checkpoint, receipt) of
           (Some c, Some r) \<Rightarrow>
             (let core = or_core r;
                  trust = keyTrust (pol_trustedObservers pol) (oc_observer core) (oc_observedAt core) (oc_ledgerId core) (oc_ledgerEpochId core)
                    (oc_treeSize core) (boundariesOf av (context @ [Some c])) None;
                  all = reasonIf (oc_ledgerId core \<noteq> ck_ledgerId (sk_core c) \<or> oc_ledgerEpochId core \<noteq> ck_ledgerEpochId (sk_core c) \<or>
                      oc_checkpointDigest core \<noteq> sk_checkpointDigest c \<or> oc_treeSize core \<noteq> ck_treeSize (sk_core c)) ''AUDIT_OBSERVATION_SCOPE_MISMATCH'' @
                    reasonIf (sr_alg (oc_observer core) \<notin> set (pol_acceptedAlgorithms pol)) ''AUDIT_UNSUPPORTED_ALGORITHM'' @
                    trustReasons trust ''AUDIT_UNTRUSTED_OBSERVER'' @ freshnessReasons av pol (oc_observedAt core) @
                    reasonIf (av_digestObservation av core \<noteq> or_observationDigest r) ''AUDIT_OBSERVATION_DIGEST_MISMATCH'' @
                    reasonIf (\<not> av_verifyObservation av core (or_jws r) (oc_observer core)) ''AUDIT_OBSERVATION_SIGNATURE_INVALID''
              in dimension (verdictOf all) all)
         | _ \<Rightarrow> dimension InvalidVerdict [''AUDIT_SCHEMA_INVALID'']))"

subsection \<open>What the verdicts mean\<close>

lemma dimension_verdict [simp]: "dm_verdict (dimension v rs) = v"
  by (simp add: dimension_def)

lemma dimension_reasons [simp]: "set (dm_reasonCodes (dimension v rs)) = set rs"
  by (simp add: dimension_def)

lemma verdictOf_valid [simp]: "verdictOf rs = ValidVerdict \<longleftrightarrow> rs = []"
  by (simp add: verdictOf_def)

lemma bestTrust_Within:
  "best \<noteq> Within \<Longrightarrow> bestTrust keys signer t epoch place best = Within \<longleftrightarrow>
     (\<exists>key \<in> set keys. sameSigner (kp_signer key) signer \<and> keyIsValidAt key t \<and> epoch = Within \<and> place key = Within)"
proof (induction keys arbitrary: best)
  case (Cons key keys)
  then show ?case by (cases epoch; cases "place key") (auto simp: strictest_def)
qed simp

text \<open>A key the policy trusts for a recorder of this epoch, at this time and place.\<close>

definition trustedKey :: "verificationPolicy \<Rightarrow> string \<Rightarrow> string \<Rightarrow> signerRef \<Rightarrow> int \<Rightarrow> nat \<Rightarrow> checkpointBoundaries \<Rightarrow> bool" where
  "trustedKey pol ledgerId epochId signer t position boundaries \<longleftrightarrow>
     (\<exists>p key. epochPolicyOf pol ledgerId epochId = Some p \<and> key \<in> set (tp_recorderKeys p) \<and> sameSigner (kp_signer key) signer \<and>
        keyIsValidAt key t \<and> positionWithin p ledgerId epochId position boundaries = Within \<and>
        positionWithin key ledgerId epochId position boundaries = Within)"

lemma positionWithin_truncate [simp]:
  "positionWithin (checkpointBounds.truncate p) ledgerId epochId position boundaries = positionWithin p ledgerId epochId position boundaries"
  by (simp add: positionWithin_def checkpointBounds.truncate_def)

lemma recorderTrust_Within: "recorderTrust pol ledgerId epochId signer t position boundaries = Within \<longleftrightarrow>
    trustedKey pol ledgerId epochId signer t position boundaries"
  by (cases "epochPolicyOf pol ledgerId epochId")
    (auto simp: recorderTrust_def keyTrust_def recorderKeysOf_def bestTrust_Within trustedKey_def)

lemma trustReasons_Nil [simp]: "trustReasons b code = [] \<longleftrightarrow> b = Within"
  by (cases b) (simp_all add: trustReasons_def)

definition authenticEntry :: "artifactVerifier \<Rightarrow> verificationPolicy \<Rightarrow> checkpointBoundaries \<Rightarrow> signedEntry \<Rightarrow> bool" where
  "authenticEntry av pol boundaries e \<longleftrightarrow>
     ENTRY_SUITE \<in> set (pol_acceptedIntegritySuites pol) \<and> sr_alg (ec_recorder (se_core e)) \<in> set (pol_acceptedAlgorithms pol) \<and>
     trustedKey pol (ec_ledgerId (se_core e)) (ec_ledgerEpochId (se_core e)) (ec_recorder (se_core e)) (ec_recordedAt (se_core e))
       (ec_sequence (se_core e) + 1) boundaries \<and>
     av_digestEvent av (ec_event (se_core e)) = ec_eventDigest (se_core e) \<and> se_eventDigest e = ec_eventDigest (se_core e) \<and>
     av_digestManifest av (collectAuditEvidenceRefs (ec_event (se_core e))) = ec_evidenceManifestDigest (se_core e) \<and>
     av_digestEntry av (se_core e) = se_entryDigest e \<and>
     se_receiptCore e = buildAuditRecorderReceiptCore (se_core e) (se_entryDigest e) \<and>
     av_verifyReceipt av (se_receiptCore e) (se_receiptJws e) (ec_recorder (se_core e))"

lemma verifyEntry_Nil: "verifyEntry av pol boundaries e = [] \<longleftrightarrow> authenticEntry av pol boundaries e"
  by (auto simp: verifyEntry_def authenticEntry_def Let_def recorderTrust_Within)

definition follows :: "signedEntry \<Rightarrow> signedEntry \<Rightarrow> bool" where
  "follows prev e \<longleftrightarrow> ec_ledgerId (se_core e) = ec_ledgerId (se_core prev) \<and> ec_ledgerEpochId (se_core e) = ec_ledgerEpochId (se_core prev) \<and>
     ec_sequence (se_core e) = ec_sequence (se_core prev) + 1 \<and> ec_previousEntryDigest (se_core e) = Some (se_entryDigest prev)"

definition startsLedger :: "signedEntry \<Rightarrow> bool" where
  "startsLedger e \<longleftrightarrow> (if ec_sequence (se_core e) = 0
     then ec_previousEntryDigest (se_core e) = None \<and> pe_eventType (ec_event (se_core e)) = ''ledger.epoch.started''
     else ec_previousEntryDigest (se_core e) \<noteq> None)"

lemma verifyChainPosition_Nil:
  "verifyChainPosition e previous = [] \<longleftrightarrow> (case previous of None \<Rightarrow> startsLedger e | Some prev \<Rightarrow> follows prev e)"
  by (cases previous) (auto simp: verifyChainPosition_def Let_def startsLedger_def follows_def)

lemma verifyAll_Nil:
  "fst (verifyAll av pol bs candidates previous) = [] \<longleftrightarrow> (\<exists>es. candidates = map Some es \<and> list_all (authenticEntry av pol bs) es)"
  "fst (snd (verifyAll av pol bs candidates previous)) = [] \<longleftrightarrow> (\<exists>es. candidates = map Some es \<and>
     (es \<noteq> [] \<longrightarrow> (case previous of None \<Rightarrow> startsLedger (hd es) | Some prev \<Rightarrow> follows prev (hd es))) \<and> successively follows es)"
proof (induction candidates arbitrary: previous)
  case Nil
  { case 1 show ?case by simp }
  { case 2 show ?case by simp }
next
  case (Cons c cs)
  { case 1
    show ?case
    proof (cases c)
      case (Some e)
      then show ?thesis using Cons.IH(1) [of "Some e"] by (auto simp: split_beta verifyEntry_Nil Cons_eq_map_conv)
    qed (auto simp: split_beta) }
  { case 2
    show ?case
    proof (cases c)
      case (Some e)
      then show ?thesis using Cons.IH(2) [of "Some e"]
        by (cases previous; auto simp: split_beta verifyChainPosition_Nil Cons_eq_map_conv successively_Cons)
    qed (auto simp: split_beta) }
qed

definition verifiedChain :: "artifactVerifier \<Rightarrow> verificationPolicy \<Rightarrow> checkpointBoundaries \<Rightarrow> signedEntry list \<Rightarrow> bool" where
  "verifiedChain av pol boundaries es \<longleftrightarrow> es \<noteq> [] \<and> list_all (authenticEntry av pol boundaries) es \<and> startsLedger (hd es) \<and> successively follows es"

lemma profile_valid:
  "dm_verdict (vr_cryptographicIntegrity (applyRequiredAuditProfile r pol b)) = ValidVerdict \<longleftrightarrow> dm_verdict (vr_cryptographicIntegrity r) = ValidVerdict"
  "dm_verdict (vr_chainIntegrity (applyRequiredAuditProfile r pol b)) = ValidVerdict \<longleftrightarrow> dm_verdict (vr_chainIntegrity r) = ValidVerdict"
  by (auto simp: applyRequiredAuditProfile_def requireValid_def Let_def split: option.split)

lemma report_valid:
  "dm_verdict (vr_cryptographicIntegrity (verifyEntries av candidates (GoodPolicy pol) checkpoints)) = ValidVerdict \<longleftrightarrow>
     candidates \<noteq> [] \<and> fst (verifyAll av pol (boundariesOf av checkpoints) candidates None) = []"
  "dm_verdict (vr_chainIntegrity (verifyEntries av candidates (GoodPolicy pol) checkpoints)) = ValidVerdict \<longleftrightarrow>
     candidates \<noteq> [] \<and> fst (snd (verifyAll av pol (boundariesOf av checkpoints) candidates None)) = []"
  by (auto simp: verifyEntries_def profile_valid Let_def split_beta split: option.split prod.split)

lemma entries_valid:
  "dm_verdict (vr_cryptographicIntegrity (verifyEntries av candidates policy checkpoints)) = ValidVerdict \<and>
   dm_verdict (vr_chainIntegrity (verifyEntries av candidates policy checkpoints)) = ValidVerdict \<longleftrightarrow>
     (\<exists>pol es. policy = GoodPolicy pol \<and> candidates = map Some es \<and> verifiedChain av pol (boundariesOf av checkpoints) es)"
proof (cases policy)
  case (RefusedPolicy i)
  then show ?thesis by (simp add: verifyEntries_def invalidPolicyReport_def Let_def)
next
  case (GoodPolicy pol)
  then show ?thesis
    by (auto simp: report_valid verifyAll_Nil verifiedChain_def map_injective inj_map_eq_map)
qed

text \<open>C19: the two integrity verdicts of a report are both valid exactly for a non-empty list of well-formed entries, each
  with the digests of its own event, evidence and core and with a receipt for them signed by a key the policy trusts for that ledger
  epoch, time and place, in a chain: the first starts the ledger or names a predecessor, and each other one continues the one before it.\<close>

theorem verified_entries_iff_authentic_chain:
  "(dm_verdict (vr_cryptographicIntegrity (verifyEntries av candidates policy checkpoints)) = ValidVerdict \<and>
    dm_verdict (vr_chainIntegrity (verifyEntries av candidates policy checkpoints)) = ValidVerdict) =
     (\<exists>pol es. policy = GoodPolicy pol \<and> candidates = map Some es \<and> verifiedChain av pol (boundariesOf av checkpoints) es)"
  by (rule entries_valid)

subsection \<open>Tampering\<close>

lemma follows_sequence:
  "successively follows es \<Longrightarrow> es \<noteq> [] \<Longrightarrow> ec_sequence (se_core (last es)) + 1 = ec_sequence (se_core (hd es)) + length es"
proof (induction es)
  case (Cons e es)
  then show ?case by (cases es) (auto simp: follows_def)
qed simp

lemma same_last_same_chain:
  assumes "successively follows es" and "successively follows fs" and "length es = length fs" and "es \<noteq> []"
    and "\<forall>e \<in> set es \<union> set fs. digest (se_core e) = se_entryDigest e" and "inj_on digest (se_core ` (set es \<union> set fs))"
    and "se_entryDigest (last es) = se_entryDigest (last fs)"
  shows "map se_core es = map se_core fs"
  using assms
proof (induction es arbitrary: fs rule: rev_induct)
  case (snoc e es)
  then obtain f fs' where fs: "fs = fs' @ [f]" by (cases fs rule: rev_cases) auto
  have "digest (se_core e) = se_entryDigest e" "digest (se_core f) = se_entryDigest f" using snoc.prems(5) fs by simp_all
  then have "digest (se_core e) = digest (se_core f)" using snoc.prems(7) fs by simp
  then have cores: "se_core e = se_core f" by (rule inj_onD [OF snoc.prems(6)]) (simp_all add: fs)
  show ?case
  proof (cases "es = []")
    case False
    then have ne: "fs' \<noteq> []" using snoc.prems(3) fs by auto
    have "follows (last es) e" "follows (last fs') f"
      using snoc.prems(1,2) False ne fs by (simp_all add: successively_append_iff)
    then have "se_entryDigest (last es) = se_entryDigest (last fs')" using cores by (simp add: follows_def)
    moreover have "inj_on digest (se_core ` (set es \<union> set fs'))"
      by (rule inj_on_subset [OF snoc.prems(6)]) (use fs in auto)
    ultimately have "map se_core es = map se_core fs'"
      using snoc.prems fs False ne by (intro snoc.IH) (auto simp: successively_append_iff)
    then show ?thesis using fs cores by simp
  qed (use snoc.prems(3) fs cores in simp)
qed simp

lemma chain_digests: "verifiedChain av pol bs es \<Longrightarrow> e \<in> set es \<Longrightarrow> av_digestEntry av (se_core e) = se_entryDigest e"
  by (simp add: verifiedChain_def list_all_iff authenticEntry_def)

text \<open>C20: the digest of its last entry fixes a verified chain. Two chains that verify, under whatever policies, with the same last
  digest and the same number of entries consist of the same entries, unless the digest function collides on two of their cores: no entry before
  the last can be altered, dropped or replaced.\<close>

theorem last_digest_fixes_the_chain:
  assumes "dm_verdict (vr_cryptographicIntegrity (verifyEntries av (map Some es) policy checkpoints)) = ValidVerdict \<and>
      dm_verdict (vr_chainIntegrity (verifyEntries av (map Some es) policy checkpoints)) = ValidVerdict"
    and "dm_verdict (vr_cryptographicIntegrity (verifyEntries av (map Some fs) policy' checkpoints')) = ValidVerdict \<and>
      dm_verdict (vr_chainIntegrity (verifyEntries av (map Some fs) policy' checkpoints')) = ValidVerdict"
    and "inj_on (av_digestEntry av) (se_core ` (set es \<union> set fs))"
    and "se_entryDigest (last es) = se_entryDigest (last fs)"
    and "ec_sequence (se_core (hd es)) = ec_sequence (se_core (hd fs))"
  shows "map se_core es = map se_core fs"
proof -
  obtain pol where es: "verifiedChain av pol (boundariesOf av checkpoints) es"
    using assms(1) unfolding entries_valid by (auto simp: inj_map_eq_map)
  obtain pol' where fs: "verifiedChain av pol' (boundariesOf av checkpoints') fs"
    using assms(2) unfolding entries_valid by (auto simp: inj_map_eq_map)
  have digests: "\<forall>e \<in> set es \<union> set fs. av_digestEntry av (se_core e) = se_entryDigest e"
    using chain_digests [OF es] chain_digests [OF fs] by blast
  have chains: "successively follows es" "successively follows fs" "es \<noteq> []" "fs \<noteq> []"
    using es fs by (simp_all add: verifiedChain_def)
  have "se_core (last es) = se_core (last fs)"
    using inj_onD [OF assms(3)] digests chains assms(4) by (metis UnCI imageI last_in_set)
  then have "length es = length fs"
    using follows_sequence [OF chains(1,3)] follows_sequence [OF chains(2,4)] assms(5) by simp
  from same_last_same_chain [OF chains(1,2) this chains(3) digests assms(3,4)] show ?thesis .
qed

subsection \<open>Checkpoints\<close>

definition authenticCheckpoint :: "artifactVerifier \<Rightarrow> verificationPolicy \<Rightarrow> signedCheckpoint option list \<Rightarrow> signedCheckpoint \<Rightarrow> bool" where
  "authenticCheckpoint av pol context c \<longleftrightarrow>
     CHECKPOINT_SUITE \<in> set (pol_acceptedIntegritySuites pol) \<and> sr_alg (ck_issuer (sk_core c)) \<in> set (pol_acceptedAlgorithms pol) \<and>
     trustedKey pol (ck_ledgerId (sk_core c)) (ck_ledgerEpochId (sk_core c)) (ck_issuer (sk_core c)) (ck_createdAt (sk_core c))
       (ck_treeSize (sk_core c)) (boundariesOf av (context @ [Some c])) \<and>
     av_digestCheckpoint av (sk_core c) = sk_checkpointDigest c \<and> av_verifyCheckpoint av (sk_core c) (sk_jws c) (ck_issuer (sk_core c))"

lemma checkpoint_checked:
  "checkSignedCheckpoint av checkpoint policy context = Inr (core, []) \<longleftrightarrow>
     (\<exists>pol c. policy = GoodPolicy pol \<and> checkpoint = Some c \<and> core = sk_core c \<and> authenticCheckpoint av pol context c)"
  by (auto simp: checkSignedCheckpoint_def authenticCheckpoint_def Let_def recorderTrust_Within split: givenPolicy.splits option.splits)

lemma refused_checkpoint: "checkSignedCheckpoint av checkpoint policy context = Inl d \<Longrightarrow> dm_verdict d = InvalidVerdict"
  by (auto simp: checkSignedCheckpoint_def Let_def split: givenPolicy.splits option.splits)

lemma checkpoint_valid:
  assumes "verifyCheckpoint av checkpoint entries policy context = Some d" and "dm_verdict d = ValidVerdict"
  obtains pol c where "policy = GoodPolicy pol" and "checkpoint = Some c" and "authenticCheckpoint av pol context c"
    and "rangeMatches (sk_core c) entries" and "merkleRoot (av_sha av) (map se_entryDigest entries) = Some (ck_rootDigest (sk_core c))"
proof -
  obtain core reasons where c: "checkSignedCheckpoint av checkpoint policy context = Inr (core, reasons)"
    using assms refused_checkpoint by (cases "checkSignedCheckpoint av checkpoint policy context") (fastforce simp: verifyCheckpoint_def)+
  then have "rangeMatches core entries \<and> reasons = [] \<and> merkleRoot (av_sha av) (map se_entryDigest entries) = Some (ck_rootDigest core)"
    using assms by (auto simp: verifyCheckpoint_def Let_def split: if_splits)
  with c checkpoint_checked [of av checkpoint policy "context" core] show thesis by (auto intro: that)
qed

text \<open>C21: a valid checkpoint binds the entries it covers. Its issuer is a key the policy trusts, it covers exactly the given number
  of entries of one ledger up to its head, and any inclusion proof the verifier accepts against its root and size names the digest of the
  entry at that index, unless the hash collides on the inputs hashed.\<close>

theorem checkpoint_binds_its_entries:
  assumes "verifyCheckpoint av (Some c) entries (GoodPolicy pol) context = Some d" and "dm_verdict d = ValidVerdict"
    and "verifyInclusion (av_sha av) \<lparr>iv_leaf = x, iv_leafIndex = JsInteger i, iv_treeSize = JsInteger (int (ck_treeSize (sk_core c))),
      iv_root = ck_rootDigest (sk_core c), iv_auditPath = p\<rparr>"
    and "leafHash (av_sha av) x = Some h"
    and "inj_on (av_sha av) (set (treeInputs (av_sha av) (map se_entryDigest entries) @ optionList (leafInput x) @
      pathInputs (av_sha av) (nat i) (length entries) h p))"
  shows "authenticCheckpoint av pol context c \<and> length entries = ck_treeSize (sk_core c) \<and>
    0 \<le> i \<and> nat i < length entries \<and> x = se_entryDigest (entries ! nat i) \<and>
    ec_ledgerId (se_core (entries ! nat i)) = ck_ledgerId (sk_core c) \<and> ec_ledgerEpochId (se_core (entries ! nat i)) = ck_ledgerEpochId (sk_core c)"
proof -
  have v: "authenticCheckpoint av pol context c" "rangeMatches (sk_core c) entries"
    "merkleRoot (av_sha av) (map se_entryDigest entries) = Some (ck_rootDigest (sk_core c))"
    using checkpoint_valid [OF assms(1,2)] by blast+
  have n: "length entries = ck_treeSize (sk_core c)" using v(2) by (simp add: rangeMatches_def)
  have "0 \<le> i \<and> nat i < length (map se_entryDigest entries) \<and> x = map se_entryDigest entries ! nat i"
    by (rule inclusion_names_leaf [OF v(3) _ assms(4)]) (use assms(3,5) n in simp_all)
  moreover from this have "entries ! nat i \<in> set entries" by simp
  ultimately show ?thesis using v(1,2) n by (auto simp: rangeMatches_def list_all_iff)
qed

subsection \<open>What the recorder writes\<close>

text \<open>An append a recorder offers: its candidate for the head it expects, and the genesis event of its configuration at sequence 0.\<close>

definition recordedInput :: "recorderConfig \<Rightarrow> appendInput \<Rightarrow> bool" where
  "recordedInput cfg i \<longleftrightarrow> ai_ledger i = recorderLedger cfg \<and>
     (\<exists>event genesis now t. buildCandidate cfg event (cfg_digestEvent cfg event) (ai_expectedHead i) genesis now = Inr (ai_entry i) \<and>
        (genesis \<longrightarrow> event = genesisEvent cfg t))"

text \<open>A verifier with the recorder's own digest functions, for which the recorder's signatures verify, and a policy that trusts its key.\<close>

definition sameCrypto :: "artifactVerifier \<Rightarrow> recorderConfig \<Rightarrow> bool" where
  "sameCrypto av cfg \<longleftrightarrow> av_digestEvent av = cfg_digestEvent cfg \<and> av_digestManifest av = cfg_digestManifest cfg \<and>
     av_digestEntry av = cfg_digestEntry cfg \<and> (\<forall>rc. av_verifyReceipt av rc (cfg_sign cfg rc) (cfg_signer cfg))"

definition trustsRecorder :: "verificationPolicy \<Rightarrow> recorderConfig \<Rightarrow> bool" where
  "trustsRecorder pol cfg \<longleftrightarrow> ENTRY_SUITE \<in> set (pol_acceptedIntegritySuites pol) \<and> sr_alg (cfg_signer cfg) \<in> set (pol_acceptedAlgorithms pol) \<and>
     (\<forall>t n bs. trustedKey pol (cfg_ledgerId cfg) (cfg_ledgerEpochId cfg) (cfg_signer cfg) t n bs)"

lemma recorded_authentic:
  assumes "recordedInput cfg i" and "sameCrypto av cfg" and "trustsRecorder pol cfg"
  shows "authenticEntry av pol bs (ai_entry i) \<and>
    (ec_sequence (se_core (ai_entry i)) = 0 \<longrightarrow> pe_eventType (ec_event (se_core (ai_entry i))) = ''ledger.epoch.started'')"
proof -
  obtain event genesis now t where b: "buildCandidate cfg event (cfg_digestEvent cfg event) (ai_expectedHead i) genesis now = Inr (ai_entry i)"
    and g: "genesis \<Longrightarrow> event = genesisEvent cfg t" using assms(1) unfolding recordedInput_def by blast
  let ?n = "case ai_expectedHead i of None \<Rightarrow> 0 | Some h \<Rightarrow> ah_sequence h + 1"
  let ?core = "\<lparr>ec_ledgerId = cfg_ledgerId cfg, ec_ledgerEpochId = cfg_ledgerEpochId cfg, ec_sequence = ?n,
    ec_previousEntryDigest = map_option ah_entryDigest (ai_expectedHead i), ec_recordedAt = now, ec_recorder = cfg_signer cfg,
    ec_eventDigest = cfg_digestEvent cfg event, ec_event = event, ec_evidenceManifestDigest = cfg_digestManifest cfg (collectAuditEvidenceRefs event)\<rparr>"
  let ?receipt = "buildAuditRecorderReceiptCore ?core (cfg_digestEntry cfg ?core)"
  from b have e: "genesis \<longleftrightarrow> ?n = 0" "ai_entry i = \<lparr>se_core = ?core, se_eventDigest = cfg_digestEvent cfg event,
      se_entryDigest = cfg_digestEntry cfg ?core, se_receiptCore = ?receipt, se_receiptJws = cfg_sign cfg ?receipt\<rparr>"
    by (simp_all add: buildCandidate_def Let_def split: if_splits)
  have "?n = 0 \<Longrightarrow> pe_eventType event = ''ledger.epoch.started''" using e(1) g by (simp add: genesisEvent_def)
  then show ?thesis using assms(2,3) unfolding e(2) authenticEntry_def sameCrypto_def trustsRecorder_def by simp
qed

lemma recorded_good: "recordedInput cfg i \<Longrightarrow> NUL \<notin> set (cfg_ledgerId cfg) \<Longrightarrow> goodInput i"
  using candidate_continues by (fastforce simp: recordedInput_def goodInput_def recorderLedger_def)

lemma appended_entries:
  "set (memSnapshot l (snd (memCompareAndAppend i j))) \<subseteq> insert (ai_entry i) (set (memSnapshot l j))"
proof (cases "memGetByIdempotencyKey (lr_ledgerId (ai_ledger i)) (ai_idempotencyKey i) j")
  case None
  then show ?thesis
  proof (cases "ai_expectedHead i = memGetHead (ai_ledger i) j")
    case True
    have "memSnapshot l j = memSnapshot (ai_ledger i) j" if "ledgerKey l = ledgerKey (ai_ledger i)"
      using that by (simp add: memSnapshot_def)
    then show ?thesis using memAppend_fresh(2) [OF None True, of l] by auto
  qed (auto simp: memAppend_stale)
qed (auto simp: memAppend_known)

lemma run_entries_sent: "set (memSnapshot l (snd (runAppends is j))) \<subseteq> ai_entry ` set is \<union> set (memSnapshot l j)"
proof (induction "is" arbitrary: j)
  case (Cons i "is")
  then show ?case using appended_entries [of l i j] Cons.IH [of "snd (memCompareAndAppend i j)"] by (auto simp: case_prod_beta)
qed simp

lemma chained_follows: "chainedLedger l es \<Longrightarrow> successively follows es"
  by (auto simp: successively_conv_nth follows_def chainedLedger_def)

lemma recorded_chain:
  assumes "list_all (recordedInput cfg) is" and "NUL \<notin> set (cfg_ledgerId cfg)" and "sameCrypto av cfg" and "trustsRecorder pol cfg"
    and es: "es = memSnapshot (recorderLedger cfg) (snd (runAppends is emptyJournal))" and "es \<noteq> []"
  shows "verifiedChain av pol bs es"
proof -
  have "list_all goodInput is" using assms(1) recorded_good [OF _ assms(2)] by (auto simp: list_all_iff)
  then have "chainedJournal (snd (runAppends is emptyJournal))" by (rule runAppends_chained [OF empty_chained])
  then have chain: "chainedLedger (recorderLedger cfg) es"
    using assms(2) unfolding es chainedJournal_def by (simp add: recorderLedger_def)
  have from_input: "\<exists>i \<in> set is. ai_entry i = e" if "e \<in> set es" for e
    using run_entries_sent [of "recorderLedger cfg" "is" emptyJournal] that es by (auto simp: memSnapshot_def emptyJournal_def)
  have ok: "authenticEntry av pol bs e \<and> (ec_sequence (se_core e) = 0 \<longrightarrow> pe_eventType (ec_event (se_core e)) = ''ledger.epoch.started'')"
    if e: "e \<in> set es" for e
  proof -
    obtain i where "i \<in> set is" "ai_entry i = e" using from_input [OF e] by blast
    then show ?thesis using recorded_authentic [OF _ assms(3,4), of i bs] assms(1) by (auto simp: list_all_iff)
  qed
  have "ec_sequence (se_core (hd es)) = 0 \<and> ec_previousEntryDigest (se_core (hd es)) = None"
    using chain assms(6) by (simp add: chainedLedger_def hd_conv_nth)
  then have "startsLedger (hd es)" using ok [of "hd es"] assms(6) by (simp add: startsLedger_def)
  then show ?thesis using ok chained_follows [OF chain] assms(6) by (auto simp: verifiedChain_def list_all_iff)
qed

text \<open>C22: what recorders write verifies. Whatever appends recorders of one ledger epoch offer to the memory journal, in whatever order
  and against however stale heads, the ledger it then holds, when it is not empty, has both integrity verdicts valid under a policy that
  trusts the recorder's key.\<close>

theorem recorded_ledger_verifies:
  assumes "list_all (recordedInput cfg) is" and "NUL \<notin> set (cfg_ledgerId cfg)" and "sameCrypto av cfg" and "trustsRecorder pol cfg"
    and "memSnapshot (recorderLedger cfg) (snd (runAppends is emptyJournal)) \<noteq> []"
  shows "dm_verdict (vr_cryptographicIntegrity (verifyEntries av
      (map Some (memSnapshot (recorderLedger cfg) (snd (runAppends is emptyJournal)))) (GoodPolicy pol) checkpoints)) = ValidVerdict \<and>
    dm_verdict (vr_chainIntegrity (verifyEntries av
      (map Some (memSnapshot (recorderLedger cfg) (snd (runAppends is emptyJournal)))) (GoodPolicy pol) checkpoints)) = ValidVerdict"
  unfolding entries_valid using recorded_chain [OF assms(1-4) refl assms(5)] by blast

subsection \<open>Examples\<close>

definition demoVerifier :: artifactVerifier where
  "demoVerifier = \<lparr>av_sha = checksum, av_digestEvent = cfg_digestEvent demoConfig, av_digestManifest = cfg_digestManifest demoConfig,
     av_digestEntry = cfg_digestEntry demoConfig, av_digestCheckpoint = (\<lambda>_. ''c''), av_digestObservation = (\<lambda>_. ''o''),
     av_verifyReceipt = (\<lambda>_ jws _. jws \<in> {''sig'', ''again''}), av_verifyCheckpoint = (\<lambda>_ jws _. jws = ''sig''),
     av_verifyObservation = (\<lambda>_ jws _. jws = ''sig''), av_verifiedAt = None, av_maxClockSkewMs = None, av_authorization = None\<rparr>"

definition demoPolicy :: verificationPolicy where
  "demoPolicy = \<lparr>pol_policyId = ''p'', pol_trustedLedgerEpochs = [\<lparr>cb_validFromCheckpoint = None, cb_validUntilCheckpoint = None,
       tp_ledgerId = ''L'', tp_ledgerEpochId = ''1'', tp_recorderKeys = [\<lparr>cb_validFromCheckpoint = None, cb_validUntilCheckpoint = None,
         kp_signer = demoSigner, kp_validFrom = None, kp_validUntil = None\<rparr>]\<rparr>],
     pol_trustedObservers = [], pol_authorizedExporterKeys = [], pol_acceptedIntegritySuites = [ENTRY_SUITE, CHECKPOINT_SUITE],
     pol_acceptedAlgorithms = [''EdDSA''], pol_keyRevocationMode = AsObserved, pol_requiredCheckpointFreshnessMs = None,
     pol_requiredAuditProfile = Some 2\<rparr>"

definition firstEntry :: signedEntry where
  "firstEntry = projr (buildCandidate demoConfig (genesisEvent demoConfig 0) (cfg_digestEvent demoConfig (genesisEvent demoConfig 0)) None True 0)"

definition secondEntry :: signedEntry where
  "secondEntry = projr (buildCandidate demoConfig (demoEvent ''a'') (cfg_digestEvent demoConfig (demoEvent ''a''))
     (Some (headFor demoLedger firstEntry)) False 5)"

definition recordedInputs :: "appendInput list" where
  "recordedInputs = [\<lparr>ai_ledger = demoLedger, ai_expectedHead = None, ai_entry = firstEntry, ai_idempotencyKey = ''k1''\<rparr>,
     \<lparr>ai_ledger = demoLedger, ai_expectedHead = Some (headFor demoLedger firstEntry), ai_entry = secondEntry, ai_idempotencyKey = ''k2''\<rparr>]"

lemma first_candidate: "buildCandidate demoConfig (genesisEvent demoConfig 0) (cfg_digestEvent demoConfig (genesisEvent demoConfig 0)) None True 0 = Inr firstEntry"
  by (simp add: firstEntry_def buildCandidate_def Let_def) (simp add: demoConfig_def)

lemma second_candidate: "buildCandidate demoConfig (demoEvent ''a'') (cfg_digestEvent demoConfig (demoEvent ''a''))
     (Some (headFor demoLedger firstEntry)) False 5 = Inr secondEntry"
  by (simp add: secondEntry_def buildCandidate_def Let_def) (simp add: demoConfig_def)

lemma demo_recorded: "list_all (recordedInput demoConfig) recordedInputs"
proof -
  have "recorderLedger demoConfig = demoLedger" by (simp add: recorderLedger_def demoConfig_def demoLedger_def)
  then show ?thesis unfolding recordedInputs_def recordedInput_def using first_candidate second_candidate by (auto intro: exI)
qed

lemma demo_crypto: "sameCrypto demoVerifier demoConfig" "trustsRecorder demoPolicy demoConfig"
  by (simp_all add: sameCrypto_def demoVerifier_def demoConfig_def trustsRecorder_def demoPolicy_def trustedKey_def epochPolicyOf_def
      positionWithin_def resolveBound_def keyIsValidAt_def sameSigner_def demoSigner_def)

lemma demo_snapshot: "memSnapshot (recorderLedger demoConfig) (snd (runAppends recordedInputs emptyJournal)) = [firstEntry, secondEntry]"
  unfolding recordedInputs_def firstEntry_def secondEntry_def by code_simp

lemma recorded_ledger_verifies_witness:
  "dm_verdict (vr_cryptographicIntegrity (verifyEntries demoVerifier (map Some [firstEntry, secondEntry]) (GoodPolicy demoPolicy) [])) = ValidVerdict \<and>
   dm_verdict (vr_chainIntegrity (verifyEntries demoVerifier (map Some [firstEntry, secondEntry]) (GoodPolicy demoPolicy) [])) = ValidVerdict"
proof -
  have "NUL \<notin> set (cfg_ledgerId demoConfig)" by (simp add: demoConfig_def NUL_def)
  from recorded_ledger_verifies [OF demo_recorded this demo_crypto, of "[]"] show ?thesis by (simp add: demo_snapshot)
qed

text \<open>The same ledger with other signatures over the same receipts.\<close>

definition resigned :: "signedEntry list" where
  "resigned = map (\<lambda>e. e\<lparr>se_receiptJws := ''again''\<rparr>) [firstEntry, secondEntry]"

lemma demo_chain: "verifiedChain demoVerifier demoPolicy (boundariesOf demoVerifier []) [firstEntry, secondEntry]"
proof -
  have "NUL \<notin> set (cfg_ledgerId demoConfig)" by (simp add: demoConfig_def NUL_def)
  from recorded_chain [OF demo_recorded this demo_crypto refl] show ?thesis by (simp add: demo_snapshot)
qed

lemma resigned_chain: "verifiedChain demoVerifier demoPolicy (boundariesOf demoVerifier []) resigned"
proof -
  have "av_verifyReceipt demoVerifier rc ''again'' s" for rc s by (simp add: demoVerifier_def)
  then have "authenticEntry demoVerifier demoPolicy bs e \<Longrightarrow> authenticEntry demoVerifier demoPolicy bs (e\<lparr>se_receiptJws := ''again''\<rparr>)" for bs e
    by (simp add: authenticEntry_def)
  moreover have "startsLedger (e\<lparr>se_receiptJws := j\<rparr>) = startsLedger e" "follows (e\<lparr>se_receiptJws := j\<rparr>) (f\<lparr>se_receiptJws := j\<rparr>) = follows e f" for e f j
    by (simp_all add: startsLedger_def follows_def)
  ultimately show ?thesis using demo_chain by (simp add: verifiedChain_def resigned_def)
qed

lemma last_digest_fixes_the_chain_witness:
  "map se_core resigned = map se_core [firstEntry, secondEntry]"
proof (rule last_digest_fixes_the_chain)
  let ?valid = "\<lambda>es. dm_verdict (vr_cryptographicIntegrity (verifyEntries demoVerifier (map Some es) (GoodPolicy demoPolicy) [])) = ValidVerdict \<and>
      dm_verdict (vr_chainIntegrity (verifyEntries demoVerifier (map Some es) (GoodPolicy demoPolicy) [])) = ValidVerdict"
  show "?valid resigned" "?valid [firstEntry, secondEntry]"
    unfolding entries_valid using demo_chain resigned_chain by blast+
  have "av_digestEntry demoVerifier (se_core firstEntry) \<noteq> av_digestEntry demoVerifier (se_core secondEntry)"
    unfolding firstEntry_def secondEntry_def by code_simp
  then show "inj_on (av_digestEntry demoVerifier) (se_core ` (set resigned \<union> set [firstEntry, secondEntry]))"
    by (auto simp: resigned_def inj_on_def)
qed (simp_all add: resigned_def)

definition leafEntry :: "char \<Rightarrow> nat \<Rightarrow> signedEntry" where
  "leafEntry c n = (demoEntry [c] n None)\<lparr>se_entryDigest := leafText c\<rparr>"

definition coveredEntries :: "signedEntry list" where
  "coveredEntries = [leafEntry CHR ''1'' 0, leafEntry CHR ''2'' 1, leafEntry CHR ''3'' 2]"

definition demoCheckpoint :: signedCheckpoint where
  "demoCheckpoint = \<lparr>sk_core = \<lparr>ck_checkpointId = ''cp'', ck_ledgerId = ''L'', ck_ledgerEpochId = ''1'', ck_treeSize = 3, ck_firstSequence = 0,
     ck_lastSequence = 2, ck_rootDigest = the (merkleRoot checksum (map leafText ''123'')), ck_headEntryDigest = leafText CHR ''3'',
     ck_previousCheckpointDigest = None, ck_createdAt = 9, ck_issuer = demoSigner\<rparr>, sk_checkpointDigest = ''c'', sk_jws = ''sig''\<rparr>"

lemma covered_digests: "map se_entryDigest coveredEntries = map leafText ''123''"
  by (simp add: coveredEntries_def leafEntry_def)

lemma covered_length: "length coveredEntries = 3"
  by (simp add: coveredEntries_def)

lemma covered_root: "merkleRoot checksum (map leafText ''123'') = Some (ck_rootDigest (sk_core demoCheckpoint))"
  unfolding demoCheckpoint_def by code_simp

lemma demo_checkpoint: "verifyCheckpoint demoVerifier (Some demoCheckpoint) coveredEntries (GoodPolicy demoPolicy) [] = Some (dimension ValidVerdict [])"
proof -
  have "authenticCheckpoint demoVerifier demoPolicy [] demoCheckpoint"
    by (simp add: authenticCheckpoint_def demoVerifier_def demoPolicy_def demoCheckpoint_def trustedKey_def epochPolicyOf_def
      positionWithin_def resolveBound_def keyIsValidAt_def sameSigner_def demoSigner_def)
  then have "checkSignedCheckpoint demoVerifier (Some demoCheckpoint) (GoodPolicy demoPolicy) [] = Inr (sk_core demoCheckpoint, [])"
    by (simp add: checkpoint_checked)
  moreover have "rangeMatches (sk_core demoCheckpoint) coveredEntries"
    by (simp add: rangeMatches_def demoCheckpoint_def coveredEntries_def leafEntry_def demoEntry_def Let_def MAX_SAFE_INTEGER_def)
  moreover have "merkleRoot (av_sha demoVerifier) (map se_entryDigest coveredEntries) = Some (ck_rootDigest (sk_core demoCheckpoint))"
    unfolding covered_digests using covered_root by (simp add: demoVerifier_def)
  ultimately show ?thesis by (simp add: verifyCheckpoint_def verdictOf_def)
qed

lemma checkpoint_binds_its_entries_witness:
  "leafText CHR ''2'' = se_entryDigest (coveredEntries ! 1) \<and> length coveredEntries = 3"
proof -
  define leaves where "leaves = map leafText ''123''"
  define h where "h = the (leafHash checksum (leafText CHR ''2''))"
  define p where "p = the (buildInclusionProof checksum leaves 1)"
  have root: "merkleRoot checksum leaves = Some (ck_rootDigest (sk_core demoCheckpoint))" using covered_root by (simp add: leaves_def)
  have sha: "av_sha demoVerifier = checksum" by (simp add: demoVerifier_def)
  have h: "leafHash (av_sha demoVerifier) (leafText CHR ''2'') = Some h" unfolding h_def sha by code_simp
  have "inclusionLoop checksum 1 2 h p = merkleRoot checksum leaves" unfolding h_def p_def leaves_def by code_simp
  then have v: "verifyInclusion (av_sha demoVerifier) \<lparr>iv_leaf = leafText CHR ''2'', iv_leafIndex = JsInteger 1,
      iv_treeSize = JsInteger (int (ck_treeSize (sk_core demoCheckpoint))), iv_root = ck_rootDigest (sk_core demoCheckpoint), iv_auditPath = p\<rparr>"
    using h root by (simp add: verifyInclusion_def validSize_def MAX_SAFE_INTEGER_def demoCheckpoint_def sha del: inclusionLoop.simps)
  have "distinct (map checksum (remdups (treeInputs checksum leaves @ optionList (leafInput (leafText CHR ''2'')) @
      pathInputs checksum (nat 1) 3 h p)))"
    unfolding h_def p_def leaves_def by code_simp
  then have "inj_on (av_sha demoVerifier) (set (treeInputs (av_sha demoVerifier) (map se_entryDigest coveredEntries) @
      optionList (leafInput (leafText CHR ''2'')) @ pathInputs (av_sha demoVerifier) (nat 1) (length coveredEntries) h p))"
    unfolding covered_digests sha leaves_def [symmetric] by (simp only: distinct_map set_remdups covered_length)
  from checkpoint_binds_its_entries [OF demo_checkpoint _ v h this] show ?thesis by (simp add: coveredEntries_def)
qed

text \<open>A checkpoint of a later stretch of the ledger is valid too: nothing asks its range to start at 0.\<close>

definition lateEntries :: "signedEntry list" where
  "lateEntries = [leafEntry CHR ''1'' 5, leafEntry CHR ''2'' 6, leafEntry CHR ''3'' 7]"

definition lateCheckpoint :: signedCheckpoint where
  "lateCheckpoint = demoCheckpoint\<lparr>sk_core := (sk_core demoCheckpoint)\<lparr>ck_firstSequence := 5, ck_lastSequence := 7\<rparr>\<rparr>"

lemma checkpoint_need_not_start_at_zero:
  "verifyCheckpoint demoVerifier (Some lateCheckpoint) lateEntries (GoodPolicy demoPolicy) [] = Some (dimension ValidVerdict []) \<and>
   dm_verdict (verifySignedCheckpoint demoVerifier (Some lateCheckpoint) (GoodPolicy demoPolicy) []) = InvalidVerdict"
proof -
  have "authenticCheckpoint demoVerifier demoPolicy [] lateCheckpoint"
    by (simp add: authenticCheckpoint_def demoVerifier_def demoPolicy_def lateCheckpoint_def demoCheckpoint_def trustedKey_def epochPolicyOf_def
      positionWithin_def resolveBound_def keyIsValidAt_def sameSigner_def demoSigner_def)
  then have c: "checkSignedCheckpoint demoVerifier (Some lateCheckpoint) (GoodPolicy demoPolicy) [] = Inr (sk_core lateCheckpoint, [])"
    by (simp add: checkpoint_checked)
  have "rangeMatches (sk_core lateCheckpoint) lateEntries"
    by (simp add: rangeMatches_def lateCheckpoint_def demoCheckpoint_def lateEntries_def leafEntry_def demoEntry_def Let_def MAX_SAFE_INTEGER_def)
  moreover have "map se_entryDigest lateEntries = map leafText ''123''" by (simp add: lateEntries_def leafEntry_def)
  then have "merkleRoot (av_sha demoVerifier) (map se_entryDigest lateEntries) = Some (ck_rootDigest (sk_core lateCheckpoint))"
    using covered_root by (simp add: demoVerifier_def lateCheckpoint_def)
  ultimately show ?thesis using c
    by (simp add: verifyCheckpoint_def verifySignedCheckpoint_def verdictOf_def lateCheckpoint_def demoCheckpoint_def INDETERMINATE_REASONS_def)
qed

end
