(* ===== verification/Checkpoint_Builder.thy ===== *)
theory Checkpoint_Builder
  imports Audit_Verifier Status_List "HOL-Library.Multiset"
begin

text \<open>
  \<open>src/audit/checkpoint.ts\<close>: the checkpoint store, the builder that signs append-only checkpoints of a journal, and the
  proofs it hands out, with the checkpoint schema of \<open>src/audit/schemas.ts\<close>. The builder works for one ledger at a time; what
  others do between two of its awaits is the later journal or store state that each operation takes. An error is its code
  and message; a digest the Merkle tree cannot read and a core the schema refuses are errors of their own.
\<close>

subsection \<open>Errors and numbers\<close>

datatype checkpointError =
    CheckpointInvalid string
  | CheckpointConflict string
  | CheckpointRollback
  | RangeFailure string
  | CheckpointLedgerMismatch
  | TreeThrew
  | SchemaThrew
  | HookThrew

definition thenTry :: "'e + 'a \<Rightarrow> ('a \<Rightarrow> 'e + 'b) \<Rightarrow> 'e + 'b" where
  "thenTry r f = (case r of Inl e \<Rightarrow> Inl e | Inr a \<Rightarrow> f a)"

lemma thenTry_simps [simp]: "thenTry (Inl e) f = Inl e" "thenTry (Inr a) f = f a"
  by (simp_all add: thenTry_def)

lemma thenTry_Inr: "thenTry r f = Inr b \<longleftrightarrow> (\<exists>a. r = Inr a \<and> f a = Inr b)"
  by (cases r) simp_all

definition orThrow :: "'e \<Rightarrow> 'a option \<Rightarrow> 'e + 'a" where
  "orThrow e x = (case x of None \<Rightarrow> Inl e | Some a \<Rightarrow> Inr a)"

lemma orThrow_Inr [simp]: "orThrow e x = Inr a \<longleftrightarrow> x = Some a"
  by (cases x) (simp_all add: orThrow_def)

definition canonicalDecimal :: "string \<Rightarrow> bool" where
  "canonicalDecimal s \<longleftrightarrow> s \<noteq> [] \<and> list_all isDigit s \<and> (s = ''0'' \<or> hd s \<noteq> CHR ''0'')"

definition parseDecimal :: "string \<Rightarrow> string \<Rightarrow> checkpointError + nat" where
  "parseDecimal value label =
     (if canonicalDecimal value then Inr (decimalValue value)
      else Inl (CheckpointInvalid (label @ '' must be a canonical non-negative decimal string'')))"

definition toSafeNumber :: "nat \<Rightarrow> string \<Rightarrow> checkpointError + nat" where
  "toSafeNumber value label =
     (if MAX_SAFE_INTEGER < value then Inl (CheckpointInvalid (label @ '' exceeds this implementation's safe in-memory proof range''))
      else Inr value)"

definition safeDecimal :: "string \<Rightarrow> string \<Rightarrow> checkpointError + nat" where
  "safeDecimal value label = thenTry (parseDecimal value label) (\<lambda>n. toSafeNumber n label)"

subsection \<open>The checkpoint schema\<close>

definition didSchema :: "string \<Rightarrow> bool" where
  "didSchema s \<longleftrightarrow> 5 \<le> length s \<and> length s \<le> 2048 \<and> startsWith s ''did:'' \<and>
     list_all (\<lambda>c. (of_char c :: nat) \<noteq> 13 \<and> (of_char c :: nat) \<noteq> 10) (drop 4 s)"

definition signerRefSchema :: "signerRef \<Rightarrow> bool" where
  "signerRefSchema s \<longleftrightarrow> didSchema (sr_did s) \<and> 1 \<le> length (sr_kid s) \<and> length (sr_kid s) \<le> 2048 + 256 \<and>
     sr_alg s \<in> {''EdDSA'', ''ES256''}"

definition decimalStringSchema :: "nat \<Rightarrow> bool" where
  "decimalStringSchema n \<longleftrightarrow> length (decimalText n) \<le> 20"

definition auditCheckpointCoreSchema :: "checkpointCore \<Rightarrow> bool" where
  "auditCheckpointCoreSchema c \<longleftrightarrow>
     1 \<le> length (ck_checkpointId c) \<and> length (ck_checkpointId c) \<le> 512 \<and>
     1 \<le> length (ck_ledgerId c) \<and> length (ck_ledgerId c) \<le> 256 \<and> 1 \<le> length (ck_ledgerEpochId c) \<and> length (ck_ledgerEpochId c) \<le> 256 \<and>
     decimalStringSchema (ck_treeSize c) \<and> decimalStringSchema (ck_firstSequence c) \<and> decimalStringSchema (ck_lastSequence c) \<and>
     isDigest (ck_rootDigest c) \<and> isDigest (ck_headEntryDigest c) \<and>
     (case ck_previousCheckpointDigest c of None \<Rightarrow> True | Some d \<Rightarrow> isDigest d) \<and>
     0 \<le> ck_createdAt c \<and> signerRefSchema (ck_issuer c) \<and> 0 < ck_treeSize c \<and> ck_firstSequence c \<le> ck_lastSequence c"

subsection \<open>The memory store\<close>

datatype putResult = Inserted signedCheckpoint | ExistingCheckpoint signedCheckpoint | ConflictingCheckpoint signedCheckpoint

definition coreLedger :: "checkpointCore \<Rightarrow> ledgerRef" where
  "coreLedger core = \<lparr>lr_ledgerId = ck_ledgerId core, lr_ledgerEpochId = ck_ledgerEpochId core\<rparr>"

definition checkpointKey :: "ledgerRef \<Rightarrow> nat \<Rightarrow> string" where
  "checkpointKey l treeSize = ledgerKey l @ NUL # decimalText treeSize"

record memCheckpoints =
  mc_checkpoints :: "(string, signedCheckpoint) jsmap"
  mc_latest :: "(string, signedCheckpoint) jsmap"

definition emptyCheckpoints :: memCheckpoints where
  "emptyCheckpoints = \<lparr>mc_checkpoints = [], mc_latest = []\<rparr>"

definition memGetLatest :: "ledgerRef \<Rightarrow> memCheckpoints \<Rightarrow> signedCheckpoint option" where
  "memGetLatest l s = jm_get (mc_latest s) (ledgerKey l)"

definition memGetByTreeSize :: "ledgerRef \<Rightarrow> nat \<Rightarrow> memCheckpoints \<Rightarrow> signedCheckpoint option" where
  "memGetByTreeSize l treeSize s = jm_get (mc_checkpoints s) (checkpointKey l treeSize)"

definition memPutIfAbsent :: "signedCheckpoint \<Rightarrow> memCheckpoints \<Rightarrow> putResult \<times> memCheckpoints" where
  "memPutIfAbsent checkpoint s =
     (let l = coreLedger (sk_core checkpoint); key = checkpointKey l (ck_treeSize (sk_core checkpoint))
      in case jm_get (mc_checkpoints s) key of
           Some existing \<Rightarrow>
             (if sk_checkpointDigest existing = sk_checkpointDigest checkpoint then ExistingCheckpoint existing
              else ConflictingCheckpoint existing, s)
         | None \<Rightarrow>
             (Inserted checkpoint,
              s\<lparr>mc_checkpoints := jm_set key checkpoint (mc_checkpoints s),
                mc_latest := (case jm_get (mc_latest s) (ledgerKey l) of
                    None \<Rightarrow> jm_set (ledgerKey l) checkpoint (mc_latest s)
                  | Some current \<Rightarrow>
                      if ck_treeSize (sk_core current) < ck_treeSize (sk_core checkpoint)
                      then jm_set (ledgerKey l) checkpoint (mc_latest s) else mc_latest s)\<rparr>))"

text \<open>The operations a builder calls.\<close>

record 's checkpointStoreOps =
  so_getLatest :: "ledgerRef \<Rightarrow> 's \<Rightarrow> signedCheckpoint option"
  so_putIfAbsent :: "signedCheckpoint \<Rightarrow> 's \<Rightarrow> putResult \<times> 's"

definition memStore :: "memCheckpoints checkpointStoreOps" where
  "memStore = \<lparr>so_getLatest = memGetLatest, so_putIfAbsent = memPutIfAbsent\<rparr>"

subsection \<open>Reading the journal\<close>

record ('j, 's) checkpointBuilder =
  cb_journal :: "'j journalOps"
  cb_store :: "'s checkpointStoreOps"
  cb_sha :: "bytes \<Rightarrow> string"
  cb_digestCheckpoint :: "checkpointCore \<Rightarrow> digest"
  cb_signer :: signerRef
  cb_sign :: "checkpointCore \<Rightarrow> string"

fun collectRange :: "nat \<Rightarrow> signedEntry list \<Rightarrow> checkpointError + signedEntry list" where
  "collectRange position [] = Inr []"
| "collectRange position (entry # es) =
     (if ec_sequence (se_core entry) \<noteq> position
      then Inl (RangeFailure ''Audit journal range is not contiguous from sequence zero'')
      else thenTry (collectRange (position + 1) es) (\<lambda>rest. Inr (entry # rest)))"

definition readEntries :: "('j, 's) checkpointBuilder \<Rightarrow> ledgerRef \<Rightarrow> nat \<Rightarrow> 'j \<Rightarrow> checkpointError + signedEntry list" where
  "readEntries b l limit j = collectRange 0 (jo_readRange (cb_journal b) l None (Some (int limit)) j)"

definition lastDigest :: "signedEntry list \<Rightarrow> digest option" where
  "lastDigest es = (if es = [] then None else Some (se_entryDigest (last es)))"

text \<open>The head is read from \<open>j\<close>, the range up to it from \<open>j'\<close>.\<close>

definition snapshotAtHead :: "('j, 's) checkpointBuilder \<Rightarrow> ledgerRef \<Rightarrow> 'j \<Rightarrow> 'j \<Rightarrow> checkpointError + signedEntry list" where
  "snapshotAtHead b l j j' = (case jo_getHead (cb_journal b) l j of
       None \<Rightarrow> Inr []
     | Some head \<Rightarrow>
         thenTry (toSafeNumber (ah_sequence head + 1) ''Journal tree size'') (\<lambda>expectedCount.
         thenTry (readEntries b l expectedCount j') (\<lambda>entries.
           if length entries \<noteq> expectedCount \<or> lastDigest entries \<noteq> Some (ah_entryDigest head)
           then Inl (RangeFailure ''Journal could not provide a stable range through its reported head'')
           else Inr entries)))"

subsection \<open>Creating a checkpoint\<close>

definition treeRoot :: "('j, 's) checkpointBuilder \<Rightarrow> signedEntry list \<Rightarrow> checkpointError + digest" where
  "treeRoot b entries = orThrow TreeThrew (merkleRoot (cb_sha b) (map se_entryDigest entries))"

definition assertExtends :: "('j, 's) checkpointBuilder \<Rightarrow> signedCheckpoint \<Rightarrow> signedEntry list \<Rightarrow> checkpointError + unit" where
  "assertExtends b previous entries =
     (let previousSize = ck_treeSize (sk_core previous); prefix = take previousSize entries
      in if length entries < previousSize then Inl CheckpointRollback
         else thenTry (treeRoot b prefix) (\<lambda>prefixRoot.
           if ck_rootDigest (sk_core previous) \<noteq> prefixRoot \<or> Some (ck_headEntryDigest (sk_core previous)) \<noteq> lastDigest prefix
           then Inl (CheckpointConflict ''Journal content forked at or below the latest checkpointed tree size'') else Inr ()))"

definition checkpointIdOf :: "ledgerRef \<Rightarrow> nat \<Rightarrow> string" where
  "checkpointIdOf l treeSize = ''checkpoint:'' @ lr_ledgerId l @ '':'' @ lr_ledgerEpochId l @ '':'' @ decimalText treeSize"

definition signCheckpoint ::
  "('j, 's) checkpointBuilder \<Rightarrow> ledgerRef \<Rightarrow> signedEntry list \<Rightarrow> signedCheckpoint option \<Rightarrow> int \<Rightarrow> checkpointError + signedCheckpoint" where
  "signCheckpoint b l entries previous now = thenTry (treeRoot b entries) (\<lambda>root.
     let core = \<lparr>ck_checkpointId = checkpointIdOf l (length entries), ck_ledgerId = lr_ledgerId l, ck_ledgerEpochId = lr_ledgerEpochId l,
           ck_treeSize = length entries, ck_firstSequence = ec_sequence (se_core (hd entries)),
           ck_lastSequence = ec_sequence (se_core (last entries)), ck_rootDigest = root,
           ck_headEntryDigest = se_entryDigest (last entries),
           ck_previousCheckpointDigest = map_option sk_checkpointDigest previous, ck_createdAt = now, ck_issuer = cb_signer b\<rparr>
     in if auditCheckpointCoreSchema core
        then Inr \<lparr>sk_core = core, sk_checkpointDigest = cb_digestCheckpoint b core, sk_jws = cb_sign b core\<rparr>
        else Inl SchemaThrew)"

definition putCheckpoint ::
  "('j, 's) checkpointBuilder \<Rightarrow> checkpointError + signedCheckpoint \<Rightarrow> 's \<Rightarrow> (checkpointError + signedCheckpoint \<times> bool) \<times> 's" where
  "putCheckpoint b outcome s = (case outcome of
       Inl e \<Rightarrow> (Inl e, s)
     | Inr checkpoint \<Rightarrow> (case so_putIfAbsent (cb_store b) checkpoint s of
           (Inserted c, s') \<Rightarrow> (Inr (c, True), s')
         | (ExistingCheckpoint c, s') \<Rightarrow> (Inr (c, False), s')
         | (ConflictingCheckpoint _, s') \<Rightarrow> (Inl (CheckpointConflict ''A different checkpoint already exists at this tree size''), s')))"

text \<open>The latest checkpoint is read from the store \<open>s\<close>; the new one is put into \<open>s'\<close>, the store as it is by then.\<close>

definition storeCheckpoint ::
  "('j, 's) checkpointBuilder \<Rightarrow> ledgerRef \<Rightarrow> int \<Rightarrow> 'j \<Rightarrow> 'j \<Rightarrow> 's \<Rightarrow> 's \<Rightarrow> (checkpointError + signedCheckpoint \<times> bool) \<times> 's" where
  "storeCheckpoint b l now j j' s s' = (case snapshotAtHead b l j j' of
       Inl e \<Rightarrow> (Inl e, s')
     | Inr entries \<Rightarrow>
         (if entries = [] then (Inl (CheckpointInvalid ''Cannot checkpoint an empty audit epoch''), s')
          else let previous = so_getLatest (cb_store b) l s
          in case (case previous of None \<Rightarrow> Inr () | Some p \<Rightarrow> assertExtends b p entries) of
               Inl e \<Rightarrow> (Inl e, s')
             | Inr _ \<Rightarrow>
                 (case previous of
                    Some p \<Rightarrow> if ck_treeSize (sk_core p) = length entries then (Inr (p, False), s')
                      else putCheckpoint b (signCheckpoint b l entries previous now) s'
                  | None \<Rightarrow> putCheckpoint b (signCheckpoint b l entries previous now) s')))"


subsection \<open>The lifecycle hook\<close>

text \<open>The hook is the function that tells of a checkpoint whether its call completes; the due checkpoints are tried in order.\<close>

fun runHooks :: "(signedCheckpoint \<Rightarrow> bool) \<Rightarrow> signedCheckpoint list \<Rightarrow> signedCheckpoint list \<times> signedCheckpoint list" where
  "runHooks hook [] = ([], [])"
| "runHooks hook (c # due) = (if hook c then (case runHooks hook due of (completed, rest) \<Rightarrow> (c # completed, rest)) else ([], c # due))"

type_synonym failedHooks = "(string, signedCheckpoint list) jsmap"

definition failedFor :: "ledgerRef \<Rightarrow> failedHooks \<Rightarrow> signedCheckpoint list" where
  "failedFor l failed = (case jm_get failed (ledgerKey l) of None \<Rightarrow> [] | Some cs \<Rightarrow> cs)"

text \<open>The checkpoints due for this call, taken out of the map.\<close>

definition takeDue :: "ledgerRef \<Rightarrow> signedCheckpoint \<times> bool \<Rightarrow> failedHooks \<Rightarrow> signedCheckpoint list \<times> failedHooks" where
  "takeDue l stored failed = (case stored of (checkpoint, isNew) \<Rightarrow>
     (failedFor l failed @ (if isNew then [checkpoint] else []), jm_delete (ledgerKey l) failed))"

text \<open>The rest goes back, in front of what other calls have put there meanwhile.\<close>

definition putBack :: "ledgerRef \<Rightarrow> signedCheckpoint list \<Rightarrow> failedHooks \<Rightarrow> failedHooks" where
  "putBack l rest failed = (if rest = [] then failed else jm_set (ledgerKey l) (rest @ failedFor l failed) failed)"

text \<open>The hooks run outside the lock; \<open>meanwhile\<close> is what other calls do to the map in that time.\<close>

definition createCheckpoint ::
  "('j, 's) checkpointBuilder \<Rightarrow> (signedCheckpoint \<Rightarrow> bool) option \<Rightarrow> (failedHooks \<Rightarrow> failedHooks) \<Rightarrow> ledgerRef \<Rightarrow> int \<Rightarrow>
     'j \<Rightarrow> 'j \<Rightarrow> 's \<Rightarrow> 's \<Rightarrow> failedHooks \<Rightarrow> (checkpointError + signedCheckpoint) \<times> 's \<times> failedHooks" where
  "createCheckpoint b onCheckpointCreated meanwhile l now j j' s s' failed = (case storeCheckpoint b l now j j' s s' of
       (Inl e, t) \<Rightarrow> (Inl e, t, failed)
     | (Inr stored, t) \<Rightarrow> (case onCheckpointCreated of
           None \<Rightarrow> (Inr (fst stored), t, failed)
         | Some hook \<Rightarrow>
             (let (due, taken) = takeDue l stored failed; (completed, rest) = runHooks hook due
              in (if rest = [] then Inr (fst stored) else Inl HookThrew, t, putBack l rest (meanwhile taken)))))"

subsection \<open>Proofs\<close>

definition assertCheckpointLedger :: "ledgerRef \<Rightarrow> signedCheckpoint \<Rightarrow> checkpointError + unit" where
  "assertCheckpointLedger l checkpoint =
     (if ck_ledgerId (sk_core checkpoint) \<noteq> lr_ledgerId l \<or> ck_ledgerEpochId (sk_core checkpoint) \<noteq> lr_ledgerEpochId l
      then Inl CheckpointLedgerMismatch else Inr ())"

definition entriesForCheckpoint ::
  "('j, 's) checkpointBuilder \<Rightarrow> ledgerRef \<Rightarrow> signedCheckpoint \<Rightarrow> 'j \<Rightarrow> checkpointError + signedEntry list" where
  "entriesForCheckpoint b l checkpoint j =
     thenTry (toSafeNumber (ck_treeSize (sk_core checkpoint)) ''Checkpoint tree size'') (\<lambda>size.
     thenTry (readEntries b l size j) (\<lambda>entries.
       if length entries \<noteq> size \<or> lastDigest entries \<noteq> Some (ck_headEntryDigest (sk_core checkpoint))
       then Inl (CheckpointInvalid ''Journal range does not match the signed checkpoint head'') else Inr entries))"

record merkleProof =
  mp_position :: string
  mp_treeSize :: string
  mp_auditPath :: "digest list"

text \<open>An inclusion proof names the index of the leaf as its position, a consistency proof the old tree size.\<close>

definition builderInclusionProof ::
  "('j, 's) checkpointBuilder \<Rightarrow> ledgerRef \<Rightarrow> string \<Rightarrow> signedCheckpoint \<Rightarrow> 'j \<Rightarrow> checkpointError + merkleProof" where
  "builderInclusionProof b l sequence checkpoint j =
     thenTry (assertCheckpointLedger l checkpoint) (\<lambda>_.
     thenTry (entriesForCheckpoint b l checkpoint j) (\<lambda>entries.
       case List.find (\<lambda>i. decimalText (ec_sequence (se_core (entries ! i))) = sequence) [0..<length entries] of
         None \<Rightarrow> Inl (CheckpointInvalid ''Sequence is not included in the checkpoint'')
       | Some index \<Rightarrow>
           thenTry (orThrow TreeThrew (inclusionProof (cb_sha b) (map se_entryDigest entries) (JsInteger (int index)))) (\<lambda>path.
             Inr \<lparr>mp_position = decimalText index, mp_treeSize = decimalText (ck_treeSize (sk_core checkpoint)), mp_auditPath = path\<rparr>)))"

definition builderConsistencyProof ::
  "('j, 's) checkpointBuilder \<Rightarrow> ledgerRef \<Rightarrow> string \<Rightarrow> signedCheckpoint \<Rightarrow> 'j \<Rightarrow> checkpointError + merkleProof" where
  "builderConsistencyProof b l oldTreeSize checkpoint j =
     thenTry (assertCheckpointLedger l checkpoint) (\<lambda>_.
     thenTry (entriesForCheckpoint b l checkpoint j) (\<lambda>entries.
     thenTry (safeDecimal oldTreeSize ''Old tree size'') (\<lambda>oldSize.
     thenTry (orThrow TreeThrew (consistencyProof (cb_sha b) (map se_entryDigest entries) (JsInteger (int oldSize)))) (\<lambda>path.
       Inr \<lparr>mp_position = oldTreeSize, mp_treeSize = decimalText (ck_treeSize (sk_core checkpoint)), mp_auditPath = path\<rparr>))))"

definition rootForRange :: "('j, 's) checkpointBuilder \<Rightarrow> ledgerRef \<Rightarrow> string \<Rightarrow> 'j \<Rightarrow> checkpointError + digest" where
  "rootForRange b l treeSize j = thenTry (safeDecimal treeSize ''Tree size'') (\<lambda>size.
     if size = 0 then treeRoot b []
     else thenTry (readEntries b l size j) (\<lambda>entries.
       if length entries \<noteq> size then Inl (CheckpointInvalid ''Journal does not contain the requested tree range'')
       else treeRoot b entries))"

definition builderVerifyInclusion ::
  "('j, 's) checkpointBuilder \<Rightarrow> digest \<Rightarrow> signedCheckpoint \<Rightarrow> merkleProof \<Rightarrow> checkpointError + bool" where
  "builderVerifyInclusion b entryDigest checkpoint p =
     (if mp_treeSize p \<noteq> decimalText (ck_treeSize (sk_core checkpoint)) then Inr False
      else thenTry (safeDecimal (mp_position p) ''Leaf index'') (\<lambda>leafIndex.
      thenTry (safeDecimal (mp_treeSize p) ''Tree size'') (\<lambda>treeSize.
        Inr (verifyInclusion (cb_sha b) \<lparr>iv_leaf = entryDigest, iv_leafIndex = JsInteger (int leafIndex), iv_treeSize = JsInteger (int treeSize),
          iv_root = ck_rootDigest (sk_core checkpoint), iv_auditPath = mp_auditPath p\<rparr>))))"

definition builderVerifyConsistency ::
  "('j, 's) checkpointBuilder \<Rightarrow> string \<Rightarrow> digest \<Rightarrow> signedCheckpoint \<Rightarrow> merkleProof \<Rightarrow> checkpointError + bool" where
  "builderVerifyConsistency b oldTreeSize oldRoot checkpoint p =
     (if mp_position p \<noteq> oldTreeSize \<or> mp_treeSize p \<noteq> decimalText (ck_treeSize (sk_core checkpoint)) then Inr False
      else thenTry (safeDecimal oldTreeSize ''Old tree size'') (\<lambda>oldSize.
      thenTry (toSafeNumber (ck_treeSize (sk_core checkpoint)) ''New tree size'') (\<lambda>newSize.
        Inr (verifyConsistency (cb_sha b) \<lparr>cv_oldSize = JsInteger (int oldSize), cv_newSize = JsInteger (int newSize), cv_oldRoot = oldRoot,
          cv_newRoot = ck_rootDigest (sk_core checkpoint), cv_auditPath = mp_auditPath p\<rparr>))))"

subsection \<open>The laws of a checkpoint store, and of a journal that can be read\<close>

abbreviation treeSizeOf :: "signedCheckpoint \<Rightarrow> nat" where
  "treeSizeOf c \<equiv> ck_treeSize (sk_core c)"

locale checkpoint_store =
  fixes ops :: "'s checkpointStoreOps" and ledger :: ledgerRef and inv :: "'s \<Rightarrow> bool" and stored :: "'s \<Rightarrow> signedCheckpoint set"
  assumes latest_none: "inv s \<Longrightarrow> so_getLatest ops ledger s = None \<longleftrightarrow> stored s = {}"
    and latest_largest: "inv s \<Longrightarrow> so_getLatest ops ledger s = Some c \<Longrightarrow> c \<in> stored s \<and> (\<forall>d \<in> stored s. treeSizeOf d \<le> treeSizeOf c)"
    and put_known: "inv s \<Longrightarrow> d \<in> stored s \<Longrightarrow> coreLedger (sk_core c) = ledger \<Longrightarrow> treeSizeOf d = treeSizeOf c \<Longrightarrow>
      so_putIfAbsent ops c s =
        (if sk_checkpointDigest d = sk_checkpointDigest c then ExistingCheckpoint d else ConflictingCheckpoint d, s)"
    and put_fresh: "inv s \<Longrightarrow> coreLedger (sk_core c) = ledger \<Longrightarrow> \<forall>d \<in> stored s. treeSizeOf d \<noteq> treeSizeOf c \<Longrightarrow>
      \<exists>t. so_putIfAbsent ops c s = (Inserted c, t) \<and> inv t \<and> stored t = insert c (stored s)"
begin

lemma put_cases:
  assumes "inv s" and "coreLedger (sk_core c) = ledger" and "so_putIfAbsent ops c s = (r, t)"
  obtains (known) d where "d \<in> stored s" "treeSizeOf d = treeSizeOf c" "t = s"
      "r = (if sk_checkpointDigest d = sk_checkpointDigest c then ExistingCheckpoint d else ConflictingCheckpoint d)"
  | (fresh) "\<forall>d \<in> stored s. treeSizeOf d \<noteq> treeSizeOf c" "r = Inserted c" "inv t" "stored t = insert c (stored s)"
proof (cases "\<exists>d \<in> stored s. treeSizeOf d = treeSizeOf c")
  case True
  then obtain d where "d \<in> stored s" "treeSizeOf d = treeSizeOf c" by blast
  then show thesis using known put_known [OF assms(1) _ assms(2)] assms(3) by auto
next
  case False
  then show thesis using fresh put_fresh [OF assms(1,2)] assms(3) by auto
qed

end

locale readable_journal = audit_journal +
  assumes range_is_prefix: "inv j \<Longrightarrow> jo_readRange ops ledger None (Some (int n)) j = take n (entries j)"

lemma yield_prefix: "yieldRange None (Some (int n)) (int k) es = take (n - k) es"
proof (induction es arbitrary: k)
  case (Cons e es)
  have next_k: "int k + 1 = int (Suc k)" and "k < n \<Longrightarrow> n - k = Suc (n - Suc k)" by simp_all
  then show ?case using Cons [of "Suc k"] by (cases "k < n") (simp_all only: yieldRange.simps option.case next_k, simp_all)
qed simp

interpretation readable: readable_journal memOps l "memInv l" "memSnapshot l" for l
  by unfold_locales (use yield_prefix [of _ 0] in \<open>simp add: memOps_def memReadRange_def\<close>)

text \<open>The checkpoints of a ledger in the memory store; each is filed under its own key, and the record of the latest is the largest.\<close>

definition memStored :: "ledgerRef \<Rightarrow> memCheckpoints \<Rightarrow> signedCheckpoint set" where
  "memStored l s = {c. coreLedger (sk_core c) = l \<and> memGetByTreeSize l (treeSizeOf c) s = Some c}"

definition storeInv :: "ledgerRef \<Rightarrow> memCheckpoints \<Rightarrow> bool" where
  "storeInv l s \<longleftrightarrow> NUL \<notin> set (lr_ledgerId l) \<and>
     (\<forall>n c. memGetByTreeSize l n s = Some c \<longrightarrow> coreLedger (sk_core c) = l \<and> treeSizeOf c = n) \<and>
     (memGetLatest l s = None \<longleftrightarrow> memStored l s = {}) \<and>
     (\<forall>c. memGetLatest l s = Some c \<longrightarrow> c \<in> memStored l s \<and> (\<forall>d \<in> memStored l s. treeSizeOf d \<le> treeSizeOf c))"

lemma checkpointKey_same: "checkpointKey l m = checkpointKey l n \<longleftrightarrow> m = n"
  by (simp add: checkpointKey_def)

lemma put_known_mem:
  assumes "memGetByTreeSize (coreLedger (sk_core c)) (treeSizeOf c) s = Some d"
  shows "memPutIfAbsent c s = (if sk_checkpointDigest d = sk_checkpointDigest c then ExistingCheckpoint d else ConflictingCheckpoint d, s)"
  using assms by (simp add: memPutIfAbsent_def memGetByTreeSize_def Let_def)

lemma put_fresh_mem:
  assumes "memGetByTreeSize (coreLedger (sk_core c)) (treeSizeOf c) s = None" and "coreLedger (sk_core c) = l"
  shows "fst (memPutIfAbsent c s) = Inserted c"
    and "memGetByTreeSize l n (snd (memPutIfAbsent c s)) = (if n = treeSizeOf c then Some c else memGetByTreeSize l n s)"
    and "memGetLatest l (snd (memPutIfAbsent c s)) = (case memGetLatest l s of
      None \<Rightarrow> Some c | Some d \<Rightarrow> if treeSizeOf d < treeSizeOf c then Some c else Some d)"
  using assms by (auto simp: memPutIfAbsent_def memGetByTreeSize_def memGetLatest_def Let_def checkpointKey_same split: option.split)

lemma put_fresh_inv:
  assumes "storeInv l s" and "coreLedger (sk_core c) = l" and "memGetByTreeSize l (treeSizeOf c) s = None"
  shows "memStored l (snd (memPutIfAbsent c s)) = insert c (memStored l s)" and "storeInv l (snd (memPutIfAbsent c s))"
proof -
  have fresh: "memGetByTreeSize (coreLedger (sk_core c)) (treeSizeOf c) s = None" using assms by simp
  note put = put_fresh_mem [OF fresh assms(2)]
  show stored: "memStored l (snd (memPutIfAbsent c s)) = insert c (memStored l s)"
    using assms(2,3) by (auto simp: memStored_def put)
  have "\<forall>n d. memGetByTreeSize l n (snd (memPutIfAbsent c s)) = Some d \<longrightarrow> coreLedger (sk_core d) = l \<and> treeSizeOf d = n"
    using assms(1,2) by (auto simp: storeInv_def put)
  moreover have "d \<in> insert c (memStored l s) \<and> (\<forall>e \<in> insert c (memStored l s). treeSizeOf e \<le> treeSizeOf d)"
    if d: "memGetLatest l (snd (memPutIfAbsent c s)) = Some d" for d
  proof (cases "memGetLatest l s")
    case None
    then show ?thesis using d assms(1) by (simp add: put storeInv_def)
  next
    case (Some e)
    then have "e \<in> memStored l s" "\<And>f. f \<in> memStored l s \<Longrightarrow> treeSizeOf f \<le> treeSizeOf e" using assms(1) by (simp_all add: storeInv_def)
    moreover have "d = (if treeSizeOf e < treeSizeOf c then c else e)" using d Some by (simp add: put split: if_splits)
    ultimately show ?thesis by (auto intro: order.trans less_imp_le)
  qed
  moreover have "memGetLatest l (snd (memPutIfAbsent c s)) \<noteq> None" by (simp add: put split: option.split)
  ultimately show "storeInv l (snd (memPutIfAbsent c s))" using assms(1) unfolding storeInv_def stored by blast
qed

interpretation store: checkpoint_store memStore l "storeInv l" "memStored l" for l
proof (unfold_locales, goal_cases)
  case (1 s)
  then show ?case by (simp add: storeInv_def memStore_def)
next
  case (2 s c)
  then show ?case by (simp add: storeInv_def memStore_def)
next
  case (3 s d c)
  then have "memGetByTreeSize (coreLedger (sk_core c)) (treeSizeOf c) s = Some d" by (simp add: memStored_def)
  from put_known_mem [OF this] show ?case by (simp add: memStore_def)
next
  case (4 s c)
  have "memGetByTreeSize l (treeSizeOf c) s = None"
  proof (rule ccontr)
    assume "memGetByTreeSize l (treeSizeOf c) s \<noteq> None"
    then obtain d where "memGetByTreeSize l (treeSizeOf c) s = Some d" by blast
    then have "d \<in> memStored l s \<and> treeSizeOf d = treeSizeOf c" using 4(1) by (simp add: storeInv_def memStored_def)
    then show False using 4(3) by blast
  qed
  note put_fresh_inv [OF 4(1,2) this] put_fresh_mem(1) [of c s l]
  then show ?case using 4(2) \<open>memGetByTreeSize l (treeSizeOf c) s = None\<close>
    by (intro exI [of _ "snd (memPutIfAbsent c s)"]) (simp add: memStore_def prod_eq_iff)
qed

subsection \<open>A checkpoint of a prefix of a ledger\<close>

definition contiguous :: "signedEntry list \<Rightarrow> bool" where
  "contiguous es \<longleftrightarrow> (\<forall>i < length es. ec_sequence (se_core (es ! i)) = i)"

definition covers :: "('j, 's) checkpointBuilder \<Rightarrow> ledgerRef \<Rightarrow> signedEntry list \<Rightarrow> signedCheckpoint \<Rightarrow> bool" where
  "covers b l es c \<longleftrightarrow> coreLedger (sk_core c) = l \<and> 0 < treeSizeOf c \<and> treeSizeOf c \<le> length es \<and>
     ck_firstSequence (sk_core c) = 0 \<and> ck_lastSequence (sk_core c) = treeSizeOf c - 1 \<and>
     merkleRoot (cb_sha b) (map se_entryDigest (take (treeSizeOf c) es)) = Some (ck_rootDigest (sk_core c)) \<and>
     ck_headEntryDigest (sk_core c) = se_entryDigest (es ! (treeSizeOf c - 1)) \<and> ck_issuer (sk_core c) = cb_signer b \<and>
     sk_checkpointDigest c = cb_digestCheckpoint b (sk_core c) \<and> sk_jws c = cb_sign b (sk_core c) \<and>
     auditCheckpointCoreSchema (sk_core c) \<and> ck_checkpointId (sk_core c) = checkpointIdOf l (treeSizeOf c)"

lemma covers_prefix: "covers b l es c \<Longrightarrow> prefix es fs \<Longrightarrow> covers b l fs c"
  by (auto simp: covers_def nth_append elim!: prefixE)

lemma contiguous_prefix:
  assumes "contiguous fs" and "prefix es fs"
  shows "contiguous es"
  unfolding contiguous_def
proof (intro allI impI)
  fix i assume i: "i < length es"
  obtain more where "fs = es @ more" using assms(2) by (auto elim: prefixE)
  then have "i < length fs" "fs ! i = es ! i" using i by (simp_all add: nth_append)
  then show "ec_sequence (se_core (es ! i)) = i" using assms(1) unfolding contiguous_def by metis
qed

lemma chained_contiguous: "chainedLedger l es \<Longrightarrow> contiguous es"
  by (simp add: chainedLedger_def contiguous_def)

lemma collect_contiguous: "\<forall>i < length es. ec_sequence (se_core (es ! i)) = k + i \<Longrightarrow> collectRange k es = Inr es"
proof (induction es arbitrary: k)
  case (Cons e es)
  have "\<forall>i < length es. ec_sequence (se_core (es ! i)) = (k + 1) + i" using Cons.prems by force
  moreover have "ec_sequence (se_core e) = k" using Cons.prems by force
  ultimately show ?case using Cons.IH by simp
qed simp

lemma last_of_prefix: "0 < n \<Longrightarrow> n \<le> length es \<Longrightarrow> lastDigest (take n es) = Some (se_entryDigest (es ! (n - 1)))"
  by (auto simp: lastDigest_def last_conv_nth)

lemma assert_covered: "covers b l es p \<Longrightarrow> assertExtends b p es = Inr ()"
  by (simp add: covers_def assertExtends_def Let_def treeRoot_def orThrow_def last_of_prefix)

lemma signed_covers:
  assumes "signCheckpoint b l es previous now = Inr c" and "es \<noteq> []" and "contiguous es"
  shows "covers b l es c" and "treeSizeOf c = length es" and "ck_previousCheckpointDigest (sk_core c) = map_option sk_checkpointDigest previous"
proof -
  have "ec_sequence (se_core (hd es)) = 0" "ec_sequence (se_core (last es)) = length es - 1"
    using assms(2,3) by (simp_all add: contiguous_def hd_conv_nth last_conv_nth)
  with assms(1,2) show "covers b l es c" "treeSizeOf c = length es" "ck_previousCheckpointDigest (sk_core c) = map_option sk_checkpointDigest previous"
    by (auto simp: signCheckpoint_def thenTry_Inr treeRoot_def Let_def covers_def coreLedger_def last_conv_nth auditCheckpointCoreSchema_def split: if_splits)
qed

locale ledger_checkpoints =
  journal: readable_journal "cb_journal b" ledger jinv entries + store: checkpoint_store "cb_store b" ledger sinv stored
  for b :: "('j, 's) checkpointBuilder" and ledger jinv entries sinv stored
begin

lemma read_prefix: "jinv j \<Longrightarrow> contiguous (entries j) \<Longrightarrow> readEntries b ledger n j = Inr (take n (entries j))"
  unfolding readEntries_def journal.range_is_prefix by (intro collect_contiguous) (simp add: contiguous_def)

lemma snapshot_prefix:
  assumes "snapshotAtHead b ledger j j' = Inr es" and "jinv j'" and "contiguous (entries j')"
  shows "prefix es (entries j')"
  using assms read_prefix [OF assms(2,3)] by (auto simp: snapshotAtHead_def thenTry_Inr take_is_prefix split: option.splits if_splits)

lemma snapshot_total:
  assumes "jinv j" and "jinv j'" and "contiguous (entries j')" and "prefix (entries j) (entries j')" and "length (entries j) \<le> MAX_SAFE_INTEGER"
  shows "snapshotAtHead b ledger j j' = Inr (entries j)"
proof (cases "entries j = []")
  case True
  then show ?thesis using journal.head_is_last [OF assms(1)] by (simp add: snapshotAtHead_def headOf_def)
next
  case False
  have "take (length (entries j)) (entries j') = entries j" using assms(4) by (auto elim!: prefixE)
  then have read: "readEntries b ledger (length (entries j)) j' = Inr (entries j)" using read_prefix [OF assms(2,3)] by simp
  have "ec_sequence (se_core (last (entries j))) = length (entries j) - 1"
    using contiguous_prefix [OF assms(3,4)] False by (simp add: contiguous_def last_conv_nth)
  then have "jo_getHead (cb_journal b) ledger j = Some (headFor ledger (last (entries j)))"
    "ah_sequence (headFor ledger (last (entries j))) + 1 = length (entries j)"
    "ah_entryDigest (headFor ledger (last (entries j))) = se_entryDigest (last (entries j))"
    using journal.head_is_last [OF assms(1)] False by (simp_all add: headOf_def headFor_def)
  then show ?thesis using False assms(5) read
    by (simp add: snapshotAtHead_def toSafeNumber_def lastDigest_def)
qed

text \<open>Whatever a call of \<open>storeCheckpoint\<close> returns, the store then still covers the ledger, and it has lost nothing.\<close>

lemma store_keeps:
  assumes j: "jinv j'" "contiguous (entries j')" "prefix (entries j') es" and s: "sinv s'" "\<forall>c \<in> stored s'. covers b ledger es c"
    and r: "storeCheckpoint b ledger now j j' s s' = (r, t)"
  shows "sinv t \<and> stored s' \<subseteq> stored t \<and> (\<forall>c \<in> stored t. covers b ledger es c)"
proof (cases "t = s'")
  case False
  then obtain fs c where c: "snapshotAtHead b ledger j j' = Inr fs" "fs \<noteq> []" "signCheckpoint b ledger fs (so_getLatest (cb_store b) ledger s) now = Inr c"
    and t: "t = snd (so_putIfAbsent (cb_store b) c s')"
    using r by (auto simp: storeCheckpoint_def putCheckpoint_def Let_def case_prod_beta split: sum.splits option.splits if_splits prod.splits putResult.splits)
  have fs: "prefix fs (entries j')" using snapshot_prefix [OF c(1) j(1,2)] .
  then have covered: "covers b ledger fs c" using signed_covers [OF c(3,2)] contiguous_prefix [OF j(2)] by blast
  then have "coreLedger (sk_core c) = ledger" by (simp add: covers_def)
  then show ?thesis
  proof (rule store.put_cases [OF s(1) _ prod.collapse [symmetric]])
    assume "snd (so_putIfAbsent (cb_store b) c s') = s'"
    then show ?thesis using s t by simp
  next
    assume "sinv (snd (so_putIfAbsent (cb_store b) c s'))" "stored (snd (so_putIfAbsent (cb_store b) c s')) = insert c (stored s')"
    then show ?thesis using s(2) t covers_prefix [OF covered] fs j(3) by (auto dest: prefix_order.trans)
  qed
qed (use s in simp)

text \<open>With the store to itself, a builder gets its checkpoint.\<close>

lemma store_succeeds:
  assumes j: "jinv j" "jinv j'" "contiguous (entries j')" "prefix (entries j) (entries j')" "entries j \<noteq> []" "length (entries j) \<le> MAX_SAFE_INTEGER"
    and s: "sinv s" "\<forall>c \<in> stored s. covers b ledger (entries j) c"
    and signed: "\<exists>c. signCheckpoint b ledger (entries j) (so_getLatest (cb_store b) ledger s) now = Inr c"
  obtains c isNew t where "storeCheckpoint b ledger now j j' s s = (Inr (c, isNew), t)" and "c \<in> stored t" and "treeSizeOf c = length (entries j)"
    and "isNew \<Longrightarrow> ck_previousCheckpointDigest (sk_core c) = map_option sk_checkpointDigest (so_getLatest (cb_store b) ledger s)"
proof -
  let ?latest = "so_getLatest (cb_store b) ledger s"
  have snapshot: "snapshotAtHead b ledger j j' = Inr (entries j)" by (rule snapshot_total [OF j(1-4,6)])
  have extends: "(case ?latest of None \<Rightarrow> Inr () | Some p \<Rightarrow> assertExtends b p (entries j)) = Inr ()"
    using store.latest_largest [OF s(1)] s(2) assert_covered by (fastforce split: option.split)
  obtain c where c: "signCheckpoint b ledger (entries j) ?latest now = Inr c" using signed by blast
  note made = signed_covers [OF c j(5) contiguous_prefix [OF j(3,4)]]
  show thesis
  proof (cases "\<exists>p. ?latest = Some p \<and> treeSizeOf p = length (entries j)")
    case True
    then obtain p where p: "?latest = Some p" "treeSizeOf p = length (entries j)" by blast
    have "storeCheckpoint b ledger now j j' s s = (Inr (p, False), s)"
      using snapshot extends p j(5) by (simp add: storeCheckpoint_def)
    then show thesis using store.latest_largest [OF s(1) p(1)] p by (intro that [of p False s]) simp_all
  next
    case False
    have smaller: "treeSizeOf d < length (entries j)" if d: "d \<in> stored s" for d
    proof -
      obtain p where p: "?latest = Some p" using d store.latest_none [OF s(1)] by (cases ?latest) auto
      then have "p \<in> stored s" "treeSizeOf d \<le> treeSizeOf p" using store.latest_largest [OF s(1) p] d by auto
      moreover have "treeSizeOf p \<le> length (entries j)" using calculation(1) s(2) by (auto simp: covers_def)
      ultimately show ?thesis using False p by fastforce
    qed
    have "coreLedger (sk_core c) = ledger" using made(1) by (simp add: covers_def)
    moreover have "\<forall>d \<in> stored s. treeSizeOf d \<noteq> treeSizeOf c" using smaller made(2) by fastforce
    ultimately obtain t where t: "so_putIfAbsent (cb_store b) c s = (Inserted c, t)" "stored t = insert c (stored s)"
      using store.put_fresh [OF s(1)] by blast
    have "storeCheckpoint b ledger now j j' s s = putCheckpoint b (signCheckpoint b ledger (entries j) ?latest now) s"
      using snapshot extends False j(5) by (auto simp: storeCheckpoint_def Let_def split: option.split)
    then have "storeCheckpoint b ledger now j j' s s = (Inr (c, True), t)" using c t by (simp add: putCheckpoint_def)
    then show thesis using t made by (intro that [of c True t]) simp_all
  qed
qed

end

subsection \<open>Writers and builders at work on one ledger\<close>

definition memBuilder ::
  "(bytes \<Rightarrow> string) \<Rightarrow> (checkpointCore \<Rightarrow> digest) \<Rightarrow> signerRef \<Rightarrow> (checkpointCore \<Rightarrow> string) \<Rightarrow> (memJournal, memCheckpoints) checkpointBuilder" where
  "memBuilder sha digestCheckpoint signer sign = \<lparr>cb_journal = memOps, cb_store = memStore, cb_sha = sha,
     cb_digestCheckpoint = digestCheckpoint, cb_signer = signer, cb_sign = sign\<rparr>"

interpretation built: ledger_checkpoints "memBuilder sha dg signer sign" l "memInv l" "memSnapshot l" "storeInv l" "memStored l"
  for sha dg signer sign l
  by (simp add: ledger_checkpoints_def memBuilder_def readable.readable_journal_axioms store.checkpoint_store_axioms)

text \<open>
  The states of the journal and the store, latest first. An append takes effect at once. A builder's call reads the head in
  one state, the entries in a later one, the latest checkpoint in a still later one, and its put takes effect now: any
  number of builders may be at work.
\<close>

inductive auditRun :: "(memJournal, memCheckpoints) checkpointBuilder \<Rightarrow> ledgerRef \<Rightarrow> (memJournal \<times> memCheckpoints) list \<Rightarrow> bool"
  for b l where
  started: "auditRun b l [(emptyJournal, emptyCheckpoints)]"
| appended: "auditRun b l ((j, s) # past) \<Longrightarrow> goodInput i \<Longrightarrow> isDigest (se_entryDigest (ai_entry i)) \<Longrightarrow>
    auditRun b l ((snd (memCompareAndAppend i j), s) # (j, s) # past)"
| checkpointed: "auditRun b l ((j, s) # past) \<Longrightarrow> r \<le> q \<Longrightarrow> q \<le> p \<Longrightarrow> p \<le> length past \<Longrightarrow>
    auditRun b l ((j, snd (storeCheckpoint b l now (fst (((j, s) # past) ! p)) (fst (((j, s) # past) ! q)) (snd (((j, s) # past) ! r)) s)) # (j, s) # past)"

inductive_cases auditRun_nonempty: "auditRun b l []"

definition goodWorld :: "(memJournal, memCheckpoints) checkpointBuilder \<Rightarrow> ledgerRef \<Rightarrow> memJournal \<times> memCheckpoints \<Rightarrow> bool" where
  "goodWorld b l w \<longleftrightarrow> chainedJournal (fst w) \<and> storeInv l (snd w) \<and> list_all (\<lambda>e. isDigest (se_entryDigest e)) (memSnapshot l (fst w)) \<and>
     (\<forall>c \<in> memStored l (snd w). covers b l (memSnapshot l (fst w)) c)"

definition laterWorld :: "ledgerRef \<Rightarrow> memJournal \<times> memCheckpoints \<Rightarrow> memJournal \<times> memCheckpoints \<Rightarrow> bool" where
  "laterWorld l w v \<longleftrightarrow> prefix (memSnapshot l (fst v)) (memSnapshot l (fst w)) \<and> memStored l (snd v) \<subseteq> memStored l (snd w)"

lemma later_refl: "laterWorld l w w"
  by (simp add: laterWorld_def)

lemma later_trans: "laterWorld l u w \<Longrightarrow> laterWorld l w v \<Longrightarrow> laterWorld l u v"
  by (auto simp: laterWorld_def dest: prefix_order.trans)

lemma sorted_step: "sorted_wrt (laterWorld l) (w # past) \<Longrightarrow> laterWorld l u w \<Longrightarrow> sorted_wrt (laterWorld l) (u # w # past)"
  by (auto intro: later_trans)

lemma sorted_past:
  assumes "sorted_wrt (laterWorld l) h" and "q \<le> p" and "p < length h"
  shows "laterWorld l (h ! q) (h ! p)"
  using assms later_refl by (cases "q = p") (auto simp: sorted_wrt_iff_nth_less)

lemma snapshot_grows: "\<exists>more. memSnapshot l (snd (memCompareAndAppend i j)) = memSnapshot l j @ more \<and> set more \<subseteq> {ai_entry i}"
proof (cases "memGetByIdempotencyKey (lr_ledgerId (ai_ledger i)) (ai_idempotencyKey i) j")
  case None
  then show ?thesis
  proof (cases "ai_expectedHead i = memGetHead (ai_ledger i) j")
    case True
    have "memSnapshot l j = memSnapshot (ai_ledger i) j" if "ledgerKey l = ledgerKey (ai_ledger i)"
      using that by (simp add: memSnapshot_def)
    then show ?thesis using memAppend_fresh(2) [OF None True, of l] by auto
  qed (auto simp: memAppend_stale)
qed (auto simp: memAppend_known)

lemma empty_world: "NUL \<notin> set (lr_ledgerId l) \<Longrightarrow> goodWorld b l (emptyJournal, emptyCheckpoints)"
  using empty_chained by (simp add: goodWorld_def storeInv_def memStored_def memGetByTreeSize_def memGetLatest_def emptyCheckpoints_def
      memSnapshot_def) (simp add: emptyJournal_def)

lemma append_world:
  assumes "goodWorld b l (j, s)" and "goodInput i" and "isDigest (se_entryDigest (ai_entry i))"
  shows "goodWorld b l (snd (memCompareAndAppend i j), s) \<and> laterWorld l (snd (memCompareAndAppend i j), s) (j, s)"
proof -
  obtain more where more: "memSnapshot l (snd (memCompareAndAppend i j)) = memSnapshot l j @ more" "set more \<subseteq> {ai_entry i}"
    using snapshot_grows by blast
  then have "prefix (memSnapshot l j) (memSnapshot l (snd (memCompareAndAppend i j)))" by simp
  moreover have "list_all (\<lambda>e. isDigest (se_entryDigest e)) (memSnapshot l (snd (memCompareAndAppend i j)))"
    using more assms(1,3) by (auto simp: goodWorld_def list_all_iff)
  moreover have "\<forall>c \<in> memStored l s. covers b l (memSnapshot l (snd (memCompareAndAppend i j))) c"
    using assms(1) calculation(1) by (auto simp: goodWorld_def intro: covers_prefix)
  ultimately show ?thesis using assms(1) append_chained [OF _ assms(2)] by (simp add: goodWorld_def laterWorld_def)
qed

lemma world_journal: "goodWorld b l w \<Longrightarrow> NUL \<notin> set (lr_ledgerId l) \<Longrightarrow> memInv l (fst w) \<and> contiguous (memSnapshot l (fst w))"
  by (auto simp: goodWorld_def chainedJournal_def intro: chained_contiguous)

lemma run_good:
  assumes "auditRun (memBuilder sha dg signer sign) l h" and "NUL \<notin> set (lr_ledgerId l)"
  shows "h \<noteq> [] \<and> list_all (goodWorld (memBuilder sha dg signer sign) l) h \<and> sorted_wrt (laterWorld l) h"
  using assms(1)
proof induction
  case started
  then show ?case using empty_world [OF assms(2)] by simp
next
  case (appended j s past i)
  then have good: "goodWorld (memBuilder sha dg signer sign) l (j, s)" "sorted_wrt (laterWorld l) ((j, s) # past)" by simp_all
  show ?case using append_world [OF good(1) appended.hyps(2,3)] sorted_step [OF good(2)] appended.IH by simp
next
  case (checkpointed j s past r q p now)
  let ?b = "memBuilder sha dg signer sign" and ?h = "(j, s) # past"
  let ?t = "snd (storeCheckpoint ?b l now (fst (?h ! p)) (fst (?h ! q)) (snd (?h ! r)) s)"
  have good: "list_all (goodWorld ?b l) ?h" "sorted_wrt (laterWorld l) ?h" using checkpointed.IH by simp_all
  have q: "q < length ?h" using checkpointed by simp
  then have "goodWorld ?b l (?h ! q)" using good(1) by (simp only: list_all_length)
  note jq = world_journal [OF this assms(2)]
  have "laterWorld l (?h ! 0) (?h ! q)" by (rule sorted_past [OF good(2) _ q]) simp
  then have "prefix (memSnapshot l (fst (?h ! q))) (memSnapshot l j)" by (simp add: laterWorld_def)
  moreover have "storeInv l s" "\<forall>c \<in> memStored l s. covers ?b l (memSnapshot l j) c" using good(1) by (simp_all add: goodWorld_def)
  ultimately have "storeInv l ?t \<and> memStored l s \<subseteq> memStored l ?t \<and> (\<forall>c \<in> memStored l ?t. covers ?b l (memSnapshot l j) c)"
    using built.store_keeps [OF _ _ _ _ _ prod.collapse [symmetric]] jq by blast
  then have "goodWorld ?b l (j, ?t)" "laterWorld l (j, ?t) (j, s)" using good(1) by (simp_all add: goodWorld_def laterWorld_def)
  then show ?case using good sorted_step [OF good(2)] by simp
qed

lemma decimalText_canonical: "canonicalDecimal (decimalText n)"
proof -
  have "n \<noteq> 0 \<Longrightarrow> hd (decimalText n) \<noteq> CHR ''0''"
  proof (induction n rule: decimalText.induct)
    case (1 n)
    have "digitChar k \<noteq> CHR ''0''" if "0 < k" "k < 10" for k
    proof
      assume "digitChar k = CHR ''0''"
      then have "digitValue CHR ''0'' = k" using digitChar_cases [OF that(2)] by simp
      then show False using that(1) by (simp add: digitValue_def)
    qed
    then show ?case using 1 decimalText_digits [of "n div 10"] by (cases "n < 10") (simp_all add: decimalText.simps [of n])
  qed
  moreover have "decimalText 0 = ''0''" by code_simp
  ultimately show ?thesis using decimalText_digits [of n] by (auto simp: canonicalDecimal_def)
qed

lemma safeDecimal_text: "n \<le> MAX_SAFE_INTEGER \<Longrightarrow> safeDecimal (decimalText n) label = Inr n"
  by (simp add: safeDecimal_def parseDecimal_def decimalText_canonical toSafeNumber_def decimalValue_text)


lemma covered_entries:
  assumes "memInv l j" and "contiguous (memSnapshot l j)" and "covers (memBuilder sha dg signer sign) l (memSnapshot l j) c"
    and "length (memSnapshot l j) \<le> MAX_SAFE_INTEGER"
  shows "assertCheckpointLedger l c = Inr ()"
    and "entriesForCheckpoint (memBuilder sha dg signer sign) l c j = Inr (take (treeSizeOf c) (memSnapshot l j))"
proof -
  show "assertCheckpointLedger l c = Inr ()"
    using assms(3) by (auto simp: assertCheckpointLedger_def covers_def coreLedger_def)
  show "entriesForCheckpoint (memBuilder sha dg signer sign) l c j = Inr (take (treeSizeOf c) (memSnapshot l j))"
    using assms(3,4) by (simp add: entriesForCheckpoint_def toSafeNumber_def built.read_prefix [OF assms(1,2)] covers_def last_of_prefix)
qed

lemma run_world:
  assumes "auditRun (memBuilder sha dg signer sign) l ((j, s) # past)" and "NUL \<notin> set (lr_ledgerId l)"
  shows "goodWorld (memBuilder sha dg signer sign) l (j, s)" and "memInv l j" and "contiguous (memSnapshot l j)"
    and "memGetByTreeSize l n s = Some c \<Longrightarrow> c \<in> memStored l s \<and> treeSizeOf c = n \<and> covers (memBuilder sha dg signer sign) l (memSnapshot l j) c"
proof -
  show w: "goodWorld (memBuilder sha dg signer sign) l (j, s)" using run_good [OF assms] by simp
  from world_journal [OF this assms(2)] show "memInv l j" "contiguous (memSnapshot l j)" by simp_all
  assume "memGetByTreeSize l n s = Some c"
  then have "c \<in> memStored l s \<and> treeSizeOf c = n" using w by (simp add: goodWorld_def storeInv_def memStored_def)
  then show "c \<in> memStored l s \<and> treeSizeOf c = n \<and> covers (memBuilder sha dg signer sign) l (memSnapshot l j) c"
    using w by (simp add: goodWorld_def)
qed

text \<open>C23: Checkpoints never fork. Whatever writers append to the memory journal and however the calls of any number of builders
  interleave with them and with each other, of any two checkpoints a ledger has stored the builder can prove that the smaller
  one's tree is a prefix of the larger one's, and verification accepts the proof.\<close>

theorem concurrent_checkpoints_are_consistent:
  assumes "auditRun (memBuilder sha dg signer sign) l ((j, s) # past)" and "NUL \<notin> set (lr_ledgerId l)" and "\<And>x. isDigest (sha x)"
    and "memGetByTreeSize l m s = Some c" and "memGetByTreeSize l n s = Some d" and "m \<le> n" and "length (memSnapshot l j) \<le> MAX_SAFE_INTEGER"
  shows "\<exists>p. builderConsistencyProof (memBuilder sha dg signer sign) l (decimalText m) d j = Inr p \<and>
    builderVerifyConsistency (memBuilder sha dg signer sign) (decimalText m) (ck_rootDigest (sk_core c)) d p = Inr True"
proof -
  let ?b = "memBuilder sha dg signer sign" and ?es = "memSnapshot l j"
  note w = run_world [OF assms(1,2)]
  have c: "treeSizeOf c = m" "covers ?b l ?es c" and d: "treeSizeOf d = n" "covers ?b l ?es d"
    using w(4) [OF assms(4)] w(4) [OF assms(5)] by simp_all
  note read = covered_entries [OF w(2,3) d(2) assms(7)]
  define leaves where "leaves = map se_entryDigest (take n ?es)"
  have n: "0 < m" "length leaves = n" "n \<le> MAX_SAFE_INTEGER" "m \<le> length leaves"
    using c d assms(6,7) by (auto simp: covers_def leaves_def)
  have digests: "list_all isDigest leaves"
    using w(1) by (auto simp: goodWorld_def leaves_def list_all_iff dest: in_set_takeD)
  have sha: "cb_sha ?b = sha" by (simp add: memBuilder_def)
  from n have "length leaves \<le> MAX_SAFE_INTEGER" by simp
  from consistency_proof_complete [of sha, OF assms(3) digests n(1,4) this] obtain p ro rn
    where p: "consistencyProof sha leaves (JsInteger (int m)) = Some p" "merkleRoot sha (take m leaves) = Some ro" "merkleRoot sha leaves = Some rn"
      "verifyConsistency sha \<lparr>cv_oldSize = JsInteger (int m), cv_newSize = JsInteger (int n), cv_oldRoot = ro, cv_newRoot = rn, cv_auditPath = p\<rparr>"
    using n(2) by auto
  have "take m leaves = map se_entryDigest (take m ?es)" using assms(6) by (simp add: leaves_def take_map min_def)
  then have "ro = ck_rootDigest (sk_core c)" "rn = ck_rootDigest (sk_core d)"
    using p(2,3) c d by (simp_all add: covers_def sha leaves_def)
  moreover have "m \<le> MAX_SAFE_INTEGER" using n by simp
  ultimately show ?thesis using p(1,4) read d(1) n
    by (simp add: builderConsistencyProof_def builderVerifyConsistency_def safeDecimal_text orThrow_def sha leaves_def toSafeNumber_def)
qed

definition namesFit :: "ledgerRef \<Rightarrow> nat \<Rightarrow> bool" where
  "namesFit l n \<longleftrightarrow> lr_ledgerId l \<noteq> [] \<and> length (lr_ledgerId l) \<le> 256 \<and> lr_ledgerEpochId l \<noteq> [] \<and> length (lr_ledgerEpochId l) \<le> 256 \<and>
     length (checkpointIdOf l n) \<le> 512"

lemma covered_names_fit: "covers b l es c \<Longrightarrow> namesFit l (treeSizeOf c)"
  by (auto simp: covers_def namesFit_def auditCheckpointCoreSchema_def coreLedger_def)

text \<open>The state a builder's call finds is one of the run, and the ledger it read is a prefix of the ledger now.\<close>

lemma run_visited:
  assumes "auditRun (memBuilder sha dg signer sign) l ((j', s') # past)" and "NUL \<notin> set (lr_ledgerId l)" and "(j, s) \<in> set ((j', s') # past)"
  shows "goodWorld (memBuilder sha dg signer sign) l (j, s)" and "prefix (memSnapshot l j) (memSnapshot l j')"
proof -
  let ?h = "(j', s') # past"
  note run = run_good [OF assms(1,2)]
  obtain p where p: "p < length ?h" "?h ! p = (j, s)" using assms(3) by (metis in_set_conv_nth)
  show "goodWorld (memBuilder sha dg signer sign) l (j, s)" using run p by (metis list_all_length)
  have "laterWorld l (?h ! 0) (?h ! p)" by (rule sorted_past) (use run p in simp_all)
  then show "prefix (memSnapshot l j) (memSnapshot l j')" using p by (simp add: laterWorld_def)
qed

lemma run_created:
  assumes "auditRun (memBuilder sha dg signer sign) l ((j', s) # past)" and "NUL \<notin> set (lr_ledgerId l)"
    and "(j, s) \<in> set ((j', s) # past)" and "storeCheckpoint (memBuilder sha dg signer sign) l now j j' s s = (Inr (c, isNew), t)"
    and "memGetByTreeSize l n t = Some c"
  shows "namesFit l n"
proof -
  have "storeInv l s" "\<forall>c \<in> memStored l s. covers (memBuilder sha dg signer sign) l (memSnapshot l j') c"
    using run_world(1) [OF assms(1,2)] by (simp_all add: goodWorld_def)
  from built.store_keeps [OF run_world(2,3) [OF assms(1,2)] prefix_order.refl this assms(4)]
  have "storeInv l t" "\<forall>c \<in> memStored l t. covers (memBuilder sha dg signer sign) l (memSnapshot l j') c" by simp_all
  moreover have "c \<in> memStored l t" "treeSizeOf c = n" using assms(5) calculation(1) by (simp_all add: storeInv_def memStored_def)
  ultimately show ?thesis using covered_names_fit by blast
qed

lemma run_creates:
  assumes "auditRun (memBuilder sha dg signer sign) l ((j', s) # past)" and "NUL \<notin> set (lr_ledgerId l)"
    and "(j, s) \<in> set ((j', s) # past)" and "memSnapshot l j \<noteq> []" and "length (memSnapshot l j) \<le> MAX_SAFE_INTEGER"
    and "\<And>x. isDigest (sha x)" and "\<And>core. isDigest (dg core)" and "0 \<le> now" and "signerRefSchema signer"
    and "namesFit l (length (memSnapshot l j))"
  shows "\<exists>c isNew t. storeCheckpoint (memBuilder sha dg signer sign) l now j j' s s = (Inr (c, isNew), t) \<and>
    memGetByTreeSize l (length (memSnapshot l j)) t = Some c"
proof -
  let ?b = "memBuilder sha dg signer sign" and ?es = "memSnapshot l j"
  note old = run_visited(1) [OF assms(1-3)] and prefix = run_visited(2) [OF assms(1-3)]
  note j = world_journal [OF old assms(2), simplified] and j' = run_world(2,3) [OF assms(1,2)]
  have digits: "length (decimalText k) \<le> 16" if "k \<le> MAX_SAFE_INTEGER" for k
  proof -
    have "k < 10 ^ e \<Longrightarrow> 0 < e \<Longrightarrow> length (decimalText k) \<le> e" for e k
    proof (induction e arbitrary: k)
      case (Suc e)
      show ?case
      proof (cases "k < 10")
        case False
        then have "k div 10 < 10 ^ e" "0 < e" using Suc.prems by (auto simp: div_less_iff_less_mult intro: gr0I)
        then show ?thesis using Suc.IH False by (simp add: decimalText.simps [of k])
      qed (simp add: decimalText.simps [of k])
    qed simp
    moreover have "k < 10 ^ 16" using that by (simp add: MAX_SAFE_INTEGER_def)
    ultimately show ?thesis by simp
  qed
  have stored: "\<forall>c \<in> memStored l s. covers ?b l ?es c \<and> storeInv l s" using old by (simp add: goodWorld_def)
  obtain root where root: "merkleRoot sha (map se_entryDigest ?es) = Some root" "isDigest root"
    using merkleRoot_total [of sha "map se_entryDigest ?es"] assms(6) old by (auto simp: goodWorld_def list_all_iff)
  have prev: "isDigest d" if d: "map_option sk_checkpointDigest (memGetLatest l s) = Some d" for d
  proof -
    obtain c where c: "memGetLatest l s = Some c" "d = sk_checkpointDigest c" using d by auto
    then have "c \<in> memStored l s" using old by (simp add: goodWorld_def storeInv_def)
    then show ?thesis using stored c assms(7) by (auto simp: covers_def memBuilder_def)
  qed
  have "checkpointIdOf l (length ?es) \<noteq> []" by (simp add: checkpointIdOf_def)
  moreover have "isDigest (se_entryDigest (last ?es))" using old assms(4) by (simp add: goodWorld_def list_all_iff)
  moreover have "ec_sequence (se_core (hd ?es)) = 0" "ec_sequence (se_core (last ?es)) = length ?es - 1"
    using contiguous_prefix [OF j'(2) prefix] assms(4) by (simp_all add: contiguous_def hd_conv_nth last_conv_nth)
  moreover have "decimalStringSchema (length ?es)" "decimalStringSchema (length ?es - 1)" "decimalStringSchema 0"
    using digits [OF assms(5)] digits [OF order.trans [OF diff_le_self assms(5)], of 1] digits [of 0]
    by (simp_all add: decimalStringSchema_def)
  ultimately have "\<exists>c. signCheckpoint ?b l ?es (memGetLatest l s) now = Inr c"
    using root prev assms(4,8-10)
    by (auto simp: namesFit_def signCheckpoint_def treeRoot_def orThrow_def memBuilder_def Let_def auditCheckpointCoreSchema_def
        Suc_le_eq split: option.split)
  then have signed: "\<exists>c. signCheckpoint ?b l ?es (so_getLatest (cb_store ?b) l s) now = Inr c" by (simp add: memBuilder_def memStore_def)
  have "storeInv l s" "\<forall>c \<in> memStored l s. covers ?b l ?es c" using old by (simp_all add: goodWorld_def)
  from built.store_succeeds [OF _ j'(1,2) prefix assms(4,5) this signed] j
  obtain c isNew t where t: "storeCheckpoint ?b l now j j' s s = (Inr (c, isNew), t)" "c \<in> memStored l t" "treeSizeOf c = length ?es" by blast
  then show ?thesis by (auto simp: memStored_def)
qed


text \<open>C24: When a ledger that is not empty gets its checkpoint. In every state reached by writers and builders, take a builder that
  has the store to itself, whatever is appended between its reading the head and its reading the entries. It returns a
  checkpoint of the ledger as it was when the head was read, and has it stored, exactly when the two identifiers of the ledger
  have 1 to 256 characters each and the identifier made of them and of the tree size has at most 512: its roll-back and fork
  checks never refuse an honest journal, and only the schema can. (Permitted identifiers can be too long together: two of 256
  characters each never get a checkpoint.) Assumed: no NUL in the ledger's identifier, which the stores' keys rely on, a signer
  and a clock that pass the schema, a hash and a digest function whose values are digests, and a tree size that is a safe
  integer.\<close>

theorem checkpoint_always_created:
  assumes "auditRun (memBuilder sha dg signer sign) l ((j', s) # past)" and "NUL \<notin> set (lr_ledgerId l)"
    and "(j, s) \<in> set ((j', s) # past)" and "memSnapshot l j \<noteq> []" and "length (memSnapshot l j) \<le> MAX_SAFE_INTEGER"
    and "\<And>x. isDigest (sha x)" and "\<And>core. isDigest (dg core)" and "0 \<le> now" and "signerRefSchema signer"
  shows "(\<exists>c isNew t. storeCheckpoint (memBuilder sha dg signer sign) l now j j' s s = (Inr (c, isNew), t) \<and>
      memGetByTreeSize l (length (memSnapshot l j)) t = Some c) \<longleftrightarrow>
    lr_ledgerId l \<noteq> [] \<and> length (lr_ledgerId l) \<le> 256 \<and> lr_ledgerEpochId l \<noteq> [] \<and> length (lr_ledgerEpochId l) \<le> 256 \<and>
      length (checkpointIdOf l (length (memSnapshot l j))) \<le> 512"
proof -
  have "namesFit l (length (memSnapshot l j))"
    if "storeCheckpoint (memBuilder sha dg signer sign) l now j j' s s = (Inr (c, isNew), t)"
      and "memGetByTreeSize l (length (memSnapshot l j)) t = Some c" for c isNew t
    by (rule run_created [OF assms(1-3) that])
  then show ?thesis unfolding namesFit_def [symmetric] using run_creates [OF assms] by blast
qed

text \<open>C25: Stored checkpoints verify. In every state reached by writers and builders, the artifact verifier finds any stored
  checkpoint valid for the entries it covers, under a policy that trusts the builder's key and a verifier with the same hash.\<close>

theorem stored_checkpoint_verifies:
  assumes "auditRun (memBuilder (av_sha av) (av_digestCheckpoint av) signer sign) l ((j, s) # past)" and "NUL \<notin> set (lr_ledgerId l)"
    and "memGetByTreeSize l n s = Some c" and "n \<le> MAX_SAFE_INTEGER"
    and "\<And>core. av_verifyCheckpoint av core (sign core) signer"
    and "CHECKPOINT_SUITE \<in> set (pol_acceptedIntegritySuites pol)" and "sr_alg signer \<in> set (pol_acceptedAlgorithms pol)"
    and "\<And>t k bs. trustedKey pol (lr_ledgerId l) (lr_ledgerEpochId l) signer t k bs"
  shows "verifyCheckpoint av (Some c) (take n (memSnapshot l j)) (GoodPolicy pol) context = Some (dimension ValidVerdict [])"
proof -
  let ?b = "memBuilder (av_sha av) (av_digestCheckpoint av) signer sign" and ?es = "take n (memSnapshot l j)"
  have c: "treeSizeOf c = n" "covers ?b l (memSnapshot l j) c" using run_world(4) [OF assms(1-3)] by simp_all
  have ids: "ck_ledgerId (sk_core c) = lr_ledgerId l" "ck_ledgerEpochId (sk_core c) = lr_ledgerEpochId l"
    using c(2) by (auto simp: covers_def coreLedger_def)
  have "authenticCheckpoint av pol context c"
    using c(2) assms(5-8) ids by (simp add: authenticCheckpoint_def covers_def memBuilder_def)
  then have "checkSignedCheckpoint av (Some c) (GoodPolicy pol) context = Inr (sk_core c, [])" by (simp add: checkpoint_checked)
  moreover have "rangeMatches (sk_core c) ?es"
  proof -
    have n: "0 < n" "n \<le> length (memSnapshot l j)" using c by (auto simp: covers_def)
    have "chainedLedger l (memSnapshot l j)" using run_world(1) [OF assms(1,2)] assms(2) by (simp add: goodWorld_def chainedJournal_def)
    then have es: "\<forall>i<n. ec_sequence (se_core (?es ! i)) = i \<and> ec_ledgerId (se_core (?es ! i)) = lr_ledgerId l \<and>
        ec_ledgerEpochId (se_core (?es ! i)) = lr_ledgerEpochId l" using n(2) by (simp add: chainedLedger_def)
    have "?es \<noteq> []" "length ?es = n" using n by auto
    moreover have "last ?es = memSnapshot l j ! (n - 1)" "hd ?es = memSnapshot l j ! 0"
      using last_conv_nth [of ?es] hd_conv_nth [of ?es] calculation n by simp_all
    moreover have "ec_sequence (se_core (memSnapshot l j ! 0)) = 0" "ec_sequence (se_core (memSnapshot l j ! (n - 1))) = n - 1"
      using es n by simp_all
    ultimately show ?thesis using c es assms(4) by (simp add: rangeMatches_def covers_def ids list_all_length)
  qed
  moreover have "merkleRoot (av_sha av) (map se_entryDigest ?es) = Some (ck_rootDigest (sk_core c))"
    using c by (simp add: covers_def memBuilder_def)
  ultimately show ?thesis by (simp add: verifyCheckpoint_def verdictOf_def)
qed

text \<open>The two identifiers of a ledger may have 256 characters each, but the identifier of a checkpoint has at most 512.\<close>

lemma long_ledger_ids_get_no_checkpoint:
  assumes "length (lr_ledgerId l) = 256" and "length (lr_ledgerEpochId l) = 256"
  shows "signCheckpoint b l es previous now \<noteq> Inr c"
  using assms by (auto simp: signCheckpoint_def thenTry_Inr Let_def auditCheckpointCoreSchema_def checkpointIdOf_def)

subsection \<open>No call of the lifecycle hook is lost\<close>

text \<open>
  The hook phases of the calls for one ledger, in whatever order they interleave: the checkpoints inserted, those whose hook
  completed, the due lists of the calls at work, and the map of failed hooks.
\<close>

record hookState =
  hs_inserted :: "signedCheckpoint multiset"
  hs_completed :: "signedCheckpoint multiset"
  hs_working :: "signedCheckpoint list multiset"
  hs_failed :: failedHooks

inductive hookStep :: "ledgerRef \<Rightarrow> hookState \<Rightarrow> hookState \<Rightarrow> bool" for l where
  begins: "takeDue l (c, isNew) (hs_failed st) = (due, taken) \<Longrightarrow>
    hookStep l st (st\<lparr>hs_inserted := (if isNew then {#c#} else {#}) + hs_inserted st, hs_working := add_mset due (hs_working st), hs_failed := taken\<rparr>)"
| finishes: "due \<in># hs_working st \<Longrightarrow> runHooks hook due = (completed, rest) \<Longrightarrow>
    hookStep l st (st\<lparr>hs_completed := hs_completed st + mset completed, hs_working := hs_working st - {#due#}, hs_failed := putBack l rest (hs_failed st)\<rparr>)"

definition idleHooks :: hookState where
  "idleHooks = \<lparr>hs_inserted = {#}, hs_completed = {#}, hs_working = {#}, hs_failed = []\<rparr>"

definition hooksAccounted :: "ledgerRef \<Rightarrow> hookState \<Rightarrow> bool" where
  "hooksAccounted l st \<longleftrightarrow>
     hs_inserted st = hs_completed st + (\<Sum>due \<in># hs_working st. mset due) + mset (failedFor l (hs_failed st))"

lemma run_hooks_split: "runHooks hook due = (completed, rest) \<Longrightarrow> due = completed @ rest"
  by (induction due arbitrary: completed rest) (auto split: if_splits prod.splits)

lemma failed_taken: "takeDue l (c, isNew) failed = (due, taken) \<Longrightarrow>
    due = failedFor l failed @ (if isNew then [c] else []) \<and> failedFor l taken = []"
  by (auto simp: takeDue_def failedFor_def)

lemma failed_put_back: "failedFor l (putBack l rest failed) = rest @ failedFor l failed"
  by (simp add: putBack_def failedFor_def)

lemma step_accounted: "hookStep l st st' \<Longrightarrow> hooksAccounted l st \<Longrightarrow> hooksAccounted l st'"
proof (induction rule: hookStep.induct)
  case (begins c isNew st due taken)
  then show ?case using failed_taken [OF begins.hyps] by (auto simp: hooksAccounted_def)
next
  case (finishes due st hook completed rest)
  obtain others where others: "hs_working st = add_mset due others" using finishes.hyps(1) by (metis multi_member_split)
  then show ?case using finishes run_hooks_split [OF finishes.hyps(2)] by (auto simp: hooksAccounted_def failed_put_back)
qed

text \<open>C27: No lifecycle hook is lost or run twice to completion. However the hook phases of concurrent calls interleave and whichever hooks
  fail, each inserted checkpoint is exactly once among those whose hook completed, those a call at work still holds, and those
  kept for the next call.\<close>

theorem no_lifecycle_hook_lost:
  assumes "(hookStep l)\<^sup>*\<^sup>* idleHooks st"
  shows "hs_inserted st = hs_completed st + (\<Sum>due \<in># hs_working st. mset due) + mset (failedFor l (hs_failed st))"
proof -
  from assms have "hooksAccounted l st"
  proof induction
    case base
    then show ?case by (simp add: hooksAccounted_def idleHooks_def failedFor_def)
  qed (rule step_accounted)
  then show ?thesis by (simp add: hooksAccounted_def)
qed

subsection \<open>Examples\<close>

definition keySigner :: signerRef where
  "keySigner = \<lparr>sr_did = ''did:key:r'', sr_kid = ''did:key:r#k'', sr_alg = ''EdDSA''\<rparr>"

definition demoBuilder :: "(memJournal, memCheckpoints) checkpointBuilder" where
  "demoBuilder = memBuilder checksum (\<lambda>_. checksum []) keySigner (\<lambda>_. ''sig'')"

definition leafInputs :: "appendInput list" where
  "leafInputs = (let e0 = leafEntry CHR ''1'' 0; e1 = (demoEntry ''2'' 1 (Some (leafText CHR ''1'')))\<lparr>se_entryDigest := leafText CHR ''2''\<rparr>
     in [\<lparr>ai_ledger = demoLedger, ai_expectedHead = None, ai_entry = e0, ai_idempotencyKey = ''k0''\<rparr>,
         \<lparr>ai_ledger = demoLedger, ai_expectedHead = Some (headFor demoLedger e0), ai_entry = e1, ai_idempotencyKey = ''k1''\<rparr>])"

definition journalAt :: "nat \<Rightarrow> memJournal" where
  "journalAt n = snd (runAppends (take n leafInputs) emptyJournal)"

definition storeAt :: "nat \<Rightarrow> memCheckpoints" where
  "storeAt n = (if n = 0 then emptyCheckpoints
     else if n = 1 then snd (storeCheckpoint demoBuilder demoLedger 5 (journalAt 1) (journalAt 1) emptyCheckpoints emptyCheckpoints)
     else let s = snd (storeCheckpoint demoBuilder demoLedger 5 (journalAt 1) (journalAt 1) emptyCheckpoints emptyCheckpoints)
       in snd (storeCheckpoint demoBuilder demoLedger 6 (journalAt 2) (journalAt 2) s s))"

lemma leaf_inputs: "list_all goodInput leafInputs" "list_all (\<lambda>i. isDigest (se_entryDigest (ai_entry i))) leafInputs"
  by code_simp+

lemma journal_steps: "journalAt 0 = emptyJournal" "snd (memCompareAndAppend (leafInputs ! 0) (journalAt 0)) = journalAt 1"
  "snd (memCompareAndAppend (leafInputs ! 1) (journalAt 1)) = journalAt 2"
  by (simp_all add: journalAt_def leafInputs_def Let_def case_prod_beta take_Cons')

lemma demo_run:
  "auditRun demoBuilder demoLedger [(journalAt 1, storeAt 1), (journalAt 1, storeAt 0), (journalAt 0, storeAt 0)]"
  "auditRun demoBuilder demoLedger [(journalAt 2, storeAt 1), (journalAt 1, storeAt 1), (journalAt 1, storeAt 0), (journalAt 0, storeAt 0)]"
  "auditRun demoBuilder demoLedger [(journalAt 2, storeAt 2), (journalAt 2, storeAt 1), (journalAt 1, storeAt 1), (journalAt 1, storeAt 0), (journalAt 0, storeAt 0)]"
  "auditRun demoBuilder demoLedger [(journalAt 1, storeAt 0), (journalAt 0, storeAt 0)]"
proof -
  let ?w0 = "[(journalAt 0, storeAt 0)]" let ?w1 = "(journalAt 1, storeAt 0) # ?w0" let ?w2 = "(journalAt 1, storeAt 1) # ?w1"
  let ?w3 = "(journalAt 2, storeAt 1) # ?w2"
  have good: "goodInput (leafInputs ! 0)" "goodInput (leafInputs ! 1)" "isDigest (se_entryDigest (ai_entry (leafInputs ! 0)))"
    "isDigest (se_entryDigest (ai_entry (leafInputs ! 1)))"
    using leaf_inputs by (simp_all add: leafInputs_def Let_def)
  have "auditRun demoBuilder demoLedger ?w0" using auditRun.started by (simp only: journal_steps(1) storeAt_def refl if_True)
  from appended [OF this good(1,3)] show w1: "auditRun demoBuilder demoLedger ?w1" by (simp only: journal_steps(2))
  from checkpointed [OF this, of 0 0 0 5] show w2: "auditRun demoBuilder demoLedger ?w2" by (simp add: storeAt_def)
  from appended [OF this good(2,4)] show w3: "auditRun demoBuilder demoLedger ?w3" by (simp only: journal_steps(3))
  from checkpointed [OF this, of 0 0 0 6] show "auditRun demoBuilder demoLedger ((journalAt 2, storeAt 2) # ?w3)" by (simp add: storeAt_def Let_def)
qed

lemma demo_lengths: "length (memSnapshot demoLedger (journalAt 2)) = 2" "length (memSnapshot demoLedger (journalAt 1)) = 1"
  by code_simp+

lemma demo_names: "NUL \<notin> set (lr_ledgerId demoLedger)" "lr_ledgerId demoLedger \<noteq> []" "lr_ledgerEpochId demoLedger \<noteq> []"
    "signerRefSchema keySigner" "length (lr_ledgerId demoLedger) \<le> 256" "length (lr_ledgerEpochId demoLedger) \<le> 256"
  by (simp_all add: demoLedger_def NUL_def signerRefSchema_def keySigner_def didSchema_def)

lemma demo_ids_fit: "length (checkpointIdOf demoLedger 1) \<le> 512" "length (checkpointIdOf demoLedger 2) \<le> 512"
  by code_simp+

lemma demo_names_fit: "namesFit demoLedger 1" "namesFit demoLedger 2"
  using demo_names demo_ids_fit by (simp_all add: namesFit_def)

lemma demo_stored:
  obtains c d where "memGetByTreeSize demoLedger 1 (storeAt 2) = Some c" and "memGetByTreeSize demoLedger 2 (storeAt 2) = Some d"
proof -
  note names = demo_names
  have sizes: "n \<le> 2 \<Longrightarrow> n \<le> MAX_SAFE_INTEGER" for n by (simp add: MAX_SAFE_INTEGER_def)
  note creates = run_creates [where sha = checksum and dg = "\<lambda>_. checksum []" and signer = keySigner and sign = "\<lambda>_. ''sig''", folded demoBuilder_def,
    OF _ names(1) _ _ _ checksum_is_digest checksum_is_digest _ names(4)]
  have "\<exists>c isNew t. storeCheckpoint demoBuilder demoLedger 5 (journalAt 1) (journalAt 1) (storeAt 0) (storeAt 0) = (Inr (c, isNew), t) \<and>
      memGetByTreeSize demoLedger (length (memSnapshot demoLedger (journalAt 1))) t = Some c"
    by (rule creates [OF demo_run(4)]) (use demo_lengths demo_names_fit sizes [of 1] in auto)
  then obtain c where "memGetByTreeSize demoLedger 1 (storeAt 1) = Some c" by (auto simp: storeAt_def demo_lengths simp del: One_nat_def)
  then have "c \<in> memStored demoLedger (storeAt 1) \<and> treeSizeOf c = 1"
    using run_world(4) [OF demo_run(1) [unfolded demoBuilder_def] names(1)] by simp
  moreover have "laterWorld demoLedger (journalAt 2, storeAt 2) (journalAt 1, storeAt 1)"
    using run_good [OF demo_run(3) [unfolded demoBuilder_def] names(1)] by simp
  ultimately have c: "memGetByTreeSize demoLedger 1 (storeAt 2) = Some c" by (auto simp: laterWorld_def memStored_def)
  have "\<exists>d isNew t. storeCheckpoint demoBuilder demoLedger 6 (journalAt 2) (journalAt 2) (storeAt 1) (storeAt 1) = (Inr (d, isNew), t) \<and>
      memGetByTreeSize demoLedger (length (memSnapshot demoLedger (journalAt 2))) t = Some d"
    by (rule creates [OF demo_run(2)]) (use demo_lengths demo_names_fit sizes [of 2] in auto)
  then obtain d where "memGetByTreeSize demoLedger 2 (storeAt 2) = Some d" by (auto simp: storeAt_def demo_lengths Let_def simp del: One_nat_def)
  with c show thesis by (rule that)
qed

lemma concurrent_checkpoints_are_consistent_witness:
  "\<exists>c d p. memGetByTreeSize demoLedger 1 (storeAt 2) = Some c \<and> memGetByTreeSize demoLedger 2 (storeAt 2) = Some d \<and>
    builderConsistencyProof demoBuilder demoLedger (decimalText 1) d (journalAt 2) = Inr p \<and>
    builderVerifyConsistency demoBuilder (decimalText 1) (ck_rootDigest (sk_core c)) d p = Inr True"
proof -
  obtain c d where cd: "memGetByTreeSize demoLedger 1 (storeAt 2) = Some c" "memGetByTreeSize demoLedger 2 (storeAt 2) = Some d" by (rule demo_stored)
  have "length (memSnapshot demoLedger (journalAt 2)) \<le> MAX_SAFE_INTEGER" by (simp add: demo_lengths MAX_SAFE_INTEGER_def)
  from concurrent_checkpoints_are_consistent [where sha = checksum and dg = "\<lambda>_. checksum []" and signer = keySigner and sign = "\<lambda>_. ''sig''",
      folded demoBuilder_def, OF demo_run(3) demo_names(1) checksum_is_digest cd _ this]
  show ?thesis using cd by simp
qed

lemma checkpoint_always_created_witness:
  "\<exists>c isNew t. storeCheckpoint demoBuilder demoLedger 6 (journalAt 1) (journalAt 2) (storeAt 1) (storeAt 1) = (Inr (c, isNew), t) \<and>
    memGetByTreeSize demoLedger 1 t = Some c"
proof -
  have "length (memSnapshot demoLedger (journalAt 1)) \<le> MAX_SAFE_INTEGER" "memSnapshot demoLedger (journalAt 1) \<noteq> []"
    using demo_lengths by (auto simp: MAX_SAFE_INTEGER_def)
  then show ?thesis
    using checkpoint_always_created [where sha = checksum and dg = "\<lambda>_. checksum []" and signer = keySigner and sign = "\<lambda>_. ''sig''",
      folded demoBuilder_def, OF demo_run(2) demo_names(1) _ _ _ checksum_is_digest checksum_is_digest _ demo_names(4), of "journalAt 1" 6]
    demo_names demo_ids_fit(1) unfolding demo_lengths by simp
qed

definition keyVerifier :: artifactVerifier where
  "keyVerifier = demoVerifier\<lparr>av_digestCheckpoint := \<lambda>_. checksum []\<rparr>"

definition keyTrustingPolicy :: verificationPolicy where
  "keyTrustingPolicy = demoPolicy\<lparr>pol_trustedLedgerEpochs := [\<lparr>cb_validFromCheckpoint = None, cb_validUntilCheckpoint = None,
     tp_ledgerId = ''L'', tp_ledgerEpochId = ''1'', tp_recorderKeys = [\<lparr>cb_validFromCheckpoint = None, cb_validUntilCheckpoint = None,
       kp_signer = keySigner, kp_validFrom = None, kp_validUntil = None\<rparr>]\<rparr>]\<rparr>"

lemma stored_checkpoint_verifies_witness:
  "\<exists>c. memGetByTreeSize demoLedger 2 (storeAt 2) = Some c \<and>
    verifyCheckpoint keyVerifier (Some c) (take 2 (memSnapshot demoLedger (journalAt 2))) (GoodPolicy keyTrustingPolicy) [] = Some (dimension ValidVerdict [])"
proof -
  obtain d where d: "memGetByTreeSize demoLedger 2 (storeAt 2) = Some d" by (rule demo_stored)
  have b: "demoBuilder = memBuilder (av_sha keyVerifier) (av_digestCheckpoint keyVerifier) keySigner (\<lambda>_. ''sig'')"
    by (simp add: demoBuilder_def keyVerifier_def demoVerifier_def)
  have "verifyCheckpoint keyVerifier (Some d) (take 2 (memSnapshot demoLedger (journalAt 2))) (GoodPolicy keyTrustingPolicy) [] = Some (dimension ValidVerdict [])"
    by (rule stored_checkpoint_verifies [OF demo_run(3) [unfolded b] demo_names(1) d])
      (simp_all add: MAX_SAFE_INTEGER_def keyVerifier_def demoVerifier_def keyTrustingPolicy_def demoPolicy_def trustedKey_def epochPolicyOf_def
        positionWithin_def resolveBound_def keyIsValidAt_def sameSigner_def keySigner_def demoLedger_def)
  with d show ?thesis by blast
qed

text \<open>A hook that fails keeps its checkpoint for the next call.\<close>

definition exampleCheckpoint :: signedCheckpoint where
  "exampleCheckpoint = demoCheckpoint"

lemma no_lifecycle_hook_lost_witness:
  "\<exists>st. (hookStep demoLedger)\<^sup>*\<^sup>* idleHooks st \<and> failedFor demoLedger (hs_failed st) = [exampleCheckpoint] \<and>
    hs_inserted st = hs_completed st + (\<Sum>due \<in># hs_working st. mset due) + mset (failedFor demoLedger (hs_failed st))"
proof -
  let ?c = exampleCheckpoint
  let ?a = "idleHooks\<lparr>hs_inserted := (if True then {#?c#} else {#}) + hs_inserted idleHooks, hs_working := add_mset [?c] (hs_working idleHooks), hs_failed := []\<rparr>"
  let ?z = "?a\<lparr>hs_completed := hs_completed ?a + mset [], hs_working := hs_working ?a - {#[?c]#}, hs_failed := putBack demoLedger [?c] (hs_failed ?a)\<rparr>"
  have "hookStep demoLedger idleHooks ?a"
    by (rule hookStep.begins) (simp add: takeDue_def failedFor_def idleHooks_def)
  moreover have "hookStep demoLedger ?a ?z"
    by (rule hookStep.finishes [where hook = "\<lambda>_. False"]) simp_all
  ultimately have run: "(hookStep demoLedger)\<^sup>*\<^sup>* idleHooks ?z" by simp
  have "failedFor demoLedger (hs_failed ?z) = [?c]" by (simp add: putBack_def failedFor_def)
  with run no_lifecycle_hook_lost [OF run] show ?thesis by blast
qed

text \<open>C26: Every entry a stored checkpoint covers can be proved to be in it. In every state reached by writers and builders, the builder
  returns an inclusion proof for each sequence below the size of a stored checkpoint, and verification accepts it for the digest of
  the entry with that sequence.\<close>

theorem covered_entry_is_provable:
  assumes "auditRun (memBuilder sha dg signer sign) l ((j, s) # past)" and "NUL \<notin> set (lr_ledgerId l)" and "\<And>x. isDigest (sha x)"
    and "memGetByTreeSize l n s = Some c" and "k < n" and "length (memSnapshot l j) \<le> MAX_SAFE_INTEGER"
  shows "\<exists>p. builderInclusionProof (memBuilder sha dg signer sign) l (decimalText k) c j = Inr p \<and>
    builderVerifyInclusion (memBuilder sha dg signer sign) (se_entryDigest (memSnapshot l j ! k)) c p = Inr True"
proof -
  let ?b = "memBuilder sha dg signer sign" and ?es = "memSnapshot l j"
  note w = run_world [OF assms(1,2)]
  have c: "treeSizeOf c = n" "covers ?b l ?es c" using w(4) [OF assms(4)] by simp_all
  note read = covered_entries [OF w(2,3) c(2) assms(6)]
  define leaves where "leaves = map se_entryDigest (take n ?es)"
  have n: "length leaves = n" "n \<le> MAX_SAFE_INTEGER" "k < length leaves" "n \<le> length ?es"
    using c assms(5,6) by (auto simp: covers_def leaves_def)
  have digests: "list_all isDigest leaves"
    using w(1) by (auto simp: goodWorld_def leaves_def list_all_iff dest: in_set_takeD)
  have sha: "cb_sha ?b = sha" by (simp add: memBuilder_def)
  from n have "length leaves \<le> MAX_SAFE_INTEGER" by simp
  from inclusion_proof_complete [of sha, OF assms(3) digests n(3) this] obtain p r
    where p: "inclusionProof sha leaves (JsInteger (int k)) = Some p" "merkleRoot sha leaves = Some r"
      "verifyInclusion sha \<lparr>iv_leaf = leaves ! k, iv_leafIndex = JsInteger (int k), iv_treeSize = JsInteger (int n), iv_root = r, iv_auditPath = p\<rparr>"
    using n(1) by auto
  have root: "r = ck_rootDigest (sk_core c)" "leaves ! k = se_entryDigest (?es ! k)"
    using p(2) c n assms(5) by (simp_all add: covers_def sha leaves_def)
  have "List.find (\<lambda>i. decimalText (ec_sequence (se_core (take n ?es ! i))) = decimalText k) [0..<length (take n ?es)] = Some k"
    unfolding find_Some_iff
    using w(3) n assms(5) by (intro exI [of _ k]) (auto simp: contiguous_def)
  moreover have "k \<le> MAX_SAFE_INTEGER" using n by simp
  ultimately show ?thesis using p(1,3) read c(1) n root
    by (simp add: builderInclusionProof_def builderVerifyInclusion_def safeDecimal_text orThrow_def sha leaves_def)
qed

lemma covered_entry_is_provable_witness:
  "\<exists>c p. memGetByTreeSize demoLedger 2 (storeAt 2) = Some c \<and> builderInclusionProof demoBuilder demoLedger (decimalText 1) c (journalAt 2) = Inr p \<and>
    builderVerifyInclusion demoBuilder (se_entryDigest (memSnapshot demoLedger (journalAt 2) ! 1)) c p = Inr True"
proof -
  obtain c where c: "memGetByTreeSize demoLedger 2 (storeAt 2) = Some c" by (rule demo_stored)
  have "length (memSnapshot demoLedger (journalAt 2)) \<le> MAX_SAFE_INTEGER" by (simp add: demo_lengths MAX_SAFE_INTEGER_def)
  from covered_entry_is_provable [where sha = checksum and dg = "\<lambda>_. checksum []" and signer = keySigner and sign = "\<lambda>_. ''sig''",
      folded demoBuilder_def, OF demo_run(3) demo_names(1) checksum_is_digest c _ this, of 1]
  show ?thesis using c by simp
qed

end
