(* ===== verification/Audit_Publication.thy ===== *)
theory Audit_Publication
  imports Checkpoint_Builder
begin

text \<open>
  \<open>src/audit/providers/observer.ts\<close>, \<open>src/audit/providers/anchor.ts\<close> and \<open>src/audit/checkpoint-coordinator.ts\<close>: independent
  observers that countersign the checkpoints of a ledger, supporting anchors, and the coordinator that publishes a new checkpoint to
  all of them. The publications of one ledger are serialized by the observer, so one of them is a step on its map.
\<close>

subsection \<open>The observer\<close>

record observer =
  ob_observerId :: string
  ob_signer :: signerRef
  ob_digestObservation :: "observationCore \<Rightarrow> digest"
  ob_sign :: "observationCore \<Rightarrow> string"
  ob_verifyCheckpoint :: "signedCheckpoint \<Rightarrow> bool"
  ob_verifyConsistency :: "signedCheckpoint \<Rightarrow> signedCheckpoint \<Rightarrow> bool"

type_synonym observed = "signedCheckpoint \<times> observationReceipt"

type_synonym observations = "(string, observed) jsmap"

text \<open>What the last observation says of a new checkpoint: an error, that receipt again, or \<open>None\<close> for a new one.\<close>

definition againstLast :: "observer \<Rightarrow> observed option \<Rightarrow> signedCheckpoint \<Rightarrow> checkpointError + observationReceipt option" where
  "againstLast ob existing checkpoint = (case existing of
       None \<Rightarrow> Inr None
     | Some (previous, receipt) \<Rightarrow>
         (if treeSizeOf checkpoint < treeSizeOf previous then Inl CheckpointRollback
          else if treeSizeOf checkpoint = treeSizeOf previous
            then (if ck_rootDigest (sk_core checkpoint) \<noteq> ck_rootDigest (sk_core previous) \<or> sk_checkpointDigest checkpoint \<noteq> sk_checkpointDigest previous
                  then Inl (CheckpointConflict ''Conflicting checkpoint roots were observed at the same tree size'') else Inr (Some receipt))
          else if \<not> ob_verifyConsistency ob previous checkpoint
            then Inl (CheckpointConflict ''Checkpoint does not consistently extend the previously observed tree'') else Inr None))"

definition signObservation :: "observer \<Rightarrow> int \<Rightarrow> observed option \<Rightarrow> signedCheckpoint \<Rightarrow> observationReceipt" where
  "signObservation ob now existing checkpoint =
     (let core = \<lparr>oc_observerId = ob_observerId ob, oc_observer = ob_signer ob, oc_ledgerId = ck_ledgerId (sk_core checkpoint),
            oc_ledgerEpochId = ck_ledgerEpochId (sk_core checkpoint), oc_checkpointDigest = sk_checkpointDigest checkpoint,
            oc_treeSize = treeSizeOf checkpoint, oc_observedAt = now,
            oc_previousObservationDigest = map_option (\<lambda>(_, receipt). or_observationDigest receipt) existing\<rparr>
      in \<lparr>or_core = core, or_observationDigest = ob_digestObservation ob core, or_jws = ob_sign ob core\<rparr>)"

definition publishSerialized :: "observer \<Rightarrow> int \<Rightarrow> signedCheckpoint \<Rightarrow> observations \<Rightarrow> (checkpointError + observationReceipt) \<times> observations" where
  "publishSerialized ob now checkpoint s =
     (let key = ledgerKey (coreLedger (sk_core checkpoint)); existing = jm_get s key
      in if \<not> ob_verifyCheckpoint ob checkpoint then (Inl (CheckpointInvalid ''Observer rejected an invalid checkpoint''), s)
         else (case againstLast ob existing checkpoint of
             Inl e \<Rightarrow> (Inl e, s)
           | Inr (Some receipt) \<Rightarrow> (Inr receipt, s)
           | Inr None \<Rightarrow> (let receipt = signObservation ob now existing checkpoint in (Inr receipt, jm_set key (checkpoint, receipt) s))))"

definition latestObserved :: "ledgerRef \<Rightarrow> observations \<Rightarrow> observed option" where
  "latestObserved l s = jm_get s (ledgerKey l)"

definition isLatestObservation :: "signedCheckpoint \<Rightarrow> observationReceipt \<Rightarrow> observations \<Rightarrow> bool" where
  "isLatestObservation checkpoint receipt s = (case latestObserved (coreLedger (sk_core checkpoint)) s of
       None \<Rightarrow> False
     | Some (c, r) \<Rightarrow> sk_checkpointDigest c = sk_checkpointDigest checkpoint \<and> or_observationDigest r = or_observationDigest receipt)"

subsection \<open>The anchor\<close>

record anchorReceipt =
  ar_kind :: string
  ar_providerId :: string
  ar_checkpointDigest :: digest
  ar_issuedAt :: int

definition publishAnchor :: "string \<Rightarrow> string \<Rightarrow> int \<Rightarrow> signedCheckpoint \<Rightarrow> anchorReceipt" where
  "publishAnchor kind providerId now checkpoint =
     \<lparr>ar_kind = kind, ar_providerId = providerId, ar_checkpointDigest = sk_checkpointDigest checkpoint, ar_issuedAt = now\<rparr>"

definition verifyAnchor :: "string \<Rightarrow> string \<Rightarrow> signedCheckpoint \<Rightarrow> anchorReceipt \<Rightarrow> bool" where
  "verifyAnchor kind providerId checkpoint receipt \<longleftrightarrow>
     ar_kind receipt = kind \<and> ar_providerId receipt = providerId \<and> ar_checkpointDigest receipt = sk_checkpointDigest checkpoint"

subsection \<open>The coordinator\<close>

text \<open>
  A provider is the function from the number of an attempt to what that attempt does. A failure names the attempts made and whether
  the backoff broke off the retries.
\<close>

datatype 'a publication = Published 'a | Unpublished nat bool

function publishWithRetry :: "nat \<Rightarrow> (nat \<Rightarrow> 'a option) \<Rightarrow> (nat \<Rightarrow> bool) \<Rightarrow> nat \<Rightarrow> 'a publication" where
  "publishWithRetry maxAttempts publish backoff attempt =
     (if maxAttempts < attempt then Unpublished maxAttempts False
      else (case publish attempt of
          Some value \<Rightarrow> Published value
        | None \<Rightarrow> if attempt < maxAttempts \<and> \<not> backoff attempt then Unpublished attempt True
            else publishWithRetry maxAttempts publish backoff (attempt + 1)))"
  by pat_completeness auto

termination
  by (relation "measure (\<lambda>(maxAttempts, _, _, attempt). Suc maxAttempts - attempt)") auto

declare publishWithRetry.simps [simp del]

datatype providerRole = AnchorRole | ObserverRole

record publicationFailure =
  pf_role :: providerRole
  pf_providerIndex :: nat
  pf_kind :: "string option"
  pf_attempts :: nat

record publicationResult =
  pr_checkpoint :: signedCheckpoint
  pr_observations :: "observationReceipt list"
  pr_anchors :: "anchorReceipt list"
  pr_failures :: "publicationFailure list"

record publicationRequirements =
  rq_minimumObservers :: int
  rq_requiredAnchorKinds :: "string list"

text \<open>A provider's kind is \<open>None\<close> for an observer. \<open>collate\<close> stands for the order of \<open>localeCompare\<close>, as a key.\<close>

record coordinator =
  co_observers :: "(signedCheckpoint \<Rightarrow> nat \<Rightarrow> observationReceipt option) list"
  co_anchors :: "(string \<times> (signedCheckpoint \<Rightarrow> nat \<Rightarrow> anchorReceipt option)) list"
  co_requirements :: "publicationRequirements option"
  co_maxAttempts :: nat
  co_backoff :: "providerRole \<Rightarrow> nat \<Rightarrow> nat \<Rightarrow> bool"
  co_collate :: "string \<Rightarrow> nat list"

datatype coordinatorError = InvalidCoordinator string | CreationFailed checkpointError | PublicationFailed nat "string list" | PublishedHookThrew

text \<open>The constructor: \<open>None\<close> when it throws nothing.\<close>

definition coordinatorRejected :: "js_number option \<Rightarrow> js_number option \<Rightarrow> coordinatorError option" where
  "coordinatorRejected maxPublishAttempts minimumObservers =
     (let safe = (\<lambda>low n. case n of JsInteger i \<Rightarrow> low \<le> i \<and> i \<le> int MAX_SAFE_INTEGER | JsNonInteger \<Rightarrow> False)
      in if (case maxPublishAttempts of None \<Rightarrow> False | Some n \<Rightarrow> \<not> safe 1 n)
         then Some (InvalidCoordinator ''Checkpoint publication attempts must be a positive safe integer'')
         else if (case minimumObservers of None \<Rightarrow> False | Some n \<Rightarrow> \<not> safe 0 n)
         then Some (InvalidCoordinator ''Minimum checkpoint observers must be a non-negative safe integer'') else None)"

fun publishedValues :: "'a publication list \<Rightarrow> 'a list" where
  "publishedValues [] = []"
| "publishedValues (Published v # outcomes) = v # publishedValues outcomes"
| "publishedValues (Unpublished _ _ # outcomes) = publishedValues outcomes"

definition failuresOf :: "providerRole \<Rightarrow> (nat \<Rightarrow> string option) \<Rightarrow> (nat \<times> 'a publication) list \<Rightarrow> publicationFailure list" where
  "failuresOf role kindOf outcomes = concat (map (\<lambda>(i, outcome). case outcome of
       Published _ \<Rightarrow> []
     | Unpublished attempts _ \<Rightarrow> [\<lparr>pf_role = role, pf_providerIndex = i, pf_kind = kindOf i, pf_attempts = attempts\<rparr>]) outcomes)"

definition roleRank :: "providerRole \<Rightarrow> nat" where
  "roleRank r = (case r of AnchorRole \<Rightarrow> 0 | ObserverRole \<Rightarrow> 1)"

definition missingKinds :: "publicationRequirements \<Rightarrow> anchorReceipt list \<Rightarrow> string list" where
  "missingKinds rq anchors = filter (\<lambda>kind. \<not> list_ex (\<lambda>r. ar_kind r = kind) anchors) (js_set (rq_requiredAnchorKinds rq))"

definition assertRequirements :: "coordinator \<Rightarrow> publicationResult \<Rightarrow> coordinatorError option" where
  "assertRequirements co result = (case co_requirements co of
       None \<Rightarrow> None
     | Some rq \<Rightarrow>
         (let missing = missingKinds rq (pr_anchors result)
          in if int (length (pr_observations result)) < rq_minimumObservers rq \<or> missing \<noteq> []
             then Some (PublicationFailed (length (pr_observations result)) missing) else None))"

text \<open>\<open>finishing\<close> lists the observers and the anchors in the order in which their publications end.\<close>

definition publishAll :: "coordinator \<Rightarrow> nat list \<Rightarrow> nat list \<Rightarrow> signedCheckpoint \<Rightarrow> publicationResult" where
  "publishAll co finishingObservers finishingAnchors checkpoint =
     (let observed = map (\<lambda>i. (i, publishWithRetry (co_maxAttempts co) ((co_observers co ! i) checkpoint) (co_backoff co ObserverRole i) 1)) finishingObservers;
          anchored = map (\<lambda>i. (i, publishWithRetry (co_maxAttempts co) (snd (co_anchors co ! i) checkpoint) (co_backoff co AnchorRole i) 1)) finishingAnchors
      in \<lparr>pr_checkpoint = checkpoint,
          pr_observations = sort_key (\<lambda>r. co_collate co (oc_observerId (or_core r))) (publishedValues (map snd observed)),
          pr_anchors = sort_key (\<lambda>r. (co_collate co (ar_kind r))) (sort_key (\<lambda>r. co_collate co (ar_providerId r)) (publishedValues (map snd anchored))),
          pr_failures = sort_key (\<lambda>f. roleRank (pf_role f)) (sort_key pf_providerIndex
            (failuresOf ObserverRole (\<lambda>_. None) observed @ failuresOf AnchorRole (\<lambda>i. Some (fst (co_anchors co ! i))) anchored))\<rparr>)"

definition createAndPublish ::
  "coordinator \<Rightarrow> nat list \<Rightarrow> nat list \<Rightarrow> (publicationResult \<Rightarrow> bool) option \<Rightarrow> checkpointError + signedCheckpoint \<Rightarrow> coordinatorError + publicationResult" where
  "createAndPublish co finishingObservers finishingAnchors onPublished created = (case created of
       Inl e \<Rightarrow> Inl (CreationFailed e)
     | Inr checkpoint \<Rightarrow>
         (let result = publishAll co finishingObservers finishingAnchors checkpoint
          in case assertRequirements co result of
               Some e \<Rightarrow> Inl e
             | None \<Rightarrow> if (case onPublished of None \<Rightarrow> True | Some hook \<Rightarrow> hook result) then Inr result else Inl PublishedHookThrew))"

subsection \<open>What an observer has signed\<close>

text \<open>A run of publications: the checkpoints it answered with a receipt, in order.\<close>

fun observeAll :: "observer \<Rightarrow> (int \<times> signedCheckpoint) list \<Rightarrow> observations \<Rightarrow> observed list \<times> observations" where
  "observeAll ob [] s = ([], s)"
| "observeAll ob ((now, c) # rest) s = (case publishSerialized ob now c s of
     (Inl _, s') \<Rightarrow> observeAll ob rest s'
   | (Inr r, s') \<Rightarrow> (case observeAll ob rest s' of (accepted, s'') \<Rightarrow> ((c, r) # accepted, s'')))"

definition sameTree :: "signedCheckpoint \<Rightarrow> signedCheckpoint \<Rightarrow> bool" where
  "sameTree p c \<longleftrightarrow> treeSizeOf p = treeSizeOf c \<and> ck_rootDigest (sk_core p) = ck_rootDigest (sk_core c)"

definition consistencyInput :: "signedCheckpoint \<Rightarrow> signedCheckpoint \<Rightarrow> string list \<Rightarrow> consistencyVerification" where
  "consistencyInput p c path = \<lparr>cv_oldSize = JsInteger (int (treeSizeOf p)), cv_newSize = JsInteger (int (treeSizeOf c)),
     cv_oldRoot = ck_rootDigest (sk_core p), cv_newRoot = ck_rootDigest (sk_core c), cv_auditPath = path\<rparr>"

text \<open>A consistency proof whose hashes lie in \<open>S\<close>.\<close>

definition provedConsistent :: "(bytes \<Rightarrow> string) \<Rightarrow> bytes set \<Rightarrow> signedCheckpoint \<Rightarrow> signedCheckpoint \<Rightarrow> bool" where
  "provedConsistent sha S p c \<longleftrightarrow> (\<exists>path. verifyConsistency sha (consistencyInput p c path) \<and>
     set (verifiedInputs sha (treeSizeOf p) (treeSizeOf c) (ck_rootDigest (sk_core p)) path) \<subseteq> S)"

definition extendsTree :: "(bytes \<Rightarrow> string) \<Rightarrow> bytes set \<Rightarrow> signedCheckpoint \<Rightarrow> signedCheckpoint \<Rightarrow> bool" where
  "extendsTree sha S p c \<longleftrightarrow> sameTree p c \<or> treeSizeOf p < treeSizeOf c \<and> provedConsistent sha S p c"

lemma extends_same: "sameTree p c \<Longrightarrow> extendsTree sha S p d \<Longrightarrow> extendsTree sha S c d"
  by (simp add: extendsTree_def sameTree_def provedConsistent_def consistencyInput_def)

lemma publish_cases:
  assumes "publishSerialized ob now c s = (Inr r, s')"
  obtains (again) p where "jm_get s (ledgerKey (coreLedger (sk_core c))) = Some (p, r)" "sameTree p c" "s' = s"
  | (fresh) "s' = jm_set (ledgerKey (coreLedger (sk_core c))) (c, r) s"
      "\<And>p q. jm_get s (ledgerKey (coreLedger (sk_core c))) = Some (p, q) \<Longrightarrow> treeSizeOf p < treeSizeOf c \<and> ob_verifyConsistency ob p c"
  using assms by (auto simp: publishSerialized_def againstLast_def sameTree_def Let_def split: if_splits option.splits)

lemma publish_refused: "publishSerialized ob now c s = (Inl e, s') \<Longrightarrow> s' = s"
  by (auto simp: publishSerialized_def Let_def split: if_splits option.splits sum.splits)

lemma observed_chain:
  assumes "\<And>p c. ob_verifyConsistency ob p c \<Longrightarrow> provedConsistent sha S p c" and "NUL \<notin> set (lr_ledgerId l)"
  shows "list_all (\<lambda>(_, c). NUL \<notin> set (ck_ledgerId (sk_core c))) inputs \<Longrightarrow> observeAll ob inputs s = (accepted, t) \<Longrightarrow>
    successively (extendsTree sha S) ((case jm_get s (ledgerKey l) of None \<Rightarrow> [] | Some (p, _) \<Rightarrow> [p]) @
      map fst (filter (\<lambda>(c, _). coreLedger (sk_core c) = l) accepted))"
proof (induction inputs arbitrary: s accepted)
  case Nil
  then show ?case by (auto split: option.split)
next
  case (Cons input rest)
  obtain now c where input: "input = (now, c)" by fastforce
  have key: "ledgerKey (coreLedger (sk_core c)) = ledgerKey l \<longleftrightarrow> coreLedger (sk_core c) = l"
    by (rule ledgerKey_inject) (use Cons.prems(1) assms(2) input in \<open>simp_all add: coreLedger_def\<close>)
  show ?case
  proof (cases "publishSerialized ob now c s")
    case (Pair r s')
    show ?thesis
    proof (cases r)
      case (Inl e)
      then have "s' = s" using Pair publish_refused by blast
      then show ?thesis using Cons.IH [of s] Cons.prems Pair Inl input by simp
    next
      case (Inr receipt)
      obtain later where later: "observeAll ob rest s' = (later, t)" "accepted = (c, receipt) # later"
        using Cons.prems(2) Pair Inr input by (auto split: prod.splits)
      let ?mine = "\<lambda>xs. map fst (filter (\<lambda>(c, _). coreLedger (sk_core c) = l) xs)"
      let ?held = "\<lambda>s. case jm_get s (ledgerKey l) of None \<Rightarrow> [] | Some (p, _) \<Rightarrow> [p]"
      have IH: "successively (extendsTree sha S) (?held s' @ ?mine later)"
        using Cons.IH [OF _ later(1)] Cons.prems(1) by simp
      from Pair Inr have ok: "publishSerialized ob now c s = (Inr receipt, s')" by simp
      show ?thesis
      proof (cases "coreLedger (sk_core c) = l")
        case False
        have "jm_get s' (ledgerKey l) = jm_get s (ledgerKey l)" using ok False key by (cases rule: publish_cases) auto
        then show ?thesis using IH later(2) False by simp
      next
        case True
        from ok show ?thesis
        proof (cases rule: publish_cases)
          case (again p)
          then have held: "jm_get s (ledgerKey l) = Some (p, receipt)" using True by simp
          have "extendsTree sha S p c" using again(2) by (simp add: extendsTree_def)
          then show ?thesis using IH again(2,3) held later(2) True extends_same [OF again(2)] by (auto simp: successively_Cons)
        next
          case fresh
          then have "successively (extendsTree sha S) (c # ?mine later)" using IH True by simp
          moreover have "extendsTree sha S p c" if "jm_get s (ledgerKey l) = Some (p, q)" for p q
            using fresh(2) that True assms(1) by (simp add: extendsTree_def)
          ultimately show ?thesis using later(2) True by (auto split: option.split)
        qed
      qed
    qed
  qed
qed

lemma trees_extend:
  assumes "inj_on sha S" and "\<And>k. set (treeInputs sha (take k es)) \<subseteq> S"
  shows "successively (extendsTree sha S) cs \<Longrightarrow> cs \<noteq> [] \<Longrightarrow> treeSizeOf (last cs) = length es \<Longrightarrow>
    merkleRoot sha es = Some (ck_rootDigest (sk_core (last cs))) \<Longrightarrow> c \<in> set cs \<Longrightarrow>
    treeSizeOf c \<le> length es \<and> merkleRoot sha (take (treeSizeOf c) es) = Some (ck_rootDigest (sk_core c))"
proof (induction cs arbitrary: c)
  case (Cons p cs)
  show ?case
  proof (cases "cs = [] \<or> c \<in> set cs")
    case True
    have chain: "successively (extendsTree sha S) cs" using Cons.prems(1) by (cases cs) (simp_all add: successively_Cons)
    show ?thesis
    proof (cases "cs = []")
      case True
      then show ?thesis using Cons.prems by simp
    next
      case False
      then show ?thesis using Cons.IH [OF chain False] True Cons.prems(3,4) by simp
    qed
  next
    case False
    then obtain d where d: "d \<in> set cs" "extendsTree sha S p d" "c = p"
      using Cons.prems by (cases cs) (auto simp: successively_Cons)
    have later: "treeSizeOf d \<le> length es \<and> merkleRoot sha (take (treeSizeOf d) es) = Some (ck_rootDigest (sk_core d))"
      using Cons.IH [OF _ _ _ _ d(1)] Cons.prems False by (auto simp: successively_Cons)
    show ?thesis
    proof (cases "sameTree p d")
      case True
      then show ?thesis using later d(3) by (simp add: sameTree_def)
    next
      case False
      then obtain path where path: "verifyConsistency sha (consistencyInput p d path)" "treeSizeOf p < treeSizeOf d"
        "set (verifiedInputs sha (treeSizeOf p) (treeSizeOf d) (ck_rootDigest (sk_core p)) path) \<subseteq> S"
        using d(2) by (auto simp: extendsTree_def provedConsistent_def)
      have len: "length (take (treeSizeOf d) es) = treeSizeOf d" using later by simp
      have "merkleRoot sha (take (treeSizeOf p) (take (treeSizeOf d) es)) = Some (ck_rootDigest (sk_core p))"
        using consistent_prefix_root [of sha "take (treeSizeOf d) es", OF conjunct2 [OF later] _ assms(1,2)] path
        unfolding len consistencyInput_def by blast
      then show ?thesis using path(2) later d(3) by (simp add: min_def)
    qed
  qed
qed simp

text \<open>C28: An observer never countersigns a rewritten history. Whatever checkpoints are published to it, for any ledgers and in any order, every
  checkpoint of a ledger that it ever gave a receipt for is the root of a prefix of the tree of the last one it gave a receipt for, unless
  the hash function collides; the consistency check it is configured with need only accept Merkle consistency proofs.\<close>

theorem observed_trees_are_prefixes:
  assumes "observeAll ob inputs [] = (accepted, s)" and "list_all (\<lambda>(_, c). NUL \<notin> set (ck_ledgerId (sk_core c))) inputs"
    and "NUL \<notin> set (lr_ledgerId l)" and "\<And>p c. ob_verifyConsistency ob p c \<Longrightarrow> provedConsistent sha S p c"
    and "inj_on sha S" and "\<And>k. set (treeInputs sha (take k leaves)) \<subseteq> S"
    and "filter (\<lambda>(c, _). coreLedger (sk_core c) = l) accepted = observations @ [(final, receipt)]"
    and "treeSizeOf final = length leaves" and "merkleRoot sha leaves = Some (ck_rootDigest (sk_core final))"
    and "(c, r) \<in> set observations"
  shows "treeSizeOf c \<le> length leaves \<and> merkleRoot sha (take (treeSizeOf c) leaves) = Some (ck_rootDigest (sk_core c))"
proof -
  have "successively (extendsTree sha S) (map fst (observations @ [(final, receipt)]))"
    using observed_chain [OF assms(4,3,2,1)] assms(7) by simp
  from trees_extend [OF assms(5,6) this] assms(8-10) show ?thesis by force
qed

subsection \<open>Publication\<close>

lemma retry_outcome:
  "(case publishWithRetry n publish backoff k of
      Published v \<Rightarrow> \<exists>i. k \<le> i \<and> i \<le> n \<and> publish i = Some v \<and> (\<forall>j. k \<le> j \<and> j < i \<longrightarrow> publish j = None \<and> backoff j)
    | Unpublished m broken \<Rightarrow> m \<le> n \<and> (\<forall>j. k \<le> j \<and> j \<le> m \<longrightarrow> publish j = None) \<and>
        (if broken then k \<le> m \<and> m < n \<and> \<not> backoff m else m = n))"
proof (induction n publish backoff k rule: publishWithRetry.induct)
  case (1 n publish backoff k)
  show ?case
  proof (cases "n < k")
    case True
    then show ?thesis by (auto simp: publishWithRetry.simps [of n])
  next
    case False
    show ?thesis
    proof (cases "publish k")
      case (Some v)
      then show ?thesis using False by (auto simp: publishWithRetry.simps [of n] intro: exI [of _ k])
    next
      case None
      show ?thesis
      proof (cases "k < n \<and> \<not> backoff k")
        case True
        then show ?thesis using None False by (auto simp: publishWithRetry.simps [of n] intro: le_antisym)
      next
        case go: False
        have step: "publishWithRetry n publish backoff k = publishWithRetry n publish backoff (k + 1)"
          by (subst publishWithRetry.simps) (use False None go in auto)
        have from_k: "k \<le> j \<longleftrightarrow> j = k \<or> k + 1 \<le> j" for j by auto
        have at_end: "backoff k" if "k < i" "i \<le> n" for i using go that by auto
        show ?thesis using "1.IH" [OF False None go] None at_end unfolding step
          by (auto simp: from_k split: publication.splits if_splits) 
      qed
    qed
  qed
qed

text \<open>C29: Retries are bounded and stop at the first success. A provider is published to at most the configured number of times: the result
  is that of the first attempt that succeeds, after failed attempts whose backoffs completed; a failure names the attempts made, all of
  which failed, and they are all that were allowed unless the backoff after the last one of them broke off.\<close>

theorem publication_attempts_bounded:
  "(case publishWithRetry maxAttempts publish backoff 1 of
      Published v \<Rightarrow> \<exists>i. 1 \<le> i \<and> i \<le> maxAttempts \<and> publish i = Some v \<and> (\<forall>j. 1 \<le> j \<and> j < i \<longrightarrow> publish j = None \<and> backoff j)
    | Unpublished made broken \<Rightarrow> made \<le> maxAttempts \<and> (\<forall>j. 1 \<le> j \<and> j \<le> made \<longrightarrow> publish j = None) \<and>
        (if broken then 1 \<le> made \<and> made < maxAttempts \<and> \<not> backoff made else made = maxAttempts))"
  by (rule retry_outcome)

lemma publication_attempts_bounded_witness:
  "publishWithRetry 3 (\<lambda>n. if n = 2 then Some ''ok'' else None) (\<lambda>_. True) 1 = Published ''ok'' \<and> (\<exists>i. 1 \<le> i \<and> i \<le> 3 \<and> i = (2 :: nat))"
proof -
  have "publishWithRetry 3 (\<lambda>n. if n = 2 then Some ''ok'' else None) (\<lambda>_. True) 1 = Published ''ok''"
    by (simp add: publishWithRetry.simps)
  moreover from this have "\<exists>i. 1 \<le> i \<and> i \<le> 3 \<and> i = (2 :: nat)"
    using publication_attempts_bounded [where maxAttempts = 3 and publish = "\<lambda>n. if n = 2 then Some ''ok'' else None" and backoff = "\<lambda>_. True"] by (auto split: if_splits)
  ultimately show ?thesis by blast
qed

lemma outcomes_counted: "length (publishedValues (map snd outcomes)) + length (failuresOf role kindOf outcomes) = length outcomes"
proof (induction outcomes)
  case (Cons a outcomes)
  obtain i p where a: "a = (i, p)" by fastforce
  show ?case using Cons a by (cases p) (simp_all add: failuresOf_def)
qed (simp add: failuresOf_def)

lemma published_from:
  "v \<in> set (publishedValues (map snd (map (\<lambda>i. (i, publishWithRetry n (publish i) (backoff i) 1)) finishing))) \<Longrightarrow>
    \<exists>i k. i \<in> set finishing \<and> 1 \<le> k \<and> k \<le> n \<and> publish i k = Some v"
proof (induction finishing)
  case (Cons i finishing)
  then show ?case using retry_outcome [where n = n and publish = "publish i" and backoff = "backoff i" and k = 1]
    by (cases "publishWithRetry n (publish i) (backoff i) 1") auto
qed simp

lemma missing_none: "missingKinds rq anchors = [] \<longleftrightarrow> (\<forall>kind \<in> set (rq_requiredAnchorKinds rq). \<exists>r \<in> set anchors. ar_kind r = kind)"
  by (auto simp: missingKinds_def filter_empty_conv list_ex_iff)

text \<open>A publication that succeeds is backed by evidence. In whatever order the providers finish, each of them is counted once, with a
  receipt or a failure; every receipt returned is what one of its providers answered, for this checkpoint, within the allowed attempts; and
  the result has the required number of observations and an anchor of each required kind.\<close>

theorem successful_publication_is_backed:
  assumes "createAndPublish co finishingObservers finishingAnchors onPublished created = Inr result"
    and "mset finishingObservers = mset [0..<length (co_observers co)]" and "mset finishingAnchors = mset [0..<length (co_anchors co)]"
  shows "created = Inr (pr_checkpoint result) \<and>
    length (pr_observations result) + length (pr_anchors result) + length (pr_failures result) = length (co_observers co) + length (co_anchors co) \<and>
    (\<forall>r \<in> set (pr_observations result). \<exists>i < length (co_observers co). \<exists>k \<le> co_maxAttempts co. (co_observers co ! i) (pr_checkpoint result) k = Some r) \<and>
    (\<forall>r \<in> set (pr_anchors result). \<exists>i < length (co_anchors co). \<exists>k \<le> co_maxAttempts co. snd (co_anchors co ! i) (pr_checkpoint result) k = Some r) \<and>
    (\<forall>rq. co_requirements co = Some rq \<longrightarrow> rq_minimumObservers rq \<le> int (length (pr_observations result)) \<and>
      (\<forall>kind \<in> set (rq_requiredAnchorKinds rq). \<exists>r \<in> set (pr_anchors result). ar_kind r = kind))"
proof -
  obtain checkpoint where c: "created = Inr checkpoint" "result = publishAll co finishingObservers finishingAnchors checkpoint"
    "assertRequirements co result = None"
    using assms(1) by (auto simp: createAndPublish_def Let_def split: sum.splits option.splits if_splits)
  have range: "set finishingObservers = {0..<length (co_observers co)}" "set finishingAnchors = {0..<length (co_anchors co)}"
    "length finishingObservers = length (co_observers co)" "length finishingAnchors = length (co_anchors co)"
    using assms(2,3) by (metis set_mset_mset set_upt, metis set_mset_mset set_upt, metis size_mset length_upt diff_zero, metis size_mset length_upt diff_zero)
  let ?observed = "map (\<lambda>i. (i, publishWithRetry (co_maxAttempts co) ((co_observers co ! i) checkpoint) (co_backoff co ObserverRole i) 1)) finishingObservers"
  let ?anchored = "map (\<lambda>i. (i, publishWithRetry (co_maxAttempts co) (snd (co_anchors co ! i) checkpoint) (co_backoff co AnchorRole i) 1)) finishingAnchors"
  have r: "pr_checkpoint result = checkpoint" "set (pr_observations result) = set (publishedValues (map snd ?observed))"
    "set (pr_anchors result) = set (publishedValues (map snd ?anchored))"
    "length (pr_observations result) = length (publishedValues (map snd ?observed))" "length (pr_anchors result) = length (publishedValues (map snd ?anchored))"
    "length (pr_failures result) = length (failuresOf ObserverRole (\<lambda>_. None) ?observed) + length (failuresOf AnchorRole (\<lambda>i. Some (fst (co_anchors co ! i))) ?anchored)"
    unfolding c(2) publishAll_def Let_def by simp_all
  have "length (pr_observations result) + length (pr_anchors result) + length (pr_failures result) = length (co_observers co) + length (co_anchors co)"
    using outcomes_counted [of ?observed ObserverRole "\<lambda>_. None"] outcomes_counted [of ?anchored AnchorRole "\<lambda>i. Some (fst (co_anchors co ! i))"] r range by simp
  moreover have "\<exists>i < length (co_observers co). \<exists>k \<le> co_maxAttempts co. (co_observers co ! i) checkpoint k = Some x" if "x \<in> set (pr_observations result)" for x
    using published_from [of x "co_maxAttempts co" "\<lambda>i. (co_observers co ! i) checkpoint" "co_backoff co ObserverRole" finishingObservers] that r(2) range(1) by auto
  moreover have "\<exists>i < length (co_anchors co). \<exists>k \<le> co_maxAttempts co. snd (co_anchors co ! i) checkpoint k = Some x" if "x \<in> set (pr_anchors result)" for x
    using published_from [of x "co_maxAttempts co" "\<lambda>i. snd (co_anchors co ! i) checkpoint" "co_backoff co AnchorRole" finishingAnchors] that r(3) range(2) by auto
  moreover have "\<forall>rq. co_requirements co = Some rq \<longrightarrow> rq_minimumObservers rq \<le> int (length (pr_observations result)) \<and>
      (\<forall>kind \<in> set (rq_requiredAnchorKinds rq). \<exists>r \<in> set (pr_anchors result). ar_kind r = kind)"
    using c(3) by (auto simp: assertRequirements_def Let_def missing_none split: if_splits)
  ultimately show ?thesis using c(1) r(1) by simp
qed

subsection \<open>Examples\<close>

definition demoReceipt :: observationReceipt where
  "demoReceipt = \<lparr>or_core = \<lparr>oc_observerId = ''obs'', oc_observer = demoSigner, oc_ledgerId = ''L'', oc_ledgerEpochId = ''1'', oc_checkpointDigest = ''c'',
     oc_treeSize = 3, oc_observedAt = 0, oc_previousObservationDigest = None\<rparr>, or_observationDigest = ''o'', or_jws = ''sig''\<rparr>"

definition demoCoordinator :: coordinator where
  "demoCoordinator = \<lparr>co_observers = [\<lambda>_ attempt. if attempt = 2 then Some demoReceipt else None, \<lambda>_ _. None],
     co_anchors = [(''worm'', \<lambda>c _. Some (publishAnchor ''worm'' ''w'' 7 c))],
     co_requirements = Some \<lparr>rq_minimumObservers = 1, rq_requiredAnchorKinds = [''worm'']\<rparr>, co_maxAttempts = 2,
     co_backoff = (\<lambda>_ _ _. True), co_collate = map of_char\<rparr>"

lemma successful_publication_is_backed_witness:
  "\<exists>result. createAndPublish demoCoordinator [1, 0] [0] None (Inr demoCheckpoint) = Inr result \<and>
    length (pr_observations result) + length (pr_anchors result) + length (pr_failures result) = 3 \<and>
    (\<exists>r \<in> set (pr_anchors result). ar_kind r = ''worm'')"
proof -
  let ?result = "publishAll demoCoordinator [1, 0] [0] demoCheckpoint"
  have p: "publishWithRetry 2 (\<lambda>_. None) (\<lambda>_. True) 1 = Unpublished 2 False" "publishWithRetry 2 (\<lambda>n. if n = 2 then Some v else None) (\<lambda>_. True) 1 = Published v"
    "publishWithRetry 2 (\<lambda>_. Some v) (\<lambda>_. True) 1 = Published v" for v :: 'a
    by (simp_all add: publishWithRetry.simps)
  have "pr_observations ?result = [demoReceipt]" "pr_anchors ?result = [publishAnchor ''worm'' ''w'' 7 demoCheckpoint]"
    by (simp_all add: publishAll_def demoCoordinator_def p [unfolded One_nat_def])
  then have "assertRequirements demoCoordinator ?result = None"
    by (simp add: assertRequirements_def demoCoordinator_def missing_none publishAnchor_def)
  then have ok: "createAndPublish demoCoordinator [1, 0] [0] None (Inr demoCheckpoint) = Inr ?result"
    by (simp add: createAndPublish_def)
  have "mset [1, 0] = mset [0..<length (co_observers demoCoordinator)]" "mset [0] = mset [0..<length (co_anchors demoCoordinator)]"
    by (simp_all add: demoCoordinator_def numeral_2_eq_2)
  from successful_publication_is_backed [OF ok this] have
    "length (pr_observations ?result) + length (pr_anchors ?result) + length (pr_failures ?result) = 3"
    "\<exists>r \<in> set (pr_anchors ?result). ar_kind r = ''worm''"
    by (simp_all add: demoCoordinator_def)
  with ok show ?thesis by blast
qed

definition grownLeaves :: "string list" where
  "grownLeaves = map leafText ''138f''"

definition sizedCheckpoint :: "nat \<Rightarrow> signedCheckpoint" where
  "sizedCheckpoint n = demoCheckpoint\<lparr>sk_core := (sk_core demoCheckpoint)\<lparr>ck_treeSize := n,
     ck_rootDigest := the (merkleRoot checksum (take n grownLeaves))\<rparr>\<rparr>"

definition grownPath :: "string list" where
  "grownPath = the (buildConsistencyProof checksum 3 grownLeaves True)"

definition grownInputs :: "bytes list" where
  "grownInputs = concat (map (\<lambda>k. treeInputs checksum (take k grownLeaves)) [0, 1, 2, 3, 4]) @
     verifiedInputs checksum 3 4 (the (merkleRoot checksum (take 3 grownLeaves))) grownPath"

definition demoObserver :: observer where
  "demoObserver = \<lparr>ob_observerId = ''obs'', ob_signer = demoSigner, ob_digestObservation = (\<lambda>_. ''o''), ob_sign = (\<lambda>_. ''sig''),
     ob_verifyCheckpoint = (\<lambda>_. True), ob_verifyConsistency = (\<lambda>p c. p = sizedCheckpoint 3 \<and> c = sizedCheckpoint 4)\<rparr>"

lemma grown_inj: "inj_on checksum (set grownInputs)"
proof -
  have "distinct (map checksum (remdups grownInputs))" unfolding grownInputs_def grownPath_def grownLeaves_def by code_simp
  then show ?thesis by (simp only: distinct_map set_remdups)
qed

lemma grown_consistent: "provedConsistent checksum (set grownInputs) (sizedCheckpoint 3) (sizedCheckpoint 4)"
proof -
  define ro rn where "ro = the (merkleRoot checksum (take 3 grownLeaves))" and "rn = the (merkleRoot checksum (take 4 grownLeaves))"
  have loop: "consistencyLoop checksum 2 3 (hd grownPath) (hd grownPath) (tl grownPath) = Some (ro, rn)" "grownPath \<noteq> []" "shiftOdd 2 3 = (2, 3)"
    unfolding ro_def rn_def grownPath_def grownLeaves_def by code_simp+
  obtain first rest where path: "grownPath = first # rest" using loop(2) by (cases grownPath) auto
  have "consistencyInput (sizedCheckpoint 3) (sizedCheckpoint 4) grownPath =
      \<lparr>cv_oldSize = JsInteger 3, cv_newSize = JsInteger 4, cv_oldRoot = ro, cv_newRoot = rn, cv_auditPath = first # rest\<rparr>"
    by (simp add: consistencyInput_def sizedCheckpoint_def ro_def rn_def path)
  moreover have "consistencyLoop checksum 2 3 first first rest = Some (ro, rn)" using loop(1) by (simp add: path del: consistencyLoop.simps)
  ultimately have "verifyConsistency checksum (consistencyInput (sizedCheckpoint 3) (sizedCheckpoint 4) grownPath)"
    using loop(3) by (simp add: verifyConsistency_def validSize_def MAX_SAFE_INTEGER_def del: consistencyLoop.simps)
  then show ?thesis unfolding provedConsistent_def
    by (intro exI [of _ grownPath]) (auto simp: grownInputs_def sizedCheckpoint_def)
qed


lemma observed_trees_are_prefixes_witness:
  "merkleRoot checksum (take 3 grownLeaves) = Some (ck_rootDigest (sk_core (sizedCheckpoint 3))) \<and>
   map fst (fst (observeAll demoObserver [(1, sizedCheckpoint 3), (2, sizedCheckpoint 4), (3, sizedCheckpoint 3)] [])) = [sizedCheckpoint 3, sizedCheckpoint 4]"
proof -
  let ?inputs = "[(1, sizedCheckpoint 3), (2, sizedCheckpoint 4), (3, sizedCheckpoint 3)]"
  have l: "coreLedger (sk_core (sizedCheckpoint n)) = demoLedger" "treeSizeOf (sizedCheckpoint n) = n" "ck_ledgerId (sk_core (sizedCheckpoint n)) = ''L''" for n
    by (simp_all add: sizedCheckpoint_def demoCheckpoint_def coreLedger_def demoLedger_def)
  have nul: "NUL \<notin> set (lr_ledgerId demoLedger)" "NUL \<notin> set ''L''" by (simp_all add: demoLedger_def NUL_def)
  have o: "ob_verifyConsistency demoObserver (sizedCheckpoint 3) (sizedCheckpoint 4)" "ob_verifyCheckpoint demoObserver c" for c
    by (simp_all add: demoObserver_def)
  obtain r r' s where run: "observeAll demoObserver ?inputs [] = ([(sizedCheckpoint 3, r), (sizedCheckpoint 4, r')], s)"
    by (simp add: publishSerialized_def Let_def l o againstLast_def)
  have parts: "set (treeInputs checksum (take k grownLeaves)) \<subseteq> set grownInputs" for k
  proof -
    have "length grownLeaves = 4" by (simp add: grownLeaves_def)
    then have "take k grownLeaves = take (min k 4) grownLeaves" by (simp add: min_def)
    moreover have "min k 4 \<in> {0, 1, 2, 3, 4}" by auto
    ultimately show ?thesis by (auto simp: grownInputs_def)
  qed
  have root: "merkleRoot checksum grownLeaves = Some (ck_rootDigest (sk_core (sizedCheckpoint 4)))" "length grownLeaves = 4"
    unfolding sizedCheckpoint_def grownLeaves_def by code_simp+
  have "treeSizeOf (sizedCheckpoint 3) \<le> length grownLeaves \<and>
      merkleRoot checksum (take (treeSizeOf (sizedCheckpoint 3)) grownLeaves) = Some (ck_rootDigest (sk_core (sizedCheckpoint 3)))"
  proof (rule observed_trees_are_prefixes [OF run _ nul(1) _ grown_inj parts _ _ root(1)])
    show "list_all (\<lambda>(_, c). NUL \<notin> set (ck_ledgerId (sk_core c))) ?inputs" using nul(2) by (simp add: l)
    show "provedConsistent checksum (set grownInputs) p c" if "ob_verifyConsistency demoObserver p c" for p c
      using that grown_consistent by (simp add: demoObserver_def)
    show "filter (\<lambda>(c, _). coreLedger (sk_core c) = demoLedger) [(sizedCheckpoint 3, r), (sizedCheckpoint 4, r')] =
        [(sizedCheckpoint 3, r)] @ [(sizedCheckpoint 4, r')]" by (simp add: l)
  qed (simp_all add: l root(2))
  then show ?thesis using run by (simp add: l)
qed

end
