(* ===== verification/Audit_Mirror.thy ===== *)
theory Audit_Mirror
  imports Audit_Verifier
begin

text \<open>
  \<open>src/audit/mirror-service.ts\<close>: a mirror takes the signed entries of a recorder, in whatever order they arrive, and keeps
  those that verify and continue its own ledger. The journal states of one ingestion are those of its lookup, of its read of the
  head and of its append; \<open>meanwhile\<close> is what others append before the last lookup.
\<close>

datatype mirrorError =
    MirrorLedgerMismatch
  | MirrorVerificationFailed "string list"
  | MirrorOutOfOrder nat "nat option"
  | MirrorContinuityFailed
  | MirrorJournalThrew

record 'j mirror =
  mi_ledger :: ledgerRef
  mi_journal :: "'j journalOps"
  mi_verifier :: artifactVerifier
  mi_policy :: givenPolicy
  mi_wellFormed :: "signedEntry \<Rightarrow> bool"
  mi_digestKey :: "string \<Rightarrow> digest \<Rightarrow> digest"

definition continuousEntry :: "auditHead option \<Rightarrow> signedEntry \<Rightarrow> bool" where
  "continuousEntry head entry \<longleftrightarrow> (case head of
       None \<Rightarrow> ec_sequence (se_core entry) = 0 \<and> ec_previousEntryDigest (se_core entry) = None
     | Some h \<Rightarrow> ec_sequence (se_core entry) = ah_sequence h + 1 \<and> ec_previousEntryDigest (se_core entry) = Some (ah_entryDigest h))"

definition entryReport :: "'j mirror \<Rightarrow> signedEntry \<Rightarrow> auditDimension" where
  "entryReport m entry = vr_cryptographicIntegrity
     (verifyEntries (mi_verifier m) [if mi_wellFormed m entry then Some entry else None] (mi_policy m) [])"

definition raced :: "signedEntry \<Rightarrow> signedEntry option \<Rightarrow> mirrorError + signedEntry" where
  "raced entry found = (case found of
       None \<Rightarrow> Inl MirrorContinuityFailed
     | Some d \<Rightarrow> if se_entryDigest d = se_entryDigest entry then Inr d else Inl MirrorContinuityFailed)"

definition appendToMirror ::
  "'j mirror \<Rightarrow> signedEntry \<Rightarrow> digest \<Rightarrow> auditHead option \<Rightarrow> 'j \<Rightarrow> ('j \<Rightarrow> 'j) \<Rightarrow> (mirrorError + signedEntry) \<times> 'j" where
  "appendToMirror m entry key head j meanwhile =
     (case jo_compareAndAppend (mi_journal m) \<lparr>ai_ledger = mi_ledger m, ai_expectedHead = head, ai_entry = entry, ai_idempotencyKey = key\<rparr> j of
        (Inl _, j') \<Rightarrow> (Inl MirrorJournalThrew, j')
      | (Inr result, j') \<Rightarrow>
          (case result of
             Appended e \<Rightarrow> Inr e
           | DuplicateEntry e \<Rightarrow> Inr e
           | _ \<Rightarrow> raced entry (jo_getByIdempotencyKey (mi_journal m) (ec_ledgerId (se_core entry)) key (meanwhile j')), j'))"

definition ingest :: "'j mirror \<Rightarrow> signedEntry \<Rightarrow> 'j \<Rightarrow> 'j \<Rightarrow> 'j \<Rightarrow> ('j \<Rightarrow> 'j) \<Rightarrow> (mirrorError + signedEntry) \<times> 'j" where
  "ingest m entry jl jh ja meanwhile =
     (let core = se_core entry; report = entryReport m entry; key = mi_digestKey m (ec_ledgerId core) (se_entryDigest entry)
      in if ec_ledgerId core \<noteq> lr_ledgerId (mi_ledger m) \<or> ec_ledgerEpochId core \<noteq> lr_ledgerEpochId (mi_ledger m)
         then (Inl MirrorLedgerMismatch, ja)
         else if dm_verdict report \<noteq> ValidVerdict then (Inl (MirrorVerificationFailed (dm_reasonCodes report)), ja)
         else (case jo_getByIdempotencyKey (mi_journal m) (ec_ledgerId core) key jl of
             Some duplicate \<Rightarrow> (raced entry (Some duplicate), ja)
           | None \<Rightarrow>
               (let head = jo_getHead (mi_journal m) (mi_ledger m) jh
                in if (case head of None \<Rightarrow> 0 < ec_sequence core | Some h \<Rightarrow> ah_sequence h + 1 < ec_sequence core)
                   then (Inl (MirrorOutOfOrder (ec_sequence core) (map_option ah_sequence head)), ja)
                   else if \<not> continuousEntry head entry then (Inl MirrorContinuityFailed, ja)
                   else appendToMirror m entry key head ja meanwhile)))"

subsection \<open>A mirror fed by anyone\<close>

text \<open>The states of a mirror's journal, latest first: an ingestion looks up, reads the head and appends in states that follow one another.\<close>

inductive mirrorRun :: "memJournal mirror \<Rightarrow> memJournal list \<Rightarrow> bool" for m where
  started: "mirrorRun m [emptyJournal]"
| ingested: "mirrorRun m (j # past) \<Longrightarrow> q \<le> p \<Longrightarrow> p \<le> length past \<Longrightarrow>
    mirrorRun m (snd (ingest m entry ((j # past) ! p) ((j # past) ! q) j meanwhile) # j # past)"

definition mirrored :: "memJournal mirror \<Rightarrow> signedEntry \<Rightarrow> bool" where
  "mirrored m entry \<longleftrightarrow> mi_wellFormed m entry \<and>
     (\<exists>pol. mi_policy m = GoodPolicy pol \<and> authenticEntry (mi_verifier m) pol (boundariesOf (mi_verifier m) []) entry)"

lemma report_mirrored: "dm_verdict (entryReport m entry) = ValidVerdict \<longleftrightarrow> mirrored m entry"
proof (cases "mi_policy m")
  case (RefusedPolicy i)
  then show ?thesis by (simp add: entryReport_def mirrored_def verifyEntries_def invalidPolicyReport_def Let_def)
next
  case (GoodPolicy pol)
  then show ?thesis by (simp add: entryReport_def mirrored_def report_valid verifyEntry_Nil split_beta)
qed

lemma continuous_continues:
  "ec_ledgerId (se_core e) = lr_ledgerId l \<Longrightarrow> ec_ledgerEpochId (se_core e) = lr_ledgerEpochId l \<Longrightarrow> continuousEntry h e \<Longrightarrow> continues l h e"
  by (cases h) (simp_all add: continuousEntry_def continues_def)

text \<open>An ingestion leaves the journal alone or appends, against some head it saw, an entry that verifies and continues that head.\<close>

lemma ingest_effect:
  assumes "mi_journal m = memOps"
  obtains (kept) "snd (ingest m entry jl jh ja meanwhile) = ja"
  | (appended) head key where "mirrored m entry" "continues (mi_ledger m) head entry"
      "snd (ingest m entry jl jh ja meanwhile) =
        snd (memCompareAndAppend \<lparr>ai_ledger = mi_ledger m, ai_expectedHead = head, ai_entry = entry, ai_idempotencyKey = key\<rparr> ja)"
proof -
  have effect: "snd (appendToMirror m entry key head ja meanwhile) =
      snd (memCompareAndAppend \<lparr>ai_ledger = mi_ledger m, ai_expectedHead = head, ai_entry = entry, ai_idempotencyKey = key\<rparr> ja)" for key head
    using assms by (simp add: appendToMirror_def memOps_def case_prod_beta)
  show thesis
  proof (cases "snd (ingest m entry jl jh ja meanwhile) = ja")
    case False
    let ?key = "mi_digestKey m (ec_ledgerId (se_core entry)) (se_entryDigest entry)"
    let ?head = "jo_getHead (mi_journal m) (mi_ledger m) jh"
    have "mirrored m entry" "ec_ledgerId (se_core entry) = lr_ledgerId (mi_ledger m)" "ec_ledgerEpochId (se_core entry) = lr_ledgerEpochId (mi_ledger m)"
      "continuousEntry ?head entry" "ingest m entry jl jh ja meanwhile = appendToMirror m entry ?key ?head ja meanwhile"
      using False report_mirrored [of m entry] by (auto simp: ingest_def Let_def split: if_splits option.splits)
    then show thesis using appended [of ?head ?key] continuous_continues effect [of ?key ?head] by simp
  qed (rule kept)
qed

definition goodMirror :: "memJournal mirror \<Rightarrow> memJournal \<Rightarrow> bool" where
  "goodMirror m j \<longleftrightarrow> chainedJournal j \<and> list_all (mirrored m) (memSnapshot (mi_ledger m) j)"

lemma ingest_good:
  assumes "mi_journal m = memOps" and "NUL \<notin> set (lr_ledgerId (mi_ledger m))" and "goodMirror m ja"
  shows "goodMirror m (snd (ingest m entry jl jh ja meanwhile))"
  using assms(1)
proof (cases rule: ingest_effect [where entry = entry and jl = jl and jh = jh and ja = ja and meanwhile = meanwhile])
  case (appended head key)
  let ?i = "\<lparr>ai_ledger = mi_ledger m, ai_expectedHead = head, ai_entry = entry, ai_idempotencyKey = key\<rparr>"
  have "goodInput ?i" using appended(2) assms(2) by (simp add: goodInput_def)
  then have "chainedJournal (snd (memCompareAndAppend ?i ja))" using append_chained assms(3) by (simp add: goodMirror_def)
  moreover have "set (memSnapshot (mi_ledger m) (snd (memCompareAndAppend ?i ja))) \<subseteq> insert entry (set (memSnapshot (mi_ledger m) ja))"
    using appended_entries [of "mi_ledger m" ?i ja] by simp
  ultimately show ?thesis using assms(3) appended(1,3) by (auto simp: goodMirror_def list_all_iff)
qed (use assms(3) in simp)

lemma mirror_good:
  assumes "mirrorRun m h" and "mi_journal m = memOps" and "NUL \<notin> set (lr_ledgerId (mi_ledger m))"
  shows "h \<noteq> [] \<and> goodMirror m (hd h)"
  using assms(1)
proof induction
  case started
  then show ?case using empty_chained by (simp add: goodMirror_def memSnapshot_def) (simp add: emptyJournal_def)
next
  case (ingested j past q p entry meanwhile)
  then show ?case using ingest_good [OF assms(2,3)] by simp
qed

text \<open>C30: A mirror holds a prefix of what was recorded. Whoever feeds it, with whatever entries, in any order and concurrently, each entry
  it keeps verified, its ledger is one hash chain from sequence 0, and if only entries of the recorder's ledger verify, no forged
  receipt being possible, it is a prefix of that ledger.\<close>

theorem mirror_is_a_prefix:
  assumes "mirrorRun m (j # past)" and "mi_journal m = memOps" and "NUL \<notin> set (lr_ledgerId (mi_ledger m))"
    and "chainedLedger (mi_ledger m) recorded"
    and "\<And>pol e. mi_policy m = GoodPolicy pol \<Longrightarrow> authenticEntry (mi_verifier m) pol (boundariesOf (mi_verifier m) []) e \<Longrightarrow>
      se_core e \<in> se_core ` set recorded"
  shows "chainedLedger (mi_ledger m) (memSnapshot (mi_ledger m) j) \<and> list_all (mirrored m) (memSnapshot (mi_ledger m) j) \<and>
    prefix (map se_core (memSnapshot (mi_ledger m) j)) (map se_core recorded)"
proof -
  let ?es = "memSnapshot (mi_ledger m) j"
  have good: "goodMirror m j" using mirror_good [OF assms(1-3)] by simp
  then have chain: "chainedLedger (mi_ledger m) ?es" and all: "list_all (mirrored m) ?es"
    using assms(3) by (simp_all add: goodMirror_def chainedJournal_def)
  have same: "i < length recorded \<and> se_core (?es ! i) = se_core (recorded ! i)" if i: "i < length ?es" for i
  proof -
    have "mirrored m (?es ! i)" using all i by (simp add: list_all_length)
    then have "se_core (?es ! i) \<in> se_core ` set recorded" using assms(5) by (auto simp: mirrored_def)
    then obtain k where k: "k < length recorded" "se_core (?es ! i) = se_core (recorded ! k)" by (auto simp: in_set_conv_nth)
    moreover have "ec_sequence (se_core (?es ! i)) = i" using chain i by (simp add: chainedLedger_def)
    moreover have "ec_sequence (se_core (recorded ! k)) = k" using assms(4) k(1) by (simp add: chainedLedger_def)
    ultimately show ?thesis by simp
  qed
  have "length ?es \<le> length recorded" using same by (meson not_le order_less_irrefl)
  then have "map se_core ?es = take (length ?es) (map se_core recorded)" using same by (intro nth_equalityI) simp_all
  then have "prefix (map se_core ?es) (map se_core recorded)" by (metis take_is_prefix)
  with chain all show ?thesis by blast
qed

text \<open>The next entry of the recorder is taken, and taken again without effect.\<close>

lemma next_entry_is_mirrored:
  assumes "mi_journal m = memOps" and "memInv (mi_ledger m) j" and "mirrored m entry" and "continues (mi_ledger m) (memGetHead (mi_ledger m) j) entry"
    and "memGetByIdempotencyKey (lr_ledgerId (mi_ledger m)) (mi_digestKey m (lr_ledgerId (mi_ledger m)) (se_entryDigest entry)) j = None"
  shows "fst (ingest m entry j j j meanwhile) = Inr entry \<and>
    memSnapshot (mi_ledger m) (snd (ingest m entry j j j meanwhile)) = memSnapshot (mi_ledger m) j @ [entry]"
proof -
  let ?h = "memGetHead (mi_ledger m) j" and ?key = "mi_digestKey m (lr_ledgerId (mi_ledger m)) (se_entryDigest entry)"
  let ?i = "\<lparr>ai_ledger = mi_ledger m, ai_expectedHead = ?h, ai_entry = entry, ai_idempotencyKey = ?key\<rparr>"
  have ids: "ec_ledgerId (se_core entry) = lr_ledgerId (mi_ledger m)" "ec_ledgerEpochId (se_core entry) = lr_ledgerEpochId (mi_ledger m)"
    using assms(4) by (simp_all add: continues_def)
  have "continuousEntry ?h entry" "\<not> (case ?h of None \<Rightarrow> 0 < ec_sequence (se_core entry) | Some h \<Rightarrow> ah_sequence h + 1 < ec_sequence (se_core entry))"
    using assms(4) by (auto simp: continues_def continuousEntry_def split: option.split)
  then have "ingest m entry j j j meanwhile = appendToMirror m entry ?key ?h j meanwhile"
    using assms(1,3,5) ids report_mirrored [of m entry] by (simp add: ingest_def Let_def memOps_def)
  moreover have "fst (memCompareAndAppend ?i j) = Appended entry"
    "memSnapshot (mi_ledger m) (snd (memCompareAndAppend ?i j)) = memSnapshot (mi_ledger m) j @ [entry]"
    using memAppend_fresh(1,2) [of ?i j] assms(5) by simp_all
  ultimately show ?thesis using assms(1) by (simp add: appendToMirror_def memOps_def case_prod_beta)
qed

subsection \<open>Examples\<close>

text \<open>A verifier for which nothing but the two recorded entries is signed.\<close>

definition strictVerifier :: artifactVerifier where
  "strictVerifier = demoVerifier\<lparr>
     av_digestEntry := \<lambda>core. if core = se_core firstEntry then se_entryDigest firstEntry
       else if core = se_core secondEntry then se_entryDigest secondEntry else ''other'',
     av_verifyReceipt := \<lambda>receipt _ _. rc_entryDigest receipt \<in> {se_entryDigest firstEntry, se_entryDigest secondEntry}\<rparr>"

definition demoMirror :: "memJournal mirror" where
  "demoMirror = \<lparr>mi_ledger = demoLedger, mi_journal = memOps, mi_verifier = strictVerifier, mi_policy = GoodPolicy demoPolicy,
     mi_wellFormed = (\<lambda>_. True), mi_digestKey = (@)\<rparr>"

lemma demo_entry_facts: "se_core firstEntry \<noteq> se_core secondEntry" "se_entryDigest firstEntry \<noteq> ''other''" "se_entryDigest secondEntry \<noteq> ''other''"
  "se_entryDigest firstEntry \<noteq> se_entryDigest secondEntry"
  unfolding firstEntry_def secondEntry_def by code_simp+

lemma demo_mirrored: "mirrored demoMirror firstEntry" "mirrored demoMirror secondEntry"
proof -
  have b: "boundariesOf strictVerifier [] = boundariesOf demoVerifier []" by (simp add: boundariesOf_def)
  have "authenticEntry demoVerifier demoPolicy (boundariesOf demoVerifier []) firstEntry" "authenticEntry demoVerifier demoPolicy (boundariesOf demoVerifier []) secondEntry"
    using demo_chain by (simp_all add: verifiedChain_def)
  moreover have "rc_entryDigest (buildAuditRecorderReceiptCore core d) = d" for core d by (simp add: buildAuditRecorderReceiptCore_def)
  ultimately show "mirrored demoMirror firstEntry" "mirrored demoMirror secondEntry"
    using demo_entry_facts(1) by (simp_all add: mirrored_def demoMirror_def b) (simp_all add: authenticEntry_def strictVerifier_def)
qed

lemma strict_only_recorded:
  assumes "authenticEntry strictVerifier pol bs e"
  shows "se_core e \<in> se_core ` set [firstEntry, secondEntry]"
proof -
  have "se_entryDigest e \<in> {se_entryDigest firstEntry, se_entryDigest secondEntry}" "av_digestEntry strictVerifier (se_core e) = se_entryDigest e"
    using assms by (auto simp: authenticEntry_def strictVerifier_def buildAuditRecorderReceiptCore_def)
  then show ?thesis using demo_entry_facts by (auto simp: strictVerifier_def split: if_splits)
qed

definition mirrorAt :: "nat \<Rightarrow> memJournal" where
  "mirrorAt n = fold (\<lambda>e j. snd (ingest demoMirror e j j j id)) (take n [secondEntry, firstEntry, secondEntry]) emptyJournal"

lemma mirror_is_a_prefix_witness:
  "mirrorRun demoMirror [mirrorAt 3, mirrorAt 2, mirrorAt 1, mirrorAt 0] \<and> memSnapshot demoLedger (mirrorAt 3) = [firstEntry, secondEntry] \<and>
   prefix (map se_core (memSnapshot demoLedger (mirrorAt 3))) (map se_core [firstEntry, secondEntry])"
proof -
  have at: "mirrorAt 0 = emptyJournal" "mirrorAt 1 = snd (ingest demoMirror secondEntry (mirrorAt 0) (mirrorAt 0) (mirrorAt 0) id)"
    "mirrorAt 2 = snd (ingest demoMirror firstEntry (mirrorAt 1) (mirrorAt 1) (mirrorAt 1) id)"
    "mirrorAt 3 = snd (ingest demoMirror secondEntry (mirrorAt 2) (mirrorAt 2) (mirrorAt 2) id)"
    by (simp_all add: mirrorAt_def)
  have "mirrorRun demoMirror [mirrorAt 0]" using mirrorRun.started by (simp only: at(1))
  then have "mirrorRun demoMirror [mirrorAt 1, mirrorAt 0]" using mirrorRun.ingested [of demoMirror "mirrorAt 0" "[]" 0 0 secondEntry id] by (simp only: at(2)) simp
  then have "mirrorRun demoMirror [mirrorAt 2, mirrorAt 1, mirrorAt 0]"
    using mirrorRun.ingested [of demoMirror "mirrorAt 1" "[mirrorAt 0]" 0 0 firstEntry id] by (simp only: at(3)) simp
  then have run: "mirrorRun demoMirror [mirrorAt 3, mirrorAt 2, mirrorAt 1, mirrorAt 0]"
    using mirrorRun.ingested [of demoMirror "mirrorAt 2" "[mirrorAt 1, mirrorAt 0]" 0 0 secondEntry id] by (simp only: at(4)) simp
  have l: "mi_ledger demoMirror = demoLedger" "mi_journal demoMirror = memOps" "mi_digestKey demoMirror = (@)" "NUL \<notin> set (lr_ledgerId demoLedger)"
    by (simp_all add: demoMirror_def demoLedger_def NUL_def)
  have chain: "chainedLedger demoLedger [firstEntry, secondEntry]"
    unfolding firstEntry_def secondEntry_def by code_simp
  have held: "memSnapshot demoLedger (mirrorAt 3) = [firstEntry, secondEntry]" by code_simp
  have "prefix (map se_core (memSnapshot demoLedger (mirrorAt 3))) (map se_core [firstEntry, secondEntry])"
    using mirror_is_a_prefix [OF run l(2) _ _ strict_only_recorded] l chain by (simp add: demoMirror_def)
  with run held show ?thesis by blast
qed

end
