(* ===== verification/Ip_Classifier.thy ===== *)
theory Ip_Classifier
  imports Status_List Radix "HOL-Library.Word"
begin

unbundle bit_operations_syntax

text \<open>
  \<open>src/utils/ip-classifier.ts\<close>: which resolved addresses may be connected to, and the ranges it stands for, as a list of
  CIDR blocks. \<open>Number\<close> of a text of decimal digits, the empty one included, is written out; its value on any other
  spelling (signs, exponents, hexadecimal, white space), when it is an integer, is the parameter \<open>numberOf\<close>.
\<close>

subsection \<open>IPv4\<close>

definition octetValue :: "(string \<Rightarrow> int option) \<Rightarrow> string \<Rightarrow> int option" where
  "octetValue numberOf part = (if list_all isDigit part then Some (int (decimalValue part)) else numberOf part)"

definition blockedOctets :: "int \<Rightarrow> int \<Rightarrow> int \<Rightarrow> bool" where
  "blockedOctets a b c \<longleftrightarrow> a = 0 \<or> a = 10 \<or> a = 127 \<or> a = 169 \<and> b = 254 \<or> a = 172 \<and> 16 \<le> b \<and> b \<le> 31 \<or> a = 192 \<and> b = 168 \<or>
     a = 100 \<and> 64 \<le> b \<and> b \<le> 127 \<or> a = 192 \<and> b = 0 \<and> c = 0 \<or> a = 192 \<and> b = 0 \<and> c = 2 \<or> a = 198 \<and> b = 51 \<and> c = 100 \<or>
     a = 203 \<and> b = 0 \<and> c = 113 \<or> a = 198 \<and> (b = 18 \<or> b = 19) \<or> 224 \<le> a"

definition isBlockedIpv4 :: "(string \<Rightarrow> int option) \<Rightarrow> string \<Rightarrow> bool" where
  "isBlockedIpv4 numberOf ip = (case map (octetValue numberOf) (splitOn (\<lambda>c. c = CHR ''.'') ip) of
       [Some a, Some b, Some c, Some d] \<Rightarrow> list_ex (\<lambda>n. n < 0 \<or> 255 < n) [a, b, c, d] \<or> blockedOctets a b c
     | _ \<Rightarrow> True)"

subsection \<open>IPv6\<close>

definition lowerAscii :: "char \<Rightarrow> char" where
  "lowerAscii c = (let n = of_char c :: nat in if 65 \<le> n \<and> n \<le> 90 then char_of (n + 32) else c)"

definition toHex :: "nat \<Rightarrow> string" where
  "toHex n = (if n = 0 then ''0'' else map ((!) hexAlphabet) (digitsOf 16 n))"

text \<open>A trailing dotted quad after a colon, as the text before that colon and the four parts.\<close>

definition trailingQuad :: "string \<Rightarrow> (string \<times> string list) option" where
  "trailingQuad text =
     (let groups = splitOn (\<lambda>c. c = CHR '':'') text; parts = splitOn (\<lambda>c. c = CHR ''.'') (last groups)
      in if 2 \<le> length groups \<and> length parts = 4 \<and> list_all (\<lambda>p. p \<noteq> [] \<and> length p \<le> 3 \<and> list_all isDigit p) parts
         then Some (take (length text - length (last groups) - 1) text, parts) else None)"

text \<open>\<open>None\<close> when an octet of the quad is out of range.\<close>

definition foldQuad :: "string \<Rightarrow> string option" where
  "foldQuad text = (case trailingQuad text of
       Some (before, [a, b, c, d]) \<Rightarrow>
         (if list_ex (\<lambda>p. 255 < decimalValue p) [a, b, c, d] then None
          else Some (before @ '':'' @ toHex (256 * decimalValue a + decimalValue b) @ '':'' @ toHex (256 * decimalValue c + decimalValue d)))
     | _ \<Rightarrow> Some text)"

fun splitDouble :: "string \<Rightarrow> string list" where
  "splitDouble [] = [[]]"
| "splitDouble [c] = [[c]]"
| "splitDouble (c # d # s) =
     (if c = CHR '':'' \<and> d = CHR '':'' then [] # splitDouble s
      else (case splitDouble (d # s) of [] \<Rightarrow> [[c]] | h # t \<Rightarrow> (c # h) # t))"

definition hexNumber :: "string \<Rightarrow> nat option" where
  "hexNumber s = map_option (valueOf 16) (those (map hexValue s))"

definition hextet :: "string \<Rightarrow> nat option" where
  "hextet h = (if h \<noteq> [] \<and> length h \<le> 4 then hexNumber h else None)"

definition parseGroups :: "string \<Rightarrow> nat list option" where
  "parseGroups part = (if part = [] then Some [] else those (map hextet (splitOn (\<lambda>c. c = CHR '':'') part)))"

definition hextetBytes :: "nat list \<Rightarrow> bytes" where
  "hextetBytes hs = concat (map (\<lambda>h. [word_of_nat (h div 256), word_of_nat h]) hs)"

definition fillGroups :: "nat list option \<Rightarrow> nat list option \<Rightarrow> nat list option" where
  "fillGroups head tail = (case (head, tail) of
       (Some h, Some t) \<Rightarrow> (if length h + length t < 8 then Some (h @ replicate (8 - length h - length t) 0 @ t) else None)
     | _ \<Rightarrow> None)"

definition ipv6ToBytes :: "string \<Rightarrow> bytes option" where
  "ipv6ToBytes ip =
     (case foldQuad (takeWhile (\<lambda>c. c \<noteq> CHR ''%'') (map lowerAscii ip)) of
        None \<Rightarrow> None
      | Some text \<Rightarrow>
          (case (case splitDouble text of
               [whole] \<Rightarrow> parseGroups whole
             | [h, t] \<Rightarrow> fillGroups (parseGroups h) (parseGroups t)
             | _ \<Rightarrow> None) of
             None \<Rightarrow> None
           | Some hextets \<Rightarrow> if length hextets = 8 then Some (hextetBytes hextets) else None))"

definition quadText :: "8 word \<Rightarrow> 8 word \<Rightarrow> 8 word \<Rightarrow> 8 word \<Rightarrow> string" where
  "quadText a b c d = decimalText (unat a) @ ''.'' @ decimalText (unat b) @ ''.'' @ decimalText (unat c) @ ''.'' @ decimalText (unat d)"

definition zeroBytes :: "bytes \<Rightarrow> nat \<Rightarrow> nat \<Rightarrow> bool" where
  "zeroBytes b i j \<longleftrightarrow> list_all (\<lambda>x. x = 0) (take (j - i) (drop i b))"

definition blockedBytes :: "(string \<Rightarrow> int option) \<Rightarrow> bytes \<Rightarrow> bool" where
  "blockedBytes numberOf b =
     (let embeddedV4 = isBlockedIpv4 numberOf (quadText (b ! 12) (b ! 13) (b ! 14) (b ! 15))
      in if zeroBytes b 0 10 \<and> b ! 10 = 0xff \<and> b ! 11 = 0xff then embeddedV4
         else if zeroBytes b 0 16 then True
         else if zeroBytes b 0 15 \<and> b ! 15 = 1 then True
         else if b ! 0 = 0xfe \<and> b ! 1 AND 0xc0 = 0x80 then True
         else if b ! 0 AND 0xfe = 0xfc then True
         else if b ! 0 = 0xff then True
         else if b ! 0 = 0xfe \<and> b ! 1 AND 0xc0 = 0xc0 then True
         else if b ! 0 = 0 \<and> b ! 1 = 0x64 \<and> b ! 2 = 0xff \<and> b ! 3 = 0x9b \<and> zeroBytes b 4 12 then embeddedV4
         else if b ! 0 = 0 \<and> b ! 1 = 0x64 \<and> b ! 2 = 0xff \<and> b ! 3 = 0x9b \<and> b ! 4 = 0 \<and> b ! 5 = 1 then embeddedV4
         else if b ! 0 = 0x20 \<and> b ! 1 = 0x02 then isBlockedIpv4 numberOf (quadText (b ! 2) (b ! 3) (b ! 4) (b ! 5))
         else if b ! 0 = 0x20 \<and> b ! 1 = 0x01 \<and> b ! 2 = 0 \<and> b ! 3 = 0 then True
         else if zeroBytes b 0 12 then embeddedV4
         else if b ! 0 = 0x20 \<and> b ! 1 = 0x01 \<and> b ! 2 = 0x0d \<and> b ! 3 = 0xb8 then True
         else if b ! 0 = 0x01 \<and> b ! 1 = 0 \<and> zeroBytes b 2 8 then True
         else False)"

definition isBlockedIpv6 :: "(string \<Rightarrow> int option) \<Rightarrow> string \<Rightarrow> bool" where
  "isBlockedIpv6 numberOf ip = (case ipv6ToBytes ip of None \<Rightarrow> True | Some b \<Rightarrow> blockedBytes numberOf b)"

definition isBlockedAddress :: "(string \<Rightarrow> int option) \<Rightarrow> string \<Rightarrow> bool" where
  "isBlockedAddress numberOf address =
     (if CHR '':'' \<in> set address then isBlockedIpv6 numberOf address else isBlockedIpv4 numberOf address)"

subsection \<open>CIDR blocks\<close>

text \<open>The first \<open>len\<close> bits of an address agree with those of the block; both as octets.\<close>

fun inBlock :: "nat list \<Rightarrow> nat list \<Rightarrow> nat \<Rightarrow> bool" where
  "inBlock (x # xs) (p # ps) len =
     (if 8 \<le> len then x = p \<and> inBlock xs ps (len - 8) else x div 2 ^ (8 - len) = p div 2 ^ (8 - len))"
| "inBlock _ _ len = True"

definition V4_BLOCKS :: "(nat list \<times> nat) list" where
  "V4_BLOCKS = [([0], 8), ([10], 8), ([127], 8), ([169, 254], 16), ([172, 16], 12), ([192, 168], 16), ([100, 64], 10),
     ([192, 0, 0], 24), ([192, 0, 2], 24), ([198, 51, 100], 24), ([203, 0, 113], 24), ([198, 18], 15), ([224], 4), ([240], 4)]"

definition V6_BLOCKS :: "(nat list \<times> nat) list" where
  "V6_BLOCKS = [(replicate 16 0, 128), (replicate 15 0 @ [1], 128), ([0xfe, 0x80], 10), ([0xfc], 7), ([0xff], 8), ([0xfe, 0xc0], 10),
     ([0x20, 0x01, 0, 0], 32), ([0x20, 0x01, 0x0d, 0xb8], 32), ([0x01, 0, 0, 0, 0, 0, 0, 0], 64)]"

text \<open>The blocks that carry an IPv4 address, with its place: mapped, NAT64, local NAT64, compatible, 6to4.\<close>

definition V4_CARRIERS :: "(nat list \<times> nat \<times> nat) list" where
  "V4_CARRIERS = [(replicate 10 0 @ [0xff, 0xff], 96, 12), ([0, 0x64, 0xff, 0x9b, 0, 0, 0, 0, 0, 0, 0, 0], 96, 12),
     ([0, 0x64, 0xff, 0x9b, 0, 1], 48, 12), (replicate 12 0, 96, 12), ([0x20, 0x02], 16, 2)]"

definition inV4Blocks :: "nat list \<Rightarrow> bool" where
  "inV4Blocks q \<longleftrightarrow> list_ex (\<lambda>(p, len). inBlock q p len) V4_BLOCKS"

definition inV6Blocks :: "nat list \<Rightarrow> bool" where
  "inV6Blocks b \<longleftrightarrow> list_ex (\<lambda>(p, len). inBlock b p len) V6_BLOCKS \<or>
     list_ex (\<lambda>(p, len, i). inBlock b p len \<and> inV4Blocks (take 4 (drop i b))) V4_CARRIERS"

subsection \<open>Octets and blocks\<close>

lemma byte_less: "unat (x :: 8 word) < 256"
  using unsigned_less [of x, where ?'a = nat] by simp

lemma top_masks:
  "x AND 0xc0 = 0x80 \<longleftrightarrow> unat x div 64 = 2" "x AND 0xc0 = 0xc0 \<longleftrightarrow> unat x div 64 = 3"
  "x AND 0xfe = 0xfc \<longleftrightarrow> unat x div 2 = 126" for x :: "8 word"
proof -
  define k where "k = uint x"
  have k: "0 \<le> k" "k < 256" using unsigned_less [of x, where ?'a = int] by (simp_all add: k_def)
  have "k AND 192 = 64 * (k div 64 mod 4)" "k AND 254 = 2 * (k div 2 mod 128)"
    using slice_eq_mask [of 6 2 k] slice_eq_mask [of 1 7 k]
    by (simp_all add: push_bit_eq_mult drop_bit_eq_div take_bit_eq_mod mask_eq_exp_minus_1 and.assoc)
  moreover have "uint (x AND 0xc0) = k AND 192" "uint (x AND 0xfe) = k AND 254" by (simp_all add: k_def unsigned_and_eq)
  ultimately have u: "uint (x AND 0xc0) = 64 * (k div 64 mod 4)" "uint (x AND 0xfe) = 2 * (k div 2 mod 128)" by simp_all
  have "int (unat x) = k" by (simp add: k_def)
  then have n: "int (unat x div m) = k div int m" for m by (simp add: zdiv_int)
  have small: "k div 64 mod 4 = k div 64" "k div 2 mod 128 = k div 2" using k by auto
  have "unat x div 64 = j \<longleftrightarrow> k div 64 = int j" "unat x div 2 = j \<longleftrightarrow> k div 2 = int j" for j using n [of 64] n [of 2] by auto
  then show "x AND 0xc0 = 0x80 \<longleftrightarrow> unat x div 64 = 2" "x AND 0xc0 = 0xc0 \<longleftrightarrow> unat x div 64 = 3" "x AND 0xfe = 0xfc \<longleftrightarrow> unat x div 2 = 126"
    by (simp_all add: word_uint_eq_iff u small)
qed

lemma quad_parts: "splitOn (\<lambda>c. c = CHR ''.'') (quadText a b c d) =
    [decimalText (unat a), decimalText (unat b), decimalText (unat c), decimalText (unat d)]"
proof -
  have "\<not> isDigit CHR ''.''" by (simp add: isDigit_def)
  then have "\<forall>c\<in>set (decimalText n). c \<noteq> CHR ''.''" for n using decimalText_digits [of n] by (auto simp: list_all_iff)
  then show ?thesis by (simp add: quadText_def splitOn_append splitOn_clean)
qed

lemma octet_text: "octetValue numberOf (decimalText n) = Some (int n)"
  using decimalText_digits [of n] by (simp add: octetValue_def decimalValue_text)

lemma blocked_quad: "isBlockedIpv4 numberOf (quadText a b c d) \<longleftrightarrow> blockedOctets (int (unat a)) (int (unat b)) (int (unat c))"
proof -
  have "\<not> 255 < int (unat x)" for x :: "8 word" using byte_less [of x] by linarith
  then show ?thesis by (simp add: isBlockedIpv4_def quad_parts octet_text del: of_nat_unat)
qed

lemma octets_in_blocks: "a < 256 \<Longrightarrow> b < 256 \<Longrightarrow> blockedOctets (int a) (int b) (int c) \<longleftrightarrow> inV4Blocks [a, b, c, d]"
proof -
  assume a: "a < 256" "b < 256"
  have n: "int n = numeral k \<longleftrightarrow> n = numeral k" "numeral k \<le> int n \<longleftrightarrow> numeral k \<le> n" "int n \<le> numeral k \<longleftrightarrow> n \<le> numeral k" for n k
    using of_nat_eq_iff [of n "numeral k", where ?'a = int] of_nat_le_iff [of n "numeral k", where ?'a = int]
      of_nat_le_iff [of "numeral k" n, where ?'a = int] by simp_all
  have q: "x div m = k \<longleftrightarrow> k * m \<le> x \<and> x < (k + 1) * m" if "0 < m" for x m k :: nat
    using that by (metis Suc_eq_plus1 div_nat_eqI div_less_iff_less_mult less_eq_div_iff_mult_less_eq less_Suc_eq_le order_refl mult.commute)
  have r: "224 \<le> a \<longleftrightarrow> a div 16 = 14 \<or> a div 16 = 15" "16 \<le> b \<and> b \<le> 31 \<longleftrightarrow> b div 16 = 1" "64 \<le> b \<and> b \<le> 127 \<longleftrightarrow> b div 64 = 1"
    "b = 18 \<or> b = 19 \<longleftrightarrow> b div 2 = 9" using a by (auto simp: q)
  show ?thesis unfolding blockedOctets_def n r of_nat_0_eq_iff of_nat_eq_0_iff inV4Blocks_def V4_BLOCKS_def by simp
qed

lemma sixteen_bytes:
  assumes "length b = 16"
  obtains b0 b1 b2 b3 b4 b5 b6 b7 b8 b9 b10 b11 b12 b13 b14 b15 where "b = [b0, b1, b2, b3, b4, b5, b6, b7, b8, b9, b10, b11, b12, b13, b14, b15]"
  using assms by (auto simp: numeral_eq_Suc length_Suc_conv)

lemma byte_constants:
  "x = 0 \<longleftrightarrow> unat x = 0" "x = 1 \<longleftrightarrow> unat x = 1" "x = 0x02 \<longleftrightarrow> unat x = 0x02" "x = 0x0d \<longleftrightarrow> unat x = 0x0d" "x = 0x20 \<longleftrightarrow> unat x = 0x20"
  "x = 0x64 \<longleftrightarrow> unat x = 0x64" "x = 0x9b \<longleftrightarrow> unat x = 0x9b" "x = 0xb8 \<longleftrightarrow> unat x = 0xb8" "x = 0xfe \<longleftrightarrow> unat x = 0xfe"
  "x = 0xff \<longleftrightarrow> unat x = 0xff" for x :: "8 word"
  by (simp_all add: word_unat_eq_iff)

lemma replicate_step: "replicate (numeral k) x = x # replicate (pred_numeral k) x"
  by (simp add: numeral_eq_Suc)

lemma blocked_bytes:
  assumes "length b = 16"
  shows "blockedBytes numberOf b \<longleftrightarrow> inV6Blocks (map unat b)"
proof -
  obtain b0 b1 b2 b3 b4 b5 b6 b7 b8 b9 b10 b11 b12 b13 b14 b15 where b: "b = [b0, b1, b2, b3, b4, b5, b6, b7, b8, b9, b10, b11, b12, b13, b14, b15]"
    using assms by (rule sixteen_bytes)
  let ?in = "inBlock (map unat b)"
  define M where "M \<longleftrightarrow> zeroBytes b 0 10 \<and> b ! 10 = 0xff \<and> b ! 11 = 0xff"
  define N where "N \<longleftrightarrow> b ! 0 = 0 \<and> b ! 1 = 0x64 \<and> b ! 2 = 0xff \<and> b ! 3 = 0x9b \<and> zeroBytes b 4 12"
  define N' where "N' \<longleftrightarrow> b ! 0 = 0 \<and> b ! 1 = 0x64 \<and> b ! 2 = 0xff \<and> b ! 3 = 0x9b \<and> b ! 4 = 0 \<and> b ! 5 = 1"
  define S6 where "S6 \<longleftrightarrow> b ! 0 = 0x20 \<and> b ! 1 = 0x02"
  define C where "C \<longleftrightarrow> zeroBytes b 0 12"
  define Z where "Z \<longleftrightarrow> zeroBytes b 0 16"
  define L where "L \<longleftrightarrow> zeroBytes b 0 15 \<and> b ! 15 = 1"
  define LL where "LL \<longleftrightarrow> b ! 0 = 0xfe \<and> b ! 1 AND 0xc0 = 0x80"
  define U where "U \<longleftrightarrow> b ! 0 AND 0xfe = 0xfc"
  define F where "F \<longleftrightarrow> b ! 0 = 0xff"
  define S where "S \<longleftrightarrow> b ! 0 = 0xfe \<and> b ! 1 AND 0xc0 = 0xc0"
  define T where "T \<longleftrightarrow> b ! 0 = 0x20 \<and> b ! 1 = 0x01 \<and> b ! 2 = 0 \<and> b ! 3 = 0"
  define D where "D \<longleftrightarrow> b ! 0 = 0x20 \<and> b ! 1 = 0x01 \<and> b ! 2 = 0x0d \<and> b ! 3 = 0xb8"
  define H where "H \<longleftrightarrow> b ! 0 = 0x01 \<and> b ! 1 = 0 \<and> zeroBytes b 2 8"
  define e where "e \<longleftrightarrow> inV4Blocks (map unat [b ! 12, b ! 13, b ! 14, b ! 15])"
  define e6 where "e6 \<longleftrightarrow> inV4Blocks (map unat [b ! 2, b ! 3, b ! 4, b ! 5])"
  note parts = M_def N_def N'_def S6_def C_def Z_def L_def LL_def U_def F_def S_def T_def D_def H_def
  have quad: "isBlockedIpv4 numberOf (quadText w x y z) \<longleftrightarrow> inV4Blocks (map unat [w, x, y, z])" for w x y z
    using octets_in_blocks [OF byte_less byte_less] by (simp add: blocked_quad del: of_nat_unat)
  have code: "blockedBytes numberOf b = (if M then e else if Z then True else if L then True else if LL then True else if U then True
      else if F then True else if S then True else if N then e else if N' then e else if S6 then e6 else if T then True else if C then e
      else if D then True else if H then True else False)"
    unfolding blockedBytes_def Let_def quad parts e_def e6_def ..
  have blocks: "M \<longleftrightarrow> ?in (replicate 10 0 @ [0xff, 0xff]) 96" "N \<longleftrightarrow> ?in [0, 0x64, 0xff, 0x9b, 0, 0, 0, 0, 0, 0, 0, 0] 96"
    "N' \<longleftrightarrow> ?in [0, 0x64, 0xff, 0x9b, 0, 1] 48" "S6 \<longleftrightarrow> ?in [0x20, 0x02] 16" "C \<longleftrightarrow> ?in (replicate 12 0) 96"
    "Z \<longleftrightarrow> ?in (replicate 16 0) 128" "L \<longleftrightarrow> ?in (replicate 15 0 @ [1]) 128" "LL \<longleftrightarrow> ?in [0xfe, 0x80] 10" "U \<longleftrightarrow> ?in [0xfc] 7"
    "F \<longleftrightarrow> ?in [0xff] 8" "S \<longleftrightarrow> ?in [0xfe, 0xc0] 10" "T \<longleftrightarrow> ?in [0x20, 0x01, 0, 0] 32" "D \<longleftrightarrow> ?in [0x20, 0x01, 0x0d, 0xb8] 32"
    "H \<longleftrightarrow> ?in [0x01, 0, 0, 0, 0, 0, 0, 0] 64"
    unfolding parts zeroBytes_def top_masks unfolding b
    by (simp_all add: byte_constants replicate_step)
  have quads: "take 4 (drop 12 (map unat b)) = map unat [b ! 12, b ! 13, b ! 14, b ! 15]" "take 4 (drop 2 (map unat b)) = map unat [b ! 2, b ! 3, b ! 4, b ! 5]"
    unfolding b by simp_all
  have listed: "inV6Blocks (map unat b) \<longleftrightarrow> Z \<or> L \<or> LL \<or> U \<or> F \<or> S \<or> T \<or> D \<or> H \<or> M \<and> e \<or> N \<and> e \<or> N' \<and> e \<or> C \<and> e \<or> S6 \<and> e6"
    unfolding blocks unfolding inV6Blocks_def V6_BLOCKS_def V4_CARRIERS_def e_def e6_def list_ex_Nil_iff list_ex_Cons_iff prod.case quads
    by (simp only: HOL.simp_thms disj_assoc)
  have zero: "zeroBytes b i j \<Longrightarrow> i \<le> k \<Longrightarrow> k < j \<Longrightarrow> j \<le> 16 \<Longrightarrow> b ! k = 0" for i j k
    using assms by (auto simp: zeroBytes_def list_all_length dest!: spec [where x = "k - i"])
  have heads: "M \<Longrightarrow> b ! 0 = 0 \<and> b ! 10 = 0xff" "N \<or> N' \<Longrightarrow> b ! 0 = 0 \<and> b ! 1 = 0x64" "C \<Longrightarrow> b ! 0 = 0 \<and> b ! 1 = 0" "Z \<Longrightarrow> b ! 10 = 0"
    "L \<Longrightarrow> b ! 10 = 0" "H \<Longrightarrow> b ! 0 = 1" "T \<Longrightarrow> b ! 0 = 0x20 \<and> b ! 1 = 1" "D \<Longrightarrow> b ! 0 = 0x20 \<and> b ! 1 = 1" "S6 \<Longrightarrow> b ! 0 = 0x20 \<and> b ! 1 = 2"
    "LL \<or> S \<Longrightarrow> b ! 0 = 0xfe" "U \<Longrightarrow> b ! 0 AND 0xfe = 0xfc" "F \<Longrightarrow> b ! 0 = 0xff"
    unfolding parts by (auto intro: zero)
  have apart: "M \<Longrightarrow> \<not> (Z \<or> L \<or> LL \<or> U \<or> F \<or> S \<or> T \<or> D \<or> H \<or> S6)" "N \<or> N' \<Longrightarrow> \<not> (T \<or> D \<or> H \<or> S6)"
    "S6 \<Longrightarrow> \<not> (T \<or> D \<or> H \<or> C)" "C \<Longrightarrow> \<not> (D \<or> H)"
    using heads by auto
  show ?thesis unfolding code listed using apart by argo
qed

subsection \<open>Every spelling of an address\<close>

fun groupsText :: "nat list \<Rightarrow> string" where
  "groupsText [] = []"
| "groupsText [n] = toHex n"
| "groupsText (n # ns) = toHex n @ '':'' @ groupsText ns"

lemma digitsOf_length: "2 \<le> B \<Longrightarrow> n < B ^ k \<Longrightarrow> length (digitsOf B n) \<le> k"
proof (induction k arbitrary: n)
  case (Suc k)
  then have "n div B < B ^ k" by (simp add: div_less_iff_less_mult mult.commute)
  with Suc show ?case by (cases "n = 0") (simp_all add: digitsOf_pos)
qed simp

lemma hex_chars: "c \<in> set (toHex n) \<Longrightarrow> c \<in> set hexAlphabet"
proof -
  have "length hexAlphabet = 16" "CHR ''0'' \<in> set hexAlphabet" by code_simp+
  then show "c \<in> set (toHex n) \<Longrightarrow> c \<in> set hexAlphabet"
    using digitsOf_less [of 16 _ n] by (auto simp: toHex_def split: if_splits intro!: nth_mem)
qed

lemma toHex_not_empty: "toHex n \<noteq> []"
proof -
  have "digitsOf 16 n = [] \<Longrightarrow> n = 0" using valueOf_digitsOf [of 16 n] by simp
  then show ?thesis by (auto simp: toHex_def)
qed

lemma hex_clean: "c \<in> set hexAlphabet \<Longrightarrow> c \<noteq> CHR '':'' \<and> c \<noteq> CHR ''.'' \<and> c \<noteq> CHR ''%'' \<and> lowerAscii c = c"
proof -
  have "list_all (\<lambda>c. c \<noteq> CHR '':'' \<and> c \<noteq> CHR ''.'' \<and> c \<noteq> CHR ''%'' \<and> lowerAscii c = c) hexAlphabet" by code_simp
  then show "c \<in> set hexAlphabet \<Longrightarrow> c \<noteq> CHR '':'' \<and> c \<noteq> CHR ''.'' \<and> c \<noteq> CHR ''%'' \<and> lowerAscii c = c" by (simp add: list_all_iff)
qed

lemma hextet_toHex:
  assumes "n < 65536"
  shows "hextet (toHex n) = Some n"
proof -
  have "those (map hexValue (map ((!) hexAlphabet) ds)) = Some ds" if "\<forall>d\<in>set ds. d < 16" for ds
    using that by (induction ds) (simp_all add: hex_digits)
  moreover have "hexNumber ''0'' = Some 0" by code_simp
  ultimately have "hexNumber (toHex n) = Some n"
    using digitsOf_less [of 16 _ n] valueOf_digitsOf [of 16 n] by (simp add: toHex_def hexNumber_def)
  moreover have "length (toHex n) \<le> 4" using digitsOf_length [of 16 n 4] assms by (simp add: toHex_def)
  ultimately show ?thesis using toHex_not_empty by (simp add: hextet_def)
qed

lemma split_groups: "ns \<noteq> [] \<Longrightarrow> splitOn (\<lambda>c. c = CHR '':'') (groupsText ns) = map toHex ns"
proof (induction ns rule: groupsText.induct)
  case (2 n)
  show ?case using hex_chars [of _ n] hex_clean by (auto intro!: splitOn_clean)
next
  case (3 n m ns)
  have "\<forall>c\<in>set (toHex n). c \<noteq> CHR '':''" using hex_chars hex_clean by blast
  from splitOn_append [OF this refl] 3 show ?case by simp
qed simp

lemma parse_groups:
  assumes "list_all (\<lambda>n. n < 65536) ns"
  shows "parseGroups (groupsText ns) = Some ns"
proof (cases "ns = []")
  case False
  have "groupsText ns \<noteq> []" using False toHex_not_empty by (cases ns rule: groupsText.cases) auto
  moreover have "those (map hextet (map toHex ns)) = Some ns" using assms by (induction ns) (simp_all add: hextet_toHex)
  ultimately show ?thesis using split_groups [OF False] by (simp add: parseGroups_def)
qed (simp add: parseGroups_def)

lemma split_double_char: "c \<noteq> CHR '':'' \<Longrightarrow> splitDouble (c # s) = (case splitDouble s of [] \<Rightarrow> [[c]] | h # t \<Rightarrow> (c # h) # t)"
  by (cases s) simp_all

lemma split_double_not_empty: "splitDouble s \<noteq> []"
  by (induction s rule: splitDouble.induct) (auto split: list.splits)

lemma split_double_text: "\<forall>c\<in>set xs. c \<noteq> CHR '':'' \<Longrightarrow> splitDouble (xs @ s) = (xs @ hd (splitDouble s)) # tl (splitDouble s)"
  by (induction xs) (auto simp: split_double_char split_double_not_empty split: list.splits)

lemma split_double_groups:
  assumes "s = [] \<or> (\<exists>t. s = '':'' @ '':'' @ t)"
  shows "splitDouble (groupsText ns @ s) = (groupsText ns @ hd (splitDouble s)) # tl (splitDouble s)"
proof (induction ns rule: groupsText.induct)
  case (2 n)
  show ?case using hex_chars [of _ n] hex_clean by (auto intro!: split_double_text)
next
  case (3 n m ns)
  have clean: "\<forall>c\<in>set (toHex k). c \<noteq> CHR '':''" for k using hex_chars hex_clean by blast
  obtain c cs where c: "groupsText (m # ns) = c # cs" "c \<noteq> CHR '':''"
    using toHex_not_empty [of m] clean [of m] by (cases ns; cases "toHex m") auto
  have "splitDouble (CHR '':'' # groupsText (m # ns) @ s) = (CHR '':'' # groupsText (m # ns) @ hd (splitDouble s)) # tl (splitDouble s)"
    using 3 c by simp
  with split_double_text [OF clean] show ?case by simp
qed (simp add: split_double_not_empty)

lemma trailing_groups:
  assumes "\<forall>c\<in>set s. c \<noteq> CHR ''.''" shows "foldQuad s = Some s"
proof -
  have "c \<in> set (last (splitOn P s)) \<Longrightarrow> c \<in> set s" for c P
  proof (induction s)
    case (Cons a s)
    then show ?case by (cases "splitOn P s") (auto split: if_splits)
  qed simp
  then have "splitOn (\<lambda>c. c = CHR ''.'') (last (splitOn (\<lambda>c. c = CHR '':'') s)) = [last (splitOn (\<lambda>c. c = CHR '':'') s)]"
    using assms by (intro splitOn_clean) blast
  then show ?thesis by (simp add: foldQuad_def trailingQuad_def Let_def)
qed

lemma groups_chars: "c \<in> set (groupsText ns) \<Longrightarrow> c \<noteq> CHR ''.'' \<and> c \<noteq> CHR ''%'' \<and> lowerAscii c = c"
proof (induction ns rule: groupsText.induct)
  case (3 n m ns)
  have "lowerAscii CHR '':'' = CHR '':''" by code_simp
  with 3 show ?case using hex_chars [of c n] hex_clean [of c] by auto
qed (auto dest!: hex_chars hex_clean)

lemma plain_text:
  assumes "\<forall>c\<in>set s. c \<noteq> CHR ''.'' \<and> c \<noteq> CHR ''%'' \<and> lowerAscii c = c"
  shows "foldQuad (takeWhile (\<lambda>c. c \<noteq> CHR ''%'') (map lowerAscii s)) = Some s"
proof -
  have "map lowerAscii s = s" using assms by (simp add: map_idI)
  moreover have "takeWhile (\<lambda>c. c \<noteq> CHR ''%'') s = s" using assms by (simp add: takeWhile_eq_all_conv)
  moreover have "foldQuad s = Some s" using trailing_groups assms by blast
  ultimately show ?thesis by (simp only:)
qed

lemma full_form: "list_all (\<lambda>n. n < 65536) ns \<Longrightarrow> length ns = 8 \<Longrightarrow> ipv6ToBytes (groupsText ns) = Some (hextetBytes ns)"
  using plain_text [of "groupsText ns"] groups_chars [of _ ns] split_double_groups [of "[]" ns] parse_groups [of ns]
  by (simp add: ipv6ToBytes_def)

lemma short_form:
  assumes "list_all (\<lambda>n. n < 65536) (h @ t)" "length h + length t < 8"
  shows "ipv6ToBytes (groupsText h @ ''::'' @ groupsText t) = Some (hextetBytes (h @ replicate (8 - length h - length t) 0 @ t))"
proof -
  have "lowerAscii CHR '':'' = CHR '':''" by code_simp
  then have "foldQuad (takeWhile (\<lambda>c. c \<noteq> CHR ''%'') (map lowerAscii (groupsText h @ ''::'' @ groupsText t))) = Some (groupsText h @ ''::'' @ groupsText t)"
    using groups_chars [of _ h] groups_chars [of _ t] by (intro plain_text) auto
  moreover have "splitDouble (groupsText h @ ''::'' @ groupsText t) = [groupsText h, groupsText t]"
    using split_double_groups [of "''::'' @ groupsText t" h] split_double_groups [of "[]" t] by simp
  ultimately show ?thesis using assms parse_groups [of h] parse_groups [of t] by (simp add: ipv6ToBytes_def fillGroups_def)
qed

lemma bytes_sixteen: "ipv6ToBytes ip = Some b \<Longrightarrow> length b = 16"
proof -
  have "length (hextetBytes hs) = 2 * length hs" for hs by (induction hs) (simp_all add: hextetBytes_def)
  then show "ipv6ToBytes ip = Some b \<Longrightarrow> length b = 16" by (auto simp: ipv6ToBytes_def split: option.splits list.splits if_splits)
qed

lemma quad_has_no_colon: "CHR '':'' \<notin> set (quadText a b c d)"
proof -
  have "\<not> isDigit CHR '':''" by (simp add: isDigit_def)
  then have "CHR '':'' \<notin> set (decimalText n)" for n using decimalText_digits [of n] by (auto simp: list_all_iff)
  then show ?thesis by (simp add: quadText_def)
qed

lemma hex_texts:
  "toHex 0 = ''0''" "toHex 1 = ''1''" "toHex 0xff = ''ff''" "toHex 0xffff = ''ffff''" "toHex 0x7f00 = ''7f00''" "toHex 0x2001 = ''2001''"
  "toHex 0x2002 = ''2002''" "toHex 0x808 = ''808''" "toHex 0xdb8 = ''db8''"
  by (simp_all add: toHex_def digitsOf.simps hexAlphabet_def)

subsection \<open>The classification\<close>

text \<open>C38: An address is refused exactly when it lies in one of the listed CIDR blocks: a dotted quad when it lies in an IPv4 block, an IPv6
  literal when it cannot be parsed, when its 16 bytes lie in an IPv6 block, or when they lie in a block that carries an IPv4 address
  (mapped, compatible, NAT64, local NAT64, 6to4) and the carried address lies in an IPv4 block; the order of the tests does not matter.\<close>

theorem address_refused_iff_in_blocks:
  "(isBlockedAddress numberOf (quadText a b c d) \<longleftrightarrow> inV4Blocks (map unat [a, b, c, d])) \<and>
   (CHR '':'' \<in> set s \<longrightarrow>
     (isBlockedAddress numberOf s \<longleftrightarrow> (case ipv6ToBytes s of None \<Rightarrow> True | Some bs \<Rightarrow> inV6Blocks (map unat bs))))"
proof -
  have "isBlockedIpv4 numberOf (quadText a b c d) \<longleftrightarrow> inV4Blocks (map unat [a, b, c, d])"
    using octets_in_blocks [OF byte_less byte_less] by (simp add: blocked_quad del: of_nat_unat)
  then show ?thesis
    by (auto simp: isBlockedAddress_def quad_has_no_colon isBlockedIpv6_def blocked_bytes bytes_sixteen split: option.split)
qed

theorem address_refused_iff_in_blocks_witness:
  "isBlockedAddress (\<lambda>_. None) ''::ffff:7f00:1'' \<and> isBlockedAddress (\<lambda>_. None) (quadText 10 1 2 3) \<and>
   \<not> isBlockedAddress (\<lambda>_. None) ''2002:808:808::1''"
proof -
  have s: "groupsText [] @ ''::'' @ groupsText [0xffff, 0x7f00, 1] = ''::ffff:7f00:1''" "groupsText [0x2002, 0x808, 0x808] @ ''::'' @ groupsText [1] = ''2002:808:808::1''"
    using hex_texts by simp_all
  have p: "ipv6ToBytes ''::ffff:7f00:1'' = Some (hextetBytes ([] @ replicate 5 0 @ [0xffff, 0x7f00, 1]))"
    "ipv6ToBytes ''2002:808:808::1'' = Some (hextetBytes ([0x2002, 0x808, 0x808] @ replicate 4 0 @ [1]))"
    using short_form [of "[]" "[0xffff, 0x7f00, 1]", unfolded s] short_form [of "[0x2002, 0x808, 0x808]" "[1]", unfolded s] by simp_all
  have u: "map unat (hextetBytes ([] @ replicate 5 0 @ [0xffff, 0x7f00, 1])) = [0, 0, 0, 0, 0, 0, 0, 0, 0, 0, 255, 255, 127, 0, 0, 1]"
    "map unat (hextetBytes ([0x2002, 0x808, 0x808] @ replicate 4 0 @ [1])) = [0x20, 2, 8, 8, 8, 8, 0, 0, 0, 0, 0, 0, 0, 0, 0, 1]"
    by (simp_all add: hextetBytes_def replicate_step)
  have v: "inV6Blocks [0, 0, 0, 0, 0, 0, 0, 0, 0, 0, 255, 255, 127, 0, 0, 1]" "\<not> inV6Blocks [0x20, 2, 8, 8, 8, 8, 0, 0, 0, 0, 0, 0, 0, 0, 0, 1]"
    "inV4Blocks [10, 1, 2, 3]"
    by code_simp+
  have "CHR '':'' \<in> set ''::ffff:7f00:1''" "CHR '':'' \<in> set ''2002:808:808::1''" by simp_all
  moreover have "map unat [10, 1, 2, 3 :: 8 word] = [10, 1, 2, 3]" by simp
  ultimately show ?thesis
    using address_refused_iff_in_blocks [where numberOf = "\<lambda>_. None" and a = 10 and b = 1 and c = 2 and d = 3 and s = "''::ffff:7f00:1''"]
      address_refused_iff_in_blocks [where numberOf = "\<lambda>_. None" and s = "''2002:808:808::1''"] v
    by (simp only: p option.case u) blast
qed

text \<open>C39: The spelling of an IPv6 address does not decide its classification: the full form of eight groups and every form that writes a run of
  zero groups as a double colon parse to the same 16 bytes.\<close>

theorem ipv6_spellings_agree:
  assumes "list_all (\<lambda>n. n < 65536) (front @ back)" and "length front + length back < 8"
  shows "\<exists>bs. length bs = 16 \<and>
      ipv6ToBytes (groupsText front @ ''::'' @ groupsText back) = Some bs \<and>
      ipv6ToBytes (groupsText (front @ replicate (8 - length front - length back) 0 @ back)) = Some bs \<and>
      map unat bs = concat (map (\<lambda>n. [n div 256, n mod 256]) (front @ replicate (8 - length front - length back) 0 @ back))"
proof -
  let ?ns = "front @ replicate (8 - length front - length back) 0 @ back"
  have ns: "list_all (\<lambda>n. n < 65536) ?ns" "length ?ns = 8" using assms by (auto simp: list_all_iff)
  have "map unat (hextetBytes ns) = concat (map (\<lambda>n. [n div 256, n mod 256]) ns)" if "list_all (\<lambda>n. n < 65536) ns" for ns
    using that by (induction ns) (auto simp: hextetBytes_def unat_of_nat)
  then show ?thesis using short_form [OF assms] full_form [OF ns] bytes_sixteen ns(1) by blast
qed

theorem ipv6_spellings_agree_witness:
  "ipv6ToBytes ''::1'' = ipv6ToBytes ''0:0:0:0:0:0:0:1'' \<and> ipv6ToBytes ''2001:db8::ff'' \<noteq> None"
proof -
  have "groupsText [] @ ''::'' @ groupsText [1] = ''::1''" "groupsText ([] @ replicate (8 - length ([] :: nat list) - length [1 :: nat]) 0 @ [1]) = ''0:0:0:0:0:0:0:1''"
    "groupsText [0x2001, 0xdb8] @ ''::'' @ groupsText [0xff] = ''2001:db8::ff''"
    using hex_texts by (simp_all add: replicate_step)
  with ipv6_spellings_agree [of "[]" "[1]"] ipv6_spellings_agree [of "[0x2001, 0xdb8]" "[0xff]"] show ?thesis by fastforce
qed

lemma malformed_quads_pass:
  "\<not> isBlockedAddress numberOf ''8.8.8.'' \<and> \<not> isBlockedAddress numberOf ''0177.0.0.1'' \<and> isBlockedAddress numberOf (quadText 127 0 0 1)"
proof -
  have p: "splitOn (\<lambda>c. c = CHR ''.'') ''8.8.8.'' = [''8'', ''8'', ''8'', []]"
    "splitOn (\<lambda>c. c = CHR ''.'') ''0177.0.0.1'' = [''0177'', ''0'', ''0'', ''1'']" by code_simp+
  have d: "list_all isDigit ''8'' \<and> list_all isDigit ''0177'' \<and> list_all isDigit ''0'' \<and> list_all isDigit ''1''"
    "decimalValue ''8'' = 8 \<and> decimalValue ''0177'' = 177 \<and> decimalValue ''0'' = 0 \<and> decimalValue ''1'' = 1 \<and> decimalValue [] = 0" by code_simp+
  have "isBlockedAddress numberOf (quadText 127 0 0 1)"
    by (simp add: isBlockedAddress_def quad_has_no_colon blocked_quad blockedOctets_def)
  then show ?thesis using d by (simp add: isBlockedAddress_def isBlockedIpv4_def p octetValue_def blockedOctets_def)
qed

end
