(* ===== verification/Spec2Isabelle.thy ===== *)
theory Spec2Isabelle
  imports Status_Bits Revocation Session Ttl_Cache Base58 Source_State Call_Gate Audit_Publication Audit_Mirror Ip_Classifier
begin

text \<open>
  KYA-OS MCP binds the calls of an agent to verifiable delegations: credentials that say who may do what, request
  proofs that say who is calling, and an audit ledger that says what was done. This development models the decision
  making parts of its TypeScript sources, under \<open>src/\<close>, and proves what they promise. A path below is relative to that
  directory.

  \<^bold>\<open>How the parts interact.\<close> A tool call arrives with a session (\<open>session/\<close>), a request proof (\<open>proof/\<close>) and a chain of
  delegation credentials (\<open>delegation/\<close>). The session manager admits its handshake once; the credential verifier checks
  each credential and asks a status list whether it is revoked; chain enforcement walks from the leaf to the root and
  compares scopes; the proof verifier checks that the call is the one the holder signed and that it is not replayed;
  holder binding ties proof and delegation together; the policy engine (\<open>policy/\<close>) decides what still needs approval.
  Revocation (\<open>delegation/cascading-revocation.ts\<close>) works on the delegation graph and on the status lists the verifier
  reads. Decisions become events of the audit ledger (\<open>audit/\<close>), a hash chain with a Merkle tree above it.

  \<^bold>\<open>Theories, in the order they build on each other.\<close>
  \<^item> \<open>Kya_Prelude\<close>: strings, \<open>Map\<close> and \<open>Set\<close> in insertion order, numbers, operations with state and exceptions.
  \<^item> \<open>Credential\<close>, \<open>Scope_Matcher\<close>, \<open>Chain_Enforcement\<close>, \<open>Chain_Safety\<close>: the typed members of a credential
    (\<open>types/protocol.ts\<close>), \<open>delegation/scope-matcher.ts\<close>, \<open>delegation/chain-enforcement.ts\<close>. Containment of scopes is
    exact up to resources with dot segments, which a path pattern refuses and a plain prefix does not; the walk equals a
    declarative specification; no link of an accepted chain widens authority, that one case apart.
  \<^item> \<open>Base64\<close>, \<open>Radix\<close>, \<open>Base58\<close>: \<open>utils/base64.ts\<close>, \<open>utils/base58.ts\<close>, with their inverses.
  \<^item> \<open>Status_Bits\<close>, \<open>Status_List\<close>: \<open>utils/statuslist-bits.ts\<close>, \<open>delegation/bitstring.ts\<close>,
    \<open>delegation/statuslist-manager.ts\<close> and the memory store. A published bit is read back, an update changes one entry,
    no two entries share a bit. Interfaces: the locales \<open>bit_store\<close> and \<open>status_list_storage\<close>.
  \<^item> \<open>Delegation_Graph\<close>, \<open>Graph_Safety\<close>, \<open>Graph_Removal\<close>, \<open>Revocation\<close>: \<open>delegation/delegation-graph.ts\<close>,
    \<open>delegation/cascading-revocation.ts\<close>. A graph that was only registered and marked is a forest; under removals a chain is
    the ancestry up to the removed delegations, and a revocation reaches the whole subtree whose links no removal has cut; a
    revoked subtree stays revoked.
  \<^item> \<open>Nonce_Cache\<close>, \<open>Session\<close>: \<open>providers/memory.ts\<close>, \<open>providers/nonce-*.ts\<close>, \<open>session/\<close>. Under a monotone clock a
    handshake is accepted once, unless the clock passes the end of its window between a second call's skew check and its look
    at the cache. Interface: the locale \<open>replay_store\<close>.
  \<^item> \<open>Policy\<close>, \<open>Grant_Store\<close>, \<open>Ttl_Cache\<close>: \<open>policy/\<close>, \<open>providers/grant-store.ts\<close>, \<open>utils/ttl-cache.ts\<close>.
  \<^item> \<open>Merkle_Path\<close>, \<open>Merkle\<close>, \<open>Merkle_Consistency\<close>: \<open>audit/merkle.ts\<close>. The iterative verifiers accept what the recursive
    provers build, and only that, up to a collision of the hash.
  \<^item> \<open>Source_State\<close>, \<open>Audit_Types\<close>, \<open>Audit_Journal\<close>, \<open>Audit_Recorder\<close>, \<open>Recorder_Safety\<close>: \<open>audit/types.ts\<close>,
    \<open>audit/recorder-service.ts\<close>, \<open>audit/providers/\<close>. Compare-and-append keeps a gapless chain whatever the interleaving;
    an accepted submission is in the journal. Interface: the locale \<open>audit_journal\<close>.
  \<^item> \<open>Canonical_Json\<close>, \<open>Proof_Binding\<close>, \<open>Proof_Jws\<close>, \<open>Proof_Verifier\<close>, \<open>Proof_Safety\<close>, \<open>Proof_Generator\<close>:
    \<open>utils/canonical-json.ts\<close>, \<open>utils/crypto-service.ts\<close>, \<open>proof/\<close>. The canonical bytes determine the JSON value; an
    accepted proof was minted by the key holder, for this call; it is accepted once, unless a second call checks its time
    within the window and reaches the replay store after the retention of the nonce; a minted proof is accepted.
  \<^item> \<open>Did_Keys\<close>, \<open>Holder_Binding\<close>: \<open>utils/did-helpers.ts\<close>, \<open>delegation/did-key-resolver.ts\<close>,
    \<open>delegation/holder-binding.ts\<close>. A did:key is its key; a bound request was signed by its subject.
  \<^item> \<open>Vc_Checks\<close>, \<open>Vc_Verifier\<close>: \<open>delegation/vc-verification-checks.ts\<close>, \<open>delegation/vc-jwt-verify.ts\<close>,
    \<open>delegation/vc-verifier.ts\<close>. A warm signature cache accepts nothing a fresh verification would not have.
  \<^item> \<open>Delegation_Check\<close>, \<open>Call_Gate\<close>: \<open>middleware/with-kya-os.delegation-verify.ts\<close>, \<open>with-kya-os.delegation-gate.ts\<close>,
    \<open>with-kya-os.grants.ts\<close>, \<open>with-kya-os.policy-gate.ts\<close>. The verifier, the chain walk, holder binding, the grant store and
    the policy engine composed as the middleware composes them: a handler runs only with authority verified in that call.
  \<^item> \<open>Audit_Verifier\<close>: \<open>audit/verifier.ts\<close>. Valid verdicts mean an authentic chain; its last digest fixes it; a checkpoint
    binds its entries; what the recorder writes verifies.
  \<^item> \<open>Checkpoint_Builder\<close>: \<open>audit/checkpoint.ts\<close> and the core schema of \<open>audit/schemas.ts\<close>. In any interleaving of writers
    and builders the stored checkpoints are consistent, valid for the artifact verifier and provable entry by entry; a builder
    gets its checkpoint exactly when its identifiers fit the schema; no lifecycle hook is lost. Interfaces: the locales
    \<open>readable_journal\<close>, \<open>checkpoint_store\<close> and \<open>ledger_checkpoints\<close>.
  \<^item> \<open>Audit_Mirror\<close>, \<open>Audit_Publication\<close>: \<open>audit/mirror-service.ts\<close>, \<open>audit/providers/observer.ts\<close>,
    \<open>audit/providers/anchor.ts\<close>, \<open>audit/checkpoint-coordinator.ts\<close>. A mirror holds a prefix of its source; an observer sees
    one growing tree per ledger; a publication makes its attempts and no more.
  \<^item> \<open>Ip_Classifier\<close>: \<open>utils/ip-classifier.ts\<close>. The refused addresses are those of a list of blocks.

  \<^bold>\<open>Parameters.\<close> Hash functions, signature checks and key imports (\<open>jose\<close>, WebCrypto), GZIP, the regular expression engine,
  \<open>JSON.parse\<close>, \<open>Date.parse\<close>, DID and status resolvers, the hooks of a host, clock reads and random bytes are arguments of
  the definitions that use them. A hypothesis on one of them says what it is relied on for: that a key verifies only
  what its holder signed, that parsing inverts printing, that a clock does not run backwards. Where a law would be
  false of a real hash (injectivity), the theorem names the collision instead.

  \<^bold>\<open>Texts.\<close> Strings that are only compared or split are character lists; where code units matter (canonical JSON, received
  objects) a string is a list of UTF-16 units. The members that a gate reads from a received credential or proof are taken
  as Latin-1 texts; wider ones are outside the model there.

  \<^bold>\<open>Time, order and errors.\<close> A clock read is an argument per read where the code reads twice. What other callers do at an
  \<open>await\<close> is an argument too: a change of the world in the recorder, a change of the cache in the credential verifier. A
  throw is a value of a sum type or \<open>None\<close>. Error texts are reduced to the check they name, metrics and log lines are left
  out.

  \<^bold>\<open>Bounds.\<close> Numbers are unbounded integers; \<open>MAX_SAFE_INTEGER\<close> and the length limits of the code are part of the model.
  Bytes are 8-bit words. No definition uses fuel, except that the retries of \<open>appendLoop\<close> are bounded as in the code;
  every other loop has a termination proof.

  \<^bold>\<open>Not modelled.\<close> Input and output (fetching, the did:web and cheqd resolvers, file and network stores), the Agent Card
  (\<open>card/\<close>), the OIDC consent flows (\<open>auth/\<close>, \<open>authz/\<close>), the rest of the middleware that wires these parts into an MCP
  server (\<open>middleware/\<close>, \<open>extension/\<close>), replay bundles, read services and the other
  schemas of the audit ledger, outbound
  headers, examples, conformance vectors and tests. Most of them are glue around the parts above or effects the logic
  cannot see; the manifest gives the reason for each.
\<close>

end
